(* ===== verification/HashMap.thy ===== *)
theory HashMap
  imports Prelude
begin

text \<open>
  The hash-map interface of the program (\<open>ska::flat_hash_map\<close>, its subclass
  \<open>lobsim::FlatHashMap\<close> with \<open>contains\<close>, and \<open>std::unordered_map\<close>): lookup by key,
  assignment through \<open>operator[]\<close> or a reference, \<open>emplace\<close> (which keeps an existing
  entry), \<open>erase\<close> by key, and iteration over all entries. The model is an association list with
  distinct keys; its order stands for the iteration order, which no result may depend on.
\<close>

type_synonym ('k, 'v) hmap = "('k \<times> 'v) list"

definition hm_empty :: "('k, 'v) hmap" where
  "hm_empty = []"

definition hm_find :: "('k, 'v) hmap \<Rightarrow> 'k \<Rightarrow> 'v option" where
  "hm_find m k = map_of m k"

definition hm_contains :: "('k, 'v) hmap \<Rightarrow> 'k \<Rightarrow> bool" where
  "hm_contains m k = (hm_find m k \<noteq> None)"

definition hm_put :: "'k \<Rightarrow> 'v \<Rightarrow> ('k, 'v) hmap \<Rightarrow> ('k, 'v) hmap" where
  "hm_put k v m = AList.update k v m"

definition hm_emplace :: "'k \<Rightarrow> 'v \<Rightarrow> ('k, 'v) hmap \<Rightarrow> ('k, 'v) hmap" where
  "hm_emplace k v m = (if hm_contains m k then m else hm_put k v m)"

definition hm_erase :: "'k \<Rightarrow> ('k, 'v) hmap \<Rightarrow> ('k, 'v) hmap" where
  "hm_erase k m = AList.delete k m"

definition hm_get :: "'v \<Rightarrow> ('k, 'v) hmap \<Rightarrow> 'k \<Rightarrow> 'v" where
  \<comment> \<open>a read through \<open>operator[]\<close>, with the default value it would insert\<close>
  "hm_get d m k = (case hm_find m k of None \<Rightarrow> d | Some v \<Rightarrow> v)"

definition hm_wf :: "('k, 'v) hmap \<Rightarrow> bool" where
  "hm_wf m = distinct (map fst m)"

section \<open>Rewrite rules\<close>

lemma hm_find_empty [simp, hm_simps]: "hm_find hm_empty k = None"
  by (simp add: hm_find_def hm_empty_def)

lemma hm_find_put [simp, hm_simps]:
  "hm_find (hm_put k v m) k' = (if k' = k then Some v else hm_find m k')"
  by (simp add: hm_find_def hm_put_def update_conv)

lemma hm_find_erase [simp, hm_simps]:
  "hm_find (hm_erase k m) k' = (if k' = k then None else hm_find m k')"
  by (simp add: hm_find_def hm_erase_def delete_conv)

lemma hm_find_emplace [hm_simps]:
  "hm_find (hm_emplace k v m) k' =
     (if k' = k then Some (case hm_find m k of None \<Rightarrow> v | Some w \<Rightarrow> w) else hm_find m k')"
  by (auto simp: hm_emplace_def hm_contains_def)

lemma hm_find_emplace_new [simp]:
  "hm_find m k = None \<Longrightarrow>
     hm_find (hm_emplace k v m) k' = (if k' = k then Some v else hm_find m k')"
  by (simp add: hm_find_emplace)

lemma hm_contains_iff [hm_simps]: "hm_contains m k \<longleftrightarrow> (\<exists>v. hm_find m k = Some v)"
  by (auto simp: hm_contains_def)

lemma hm_wf_empty [simp]: "hm_wf hm_empty"
  by (simp add: hm_wf_def hm_empty_def)

lemma hm_wf_put [simp]: "hm_wf m \<Longrightarrow> hm_wf (hm_put k v m)"
  by (simp add: hm_wf_def hm_put_def distinct_update)

lemma hm_wf_erase [simp]: "hm_wf m \<Longrightarrow> hm_wf (hm_erase k m)"
  by (simp add: hm_wf_def hm_erase_def distinct_delete)

lemma hm_wf_emplace [simp]: "hm_wf m \<Longrightarrow> hm_wf (hm_emplace k v m)"
  by (simp add: hm_emplace_def)

lemma hm_find_mem: "hm_wf m \<Longrightarrow> hm_find m k = Some v \<longleftrightarrow> (k, v) \<in> set m"
  by (simp add: hm_find_def hm_wf_def)

lemma hm_find_memD: "hm_find m k = Some v \<Longrightarrow> (k, v) \<in> set m"
  by (simp add: hm_find_def map_of_SomeD)

lemma hm_find_None_iff: "hm_find m k = None \<longleftrightarrow> k \<notin> fst ` set m"
  by (simp add: hm_find_def map_of_eq_None_iff)

section \<open>The interface as a locale\<close>

text \<open>
  What the clients rely on. \<open>wf\<close> is the table's own invariant; the laws give every read after a
  write, and iteration (\<open>entries\<close>) lists each live binding once.
\<close>

locale hash_map =
  fixes empty :: "'m"
    and find :: "'m \<Rightarrow> 'k \<Rightarrow> 'v option"
    and put :: "'k \<Rightarrow> 'v \<Rightarrow> 'm \<Rightarrow> 'm"
    and emplace :: "'k \<Rightarrow> 'v \<Rightarrow> 'm \<Rightarrow> 'm"
    and erase :: "'k \<Rightarrow> 'm \<Rightarrow> 'm"
    and entries :: "'m \<Rightarrow> ('k \<times> 'v) list"
    and wf :: "'m \<Rightarrow> bool"
  assumes find_empty: "find empty k = None"
    and find_put: "wf m \<Longrightarrow> find (put k v m) k' = (if k' = k then Some v else find m k')"
    and find_emplace: "wf m \<Longrightarrow> find (emplace k v m) k' =
      (if k' = k then Some (case find m k of None \<Rightarrow> v | Some w \<Rightarrow> w) else find m k')"
    and find_erase: "wf m \<Longrightarrow> find (erase k m) k' = (if k' = k then None else find m k')"
    and entries_iff: "wf m \<Longrightarrow> (k, v) \<in> set (entries m) \<longleftrightarrow> find m k = Some v"
    and distinct_entries: "wf m \<Longrightarrow> distinct (map fst (entries m))"
    and wf_empty: "wf empty"
    and wf_put: "wf m \<Longrightarrow> wf (put k v m)"
    and wf_emplace: "wf m \<Longrightarrow> wf (emplace k v m)"
    and wf_erase: "wf m \<Longrightarrow> wf (erase k m)"
begin

text \<open>Two tables with the same bindings list the same entries, up to order.\<close>

lemma entries_perm:
  assumes "wf m" "wf n" "\<And>k. find m k = find n k"
  shows "mset (entries m) = mset (entries n)"
proof -
  have "distinct (entries m)" "distinct (entries n)"
    using assms(1,2) distinct_entries distinct_map by blast+
  moreover have "set (entries m) = set (entries n)"
    using assms entries_iff by (auto 4 3)
  ultimately show ?thesis
    by (simp add: set_eq_iff_mset_eq_distinct)
qed

lemma emplace_present: "wf m \<Longrightarrow> find m k = Some w \<Longrightarrow> find (emplace k v m) k' = find m k'"
  by (simp add: find_emplace)

lemma erase_emplace_new:
  "wf m \<Longrightarrow> find m k = None \<Longrightarrow> find (erase k (emplace k v m)) k' = find m k'"
  by (simp add: find_erase find_emplace wf_emplace)

end

interpretation hm: hash_map hm_empty hm_find hm_put hm_emplace hm_erase "\<lambda>m. m" hm_wf
  by unfold_locales
    (auto simp: hm_find_emplace hm_find_mem hm_wf_def [symmetric] split: if_splits)

end
