(* ===== verification/PriorityQueue.thy ===== *)
theory PriorityQueue
  imports Prelude
begin

text \<open>
  \<open>std::priority_queue\<close> with a comparator: \<open>lower a b\<close> says that \<open>a\<close> has lower priority than
  \<open>b\<close>, \<open>top\<close> is an element of highest priority, \<open>pop\<close> removes it. The program uses it with
  the default order on \<open>int64\<close> (the price heaps), with \<open>HeapCompare\<close> (the event merge of the
  multi-book simulator) and with a comparator on levels (\<open>l2_top_n\<close>). The model keeps the
  elements in a list, highest priority first.
\<close>

fun pq_push :: "('a \<Rightarrow> 'a \<Rightarrow> bool) \<Rightarrow> 'a \<Rightarrow> 'a list \<Rightarrow> 'a list" where
  "pq_push lower x [] = [x]"
| "pq_push lower x (y # ys) = (if lower y x then x # y # ys else y # pq_push lower x ys)"

definition pq_sorted :: "('a \<Rightarrow> 'a \<Rightarrow> bool) \<Rightarrow> 'a list \<Rightarrow> bool" where
  "pq_sorted lower q = sorted_wrt (\<lambda>a b. \<not> lower a b) q"

fun pq_prune :: "('a \<Rightarrow> bool) \<Rightarrow> 'a list \<Rightarrow> 'a list" where
  \<comment> \<open>the lazy deletion loop: pop while the top is stale\<close>
  "pq_prune live [] = []"
| "pq_prune live (x # xs) = (if live x then x # xs else pq_prune live xs)"

lemma mset_pq_push [simp]: "mset (pq_push lower x q) = add_mset x (mset q)"
  by (induction q) auto

lemma set_pq_push [simp]: "set (pq_push lower x q) = insert x (set q)"
  by (induction q) auto

lemma length_pq_push [simp]: "length (pq_push lower x q) = Suc (length q)"
  by (induction q) auto

lemma length_pq_prune: "length (pq_prune live q) \<le> length q"
  by (induction q) auto

section \<open>Interface and clients\<close>

locale priority_queue =
  fixes lower :: "'a \<Rightarrow> 'a \<Rightarrow> bool"
    and empty :: "'q"
    and push :: "'a \<Rightarrow> 'q \<Rightarrow> 'q"
    and top :: "'q \<Rightarrow> 'a"
    and pop :: "'q \<Rightarrow> 'q"
    and elems :: "'q \<Rightarrow> 'a multiset"
    and invar :: "'q \<Rightarrow> bool"
  assumes elems_empty: "elems empty = {#}"
    and elems_push: "invar q \<Longrightarrow> elems (push x q) = add_mset x (elems q)"
    and elems_pop: "invar q \<Longrightarrow> elems q \<noteq> {#} \<Longrightarrow> elems q = add_mset (top q) (elems (pop q))"
    and top_max: "invar q \<Longrightarrow> x \<in># elems q \<Longrightarrow> \<not> lower (top q) x"
    and invar_empty: "invar empty"
    and invar_push: "invar q \<Longrightarrow> invar (push x q)"
    and invar_pop: "invar q \<Longrightarrow> elems q \<noteq> {#} \<Longrightarrow> invar (pop q)"
begin

lemma top_in: "invar q \<Longrightarrow> elems q \<noteq> {#} \<Longrightarrow> top q \<in># elems q"
  by (metis elems_pop union_single_eq_member)

lemma pop_subset: "invar q \<Longrightarrow> elems q \<noteq> {#} \<Longrightarrow> x \<in># elems (pop q) \<Longrightarrow> x \<in># elems q"
  by (metis elems_pop insert_iff set_mset_add_mset_insert)

lemma size_pop: "invar q \<Longrightarrow> elems q \<noteq> {#} \<Longrightarrow> size (elems (pop q)) < size (elems q)"
  by (metis elems_pop lessI size_add_mset)

end

text \<open>
  The lazy-deletion client: entries go stale in place and are dropped when they reach the top.
  \<open>prune live q\<close> is the loop \<open>while (!q.empty() && !live(q.top())) q.pop()\<close>.
\<close>

locale lazy_queue = priority_queue lower empty push top pop elems invar
  for lower :: "'a \<Rightarrow> 'a \<Rightarrow> bool" and empty :: "'q" and push top pop elems invar +
  fixes prune :: "('a \<Rightarrow> bool) \<Rightarrow> 'q \<Rightarrow> 'q"
  assumes prune_stop: "invar q \<Longrightarrow> elems q = {#} \<or> live (top q) \<Longrightarrow> prune live q = q"
    and prune_step: "invar q \<Longrightarrow> elems q \<noteq> {#} \<Longrightarrow> \<not> live (top q) \<Longrightarrow>
      prune live q = prune live (pop q)"
begin

lemma prune_induct [consumes 1, case_names stop step]:
  assumes "invar q"
    and "\<And>q. invar q \<Longrightarrow> elems q = {#} \<or> live (top q) \<Longrightarrow> P q"
    and "\<And>q. invar q \<Longrightarrow> elems q \<noteq> {#} \<Longrightarrow> \<not> live (top q) \<Longrightarrow> P (pop q) \<Longrightarrow> P q"
  shows "P q"
  using assms(1)
proof (induction "size (elems q)" arbitrary: q rule: less_induct)
  case less
  then show ?case
    using assms(2,3) size_pop invar_pop by metis
qed

lemma invar_prune: "invar q \<Longrightarrow> invar (prune live q)"
  by (induction q rule: prune_induct [where live = live]) (simp_all add: prune_stop prune_step)

lemma prune_subset: "invar q \<Longrightarrow> x \<in># elems (prune live q) \<Longrightarrow> x \<in># elems q"
proof (induction q rule: prune_induct [where live = live])
  case (stop q)
  then show ?case by (simp add: prune_stop)
next
  case (step q)
  then show ?case by (metis prune_step pop_subset)
qed

text \<open>No live entry is ever dropped.\<close>

lemma prune_keeps: "invar q \<Longrightarrow> live x \<Longrightarrow> x \<in># elems q \<Longrightarrow> x \<in># elems (prune live q)"
proof (induction q rule: prune_induct [where live = live])
  case (stop q)
  then show ?case by (simp add: prune_stop)
next
  case (step q)
  then have "x \<in># elems (pop q)"
    by (metis elems_pop insert_iff set_mset_add_mset_insert)
  with step show ?case by (metis prune_step)
qed

lemma prune_top_live: "invar q \<Longrightarrow> elems (prune live q) \<noteq> {#} \<Longrightarrow> live (top (prune live q))"
proof (induction q rule: prune_induct [where live = live])
  case (stop q)
  then show ?case by (metis prune_stop)
next
  case (step q)
  then show ?case by (metis prune_step)
qed

text \<open>The top that survives is the best of all live entries the queue held.\<close>

lemma prune_top_best:
  assumes "invar q" "live x" "x \<in># elems q"
  shows "\<not> lower (top (prune live q)) x"
  using assms prune_keeps invar_prune top_max by metis

end

section \<open>The list model implements the interface for every strict weak order\<close>

locale weak_order =
  fixes lower :: "'a \<Rightarrow> 'a \<Rightarrow> bool"
  assumes asym: "lower a b \<Longrightarrow> \<not> lower b a"
    and neg_trans: "\<not> lower a b \<Longrightarrow> \<not> lower b c \<Longrightarrow> \<not> lower a c"
begin

lemma pq_sorted_push: "pq_sorted lower q \<Longrightarrow> pq_sorted lower (pq_push lower x q)"
  unfolding pq_sorted_def
proof (induction q)
  case Nil
  then show ?case by simp
next
  case (Cons y q)
  then show ?case using asym neg_trans [of y _ x] by auto
qed

end

sublocale weak_order \<subseteq> lazy_queue lower "[]" "pq_push lower" hd tl mset "pq_sorted lower" pq_prune
proof unfold_locales
  fix q and x
  assume "pq_sorted lower q" and "x \<in># mset q"
  then show "\<not> lower (hd q) x"
    using asym by (cases q) (auto simp: pq_sorted_def)
next
  fix live and q :: "'a list"
  show "mset q = {#} \<or> live (hd q) \<Longrightarrow> pq_prune live q = q"
    by (cases q) auto
  show "mset q \<noteq> {#} \<Longrightarrow> \<not> live (hd q) \<Longrightarrow> pq_prune live q = pq_prune live (tl q)"
    by (cases q) auto
next
  fix q :: "'a list"
  assume q: "pq_sorted lower q" "mset q \<noteq> {#}"
  then show "pq_sorted lower (tl q)"
    by (cases q) (auto simp: pq_sorted_def)
  from q show "mset q = add_mset (hd q) (mset (tl q))"
    by (cases q) auto
next
  show "pq_sorted lower []"
    by (simp add: pq_sorted_def)
qed (auto simp: pq_sorted_push)

text \<open>The price heaps: \<open>std::priority_queue<std::int64_t>\<close>, largest value on top.\<close>

interpretation ipq: weak_order "(<) :: int \<Rightarrow> int \<Rightarrow> bool"
  by unfold_locales auto

end
