(* ===== verification/NodePool.thy ===== *)
theory NodePool
  imports Prelude
begin

text \<open>
  \<open>NodePool<NodeType>\<close> of \<open>paper_trading_simulator.hpp\<close>: a vector of nodes that never
  reallocates within its reserved capacity, so a \<open>NodeType*\<close> is the index of a node, and
  \<open>nullptr\<close> is \<open>None\<close>. The intrusive list hook of a node is not a field here: the lists are
  modelled as lists of node indices, a node is linked where its index occurs, and the callers
  unlink it by removing the index (every \<open>release\<close> of the source follows such a removal).
\<close>

record 'p Node =
  node_payload :: 'p
  pool_index :: nat
  in_use :: bool

record 'p NodePool =
  pool :: "'p Node list"
  free_list :: "nat list"

definition np_empty :: "'p NodePool" where
  "np_empty = \<lparr>pool = [], free_list = []\<rparr>"

definition np_acquire :: "'p \<Rightarrow> nat \<Rightarrow> 'p NodePool \<Rightarrow> nat option \<times> 'p NodePool" where
  \<comment> \<open>\<open>p\<close> is the payload of a default-constructed node\<close>
  "np_acquire p max_capacity P =
     (if free_list P \<noteq> [] then
        let idx = last (free_list P);
            node = pool P ! idx
        in (Some idx, P\<lparr>free_list := butlast (free_list P),
                        pool := (pool P)[idx := node\<lparr>in_use := True\<rparr>]\<rparr>)
      else if length (pool P) \<ge> max_capacity then (None, P)
      else let idx = length (pool P)
           in (Some idx, P\<lparr>pool := pool P @ [\<lparr>node_payload = p, pool_index = idx, in_use = True\<rparr>]\<rparr>))"

definition np_release :: "nat option \<Rightarrow> 'p NodePool \<Rightarrow> 'p NodePool" where
  "np_release n P =
     (case n of
        None \<Rightarrow> P
      | Some i \<Rightarrow>
          let node = pool P ! i in
          if \<not> in_use node then P
          else P\<lparr>pool := (pool P)[i := node\<lparr>in_use := False\<rparr>],
                 free_list := free_list P @ [pool_index node]\<rparr>)"

definition np_reset :: "'p NodePool \<Rightarrow> 'p NodePool" where
  "np_reset P = \<lparr>pool = map (\<lambda>n. n\<lparr>in_use := False\<rparr>) (pool P),
                 free_list = [0..<length (pool P)]\<rparr>"

definition np_size :: "'p NodePool \<Rightarrow> nat" where
  "np_size P = length (pool P)"

text \<open>Reading and writing the payload of a node through its pointer.\<close>

definition np_get :: "'p NodePool \<Rightarrow> nat \<Rightarrow> 'p" where
  "np_get P i = node_payload (pool P ! i)"

definition np_set :: "nat \<Rightarrow> 'p \<Rightarrow> 'p NodePool \<Rightarrow> 'p NodePool" where
  "np_set i p P = P\<lparr>pool := (pool P)[i := (pool P ! i)\<lparr>node_payload := p\<rparr>]\<rparr>"

section \<open>Invariant\<close>

definition np_live :: "'p NodePool \<Rightarrow> nat set" where
  "np_live P = {i. i < length (pool P) \<and> in_use (pool P ! i)}"

definition np_wf :: "nat \<Rightarrow> 'p NodePool \<Rightarrow> bool" where
  "np_wf cap P \<longleftrightarrow>
     length (pool P) \<le> cap \<and>
     (\<forall>i < length (pool P). pool_index (pool P ! i) = i) \<and>
     distinct (free_list P) \<and>
     set (free_list P) = {i. i < length (pool P) \<and> \<not> in_use (pool P ! i)}"

lemma np_live_code [code]: "np_live P = set (filter (\<lambda>i. in_use (pool P ! i)) [0..<length (pool P)])"
  by (auto simp: np_live_def)

lemma np_wf_code [code]:
  "np_wf cap P \<longleftrightarrow>
     length (pool P) \<le> cap \<and>
     list_all (\<lambda>i. pool_index (pool P ! i) = i) [0..<length (pool P)] \<and>
     distinct (free_list P) \<and>
     set (free_list P) = set (filter (\<lambda>i. \<not> in_use (pool P ! i)) [0..<length (pool P)])"
  by (auto simp: np_wf_def list_all_iff)

lemma np_wf_empty: "np_wf cap np_empty"
  by (simp add: np_wf_def np_empty_def)

lemma np_live_empty [simp]: "np_live np_empty = {}"
  by (simp add: np_live_def np_empty_def)

lemma finite_np_live [simp]: "finite (np_live P)"
  by (simp add: np_live_def)

lemma np_free_live: "np_wf cap P \<Longrightarrow> i \<in> set (free_list P) \<Longrightarrow> i \<notin> np_live P"
  by (auto simp: np_wf_def np_live_def)

text \<open>What \<open>acquire\<close> does on a recycled node and on a fresh one.\<close>

lemma np_acquire_recycle:
  assumes wf: "np_wf cap P" and ne: "free_list P \<noteq> []"
    and eq: "np_acquire p m P = (r, P')"
  shows "r = Some (last (free_list P)) \<and> last (free_list P) \<notin> np_live P \<and>
    np_live P' = insert (last (free_list P)) (np_live P) \<and> np_wf cap P' \<and>
    (\<forall>j. np_get P' j = np_get P j)"
proof -
  let ?i = "last (free_list P)"
  have d: "distinct (butlast (free_list P) @ [?i])"
    using wf ne by (simp add: np_wf_def)
  from ne have mem: "?i \<in> set (free_list P)" by simp
  with wf have i: "?i < length (pool P)" "\<not> in_use (pool P ! ?i)"
    by (auto simp: np_wf_def)
  have b: "set (butlast (free_list P)) = set (free_list P) - {?i}"
  proof -
    have "set (butlast (free_list P) @ [?i]) = set (free_list P)"
      using ne by simp
    with d show ?thesis by auto
  qed
  have P': "P' = P\<lparr>free_list := butlast (free_list P),
      pool := (pool P)[?i := (pool P ! ?i)\<lparr>in_use := True\<rparr>]\<rparr>" and r: "r = Some ?i"
    using eq ne by (auto simp: np_acquire_def Let_def)
  show ?thesis
    using i b wf d unfolding P' r
    by (auto simp: np_wf_def np_live_def np_get_def nth_list_update_iff)
qed

lemma np_acquire_fresh:
  assumes wf: "np_wf cap P" and e: "free_list P = []" and eq: "np_acquire p cap P = (r, P')"
  shows "if length (pool P) < cap
    then r = Some (length (pool P)) \<and> np_live P' = insert (length (pool P)) (np_live P) \<and>
      np_wf cap P' \<and> (\<forall>j < length (pool P). np_get P' j = np_get P j)
    else r = None \<and> P' = P \<and> np_live P = {..<cap}"
proof -
  have all: "\<forall>i < length (pool P). in_use (pool P ! i)"
    using wf e by (auto simp: np_wf_def)
  show ?thesis
    using wf e eq all
    by (auto simp: np_acquire_def np_wf_def np_live_def np_get_def nth_append Let_def
        less_Suc_eq split: if_splits)
qed

section \<open>The allocator interface\<close>

text \<open>
  What the order book relies on: \<open>acquire\<close> gives a node nobody holds and leaves the nodes in
  use alone, fails only when \<open>cap\<close> nodes are in use, and \<open>release\<close> gives a node back once.
\<close>

locale node_allocator =
  fixes acquire :: "nat \<Rightarrow> 'h \<Rightarrow> nat option \<times> 'h"
    and release :: "nat option \<Rightarrow> 'h \<Rightarrow> 'h"
    and live :: "'h \<Rightarrow> nat set"
    and get :: "'h \<Rightarrow> nat \<Rightarrow> 'p"
    and set_node :: "nat \<Rightarrow> 'p \<Rightarrow> 'h \<Rightarrow> 'h"
    and wf :: "nat \<Rightarrow> 'h \<Rightarrow> bool"
  assumes acquire_Some: "wf cap h \<Longrightarrow> acquire cap h = (Some i, h') \<Longrightarrow>
      i \<notin> live h \<and> live h' = insert i (live h) \<and> wf cap h' \<and> (\<forall>j \<in> live h. get h' j = get h j)"
    and acquire_None: "wf cap h \<Longrightarrow> acquire cap h = (None, h') \<Longrightarrow> h' = h \<and> card (live h) = cap"
    and release_live: "wf cap h \<Longrightarrow> i \<in> live h \<Longrightarrow>
      live (release (Some i) h) = live h - {i} \<and> wf cap (release (Some i) h)"
    and release_get: "get (release n h) j = get h j"
    and get_set: "i \<in> live h \<Longrightarrow> get (set_node i p h) j = (if j = i then p else get h j)"
    and live_set: "live (set_node i p h) = live h"
    and wf_set: "wf cap h \<Longrightarrow> wf cap (set_node i p h)"
    and live_bound: "wf cap h \<Longrightarrow> finite (live h) \<and> card (live h) \<le> cap"
begin

text \<open>A node acquired for a new order is distinct from every node a caller still holds.\<close>

lemma acquire_fresh_for:
  "wf cap h \<Longrightarrow> acquire cap h = (Some i, h') \<Longrightarrow> A \<subseteq> live h \<Longrightarrow> i \<notin> A"
  using acquire_Some by blast

lemma acquire_release:
  assumes "wf cap h" "acquire cap h = (Some i, h')"
  shows "live (release (Some i) h') = live h"
  using acquire_Some [OF assms] release_live [of cap h' i] by auto

lemma acquire_None_iff_full:
  assumes "wf cap h"
  shows "fst (acquire cap h) = None \<longleftrightarrow> card (live h) = cap"
proof (cases "acquire cap h")
  case (Pair r h')
  show ?thesis
  proof (cases r)
    case None
    with Pair acquire_None [OF assms] show ?thesis by auto
  next
    case (Some i)
    with Pair assms have a: "i \<notin> live h" "live h' = insert i (live h)" "wf cap h'"
      using acquire_Some by blast+
    then have "card (live h') = Suc (card (live h))"
      using live_bound [OF assms] by simp
    moreover have "card (live h') \<le> cap"
      using live_bound [OF a(3)] by simp
    ultimately show ?thesis using Pair Some by simp
  qed
qed

end

lemma np_release_live:
  assumes wf: "np_wf cap P" and i: "i \<in> np_live P"
  shows "np_live (np_release (Some i) P) = np_live P - {i} \<and> np_wf cap (np_release (Some i) P)"
  using assms by (auto simp: np_wf_def np_live_def np_release_def Let_def nth_list_update_iff)

lemma np_release_get: "np_get (np_release n P) j = np_get P j"
  by (auto simp: np_release_def np_get_def Let_def nth_list_update_iff split: option.splits)

lemma np_get_set: "i \<in> np_live P \<Longrightarrow> np_get (np_set i p P) j = (if j = i then p else np_get P j)"
  by (auto simp: np_get_def np_set_def np_live_def nth_list_update_iff)

lemma np_live_set [simp]: "np_live (np_set i p P) = np_live P"
  by (auto simp: np_live_def np_set_def nth_list_update_iff)

lemma np_wf_set: "np_wf cap P \<Longrightarrow> np_wf cap (np_set i p P)"
  by (auto simp: np_wf_def np_set_def nth_list_update_iff)

lemma np_live_bound: "np_wf cap P \<Longrightarrow> finite (np_live P) \<and> card (np_live P) \<le> cap"
proof -
  assume "np_wf cap P"
  then have "np_live P \<subseteq> {..<cap}" by (auto simp: np_wf_def np_live_def)
  then have "card (np_live P) \<le> card {..<cap}" by (intro card_mono) auto
  then show ?thesis by simp
qed

lemma np_acquire_Some:
  assumes wf: "np_wf cap P" and eq: "np_acquire p cap P = (Some i, P')"
  shows "i \<notin> np_live P \<and> np_live P' = insert i (np_live P) \<and> np_wf cap P' \<and>
    (\<forall>j \<in> np_live P. np_get P' j = np_get P j)"
proof (cases "free_list P = []")
  case True
  then show ?thesis
    using np_acquire_fresh [OF wf True eq] by (auto simp: np_live_def split: if_splits)
next
  case False
  then show ?thesis
    using np_acquire_recycle [OF wf False eq] by auto
qed

lemma np_acquire_None:
  assumes wf: "np_wf cap P" and eq: "np_acquire p cap P = (None, P')"
  shows "P' = P \<and> card (np_live P) = cap"
proof (cases "free_list P = []")
  case True
  then show ?thesis
    using np_acquire_fresh [OF wf True eq] by (auto split: if_splits)
next
  case False
  then show ?thesis
    using np_acquire_recycle [OF wf False eq] by auto
qed

interpretation np: node_allocator "np_acquire p" np_release np_live np_get np_set np_wf
  for p
  by unfold_locales
    (assumption | rule np_acquire_Some np_acquire_None np_release_live np_release_get
      np_get_set np_live_set np_wf_set np_live_bound)+

lemma np_wf_reset: "np_wf cap P \<Longrightarrow> np_wf cap (np_reset P)"
  by (auto simp: np_wf_def np_reset_def)

lemma np_live_reset [simp]: "np_live (np_reset P) = {}"
  by (auto simp: np_live_def np_reset_def)

end
