(* ===== verification/LobTypes.thy ===== *)
theory LobTypes
  imports Prelude
begin

text \<open>
  The vocabulary of the engine: \<open>types.hpp\<close>, \<open>lob_event.hpp\<close>, \<open>log_sink.hpp\<close> and
  \<open>book_id.hpp\<close>. An \<open>int64\<close> is an \<open>int\<close> and an unsigned counter or size a \<open>nat\<close> (signed
  overflow is undefined behaviour in the source, and the counters would need more than
  \<open>2 ^ 64\<close> events). Record fields carry a prefix, since several structs share field names.
\<close>

section \<open>types.hpp\<close>

datatype Side = SELL | BUY

text \<open>
  \<open>UpdateType\<close> is an enum over \<open>uint8\<close>; \<open>RAW_UPDATE_TYPE\<close> stands for the values without an
  enumerator, which reach the \<open>default\<close> branch of \<open>update\<close>.
\<close>

datatype UpdateType = ADD | DELETE | SUBTRACT | MATCH | SET | AGGRESSIVE_TRADE
  | RAW_UPDATE_TYPE nat

datatype UpdateSource = HISTORICAL | STRATEGY | UNKNOWN

definition opposite :: "Side \<Rightarrow> Side" where
  \<comment> \<open>the expression \<open>side == Side::BUY ? Side::SELL : Side::BUY\<close>\<close>
  "opposite s = (case s of BUY \<Rightarrow> SELL | SELL \<Rightarrow> BUY)"

lemma opposite_simps [simp]: "opposite BUY = SELL" "opposite SELL = BUY"
  by (simp_all add: opposite_def)

lemma opposite_opposite [simp]: "opposite (opposite s) = s"
  by (cases s) simp_all

lemma opposite_neq [simp]: "opposite s \<noteq> s" "s \<noteq> opposite s"
  by (cases s; simp)+

lemma side_cases_wrt: "s' = s \<or> s' = opposite s"
  by (cases s; cases s') simp_all

section \<open>lob_event.hpp\<close>

definition UnknownOrderIdSentinel :: int where
  "UnknownOrderIdSentinel = - 1"

definition UnknownTraderIdSentinel :: int where
  "UnknownTraderIdSentinel = - 1"

definition UnknownAggressorIdSentinel :: int where
  "UnknownAggressorIdSentinel = - 1"

definition NoAggressorNeededSentinel :: int where
  "NoAggressorNeededSentinel = - 2"

record NormalizedLobEvent =
  ev_ts_exchange :: int
  ev_ts_received :: int
  ev_side :: Side
  ev_update_type :: UpdateType
  ev_price_ticks :: int
  ev_quantity_lots :: int
  ev_order_id :: int
  ev_trader_id :: int
  ev_aggressor_id :: int
  ev_update_source :: UpdateSource
  ev_symbol_id :: string

definition default_event :: NormalizedLobEvent where
  \<comment> \<open>\<open>NormalizedLobEvent ev{}\<close>: zeroes, and the default member initialisers\<close>
  "default_event = \<lparr>ev_ts_exchange = 0, ev_ts_received = 0, ev_side = SELL, ev_update_type = ADD,
     ev_price_ticks = 0, ev_quantity_lots = 0, ev_order_id = 0,
     ev_trader_id = UnknownTraderIdSentinel, ev_aggressor_id = NoAggressorNeededSentinel,
     ev_update_source = HISTORICAL, ev_symbol_id = []\<rparr>"

section \<open>log_sink.hpp\<close>

record FillRecord =
  fr_seq :: nat
  fr_ts_exchange :: int
  fr_ts_received :: int
  fr_price_ticks :: int
  fr_qty_lots :: int
  fr_maker_side :: Side
  fr_maker_order_id :: int
  fr_maker_trader_id :: int
  fr_maker_source :: UpdateSource
  fr_taker_side :: Side
  fr_taker_order_id :: int
  fr_taker_trader_id :: int
  fr_taker_source :: UpdateSource
  fr_book_key :: string

record EventApplyRecord =
  ar_seq :: nat
  ar_ts_exchange :: int
  ar_ts_received :: int
  ar_side :: Side
  ar_update_type :: UpdateType
  ar_source :: UpdateSource
  ar_price_ticks :: int
  ar_qty_lots :: int
  ar_order_id :: int
  ar_trader_id :: int
  ar_aggressor_id :: int
  ar_book_key :: string

datatype DiagnosticRecordCode =
    ADD_DUPLICATE_ORDER_ID
  | DELETE_NON_EXISTING_PAPER_ORDER_ID
  | DELETE_NON_EXISTING_HISTORICAL_ORDER_ID
  | PROVIDED_SIDE_ON_DELETE_DIFFERS_FROM_ORIGINAL_SIDE_FOR_ORDER_ID
  | PROVIDED_PRICE_ON_DELETE_DIFFERS_FROM_ORIGINAL_PRICE_FOR_ORDER_ID
  | SET_WITH_NEGATIVE_LIQUIDITY_REQUESTED_WAS_SET_TO_ZERO
  | SET_NON_EXISTING_ORDER_ID_IS_REJECTED
  | PROVIDED_SIDE_ON_SET_DIFFERS_FROM_ORIGINAL_SIDE_FOR_ORDER_ID
  | PROVIDED_PRICE_ON_SET_DIFFERS_FROM_ORIGINAL_PRICE_FOR_ORDER_ID
  | REQUESTED_REDUCE_ORDER_BY_ZERO_QUANTITY
  | REQUESTED_REDUCE_NON_EXISTING_ORDER_ID
  | PROVIDED_SIDE_ON_ORDER_REDUCE_DIFFERS_FROM_ORIGINAL_SIDE_FOR_ORDER_ID
  | PROVIDED_PRICE_ON_ORDER_REDUCE_DIFFERS_FROM_ORIGINAL_PRICE_FOR_ORDER_ID
  | REQUESTED_ORDER_REDUCE_WITH_VOLUME_LARGER_THAN_AVAILABLE_FOR_ORDER_ID
  | PAPER_ORDER_INVOKES_PASSIVE_MATCH_INSTEAD_OF_AGGRESSIVE_TRADE
  | INVALID_UPDATE_TYPE
  | ADD_INVOKED_WITH_NEGATIVE_QUANTITY
  | REQUESTED_REDUCE_PAPER_ORDER_BY_NEGATIVE_QUANTITY
  | CORRUPT_BOOK_PRICE_IN_ORDER_INFO_BUT_NOT_IN_BOOK
  | REQUESTED_REDUCE_ORDER_BY_NEGATIVE_QUANTITY
  | SET_LOG_SINK_FOR_UNKNOWN_BOOK_IN_MULTI_BOOK_SIMULATOR
  | DEPTH_AT_FOR_UNKNOWN_BOOK_IN_MULTI_BOOK_SIMULATOR
  | L2_TOP_N_FOR_UNKNOWN_BOOK_IN_MULTI_BOOK_SIMULATOR
  | GET_BEST_PRICE_TICKS_FOR_UNKNOWN_BOOK_IN_MULTI_BOOK_SIMULATOR
  | HEAP_ENTRY_WITHOUT_BUFFERED_EVENT
  | APPLY_EVENT_REQUESTED_FOR_UNKNOWN_BOOK
  | NON_MONOTONIC_TS_RECEIVED_DETECTED_IN_MULTI_BOOK_SIMULATOR
  | DUPLICATE_STREAM_FOR_BOOK_IN_MULTI_BOOK_SIMULATOR
  | SUBMIT_STRATEGY_EVENT_FOR_UNKNOWN_BOOK
  | STRATEGY_EVENT_TIME_TRAVEL
  | REQUESTED_REDUCE_PAPER_ORDER_BY_ZERO_QUANTITY
  | HISTORICAL_ORDER_POOL_EXHAUSTED
  | PAPER_ORDER_POOL_EXHAUSTED

datatype DiagnosticRecordSeverity = INFO | WARNING | ERROR

record DiagnosticRecord =
  dr_seq :: nat
  dr_ts_exchange :: int
  dr_ts_received :: int
  dr_code :: DiagnosticRecordCode
  dr_severity :: DiagnosticRecordSeverity
  dr_book_key :: string

text \<open>
  \<open>ILogSink\<close> is an abstract class: an engine only calls its four virtual methods. A run of the
  engine is modelled with the sequence of calls it makes on the sink; a concrete sink is a
  function that consumes such calls.
\<close>

datatype SinkCall =
    OnFill FillRecord
  | OnEventApply EventApplyRecord
  | OnDiagnostic DiagnosticRecord
  | OnReset

definition fills_of :: "SinkCall list \<Rightarrow> FillRecord list" where
  "fills_of cs = concat (map (\<lambda>c. case c of OnFill r \<Rightarrow> [r] | _ \<Rightarrow> []) cs)"

lemma fills_of_simps [simp]:
  "fills_of [] = []"
  "fills_of (OnFill r # cs) = r # fills_of cs"
  "fills_of (OnEventApply a # cs) = fills_of cs"
  "fills_of (OnDiagnostic d # cs) = fills_of cs"
  "fills_of (OnReset # cs) = fills_of cs"
  "fills_of (cs @ ds) = fills_of cs @ fills_of ds"
  by (simp_all add: fills_of_def)

lemma fills_of_map_OnFill [simp]: "fills_of (map OnFill fs) = fs"
  by (induction fs) simp_all

section \<open>book_id.hpp\<close>

record BookId =
  bi_venue :: string
  bi_symbol :: string

definition book_key :: "BookId \<Rightarrow> string" where
  "book_key i = (if bi_venue i = [] then bi_symbol i else bi_venue i @ '':'' @ bi_symbol i)"

end
