(* ===== verification/HistBook.thy ===== *)
theory HistBook
  imports HashMap PriorityQueue NodePool LobTypes
begin

text \<open>
  The historical half of \<open>PaperTradingSimulator\<close> (\<open>paper_trading_simulator.hpp/.cpp\<close>): the
  two books of price levels (FIFO queues of order nodes), the two lazily cleaned price heaps, the
  index by order id and the node pool, grouped in the record \<open>Hist\<close>. The operations are the parts
  of the handlers that touch only these fields; \<open>Engine\<close> composes the handlers.
\<close>

section \<open>State\<close>

record OrderNode =
  on_order_id :: int
  on_trader_id :: int
  on_qty :: int
  on_source :: UpdateSource
  on_arrival_seq :: nat

definition default_OrderNode :: OrderNode where
  "default_OrderNode = \<lparr>on_order_id = 0, on_trader_id = 0, on_qty = 0, on_source = HISTORICAL,
     on_arrival_seq = 0\<rparr>"

record OrderInfo =
  oi_side :: Side
  oi_price_ticks :: int
  oi_node :: "nat option"

type_synonym OrderPriorityQueue = "nat list"
type_synonym Book = "(int, OrderPriorityQueue) hmap"

record Hist =
  bids :: Book
  asks :: Book
  bids_heap :: "int list"
  asks_heap :: "int list"
  order_info :: "(int, OrderInfo) hmap"
  order_pool :: "OrderNode NodePool"

definition hist_init :: Hist where
  "hist_init = \<lparr>bids = hm_empty, asks = hm_empty, bids_heap = [], asks_heap = [],
     order_info = hm_empty, order_pool = np_empty\<rparr>"

text \<open>The references \<open>ownBook\<close>, \<open>oppBook\<close>, \<open>ownHeap\<close>, \<open>oppHeapR\<close>: a field chosen by a side.\<close>

definition h_book :: "Side \<Rightarrow> Hist \<Rightarrow> Book" where
  "h_book s h = (case s of BUY \<Rightarrow> bids h | SELL \<Rightarrow> asks h)"

definition h_set_book :: "Side \<Rightarrow> Book \<Rightarrow> Hist \<Rightarrow> Hist" where
  "h_set_book s b h = (case s of BUY \<Rightarrow> h\<lparr>bids := b\<rparr> | SELL \<Rightarrow> h\<lparr>asks := b\<rparr>)"

definition h_heap :: "Side \<Rightarrow> Hist \<Rightarrow> int list" where
  "h_heap s h = (case s of BUY \<Rightarrow> bids_heap h | SELL \<Rightarrow> asks_heap h)"

definition h_set_heap :: "Side \<Rightarrow> int list \<Rightarrow> Hist \<Rightarrow> Hist" where
  "h_set_heap s q h = (case s of BUY \<Rightarrow> h\<lparr>bids_heap := q\<rparr> | SELL \<Rightarrow> h\<lparr>asks_heap := q\<rparr>)"

text \<open>
  Both heaps are max-heaps; the asks are stored with the sign reversed, so the same function
  encodes a price and decodes a heap entry.
\<close>

definition heap_key :: "Side \<Rightarrow> int \<Rightarrow> int" where
  "heap_key s px = (case s of BUY \<Rightarrow> px | SELL \<Rightarrow> - px)"

section \<open>Best price\<close>

fun best_opposite_price :: "Side \<Rightarrow> Book \<Rightarrow> int list \<Rightarrow> int option \<times> int list" where
  "best_opposite_price s book [] = (None, [])"
| "best_opposite_price s book (t # heap) =
     (let px = heap_key s t in
      case hm_find book px of
        Some q \<Rightarrow> if q \<noteq> [] then (Some px, t # heap) else best_opposite_price s book heap
      | None \<Rightarrow> best_opposite_price s book heap)"

definition price_crosses :: "NormalizedLobEvent \<Rightarrow> int \<Rightarrow> bool" where
  "price_crosses ev px =
     (if ev_side ev = BUY then ev_price_ticks ev \<ge> px else ev_price_ticks ev \<le> px)"

section \<open>Matching one level\<close>

definition hist_fill :: "nat \<Rightarrow> NormalizedLobEvent \<Rightarrow> int \<Rightarrow> int \<Rightarrow> OrderNode \<Rightarrow> FillRecord" where
  "hist_fill sq ev px qty node =
     \<lparr>fr_seq = sq, fr_ts_exchange = ev_ts_exchange ev, fr_ts_received = ev_ts_received ev,
      fr_price_ticks = px, fr_qty_lots = qty,
      fr_maker_side = (if ev_side ev = BUY then SELL else BUY),
      fr_maker_order_id = on_order_id node, fr_maker_trader_id = on_trader_id node,
      fr_maker_source = on_source node,
      fr_taker_side = ev_side ev, fr_taker_order_id = ev_order_id ev,
      fr_taker_trader_id = ev_trader_id ev, fr_taker_source = ev_update_source ev,
      fr_book_key = ev_symbol_id ev\<rparr>"

text \<open>
  The loop of a historical aggressor over one level. \<open>lr_deltas\<close> is \<open>marketDeltas\<close>,
  \<open>lr_traded\<close> is \<open>tradedAtLevel\<close>; the first component of the result is what is left of
  \<open>levelList\<close>.
\<close>

record LevelRun =
  lr_hist :: Hist
  lr_remaining :: int
  lr_traded :: int
  lr_deltas :: "(nat \<times> int) list"
  lr_fills :: "FillRecord list"

definition h_drop_node :: "nat \<Rightarrow> int \<Rightarrow> Hist \<Rightarrow> Hist" where
  \<comment> \<open>\<open>order_info.erase(maker_order_id); order_pool_.release(node_ptr)\<close>\<close>
  "h_drop_node n maker_order_id h =
     h\<lparr>order_info := hm_erase maker_order_id (order_info h),
       order_pool := np_release (Some n) (order_pool h)\<rparr>"

definition h_set_qty :: "nat \<Rightarrow> int \<Rightarrow> Hist \<Rightarrow> Hist" where
  "h_set_qty n q h = h\<lparr>order_pool := np_set n ((np_get (order_pool h) n)\<lparr>on_qty := q\<rparr>) (order_pool h)\<rparr>"

definition run_node :: "nat \<Rightarrow> LevelRun \<Rightarrow> OrderNode" where
  "run_node n r = np_get (order_pool (lr_hist r)) n"

definition run_drop :: "nat \<Rightarrow> LevelRun \<Rightarrow> LevelRun" where
  "run_drop n r = r\<lparr>lr_hist := h_drop_node n (on_order_id (run_node n r)) (lr_hist r)\<rparr>"

definition run_take :: "nat \<Rightarrow> NormalizedLobEvent \<Rightarrow> int \<Rightarrow> nat \<Rightarrow> int \<Rightarrow> LevelRun \<Rightarrow> LevelRun" where
  "run_take sq ev px n qty r =
     r\<lparr>lr_fills := lr_fills r @ [hist_fill sq ev px qty (run_node n r)],
       lr_deltas := lr_deltas r @ [(on_arrival_seq (run_node n r), - qty)],
       lr_hist := h_set_qty n (on_qty (run_node n r) - qty) (lr_hist r),
       lr_remaining := lr_remaining r - qty,
       lr_traded := lr_traded r + qty\<rparr>"

fun consume_level ::
  "nat \<Rightarrow> NormalizedLobEvent \<Rightarrow> int \<Rightarrow> nat list \<Rightarrow> LevelRun \<Rightarrow> nat list \<times> LevelRun" where
  "consume_level sq ev px [] r = ([], r)"
| "consume_level sq ev px (n # q) r =
     (if \<not> lr_remaining r > 0 then (n # q, r)
      else
        let makerQty = on_qty (run_node n r) in
        if makerQty \<le> 0 then consume_level sq ev px q (run_drop n r)
        else
          let qty = min makerQty (lr_remaining r);
              r' = run_take sq ev px n qty r
          in if makerQty - qty = 0
             then consume_level sq ev px q (run_drop n r')
             else (let (q', r'') = consume_level sq ev px q r' in (n # q', r'')))"

lemma run_drop_simps [simp]:
  "lr_remaining (run_drop n r) = lr_remaining r"
  "lr_traded (run_drop n r) = lr_traded r"
  "lr_deltas (run_drop n r) = lr_deltas r"
  "lr_fills (run_drop n r) = lr_fills r"
  "lr_hist (run_drop n r) = h_drop_node n (on_order_id (run_node n r)) (lr_hist r)"
  by (simp_all add: run_drop_def)

lemma run_take_simps [simp]:
  "lr_remaining (run_take sq ev px n qty r) = lr_remaining r - qty"
  "lr_traded (run_take sq ev px n qty r) = lr_traded r + qty"
  "lr_deltas (run_take sq ev px n qty r) = lr_deltas r @ [(on_arrival_seq (run_node n r), - qty)]"
  "lr_fills (run_take sq ev px n qty r) = lr_fills r @ [hist_fill sq ev px qty (run_node n r)]"
  "lr_hist (run_take sq ev px n qty r) = h_set_qty n (on_qty (run_node n r) - qty) (lr_hist r)"
  by (simp_all add: run_take_def)

text \<open>The four ways an iteration goes.\<close>

lemma consume_level_cases:
  assumes "consume_level sq ev px (n # q) r = (q', r')"
  obtains (stop) "\<not> lr_remaining r > 0" "q' = n # q" "r' = r"
  | (drop) "lr_remaining r > 0" "on_qty (run_node n r) \<le> 0"
    "consume_level sq ev px q (run_drop n r) = (q', r')"
  | (take_all) "0 < on_qty (run_node n r)" "on_qty (run_node n r) \<le> lr_remaining r"
    "consume_level sq ev px q (run_drop n (run_take sq ev px n (on_qty (run_node n r)) r)) = (q', r')"
  | (take_part) "0 < lr_remaining r" "lr_remaining r < on_qty (run_node n r)"
    "q' = n # q" "r' = run_take sq ev px n (lr_remaining r) r"
proof -
  have part: "consume_level sq ev px q (run_take sq ev px n (lr_remaining r) r) =
      (q, run_take sq ev px n (lr_remaining r) r)"
    by (cases q) simp_all
  consider "\<not> lr_remaining r > 0"
    | "lr_remaining r > 0" "on_qty (run_node n r) \<le> 0"
    | "0 < on_qty (run_node n r)" "on_qty (run_node n r) \<le> lr_remaining r"
    | "0 < lr_remaining r" "lr_remaining r < on_qty (run_node n r)" by linarith
  then show thesis
  proof cases
    case 1
    with assms have "q' = n # q" "r' = r" by auto
    with 1 show thesis by (rule stop)
  next
    case 2
    with assms have "consume_level sq ev px q (run_drop n r) = (q', r')" by (simp add: Let_def)
    with 2 show thesis by (rule drop)
  next
    case 3
    with assms have "consume_level sq ev px q
        (run_drop n (run_take sq ev px n (on_qty (run_node n r)) r)) = (q', r')"
      by (simp add: Let_def min_def)
    with 3 show thesis by (rule take_all)
  next
    case 4
    with assms part have "q' = n # q" "r' = run_take sq ev px n (lr_remaining r) r"
      by (simp_all add: Let_def min_def)
    with 4 show thesis by (rule take_part)
  qed
qed

text \<open>A paper aggressor reads the level and leaves it alone.\<close>

fun sweep_level ::
  "nat \<Rightarrow> NormalizedLobEvent \<Rightarrow> int \<Rightarrow> OrderNode NodePool \<Rightarrow> nat list \<Rightarrow> int
     \<Rightarrow> int \<times> FillRecord list" where
  "sweep_level sq ev px P [] remaining = (remaining, [])"
| "sweep_level sq ev px P (n # q) remaining =
     (if remaining \<le> 0 then (remaining, [])
      else
        let node = np_get P n; makerQty = on_qty node in
        if makerQty \<le> 0 then sweep_level sq ev px P q remaining
        else
          let take = min makerQty remaining;
              (remaining', fs) = sweep_level sq ev px P q (remaining - take)
          in (remaining', hist_fill sq ev px take node # fs))"

section \<open>The sweeps of paper aggressors over the book\<close>

lemma best_opposite_price_Some:
  assumes "best_opposite_price s book heap = (Some px, heap1)"
  shows "\<exists>q t ts. hm_find book px = Some q \<and> q \<noteq> [] \<and> heap1 = t # ts \<and> heap_key s t = px
    \<and> length heap1 \<le> length heap"
  using assms
  by (induction heap) (auto simp: Let_def split: option.splits if_splits)

lemma best_opposite_price_shrinks:
  "(Some px, heap1) = best_opposite_price s book heap \<Longrightarrow>
     length (dropWhile (\<lambda>t. heap_key s t = px) heap1) < length heap"
proof -
  assume "(Some px, heap1) = best_opposite_price s book heap"
  then obtain t ts where h: "heap1 = t # ts" "heap_key s t = px" "length heap1 \<le> length heap"
    using best_opposite_price_Some [of s book heap px heap1] by auto
  then have "length (dropWhile (\<lambda>t. heap_key s t = px) heap1) \<le> length ts"
    by (simp add: length_dropWhile_le)
  with h show ?thesis by simp
qed

text \<open>
  After \<open>best_opposite_price\<close> the level exists and is not empty, so the re-check of the source
  cannot fail. Then every duplicate of the price is popped from the copy of the heap.
\<close>

function sweep_add ::
  "Side \<Rightarrow> nat \<Rightarrow> NormalizedLobEvent \<Rightarrow> Hist \<Rightarrow> int list \<Rightarrow> int \<Rightarrow> int \<times> FillRecord list" where
  "sweep_add s sq ev h oppHeapCopy remaining =
     (if \<not> remaining > 0 then (remaining, [])
      else
        case best_opposite_price s (h_book s h) oppHeapCopy of
          (None, _) \<Rightarrow> (remaining, [])
        | (Some bestPx, heap1) \<Rightarrow>
            if \<not> price_crosses ev bestPx then (remaining, [])
            else
              let (remaining1, fs1) =
                    sweep_level sq ev bestPx (order_pool h) (hm_get [] (h_book s h) bestPx) remaining;
                  heap2 = dropWhile (\<lambda>t. heap_key s t = bestPx) heap1;
                  (remaining2, fs2) = sweep_add s sq ev h heap2 remaining1
              in (remaining2, fs1 @ fs2))"
  by pat_completeness auto
termination
  by (relation "measure (\<lambda>(s, sq, ev, h, heap, r). length heap)")
    (simp_all add: best_opposite_price_shrinks)

function sweep_aggressive ::
  "Side \<Rightarrow> nat \<Rightarrow> NormalizedLobEvent \<Rightarrow> Hist \<Rightarrow> int list \<Rightarrow> int \<Rightarrow> int \<times> FillRecord list" where
  "sweep_aggressive s sq ev h oppHeapCopy remaining =
     (if \<not> remaining > 0 then (remaining, [])
      else
        case best_opposite_price s (h_book s h) oppHeapCopy of
          (None, _) \<Rightarrow> (remaining, [])
        | (Some bestPx, heap1) \<Rightarrow>
            let (remaining1, fs1) =
                  sweep_level sq ev bestPx (order_pool h) (hm_get [] (h_book s h) bestPx) remaining;
                heap2 = dropWhile (\<lambda>t. heap_key s t = bestPx) heap1;
                (remaining2, fs2) = sweep_aggressive s sq ev h heap2 remaining1
            in (remaining2, fs1 @ fs2))"
  by pat_completeness auto
termination
  by (relation "measure (\<lambda>(s, sq, ev, h, heap, r). length heap)")
    (simp_all add: best_opposite_price_shrinks)

declare sweep_add.simps [simp del] sweep_aggressive.simps [simp del]

section \<open>Single-order operations\<close>

definition h_rest_order ::
  "NormalizedLobEvent \<Rightarrow> int \<Rightarrow> nat \<Rightarrow> nat \<Rightarrow> Hist \<Rightarrow> nat option \<times> Hist" where
  \<comment> \<open>the historical branch at the end of \<open>on_add\<close>: \<open>aseq\<close> is \<open>order_arrival_seq\<close>\<close>
  "h_rest_order ev remaining aseq cap h =
     (case np_acquire default_OrderNode cap (order_pool h) of
        (None, P) \<Rightarrow> (None, h\<lparr>order_pool := P\<rparr>)
      | (Some n, P) \<Rightarrow>
          let s = ev_side ev;
              px = ev_price_ticks ev;
              node = \<lparr>on_order_id = ev_order_id ev, on_trader_id = ev_trader_id ev,
                      on_qty = remaining, on_source = ev_update_source ev, on_arrival_seq = aseq\<rparr>;
              h1 = h\<lparr>order_pool := np_set n node P\<rparr>;
              level = hm_get [] (h_book s h1) px;
              newLevel = (level = []);
              h2 = h_set_book s (hm_put px (level @ [n]) (h_book s h1)) h1;
              h3 = (if newLevel then h_set_heap s (pq_push (<) (heap_key s px) (h_heap s h2)) h2
                    else h2)
          in (Some n, h3\<lparr>order_info := hm_emplace (ev_order_id ev)
                \<lparr>oi_side = s, oi_price_ticks = px, oi_node = Some n\<rparr> (order_info h3)\<rparr>))"

definition h_remove_order :: "Side \<Rightarrow> int \<Rightarrow> nat \<Rightarrow> int \<Rightarrow> Hist \<Rightarrow> Hist" where
  \<comment> \<open>unlink the node, release it, erase an emptied level, erase the index entry: the common end
    of \<open>on_delete\<close>, \<open>on_set\<close> and \<open>on_partial_order_cancel\<close>\<close>
  "h_remove_order s px n oid h =
     (let queue = removeAll n (hm_get [] (h_book s h) px);
          book1 = (if queue = [] then hm_erase px (h_book s h) else hm_put px queue (h_book s h));
          h1 = h_set_book s book1 h
      in h1\<lparr>order_pool := np_release (Some n) (order_pool h1),
            order_info := hm_erase oid (order_info h1)\<rparr>)"

definition hist_clear :: "Hist \<Rightarrow> Hist" where
  \<comment> \<open>the historical part of \<open>clear_state\<close>\<close>
  "hist_clear h = \<lparr>bids = hm_empty, asks = hm_empty, bids_heap = [], asks_heap = [],
     order_info = hm_empty, order_pool = np_reset (order_pool h)\<rparr>"

section \<open>Frame rules\<close>

lemma h_book_simps [simp, frame_simps]:
  "h_book s' (h_set_book s b h) = (if s' = s then b else h_book s' h)"
  "h_book s (h_set_heap s1 q h) = h_book s h"
  "h_book s (h\<lparr>order_info := oi\<rparr>) = h_book s h"
  "h_book s (h\<lparr>order_pool := P\<rparr>) = h_book s h"
  by (cases s; cases s'; cases s1; simp add: h_book_def h_set_book_def h_set_heap_def)+

lemma h_heap_simps [simp, frame_simps]:
  "h_heap s' (h_set_heap s q h) = (if s' = s then q else h_heap s' h)"
  "h_heap s (h_set_book s1 b h) = h_heap s h"
  "h_heap s (h\<lparr>order_info := oi\<rparr>) = h_heap s h"
  "h_heap s (h\<lparr>order_pool := P\<rparr>) = h_heap s h"
  by (cases s; cases s'; cases s1; simp add: h_heap_def h_set_book_def h_set_heap_def)+

lemma h_order_info_simps [simp, frame_simps]:
  "order_info (h_set_book s b h) = order_info h"
  "order_info (h_set_heap s q h) = order_info h"
  by (cases s; simp add: h_set_book_def h_set_heap_def)+

lemma h_order_pool_simps [simp, frame_simps]:
  "order_pool (h_set_book s b h) = order_pool h"
  "order_pool (h_set_heap s q h) = order_pool h"
  by (cases s; simp add: h_set_book_def h_set_heap_def)+

lemma h_drop_node_simps [simp, frame_simps]:
  "h_book s (h_drop_node n i h) = h_book s h"
  "h_heap s (h_drop_node n i h) = h_heap s h"
  "order_info (h_drop_node n i h) = hm_erase i (order_info h)"
  "order_pool (h_drop_node n i h) = np_release (Some n) (order_pool h)"
  by (simp_all add: h_drop_node_def)

lemma h_set_qty_simps [simp, frame_simps]:
  "h_book s (h_set_qty n q h) = h_book s h"
  "h_heap s (h_set_qty n q h) = h_heap s h"
  "order_info (h_set_qty n q h) = order_info h"
  "order_pool (h_set_qty n q h) = np_set n ((np_get (order_pool h) n)\<lparr>on_qty := q\<rparr>) (order_pool h)"
  by (simp_all add: h_set_qty_def)

lemma heap_key_heap_key [simp]: "heap_key s (heap_key s px) = px"
  by (cases s) (simp_all add: heap_key_def)

lemma heap_key_inj [simp]: "heap_key s a = heap_key s b \<longleftrightarrow> a = b"
  by (cases s) (simp_all add: heap_key_def)

lemma consume_level_frame:
  "consume_level sq ev px q r = (q', r') \<Longrightarrow>
     h_book s (lr_hist r') = h_book s (lr_hist r) \<and> h_heap s (lr_hist r') = h_heap s (lr_hist r)"
proof (induction q arbitrary: r)
  case (Cons n q)
  from Cons.prems show ?case
    by (cases rule: consume_level_cases) (auto dest: Cons.IH)
qed auto

end
