(* ===== verification/Fenwick.thy ===== *)
theory Fenwick
  imports Prelude
begin

unbundle bit_operations_syntax

text \<open>
  \<open>FenwickTree\<close> of \<open>paper_trading_simulator.hpp\<close>: the vector \<open>tree\<close> keeps at position
  \<open>i > 0\<close> the sum of the values with indices \<open>i - (i & -i), \<dots>, i - 1\<close>; position 0 is unused.
  The engine keeps two per paper level: the market quantity by arrival and the paper quantity by
  placement. The theory shows that the three operations implement an array of values with prefix
  sums.
\<close>

section \<open>The operations\<close>

definition lowbit :: "nat \<Rightarrow> nat" where
  "lowbit i = nat (int i AND - int i)"

lemma lowbit_0 [simp]: "lowbit 0 = 0"
  by (simp add: lowbit_def)

lemma lowbit_double [simp]: "lowbit (2 * m) = 2 * lowbit m"
proof -
  have d: "- (2 * int m) div 2 = - int m" by presburger
  have "int (2 * m) AND - int (2 * m) = 2 * (int m AND - int m)"
    by (subst and_rec) (simp add: d)
  then show ?thesis by (simp add: lowbit_def nat_mult_distrib)
qed

lemma lowbit_odd [simp]: "lowbit (Suc (2 * m)) = 1"
proof -
  have d: "(- 1 - 2 * int m) div 2 = NOT (int m)"
    by (simp add: not_int_def)
  have "int (Suc (2 * m)) AND - int (Suc (2 * m)) = 1 + 2 * (int m AND NOT (int m))"
    by (subst and_rec) (simp add: d)
  then show ?thesis by (simp add: lowbit_def)
qed

lemma lowbit_bounds: "0 < i \<Longrightarrow> 0 < lowbit i \<and> lowbit i \<le> i"
proof (induction i rule: less_induct)
  case (less i)
  show ?case
  proof (cases "even i")
    case True
    then obtain m where "i = 2 * m" by (elim evenE)
    with less show ?thesis by simp
  next
    case False
    then obtain m where "i = Suc (2 * m)" by (metis oddE Suc_eq_plus1)
    then show ?thesis by simp
  qed
qed

function fw_add_loop :: "nat \<Rightarrow> int \<Rightarrow> int list \<Rightarrow> int list" where
  \<comment> \<open>the loop index starts at \<open>index + 1\<close>, so it is never 0\<close>
  "fw_add_loop i delta tree =
     (if 0 < i \<and> i < length tree
      then fw_add_loop (i + lowbit i) delta (tree[i := tree ! i + delta])
      else tree)"
  by pat_completeness auto
termination
  by (relation "measure (\<lambda>(i, _, tree). length tree - i)")
    (use lowbit_bounds in \<open>auto intro!: diff_less_mono2\<close>)

definition fw_add :: "nat \<Rightarrow> int \<Rightarrow> int list \<Rightarrow> int list" where
  "fw_add index delta tree = fw_add_loop (index + 1) delta tree"

function fw_sum_loop :: "int list \<Rightarrow> nat \<Rightarrow> int \<Rightarrow> int" where
  "fw_sum_loop tree i res =
     (if i > 0 then fw_sum_loop tree (i - lowbit i) (res + tree ! i) else res)"
  by pat_completeness auto
termination
  by (relation "measure (\<lambda>(_, i, _). i)") (use lowbit_bounds in auto)

definition fw_sum :: "int list \<Rightarrow> nat \<Rightarrow> int" where
  "fw_sum tree cnt = fw_sum_loop tree cnt 0"

function fw_fill_loop :: "nat \<Rightarrow> int list \<Rightarrow> int list" where
  "fw_fill_loop i tree =
     (if i < length tree
      then fw_fill_loop (Suc i)
        (if i = 0 then tree
         else let parent = i - lowbit i;
                  prefix = fw_sum tree (i - 1);
                  prefix_parent = fw_sum tree parent
              in tree[i := prefix - prefix_parent])
      else tree)"
  by pat_completeness auto
termination
  by (relation "measure (\<lambda>(i, tree). length tree - i)") (auto simp: Let_def)

definition fw_ensure_size :: "nat \<Rightarrow> int list \<Rightarrow> int list" where
  "fw_ensure_size n tree =
     (let needed = n + 1 in
      if length tree \<ge> needed then tree
      else fw_fill_loop (length tree) (tree @ replicate (needed - length tree) 0))"

declare fw_add_loop.simps [simp del] fw_sum_loop.simps [simp del] fw_fill_loop.simps [simp del]

section \<open>The path through the tree\<close>

text \<open>
  Position \<open>j\<close> covers index \<open>i - 1\<close> exactly when it covers the next position on the update
  path of \<open>i\<close>: by halving both numbers.
\<close>

lemma lowbit_path:
  "0 < i \<Longrightarrow> 0 < j \<Longrightarrow> i \<noteq> j \<Longrightarrow>
     (j - lowbit j < i + lowbit i \<and> i + lowbit i \<le> j) \<longleftrightarrow> (j - lowbit j < i \<and> i \<le> j)"
proof (induction i arbitrary: j rule: less_induct)
  case (less i)
  show ?case
  proof (cases "even i")
    case True
    then obtain a where i: "i = 2 * a" by (elim evenE)
    show ?thesis
    proof (cases "even j")
      case True
      then obtain b where j: "j = 2 * b" by (elim evenE)
      with i less.prems have "0 < a" "0 < b" "a \<noteq> b" "a < i" by auto
      with less.IH [of a b]
      have "(b - lowbit b < a + lowbit a \<and> a + lowbit a \<le> b) \<longleftrightarrow> (b - lowbit b < a \<and> a \<le> b)"
        by simp
      moreover have "2 * b - 2 * lowbit b = 2 * (b - lowbit b)"
        "2 * a + 2 * lowbit a = 2 * (a + lowbit a)" by simp_all
      ultimately show ?thesis using i j by (simp only: lowbit_double mult_less_cancel1
          mult_le_cancel1 zero_less_numeral simp_thms)
    next
      case False
      then obtain b where j: "j = Suc (2 * b)" by (metis oddE Suc_eq_plus1)
      have "(2 * b < 2 * a + 2 * x \<and> 2 * a + 2 * x \<le> Suc (2 * b)) \<longleftrightarrow>
          (2 * b < 2 * a \<and> 2 * a \<le> Suc (2 * b))" for x by presburger
      moreover have "Suc (2 * b) - 1 = 2 * b" by simp
      ultimately show ?thesis using i j by (simp only: lowbit_double lowbit_odd)
    qed
  next
    case False
    then obtain a where i: "i = Suc (2 * a)" by (metis oddE Suc_eq_plus1)
    show ?thesis
    proof (cases "even j")
      case True
      then obtain b where j: "j = 2 * b" by (elim evenE)
      have "(2 * x < Suc (2 * a) + 1 \<and> Suc (2 * a) + 1 \<le> 2 * b) \<longleftrightarrow>
          (2 * x < Suc (2 * a) \<and> Suc (2 * a) \<le> 2 * b)" for x by presburger
      moreover have "2 * b - 2 * lowbit b = 2 * (b - lowbit b)" by simp
      ultimately show ?thesis using i j by (simp only: lowbit_double lowbit_odd)
    next
      case False
      then obtain b where j: "j = Suc (2 * b)" by (metis oddE Suc_eq_plus1)
      have "\<not> (2 * b < Suc (2 * a) + 1 \<and> Suc (2 * a) + 1 \<le> Suc (2 * b))" by presburger
      moreover have "\<not> (2 * b < Suc (2 * a) \<and> Suc (2 * a) \<le> Suc (2 * b))"
        using i j less.prems by presburger
      moreover have "Suc (2 * b) - 1 = 2 * b" by simp
      ultimately show ?thesis using i j by (simp only: lowbit_odd simp_thms)
    qed
  qed
qed

section \<open>The array the tree stands for\<close>

definition fw_rep :: "int list \<Rightarrow> (nat \<Rightarrow> int) \<Rightarrow> bool" where
  "fw_rep tree f \<longleftrightarrow>
     (\<forall>i. 0 < i \<and> i < length tree \<longrightarrow> tree ! i = (\<Sum>k\<in>{i - lowbit i..<i}. f k)) \<and>
     (\<forall>k. length tree - 1 \<le> k \<longrightarrow> f k = 0)"

lemma fw_rep_Nil: "fw_rep [] (\<lambda>_. 0)"
  by (simp add: fw_rep_def)

lemma length_fw_add_loop: "length (fw_add_loop i delta tree) = length tree"
  by (induction i delta tree rule: fw_add_loop.induct) (subst fw_add_loop.simps, simp)

lemma length_fw_add [simp]: "length (fw_add i delta tree) = length tree"
  by (simp add: fw_add_def length_fw_add_loop)

lemma nth_fw_add_loop:
  "0 < i \<Longrightarrow> 0 < j \<Longrightarrow> j < length tree \<Longrightarrow>
     fw_add_loop i delta tree ! j =
       tree ! j + (if j - lowbit j < i \<and> i \<le> j then delta else 0)"
proof (induction i delta tree rule: fw_add_loop.induct)
  case (1 i delta tree)
  show ?case
  proof (cases "i < length tree")
    case True
    let ?t = "tree[i := tree ! i + delta]"
    have IH: "fw_add_loop (i + lowbit i) delta ?t ! j =
      ?t ! j + (if j - lowbit j < i + lowbit i \<and> i + lowbit i \<le> j then delta else 0)"
      using "1.IH" "1.prems" True by simp
    show ?thesis
    proof (cases "j = i")
      case True
      with IH \<open>i < length tree\<close> "1.prems" lowbit_bounds [of i] show ?thesis
        by (subst fw_add_loop.simps) auto
    next
      case False
      with IH \<open>i < length tree\<close> "1.prems" lowbit_path [of i j] show ?thesis
        by (subst fw_add_loop.simps) auto
    qed
  next
    case False
    with "1.prems" show ?thesis by (subst fw_add_loop.simps) auto
  qed
qed

lemma sum_fun_upd_int:
  fixes f :: "nat \<Rightarrow> int"
  shows "finite A \<Longrightarrow> sum (f(i := f i + d)) A = sum f A + (if i \<in> A then d else 0)"
  by (induction A rule: finite_induct) auto

lemma fw_rep_add:
  assumes rep: "fw_rep tree f" and i: "i < length tree - 1"
  shows "fw_rep (fw_add i d tree) (f(i := f i + d))"
  unfolding fw_rep_def
proof (intro conjI allI impI)
  fix j
  assume "0 < j \<and> j < length (fw_add i d tree)"
  then have j: "0 < j" "j < length tree" by simp_all
  with rep have "tree ! j = (\<Sum>k\<in>{j - lowbit j..<j}. f k)" by (simp add: fw_rep_def)
  with j show "fw_add i d tree ! j = (\<Sum>k\<in>{j - lowbit j..<j}. (f(i := f i + d)) k)"
    by (simp add: fw_add_def nth_fw_add_loop sum_fun_upd_int del: fun_upd_apply)
next
  fix k
  assume "length (fw_add i d tree) - 1 \<le> k"
  with i rep show "(f(i := f i + d)) k = 0" by (auto simp: fw_rep_def)
qed

lemma fw_sum_loop_rep:
  assumes "\<forall>i. 0 < i \<and> i \<le> c \<longrightarrow> tree ! i = (\<Sum>k\<in>{i - lowbit i..<i}. f k)"
  shows "fw_sum_loop tree c res = res + (\<Sum>k<c. f k)"
  using assms
proof (induction tree c res rule: fw_sum_loop.induct)
  case (1 tree c res)
  show ?case
  proof (cases "0 < c")
    case True
    then have lb: "c - lowbit c \<le> c" "tree ! c = (\<Sum>k\<in>{c - lowbit c..<c}. f k)"
      using "1.prems" by simp_all
    have "(\<Sum>k<c. f k) = (\<Sum>k<c - lowbit c. f k) + (\<Sum>k\<in>{c - lowbit c..<c}. f k)"
      using lb(1) by (simp add: lessThan_atLeast0 sum.atLeastLessThan_concat)
    moreover have "fw_sum_loop tree (c - lowbit c) (res + tree ! c) =
        (res + tree ! c) + (\<Sum>k<c - lowbit c. f k)"
      using "1.IH" [OF True] "1.prems" lb(1) by (meson le_trans)
    ultimately show ?thesis
      using True lb by (subst fw_sum_loop.simps) simp
  next
    case False
    then show ?thesis by (subst fw_sum_loop.simps) simp
  qed
qed

lemma fw_sum_rep:
  assumes "fw_rep tree f" "c \<le> length tree - 1"
  shows "fw_sum tree c = (\<Sum>k<c. f k)"
proof -
  have "\<forall>i. 0 < i \<and> i \<le> c \<longrightarrow> tree ! i = (\<Sum>k\<in>{i - lowbit i..<i}. f k)"
    using assms by (auto simp: fw_rep_def)
  from fw_sum_loop_rep [OF this, of 0] show ?thesis by (simp add: fw_sum_def)
qed

lemma length_fw_fill_loop: "length (fw_fill_loop i tree) = length tree"
  by (induction i tree rule: fw_fill_loop.induct) (subst fw_fill_loop.simps, simp add: Let_def)

lemma length_fw_ensure_size [simp]:
  "length (fw_ensure_size n tree) = max (length tree) (n + 1)"
  by (simp add: fw_ensure_size_def Let_def length_fw_fill_loop)

text \<open>
  Growing: the loop of \<open>ensure_size\<close> visits the new positions in ascending order, and each new
  entry is the difference of two prefix sums that are already right.
\<close>

lemma fw_fill_loop_rep:
  assumes "\<forall>j. 0 < j \<and> j < i \<and> j < length tree \<longrightarrow> tree ! j = (\<Sum>k\<in>{j - lowbit j..<j}. f k)"
    and "\<forall>k. i - 1 \<le> k \<longrightarrow> f k = 0"
  shows "\<forall>j. 0 < j \<and> j < length tree \<longrightarrow>
    fw_fill_loop i tree ! j = (\<Sum>k\<in>{j - lowbit j..<j}. f k)"
  using assms
proof (induction i tree rule: fw_fill_loop.induct)
  case (1 i tree)
  show ?case
  proof (cases "i < length tree")
    case True
    define t where "t = (if i = 0 then tree
      else let parent = i - lowbit i; prefix = fw_sum tree (i - 1);
               prefix_parent = fw_sum tree parent
           in tree[i := prefix - prefix_parent])"
    have len: "length t = length tree" by (simp add: t_def Let_def)
    have ti: "t ! i = (\<Sum>k\<in>{i - lowbit i..<i}. f k)" if "0 < i"
    proof -
      have p: "fw_sum tree c = (\<Sum>k<c. f k)" if "c < i" for c
        unfolding fw_sum_def using "1.prems"(1) True that
        by (subst fw_sum_loop_rep [where f = f]) auto
      have lb: "0 < lowbit i" "lowbit i \<le> i" using lowbit_bounds that by auto
      have z: "f (i - 1) = 0" using "1.prems"(2) by simp
      have "(\<Sum>k<i. f k) = (\<Sum>k<i - lowbit i. f k) + (\<Sum>k\<in>{i - lowbit i..<i}. f k)"
        by (simp add: lessThan_atLeast0 sum.atLeastLessThan_concat)
      moreover have "(\<Sum>k<i. f k) = (\<Sum>k<i - 1. f k)"
        using that z sum.lessThan_Suc [of f "i - 1"] by simp
      ultimately show ?thesis
        using that True lb p [of "i - 1"] p [of "i - lowbit i"] by (simp add: t_def Let_def)
    qed
    have pre: "\<forall>j. 0 < j \<and> j < Suc i \<and> j < length t \<longrightarrow>
        t ! j = (\<Sum>k\<in>{j - lowbit j..<j}. f k)"
    proof (intro allI impI)
      fix j assume j: "0 < j \<and> j < Suc i \<and> j < length t"
      show "t ! j = (\<Sum>k\<in>{j - lowbit j..<j}. f k)"
      proof (cases "j = i")
        case True
        with j ti show ?thesis by simp
      next
        case False
        then have "t ! j = tree ! j" by (simp add: t_def Let_def)
        with False j len "1.prems"(1) show ?thesis by auto
      qed
    qed
    have z: "\<forall>k. Suc i - 1 \<le> k \<longrightarrow> f k = 0" using "1.prems"(2) by simp
    have "fw_fill_loop i tree = fw_fill_loop (Suc i) t"
      using True unfolding t_def by (subst fw_fill_loop.simps) simp
    with "1.IH" [OF True, folded t_def, OF pre z] len show ?thesis by simp
  next
    case False
    with "1.prems" show ?thesis by (subst fw_fill_loop.simps) auto
  qed
qed

lemma fw_rep_ensure_size:
  assumes rep: "fw_rep tree f"
  shows "fw_rep (fw_ensure_size n tree) f"
proof (cases "length tree \<ge> n + 1")
  case True
  with rep show ?thesis by (simp add: fw_ensure_size_def Let_def)
next
  case False
  let ?t = "tree @ replicate (n + 1 - length tree) 0"
  have "\<forall>j. 0 < j \<and> j < length ?t \<longrightarrow>
      fw_fill_loop (length tree) ?t ! j = (\<Sum>k\<in>{j - lowbit j..<j}. f k)"
    using rep by (intro fw_fill_loop_rep) (auto simp: fw_rep_def nth_append)
  then show ?thesis
    using rep False by (auto simp: fw_rep_def fw_ensure_size_def Let_def length_fw_fill_loop)
qed

section \<open>The interface\<close>

locale prefix_array =
  fixes ensure :: "nat \<Rightarrow> 't \<Rightarrow> 't"
    and add :: "nat \<Rightarrow> int \<Rightarrow> 't \<Rightarrow> 't"
    and psum :: "'t \<Rightarrow> nat \<Rightarrow> int"
    and cap :: "'t \<Rightarrow> nat"
    and rep :: "'t \<Rightarrow> (nat \<Rightarrow> int) \<Rightarrow> bool"
  assumes rep_zero: "rep t f \<Longrightarrow> cap t \<le> k \<Longrightarrow> f k = 0"
    and psum_rep: "rep t f \<Longrightarrow> c \<le> cap t \<Longrightarrow> psum t c = (\<Sum>k<c. f k)"
    and rep_add: "rep t f \<Longrightarrow> i < cap t \<Longrightarrow> rep (add i d t) (f(i := f i + d))"
    and cap_add: "cap (add i d t) = cap t"
    and rep_ensure: "rep t f \<Longrightarrow> rep (ensure n t) f"
    and cap_ensure: "cap (ensure n t) = max (cap t) n"
begin

text \<open>Appending a value at a fresh index, as both trees of a paper level do.\<close>

lemma rep_append:
  assumes "rep t f" "cap t = n"
  shows "rep (add n d (ensure (Suc n) t)) (f(n := d))"
proof -
  have "f n = 0" using assms rep_zero by blast
  with rep_add [OF rep_ensure [OF assms(1)], of n "Suc n" d] assms(2) show ?thesis
    by (simp add: cap_ensure)
qed

lemma cap_append: "cap t = n \<Longrightarrow> cap (add n d (ensure (Suc n) t)) = Suc n"
  by (simp add: cap_add cap_ensure)

lemma psum_after_add:
  assumes "rep t f" "i < cap t" "c \<le> cap t"
  shows "psum (add i d t) c = psum t c + (if i < c then d else 0)"
proof -
  have "psum (add i d t) c = (\<Sum>k<c. (f(i := f i + d)) k)"
    using assms psum_rep [OF rep_add] cap_add by simp
  also have "\<dots> = (\<Sum>k<c. f k) + (if i < c then d else 0)"
    by (simp add: sum_fun_upd_int del: fun_upd_apply)
  finally show ?thesis using assms psum_rep by simp
qed

lemma psum_all_zero_before:
  "rep t f \<Longrightarrow> c \<le> cap t \<Longrightarrow> (\<And>k. k < c \<Longrightarrow> f k = 0) \<Longrightarrow> psum t c = 0"
  by (simp add: psum_rep)

end

interpretation fw: prefix_array fw_ensure_size fw_add fw_sum "\<lambda>tree. length tree - 1" fw_rep
  by unfold_locales
    (auto simp: fw_sum_rep fw_rep_add fw_rep_ensure_size, simp add: fw_rep_def)

end
