(* ===== verification/PaperBook.thy ===== *)
theory PaperBook
  imports HistBook Fenwick
begin

text \<open>
  The paper half of \<open>PaperTradingSimulator\<close>: the strategy's resting orders, queued per level
  behind the market quantity that was there when they arrived. A level keeps two Fenwick trees:
  \<open>market_qty\<close> over the historical orders by arrival, \<open>paper_qty\<close> over its paper orders by
  placement. The functions return the fills they make; the engine hands them to the sink.
\<close>

section \<open>State\<close>

datatype PaperOrderStatus = PO_OPEN | PO_PARTIALLY_FILLED | PO_FILLED | PO_CANCELLED | PO_REJECTED

record PaperOrder =
  po_original_event :: NormalizedLobEvent
  po_status :: PaperOrderStatus
  po_remaining_qty :: int
  po_placement_seq :: nat
  po_paper_index :: nat

record PaperOrderNode =
  pn_order_id :: int

definition default_PaperOrderNode :: PaperOrderNode where
  "default_PaperOrderNode = \<lparr>pn_order_id = 0\<rparr>"

record PaperOrderInfo =
  pi_side :: Side
  pi_price_ticks :: int
  pi_node :: "nat option"

record PaperOrderLevel =
  pl_orders :: "nat list"
  pl_queued_lots :: int
  pl_market_seqs :: "nat list"
  pl_market_qty :: "int list"
  pl_market_index_by_seq :: "(nat, nat) hmap"
  pl_paper_qty :: "int list"
  pl_next_paper_index :: nat

definition default_PaperOrderLevel :: PaperOrderLevel where
  "default_PaperOrderLevel = \<lparr>pl_orders = [], pl_queued_lots = 0, pl_market_seqs = [],
     pl_market_qty = [], pl_market_index_by_seq = hm_empty, pl_paper_qty = [],
     pl_next_paper_index = 0\<rparr>"

type_synonym Levels = "(int, PaperOrderLevel) hmap"

record Paper =
  paper_orders :: "(int, PaperOrder) hmap"
  paper_order_info :: "(int, PaperOrderInfo) hmap"
  paper_bids :: Levels
  paper_asks :: Levels
  paper_pool :: "PaperOrderNode NodePool"

definition paper_init :: Paper where
  "paper_init = \<lparr>paper_orders = hm_empty, paper_order_info = hm_empty, paper_bids = hm_empty,
     paper_asks = hm_empty, paper_pool = np_empty\<rparr>"

definition p_levels :: "Side \<Rightarrow> Paper \<Rightarrow> Levels" where
  "p_levels s p = (case s of BUY \<Rightarrow> paper_bids p | SELL \<Rightarrow> paper_asks p)"

definition p_set_levels :: "Side \<Rightarrow> Levels \<Rightarrow> Paper \<Rightarrow> Paper" where
  "p_set_levels s l p = (case s of BUY \<Rightarrow> p\<lparr>paper_bids := l\<rparr> | SELL \<Rightarrow> p\<lparr>paper_asks := l\<rparr>)"

definition p_release :: "nat option \<Rightarrow> Paper \<Rightarrow> Paper" where
  "p_release n p = p\<lparr>paper_pool := np_release n (paper_pool p)\<rparr>"

definition p_unlink :: "nat option \<Rightarrow> Paper \<Rightarrow> Paper" where
  \<comment> \<open>the hook removes the node from whatever queue it is linked in\<close>
  "p_unlink n p =
     (case n of
        None \<Rightarrow> p
      | Some i \<Rightarrow>
          let out = map (\<lambda>(px, l). (px, l\<lparr>pl_orders := removeAll i (pl_orders l)\<rparr>))
          in p\<lparr>paper_bids := out (paper_bids p), paper_asks := out (paper_asks p)\<rparr>)"

section \<open>Levels\<close>

definition find_paper_level :: "Side \<Rightarrow> int \<Rightarrow> Paper \<Rightarrow> PaperOrderLevel option" where
  "find_paper_level s px p = hm_find (p_levels s p) px"

definition p_put_level :: "Side \<Rightarrow> int \<Rightarrow> PaperOrderLevel \<Rightarrow> Paper \<Rightarrow> Paper" where
  \<comment> \<open>a write through the reference to a level\<close>
  "p_put_level s px l p = p_set_levels s (hm_put px l (p_levels s p)) p"

definition p_close_level :: "Side \<Rightarrow> int \<Rightarrow> PaperOrderLevel \<Rightarrow> Paper \<Rightarrow> Paper" where
  \<comment> \<open>\<open>if (level.orders.empty()) levels.erase(...)\<close>, writing the level back otherwise\<close>
  "p_close_level s px l p =
     (if pl_orders l = [] then p_set_levels s (hm_erase px (p_levels s p)) p
      else p_put_level s px l p)"

fun index_market :: "OrderNode NodePool \<Rightarrow> nat list \<Rightarrow> nat \<Rightarrow> PaperOrderLevel \<Rightarrow> PaperOrderLevel" where
  \<comment> \<open>the loop of \<open>ensure_paper_level\<close> over the historical queue\<close>
  "index_market P [] idx l = l"
| "index_market P (n # queue) idx l =
     (let sq = on_arrival_seq (np_get P n);
          qty = on_qty (np_get P n)
      in index_market P queue (Suc idx)
           (l\<lparr>pl_market_seqs := pl_market_seqs l @ [sq],
              pl_market_index_by_seq := hm_emplace sq idx (pl_market_index_by_seq l),
              pl_market_qty := fw_add idx qty (fw_ensure_size (idx + 1) (pl_market_qty l))\<rparr>))"

definition new_paper_level :: "Side \<Rightarrow> int \<Rightarrow> Hist \<Rightarrow> PaperOrderLevel" where
  "new_paper_level s px h =
     (case hm_find (h_book s h) px of
        None \<Rightarrow> default_PaperOrderLevel
      | Some queue \<Rightarrow>
          index_market (order_pool h) queue 0
            (default_PaperOrderLevel\<lparr>pl_market_qty := fw_ensure_size (length queue) []\<rparr>))"

definition ensure_paper_level :: "Side \<Rightarrow> int \<Rightarrow> Hist \<Rightarrow> Paper \<Rightarrow> PaperOrderLevel \<times> Paper" where
  "ensure_paper_level s px h p =
     (case find_paper_level s px p of
        Some l \<Rightarrow> (l, p)
      | None \<Rightarrow> let l = new_paper_level s px h in (l, p_put_level s px l p))"

fun best_paper_scan :: "Side \<Rightarrow> (int \<times> PaperOrderLevel) list \<Rightarrow> int option \<Rightarrow> int option" where
  "best_paper_scan s [] best = best"
| "best_paper_scan s ((px, level) # levels) best =
     (if pl_queued_lots level \<le> 0 then best_paper_scan s levels best
      else case best of
        None \<Rightarrow> best_paper_scan s levels (Some px)
      | Some b \<Rightarrow>
          if s = SELL
          then best_paper_scan s levels (if px < b then Some px else best)
          else best_paper_scan s levels (if px > b then Some px else best))"

definition best_paper_opposite_price :: "Side \<Rightarrow> Paper \<Rightarrow> int option" where
  \<comment> \<open>\<open>opposite_is_ask\<close> is \<open>s = SELL\<close>\<close>
  "best_paper_opposite_price s p = best_paper_scan s (p_levels s p) None"

definition market_ahead :: "PaperOrderLevel \<Rightarrow> nat \<Rightarrow> int" where
  \<comment> \<open>\<open>std::lower_bound\<close> on the ascending \<open>market_seqs\<close>, then a prefix sum\<close>
  "market_ahead level placement_seq =
     (if pl_market_seqs level = [] then 0
      else let pos = length (takeWhile (\<lambda>sq. sq < placement_seq) (pl_market_seqs level))
           in fw_sum (pl_market_qty level) pos)"

definition add_market_delta :: "nat \<Rightarrow> int \<Rightarrow> PaperOrderLevel \<Rightarrow> PaperOrderLevel" where
  \<comment> \<open>\<open>market_index_by_seq.find(seq)\<close>, then \<open>market_qty.add\<close>\<close>
  "add_market_delta sq delta level =
     (case hm_find (pl_market_index_by_seq level) sq of
        None \<Rightarrow> level
      | Some idx \<Rightarrow> level\<lparr>pl_market_qty := fw_add idx delta (pl_market_qty level)\<rparr>)"

definition p_market_deltas :: "Side \<Rightarrow> int \<Rightarrow> (nat \<times> int) list \<Rightarrow> Paper \<Rightarrow> Paper" where
  "p_market_deltas s px deltas p =
     (case find_paper_level s px p of
        None \<Rightarrow> p
      | Some level \<Rightarrow> p_put_level s px (fold (\<lambda>(sq, d). add_market_delta sq d) deltas level) p)"

definition push_market :: "nat \<Rightarrow> int \<Rightarrow> PaperOrderLevel \<Rightarrow> PaperOrderLevel" where
  \<comment> \<open>a historical order joins a level that has paper orders (end of \<open>on_add\<close>)\<close>
  "push_market sq qty level =
     (let idx = length (pl_market_seqs level);
          seqs = pl_market_seqs level @ [sq]
      in level\<lparr>pl_market_seqs := seqs,
               pl_market_index_by_seq := hm_emplace sq idx (pl_market_index_by_seq level),
               pl_market_qty := fw_add idx qty (fw_ensure_size (length seqs) (pl_market_qty level))\<rparr>)"

section \<open>Trades\<close>

definition paper_fill ::
  "nat \<Rightarrow> Side \<Rightarrow> int \<Rightarrow> int \<Rightarrow> int \<Rightarrow> PaperOrder \<Rightarrow> int \<Rightarrow> int \<Rightarrow> NormalizedLobEvent \<Rightarrow> FillRecord" where
  "paper_fill sq passive_side px fillQty oid order taker_order_id taker_trader_id aggressor =
     \<lparr>fr_seq = sq, fr_ts_exchange = ev_ts_exchange aggressor,
      fr_ts_received = ev_ts_received aggressor, fr_price_ticks = px, fr_qty_lots = fillQty,
      fr_maker_side = passive_side, fr_maker_order_id = oid,
      fr_maker_trader_id = ev_trader_id (po_original_event order), fr_maker_source = STRATEGY,
      fr_taker_side = opposite passive_side, fr_taker_order_id = taker_order_id,
      fr_taker_trader_id = taker_trader_id, fr_taker_source = ev_update_source aggressor,
      fr_book_key = ev_symbol_id aggressor\<rparr>"

definition forget_paper_order :: "nat \<Rightarrow> int \<Rightarrow> PaperOrderLevel \<times> Paper \<Rightarrow> PaperOrderLevel \<times> Paper" where
  \<comment> \<open>unlink the node; erase both index entries; release the node\<close>
  "forget_paper_order n oid lp =
     (let (level, p) = lp in
      (level\<lparr>pl_orders := removeAll n (pl_orders level)\<rparr>,
       p_release (Some n)
         (p\<lparr>paper_order_info := hm_erase oid (paper_order_info p),
            paper_orders := hm_erase oid (paper_orders p)\<rparr>)))"

definition remove_paper_order ::
  "nat option \<Rightarrow> int \<Rightarrow> PaperOrderStatus \<Rightarrow> PaperOrderLevel \<times> Paper \<Rightarrow> PaperOrderLevel \<times> Paper" where
  "remove_paper_order node removed_qty status lp =
     (case node of
        None \<Rightarrow> lp
      | Some n \<Rightarrow>
          let (level, p) = lp; oid = pn_order_id (np_get (paper_pool p) n) in
          case hm_find (paper_orders p) oid of
            None \<Rightarrow>
              (level\<lparr>pl_orders := removeAll n (pl_orders level)\<rparr>,
               p_release (Some n) (p\<lparr>paper_order_info := hm_erase oid (paper_order_info p)\<rparr>))
          | Some order \<Rightarrow>
              let removed1 = (if removed_qty \<le> 0 then po_remaining_qty order else removed_qty) in
              if removed1 \<le> 0 then forget_paper_order n oid (level, p)
              else
                let removed = min removed1 (po_remaining_qty order);
                    order' = order\<lparr>po_remaining_qty := po_remaining_qty order - removed,
                                   po_status := status\<rparr>;
                    level' = level\<lparr>pl_queued_lots := pl_queued_lots level - removed,
                                   pl_paper_qty := fw_add (po_paper_index order) (- removed)
                                                     (pl_paper_qty level)\<rparr>
                in forget_paper_order n oid
                     (level', p\<lparr>paper_orders := hm_put oid order' (paper_orders p)\<rparr>))"

text \<open>
  \<open>apply_paper_trade_at_level\<close>: historical volume trades at the level, and each paper order is
  filled by what exceeds the queue ahead of it. \<open>ns\<close> is the rest of the queue of the level from
  the iterator on; the loop only removes the node the iterator stands on.
\<close>

fun paper_trade_loop ::
  "nat \<Rightarrow> Side \<Rightarrow> int \<Rightarrow> NormalizedLobEvent \<Rightarrow> nat list \<Rightarrow> PaperOrderLevel \<times> Paper \<Rightarrow> int \<Rightarrow> int
     \<Rightarrow> (PaperOrderLevel \<times> Paper) \<times> FillRecord list" where
  "paper_trade_loop sq s px ev [] lp trade_lots marketConsumed = (lp, [])"
| "paper_trade_loop sq s px ev (n # ns) lp trade_lots marketConsumed =
     (if \<not> trade_lots > 0 then (lp, [])
      else
        let (level, p) = lp; oid = pn_order_id (np_get (paper_pool p) n) in
        case hm_find (paper_orders p) oid of
          None \<Rightarrow>
            paper_trade_loop sq s px ev ns
              (level\<lparr>pl_orders := removeAll n (pl_orders level)\<rparr>,
               p_release (Some n) (p\<lparr>paper_order_info := hm_erase oid (paper_order_info p)\<rparr>))
              trade_lots marketConsumed
        | Some order \<Rightarrow>
            let totalMarketAhead = market_ahead level (po_placement_seq order);
                aheadMarket = (if totalMarketAhead > marketConsumed
                               then totalMarketAhead - marketConsumed else 0);
                aheadPaper = fw_sum (pl_paper_qty level) (po_paper_index order);
                queueAhead = aheadMarket + aheadPaper
            in if queueAhead \<ge> trade_lots then (lp, [])
               else
                 let lots = trade_lots - queueAhead; consumed = marketConsumed + aheadMarket in
                 if po_remaining_qty order \<le> 0
                 then paper_trade_loop sq s px ev ns (forget_paper_order n oid lp) lots consumed
                 else
                   let fillQty = min (po_remaining_qty order) lots in
                   if fillQty \<le> 0 then paper_trade_loop sq s px ev ns lp lots consumed
                   else
                     let eventIsAggressor = (ev_update_type ev = ADD);
                         fill = paper_fill sq s px fillQty oid order
                           (if eventIsAggressor then ev_order_id ev else UnknownOrderIdSentinel)
                           (if eventIsAggressor then ev_trader_id ev else UnknownTraderIdSentinel) ev;
                         lp' = (if fillQty < po_remaining_qty order
                           then (level\<lparr>pl_queued_lots := pl_queued_lots level - fillQty,
                                       pl_paper_qty := fw_add (po_paper_index order) (- fillQty)
                                                         (pl_paper_qty level)\<rparr>,
                                 p\<lparr>paper_orders := hm_put oid
                                     (order\<lparr>po_remaining_qty := po_remaining_qty order - fillQty,
                                            po_status := PO_PARTIALLY_FILLED\<rparr>) (paper_orders p)\<rparr>)
                           else remove_paper_order (Some n) fillQty PO_FILLED lp);
                         (lp'', fills) = paper_trade_loop sq s px ev ns lp' (lots - fillQty) consumed
                     in (lp'', fill # fills))"

definition apply_paper_trade_at_level ::
  "nat \<Rightarrow> Side \<Rightarrow> int \<Rightarrow> int \<Rightarrow> NormalizedLobEvent \<Rightarrow> Paper \<Rightarrow> Paper \<times> FillRecord list" where
  "apply_paper_trade_at_level sq s px trade_lots aggressor p =
     (if trade_lots \<le> 0 then (p, [])
      else case find_paper_level s px p of
        None \<Rightarrow> (p, [])
      | Some level \<Rightarrow>
          let ((level', p'), fills) =
                paper_trade_loop sq s px aggressor (pl_orders level) (level, p) trade_lots 0
          in (p_close_level s px level' p', fills))"

text \<open>\<open>trade_against_paper_level\<close>: an aggressor consumes the paper queue itself.\<close>

fun paper_hit_loop ::
  "nat \<Rightarrow> Side \<Rightarrow> int \<Rightarrow> NormalizedLobEvent \<Rightarrow> nat list \<Rightarrow> PaperOrderLevel \<times> Paper \<Rightarrow> int \<Rightarrow> int
     \<Rightarrow> ((PaperOrderLevel \<times> Paper) \<times> int) \<times> FillRecord list" where
  "paper_hit_loop sq s px ev [] lp trade_lots consumed = ((lp, consumed), [])"
| "paper_hit_loop sq s px ev (n # ns) lp trade_lots consumed =
     (if \<not> trade_lots > 0 then ((lp, consumed), [])
      else
        let (level, p) = lp; oid = pn_order_id (np_get (paper_pool p) n) in
        case hm_find (paper_orders p) oid of
          None \<Rightarrow>
            paper_hit_loop sq s px ev ns
              (level\<lparr>pl_orders := removeAll n (pl_orders level)\<rparr>,
               p_release (Some n) (p\<lparr>paper_order_info := hm_erase oid (paper_order_info p)\<rparr>))
              trade_lots consumed
        | Some order \<Rightarrow>
            if po_remaining_qty order \<le> 0 \<or> po_status order = PO_FILLED
               \<or> po_status order = PO_CANCELLED \<or> po_status order = PO_REJECTED
            then paper_hit_loop sq s px ev ns (forget_paper_order n oid lp) trade_lots consumed
            else
              let fillQty = min (po_remaining_qty order) trade_lots;
                  fill = paper_fill sq s px fillQty oid order (ev_order_id ev) (ev_trader_id ev) ev;
                  fs = (if fillQty > 0 then [fill] else []);
                  remaining = po_remaining_qty order - fillQty;
                  p1 = p\<lparr>paper_orders := hm_put oid (order\<lparr>po_remaining_qty := remaining\<rparr>)
                                           (paper_orders p)\<rparr>;
                  lp' = (if remaining = 0
                    then remove_paper_order (Some n) fillQty PO_FILLED (level, p1)
                    else (level\<lparr>pl_queued_lots := pl_queued_lots level - fillQty,
                                pl_paper_qty := fw_add (po_paper_index order) (- fillQty)
                                                  (pl_paper_qty level)\<rparr>,
                          p\<lparr>paper_orders := hm_put oid
                              (order\<lparr>po_remaining_qty := remaining,
                                     po_status := PO_PARTIALLY_FILLED\<rparr>) (paper_orders p)\<rparr>));
                  (res, fills) =
                    paper_hit_loop sq s px ev ns lp' (trade_lots - fillQty) (consumed + fillQty)
              in (res, fs @ fills))"

definition trade_against_paper_level ::
  "nat \<Rightarrow> Side \<Rightarrow> int \<Rightarrow> int \<Rightarrow> NormalizedLobEvent \<Rightarrow> Paper \<Rightarrow> (int \<times> Paper) \<times> FillRecord list" where
  "trade_against_paper_level sq s px trade_lots aggressor p =
     (if trade_lots \<le> 0 then ((0, p), [])
      else case find_paper_level s px p of
        None \<Rightarrow> ((0, p), [])
      | Some level \<Rightarrow>
          let (((level', p'), consumed), fills) =
                paper_hit_loop sq s px aggressor (pl_orders level) (level, p) trade_lots 0
          in ((consumed, p_close_level s px level' p'), fills))"

section \<open>The strategy's own changes to a resting order\<close>

text \<open>
  \<open>reduce_paper_order\<close>, \<open>set_paper_order\<close> and the strategy branch of \<open>on_delete\<close> start the
  same way: find the order's side, price and node, then its level, then the order, dropping what
  is left of it when one of them is missing.
\<close>

type_synonym diag = "DiagnosticRecordCode \<times> DiagnosticRecordSeverity"

definition drop_without_level :: "int \<Rightarrow> PaperOrderInfo \<Rightarrow> Paper \<Rightarrow> Paper" where
  \<comment> \<open>the branch \<open>if (!level)\<close>\<close>
  "drop_without_level oid info p =
     (let p1 = p_release (pi_node info) (p_unlink (pi_node info) p)
      in p1\<lparr>paper_order_info := hm_erase oid (paper_order_info p1),
            paper_orders := hm_erase oid (paper_orders p1)\<rparr>)"

definition drop_without_order :: "int \<Rightarrow> PaperOrderInfo \<Rightarrow> Paper \<Rightarrow> Paper" where
  \<comment> \<open>the branch \<open>if (orderIt == paper_orders.end())\<close>\<close>
  "drop_without_order oid info p =
     (let p1 = p_release (pi_node info) (p_unlink (pi_node info) p)
      in p1\<lparr>paper_order_info := hm_erase oid (paper_order_info p1)\<rparr>)"

definition cancel_paper_order :: "int \<Rightarrow> PaperOrderInfo \<Rightarrow> int \<Rightarrow> PaperOrderLevel \<Rightarrow> Paper \<Rightarrow> Paper" where
  \<comment> \<open>\<open>remove_paper_order(..., CANCELLED)\<close>, then erase an emptied level\<close>
  "cancel_paper_order oid info qty level p =
     (let (level', p') = remove_paper_order (pi_node info) qty PO_CANCELLED (level, p)
      in p_close_level (pi_side info) (pi_price_ticks info) level' p')"

definition reduce_paper_order :: "NormalizedLobEvent \<Rightarrow> Paper \<Rightarrow> Paper \<times> diag list" where
  "reduce_paper_order event p =
     (if ev_quantity_lots event < 0
      then (p, [(REQUESTED_REDUCE_PAPER_ORDER_BY_NEGATIVE_QUANTITY, ERROR)])
      else if ev_quantity_lots event = 0
      then (p, [(REQUESTED_REDUCE_PAPER_ORDER_BY_ZERO_QUANTITY, WARNING)])
      else case hm_find (paper_order_info p) (ev_order_id event) of
        None \<Rightarrow> (p, [])
      | Some info \<Rightarrow>
          (case find_paper_level (pi_side info) (pi_price_ticks info) p of
             None \<Rightarrow> (drop_without_level (ev_order_id event) info p, [])
           | Some level \<Rightarrow>
               (case hm_find (paper_orders p) (ev_order_id event) of
                  None \<Rightarrow> (drop_without_order (ev_order_id event) info p, [])
                | Some order \<Rightarrow>
                    let taken = min (po_remaining_qty order) (ev_quantity_lots event) in
                    if taken \<le> 0 then (p, [])
                    else if taken \<ge> po_remaining_qty order
                    then (cancel_paper_order (ev_order_id event) info (po_remaining_qty order) level p, [])
                    else
                      (p_put_level (pi_side info) (pi_price_ticks info)
                         (level\<lparr>pl_queued_lots := pl_queued_lots level - taken,
                                pl_paper_qty := fw_add (po_paper_index order) (- taken)
                                                  (pl_paper_qty level)\<rparr>)
                         (p\<lparr>paper_orders := hm_put (ev_order_id event)
                             (order\<lparr>po_remaining_qty := po_remaining_qty order - taken\<rparr>)
                             (paper_orders p)\<rparr>), []))))"

definition set_paper_order :: "int \<Rightarrow> int \<Rightarrow> Paper \<Rightarrow> Paper" where
  "set_paper_order oid new_qty0 p =
     (let new_qty = (if new_qty0 < 0 then 0 else new_qty0) in
      case hm_find (paper_order_info p) oid of
        None \<Rightarrow> p
      | Some info \<Rightarrow>
          (case find_paper_level (pi_side info) (pi_price_ticks info) p of
             None \<Rightarrow> drop_without_level oid info p
           | Some level \<Rightarrow>
               (case hm_find (paper_orders p) oid of
                  None \<Rightarrow> drop_without_order oid info p
                | Some order \<Rightarrow>
                    if new_qty = po_remaining_qty order then p
                    else if new_qty = 0
                    then cancel_paper_order oid info (po_remaining_qty order) level p
                    else
                      let p1 = p\<lparr>paper_orders := hm_put oid (order\<lparr>po_remaining_qty := new_qty\<rparr>)
                                                   (paper_orders p)\<rparr> in
                      if new_qty < po_remaining_qty order
                      then
                        let delta = po_remaining_qty order - new_qty in
                        p_put_level (pi_side info) (pi_price_ticks info)
                          (level\<lparr>pl_queued_lots := pl_queued_lots level - delta,
                                 pl_paper_qty := fw_add (po_paper_index order) (- delta)
                                                   (pl_paper_qty level)\<rparr>) p1
                      else
                        let delta = new_qty - po_remaining_qty order in
                        p_put_level (pi_side info) (pi_price_ticks info)
                          (level\<lparr>pl_queued_lots := pl_queued_lots level + delta,
                                 pl_paper_qty := fw_add (po_paper_index order) delta
                                                   (pl_paper_qty level)\<rparr>) p1)))"

definition delete_paper_order :: "NormalizedLobEvent \<Rightarrow> Paper \<Rightarrow> Paper \<times> diag list" where
  "delete_paper_order event p =
     (case hm_find (paper_order_info p) (ev_order_id event) of
        None \<Rightarrow> (p, [(DELETE_NON_EXISTING_PAPER_ORDER_ID, WARNING)])
      | Some info \<Rightarrow>
          (case find_paper_level (pi_side info) (pi_price_ticks info) p of
             None \<Rightarrow> (drop_without_level (ev_order_id event) info p, [])
           | Some level \<Rightarrow>
               (case hm_find (paper_orders p) (ev_order_id event) of
                  None \<Rightarrow> (drop_without_order (ev_order_id event) info p, [])
                | Some order \<Rightarrow>
                    (cancel_paper_order (ev_order_id event) info (po_remaining_qty order) level p, []))))"

text \<open>The paper branch at the end of \<open>on_add\<close>: the remainder joins the queue of its level.\<close>

definition p_rest_order ::
  "NormalizedLobEvent \<Rightarrow> int \<Rightarrow> nat \<Rightarrow> nat \<Rightarrow> Hist \<Rightarrow> Paper \<Rightarrow> bool \<times> Paper" where
  "p_rest_order event remaining aseq cap h p =
     (case np_acquire default_PaperOrderNode cap (paper_pool p) of
        (None, P) \<Rightarrow> (False, p\<lparr>paper_pool := P\<rparr>)
      | (Some n, P) \<Rightarrow>
          let (level, p1) = ensure_paper_level (ev_side event) (ev_price_ticks event) h
                              (p\<lparr>paper_pool := P\<rparr>);
              idx = pl_next_paper_index level;
              order = \<lparr>po_original_event = event,
                       po_status = (if remaining < ev_quantity_lots event
                                    then PO_PARTIALLY_FILLED else PO_OPEN),
                       po_remaining_qty = remaining, po_placement_seq = aseq,
                       po_paper_index = idx\<rparr>;
              level' = level\<lparr>pl_next_paper_index := idx + 1,
                 pl_paper_qty := fw_add idx remaining (fw_ensure_size (idx + 1) (pl_paper_qty level)),
                 pl_orders := pl_orders level @ [n],
                 pl_queued_lots := pl_queued_lots level + remaining\<rparr>;
              p2 = p1\<lparr>paper_orders := hm_emplace (ev_order_id event) order (paper_orders p1),
                      paper_pool := np_set n \<lparr>pn_order_id = ev_order_id event\<rparr> (paper_pool p1),
                      paper_order_info := hm_emplace (ev_order_id event)
                        \<lparr>pi_side = ev_side event, pi_price_ticks = ev_price_ticks event,
                         pi_node = Some n\<rparr> (paper_order_info p1)\<rparr>
          in (True, p_put_level (ev_side event) (ev_price_ticks event) level' p2))"

definition paper_clear :: "Paper \<Rightarrow> Paper" where
  \<comment> \<open>the paper part of \<open>clear_state\<close>\<close>
  "paper_clear p = \<lparr>paper_orders = hm_empty, paper_order_info = hm_empty, paper_bids = hm_empty,
     paper_asks = hm_empty, paper_pool = np_reset (paper_pool p)\<rparr>"

end
