(* ===== verification/Engine.thy ===== *)
theory Engine
  imports PaperBook
begin

text \<open>
  \<open>PaperTradingSimulator\<close> itself: the handlers, \<open>update\<close>, the snapshots and the queries, over
  the historical and the paper half. \<open>calls\<close> is the sequence of calls made on the attached sink
  (none while \<open>sink\<close> is false, the null pointer).
\<close>

section \<open>State\<close>

record Sim =
  seq :: nat
  order_arrival_seq :: nat
  hist :: Hist
  paper :: Paper
  sink :: bool
  historical_capacity :: nat
  paper_capacity :: nat
  calls :: "SinkCall list"

definition sim_init :: "nat \<Rightarrow> nat \<Rightarrow> Sim" where
  \<comment> \<open>the constructor from capacities; \<open>init_pools\<close> only reserves memory\<close>
  "sim_init hcap pcap = \<lparr>seq = 0, order_arrival_seq = 0, hist = hist_init, paper = paper_init,
     sink = False, historical_capacity = hcap, paper_capacity = pcap, calls = []\<rparr>"

definition set_log_sink :: "bool \<Rightarrow> Sim \<Rightarrow> Sim" where
  "set_log_sink b st = st\<lparr>sink := b\<rparr>"

definition emit_call :: "SinkCall \<Rightarrow> Sim \<Rightarrow> Sim" where
  "emit_call c st = (if sink st then st\<lparr>calls := calls st @ [c]\<rparr> else st)"

definition emit_fills :: "FillRecord list \<Rightarrow> Sim \<Rightarrow> Sim" where
  "emit_fills fs st = (if sink st then st\<lparr>calls := calls st @ map OnFill fs\<rparr> else st)"

definition emit_diagnostic ::
  "NormalizedLobEvent \<Rightarrow> DiagnosticRecordCode \<Rightarrow> DiagnosticRecordSeverity \<Rightarrow> Sim \<Rightarrow> Sim" where
  "emit_diagnostic event code severity st =
     emit_call (OnDiagnostic \<lparr>dr_seq = seq st, dr_ts_exchange = ev_ts_exchange event,
       dr_ts_received = ev_ts_received event, dr_code = code, dr_severity = severity,
       dr_book_key = ev_symbol_id event\<rparr>) st"

definition diag_if ::
  "bool \<Rightarrow> NormalizedLobEvent \<Rightarrow> DiagnosticRecordCode \<Rightarrow> DiagnosticRecordSeverity \<Rightarrow> Sim \<Rightarrow> Sim" where
  "diag_if b event code severity st = (if b then emit_diagnostic event code severity st else st)"

definition emit_diags :: "NormalizedLobEvent \<Rightarrow> diag list \<Rightarrow> Sim \<Rightarrow> Sim" where
  "emit_diags event ds st = fold (\<lambda>(c, sev). emit_diagnostic event c sev) ds st"

section \<open>ADD\<close>

definition add_is_duplicate :: "NormalizedLobEvent \<Rightarrow> Sim \<Rightarrow> bool" where
  "add_is_duplicate event st \<longleftrightarrow>
     hm_contains (order_info (hist st)) (ev_order_id event) \<or>
     hm_contains (paper_orders (paper st)) (ev_order_id event) \<or>
     hm_contains (paper_order_info (paper st)) (ev_order_id event)"

text \<open>
  A historical aggressor against the opposite book. One iteration consumes the best level; what
  traded there is offered to the paper orders at that level, and their market index is updated.
\<close>

definition match_one_level :: "NormalizedLobEvent \<Rightarrow> int \<Rightarrow> int \<Rightarrow> Sim \<Rightarrow> int \<times> Sim" where
  "match_one_level event bestPx remaining st =
     (let s = opposite (ev_side event);
          levelList = hm_get [] (h_book s (hist st)) bestPx;
          (rest, r) = consume_level (seq st) event bestPx levelList
            \<lparr>lr_hist = hist st, lr_remaining = remaining, lr_traded = 0, lr_deltas = [],
             lr_fills = []\<rparr>;
          st1 = emit_fills (lr_fills r) (st\<lparr>hist := lr_hist r\<rparr>);
          st2 = (if lr_traded r > 0
                 then let (p, fs) = apply_paper_trade_at_level (seq st) s bestPx (lr_traded r) event
                                      (paper st1)
                      in emit_fills fs (st1\<lparr>paper := p_market_deltas s bestPx (lr_deltas r) p\<rparr>)
                 else st1);
          book = (if rest = [] then hm_erase bestPx (h_book s (hist st2))
                  else hm_put bestPx rest (h_book s (hist st2)))
      in (lr_remaining r, st2\<lparr>hist := h_set_book s book (hist st2)\<rparr>))"

text \<open>For the termination of the loop: lots to go plus orders in the opposite book.\<close>

definition book_total :: "Book \<Rightarrow> nat" where
  "book_total b = sum_list (map (length \<circ> snd) b)"

lemma book_total_erase:
  "hm_find b px = Some q \<Longrightarrow> book_total (hm_erase px b) + length q \<le> book_total b"
proof (induction b)
  case Nil
  then show ?case by (simp add: hm_find_def)
next
  case (Cons kv b)
  have mono: "book_total (AList.delete px b) \<le> book_total b"
    by (induction b) (auto simp: book_total_def)
  show ?case
  proof (cases "fst kv = px")
    case True
    with Cons.prems mono show ?thesis
      by (cases kv) (auto simp: hm_find_def hm_erase_def book_total_def)
  next
    case False
    with Cons show ?thesis
      by (cases kv) (auto simp: hm_find_def hm_erase_def book_total_def)
  qed
qed

lemma book_total_put:
  "hm_find b px = Some q \<Longrightarrow> book_total (hm_put px q' b) + length q = book_total b + length q'"
proof (induction b)
  case Nil
  then show ?case by (simp add: hm_find_def)
next
  case (Cons kv b)
  then show ?case
    by (cases kv) (auto simp: hm_find_def hm_put_def book_total_def split: if_splits)
qed

lemma consume_level_shrinks:
  "consume_level sq ev px q r = (q', r') \<Longrightarrow>
     lr_remaining r' \<le> lr_remaining r \<and> (lr_remaining r \<ge> 0 \<longrightarrow> lr_remaining r' \<ge> 0) \<and>
     length q' \<le> length q \<and>
     (q \<noteq> [] \<and> lr_remaining r > 0 \<longrightarrow> lr_remaining r' < lr_remaining r \<or> length q' < length q)"
proof (induction q arbitrary: r)
  case (Cons n q)
  from Cons.prems show ?case
    by (cases rule: consume_level_cases) (fastforce dest: Cons.IH)+
qed auto

lemma hist_emit [simp, frame_simps]:
  "hist (emit_call c st) = hist st" "hist (emit_fills fs st) = hist st"
  "hist (emit_diagnostic event code sev st) = hist st"
  by (simp_all add: emit_call_def emit_fills_def emit_diagnostic_def)

lemma match_one_level_shrinks:
  assumes "match_one_level event px remaining st = (remaining', st')"
    and "hm_find (h_book (opposite (ev_side event)) (hist st)) px = Some q" "q \<noteq> []" "remaining > 0"
  shows "nat remaining' + book_total (h_book (opposite (ev_side event)) (hist st'))
    < nat remaining + book_total (h_book (opposite (ev_side event)) (hist st))"
proof -
  let ?s = "opposite (ev_side event)"
  obtain q' r where c: "consume_level (seq st) event px q
      \<lparr>lr_hist = hist st, lr_remaining = remaining, lr_traded = 0, lr_deltas = [], lr_fills = []\<rparr>
      = (q', r)" by fastforce
  from c have book: "h_book ?s (lr_hist r) = h_book ?s (hist st)"
    using consume_level_frame [OF c] by simp
  have m: "remaining' = lr_remaining r"
    "h_book ?s (hist st') = (if q' = [] then hm_erase px (h_book ?s (hist st))
       else hm_put px q' (h_book ?s (hist st)))"
    using assms(1,2) c book
    by (auto simp: match_one_level_def Let_def hm_get_def split: prod.splits if_splits)
  have "0 < length q" using assms(3) by simp
  then obtain k where k: "length q = Suc k" using gr0_implies_Suc by blast
  show ?thesis
    using consume_level_shrinks [OF c] assms(3,4) k m
      book_total_erase [OF assms(2)] book_total_put [OF assms(2), of q']
    by (cases "q' = []") auto
qed

lemma match_loop_decreases:
  assumes "s = opposite (ev_side event)" "remaining > 0"
    and b: "(Some px, heap') = best_opposite_price s (h_book s (hist st)) (h_heap s (hist st))"
    and "(remaining', st2) = match_one_level event px remaining (st\<lparr>hist := h_set_heap s heap' (hist st)\<rparr>)"
  shows "nat remaining' + book_total (h_book s (hist st2)) < nat remaining + book_total (h_book s (hist st))"
proof -
  obtain q where "hm_find (h_book s (hist st)) px = Some q" "q \<noteq> []"
    using best_opposite_price_Some [OF b [symmetric]] by blast
  with assms match_one_level_shrinks [of event px remaining
      "st\<lparr>hist := h_set_heap s heap' (hist st)\<rparr>" remaining' st2 q]
  show ?thesis by simp
qed

function match_loop :: "NormalizedLobEvent \<Rightarrow> int \<Rightarrow> Sim \<Rightarrow> int \<times> Sim" where
  "match_loop event remaining st =
     (if \<not> remaining > 0 then (remaining, st)
      else
        let s = opposite (ev_side event) in
        case best_opposite_price s (h_book s (hist st)) (h_heap s (hist st)) of
          (None, heap') \<Rightarrow> (remaining, st\<lparr>hist := h_set_heap s heap' (hist st)\<rparr>)
        | (Some bestPx, heap') \<Rightarrow>
            let st1 = st\<lparr>hist := h_set_heap s heap' (hist st)\<rparr> in
            if \<not> price_crosses event bestPx then (remaining, st1)
            else let (remaining', st2) = match_one_level event bestPx remaining st1
                 in match_loop event remaining' st2)"
  by pat_completeness auto
termination
  by (relation "measure (\<lambda>(event, remaining, st).
      nat remaining + book_total (h_book (opposite (ev_side event)) (hist st)))")
    (auto split: prod.split intro!: match_loop_decreases)

declare match_loop.simps [simp del]

text \<open>A historical aggressor against resting paper orders, best paper price first.\<close>

function hit_paper_loop ::
  "nat \<Rightarrow> NormalizedLobEvent \<Rightarrow> (int \<Rightarrow> bool) \<Rightarrow> int \<Rightarrow> Paper \<Rightarrow> (int \<times> Paper) \<times> FillRecord list"
where
  \<comment> \<open>\<open>crosses\<close> is the price check of \<open>on_add\<close>; \<open>on_aggressive_trade\<close> has none\<close>
  "hit_paper_loop sq event crosses remaining p =
     (if \<not> remaining > 0 then ((remaining, p), [])
      else
        let s = opposite (ev_side event) in
        case best_paper_opposite_price s p of
          None \<Rightarrow> ((remaining, p), [])
        | Some paperPx \<Rightarrow>
            if \<not> crosses paperPx then ((remaining, p), [])
            else
              let ((traded, p'), fs) = trade_against_paper_level sq s paperPx remaining event p in
              if traded \<le> 0 then ((remaining, p'), fs)
              else let (res, fs') = hit_paper_loop sq event crosses (remaining - traded) p'
                   in (res, fs @ fs'))"
  by pat_completeness auto
termination
  by (relation "measure (\<lambda>(sq, event, crosses, remaining, p). nat remaining)") auto

declare hit_paper_loop.simps [simp del]

definition rest_historical :: "NormalizedLobEvent \<Rightarrow> int \<Rightarrow> Sim \<Rightarrow> Sim" where
  "rest_historical event remaining st =
     (case h_rest_order event remaining (order_arrival_seq st) (historical_capacity st) (hist st) of
        (None, h) \<Rightarrow> emit_diagnostic event HISTORICAL_ORDER_POOL_EXHAUSTED ERROR (st\<lparr>hist := h\<rparr>)
      | (Some n, h) \<Rightarrow>
          let sq = order_arrival_seq st;
              st1 = st\<lparr>hist := h, order_arrival_seq := sq + 1\<rparr>
          in case find_paper_level (ev_side event) (ev_price_ticks event) (paper st1) of
               None \<Rightarrow> st1
             | Some level \<Rightarrow>
                 st1\<lparr>paper := p_put_level (ev_side event) (ev_price_ticks event)
                                (push_market sq remaining level) (paper st1)\<rparr>)"

definition rest_paper :: "NormalizedLobEvent \<Rightarrow> int \<Rightarrow> Sim \<Rightarrow> Sim" where
  "rest_paper event remaining st =
     (case p_rest_order event remaining (order_arrival_seq st) (paper_capacity st) (hist st) (paper st) of
        (False, p) \<Rightarrow> emit_diagnostic event PAPER_ORDER_POOL_EXHAUSTED ERROR (st\<lparr>paper := p\<rparr>)
      | (True, p) \<Rightarrow> st\<lparr>paper := p, order_arrival_seq := order_arrival_seq st + 1\<rparr>)"

definition on_add_historical :: "NormalizedLobEvent \<Rightarrow> Sim \<Rightarrow> Sim" where
  \<comment> \<open>\<open>on_add\<close> where \<open>paper\<close> is false\<close>
  "on_add_historical event st =
     (let s = opposite (ev_side event);
          (best, heap') = best_opposite_price s (h_book s (hist st)) (h_heap s (hist st));
          st1 = st\<lparr>hist := h_set_heap s heap' (hist st)\<rparr>;
          crosses = (case best of None \<Rightarrow> False | Some px \<Rightarrow> price_crosses event px);
          (remaining, st2) = (if crosses then match_loop event (ev_quantity_lots event) st1
                              else (ev_quantity_lots event, st1));
          ((remaining', p), fs) = hit_paper_loop (seq st2) event (price_crosses event) remaining
                                    (paper st2);
          st3 = emit_fills fs (st2\<lparr>paper := p\<rparr>)
      in if remaining' > 0 then rest_historical event remaining' st3 else st3)"

definition on_add_paper :: "NormalizedLobEvent \<Rightarrow> Sim \<Rightarrow> Sim" where
  \<comment> \<open>\<open>on_add\<close> where \<open>paper\<close> is true: only a copy of the heap is cleaned\<close>
  "on_add_paper event st =
     (let s = opposite (ev_side event);
          (best, heapCopy) = best_opposite_price s (h_book s (hist st)) (h_heap s (hist st));
          crosses = (case best of None \<Rightarrow> False | Some px \<Rightarrow> price_crosses event px);
          (remaining, fs) = (if crosses
                             then sweep_add s (seq st) event (hist st) heapCopy (ev_quantity_lots event)
                             else (ev_quantity_lots event, []));
          st1 = emit_fills fs st
      in if remaining > 0 then rest_paper event remaining st1 else st1)"

definition on_add :: "NormalizedLobEvent \<Rightarrow> Sim \<Rightarrow> Sim" where
  "on_add event st =
     (if ev_quantity_lots event < 0
      then emit_diagnostic event ADD_INVOKED_WITH_NEGATIVE_QUANTITY ERROR st
      else if add_is_duplicate event st
      then emit_diagnostic event ADD_DUPLICATE_ORDER_ID WARNING st
      else if ev_update_source event = STRATEGY then on_add_paper event st
      else on_add_historical event st)"

section \<open>AGGRESSIVE_TRADE\<close>

definition on_aggressive_trade :: "NormalizedLobEvent \<Rightarrow> Sim \<Rightarrow> Sim" where
  "on_aggressive_trade event st =
     (if ev_update_source event \<noteq> STRATEGY then emit_diagnostic event INVALID_UPDATE_TYPE ERROR st
      else if ev_quantity_lots event \<le> 0
      then emit_diagnostic event ADD_INVOKED_WITH_NEGATIVE_QUANTITY ERROR st
      else
        let s = opposite (ev_side event);
            (remaining, fs) = sweep_aggressive s (seq st) event (hist st) (h_heap s (hist st))
                                (ev_quantity_lots event);
            st1 = emit_fills fs st;
            ((_, p), fs') = hit_paper_loop (seq st1) event (\<lambda>_. True) remaining (paper st1);
            st2 = emit_fills fs' (st1\<lparr>paper := p\<rparr>)
        in st2\<lparr>seq := seq st2 + 1\<rparr>)"

section \<open>DELETE, SET, SUBTRACT, MATCH\<close>

definition on_delete :: "NormalizedLobEvent \<Rightarrow> Sim \<Rightarrow> Sim" where
  "on_delete event st =
     (if ev_update_source event = STRATEGY
      then let (p, ds) = delete_paper_order event (paper st)
           in emit_diags event ds (st\<lparr>paper := p\<rparr>)
      else case hm_find (order_info (hist st)) (ev_order_id event) of
        None \<Rightarrow> emit_diagnostic event DELETE_NON_EXISTING_HISTORICAL_ORDER_ID WARNING st
      | Some info \<Rightarrow>
          let s = oi_side info; px = oi_price_ticks info;
              st1 = diag_if (s \<noteq> ev_side event) event
                   PROVIDED_SIDE_ON_DELETE_DIFFERS_FROM_ORIGINAL_SIDE_FOR_ORDER_ID WARNING st;
              st2 = diag_if (px \<noteq> ev_price_ticks event) event
                   PROVIDED_PRICE_ON_DELETE_DIFFERS_FROM_ORIGINAL_PRICE_FOR_ORDER_ID WARNING st1
          in case (hm_find (h_book s (hist st2)) px, oi_node info) of
               (Some queue, Some n) \<Rightarrow>
                 let node = np_get (order_pool (hist st2)) n;
                     p = (if on_qty node > 0
                          then p_market_deltas s px [(on_arrival_seq node, - on_qty node)] (paper st2)
                          else paper st2)
                 in st2\<lparr>paper := p, hist := h_remove_order s px n (ev_order_id event) (hist st2)\<rparr>
             | _ \<Rightarrow> emit_diagnostic event CORRUPT_BOOK_PRICE_IN_ORDER_INFO_BUT_NOT_IN_BOOK ERROR st2)"

definition on_set :: "NormalizedLobEvent \<Rightarrow> Sim \<Rightarrow> Sim" where
  "on_set event st =
     (if ev_update_source event = STRATEGY
      then st\<lparr>paper := set_paper_order (ev_order_id event) (ev_quantity_lots event) (paper st)\<rparr>
      else
        let st0 = diag_if (ev_quantity_lots event < 0) event
                 SET_WITH_NEGATIVE_LIQUIDITY_REQUESTED_WAS_SET_TO_ZERO WARNING st
        in case hm_find (order_info (hist st0)) (ev_order_id event) of
          None \<Rightarrow> emit_diagnostic event SET_NON_EXISTING_ORDER_ID_IS_REJECTED WARNING st0
        | Some info \<Rightarrow>
            let s = oi_side info; px = oi_price_ticks info;
                st1 = diag_if (s \<noteq> ev_side event) event
                     PROVIDED_SIDE_ON_SET_DIFFERS_FROM_ORIGINAL_SIDE_FOR_ORDER_ID WARNING st0;
                st2 = diag_if (px \<noteq> ev_price_ticks event) event
                     PROVIDED_PRICE_ON_SET_DIFFERS_FROM_ORIGINAL_PRICE_FOR_ORDER_ID WARNING st1
            in case (hm_find (h_book s (hist st2)) px, oi_node info) of
                 (Some queue, Some n) \<Rightarrow>
                   let node = np_get (order_pool (hist st2)) n;
                       newQuantity = (if ev_quantity_lots event < 0 then 0 else ev_quantity_lots event);
                       delta = newQuantity - on_qty node;
                       p = (if delta \<noteq> 0
                            then p_market_deltas s px [(on_arrival_seq node, delta)] (paper st2)
                            else paper st2);
                       h = (if newQuantity = 0
                            then h_remove_order s px n (ev_order_id event) (hist st2)
                            else h_set_qty n newQuantity (hist st2))
                   in st2\<lparr>paper := p, hist := h\<rparr>
               | _ \<Rightarrow> emit_diagnostic event CORRUPT_BOOK_PRICE_IN_ORDER_INFO_BUT_NOT_IN_BOOK ERROR st2)"

definition passive_fill ::
  "nat \<Rightarrow> Side \<Rightarrow> int \<Rightarrow> int \<Rightarrow> OrderNode \<Rightarrow> NormalizedLobEvent \<Rightarrow> FillRecord" where
  "passive_fill sq s px qty node event =
     \<lparr>fr_seq = sq, fr_ts_exchange = ev_ts_exchange event, fr_ts_received = ev_ts_received event,
      fr_price_ticks = px, fr_qty_lots = qty, fr_maker_side = s,
      fr_maker_order_id = ev_order_id event, fr_maker_trader_id = on_trader_id node,
      fr_maker_source = on_source node, fr_taker_side = opposite s,
      fr_taker_order_id = UnknownOrderIdSentinel, fr_taker_trader_id = UnknownTraderIdSentinel,
      fr_taker_source = ev_update_source event, fr_book_key = ev_symbol_id event\<rparr>"

definition on_partial_order_cancel :: "NormalizedLobEvent \<Rightarrow> bool \<Rightarrow> Sim \<Rightarrow> Sim" where
  "on_partial_order_cancel event is_trade_on_passive_order st =
     (if ev_quantity_lots event < 0
      then emit_diagnostic event REQUESTED_REDUCE_ORDER_BY_NEGATIVE_QUANTITY ERROR st
      else if ev_quantity_lots event = 0
      then emit_diagnostic event REQUESTED_REDUCE_ORDER_BY_ZERO_QUANTITY WARNING st
      else case hm_find (order_info (hist st)) (ev_order_id event) of
        None \<Rightarrow> emit_diagnostic event REQUESTED_REDUCE_NON_EXISTING_ORDER_ID WARNING st
      | Some info \<Rightarrow>
          let s = oi_side info; px = oi_price_ticks info;
              st1 = diag_if (s \<noteq> ev_side event) event
                   PROVIDED_SIDE_ON_ORDER_REDUCE_DIFFERS_FROM_ORIGINAL_SIDE_FOR_ORDER_ID WARNING st;
              st2 = diag_if (px \<noteq> ev_price_ticks event) event
                   PROVIDED_PRICE_ON_ORDER_REDUCE_DIFFERS_FROM_ORIGINAL_PRICE_FOR_ORDER_ID WARNING st1
          in case (hm_find (h_book s (hist st2)) px, oi_node info) of
               (Some queue, Some n) \<Rightarrow>
                 let node = np_get (order_pool (hist st2)) n;
                     qty = min (on_qty node) (ev_quantity_lots event);
                     st3 = diag_if (ev_quantity_lots event > on_qty node) event
                          REQUESTED_ORDER_REDUCE_WITH_VOLUME_LARGER_THAN_AVAILABLE_FOR_ORDER_ID WARNING st2;
                     liquidity = on_qty node - qty;
                     st4 = (if qty > 0 \<and> is_trade_on_passive_order
                            then let (p, fs) = apply_paper_trade_at_level (seq st3) s px qty event
                                                 (paper st3)
                                 in emit_fills fs (st3\<lparr>paper := p\<rparr>)
                            else st3);
                     st5 = (if qty > 0
                            then st4\<lparr>paper := p_market_deltas s px [(on_arrival_seq node, - qty)]
                                               (paper st4)\<rparr>
                            else st4);
                     st6 = (if is_trade_on_passive_order
                            then emit_fills [passive_fill (seq st5) s px qty node event] st5
                            else st5);
                     h = (if liquidity = 0
                          then h_remove_order s px n (ev_order_id event) (hist st6)
                          else h_set_qty n liquidity (hist st6));
                     st7 = st6\<lparr>hist := h\<rparr>
                 in diag_if (is_trade_on_passive_order \<and> ev_update_source event = STRATEGY) event
                      PAPER_ORDER_INVOKES_PASSIVE_MATCH_INSTEAD_OF_AGGRESSIVE_TRADE ERROR st7
             | _ \<Rightarrow> emit_diagnostic event CORRUPT_BOOK_PRICE_IN_ORDER_INFO_BUT_NOT_IN_BOOK ERROR st2)"

definition on_subtract :: "NormalizedLobEvent \<Rightarrow> Sim \<Rightarrow> Sim" where
  "on_subtract event st =
     (if ev_update_source event = STRATEGY
      then let (p, ds) = reduce_paper_order event (paper st)
           in emit_diags event ds (st\<lparr>paper := p\<rparr>)
      else on_partial_order_cancel event False st)"

definition on_match :: "NormalizedLobEvent \<Rightarrow> Sim \<Rightarrow> Sim" where
  "on_match event st = on_partial_order_cancel event True st"

section \<open>update\<close>

definition apply_record :: "nat \<Rightarrow> NormalizedLobEvent \<Rightarrow> EventApplyRecord" where
  "apply_record sq event =
     \<lparr>ar_seq = sq, ar_ts_exchange = ev_ts_exchange event, ar_ts_received = ev_ts_received event,
      ar_side = ev_side event, ar_update_type = ev_update_type event,
      ar_source = ev_update_source event, ar_price_ticks = ev_price_ticks event,
      ar_qty_lots = ev_quantity_lots event, ar_order_id = ev_order_id event,
      ar_trader_id = ev_trader_id event, ar_aggressor_id = ev_aggressor_id event,
      ar_book_key = ev_symbol_id event\<rparr>"

definition dispatch :: "NormalizedLobEvent \<Rightarrow> Sim \<Rightarrow> Sim" where
  "dispatch event st =
     (case ev_update_type event of
        ADD \<Rightarrow> on_add event st
      | AGGRESSIVE_TRADE \<Rightarrow> on_aggressive_trade event st
      | DELETE \<Rightarrow> on_delete event st
      | SUBTRACT \<Rightarrow> on_subtract event st
      | MATCH \<Rightarrow> on_match event st
      | SET \<Rightarrow> on_set event st
      | RAW_UPDATE_TYPE _ \<Rightarrow> emit_diagnostic event INVALID_UPDATE_TYPE ERROR st)"

definition update :: "NormalizedLobEvent \<Rightarrow> Sim \<Rightarrow> Sim" where
  "update event st =
     (let st1 = emit_call (OnEventApply (apply_record (seq st) event)) st;
          st2 = dispatch event st1
      in st2\<lparr>seq := seq st2 + 1\<rparr>)"

definition run_updates :: "NormalizedLobEvent list \<Rightarrow> Sim \<Rightarrow> Sim" where
  "run_updates evs st = fold update evs st"

end
