(* ===== verification/HistInv.thy ===== *)
theory HistInv
  imports HistBook
begin

text \<open>
  The invariant of the historical book and what every operation of \<open>HistBook\<close> does to it. The
  queues, nodes and index of a book are read through total functions (\<open>hq\<close>, \<open>hn\<close>), so that the
  structural core of the invariant is a statement about functions.
\<close>

definition hq :: "Hist \<Rightarrow> Side \<Rightarrow> int \<Rightarrow> nat list" where
  "hq h s px = hm_get [] (h_book s h) px"

definition hn :: "Hist \<Rightarrow> nat \<Rightarrow> OrderNode" where
  "hn h n = np_get (order_pool h) n"

section \<open>The structural core\<close>

text \<open>
  Queues are in arrival order and share no node; a queued node is live, has lots to sell and is
  indexed (the anonymous orders of an L2 snapshot are not); a live node is queued; an index entry
  points to a queued node of that id.
\<close>

definition core_queues :: "(Side \<Rightarrow> int \<Rightarrow> nat list) \<Rightarrow> (nat \<Rightarrow> OrderNode) \<Rightarrow> bool" where
  "core_queues Q N \<longleftrightarrow>
     (\<forall>s px. distinct (Q s px) \<and>
        sorted_wrt (\<lambda>m n. on_arrival_seq (N m) < on_arrival_seq (N n)) (Q s px)) \<and>
     (\<forall>s px s' px' n. n \<in> set (Q s px) \<longrightarrow> n \<in> set (Q s' px') \<longrightarrow> s' = s \<and> px' = px)"

definition core_nodes ::
  "(Side \<Rightarrow> int \<Rightarrow> nat list) \<Rightarrow> (nat \<Rightarrow> OrderNode) \<Rightarrow> nat set \<Rightarrow> (int \<Rightarrow> OrderInfo option) \<Rightarrow> nat \<Rightarrow> bool"
where
  "core_nodes Q N L I a \<longleftrightarrow>
     (\<forall>s px n. n \<in> set (Q s px) \<longrightarrow>
        n \<in> L \<and> 0 < on_qty (N n) \<and> on_arrival_seq (N n) < a \<and>
        (on_order_id (N n) \<noteq> UnknownOrderIdSentinel \<longrightarrow>
           I (on_order_id (N n)) = Some \<lparr>oi_side = s, oi_price_ticks = px, oi_node = Some n\<rparr>)) \<and>
     (\<forall>n \<in> L. \<exists>s px. n \<in> set (Q s px))"

definition core_index ::
  "(Side \<Rightarrow> int \<Rightarrow> nat list) \<Rightarrow> (nat \<Rightarrow> OrderNode) \<Rightarrow> (int \<Rightarrow> OrderInfo option) \<Rightarrow> bool"
where
  "core_index Q N I \<longleftrightarrow>
     (\<forall>i info. I i = Some info \<longrightarrow>
        (\<exists>n. oi_node info = Some n \<and> n \<in> set (Q (oi_side info) (oi_price_ticks info)) \<and>
             on_order_id (N n) = i))"

definition core ::
  "(Side \<Rightarrow> int \<Rightarrow> nat list) \<Rightarrow> (nat \<Rightarrow> OrderNode) \<Rightarrow> nat set \<Rightarrow> (int \<Rightarrow> OrderInfo option) \<Rightarrow> nat \<Rightarrow> bool"
where
  "core Q N L I a \<longleftrightarrow> core_queues Q N \<and> core_nodes Q N L I a \<and> core_index Q N I"

definition set_queue ::
  "Side \<Rightarrow> int \<Rightarrow> nat list \<Rightarrow> (Side \<Rightarrow> int \<Rightarrow> nat list) \<Rightarrow> Side \<Rightarrow> int \<Rightarrow> nat list" where
  "set_queue s px q Q = (\<lambda>s' p. if s' = s \<and> p = px then q else Q s' p)"

lemma set_queue_apply [simp]:
  "set_queue s px q Q s' p = (if s' = s \<and> p = px then q else Q s' p)"
  by (simp add: set_queue_def)

lemma core_distinct: "core Q N L I a \<Longrightarrow> distinct (Q s px)"
  by (simp add: core_def core_queues_def)

lemma core_live: "core Q N L I a \<Longrightarrow> n \<in> set (Q s px) \<Longrightarrow> n \<in> L"
  by (simp add: core_def core_nodes_def)

lemma core_qty_pos: "core Q N L I a \<Longrightarrow> n \<in> set (Q s px) \<Longrightarrow> 0 < on_qty (N n)"
  by (simp add: core_def core_nodes_def)

lemma core_unique:
  "core Q N L I a \<Longrightarrow> n \<in> set (Q s px) \<Longrightarrow> n \<in> set (Q s' px') \<Longrightarrow> s' = s \<and> px' = px"
  by (simp add: core_def core_queues_def)

lemma core_queued: "core Q N L I a \<Longrightarrow> n \<in> L \<Longrightarrow> \<exists>s px. n \<in> set (Q s px)"
  by (simp add: core_def core_nodes_def)

lemma core_indexed:
  "core Q N L I a \<Longrightarrow> n \<in> set (Q s px) \<Longrightarrow> on_order_id (N n) \<noteq> UnknownOrderIdSentinel \<Longrightarrow>
     I (on_order_id (N n)) = Some \<lparr>oi_side = s, oi_price_ticks = px, oi_node = Some n\<rparr>"
  by (simp add: core_def core_nodes_def)

lemma core_index_node:
  "core Q N L I a \<Longrightarrow> I i = Some info \<Longrightarrow>
     \<exists>n. oi_node info = Some n \<and> n \<in> set (Q (oi_side info) (oi_price_ticks info)) \<and>
         on_order_id (N n) = i"
  by (simp add: core_def core_index_def)

lemma core_remove:
  assumes c: "core Q N L I a" and n: "n \<in> set (Q s px)" and i: "i = on_order_id (N n)"
  shows "core (set_queue s px (removeAll n (Q s px)) Q) N (L - {n}) (I(i := None)) a"
  unfolding core_def
proof (intro conjI)
  show "core_queues (set_queue s px (removeAll n (Q s px)) Q) N"
    using c by (auto simp: core_def core_queues_def removeAll_filter_not_eq intro!: sorted_wrt_filter)
  have u: "n \<in> set (Q s' px') \<Longrightarrow> s' = s \<and> px' = px" for s' px'
    using core_unique [OF c n] by blast
  have other: "on_order_id (N m) \<noteq> i \<or> on_order_id (N m) = UnknownOrderIdSentinel"
    if "m \<in> set (Q s' px')" "m \<noteq> n" for m s' px'
    using core_indexed [OF c that(1)] core_indexed [OF c n] that(2) i
    by (cases "on_order_id (N n) = UnknownOrderIdSentinel") auto
  show "core_nodes (set_queue s px (removeAll n (Q s px)) Q) N (L - {n}) (I(i := None)) a"
    unfolding core_nodes_def
  proof (intro conjI allI impI ballI)
    fix s' px' m
    assume "m \<in> set (set_queue s px (removeAll n (Q s px)) Q s' px')"
    then have m: "m \<in> set (Q s' px')" "m \<noteq> n"
      using u by (auto split: if_splits)
    show "m \<in> L - {n}" using m core_live [OF c] by blast
    show "0 < on_qty (N m)" using m core_qty_pos [OF c] by blast
    show "on_arrival_seq (N m) < a" using m c by (auto simp: core_def core_nodes_def)
    assume k: "on_order_id (N m) \<noteq> UnknownOrderIdSentinel"
    with other [OF m] have "on_order_id (N m) \<noteq> i" by blast
    with core_indexed [OF c m(1) k]
    show "(I(i := None)) (on_order_id (N m)) =
        Some \<lparr>oi_side = s', oi_price_ticks = px', oi_node = Some m\<rparr>" by simp
  next
    fix m
    assume "m \<in> L - {n}"
    with core_queued [OF c] obtain s' px' where "m \<in> set (Q s' px')" "m \<noteq> n" by blast
    then have "m \<in> set (set_queue s px (removeAll n (Q s px)) Q s' px')" by auto
    then show "\<exists>s' px'. m \<in> set (set_queue s px (removeAll n (Q s px)) Q s' px')" by blast
  qed
  show "core_index (set_queue s px (removeAll n (Q s px)) Q) N (I(i := None))"
    unfolding core_index_def
  proof (intro allI impI)
    fix j info
    assume "(I(i := None)) j = Some info"
    then have j: "j \<noteq> i" "I j = Some info" by (auto split: if_splits)
    from core_index_node [OF c j(2)] obtain m where
      m: "oi_node info = Some m" "m \<in> set (Q (oi_side info) (oi_price_ticks info))"
        "on_order_id (N m) = j" by blast
    with i j(1) have "m \<noteq> n" by auto
    with m show "\<exists>m. oi_node info = Some m \<and>
        m \<in> set (set_queue s px (removeAll n (Q s px)) Q (oi_side info) (oi_price_ticks info)) \<and>
        on_order_id (N m) = j" by auto
  qed
qed

lemma core_qty:
  assumes c: "core Q N L I a" and q: "0 < q"
  shows "core Q (N(n := (N n)\<lparr>on_qty := q\<rparr>)) L I a"
proof -
  have "on_arrival_seq ((N(n := (N n)\<lparr>on_qty := q\<rparr>)) m) = on_arrival_seq (N m)"
    "on_order_id ((N(n := (N n)\<lparr>on_qty := q\<rparr>)) m) = on_order_id (N m)" for m
    by simp_all
  with c q show ?thesis
    unfolding core_def core_queues_def core_nodes_def core_index_def by simp
qed

lemma core_append:
  assumes c: "core Q N L I a" and n: "n \<notin> L" and i: "I (on_order_id d) = None"
    and d: "0 < on_qty d" "on_arrival_seq d = a"
    and N': "N' n = d" "\<And>m. m \<in> L \<Longrightarrow> N' m = N m"
  shows "core (set_queue s px (Q s px @ [n]) Q) N' (insert n L)
    (I(on_order_id d \<mapsto> \<lparr>oi_side = s, oi_price_ticks = px, oi_node = Some n\<rparr>)) (Suc a)"
  unfolding core_def
proof (intro conjI)
  have fresh: "n \<notin> set (Q s' px')" for s' px' using core_live [OF c] n by blast
  have same: "N' m = N m" if "m \<in> set (Q s' px')" for m s' px'
    using core_live [OF c that] N'(2) by blast
  have old: "m \<in> set (Q s' px') \<Longrightarrow> on_arrival_seq (N m) < a" for m s' px'
    using c by (auto simp: core_def core_nodes_def)
  have sorted: "sorted_wrt (\<lambda>m n. on_arrival_seq (N' m) < on_arrival_seq (N' n)) (Q s' px')" for s' px'
  proof -
    have "sorted_wrt (\<lambda>m n. on_arrival_seq (N m) < on_arrival_seq (N n)) (Q s' px')"
      using c by (simp add: core_def core_queues_def)
    then show ?thesis by (rule sorted_wrt_mono_rel [rotated]) (simp add: same)
  qed
  show "core_queues (set_queue s px (Q s px @ [n]) Q) N'"
    unfolding core_queues_def
  proof (intro conjI allI impI)
    fix s' px'
    show "distinct (set_queue s px (Q s px @ [n]) Q s' px')"
      using core_distinct [OF c] fresh by simp
    show "sorted_wrt (\<lambda>m n. on_arrival_seq (N' m) < on_arrival_seq (N' n))
        (set_queue s px (Q s px @ [n]) Q s' px')"
      using sorted by (auto simp: sorted_wrt_append same N'(1) d(2) old)
  next
    fix s1 px1 s2 px2 m
    assume "m \<in> set (set_queue s px (Q s px @ [n]) Q s1 px1)"
      "m \<in> set (set_queue s px (Q s px @ [n]) Q s2 px2)"
    then show "s2 = s1" "px2 = px1"
      using core_unique [OF c] fresh by (auto split: if_splits)
  qed
  have key: "on_order_id (N m) \<noteq> on_order_id d"
    if "m \<in> set (Q s' px')" "on_order_id (N m) \<noteq> UnknownOrderIdSentinel" for m s' px'
    using core_indexed [OF c that] i by auto
  show "core_nodes (set_queue s px (Q s px @ [n]) Q) N' (insert n L)
      (I(on_order_id d \<mapsto> \<lparr>oi_side = s, oi_price_ticks = px, oi_node = Some n\<rparr>)) (Suc a)"
    unfolding core_nodes_def
  proof (intro conjI allI impI ballI)
    fix s' px' m
    assume m: "m \<in> set (set_queue s px (Q s px @ [n]) Q s' px')"
    consider "m = n" "s' = s" "px' = px" | "m \<in> set (Q s' px')" "m \<noteq> n"
      using m fresh by (auto split: if_splits)
    note cases = this
    show "m \<in> insert n L" using core_live [OF c] by (cases rule: cases) auto
    show "0 < on_qty (N' m)"
      using core_qty_pos [OF c] same N'(1) d by (cases rule: cases) auto
    show "on_arrival_seq (N' m) < Suc a"
      using old same N'(1) d by (cases rule: cases) (auto simp: less_SucI)
    assume "on_order_id (N' m) \<noteq> UnknownOrderIdSentinel"
    then show "(I(on_order_id d \<mapsto> \<lparr>oi_side = s, oi_price_ticks = px, oi_node = Some n\<rparr>))
        (on_order_id (N' m)) = Some \<lparr>oi_side = s', oi_price_ticks = px', oi_node = Some m\<rparr>"
      using core_indexed [OF c] same N'(1) key by (cases rule: cases) auto
  next
    fix m
    assume "m \<in> insert n L"
    then show "\<exists>s' px'. m \<in> set (set_queue s px (Q s px @ [n]) Q s' px')"
    proof
      assume "m = n"
      then have "m \<in> set (set_queue s px (Q s px @ [n]) Q s px)" by simp
      then show ?thesis by blast
    next
      assume "m \<in> L"
      with core_queued [OF c] obtain s' px' where "m \<in> set (Q s' px')" by blast
      then have "m \<in> set (set_queue s px (Q s px @ [n]) Q s' px')" by auto
      then show ?thesis by blast
    qed
  qed
  show "core_index (set_queue s px (Q s px @ [n]) Q) N'
      (I(on_order_id d \<mapsto> \<lparr>oi_side = s, oi_price_ticks = px, oi_node = Some n\<rparr>))"
    unfolding core_index_def
  proof (intro allI impI)
    fix j info
    assume I: "(I(on_order_id d \<mapsto> \<lparr>oi_side = s, oi_price_ticks = px, oi_node = Some n\<rparr>)) j = Some info"
    show "\<exists>m. oi_node info = Some m \<and>
        m \<in> set (set_queue s px (Q s px @ [n]) Q (oi_side info) (oi_price_ticks info)) \<and>
        on_order_id (N' m) = j"
    proof (cases "j = on_order_id d")
      case True
      with I N'(1) show ?thesis by auto
    next
      case False
      with I core_index_node [OF c, of j info] same show ?thesis by fastforce
    qed
  qed
qed

section \<open>The invariant of the book\<close>

definition heap_covers :: "Hist \<Rightarrow> bool" where
  "heap_covers h \<longleftrightarrow>
     (\<forall>s. pq_sorted (<) (h_heap s h) \<and>
        (\<forall>px. hq h s px \<noteq> [] \<longrightarrow> heap_key s px \<in> set (h_heap s h)))"

definition maps_wf :: "Hist \<Rightarrow> bool" where
  "maps_wf h \<longleftrightarrow> (\<forall>s. hm_wf (h_book s h)) \<and> hm_wf (order_info h)"

definition hist_wf :: "nat \<Rightarrow> nat \<Rightarrow> Hist \<Rightarrow> bool" where
  "hist_wf cap a h \<longleftrightarrow>
     np_wf cap (order_pool h) \<and> maps_wf h \<and>
     core (hq h) (hn h) (np_live (order_pool h)) (hm_find (order_info h)) a \<and> heap_covers h"

definition no_empty_level :: "Hist \<Rightarrow> bool" where
  "no_empty_level h \<longleftrightarrow> (\<forall>s px. hm_find (h_book s h) px \<noteq> Some [])"

definition uncrossed :: "Hist \<Rightarrow> bool" where
  "uncrossed h \<longleftrightarrow> (\<forall>pb pa. hq h BUY pb \<noteq> [] \<longrightarrow> hq h SELL pa \<noteq> [] \<longrightarrow> pb < pa)"

lemma hist_wf_core: "hist_wf cap a h \<Longrightarrow>
    core (hq h) (hn h) (np_live (order_pool h)) (hm_find (order_info h)) a"
  by (simp add: hist_wf_def)

lemma hist_wf_pool: "hist_wf cap a h \<Longrightarrow> np_wf cap (order_pool h)"
  by (simp add: hist_wf_def)

lemma hist_wf_init: "hist_wf cap a hist_init"
  unfolding hist_wf_def
  by (simp add: np_wf_empty maps_wf_def core_def core_queues_def core_nodes_def core_index_def
      heap_covers_def hq_def hm_get_def hist_init_def h_book_def h_heap_def pq_sorted_def
      split: Side.splits)

lemma no_empty_level_init: "no_empty_level hist_init"
  by (simp add: no_empty_level_def hist_init_def h_book_def split: Side.splits)

lemma uncrossed_init: "uncrossed hist_init"
  by (simp add: uncrossed_def hq_def hm_get_def hist_init_def h_book_def)

lemma hq_find: "hq h s px = (case hm_find (h_book s h) px of None \<Rightarrow> [] | Some q \<Rightarrow> q)"
  by (simp add: hq_def hm_get_def)

lemma hist_wf_clear:
  assumes "hist_wf cap a h" shows "hist_wf cap 0 (hist_clear h)"
proof -
  have "np_wf cap (np_reset (order_pool h))"
    using assms by (simp add: hist_wf_def np_wf_reset)
  then show ?thesis
    unfolding hist_wf_def
    by (simp add: maps_wf_def core_def core_queues_def core_nodes_def core_index_def
        heap_covers_def hq_def hm_get_def hist_clear_def h_book_def h_heap_def pq_sorted_def
        split: Side.splits)
qed

lemma hist_clear_empty [simp]: "hq (hist_clear h) s px = []"
  by (simp add: hq_def hm_get_def hist_clear_def h_book_def split: Side.splits)

lemma no_empty_level_clear: "no_empty_level (hist_clear h)"
  by (simp add: no_empty_level_def hist_clear_def h_book_def split: Side.splits)

text \<open>More orders arriving elsewhere only raise the sequence number.\<close>

lemma hist_wf_mono: "hist_wf cap a h \<Longrightarrow> a \<le> b \<Longrightarrow> hist_wf cap b h"
  by (fastforce simp: hist_wf_def core_def core_nodes_def)

section \<open>Best price\<close>

definition level_live :: "Side \<Rightarrow> Book \<Rightarrow> int \<Rightarrow> bool" where
  "level_live s b t \<longleftrightarrow> (case hm_find b (heap_key s t) of None \<Rightarrow> False | Some q \<Rightarrow> q \<noteq> [])"

lemma best_opposite_price_prune:
  "best_opposite_price s b heap =
     (case pq_prune (level_live s b) heap of [] \<Rightarrow> (None, []) | t # ts \<Rightarrow> (Some (heap_key s t), t # ts))"
  by (induction heap) (auto simp: level_live_def Let_def split: option.splits)

lemma level_live_hq: "level_live s (h_book s h) t \<longleftrightarrow> hq h s (heap_key s t) \<noteq> []"
  by (simp add: level_live_def hq_find split: option.splits)

lemma heap_covers_prune:
  assumes hc: "heap_covers h"
  shows "heap_covers (h_set_heap s (pq_prune (level_live s (h_book s h)) (h_heap s h)) h)"
proof -
  let ?live = "level_live s (h_book s h)"
  have sorted: "pq_sorted (<) (h_heap s' h)" for s'
    using hc by (simp add: heap_covers_def)
  have keep: "heap_key s px \<in> set (pq_prune ?live (h_heap s h))" if "hq h s px \<noteq> []" for px
    using ipq.prune_keeps [OF sorted [of s], of ?live "heap_key s px"] that hc
    by (simp add: level_live_hq heap_covers_def)
  have "hq (h_set_heap s x h) = hq h" for x by (simp add: hq_def fun_eq_iff)
  then show ?thesis
    using hc keep sorted ipq.invar_prune [OF sorted [of s]] unfolding heap_covers_def by auto
qed

lemma hist_wf_set_heap:
  assumes wf: "hist_wf cap a h"
    and b: "best_opposite_price s (h_book s h) (h_heap s h) = (best, heap')"
  shows "hist_wf cap a (h_set_heap s heap' h)"
proof -
  have "heap' = pq_prune (level_live s (h_book s h)) (h_heap s h)"
    using b by (auto simp: best_opposite_price_prune split: list.splits)
  moreover have "hq (h_set_heap s x h) = hq h" "hn (h_set_heap s x h) = hn h" for x
    by (simp_all add: hq_def hn_def fun_eq_iff)
  ultimately show ?thesis
    using wf heap_covers_prune [of h s] by (simp add: hist_wf_def maps_wf_def)
qed

text \<open>
  The price found is a live one and no live price of that side is better (the encoded prices are
  compared, so that one statement covers both sides); none is found only when no level is live.
\<close>

lemma best_opposite_price_best:
  assumes hc: "heap_covers h"
    and b: "best_opposite_price s (h_book s h) (h_heap s h) = (best, heap')"
  shows "case best of
      None \<Rightarrow> \<forall>px. hq h s px = []
    | Some px \<Rightarrow> hq h s px \<noteq> [] \<and> (\<forall>px'. hq h s px' \<noteq> [] \<longrightarrow> heap_key s px' \<le> heap_key s px)"
proof -
  let ?live = "level_live s (h_book s h)" and ?heap = "h_heap s h"
  have sorted: "pq_sorted (<) ?heap" and cov: "hq h s px \<noteq> [] \<Longrightarrow> heap_key s px \<in> set ?heap" for px
    using hc by (simp_all add: heap_covers_def)
  show ?thesis
  proof (cases "pq_prune ?live ?heap")
    case Nil
    have "hq h s px = []" for px
    proof (rule ccontr)
      assume "hq h s px \<noteq> []"
      with cov ipq.prune_keeps [OF sorted, of ?live "heap_key s px"] Nil show False
        by (simp add: level_live_hq)
    qed
    with Nil b show ?thesis by (auto simp: best_opposite_price_prune)
  next
    case (Cons t ts)
    have "?live t"
      using ipq.prune_top_live [OF sorted, of ?live] Cons by simp
    moreover have "heap_key s px' \<le> t" if "hq h s px' \<noteq> []" for px'
      using ipq.prune_top_best [OF sorted, of ?live "heap_key s px'"] cov that Cons
      by (auto simp: level_live_hq)
    ultimately show ?thesis
      using Cons b by (auto simp: best_opposite_price_prune level_live_hq)
  qed
qed

end
