(* ===== verification/HistOps.thy ===== *)
theory HistOps
  imports HistInv
begin

text \<open>
  What the operations of the historical book do: each keeps the invariant, changes only the queue
  it is meant to change, and matching a level takes the greedy quantities in queue order.
\<close>

section \<open>Reads after writes\<close>

definition h_close_level :: "Side \<Rightarrow> int \<Rightarrow> nat list \<Rightarrow> Hist \<Rightarrow> Hist" where
  \<comment> \<open>the level's list written back, or the level erased when it is empty\<close>
  "h_close_level s px q h =
     h_set_book s (if q = [] then hm_erase px (h_book s h) else hm_put px q (h_book s h)) h"

lemma hq_close_level [simp]: "hq (h_close_level s px q h) = set_queue s px q (hq h)"
  by (auto simp: h_close_level_def hq_find fun_eq_iff set_queue_def split: option.splits)

lemma hn_close_level [simp]: "hn (h_close_level s px q h) = hn h"
  by (simp add: h_close_level_def hn_def fun_eq_iff)

lemma close_level_simps [simp]:
  "order_pool (h_close_level s px q h) = order_pool h"
  "order_info (h_close_level s px q h) = order_info h"
  "h_heap s' (h_close_level s px q h) = h_heap s' h"
  by (simp_all add: h_close_level_def)

lemma maps_wf_close_level: "maps_wf h \<Longrightarrow> maps_wf (h_close_level s px q h)"
  by (simp add: maps_wf_def h_close_level_def)

lemma books_wf_close_level [simp]:
  "(\<And>s. hm_wf (h_book s h)) \<Longrightarrow> hm_wf (h_book s' (h_close_level s px q h))"
  by (simp add: h_close_level_def)

lemma no_empty_close_level: "no_empty_level h \<Longrightarrow> no_empty_level (h_close_level s px q h)"
  by (auto simp: no_empty_level_def h_close_level_def)

lemma hq_drop_node [simp]: "hq (h_drop_node n i h) = hq h"
  by (simp add: hq_def fun_eq_iff)

lemma hn_drop_node [simp]: "hn (h_drop_node n i h) = hn h"
  by (simp add: hn_def fun_eq_iff np_release_get)

lemma hq_set_qty [simp]: "hq (h_set_qty n q h) = hq h"
  by (simp add: hq_def fun_eq_iff)

lemma hn_set_qty:
  "n \<in> np_live (order_pool h) \<Longrightarrow> hn (h_set_qty n q h) = (hn h)(n := (hn h n)\<lparr>on_qty := q\<rparr>)"
  by (auto simp: hn_def fun_eq_iff np_get_set)

lemma hq_set_heap [simp]: "hq (h_set_heap s x h) = hq h"
  by (simp add: hq_def fun_eq_iff)

lemma hn_set_heap [simp]: "hn (h_set_heap s x h) = hn h"
  by (simp add: hn_def fun_eq_iff)

lemma h_remove_order_eq:
  "h_remove_order s px n i h = h_drop_node n i (h_close_level s px (removeAll n (hq h s px)) h)"
  by (simp add: h_remove_order_def h_drop_node_def h_close_level_def hq_def Let_def)

section \<open>Removing an order, changing its quantity\<close>

lemma hist_wf_cong:
  assumes "hist_wf cap a h" "hq h' = hq h" "order_pool h' = order_pool h"
    and "order_info h' = order_info h" "\<And>s. h_heap s h' = h_heap s h" "\<And>s. hm_wf (h_book s h')"
  shows "hist_wf cap a h'"
proof -
  have "hn h' = hn h" using assms(3) by (simp add: hn_def fun_eq_iff)
  with assms show ?thesis by (simp add: hist_wf_def maps_wf_def heap_covers_def)
qed

lemma heap_covers_subset:
  assumes "heap_covers h" "\<And>s. h_heap s h' = h_heap s h"
    and "\<And>s px. hq h' s px \<noteq> [] \<Longrightarrow> hq h s px \<noteq> []"
  shows "heap_covers h'"
  using assms by (auto simp: heap_covers_def)

lemma hist_wf_remove_node:
  assumes wf: "hist_wf cap a h" and n: "n \<in> set (hq h s px)"
  shows "hist_wf cap a (h_drop_node n (on_order_id (hn h n))
           (h_close_level s px (removeAll n (hq h s px)) h))"
proof -
  note c = hist_wf_core [OF wf]
  let ?h = "h_close_level s px (removeAll n (hq h s px)) h"
  let ?d = "h_drop_node n (on_order_id (hn h n)) ?h"
  have live: "n \<in> np_live (order_pool h)" using core_live [OF c n] .
  have pool: "np_live (order_pool ?d) = np_live (order_pool h) - {n}" "np_wf cap (order_pool ?d)"
    using np.release_live [OF hist_wf_pool [OF wf] live] by simp_all
  have "maps_wf ?d"
    using wf maps_wf_close_level [of h] by (simp add: hist_wf_def maps_wf_def)
  moreover have "hm_find (order_info ?d) = (hm_find (order_info h))(on_order_id (hn h n) := None)"
    by auto
  moreover have "heap_covers ?d"
    by (rule heap_covers_subset [of h]) (use wf n in \<open>auto simp: hist_wf_def split: if_splits\<close>)
  ultimately show ?thesis
    using core_remove [OF c n refl] pool by (simp add: hist_wf_def)
qed

lemma hist_wf_remove_order:
  assumes wf: "hist_wf cap a h" and i: "hm_find (order_info h) i = Some info"
    and n: "oi_node info = Some n"
  shows "hist_wf cap a (h_remove_order (oi_side info) (oi_price_ticks info) n i h)"
proof -
  from core_index_node [OF hist_wf_core [OF wf] i] n
  have "n \<in> set (hq h (oi_side info) (oi_price_ticks info))" "on_order_id (hn h n) = i" by auto
  with hist_wf_remove_node [OF wf this(1)] show ?thesis
    by (simp add: h_remove_order_eq)
qed

lemma hist_wf_set_qty:
  assumes wf: "hist_wf cap a h" and n: "n \<in> np_live (order_pool h)" and q: "0 < q"
  shows "hist_wf cap a (h_set_qty n q h)"
proof -
  have "heap_covers (h_set_qty n q h)"
    by (rule heap_covers_subset [of h]) (use wf in \<open>auto simp: hist_wf_def\<close>)
  with wf core_qty [OF hist_wf_core [OF wf] q] n show ?thesis
    by (simp add: hist_wf_def hn_set_qty maps_wf_def np_wf_set)
qed

lemma uncrossed_subset:
  "uncrossed h \<Longrightarrow> (\<And>s px. hq h' s px \<noteq> [] \<Longrightarrow> hq h s px \<noteq> []) \<Longrightarrow> uncrossed h'"
  unfolding uncrossed_def by blast

lemma remove_order_shape:
  "no_empty_level h \<Longrightarrow> no_empty_level (h_remove_order s px n i h)"
  "uncrossed h \<Longrightarrow> uncrossed (h_remove_order s px n i h)"
  "hq (h_remove_order s px n i h) = set_queue s px (removeAll n (hq h s px)) (hq h)"
  "hn (h_remove_order s px n i h) = hn h"
proof -
  show e: "hq (h_remove_order s px n i h) = set_queue s px (removeAll n (hq h s px)) (hq h)"
    by (simp add: h_remove_order_eq)
  show "hn (h_remove_order s px n i h) = hn h" by (simp add: h_remove_order_eq)
  show "no_empty_level h \<Longrightarrow> no_empty_level (h_remove_order s px n i h)"
    using no_empty_close_level [of h s px "removeAll n (hq h s px)"]
    by (simp add: h_remove_order_eq no_empty_level_def)
  show "uncrossed h \<Longrightarrow> uncrossed (h_remove_order s px n i h)"
    by (rule uncrossed_subset [of h]) (auto simp: e split: if_splits)
qed

lemma set_qty_shape:
  "no_empty_level h \<Longrightarrow> no_empty_level (h_set_qty n q h)"
  "uncrossed h \<Longrightarrow> uncrossed (h_set_qty n q h)"
  by (simp_all add: no_empty_level_def uncrossed_def)

section \<open>A new resting order\<close>

lemma h_rest_order_None:
  assumes "hist_wf cap a h" "h_rest_order ev rem a cap h = (None, h')"
  shows "h' = h \<and> card (np_live (order_pool h)) = cap"
proof -
  obtain r P where np: "np_acquire default_OrderNode cap (order_pool h) = (r, P)" by fastforce
  with assms(2) have r: "r = None" "h' = h\<lparr>order_pool := P\<rparr>"
    by (auto simp: h_rest_order_def Let_def split: option.splits)
  with np np.acquire_None [OF hist_wf_pool [OF assms(1)]] show ?thesis by simp
qed

lemma h_rest_order_Some:
  assumes wf: "hist_wf cap a h" and r: "h_rest_order ev rem a cap h = (Some n, h')"
    and rem: "0 < rem" and fresh: "hm_find (order_info h) (ev_order_id ev) = None"
  shows "hist_wf cap (Suc a) h'"
    and "n \<notin> np_live (order_pool h)"
    and "hq h' = set_queue (ev_side ev) (ev_price_ticks ev)
                   (hq h (ev_side ev) (ev_price_ticks ev) @ [n]) (hq h)"
    and "hn h' n = \<lparr>on_order_id = ev_order_id ev, on_trader_id = ev_trader_id ev, on_qty = rem,
                    on_source = ev_update_source ev, on_arrival_seq = a\<rparr>"
    and "\<And>m. m \<in> np_live (order_pool h) \<Longrightarrow> hn h' m = hn h m"
    and "no_empty_level h \<Longrightarrow> no_empty_level h'"
    and "np_live (order_pool h') = insert n (np_live (order_pool h))"
proof -
  let ?s = "ev_side ev" and ?px = "ev_price_ticks ev"
  let ?d = "\<lparr>on_order_id = ev_order_id ev, on_trader_id = ev_trader_id ev, on_qty = rem,
             on_source = ev_update_source ev, on_arrival_seq = a\<rparr>"
  obtain P where np: "np_acquire default_OrderNode cap (order_pool h) = (Some n, P)"
    using r by (auto simp: h_rest_order_def Let_def split: prod.splits option.splits)
  note acq = np.acquire_Some [OF hist_wf_pool [OF wf] np]
  define h1 where "h1 = h\<lparr>order_pool := np_set n ?d P\<rparr>"
  define h2 where "h2 = h_set_book ?s (hm_put ?px (hq h ?s ?px @ [n]) (h_book ?s h)) h1"
  define h3 where "h3 = (if hq h ?s ?px = []
    then h_set_heap ?s (pq_push (<) (heap_key ?s ?px) (h_heap ?s h)) h2 else h2)"
  have hq1: "hq h1 = hq h" by (simp add: h1_def hq_def fun_eq_iff)
  have h': "h' = h3\<lparr>order_info := hm_emplace (ev_order_id ev)
      \<lparr>oi_side = ?s, oi_price_ticks = ?px, oi_node = Some n\<rparr> (order_info h)\<rparr>"
    using r np
    by (auto simp: h_rest_order_def Let_def h3_def h2_def h1_def hq_def)
  have hq2: "hq h2 = set_queue ?s ?px (hq h ?s ?px @ [n]) (hq h)"
    by (auto simp: h2_def h1_def hq_find fun_eq_iff set_queue_def split: option.splits)
  have hq3: "hq h3 = hq h2" by (simp add: h3_def)
  show hq': "hq h' = set_queue ?s ?px (hq h ?s ?px @ [n]) (hq h)"
    unfolding hq2 [symmetric] hq3 [symmetric] by (simp add: h' hq_def fun_eq_iff)
  have pool3: "order_pool h3 = np_set n ?d P" by (simp add: h3_def h2_def h1_def)
  then have pool: "order_pool h' = np_set n ?d P" by (simp add: h')
  show live: "np_live (order_pool h') = insert n (np_live (order_pool h))"
    using acq by (simp add: pool)
  show nl: "n \<notin> np_live (order_pool h)" using acq by blast
  have hn': "hn h' m = (if m = n then ?d else np_get P m)" for m
    using np.get_set [of n P ?d m] acq by (simp add: hn_def pool)
  then show hn_n: "hn h' n = ?d" by simp
  show hn_o: "hn h' m = hn h m" if "m \<in> np_live (order_pool h)" for m
    using hn' acq that by (auto simp: hn_def)
  have info: "hm_find (order_info h') = (hm_find (order_info h))
      (ev_order_id ev \<mapsto> \<lparr>oi_side = ?s, oi_price_ticks = ?px, oi_node = Some n\<rparr>)"
    using fresh by (auto simp: h' fun_eq_iff)
  have core: "core (hq h') (hn h') (np_live (order_pool h')) (hm_find (order_info h')) (Suc a)"
    unfolding hq' live info
    using core_append [OF hist_wf_core [OF wf] nl, of ?d "hn h'" ?s ?px] rem fresh hn_n hn_o
    by simp
  have maps: "maps_wf h'"
    using wf by (auto simp: hist_wf_def maps_wf_def h' h3_def h2_def h1_def)
  have sorted: "pq_sorted (<) (h_heap s h)" and cov: "hq h s px \<noteq> [] \<Longrightarrow> heap_key s px \<in> set (h_heap s h)"
    for s px using wf by (simp_all add: hist_wf_def heap_covers_def)
  have heap: "h_heap s h' = (if s = ?s \<and> hq h ?s ?px = []
      then pq_push (<) (heap_key ?s ?px) (h_heap ?s h) else h_heap s h)" for s
    by (simp add: h' h3_def h2_def h1_def)
  have "heap_covers h'"
    using sorted cov ipq.pq_sorted_push unfolding heap_covers_def hq' heap by auto
  moreover have "np_wf cap (order_pool h')" using acq by (simp add: pool np_wf_set)
  ultimately show "hist_wf cap (Suc a) h'" using core maps by (simp add: hist_wf_def)
  show "no_empty_level h'" if "no_empty_level h"
    using that by (auto simp: no_empty_level_def h' h3_def h2_def h1_def)
qed

section \<open>Matching a level\<close>

text \<open>
  The specification of price-time priority within a level: the queue is walked from its head, each
  order gives what it has until the aggressor is served.
\<close>

fun greedy :: "int \<Rightarrow> OrderNode list \<Rightarrow> (int \<times> OrderNode) list" where
  "greedy rem [] = []"
| "greedy rem (x # xs) =
     (if rem \<le> 0 then []
      else (min (on_qty x) rem, x) # greedy (rem - min (on_qty x) rem) xs)"

lemma greedy_served [simp]: "rem \<le> 0 \<Longrightarrow> greedy rem xs = []"
  by (cases xs) auto

lemma sum_greedy:
  "(\<And>x. x \<in> set xs \<Longrightarrow> 0 < on_qty x) \<Longrightarrow> 0 \<le> rem \<Longrightarrow>
     sum_list (map fst (greedy rem xs)) = min rem (sum_list (map on_qty xs))"
proof (induction xs arbitrary: rem)
  case (Cons x xs)
  have nn: "0 \<le> sum_list (map on_qty xs)"
    using Cons.prems(1) by (intro sum_list_nonneg_int) (auto intro: less_imp_le)
  have x: "0 < on_qty x" using Cons.prems(1) by simp
  show ?case
  proof (cases "rem \<le> on_qty x")
    case True
    then show ?thesis using nn Cons.prems(2) by simp
  next
    case False
    then have "sum_list (map fst (greedy (rem - on_qty x) xs)) =
        min (rem - on_qty x) (sum_list (map on_qty xs))"
      using Cons by simp
    with False x show ?thesis by (simp add: min_def)
  qed
qed simp

lemma greedy_append:
  "(\<And>x. x \<in> set xs \<Longrightarrow> 0 < on_qty x) \<Longrightarrow>
     greedy rem (xs @ ys) = greedy rem xs @ greedy (rem - sum_list (map fst (greedy rem xs))) ys"
  by (induction xs arbitrary: rem) (auto simp: algebra_simps)

lemma greedy_pos: "(\<And>x. x \<in> set xs \<Longrightarrow> 0 < on_qty x) \<Longrightarrow> (t, x) \<in> set (greedy rem xs) \<Longrightarrow>
    0 < t \<and> t \<le> on_qty x \<and> x \<in> set xs"
  by (induction xs arbitrary: rem) (fastforce split: if_splits)+

lemma set_queue_twice [simp]: "set_queue s px q (set_queue s px q' Q) = set_queue s px q Q"
  by (auto simp: set_queue_def fun_eq_iff)

text \<open>
  One step of the matching loop, with the rest of the level's list written back: a served order
  leaves the book, a partly served one keeps its place with less.
\<close>

lemma consume_drop_wf:
  assumes wf: "hist_wf cap a (h_close_level s px (n # q) h)" and b: "\<And>s. hm_wf (h_book s h)"
  shows "hist_wf cap a (h_close_level s px q (h_drop_node n (on_order_id (hn h n)) h))"
proof -
  have "n \<notin> set q" using core_distinct [OF hist_wf_core [OF wf], of s px] by simp
  then have q: "removeAll n (n # q) = q" by simp
  have "hist_wf cap a (h_drop_node n (on_order_id (hn h n))
      (h_close_level s px q (h_close_level s px (n # q) h)))"
    using hist_wf_remove_node [OF wf, of n s px] q by simp
  then show ?thesis
    by (rule hist_wf_cong) (use b in auto)
qed

lemma consume_qty_wf:
  assumes wf: "hist_wf cap a (h_close_level s px (n # q) h)" and b: "\<And>s. hm_wf (h_book s h)"
    and m: "0 < m"
  shows "hist_wf cap a (h_close_level s px (n # q) (h_set_qty n m h))"
proof -
  have "n \<in> np_live (order_pool h)"
    using core_live [OF hist_wf_core [OF wf], of n s px] by simp
  with hist_wf_set_qty [OF wf _ m, of n]
  have "hist_wf cap a (h_set_qty n m (h_close_level s px (n # q) h))" by simp
  then show ?thesis
    by (rule hist_wf_cong) (use b in auto)
qed

lemma core_cong:
  assumes "core Q N L I a" "\<And>m. m \<in> L \<Longrightarrow> N' m = N m"
  shows "core Q N' L I a"
proof -
  have eq: "N' m = N m" if "m \<in> set (Q s px)" for m s px
    using assms(2) core_live [OF assms(1) that] by blast
  have "sorted_wrt (\<lambda>m n. on_arrival_seq (N' m) < on_arrival_seq (N' n)) (Q s px)" for s px
  proof -
    have "sorted_wrt (\<lambda>m n. on_arrival_seq (N m) < on_arrival_seq (N n)) (Q s px)"
      using assms(1) by (simp add: core_def core_queues_def)
    then show ?thesis by (rule sorted_wrt_mono_rel [rotated]) (simp add: eq)
  qed
  with assms(1) have "core_queues Q N'" by (simp add: core_def core_queues_def)
  moreover have "core_nodes Q N' L I a"
    using assms(1) eq by (auto simp: core_def core_nodes_def)
  moreover have "core_index Q N' I"
    unfolding core_index_def
  proof (intro allI impI)
    fix i info
    assume "I i = Some info"
    from core_index_node [OF assms(1) this] eq
    show "\<exists>n. oi_node info = Some n \<and> n \<in> set (Q (oi_side info) (oi_price_ticks info)) \<and>
        on_order_id (N' n) = i" by auto
  qed
  ultimately show ?thesis by (simp add: core_def)
qed

lemma consume_take_all_wf:
  assumes wf: "hist_wf cap a (h_close_level s px (n # q) h)" and b: "\<And>s. hm_wf (h_book s h)"
  shows "hist_wf cap a (h_close_level s px q (h_drop_node n (on_order_id (hn h n)) (h_set_qty n m h)))"
proof -
  let ?i = "on_order_id (hn h n)"
  let ?d = "h_close_level s px q (h_drop_node n ?i h)"
  let ?d' = "h_close_level s px q (h_drop_node n ?i (h_set_qty n m h))"
  note wd = consume_drop_wf [OF wf b]
  have n: "n \<in> np_live (order_pool h)" and pw: "np_wf cap (order_pool h)"
    using core_live [OF hist_wf_core [OF wf], of n s px] hist_wf_pool [OF wf] by simp_all
  have live: "np_live (order_pool ?d) = np_live (order_pool h) - {n}"
    "np_live (order_pool ?d') = np_live (order_pool h) - {n}" "np_wf cap (order_pool ?d')"
    using np.release_live [OF pw n] np.release_live [OF np_wf_set [OF pw], of n n] n by simp_all
  have hn: "hn ?d' k = hn ?d k" if "k \<in> np_live (order_pool ?d)" for k
    using that live n by (simp add: hn_set_qty)
  have "core (hq ?d) (hn ?d') (np_live (order_pool ?d)) (hm_find (order_info ?d)) a"
    by (rule core_cong [OF hist_wf_core [OF wd]]) (rule hn)
  with wd live show ?thesis
    using b by (simp add: hist_wf_def maps_wf_def heap_covers_def)
qed

lemma consume_level_wf:
  assumes "consume_level sq ev px q r = (q', r')"
    and "hist_wf cap a (h_close_level s px q (lr_hist r))" and "\<And>s. hm_wf (h_book s (lr_hist r))"
  shows "hist_wf cap a (h_close_level s px q' (lr_hist r'))"
  using assms
proof (induction q arbitrary: r)
  case Nil
  then show ?case by auto
next
  case (Cons n q)
  note wf = Cons.prems(2) and b = Cons.prems(3)
  have node: "run_node n r = hn (lr_hist r) n" by (simp add: run_node_def hn_def)
  have live: "n \<in> np_live (order_pool (lr_hist r))"
    using core_live [OF hist_wf_core [OF wf], of n s px] by simp
  from Cons.prems(1) show ?case
  proof (cases rule: consume_level_cases)
    case stop
    with wf show ?thesis by simp
  next
    case drop
    show ?thesis
      by (rule Cons.IH [OF drop(3)]) (use consume_drop_wf [OF wf b] b node in simp_all)
  next
    case take_all
    show ?thesis
      by (rule Cons.IH [OF take_all(3)])
        (use consume_take_all_wf [OF wf b, of 0] b node live in
          \<open>simp_all add: run_node_def hn_def np_get_set\<close>)
  next
    case take_part
    then show ?thesis
      using consume_qty_wf [OF wf b, of "on_qty (run_node n r) - lr_remaining r"] by simp
  qed
qed

text \<open>The quantities taken, the fills, and the nodes not in the level.\<close>

lemma consume_level_greedy:
  assumes "consume_level sq ev px q r = (q', r')"
    and "distinct q" "\<forall>n \<in> set q. n \<in> np_live (order_pool (lr_hist r)) \<and> 0 < on_qty (hn (lr_hist r) n)"
    and "np_wf cap (order_pool (lr_hist r))"
  defines "g \<equiv> greedy (lr_remaining r) (map (hn (lr_hist r)) q)"
  shows "lr_fills r' = lr_fills r @ map (\<lambda>(t, x). hist_fill sq ev px t x) g \<and>
    lr_deltas r' = lr_deltas r @ map (\<lambda>(t, x). (on_arrival_seq x, - t)) g \<and>
    lr_traded r' = lr_traded r + sum_list (map fst g) \<and>
    lr_remaining r' = lr_remaining r - sum_list (map fst g) \<and>
    (q' \<noteq> [] \<longrightarrow> lr_remaining r' \<le> 0)"
  using assms(1-4) unfolding g_def
proof (induction q arbitrary: r)
  case Nil
  then show ?case by auto
next
  case (Cons n q)
  let ?h = "lr_hist r"
  have node: "run_node n r = hn ?h n" by (simp add: run_node_def hn_def)
  have n: "n \<in> np_live (order_pool ?h)" "0 < on_qty (hn ?h n)" "n \<notin> set q"
    using Cons.prems by auto
  from Cons.prems(1) show ?case
  proof (cases rule: consume_level_cases)
    case stop
    then show ?thesis by simp
  next
    case drop
    with n node show ?thesis by simp
  next
    case take_all
    let ?r = "run_drop n (run_take sq ev px n (on_qty (run_node n r)) r)"
    have pool: "np_live (order_pool (lr_hist ?r)) = np_live (order_pool ?h) - {n}"
      "np_wf cap (order_pool (lr_hist ?r))"
      using np.release_live [OF np_wf_set [OF Cons.prems(4)], of n n] n by simp_all
    have hn: "hn (lr_hist ?r) m = hn ?h m" if "m \<in> set q" for m
      using that n by (auto simp: hn_set_qty)
    have IH: "lr_fills r' = lr_fills ?r @
        map (\<lambda>(t, x). hist_fill sq ev px t x) (greedy (lr_remaining ?r) (map (hn (lr_hist ?r)) q)) \<and>
      lr_deltas r' = lr_deltas ?r @
        map (\<lambda>(t, x). (on_arrival_seq x, - t)) (greedy (lr_remaining ?r) (map (hn (lr_hist ?r)) q)) \<and>
      lr_traded r' = lr_traded ?r +
        sum_list (map fst (greedy (lr_remaining ?r) (map (hn (lr_hist ?r)) q))) \<and>
      lr_remaining r' = lr_remaining ?r -
        sum_list (map fst (greedy (lr_remaining ?r) (map (hn (lr_hist ?r)) q))) \<and>
      (q' \<noteq> [] \<longrightarrow> lr_remaining r' \<le> 0)"
      by (rule Cons.IH [OF take_all(3)]) (use Cons.prems n pool hn in auto)
    have "map (hn (lr_hist ?r)) q = map (hn ?h) q" using hn by (rule map_cong [OF refl])
    from IH [unfolded this] show ?thesis
      using n node take_all(1,2) by (auto simp: min_def)
  next
    case take_part
    with n node show ?thesis by (simp add: min_def)
  qed
qed

lemma consume_level_frame_nodes:
  assumes "consume_level sq ev px q r = (q', r')" "m \<notin> set q"
    and "set q \<subseteq> np_live (order_pool (lr_hist r))"  "distinct q" "np_wf cap (order_pool (lr_hist r))"
  shows "hn (lr_hist r') m = hn (lr_hist r) m"
  using assms
proof (induction q arbitrary: r)
  case Nil
  then show ?case by auto
next
  case (Cons n q)
  have rel: "np_live (order_pool (lr_hist (run_drop n r))) = np_live (order_pool (lr_hist r)) - {n} \<and>
      np_wf cap (order_pool (lr_hist (run_drop n r)))" if "n \<in> np_live (order_pool (lr_hist r))"
      "np_wf cap (order_pool (lr_hist r))" for r
    using np.release_live [OF that(2,1)] by simp
  have live: "n \<in> np_live (order_pool (lr_hist r))" "m \<noteq> n" using Cons.prems by auto
  from Cons.prems(1) show ?case
  proof (cases rule: consume_level_cases)
    case drop
    have "hn (lr_hist r') m = hn (lr_hist (run_drop n r)) m"
      by (rule Cons.IH [OF drop(3)]) (use Cons.prems rel live in auto)
    then show ?thesis by simp
  next
    case take_all
    let ?t = "run_take sq ev px n (on_qty (run_node n r)) r"
    have "hn (lr_hist r') m = hn (lr_hist (run_drop n ?t)) m"
      by (rule Cons.IH [OF take_all(3)]) (use Cons.prems rel [of ?t] live in \<open>auto simp: np_wf_set\<close>)
    with live show ?thesis by (simp add: hn_set_qty)
  next
    case take_part
    with live show ?thesis by (simp add: hn_set_qty)
  qed simp
qed

end
