(* ===== verification/PaperInv.thy ===== *)
theory PaperInv
  imports HistOps PaperBook
begin

text \<open>
  The invariant of the paper half, built as in \<open>HistInv\<close>: a structural core over total
  functions (queues, node ids, indexes), and for each level the numbers its Fenwick trees stand
  for.
\<close>

definition pq :: "Paper \<Rightarrow> Side \<Rightarrow> int \<Rightarrow> nat list" where
  "pq p s px = (case find_paper_level s px p of None \<Rightarrow> [] | Some l \<Rightarrow> pl_orders l)"

definition pid :: "Paper \<Rightarrow> nat \<Rightarrow> int" where
  "pid p n = pn_order_id (np_get (paper_pool p) n)"

section \<open>The structural core\<close>

definition order_live :: "nat \<Rightarrow> PaperOrder \<Rightarrow> bool" where
  \<comment> \<open>a resting order: lots left, not in a final status, placed before now\<close>
  "order_live a x \<longleftrightarrow> 0 < po_remaining_qty x \<and> po_placement_seq x < a \<and>
     (po_status x = PO_OPEN \<or> po_status x = PO_PARTIALLY_FILLED)"

definition placed_before :: "PaperOrder \<Rightarrow> PaperOrder \<Rightarrow> bool" where
  "placed_before x y \<longleftrightarrow>
     po_placement_seq x < po_placement_seq y \<and> po_paper_index x < po_paper_index y"

definition pcore_queues ::
  "(Side \<Rightarrow> int \<Rightarrow> nat list) \<Rightarrow> (nat \<Rightarrow> int) \<Rightarrow> (int \<Rightarrow> PaperOrder option) \<Rightarrow> bool" where
  "pcore_queues Q N Os \<longleftrightarrow>
     (\<forall>s px. distinct (Q s px) \<and>
        sorted_wrt (\<lambda>m n. placed_before (the (Os (N m))) (the (Os (N n)))) (Q s px)) \<and>
     (\<forall>s px s' px' n. n \<in> set (Q s px) \<longrightarrow> n \<in> set (Q s' px') \<longrightarrow> s' = s \<and> px' = px)"

definition pcore_nodes ::
  "(Side \<Rightarrow> int \<Rightarrow> nat list) \<Rightarrow> (nat \<Rightarrow> int) \<Rightarrow> nat set \<Rightarrow> (int \<Rightarrow> PaperOrderInfo option)
     \<Rightarrow> (int \<Rightarrow> PaperOrder option) \<Rightarrow> nat \<Rightarrow> bool" where
  "pcore_nodes Q N L I Os a \<longleftrightarrow>
     (\<forall>s px n. n \<in> set (Q s px) \<longrightarrow>
        n \<in> L \<and> I (N n) = Some \<lparr>pi_side = s, pi_price_ticks = px, pi_node = Some n\<rparr> \<and>
        (\<exists>x. Os (N n) = Some x \<and> order_live a x)) \<and>
     (\<forall>n \<in> L. \<exists>s px. n \<in> set (Q s px))"

definition pcore_index ::
  "(Side \<Rightarrow> int \<Rightarrow> nat list) \<Rightarrow> (nat \<Rightarrow> int) \<Rightarrow> (int \<Rightarrow> PaperOrderInfo option)
     \<Rightarrow> (int \<Rightarrow> PaperOrder option) \<Rightarrow> bool" where
  "pcore_index Q N I Os \<longleftrightarrow>
     (\<forall>i info. I i = Some info \<longrightarrow>
        (\<exists>n. pi_node info = Some n \<and> n \<in> set (Q (pi_side info) (pi_price_ticks info)) \<and> N n = i)) \<and>
     (\<forall>i. Os i = None \<longleftrightarrow> I i = None)"

definition pcore ::
  "(Side \<Rightarrow> int \<Rightarrow> nat list) \<Rightarrow> (nat \<Rightarrow> int) \<Rightarrow> nat set \<Rightarrow> (int \<Rightarrow> PaperOrderInfo option)
     \<Rightarrow> (int \<Rightarrow> PaperOrder option) \<Rightarrow> nat \<Rightarrow> bool" where
  "pcore Q N L I Os a \<longleftrightarrow> pcore_queues Q N Os \<and> pcore_nodes Q N L I Os a \<and> pcore_index Q N I Os"

lemma pcore_distinct: "pcore Q N L I Os a \<Longrightarrow> distinct (Q s px)"
  by (simp add: pcore_def pcore_queues_def)

lemma pcore_sorted:
  "pcore Q N L I Os a \<Longrightarrow>
     sorted_wrt (\<lambda>m n. placed_before (the (Os (N m))) (the (Os (N n)))) (Q s px)"
  by (simp add: pcore_def pcore_queues_def)

lemma pcore_unique:
  "pcore Q N L I Os a \<Longrightarrow> n \<in> set (Q s px) \<Longrightarrow> n \<in> set (Q s' px') \<Longrightarrow> s' = s \<and> px' = px"
  by (simp add: pcore_def pcore_queues_def)

lemma pcore_node:
  "pcore Q N L I Os a \<Longrightarrow> n \<in> set (Q s px) \<Longrightarrow>
     n \<in> L \<and> I (N n) = Some \<lparr>pi_side = s, pi_price_ticks = px, pi_node = Some n\<rparr> \<and>
     (\<exists>x. Os (N n) = Some x \<and> order_live a x)"
  by (simp add: pcore_def pcore_nodes_def)

lemma pcore_queued: "pcore Q N L I Os a \<Longrightarrow> n \<in> L \<Longrightarrow> \<exists>s px. n \<in> set (Q s px)"
  by (simp add: pcore_def pcore_nodes_def)

lemma pcore_index_node:
  "pcore Q N L I Os a \<Longrightarrow> I i = Some info \<Longrightarrow>
     \<exists>n. pi_node info = Some n \<and> n \<in> set (Q (pi_side info) (pi_price_ticks info)) \<and> N n = i"
  by (simp add: pcore_def pcore_index_def)

lemma pcore_orders: "pcore Q N L I Os a \<Longrightarrow> Os i = None \<longleftrightarrow> I i = None"
  by (simp add: pcore_def pcore_index_def)

text \<open>Distinct queued nodes carry distinct ids.\<close>

lemma pcore_inj:
  assumes "pcore Q N L I Os a" "n \<in> set (Q s px)" "m \<in> set (Q s' px')" "N m = N n"
  shows "m = n"
  using pcore_node [OF assms(1,2)] pcore_node [OF assms(1,3)] assms(4) by auto

lemma pcore_remove:
  assumes c: "pcore Q N L I Os a" and n: "n \<in> set (Q s px)"
  shows "pcore (set_queue s px (removeAll n (Q s px)) Q) N (L - {n}) (I(N n := None)) (Os(N n := None)) a"
  unfolding pcore_def
proof (intro conjI)
  have u: "n \<in> set (Q s' px') \<Longrightarrow> s' = s \<and> px' = px" for s' px'
    using pcore_unique [OF c n] by blast
  have other: "N m \<noteq> N n" if "m \<in> set (Q s' px')" "m \<noteq> n" for m s' px'
    using pcore_inj [OF c n that(1)] that(2) by blast
  have sub: "m \<in> set (Q s' px') \<and> m \<noteq> n"
    if "m \<in> set (set_queue s px (removeAll n (Q s px)) Q s' px')" for m s' px'
    using that u by (auto split: if_splits)
  show "pcore_queues (set_queue s px (removeAll n (Q s px)) Q) N (Os(N n := None))"
    unfolding pcore_queues_def
  proof (intro conjI allI impI)
    fix s' px'
    show "distinct (set_queue s px (removeAll n (Q s px)) Q s' px')"
      using pcore_distinct [OF c] by (simp add: distinct_removeAll)
    have "sorted_wrt (\<lambda>m k. placed_before (the (Os (N m))) (the (Os (N k))))
        (set_queue s px (removeAll n (Q s px)) Q s' px')"
      using pcore_sorted [OF c]
      by (auto simp: removeAll_filter_not_eq intro!: sorted_wrt_filter)
    then show "sorted_wrt (\<lambda>m k. placed_before (the ((Os(N n := None)) (N m)))
        (the ((Os(N n := None)) (N k)))) (set_queue s px (removeAll n (Q s px)) Q s' px')"
    proof (rule sorted_wrt_mono_rel [rotated])
      fix m k
      assume m: "m \<in> set (set_queue s px (removeAll n (Q s px)) Q s' px')"
        and k: "k \<in> set (set_queue s px (removeAll n (Q s px)) Q s' px')"
        and b: "placed_before (the (Os (N m))) (the (Os (N k)))"
      have "N m \<noteq> N n" "N k \<noteq> N n" using sub [OF m] sub [OF k] other by blast+
      with b show "placed_before (the ((Os(N n := None)) (N m))) (the ((Os(N n := None)) (N k)))"
        by simp
    qed
  next
    fix s1 px1 s2 px2 m
    assume 1: "m \<in> set (set_queue s px (removeAll n (Q s px)) Q s1 px1)"
      and 2: "m \<in> set (set_queue s px (removeAll n (Q s px)) Q s2 px2)"
    from pcore_unique [OF c conjunct1 [OF sub [OF 1]] conjunct1 [OF sub [OF 2]]]
    show "s2 = s1" "px2 = px1" by simp_all
  qed
  show "pcore_nodes (set_queue s px (removeAll n (Q s px)) Q) N (L - {n}) (I(N n := None))
      (Os(N n := None)) a"
    unfolding pcore_nodes_def
  proof (intro conjI allI impI ballI)
    fix s' px' m
    assume "m \<in> set (set_queue s px (removeAll n (Q s px)) Q s' px')"
    from sub [OF this] have m: "m \<in> set (Q s' px')" "m \<noteq> n" by simp_all
    note mn = pcore_node [OF c m(1)] other [OF m]
    show "m \<in> L - {n}" using mn m by simp
    show "(I(N n := None)) (N m) = Some \<lparr>pi_side = s', pi_price_ticks = px', pi_node = Some m\<rparr>"
      "\<exists>x. (Os(N n := None)) (N m) = Some x \<and> order_live a x"
      using mn by simp_all
  next
    fix m
    assume "m \<in> L - {n}"
    with pcore_queued [OF c] obtain s' px' where "m \<in> set (Q s' px')" "m \<noteq> n" by blast
    then have "m \<in> set (set_queue s px (removeAll n (Q s px)) Q s' px')" by auto
    then show "\<exists>s' px'. m \<in> set (set_queue s px (removeAll n (Q s px)) Q s' px')" by blast
  qed
  show "pcore_index (set_queue s px (removeAll n (Q s px)) Q) N (I(N n := None)) (Os(N n := None))"
    unfolding pcore_index_def
  proof (intro conjI allI impI)
    fix i info
    assume "(I(N n := None)) i = Some info"
    then have i: "i \<noteq> N n" "I i = Some info" by (auto split: if_splits)
    from pcore_index_node [OF c i(2)] obtain m where
      "pi_node info = Some m" "m \<in> set (Q (pi_side info) (pi_price_ticks info))" "N m = i" by blast
    with i(1) show "\<exists>m. pi_node info = Some m \<and>
        m \<in> set (set_queue s px (removeAll n (Q s px)) Q (pi_side info) (pi_price_ticks info)) \<and> N m = i"
      by auto
  next
    fix i show "(Os(N n := None)) i = None \<longleftrightarrow> (I(N n := None)) i = None"
      using pcore_orders [OF c] by simp
  qed
qed

text \<open>Changing what an order has left, or its status, without moving it.\<close>

lemma pcore_update:
  assumes c: "pcore Q N L I Os a" and n: "n \<in> set (Q s px)" and x: "Os (N n) = Some x"
    and y: "order_live a y" "po_placement_seq y = po_placement_seq x" "po_paper_index y = po_paper_index x"
  shows "pcore Q N L I (Os(N n \<mapsto> y)) a"
proof -
  have "placed_before (the ((Os(N n \<mapsto> y)) i)) (the ((Os(N n \<mapsto> y)) j)) =
      placed_before (the (Os i)) (the (Os j))" for i j
    using x y by (auto simp: placed_before_def)
  then have "pcore_queues Q N (Os(N n \<mapsto> y))"
    using c by (simp add: pcore_def pcore_queues_def)
  moreover have "pcore_nodes Q N L I (Os(N n \<mapsto> y)) a"
    using c y(1) by (simp add: pcore_def pcore_nodes_def)
  moreover have "I (N n) \<noteq> None" using pcore_orders [OF c, of "N n"] x by simp
  then have "pcore_index Q N I (Os(N n \<mapsto> y))"
    using c by (simp add: pcore_def pcore_index_def)
  ultimately show ?thesis by (simp add: pcore_def)
qed

lemma pcore_mono: "pcore Q N L I Os a \<Longrightarrow> a \<le> b \<Longrightarrow> pcore Q N L I Os b"
  by (fastforce simp: pcore_def pcore_nodes_def order_live_def)

lemma pcore_append:
  assumes c: "pcore Q N L I Os a" and n: "n \<notin> L" and i: "I i = None" "Os i = None"
    and x: "order_live (Suc a) x" "po_placement_seq x = a"
    and idx: "\<And>m y. m \<in> set (Q s px) \<Longrightarrow> Os (N m) = Some y \<Longrightarrow> po_paper_index y < po_paper_index x"
    and N': "N' n = i" "\<And>m. m \<in> L \<Longrightarrow> N' m = N m"
  shows "pcore (set_queue s px (Q s px @ [n]) Q) N' (insert n L)
    (I(i \<mapsto> \<lparr>pi_side = s, pi_price_ticks = px, pi_node = Some n\<rparr>)) (Os(i \<mapsto> x)) (Suc a)"
  unfolding pcore_def
proof (intro conjI)
  let ?Q = "set_queue s px (Q s px @ [n]) Q"
  let ?I = "I(i \<mapsto> \<lparr>pi_side = s, pi_price_ticks = px, pi_node = Some n\<rparr>)" and ?O = "Os(i \<mapsto> x)"
  have fresh: "n \<notin> set (Q s' px')" for s' px' using pcore_node [OF c] n by blast
  have same: "N' m = N m" "N m \<noteq> i" if "m \<in> set (Q s' px')" for m s' px'
    using pcore_node [OF c that] N'(2) i by auto
  have sorted: "sorted_wrt (\<lambda>m k. placed_before (the (?O (N' m))) (the (?O (N' k)))) (Q s' px')" for s' px'
    using pcore_sorted [OF c, of s' px']
    by (rule sorted_wrt_mono_rel [rotated]) (simp add: same)
  have last: "placed_before (the (?O (N' m))) x" if "m \<in> set (Q s px)" for m
  proof -
    from pcore_node [OF c that] obtain y where "Os (N m) = Some y" "order_live a y" by blast
    with idx [OF that] same [OF that] x(2) show ?thesis
      by (auto simp: placed_before_def order_live_def)
  qed
  show "pcore_queues ?Q N' ?O"
    unfolding pcore_queues_def
  proof (intro conjI allI impI)
    fix s' px'
    show "distinct (?Q s' px')" using pcore_distinct [OF c] fresh by simp
    show "sorted_wrt (\<lambda>m k. placed_before (the (?O (N' m))) (the (?O (N' k)))) (?Q s' px')"
      using sorted last N'(1) by (auto simp: sorted_wrt_append)
  next
    fix s1 px1 s2 px2 m
    assume "m \<in> set (?Q s1 px1)" "m \<in> set (?Q s2 px2)"
    then show "s2 = s1" "px2 = px1"
      using pcore_unique [OF c] fresh by (auto split: if_splits)
  qed
  show "pcore_nodes ?Q N' (insert n L) ?I ?O (Suc a)"
    unfolding pcore_nodes_def
  proof (intro conjI allI impI ballI)
    fix s' px' m
    assume m: "m \<in> set (?Q s' px')"
    consider "m = n" "s' = s" "px' = px" | "m \<in> set (Q s' px')" "m \<noteq> n"
      using m fresh by (auto split: if_splits)
    note cases = this
    show "m \<in> insert n L" using pcore_node [OF c] by (cases rule: cases) auto
    show "?I (N' m) = Some \<lparr>pi_side = s', pi_price_ticks = px', pi_node = Some m\<rparr>"
      using pcore_node [OF c] same N'(1) by (cases rule: cases) auto
    show "\<exists>y. ?O (N' m) = Some y \<and> order_live (Suc a) y"
    proof (cases rule: cases)
      case 1
      then show ?thesis using x N'(1) by simp
    next
      case 2
      with pcore_node [OF c 2(1)] same [OF 2(1)] show ?thesis
        by (auto simp: order_live_def)
    qed
  next
    fix m
    assume "m \<in> insert n L"
    then show "\<exists>s' px'. m \<in> set (?Q s' px')"
    proof
      assume "m = n"
      then have "m \<in> set (?Q s px)" by simp
      then show ?thesis by blast
    next
      assume "m \<in> L"
      with pcore_queued [OF c] obtain s' px' where "m \<in> set (Q s' px')" by blast
      then have "m \<in> set (?Q s' px')" by auto
      then show ?thesis by blast
    qed
  qed
  show "pcore_index ?Q N' ?I ?O"
    unfolding pcore_index_def
  proof (intro conjI allI impI)
    fix j info
    assume I: "?I j = Some info"
    show "\<exists>m. pi_node info = Some m \<and> m \<in> set (?Q (pi_side info) (pi_price_ticks info)) \<and> N' m = j"
    proof (cases "j = i")
      case True
      with I N'(1) show ?thesis by auto
    next
      case False
      with I have "I j = Some info" by simp
      from pcore_index_node [OF c this] obtain m where
        "pi_node info = Some m" "m \<in> set (Q (pi_side info) (pi_price_ticks info))" "N m = j" by blast
      with same show ?thesis by auto
    qed
  next
    fix j show "?O j = None \<longleftrightarrow> ?I j = None" using pcore_orders [OF c] by simp
  qed
qed

end
