(* ===== verification/PaperOps.thy ===== *)
theory PaperOps
  imports PaperInv
begin

text \<open>
  The invariant of the paper half and its preservation. \<open>level_num\<close> says what the second
  Fenwick tree of a level and its \<open>queued_lots\<close> stand for; \<open>open_wf\<close> is the invariant while a
  handler holds a reference to one level, \<open>paper_wf\<close> the invariant between handlers.
\<close>

section \<open>Reads after writes\<close>

definition pdata :: "Paper \<Rightarrow> nat \<Rightarrow> PaperOrder" where
  "pdata p n = the (hm_find (paper_orders p) (pid p n))"

definition pmaps_wf :: "Paper \<Rightarrow> bool" where
  "pmaps_wf p \<longleftrightarrow> (\<forall>s. hm_wf (p_levels s p)) \<and> hm_wf (paper_orders p) \<and> hm_wf (paper_order_info p)"

lemma p_levels_simps [simp, frame_simps]:
  "p_levels s' (p_set_levels s b p) = (if s' = s then b else p_levels s' p)"
  "p_levels s (p\<lparr>paper_orders := os\<rparr>) = p_levels s p"
  "p_levels s (p\<lparr>paper_order_info := oi\<rparr>) = p_levels s p"
  "p_levels s (p\<lparr>paper_pool := P\<rparr>) = p_levels s p"
  "p_levels s (p_release n p) = p_levels s p"
  by (cases s; cases s'; simp add: p_levels_def p_set_levels_def p_release_def)+

lemma p_set_levels_simps [simp, frame_simps]:
  "paper_orders (p_set_levels s b p) = paper_orders p"
  "paper_order_info (p_set_levels s b p) = paper_order_info p"
  "paper_pool (p_set_levels s b p) = paper_pool p"
  by (cases s; simp add: p_set_levels_def)+

lemma p_release_simps [simp, frame_simps]:
  "paper_orders (p_release n p) = paper_orders p"
  "paper_order_info (p_release n p) = paper_order_info p"
  "paper_pool (p_release n p) = np_release n (paper_pool p)"
  by (simp_all add: p_release_def)

lemma p_put_level_simps [simp, frame_simps]:
  "paper_orders (p_put_level s px l p) = paper_orders p"
  "paper_order_info (p_put_level s px l p) = paper_order_info p"
  "paper_pool (p_put_level s px l p) = paper_pool p"
  by (simp_all add: p_put_level_def)

lemma p_close_level_simps [simp, frame_simps]:
  "paper_orders (p_close_level s px l p) = paper_orders p"
  "paper_order_info (p_close_level s px l p) = paper_order_info p"
  "paper_pool (p_close_level s px l p) = paper_pool p"
  by (simp_all add: p_close_level_def)

lemma find_put_level [simp]:
  "find_paper_level s' px' (p_put_level s px l p) =
     (if s' = s \<and> px' = px then Some l else find_paper_level s' px' p)"
  by (simp add: find_paper_level_def p_put_level_def)

lemma find_close_level [simp]:
  "find_paper_level s' px' (p_close_level s px l p) =
     (if s' = s \<and> px' = px then (if pl_orders l = [] then None else Some l)
      else find_paper_level s' px' p)"
  by (simp add: find_paper_level_def p_close_level_def p_put_level_def)

lemma pq_put_level [simp]: "pq (p_put_level s px l p) = set_queue s px (pl_orders l) (pq p)"
  by (auto simp: pq_def fun_eq_iff set_queue_def)

lemma pq_close_level [simp]: "pq (p_close_level s px l p) = set_queue s px (pl_orders l) (pq p)"
  by (auto simp: pq_def fun_eq_iff set_queue_def)

lemma pid_levels [simp]:
  "pid (p_put_level s px l p) = pid p" "pid (p_close_level s px l p) = pid p"
  by (simp_all add: pid_def fun_eq_iff)

lemma pdata_levels [simp]:
  "pdata (p_put_level s px l p) = pdata p" "pdata (p_close_level s px l p) = pdata p"
  by (simp_all add: pdata_def fun_eq_iff)

lemma pmaps_wf_levels [simp]:
  "pmaps_wf p \<Longrightarrow> pmaps_wf (p_put_level s px l p)"
  "pmaps_wf p \<Longrightarrow> pmaps_wf (p_close_level s px l p)"
  by (simp_all add: pmaps_wf_def p_put_level_def p_close_level_def)

lemma find_level_cong: "(\<And>s. p_levels s p' = p_levels s p) \<Longrightarrow> find_paper_level s px p' = find_paper_level s px p"
  by (simp add: find_paper_level_def)

lemma pq_cong: "(\<And>s. p_levels s p' = p_levels s p) \<Longrightarrow> pq p' = pq p"
  by (simp add: pq_def find_paper_level_def fun_eq_iff)

section \<open>The numbers of a level\<close>

text \<open>
  \<open>rs\<close> lists placement index and remaining lots of the orders of the level. The tree holds each
  order's remaining lots at its index; whatever else it holds is not negative, and
  \<open>queued_lots\<close> is its total.
\<close>

definition level_num :: "PaperOrderLevel \<Rightarrow> (nat \<times> int) list \<Rightarrow> bool" where
  "level_num l rs \<longleftrightarrow>
     length (pl_paper_qty l) - 1 = pl_next_paper_index l \<and>
     (\<exists>f. fw_rep (pl_paper_qty l) f \<and> (\<forall>k. 0 \<le> f k) \<and>
        pl_queued_lots l = (\<Sum>k<pl_next_paper_index l. f k) \<and>
        (\<forall>(i, r) \<in> set rs. i < pl_next_paper_index l \<and> f i = r))"

lemma level_numI:
  assumes "length (pl_paper_qty l) - 1 = pl_next_paper_index l" "fw_rep (pl_paper_qty l) f"
    and "\<And>k. 0 \<le> f k" "pl_queued_lots l = (\<Sum>k<pl_next_paper_index l. f k)"
    and "\<And>i r. (i, r) \<in> set rs \<Longrightarrow> i < pl_next_paper_index l \<and> f i = r"
  shows "level_num l rs"
  using assms unfolding level_num_def by (intro conjI exI [of _ f]) auto

lemma level_numE:
  assumes "level_num l rs"
  obtains f where "length (pl_paper_qty l) - 1 = pl_next_paper_index l" "fw_rep (pl_paper_qty l) f"
    and "\<And>k. 0 \<le> f k" "pl_queued_lots l = (\<Sum>k<pl_next_paper_index l. f k)"
    and "\<And>i r. (i, r) \<in> set rs \<Longrightarrow> i < pl_next_paper_index l \<and> f i = r"
proof -
  from assms obtain f where f: "length (pl_paper_qty l) - 1 = pl_next_paper_index l"
      "fw_rep (pl_paper_qty l) f" "\<forall>k. 0 \<le> f k"
      "pl_queued_lots l = (\<Sum>k<pl_next_paper_index l. f k)"
      "\<forall>(i, r) \<in> set rs. i < pl_next_paper_index l \<and> f i = r"
    unfolding level_num_def by (elim conjE exE)
  show thesis by (rule that [of f]) (use f in auto)
qed

lemma level_num_default: "level_num default_PaperOrderLevel []"
  by (auto simp: level_num_def default_PaperOrderLevel_def fw_rep_def intro!: exI [of _ "\<lambda>_. 0"])

lemma level_num_cong:
  assumes "level_num l rs" "set rs' \<subseteq> set rs" "pl_paper_qty l' = pl_paper_qty l"
    and "pl_next_paper_index l' = pl_next_paper_index l" "pl_queued_lots l' = pl_queued_lots l"
  shows "level_num l' rs'"
proof -
  from assms(1) show ?thesis
  proof (rule level_numE)
    fix f assume f: "length (pl_paper_qty l) - 1 = pl_next_paper_index l" "fw_rep (pl_paper_qty l) f"
      "\<And>k. 0 \<le> f k" "pl_queued_lots l = (\<Sum>k<pl_next_paper_index l. f k)"
      "\<And>i r. (i, r) \<in> set rs \<Longrightarrow> i < pl_next_paper_index l \<and> f i = r"
    show ?thesis by (rule level_numI [of _ f]) (use f assms(2-) in auto)
  qed
qed

lemma level_num_add:
  assumes l: "level_num l rs" and i: "(i, r) \<in> set rs" and d: "0 \<le> r + d"
    and rs': "\<And>j q. (j, q) \<in> set rs' \<Longrightarrow> (if j = i then q = r + d else (j, q) \<in> set rs)"
    and l': "pl_paper_qty l' = fw_add i d (pl_paper_qty l)"
      "pl_next_paper_index l' = pl_next_paper_index l" "pl_queued_lots l' = pl_queued_lots l + d"
  shows "level_num l' rs'"
proof -
  obtain f where len: "length (pl_paper_qty l) - 1 = pl_next_paper_index l"
    and f: "fw_rep (pl_paper_qty l) f" "\<And>k. 0 \<le> f k"
      "pl_queued_lots l = (\<Sum>k<pl_next_paper_index l. f k)"
      "\<And>j q. (j, q) \<in> set rs \<Longrightarrow> j < pl_next_paper_index l \<and> f j = q"
    by (rule level_numE [OF l]) blast
  have i': "i < pl_next_paper_index l" "f i = r" using f(4) [OF i] by simp_all
  show ?thesis
  proof (rule level_numI [of _ "f(i := f i + d)"])
    show "length (pl_paper_qty l') - 1 = pl_next_paper_index l'" using len l' fw.cap_add by simp
    show "fw_rep (pl_paper_qty l') (f(i := f i + d))"
      unfolding l' by (rule fw.rep_add [OF f(1)]) (use i' len in simp)
    show "0 \<le> (f(i := f i + d)) k" for k using f(2) d i' by simp
    show "pl_queued_lots l' = (\<Sum>k<pl_next_paper_index l'. (f(i := f i + d)) k)"
      using f(3) i'(1) l' by (simp add: sum_fun_upd_int del: fun_upd_apply)
    show "j < pl_next_paper_index l' \<and> (f(i := f i + d)) j = q" if "(j, q) \<in> set rs'" for j q
      using rs' [OF that] f(4) [of j q] i' l'(2) by (cases "j = i") simp_all
  qed
qed

lemma level_num_append:
  assumes l: "level_num l rs" and r: "0 \<le> r" and n: "pl_next_paper_index l = n"
    and rs': "set rs' \<subseteq> insert (n, r) (set rs)"
    and l': "pl_paper_qty l' = fw_add n r (fw_ensure_size (Suc n) (pl_paper_qty l))"
      "pl_next_paper_index l' = Suc n" "pl_queued_lots l' = pl_queued_lots l + r"
  shows "level_num l' rs'"
proof -
  obtain f where len: "length (pl_paper_qty l) - 1 = n"
    and f: "fw_rep (pl_paper_qty l) f" "\<And>k. 0 \<le> f k"
      "pl_queued_lots l = (\<Sum>k<n. f k)"
      "\<And>j q. (j, q) \<in> set rs \<Longrightarrow> j < n \<and> f j = q"
    by (rule level_numE [OF l, unfolded n]) blast
  show ?thesis
  proof (rule level_numI [of _ "f(n := r)"])
    show "length (pl_paper_qty l') - 1 = pl_next_paper_index l'"
      using fw.cap_append [OF len] l' by simp
    show "fw_rep (pl_paper_qty l') (f(n := r))"
      unfolding l' by (rule fw.rep_append [OF f(1) len])
    show "0 \<le> (f(n := r)) k" for k using f(2) r by simp
    have "(\<Sum>k<n. (f(n := r)) k) = (\<Sum>k<n. f k)" by (rule sum.cong) auto
    then show "pl_queued_lots l' = (\<Sum>k<pl_next_paper_index l'. (f(n := r)) k)"
      using f(3) l' by simp
    show "j < pl_next_paper_index l' \<and> (f(n := r)) j = q" if "(j, q) \<in> set rs'" for j q
    proof (cases "j = n")
      case True
      with that rs' f(4) [of j q] l'(2) show ?thesis by auto
    next
      case False
      with that rs' have "(j, q) \<in> set rs" by auto
      from f(4) [OF this] False l'(2) show ?thesis by simp
    qed
  qed
qed

text \<open>\<open>queued_lots\<close> is never less than what rests; the level is exact when they agree.\<close>

lemma level_num_bound:
  assumes l: "level_num l rs" and d: "distinct (map fst rs)"
  shows "sum_list (map snd rs) \<le> pl_queued_lots l"
proof -
  obtain f where f: "\<And>k. 0 \<le> f k" "pl_queued_lots l = (\<Sum>k<pl_next_paper_index l. f k)"
      "\<And>j q. (j, q) \<in> set rs \<Longrightarrow> j < pl_next_paper_index l \<and> f j = q"
    by (rule level_numE [OF l]) blast
  have "snd x = f (fst x)" if "x \<in> set rs" for x using f(3) [of "fst x" "snd x"] that by simp
  then have "map snd rs = map f (map fst rs)" by simp
  then have "sum_list (map snd rs) = sum f (set (map fst rs))"
    using d by (simp only: sum_list_distinct_conv_sum_set)
  also have "\<dots> \<le> (\<Sum>k<pl_next_paper_index l. f k)"
  proof (rule sum_mono2)
    show "set (map fst rs) \<subseteq> {..<pl_next_paper_index l}"
    proof
      fix k assume "k \<in> set (map fst rs)"
      then obtain q where "(k, q) \<in> set rs" by auto
      from f(3) [OF this] show "k \<in> {..<pl_next_paper_index l}" by simp
    qed
  qed (use f(1) in auto)
  finally show ?thesis using f(2) by simp
qed


section \<open>The invariant\<close>

definition rest_of :: "Paper \<Rightarrow> nat list \<Rightarrow> (nat \<times> int) list" where
  "rest_of p ns = map (\<lambda>n. (po_paper_index (pdata p n), po_remaining_qty (pdata p n))) ns"

definition open_wf :: "nat \<Rightarrow> nat \<Rightarrow> Side \<Rightarrow> int \<Rightarrow> PaperOrderLevel \<Rightarrow> Paper \<Rightarrow> bool" where
  "open_wf cap a s px l p \<longleftrightarrow>
     np_wf cap (paper_pool p) \<and> pmaps_wf p \<and>
     pcore (set_queue s px (pl_orders l) (pq p)) (pid p) (np_live (paper_pool p))
       (hm_find (paper_order_info p)) (hm_find (paper_orders p)) a \<and>
     level_num l (rest_of p (pl_orders l)) \<and>
     (\<forall>s' px' l'. \<not> (s' = s \<and> px' = px) \<longrightarrow> find_paper_level s' px' p = Some l' \<longrightarrow>
        pl_orders l' \<noteq> [] \<and> level_num l' (rest_of p (pl_orders l')))"

definition paper_wf :: "nat \<Rightarrow> nat \<Rightarrow> Paper \<Rightarrow> bool" where
  "paper_wf cap a p \<longleftrightarrow>
     np_wf cap (paper_pool p) \<and> pmaps_wf p \<and>
     pcore (pq p) (pid p) (np_live (paper_pool p)) (hm_find (paper_order_info p))
       (hm_find (paper_orders p)) a \<and>
     (\<forall>s px l. find_paper_level s px p = Some l \<longrightarrow>
        pl_orders l \<noteq> [] \<and> level_num l (rest_of p (pl_orders l)))"

lemma rest_of_cong: "(\<And>m. m \<in> set ns \<Longrightarrow> pdata p' m = pdata p m) \<Longrightarrow> rest_of p' ns = rest_of p ns"
  by (simp add: rest_of_def)

lemma rest_of_levels [simp]:
  "rest_of (p_put_level s px l p) = rest_of p" "rest_of (p_close_level s px l p) = rest_of p"
  by (simp_all add: rest_of_def fun_eq_iff)

lemma paper_wf_core: "paper_wf cap a p \<Longrightarrow>
    pcore (pq p) (pid p) (np_live (paper_pool p)) (hm_find (paper_order_info p))
      (hm_find (paper_orders p)) a"
  by (simp add: paper_wf_def)

lemma open_wf_core: "open_wf cap a s px l p \<Longrightarrow>
    pcore (set_queue s px (pl_orders l) (pq p)) (pid p) (np_live (paper_pool p))
       (hm_find (paper_order_info p)) (hm_find (paper_orders p)) a"
  by (simp add: open_wf_def)

lemma open_wf_num: "open_wf cap a s px l p \<Longrightarrow> level_num l (rest_of p (pl_orders l))"
  by (simp add: open_wf_def)

lemma paper_wf_init: "paper_wf cap a paper_init"
  by (simp add: paper_wf_def paper_init_def np_wf_empty pmaps_wf_def p_levels_def pcore_def
      pcore_queues_def pcore_nodes_def pcore_index_def pq_def find_paper_level_def split: Side.splits)

lemma paper_wf_clear: "paper_wf cap a p \<Longrightarrow> paper_wf cap b (paper_clear p)"
  by (simp add: paper_wf_def paper_clear_def np_wf_reset pmaps_wf_def p_levels_def pcore_def
      pcore_queues_def pcore_nodes_def pcore_index_def pq_def find_paper_level_def split: Side.splits)

lemma paper_wf_mono: "paper_wf cap a p \<Longrightarrow> a \<le> b \<Longrightarrow> paper_wf cap b p"
  unfolding paper_wf_def using pcore_mono by blast

lemma paper_wf_open:
  assumes wf: "paper_wf cap a p" and l: "find_paper_level s px p = Some l"
  shows "open_wf cap a s px l p"
proof -
  have "set_queue s px (pl_orders l) (pq p) = pq p"
    using l by (auto simp: fun_eq_iff pq_def)
  with wf l show ?thesis by (simp add: open_wf_def paper_wf_def)
qed

lemma open_wf_close: "open_wf cap a s px l p \<Longrightarrow> paper_wf cap a (p_close_level s px l p)"
  by (auto simp: open_wf_def paper_wf_def split: if_splits)

lemma open_wf_put:
  assumes "open_wf cap a s px l p" "pl_orders l \<noteq> []"
  shows "paper_wf cap a (p_put_level s px l p)"
  using open_wf_close [OF assms(1)] assms(2) by (simp add: p_close_level_def)

lemma open_order:
  assumes "open_wf cap a s px l p" "n \<in> set (pl_orders l)"
  shows "n \<in> np_live (paper_pool p)" "hm_find (paper_orders p) (pid p n) = Some (pdata p n)"
    and "order_live a (pdata p n)"
    and "hm_find (paper_order_info p) (pid p n) =
      Some \<lparr>pi_side = s, pi_price_ticks = px, pi_node = Some n\<rparr>"
  using pcore_node [OF open_wf_core [OF assms(1)], of n s px] assms(2) by (auto simp: pdata_def)

lemma open_in_rest: "n \<in> set ns \<Longrightarrow> (po_paper_index (pdata p n), po_remaining_qty (pdata p n)) \<in> set (rest_of p ns)"
  by (auto simp: rest_of_def)

lemma sorted_wrt_either:
  "sorted_wrt P xs \<Longrightarrow> x \<in> set xs \<Longrightarrow> y \<in> set xs \<Longrightarrow> x \<noteq> y \<Longrightarrow> P x y \<or> P y x"
  by (induction xs) auto

lemma open_index_inj:
  assumes wf: "open_wf cap a s px l p" and n: "n \<in> set (pl_orders l)" "m \<in> set (pl_orders l)" "m \<noteq> n"
  shows "po_paper_index (pdata p m) \<noteq> po_paper_index (pdata p n)"
  using sorted_wrt_either [OF pcore_sorted [OF open_wf_core [OF wf], of s px], of m n] n
  by (auto simp: pdata_def placed_before_def)

lemma open_id_inj:
  assumes wf: "open_wf cap a s px l p" and n: "n \<in> set (pl_orders l)"
    and m: "m \<in> set (set_queue s px (pl_orders l) (pq p) s' px')" "m \<noteq> n"
  shows "pid p m \<noteq> pid p n"
  using pcore_inj [OF open_wf_core [OF wf], of n s px m s' px'] n m by auto

text \<open>The two changes every handler makes: an order leaves the open level, or is rewritten.\<close>

lemma open_remove:
  assumes wf: "open_wf cap a s px l p" and n: "n \<in> set (pl_orders l)"
    and l': "pl_orders l' = removeAll n (pl_orders l)" "level_num l' (rest_of p (pl_orders l'))"
    and p': "\<And>s. p_levels s p' = p_levels s p" "paper_pool p' = np_release (Some n) (paper_pool p)"
      "hm_find (paper_orders p') = (hm_find (paper_orders p))(pid p n := None)"
      "hm_find (paper_order_info p') = (hm_find (paper_order_info p))(pid p n := None)"
      "hm_wf (paper_orders p')" "hm_wf (paper_order_info p')"
  shows "open_wf cap a s px l' p'"
proof -
  note c = open_wf_core [OF wf]
  have id: "pid p' = pid p" by (simp add: pid_def fun_eq_iff p'(2) np_release_get)
  have q: "pq p' = pq p" and find: "find_paper_level s' px' p' = find_paper_level s' px' p" for s' px'
    using pq_cong find_level_cong p'(1) by blast+
  have pool: "np_wf cap (paper_pool p')" "np_live (paper_pool p') = np_live (paper_pool p) - {n}"
    using np.release_live [of cap "paper_pool p" n] open_order(1) [OF wf n] wf p'(2)
    by (simp_all add: open_wf_def)
  have same: "pdata p' m = pdata p m" if "m \<in> set (set_queue s px (pl_orders l) (pq p) s' px')" "m \<noteq> n"
    for m s' px'
    using open_id_inj [OF wf n that] by (simp add: pdata_def id p'(3))
  have rest: "rest_of p' ns = rest_of p ns"
    if "set ns \<subseteq> set (set_queue s px (pl_orders l) (pq p) s' px') - {n}" for ns s' px'
  proof (rule rest_of_cong)
    fix m assume "m \<in> set ns"
    with that have "m \<in> set (set_queue s px (pl_orders l) (pq p) s' px')" "m \<noteq> n" by blast+
    then show "pdata p' m = pdata p m" by (rule same)
  qed
  have "level_num l' (rest_of p' (pl_orders l'))"
    using l' rest [of "pl_orders l'" s px] by auto
  moreover have "pcore (set_queue s px (pl_orders l') (pq p')) (pid p') (np_live (paper_pool p'))
       (hm_find (paper_order_info p')) (hm_find (paper_orders p')) a"
    using pcore_remove [OF c, of n s px] n l'(1) by (simp add: q id pool(2) p'(3,4))
  moreover have "pl_orders m \<noteq> [] \<and> level_num m (rest_of p' (pl_orders m))"
    if "\<not> (s' = s \<and> px' = px)" "find_paper_level s' px' p' = Some m" for s' px' m
  proof -
    have f: "find_paper_level s' px' p = Some m" using that find by simp
    then have "set (pl_orders m) = set (set_queue s px (pl_orders l) (pq p) s' px')"
      using that(1) by (auto simp: pq_def)
    moreover have "n \<notin> set (set_queue s px (pl_orders l) (pq p) s' px')"
      using pcore_unique [OF c, of n s px s' px'] n that(1) by auto
    ultimately have "rest_of p' (pl_orders m) = rest_of p (pl_orders m)"
      using rest [of "pl_orders m" s' px'] by blast
    with wf that(1) f show ?thesis by (simp add: open_wf_def)
  qed
  moreover have "pmaps_wf p'" using wf p' by (simp add: open_wf_def pmaps_wf_def)
  ultimately show ?thesis using pool by (simp add: open_wf_def)
qed

lemma open_update:
  assumes wf: "open_wf cap a s px l p" and n: "n \<in> set (pl_orders l)"
    and y: "order_live a y" "po_placement_seq y = po_placement_seq (pdata p n)"
      "po_paper_index y = po_paper_index (pdata p n)"
    and l': "pl_orders l' = pl_orders l"
      "pl_paper_qty l' = fw_add (po_paper_index y) d (pl_paper_qty l)"
      "pl_next_paper_index l' = pl_next_paper_index l" "pl_queued_lots l' = pl_queued_lots l + d"
    and d: "po_remaining_qty y = po_remaining_qty (pdata p n) + d"
    and p': "\<And>s. p_levels s p' = p_levels s p" "paper_pool p' = paper_pool p"
      "hm_find (paper_orders p') = (hm_find (paper_orders p))(pid p n \<mapsto> y)"
      "paper_order_info p' = paper_order_info p" "hm_wf (paper_orders p')"
  shows "open_wf cap a s px l' p'"
proof -
  note c = open_wf_core [OF wf]
  have id: "pid p' = pid p" by (simp add: pid_def fun_eq_iff p'(2))
  have q: "pq p' = pq p" and find: "find_paper_level s' px' p' = find_paper_level s' px' p" for s' px'
    using pq_cong find_level_cong p'(1) by blast+
  have same: "pdata p' m = pdata p m" if "m \<in> set (set_queue s px (pl_orders l) (pq p) s' px')" "m \<noteq> n"
    for m s' px'
    using open_id_inj [OF wf n that] by (simp add: pdata_def id p'(3))
  have dn: "pdata p' n = y" by (simp add: pdata_def id p'(3))
  have "level_num l' (rest_of p' (pl_orders l'))"
  proof (rule level_num_add [OF open_wf_num [OF wf] open_in_rest [OF n]])
    show "0 \<le> po_remaining_qty (pdata p n) + d" using y(1) d by (simp add: order_live_def)
    show "pl_paper_qty l' = fw_add (po_paper_index (pdata p n)) d (pl_paper_qty l)" using l' y by simp
    fix j r assume "(j, r) \<in> set (rest_of p' (pl_orders l'))"
    then obtain m where m: "m \<in> set (pl_orders l)" "j = po_paper_index (pdata p' m)"
        "r = po_remaining_qty (pdata p' m)" using l'(1) by (auto simp: rest_of_def)
    show "if j = po_paper_index (pdata p n) then r = po_remaining_qty (pdata p n) + d
        else (j, r) \<in> set (rest_of p (pl_orders l))"
    proof (cases "m = n")
      case True
      with m dn y d show ?thesis by simp
    next
      case False
      with same [of m s px] m open_index_inj [OF wf n m(1)] open_in_rest [OF m(1), of p]
      show ?thesis by simp
    qed
  qed (use l' in simp_all)
  moreover have "pcore (set_queue s px (pl_orders l') (pq p')) (pid p') (np_live (paper_pool p'))
       (hm_find (paper_order_info p')) (hm_find (paper_orders p')) a"
    using pcore_update [OF c, of n s px "pdata p n" y] n l'(1) y open_order(2) [OF wf n]
    by (simp add: q id p')
  moreover have "pl_orders m \<noteq> [] \<and> level_num m (rest_of p' (pl_orders m))"
    if "\<not> (s' = s \<and> px' = px)" "find_paper_level s' px' p' = Some m" for s' px' m
  proof -
    have f: "find_paper_level s' px' p = Some m" using that find by simp
    then have e: "set (pl_orders m) = set (set_queue s px (pl_orders l) (pq p) s' px')"
      using that(1) by (auto simp: pq_def)
    have o: "n \<notin> set (set_queue s px (pl_orders l) (pq p) s' px')"
      using pcore_unique [OF c, of n s px s' px'] n that(1) by auto
    have "rest_of p' (pl_orders m) = rest_of p (pl_orders m)"
    proof (rule rest_of_cong)
      fix k assume "k \<in> set (pl_orders m)"
      with e o have "k \<in> set (set_queue s px (pl_orders l) (pq p) s' px')" "k \<noteq> n" by blast+
      then show "pdata p' k = pdata p k" by (rule same)
    qed
    with wf that(1) f show ?thesis by (simp add: open_wf_def)
  qed
  moreover have "pmaps_wf p'" using wf p' by (simp add: open_wf_def pmaps_wf_def)
  ultimately show ?thesis using wf p'(2) by (simp add: open_wf_def)
qed


section \<open>Removing an order\<close>

definition same_market :: "PaperOrderLevel \<Rightarrow> PaperOrderLevel \<Rightarrow> bool" where
  "same_market l l' \<longleftrightarrow> pl_market_seqs l' = pl_market_seqs l \<and> pl_market_qty l' = pl_market_qty l \<and>
     pl_market_index_by_seq l' = pl_market_index_by_seq l"

lemma same_market_refl [simp]: "same_market l l"
  by (simp add: same_market_def)

lemma same_market_trans: "same_market l l' \<Longrightarrow> same_market l' l'' \<Longrightarrow> same_market l l''"
  by (simp add: same_market_def)

lemma same_market_ahead: "same_market l l' \<Longrightarrow> market_ahead l' = market_ahead l"
  by (simp add: same_market_def market_ahead_def fun_eq_iff)

lemma forget_open:
  assumes wf: "open_wf cap a s px l p" and n: "n \<in> set (pl_orders l)"
    and num: "level_num l1 (rest_of p (removeAll n (pl_orders l)))" "pl_orders l1 = pl_orders l"
    and p1: "\<And>s. p_levels s p1 = p_levels s p" "paper_pool p1 = paper_pool p"
      "paper_order_info p1 = paper_order_info p"
      "\<And>i. i \<noteq> pid p n \<Longrightarrow> hm_find (paper_orders p1) i = hm_find (paper_orders p) i"
      "hm_wf (paper_orders p1)"
    and f: "forget_paper_order n (pid p n) (l1, p1) = (l', p')"
  shows "open_wf cap a s px l' p'"
proof -
  have l': "l' = l1\<lparr>pl_orders := removeAll n (pl_orders l)\<rparr>"
    and p': "p' = p_release (Some n) (p1\<lparr>paper_order_info := hm_erase (pid p n) (paper_order_info p),
      paper_orders := hm_erase (pid p n) (paper_orders p1)\<rparr>)"
    using f num(2) p1(3) by (auto simp: forget_paper_order_def)
  have "hm_wf (paper_order_info p)" using wf by (simp add: open_wf_def pmaps_wf_def)
  then show ?thesis
    using level_num_cong [OF num(1), of _ l'] p1
    by (intro open_remove [OF wf n]) (auto simp: l' p' fun_eq_iff)
qed

text \<open>
  \<open>remove_paper_order\<close> keeps the invariant whatever quantity is passed, also when the order was
  already rewritten to less than it rests with: the tree then keeps the difference.
\<close>

lemma remove_paper_order_open:
  assumes wf: "open_wf cap a s px l p" and n: "n \<in> set (pl_orders l)"
    and y: "0 \<le> po_remaining_qty y" "po_remaining_qty y \<le> po_remaining_qty (pdata p n)"
      "po_paper_index y = po_paper_index (pdata p n)"
    and p1: "\<And>s. p_levels s p1 = p_levels s p" "paper_pool p1 = paper_pool p"
      "paper_order_info p1 = paper_order_info p"
      "hm_find (paper_orders p1) = (hm_find (paper_orders p))(pid p n \<mapsto> y)"
      "hm_wf (paper_orders p1)"
    and r: "remove_paper_order (Some n) q st (l, p1) = (l', p')"
  shows "open_wf cap a s px l' p' \<and> same_market l l' \<and> (\<forall>s. p_levels s p' = p_levels s p) \<and>
    pl_orders l' = removeAll n (pl_orders l) \<and>
    (\<forall>m. m \<noteq> n \<longrightarrow> m \<in> set (pl_orders l) \<longrightarrow> pdata p' m = pdata p m) \<and> pid p' = pid p"
proof -
  let ?i = "pid p n" and ?x = "pdata p n"
  have id1: "pn_order_id (np_get (paper_pool p1) n) = ?i" by (simp add: pid_def p1(2))
  have find1: "hm_find (paper_orders p1) ?i = Some y" by (simp add: p1(4))
  note num = open_wf_num [OF wf]
  obtain l1 p2 where lp: "forget_paper_order n ?i (l1, p2) = (l', p')" "same_market l l1"
      "pl_orders l1 = pl_orders l" "level_num l1 (rest_of p (removeAll n (pl_orders l)))"
    and p2: "\<And>s. p_levels s p2 = p_levels s p" "paper_pool p2 = paper_pool p"
      "paper_order_info p2 = paper_order_info p"
      "\<And>i. i \<noteq> ?i \<Longrightarrow> hm_find (paper_orders p2) i = hm_find (paper_orders p) i"
      "hm_wf (paper_orders p2)"
  proof (cases "(if q \<le> 0 then po_remaining_qty y else q) \<le> 0")
    case True
    have num1: "level_num l (rest_of p (removeAll n (pl_orders l)))"
      by (rule level_num_cong [OF num]) (auto simp: rest_of_def)
    from True r find1 have "forget_paper_order n ?i (l, p1) = (l', p')"
      by (simp add: remove_paper_order_def id1)
    with num1 p1 show thesis by (intro that [of l p1]) auto
  next
    case False
    define m where "m = min (if q \<le> 0 then po_remaining_qty y else q) (po_remaining_qty y)"
    define l1 where "l1 = l\<lparr>pl_queued_lots := pl_queued_lots l - m,
      pl_paper_qty := fw_add (po_paper_index y) (- m) (pl_paper_qty l)\<rparr>"
    define p2 where "p2 = p1\<lparr>paper_orders := hm_put ?i
      (y\<lparr>po_remaining_qty := po_remaining_qty y - m, po_status := st\<rparr>) (paper_orders p1)\<rparr>"
    have m: "0 \<le> m" "m \<le> po_remaining_qty ?x" using y False by (auto simp: m_def)
    have num1: "level_num l1 (rest_of p (removeAll n (pl_orders l)))"
    proof (rule level_num_add [OF num open_in_rest [OF n]])
      show "0 \<le> po_remaining_qty ?x + - m" using m by simp
      show "pl_paper_qty l1 = fw_add (po_paper_index ?x) (- m) (pl_paper_qty l)"
        by (simp add: l1_def y(3))
      fix j r assume "(j, r) \<in> set (rest_of p (removeAll n (pl_orders l)))"
      then obtain k where k: "k \<in> set (pl_orders l)" "k \<noteq> n" "j = po_paper_index (pdata p k)"
          "r = po_remaining_qty (pdata p k)" by (auto simp: rest_of_def)
      with open_index_inj [OF wf n k(1,2)] open_in_rest [OF k(1), of p]
      show "if j = po_paper_index ?x then r = po_remaining_qty ?x + - m
          else (j, r) \<in> set (rest_of p (pl_orders l))" by simp
    qed (simp_all add: l1_def)
    from False r find1 have "forget_paper_order n ?i (l1, p2) = (l', p')"
      by (simp add: remove_paper_order_def id1 l1_def p2_def m_def Let_def split: if_splits)
    with num1 p1 show thesis
      by (intro that [of l1 p2]) (auto simp: l1_def p2_def same_market_def)
  qed
  have wf': "open_wf cap a s px l' p'"
    by (rule forget_open [OF wf n lp(4,3) p2 lp(1)])
  have l': "l' = l1\<lparr>pl_orders := removeAll n (pl_orders l)\<rparr>"
    and p': "p' = p_release (Some n) (p2\<lparr>paper_order_info := hm_erase ?i (paper_order_info p),
      paper_orders := hm_erase ?i (paper_orders p2)\<rparr>)"
    using lp(1,3) p2(3) by (auto simp: forget_paper_order_def)
  have id: "pid p' = pid p" by (simp add: pid_def p' p2(2) fun_eq_iff np_release_get)
  have find: "hm_find (paper_orders p') i = hm_find (paper_orders p) i" if "i \<noteq> ?i" for i
    using that by (simp add: p' p2(4))
  have "pdata p' m = pdata p m" if "m \<noteq> n" "m \<in> set (pl_orders l)" for m
    using open_id_inj [OF wf n, of m s px] that find [of "pid p m"] by (simp add: pdata_def id)
  with wf' id lp(2) show ?thesis by (simp add: l' p' p2(1) same_market_def)
qed


lemma remove_own_open:
  assumes wf: "open_wf cap a s px l p" and n: "n \<in> set (pl_orders l)"
    and r: "remove_paper_order (Some n) q st (l, p) = (l', p')"
  shows "open_wf cap a s px l' p' \<and> same_market l l' \<and> (\<forall>s. p_levels s p' = p_levels s p) \<and>
    pl_orders l' = removeAll n (pl_orders l) \<and>
    (\<forall>m. m \<noteq> n \<longrightarrow> m \<in> set (pl_orders l) \<longrightarrow> pdata p' m = pdata p m) \<and> pid p' = pid p"
proof (rule remove_paper_order_open [OF wf n _ _ _ _ _ _ _ _ r])
  show "hm_find (paper_orders p) = (hm_find (paper_orders p))(pid p n \<mapsto> pdata p n)"
    using open_order(2) [OF wf n] by (simp add: fun_upd_idem)
  show "0 \<le> po_remaining_qty (pdata p n)"
    using open_order(3) [OF wf n] by (simp add: order_live_def)
  show "hm_wf (paper_orders p)" using wf by (simp add: open_wf_def pmaps_wf_def)
qed simp_all

section \<open>Volume trading through a level\<close>

definition market_wait :: "PaperOrderLevel \<Rightarrow> PaperOrder \<Rightarrow> int \<Rightarrow> int" where
  \<comment> \<open>\<open>aheadMarket\<close>\<close>
  "market_wait l x consumed = max 0 (market_ahead l (po_placement_seq x) - consumed)"

definition queue_wait :: "PaperOrderLevel \<Rightarrow> PaperOrder \<Rightarrow> int \<Rightarrow> int" where
  \<comment> \<open>\<open>queueAhead\<close>\<close>
  "queue_wait l x consumed = market_wait l x consumed + fw_sum (pl_paper_qty l) (po_paper_index x)"

definition take_lots :: "PaperOrder \<Rightarrow> int \<Rightarrow> PaperOrderLevel \<Rightarrow> PaperOrderLevel" where
  "take_lots x q l = l\<lparr>pl_queued_lots := pl_queued_lots l - q,
     pl_paper_qty := fw_add (po_paper_index x) (- q) (pl_paper_qty l)\<rparr>"

definition partly_filled :: "int \<Rightarrow> PaperOrder \<Rightarrow> int \<Rightarrow> Paper \<Rightarrow> Paper" where
  "partly_filled i x q p = p\<lparr>paper_orders := hm_put i
     (x\<lparr>po_remaining_qty := po_remaining_qty x - q, po_status := PO_PARTIALLY_FILLED\<rparr>) (paper_orders p)\<rparr>"

definition trade_fill ::
  "nat \<Rightarrow> Side \<Rightarrow> int \<Rightarrow> NormalizedLobEvent \<Rightarrow> int \<times> int \<times> PaperOrder \<Rightarrow> FillRecord" where
  \<comment> \<open>the fill of \<open>q\<close> lots of the order \<open>x\<close> with id \<open>i\<close>\<close>
  "trade_fill sq s px ev = (\<lambda>(q, i, x). paper_fill sq s px q i x
     (if ev_update_type ev = ADD then ev_order_id ev else UnknownOrderIdSentinel)
     (if ev_update_type ev = ADD then ev_trader_id ev else UnknownTraderIdSentinel) ev)"

lemma paper_trade_cases:
  assumes r: "paper_trade_loop sq s px ev (n # ns) (l, p) T C = (lp', fs)"
    and x: "hm_find (paper_orders p) (pid p n) = Some x" "0 < po_remaining_qty x"
  obtains (stop) "T \<le> 0 \<or> T \<le> queue_wait l x C" "lp' = (l, p)" "fs = []"
  | (part) fs' where "0 < T" "queue_wait l x C < T" "T - queue_wait l x C < po_remaining_qty x"
    "fs = trade_fill sq s px ev (T - queue_wait l x C, pid p n, x) # fs'"
    "paper_trade_loop sq s px ev ns
       (take_lots x (T - queue_wait l x C) l, partly_filled (pid p n) x (T - queue_wait l x C) p)
       0 (C + market_wait l x C) = (lp', fs')"
  | (full) fs' where "0 < T" "po_remaining_qty x \<le> T - queue_wait l x C"
    "fs = trade_fill sq s px ev (po_remaining_qty x, pid p n, x) # fs'"
    "paper_trade_loop sq s px ev ns (remove_paper_order (Some n) (po_remaining_qty x) PO_FILLED (l, p))
       (T - queue_wait l x C - po_remaining_qty x) (C + market_wait l x C) = (lp', fs')"
proof -
  have id: "pn_order_id (np_get (paper_pool p) n) = pid p n" by (simp add: pid_def)
  have mw: "(if market_ahead l (po_placement_seq x) > C then market_ahead l (po_placement_seq x) - C else 0)
      = market_wait l x C" by (simp add: market_wait_def)
  note eq = r [unfolded paper_trade_loop.simps prod.case Let_def id x(1) option.case mw
      queue_wait_def [symmetric]]
  consider "T \<le> 0 \<or> T \<le> queue_wait l x C"
    | "0 < T" "queue_wait l x C < T" "T - queue_wait l x C < po_remaining_qty x"
    | "0 < T" "queue_wait l x C < T" "po_remaining_qty x \<le> T - queue_wait l x C" by linarith
  then show thesis
  proof cases
    case 1
    with eq have "lp' = (l, p)" "fs = []" by (auto split: if_splits)
    with 1 show thesis by (rule stop)
  next
    case 2
    then have "min (po_remaining_qty x) (T - queue_wait l x C) = T - queue_wait l x C" by simp
    with eq 2 obtain fs' where
      "fs = trade_fill sq s px ev (T - queue_wait l x C, pid p n, x) # fs'"
      "paper_trade_loop sq s px ev ns
       (take_lots x (T - queue_wait l x C) l, partly_filled (pid p n) x (T - queue_wait l x C) p)
       0 (C + market_wait l x C) = (lp', fs')"
      by (auto simp: take_lots_def partly_filled_def trade_fill_def split: prod.splits)
    with 2 show thesis by (rule part)
  next
    case 3
    then have "min (po_remaining_qty x) (T - queue_wait l x C) = po_remaining_qty x" by simp
    with eq 3 x(2) obtain fs' where
      "fs = trade_fill sq s px ev (po_remaining_qty x, pid p n, x) # fs'"
      "paper_trade_loop sq s px ev ns (remove_paper_order (Some n) (po_remaining_qty x) PO_FILLED (l, p))
       (T - queue_wait l x C - po_remaining_qty x) (C + market_wait l x C) = (lp', fs')"
      by (auto simp: trade_fill_def split: prod.splits)
    with 3(1,3) show thesis by (rule full)
  qed
qed

lemma partly_filled_open:
  assumes wf: "open_wf cap a s px l p" and n: "n \<in> set (pl_orders l)"
    and q: "0 < q" "q < po_remaining_qty (pdata p n)"
  shows "open_wf cap a s px (take_lots (pdata p n) q l) (partly_filled (pid p n) (pdata p n) q p) \<and>
    same_market l (take_lots (pdata p n) q l)"
proof -
  let ?y = "(pdata p n)\<lparr>po_remaining_qty := po_remaining_qty (pdata p n) - q,
    po_status := PO_PARTIALLY_FILLED\<rparr>"
  have "order_live a ?y" using open_order(3) [OF wf n] q by (simp add: order_live_def)
  moreover have "hm_wf (paper_orders p)" using wf by (simp add: open_wf_def pmaps_wf_def)
  ultimately have "open_wf cap a s px (take_lots (pdata p n) q l)
      (partly_filled (pid p n) (pdata p n) q p)"
    by (intro open_update [OF wf n, of ?y _ "- q"])
      (auto simp: take_lots_def partly_filled_def fun_eq_iff)
  then show ?thesis by (simp add: same_market_def take_lots_def)
qed

lemma partly_filled_simps [simp]:
  "p_levels s (partly_filled i x q p) = p_levels s p"
  "paper_pool (partly_filled i x q p) = paper_pool p"
  "pid (partly_filled i x q p) = pid p"
  "pl_orders (take_lots x q l) = pl_orders l"
  by (simp_all add: partly_filled_def take_lots_def pid_def fun_eq_iff)

lemma paper_trade_loop_done [simp]: "T \<le> 0 \<Longrightarrow> paper_trade_loop sq s px ev ns lp T C = (lp, [])"
  by (cases ns) auto

lemma paper_trade_loop_open:
  assumes "paper_trade_loop sq s px ev ns (l, p) T C = ((l', p'), fs)"
    and "open_wf cap a s px l p" "set ns \<subseteq> set (pl_orders l)" "distinct ns"
  shows "open_wf cap a s px l' p' \<and> same_market l l' \<and> (\<forall>s. p_levels s p' = p_levels s p)"
  using assms
proof (induction ns arbitrary: l p T C fs)
  case Nil
  then show ?case by simp
next
  case (Cons n ns)
  note wf = Cons.prems(2)
  have n: "n \<in> set (pl_orders l)" "n \<notin> set ns" "set ns \<subseteq> set (pl_orders l)" "distinct ns"
    using Cons.prems by auto
  have r: "0 < po_remaining_qty (pdata p n)"
    using open_order(3) [OF wf n(1)] by (simp add: order_live_def)
  from Cons.prems(1) open_order(2) [OF wf n(1)] r show ?case
  proof (cases rule: paper_trade_cases)
    case stop
    with wf show ?thesis by simp
  next
    case (part fs')
    with partly_filled_open [OF wf n(1), of "T - queue_wait l (pdata p n) C"]
    show ?thesis by auto
  next
    case (full fs')
    obtain l1 p1 where lp: "remove_paper_order (Some n) (po_remaining_qty (pdata p n)) PO_FILLED (l, p) = (l1, p1)"
      by fastforce
    have "open_wf cap a s px l1 p1 \<and> same_market l l1 \<and> (\<forall>s. p_levels s p1 = p_levels s p) \<and>
        pl_orders l1 = removeAll n (pl_orders l)"
      using remove_own_open [OF wf n(1) lp] by simp
    moreover from this have "set ns \<subseteq> set (pl_orders l1)" using n by auto
    ultimately show ?thesis
      using Cons.IH [of l1 p1] full(4) n(4) lp same_market_trans by metis
  qed
qed


lemma paper_hit_loop_done [simp]: "T \<le> 0 \<Longrightarrow> paper_hit_loop sq s px ev ns lp T C = ((lp, C), [])"
  by (cases ns) auto

lemma paper_hit_cases:
  assumes r: "paper_hit_loop sq s px ev (n # ns) (l, p) T C = (res, fs)"
    and x: "hm_find (paper_orders p) (pid p n) = Some x" "order_live a x"
  obtains (stop) "T \<le> 0" "res = ((l, p), C)" "fs = []"
  | (part) "0 < T" "T < po_remaining_qty x"
    "fs = [paper_fill sq s px T (pid p n) x (ev_order_id ev) (ev_trader_id ev) ev]"
    "res = ((take_lots x T l, partly_filled (pid p n) x T p), C + T)"
  | (full) fs' where "0 < T" "po_remaining_qty x \<le> T"
    "fs = paper_fill sq s px (po_remaining_qty x) (pid p n) x (ev_order_id ev) (ev_trader_id ev) ev # fs'"
    "paper_hit_loop sq s px ev ns (remove_paper_order (Some n) (po_remaining_qty x) PO_FILLED
         (l, p\<lparr>paper_orders := hm_put (pid p n) (x\<lparr>po_remaining_qty := 0\<rparr>) (paper_orders p)\<rparr>))
       (T - po_remaining_qty x) (C + po_remaining_qty x) = (res, fs')"
proof -
  have id: "pn_order_id (np_get (paper_pool p) n) = pid p n" by (simp add: pid_def)
  have live: "\<not> (po_remaining_qty x \<le> 0 \<or> po_status x = PO_FILLED \<or> po_status x = PO_CANCELLED
      \<or> po_status x = PO_REJECTED)" using x(2) by (auto simp: order_live_def)
  note eq = r [unfolded paper_hit_loop.simps prod.case Let_def id x(1) option.case if_not_P [OF live]]
  consider "T \<le> 0" | "0 < T" "T < po_remaining_qty x" | "0 < T" "po_remaining_qty x \<le> T" by linarith
  then show thesis
  proof cases
    case 1
    with eq have "res = ((l, p), C)" "fs = []" by auto
    with 1 show thesis by (rule stop)
  next
    case 2
    then have "min (po_remaining_qty x) T = T" by simp
    with eq 2 have
      "fs = [paper_fill sq s px T (pid p n) x (ev_order_id ev) (ev_trader_id ev) ev]"
      "res = ((take_lots x T l, partly_filled (pid p n) x T p), C + T)"
      by (auto simp: take_lots_def partly_filled_def)
    with 2 show thesis by (rule part)
  next
    case 3
    then have "min (po_remaining_qty x) T = po_remaining_qty x" by simp
    with eq 3 live obtain fs' where
      "fs = paper_fill sq s px (po_remaining_qty x) (pid p n) x (ev_order_id ev) (ev_trader_id ev) ev # fs'"
      "paper_hit_loop sq s px ev ns (remove_paper_order (Some n) (po_remaining_qty x) PO_FILLED
         (l, p\<lparr>paper_orders := hm_put (pid p n) (x\<lparr>po_remaining_qty := 0\<rparr>) (paper_orders p)\<rparr>))
       (T - po_remaining_qty x) (C + po_remaining_qty x) = (res, fs')"
      by (auto split: prod.splits)
    with 3 show thesis by (rule full)
  qed
qed

lemma paper_hit_loop_open:
  assumes "paper_hit_loop sq s px ev ns (l, p) T C = (((l', p'), C'), fs)"
    and "open_wf cap a s px l p" "set ns \<subseteq> set (pl_orders l)" "distinct ns"
  shows "open_wf cap a s px l' p' \<and> same_market l l' \<and> (\<forall>s. p_levels s p' = p_levels s p)"
  using assms
proof (induction ns arbitrary: l p T C fs)
  case Nil
  then show ?case by simp
next
  case (Cons n ns)
  note wf = Cons.prems(2)
  have n: "n \<in> set (pl_orders l)" "n \<notin> set ns" "set ns \<subseteq> set (pl_orders l)" "distinct ns"
    using Cons.prems by auto
  note o = open_order [OF wf n(1)]
  from Cons.prems(1) o(2,3) show ?case
  proof (cases rule: paper_hit_cases)
    case stop
    with wf show ?thesis by simp
  next
    case part
    with partly_filled_open [OF wf n(1)] show ?thesis by auto
  next
    case (full fs')
    let ?p = "p\<lparr>paper_orders := hm_put (pid p n) ((pdata p n)\<lparr>po_remaining_qty := 0\<rparr>) (paper_orders p)\<rparr>"
    obtain l1 p1 where lp: "remove_paper_order (Some n) (po_remaining_qty (pdata p n)) PO_FILLED (l, ?p) = (l1, p1)"
      by fastforce
    have "hm_wf (paper_orders p)" using wf by (simp add: open_wf_def pmaps_wf_def)
    then have "open_wf cap a s px l1 p1 \<and> same_market l l1 \<and> (\<forall>s. p_levels s p1 = p_levels s p) \<and>
        pl_orders l1 = removeAll n (pl_orders l)"
      using remove_paper_order_open [OF wf n(1) _ _ _ _ _ _ _ _ lp, of "(pdata p n)\<lparr>po_remaining_qty := 0\<rparr>"] o(3)
      by (simp add: fun_eq_iff order_live_def)
    moreover from this have "set ns \<subseteq> set (pl_orders l1)" using n by auto
    ultimately show ?thesis
      using Cons.IH [of l1 p1] full(4) n(4) lp same_market_trans by metis
  qed
qed

text \<open>What was consumed is what the fills report, and it stays within the request.\<close>

lemma paper_hit_loop_fills:
  assumes "paper_hit_loop sq s px ev ns (l, p) T C = (((l', p'), C'), fs)"
    and "open_wf cap a s px l p" "set ns \<subseteq> set (pl_orders l)" "distinct ns"
  shows "C' = C + sum_list (map fr_qty_lots fs) \<and> (\<forall>f\<in>set fs. 0 < fr_qty_lots f \<and> fr_price_ticks f = px) \<and>
    sum_list (map fr_qty_lots fs) = min (max 0 T) (sum_list (map (\<lambda>n. po_remaining_qty (pdata p n)) ns))"
  using assms
proof (induction ns arbitrary: l p T C fs)
  case Nil
  then show ?case by auto
next
  case (Cons n ns)
  note wf = Cons.prems(2)
  have n: "n \<in> set (pl_orders l)" "n \<notin> set ns" "set ns \<subseteq> set (pl_orders l)" "distinct ns"
    using Cons.prems by auto
  note o = open_order [OF wf n(1)]
  have pos: "0 < po_remaining_qty (pdata p m)" if "m \<in> set (pl_orders l)" for m
    using open_order(3) [OF wf that] by (simp add: order_live_def)
  have nn: "0 \<le> sum_list (map (\<lambda>n. po_remaining_qty (pdata p n)) ns)"
    using pos n(3) by (intro sum_list_nonneg_int) (meson less_imp_le subsetD)
  note pn = pos [OF n(1)]
  from Cons.prems(1) o(2,3) show ?case
  proof (cases rule: paper_hit_cases)
    case stop
    with nn pn show ?thesis by simp
  next
    case part
    with nn pn show ?thesis by (simp add: paper_fill_def)
  next
    case (full fs')
    let ?p = "p\<lparr>paper_orders := hm_put (pid p n) ((pdata p n)\<lparr>po_remaining_qty := 0\<rparr>) (paper_orders p)\<rparr>"
    obtain l1 p1 where lp: "remove_paper_order (Some n) (po_remaining_qty (pdata p n)) PO_FILLED (l, ?p) = (l1, p1)"
      by fastforce
    have "hm_wf (paper_orders p)" using wf by (simp add: open_wf_def pmaps_wf_def)
    then have st: "open_wf cap a s px l1 p1" "pl_orders l1 = removeAll n (pl_orders l)"
      "\<And>m. m \<noteq> n \<Longrightarrow> m \<in> set (pl_orders l) \<Longrightarrow> pdata p1 m = pdata p m"
      using remove_paper_order_open [OF wf n(1) _ _ _ _ _ _ _ _ lp, of "(pdata p n)\<lparr>po_remaining_qty := 0\<rparr>"] o(3)
      by (simp_all add: fun_eq_iff order_live_def)
    have "set ns \<subseteq> set (pl_orders l1)" using n st(2) by auto
    moreover have "paper_hit_loop sq s px ev ns (l1, p1) (T - po_remaining_qty (pdata p n))
        (C + po_remaining_qty (pdata p n)) = (((l', p'), C'), fs')"
      using full(4) lp by simp
    ultimately have IH: "C' = C + po_remaining_qty (pdata p n) + sum_list (map fr_qty_lots fs') \<and>
        (\<forall>f\<in>set fs'. 0 < fr_qty_lots f \<and> fr_price_ticks f = px) \<and>
        sum_list (map fr_qty_lots fs') =
          min (max 0 (T - po_remaining_qty (pdata p n)))
              (sum_list (map (\<lambda>n. po_remaining_qty (pdata p1 n)) ns))"
      using Cons.IH [OF _ st(1) _ n(4)] by blast
    have "map (\<lambda>n. po_remaining_qty (pdata p1 n)) ns = map (\<lambda>n. po_remaining_qty (pdata p n)) ns"
    proof (rule map_cong [OF refl])
      fix m assume "m \<in> set ns"
      with n have "m \<noteq> n" "m \<in> set (pl_orders l)" by blast+
      from st(3) [OF this] show "po_remaining_qty (pdata p1 m) = po_remaining_qty (pdata p m)" by simp
    qed
    with IH full(1-3) pn nn show ?thesis by (auto simp: paper_fill_def)
  qed
qed

end
