(* ===== verification/PaperWf.thy ===== *)
theory PaperWf
  imports PaperOps
begin

text \<open>
  Every operation of \<open>PaperBook\<close> keeps the invariant of the paper half, and none but the market
  updates writes the market index of a level.
\<close>

section \<open>Frame\<close>

definition mframe :: "Paper \<Rightarrow> Paper \<Rightarrow> bool" where
  "mframe p p' \<longleftrightarrow> (\<forall>s px l'. find_paper_level s px p' = Some l' \<longrightarrow>
     (\<exists>l. find_paper_level s px p = Some l \<and> same_market l l'))"

lemma mframe_refl [simp]: "mframe p p"
  by (simp add: mframe_def)

lemma mframe_trans: "mframe p p' \<Longrightarrow> mframe p' p'' \<Longrightarrow> mframe p p''"
  unfolding mframe_def by (blast intro: same_market_trans)

lemma mframe_close:
  assumes "find_paper_level s px p = Some l" "same_market l l'" "\<And>s. p_levels s p' = p_levels s p"
  shows "mframe p (p_close_level s px l' p')"
  using assms find_level_cong [of p' p] by (auto simp: mframe_def)

lemma mframe_put:
  assumes "find_paper_level s px p = Some l" "same_market l l'" "\<And>s. p_levels s p' = p_levels s p"
  shows "mframe p (p_put_level s px l' p')"
  using assms find_level_cong [of p' p] by (auto simp: mframe_def)

section \<open>Trades\<close>

lemma paper_wf_level:
  assumes "paper_wf cap a p" "find_paper_level s px p = Some l"
  shows "distinct (pl_orders l)" "pl_orders l \<noteq> []"
proof -
  show "distinct (pl_orders l)"
    using pcore_distinct [OF paper_wf_core [OF assms(1)], of s px] assms(2) by (simp add: pq_def)
  show "pl_orders l \<noteq> []" using assms by (simp add: paper_wf_def)
qed

lemma apply_paper_trade_wf:
  assumes wf: "paper_wf cap a p" and r: "apply_paper_trade_at_level sq s px T ev p = (p', fs)"
  shows "paper_wf cap a p' \<and> mframe p p'"
proof (cases "T \<le> 0 \<or> find_paper_level s px p = None")
  case True
  with r wf show ?thesis by (auto simp: apply_paper_trade_at_level_def split: if_splits)
next
  case False
  then obtain l where T: "0 < T" and l: "find_paper_level s px p = Some l" by auto
  obtain l1 p1 where lp: "paper_trade_loop sq s px ev (pl_orders l) (l, p) T 0 = ((l1, p1), fs)"
    and p': "p' = p_close_level s px l1 p1"
    using r T l by (auto simp: apply_paper_trade_at_level_def split: prod.splits)
  from paper_trade_loop_open [OF lp paper_wf_open [OF wf l] _ paper_wf_level(1) [OF wf l]]
  have "open_wf cap a s px l1 p1" "same_market l l1" "\<And>s. p_levels s p1 = p_levels s p" by auto
  then show ?thesis using open_wf_close mframe_close [OF l] by (simp add: p')
qed

lemma trade_against_paper_wf:
  assumes wf: "paper_wf cap a p" and r: "trade_against_paper_level sq s px T ev p = ((c, p'), fs)"
  shows "paper_wf cap a p' \<and> mframe p p'"
proof (cases "T \<le> 0 \<or> find_paper_level s px p = None")
  case True
  with r wf show ?thesis by (auto simp: trade_against_paper_level_def split: if_splits)
next
  case False
  then obtain l where T: "0 < T" and l: "find_paper_level s px p = Some l" by auto
  obtain l1 p1 where lp: "paper_hit_loop sq s px ev (pl_orders l) (l, p) T 0 = (((l1, p1), c), fs)"
    and p': "p' = p_close_level s px l1 p1"
    using r T l by (auto simp: trade_against_paper_level_def split: prod.splits)
  from paper_hit_loop_open [OF lp paper_wf_open [OF wf l] _ paper_wf_level(1) [OF wf l]]
  have "open_wf cap a s px l1 p1" "same_market l l1" "\<And>s. p_levels s p1 = p_levels s p" by auto
  then show ?thesis using open_wf_close mframe_close [OF l] by (simp add: p')
qed

section \<open>The strategy's own changes\<close>

lemma paper_lookup:
  assumes wf: "paper_wf cap a p" and i: "hm_find (paper_order_info p) i = Some info"
  obtains n l where "pi_node info = Some n" "pid p n = i" "n \<in> set (pl_orders l)"
    and "find_paper_level (pi_side info) (pi_price_ticks info) p = Some l"
    and "hm_find (paper_orders p) i = Some (pdata p n)"
    and "open_wf cap a (pi_side info) (pi_price_ticks info) l p"
proof -
  from pcore_index_node [OF paper_wf_core [OF wf] i] obtain n where
    n: "pi_node info = Some n" "n \<in> set (pq p (pi_side info) (pi_price_ticks info))" "pid p n = i"
    by blast
  then obtain l where l: "find_paper_level (pi_side info) (pi_price_ticks info) p = Some l"
    "n \<in> set (pl_orders l)"
    by (cases "find_paper_level (pi_side info) (pi_price_ticks info) p") (simp_all add: pq_def)
  note o = paper_wf_open [OF wf l(1)]
  show thesis
    by (rule that [OF n(1,3) l(2,1) _ o]) (use open_order(2) [OF o l(2)] n(3) in simp)
qed

lemma cancel_paper_wf:
  assumes o: "open_wf cap a (pi_side info) (pi_price_ticks info) l p" and n: "pi_node info = Some n"
    "n \<in> set (pl_orders l)" and l: "find_paper_level (pi_side info) (pi_price_ticks info) p = Some l"
  shows "paper_wf cap a (cancel_paper_order i info q l p) \<and> mframe p (cancel_paper_order i info q l p)"
proof -
  obtain l1 p1 where lp: "remove_paper_order (Some n) q PO_CANCELLED (l, p) = (l1, p1)" by fastforce
  from remove_own_open [OF o n(2) lp] open_wf_close mframe_close [OF l]
  show ?thesis using n(1) lp by (simp add: cancel_paper_order_def)
qed

text \<open>Rewriting the remaining lots of a resting order by \<open>d\<close>.\<close>

definition rewrite_lots :: "Side \<Rightarrow> int \<Rightarrow> PaperOrderLevel \<Rightarrow> int \<Rightarrow> PaperOrder \<Rightarrow> int \<Rightarrow> Paper \<Rightarrow> Paper" where
  "rewrite_lots s px l i x d p = p_put_level s px
     (l\<lparr>pl_queued_lots := pl_queued_lots l + d, pl_paper_qty := fw_add (po_paper_index x) d (pl_paper_qty l)\<rparr>)
     (p\<lparr>paper_orders := hm_put i (x\<lparr>po_remaining_qty := po_remaining_qty x + d\<rparr>) (paper_orders p)\<rparr>)"

lemma rewrite_lots_wf:
  assumes o: "open_wf cap a s px l p" and n: "n \<in> set (pl_orders l)"
    and l: "find_paper_level s px p = Some l" and d: "0 < po_remaining_qty (pdata p n) + d"
  shows "paper_wf cap a (rewrite_lots s px l (pid p n) (pdata p n) d p) \<and>
    mframe p (rewrite_lots s px l (pid p n) (pdata p n) d p)"
proof -
  let ?x = "pdata p n"
  let ?y = "?x\<lparr>po_remaining_qty := po_remaining_qty ?x + d\<rparr>"
  let ?l = "l\<lparr>pl_queued_lots := pl_queued_lots l + d, pl_paper_qty := fw_add (po_paper_index ?x) d (pl_paper_qty l)\<rparr>"
  let ?p = "p\<lparr>paper_orders := hm_put (pid p n) ?y (paper_orders p)\<rparr>"
  have "hm_wf (paper_orders p)" using o by (simp add: open_wf_def pmaps_wf_def)
  then have "open_wf cap a s px ?l ?p"
    using open_order(3) [OF o n] d
    by (intro open_update [OF o n, of ?y _ d]) (auto simp: order_live_def fun_eq_iff)
  moreover have "pl_orders ?l \<noteq> []" using n by auto
  ultimately have "paper_wf cap a (p_put_level s px ?l ?p)" by (rule open_wf_put)
  moreover have "mframe p (p_put_level s px ?l ?p)"
    by (rule mframe_put [OF l]) (simp_all add: same_market_def)
  ultimately show ?thesis by (simp add: rewrite_lots_def)
qed

text \<open>What the three operations come to on a well-formed state.\<close>

lemma reduce_paper_order_eq:
  assumes wf: "paper_wf cap a p" and q: "0 < ev_quantity_lots ev"
    and n: "hm_find (paper_order_info p) (ev_order_id ev) = Some info" "pi_node info = Some n"
      "pid p n = ev_order_id ev"
    and l: "find_paper_level (pi_side info) (pi_price_ticks info) p = Some l" "n \<in> set (pl_orders l)"
  shows "reduce_paper_order ev p =
    (if ev_quantity_lots ev < po_remaining_qty (pdata p n)
     then rewrite_lots (pi_side info) (pi_price_ticks info) l (ev_order_id ev) (pdata p n)
            (- ev_quantity_lots ev) p
     else cancel_paper_order (ev_order_id ev) info (po_remaining_qty (pdata p n)) l p, [])"
proof -
  note o = paper_wf_open [OF wf l(1)]
  have x: "hm_find (paper_orders p) (ev_order_id ev) = Some (pdata p n)" "0 < po_remaining_qty (pdata p n)"
    using open_order(2,3) [OF o l(2)] n(3) by (simp_all add: order_live_def)
  show ?thesis
    using q n l x by (auto simp: reduce_paper_order_def rewrite_lots_def Let_def min_def)
qed

lemma reduce_paper_order_wf:
  assumes wf: "paper_wf cap a p" and r: "reduce_paper_order ev p = (p', ds)"
  shows "paper_wf cap a p' \<and> mframe p p'"
proof (cases "ev_quantity_lots ev \<le> 0 \<or> hm_find (paper_order_info p) (ev_order_id ev) = None")
  case True
  with r wf show ?thesis by (auto simp: reduce_paper_order_def split: if_splits)
next
  case False
  then obtain info where q: "0 < ev_quantity_lots ev"
    and i: "hm_find (paper_order_info p) (ev_order_id ev) = Some info" by auto
  from wf i show ?thesis
  proof (rule paper_lookup)
    fix n l assume n: "pi_node info = Some n" "pid p n = ev_order_id ev" "n \<in> set (pl_orders l)"
      and l: "find_paper_level (pi_side info) (pi_price_ticks info) p = Some l"
      and o: "open_wf cap a (pi_side info) (pi_price_ticks info) l p"
    show ?thesis
      using r reduce_paper_order_eq [OF wf q i n(1,2) l n(3)] cancel_paper_wf [OF o n(1,3) l]
        rewrite_lots_wf [OF o n(3) l, of "- ev_quantity_lots ev"] n(2)
      by (auto split: if_splits)
  qed
qed

lemma set_paper_order_eq:
  assumes wf: "paper_wf cap a p"
    and n: "hm_find (paper_order_info p) i = Some info" "pi_node info = Some n" "pid p n = i"
    and l: "find_paper_level (pi_side info) (pi_price_ticks info) p = Some l" "n \<in> set (pl_orders l)"
  shows "set_paper_order i q p =
    (if q = po_remaining_qty (pdata p n) then p
     else if q \<le> 0 then cancel_paper_order i info (po_remaining_qty (pdata p n)) l p
     else rewrite_lots (pi_side info) (pi_price_ticks info) l i (pdata p n)
            (q - po_remaining_qty (pdata p n)) p)"
proof -
  note o = paper_wf_open [OF wf l(1)]
  have x: "hm_find (paper_orders p) i = Some (pdata p n)" "0 < po_remaining_qty (pdata p n)"
    using open_order(2,3) [OF o l(2)] n(3) by (simp_all add: order_live_def)
  have e: "pl_queued_lots l - (po_remaining_qty (pdata p n) - q) =
      pl_queued_lots l + (q - po_remaining_qty (pdata p n))" by simp
  show ?thesis
    using n l x by (auto simp: set_paper_order_def rewrite_lots_def Let_def e simp del: diff_diff_eq2)
qed

lemma set_paper_order_wf:
  assumes wf: "paper_wf cap a p"
  shows "paper_wf cap a (set_paper_order i q p) \<and> mframe p (set_paper_order i q p)"
proof (cases "hm_find (paper_order_info p) i")
  case None
  with wf show ?thesis by (simp add: set_paper_order_def)
next
  case (Some info)
  from wf Some show ?thesis
  proof (rule paper_lookup)
    fix n l assume n: "pi_node info = Some n" "pid p n = i" "n \<in> set (pl_orders l)"
      and l: "find_paper_level (pi_side info) (pi_price_ticks info) p = Some l"
      and o: "open_wf cap a (pi_side info) (pi_price_ticks info) l p"
    show ?thesis
      using set_paper_order_eq [OF wf Some n(1,2) l n(3)] cancel_paper_wf [OF o n(1,3) l]
        rewrite_lots_wf [OF o n(3) l, of "q - po_remaining_qty (pdata p n)"] n(2) wf
      by (auto split: if_splits)
  qed
qed

lemma delete_paper_order_wf:
  assumes wf: "paper_wf cap a p" and r: "delete_paper_order ev p = (p', ds)"
  shows "paper_wf cap a p' \<and> mframe p p'"
proof (cases "hm_find (paper_order_info p) (ev_order_id ev)")
  case None
  with wf r show ?thesis by (auto simp: delete_paper_order_def)
next
  case (Some info)
  from wf Some show ?thesis
  proof (rule paper_lookup)
    fix n l assume n: "pi_node info = Some n" "pid p n = ev_order_id ev" "n \<in> set (pl_orders l)"
      and l: "find_paper_level (pi_side info) (pi_price_ticks info) p = Some l"
      and x: "hm_find (paper_orders p) (ev_order_id ev) = Some (pdata p n)"
      and o: "open_wf cap a (pi_side info) (pi_price_ticks info) l p"
    show ?thesis
      using r Some l x cancel_paper_wf [OF o n(1,3) l] by (auto simp: delete_paper_order_def)
  qed
qed

section \<open>Market updates\<close>

lemma paper_wf_market:
  assumes wf: "paper_wf cap a p" and l: "find_paper_level s px p = Some l"
    and l': "pl_orders l' = pl_orders l" "pl_queued_lots l' = pl_queued_lots l"
      "pl_paper_qty l' = pl_paper_qty l" "pl_next_paper_index l' = pl_next_paper_index l"
  shows "paper_wf cap a (p_put_level s px l' p)"
proof -
  have q: "set_queue s px (pl_orders l') (pq p) = pq p"
    using l l'(1) by (auto simp: fun_eq_iff pq_def)
  have "level_num l' (rest_of p (pl_orders l'))"
    using level_num_cong [of l "rest_of p (pl_orders l)" _ l'] wf l l' by (simp add: paper_wf_def)
  with wf l l' q show ?thesis by (auto simp: paper_wf_def)
qed

lemma fold_market_delta_paper:
  "pl_orders (fold (\<lambda>(sq, d). add_market_delta sq d) ds l) = pl_orders l \<and>
   pl_queued_lots (fold (\<lambda>(sq, d). add_market_delta sq d) ds l) = pl_queued_lots l \<and>
   pl_paper_qty (fold (\<lambda>(sq, d). add_market_delta sq d) ds l) = pl_paper_qty l \<and>
   pl_next_paper_index (fold (\<lambda>(sq, d). add_market_delta sq d) ds l) = pl_next_paper_index l"
proof (induction ds arbitrary: l)
  case (Cons d ds)
  then show ?case by (cases d) (simp add: add_market_delta_def split: option.splits)
qed simp

lemma p_market_deltas_wf: "paper_wf cap a p \<Longrightarrow> paper_wf cap a (p_market_deltas s px ds p)"
  using paper_wf_market fold_market_delta_paper
  by (simp add: p_market_deltas_def split: option.splits)

lemma push_market_wf:
  "paper_wf cap a p \<Longrightarrow> find_paper_level s px p = Some l \<Longrightarrow>
     paper_wf cap a (p_put_level s px (push_market sq q l) p)"
  by (rule paper_wf_market) (simp_all add: push_market_def Let_def)


section \<open>A new resting order\<close>

lemma index_market_paper:
  "pl_orders (index_market P q i l) = pl_orders l \<and> pl_queued_lots (index_market P q i l) = pl_queued_lots l \<and>
   pl_paper_qty (index_market P q i l) = pl_paper_qty l \<and>
   pl_next_paper_index (index_market P q i l) = pl_next_paper_index l"
  by (induction q arbitrary: i l) (simp_all add: Let_def)

lemma new_paper_level_paper:
  "pl_orders (new_paper_level s px h) = []" "level_num (new_paper_level s px h) []"
  using level_num_cong [OF level_num_default, of "[]" "new_paper_level s px h"] index_market_paper
  by (simp_all add: new_paper_level_def default_PaperOrderLevel_def split: option.splits)

lemma ensure_paper_level_open:
  assumes wf: "paper_wf cap a p" and e: "ensure_paper_level s px h p = (l, p1)"
  shows "open_wf cap a s px l p1 \<and> find_paper_level s px p1 = Some l \<and>
    (\<forall>s' px'. (s', px') \<noteq> (s, px) \<longrightarrow> find_paper_level s' px' p1 = find_paper_level s' px' p) \<and>
    l = (case find_paper_level s px p of None \<Rightarrow> new_paper_level s px h | Some l \<Rightarrow> l) \<and>
    paper_orders p1 = paper_orders p \<and> paper_order_info p1 = paper_order_info p \<and>
    paper_pool p1 = paper_pool p"
proof (cases "find_paper_level s px p")
  case (Some l0)
  with wf e show ?thesis using paper_wf_open by (auto simp: ensure_paper_level_def)
next
  case None
  with e have l: "l = new_paper_level s px h" "p1 = p_put_level s px l p"
    by (auto simp: ensure_paper_level_def Let_def)
  have "set_queue s px [] (pq p) = pq p"
    using None by (auto simp: fun_eq_iff pq_def)
  moreover have "level_num l (rest_of p [])" "pl_orders l = []"
    using new_paper_level_paper l(1) by (simp_all add: rest_of_def)
  ultimately show ?thesis
    using wf None l by (auto simp: open_wf_def paper_wf_def)
qed

lemma p_rest_order_False:
  assumes "paper_wf cap a p" "p_rest_order ev rem a cap h p = (False, p')"
  shows "p' = p \<and> card (np_live (paper_pool p)) = cap"
proof -
  obtain r P where np: "np_acquire default_PaperOrderNode cap (paper_pool p) = (r, P)" by fastforce
  with assms(2) have "r = None" "p' = p\<lparr>paper_pool := P\<rparr>"
    by (auto simp: p_rest_order_def Let_def split: option.splits prod.splits)
  with np np.acquire_None [of cap "paper_pool p"] assms(1) show ?thesis
    by (simp add: paper_wf_def)
qed

lemma p_rest_order_True:
  assumes wf: "paper_wf cap a p" and r: "p_rest_order ev rem a cap h p = (True, p')"
    and rem: "0 < rem" and fresh: "hm_find (paper_order_info p) (ev_order_id ev) = None"
  defines "s \<equiv> ev_side ev" and "px \<equiv> ev_price_ticks ev"
  shows "paper_wf cap (Suc a) p'"
    and "(s', px') \<noteq> (s, px) \<Longrightarrow> find_paper_level s' px' p' = find_paper_level s' px' p"
    and "\<exists>l'. find_paper_level s px p' = Some l' \<and> same_market
      (case find_paper_level s px p of None \<Rightarrow> new_paper_level s px h | Some l \<Rightarrow> l) l'"
    and "hm_find (paper_orders p') (ev_order_id ev) = Some \<lparr>po_original_event = ev,
      po_status = (if rem < ev_quantity_lots ev then PO_PARTIALLY_FILLED else PO_OPEN),
      po_remaining_qty = rem, po_placement_seq = a,
      po_paper_index = (case find_paper_level s px p of None \<Rightarrow> 0 | Some l \<Rightarrow> pl_next_paper_index l)\<rparr>"
proof -
  obtain n P where np: "np_acquire default_PaperOrderNode cap (paper_pool p) = (Some n, P)"
    using r by (auto simp: p_rest_order_def Let_def split: prod.splits option.splits)
  have pool: "np_wf cap (paper_pool p)" using wf by (simp add: paper_wf_def)
  note acq = np.acquire_Some [OF pool np]
  obtain l p0 where e: "ensure_paper_level s px h p = (l, p0)" by fastforce
  note el = ensure_paper_level_open [OF wf e]
  then have o: "open_wf cap a s px l p0" by blast
  have e': "ensure_paper_level s px h (p\<lparr>paper_pool := P\<rparr>) = (l, p0\<lparr>paper_pool := P\<rparr>)"
  proof -
    have "find_paper_level s px (p\<lparr>paper_pool := P\<rparr>) = find_paper_level s px p"
      by (simp add: find_paper_level_def)
    moreover have "p_put_level s px l (p\<lparr>paper_pool := P\<rparr>) = (p_put_level s px l p)\<lparr>paper_pool := P\<rparr>" for l
      by (cases s) (simp_all add: p_put_level_def p_set_levels_def p_levels_def)
    ultimately show ?thesis using e
      by (auto simp: ensure_paper_level_def Let_def split: option.splits)
  qed
  define idx where "idx = pl_next_paper_index l"
  define x where "x = \<lparr>po_original_event = ev,
      po_status = (if rem < ev_quantity_lots ev then PO_PARTIALLY_FILLED else PO_OPEN),
      po_remaining_qty = rem, po_placement_seq = a, po_paper_index = idx\<rparr>"
  define l' where "l' = l\<lparr>pl_next_paper_index := idx + 1,
     pl_paper_qty := fw_add idx rem (fw_ensure_size (idx + 1) (pl_paper_qty l)),
     pl_orders := pl_orders l @ [n], pl_queued_lots := pl_queued_lots l + rem\<rparr>"
  define p2 where "p2 = p0\<lparr>paper_orders := hm_emplace (ev_order_id ev) x (paper_orders p),
     paper_pool := np_set n \<lparr>pn_order_id = ev_order_id ev\<rparr> P,
     paper_order_info := hm_emplace (ev_order_id ev)
       \<lparr>pi_side = s, pi_price_ticks = px, pi_node = Some n\<rparr> (paper_order_info p)\<rparr>"
  have p': "p' = p_put_level s px l' p2"
    using r np e' el
    by (simp add: p_rest_order_def Let_def s_def px_def l'_def p2_def x_def idx_def)
  have fresh': "hm_find (paper_orders p) (ev_order_id ev) = None"
    using pcore_orders [OF paper_wf_core [OF wf]] fresh by blast
  have find2: "find_paper_level s' px' p2 = find_paper_level s' px' p0" for s' px'
    by (simp add: p2_def find_paper_level_def)
  have pid2: "pid p2 m = (if m = n then ev_order_id ev else pid p m)" if "m = n \<or> m \<in> np_live (paper_pool p)" for m
    using np.get_set [of n P "\<lparr>pn_order_id = ev_order_id ev\<rparr>" m] acq that
    by (auto simp: pid_def p2_def)
  have live: "m \<in> np_live (paper_pool p)" "hm_find (paper_orders p) (pid p m) = Some (pdata p m)"
    if "m \<in> set (set_queue s px (pl_orders l) (pq p0) s' px')" for m s' px'
    using pcore_node [OF open_wf_core [OF o] that] el by (auto simp: pdata_def pid_def)
  have data2: "pdata p2 m = pdata p m" if "m \<in> set (set_queue s px (pl_orders l) (pq p0) s' px')" for m s' px'
    using pid2 [of m] live [OF that] acq fresh' by (auto simp: pdata_def p2_def)
  have datan: "pdata p2 n = x" using pid2 [of n] fresh' by (simp add: pdata_def p2_def)
  have data0: "pdata p0 = pdata p" "pid p0 = pid p"
    using el by (simp_all add: pdata_def pid_def fun_eq_iff)
  have num: "level_num l' (rest_of p2 (pl_orders l'))"
  proof (rule level_num_append [OF open_wf_num [OF o] _ idx_def [symmetric]])
    have "rest_of p2 (pl_orders l) = rest_of p0 (pl_orders l)"
      by (rule rest_of_cong) (use data2 [of _ s px] data0 in simp)
    then show "set (rest_of p2 (pl_orders l')) \<subseteq> insert (idx, rem) (set (rest_of p0 (pl_orders l)))"
      using datan by (auto simp: rest_of_def l'_def x_def)
  qed (use rem in \<open>simp_all add: l'_def\<close>)
  have other: "pl_orders m \<noteq> [] \<and> level_num m (rest_of p2 (pl_orders m))"
    if "\<not> (s' = s \<and> px' = px)" "find_paper_level s' px' p2 = Some m" for s' px' m
  proof -
    have f: "find_paper_level s' px' p0 = Some m" using that find2 by simp
    then have "rest_of p2 (pl_orders m) = rest_of p0 (pl_orders m)"
      using that(1) data2 [of _ s' px'] data0 by (intro rest_of_cong) (auto simp: pq_def)
    with o that(1) f show ?thesis by (simp add: open_wf_def)
  qed
  have core: "pcore (set_queue s px (pl_orders l') (pq p2)) (pid p2) (np_live (paper_pool p2))
      (hm_find (paper_order_info p2)) (hm_find (paper_orders p2)) (Suc a)"
  proof -
    have "order_live (Suc a) x" "po_placement_seq x = a" using rem by (simp_all add: order_live_def x_def)
    moreover have "po_paper_index y < po_paper_index x"
      if "m \<in> set (set_queue s px (pl_orders l) (pq p0) s px)" "hm_find (paper_orders p0) (pid p0 m) = Some y" for m y
    proof -
      have "(po_paper_index y, po_remaining_qty y) \<in> set (rest_of p0 (pl_orders l))"
        using that by (force simp: rest_of_def pdata_def)
      with open_wf_num [OF o] show ?thesis by (auto simp: level_num_def x_def idx_def)
    qed
    moreover have "pid p2 m = pid p0 m" if "m \<in> np_live (paper_pool p0)" for m
      using pid2 [of m] that el data0 acq by auto
    moreover have "n \<notin> np_live (paper_pool p0)" using acq el by simp
    ultimately have "pcore (set_queue s px (set_queue s px (pl_orders l) (pq p0) s px @ [n])
        (set_queue s px (pl_orders l) (pq p0))) (pid p2) (insert n (np_live (paper_pool p0)))
      ((hm_find (paper_order_info p0))(ev_order_id ev \<mapsto> \<lparr>pi_side = s, pi_price_ticks = px, pi_node = Some n\<rparr>))
      ((hm_find (paper_orders p0))(ev_order_id ev \<mapsto> x)) (Suc a)"
      using pcore_append [OF open_wf_core [OF o], of n "ev_order_id ev" x s px "pid p2"]
        fresh fresh' el pid2 [of n] by simp
    moreover have "pq p2 = pq p0" by (rule pq_cong) (simp add: p2_def)
    moreover have "np_live (paper_pool p2) = insert n (np_live (paper_pool p0))"
      using acq el by (simp add: p2_def)
    moreover have "hm_find (paper_order_info p2) = (hm_find (paper_order_info p0))
        (ev_order_id ev \<mapsto> \<lparr>pi_side = s, pi_price_ticks = px, pi_node = Some n\<rparr>)"
      "hm_find (paper_orders p2) = (hm_find (paper_orders p0))(ev_order_id ev \<mapsto> x)"
      using fresh fresh' el by (auto simp: p2_def fun_eq_iff)
    ultimately show ?thesis by (simp add: l'_def)
  qed
  have "np_wf cap (paper_pool p2)" using acq by (simp add: p2_def np_wf_set)
  moreover have "pmaps_wf p2" using o el by (simp add: open_wf_def pmaps_wf_def p2_def)
  ultimately have "open_wf cap (Suc a) s px l' p2"
    using core num other unfolding open_wf_def by blast
  then show "paper_wf cap (Suc a) p'" unfolding p' by (rule open_wf_put) (simp add: l'_def)
  show "find_paper_level s' px' p' = find_paper_level s' px' p" if "(s', px') \<noteq> (s, px)"
    using that el find2 by (auto simp: p')
  show "\<exists>l'. find_paper_level s px p' = Some l' \<and> same_market
      (case find_paper_level s px p of None \<Rightarrow> new_paper_level s px h | Some l \<Rightarrow> l) l'"
    using el by (auto simp: p' l'_def same_market_def)
  have "idx = (case find_paper_level s px p of None \<Rightarrow> 0 | Some l \<Rightarrow> pl_next_paper_index l)"
    using el index_market_paper
    by (auto simp: idx_def new_paper_level_def default_PaperOrderLevel_def split: option.splits)
  then show "hm_find (paper_orders p') (ev_order_id ev) = Some \<lparr>po_original_event = ev,
      po_status = (if rem < ev_quantity_lots ev then PO_PARTIALLY_FILLED else PO_OPEN),
      po_remaining_qty = rem, po_placement_seq = a,
      po_paper_index = (case find_paper_level s px p of None \<Rightarrow> 0 | Some l \<Rightarrow> pl_next_paper_index l)\<rparr>"
    using fresh' by (simp add: p' p2_def x_def)
qed

end
