(* ===== verification/MarketLink.thy ===== *)
theory MarketLink
  imports PaperWf
begin

text \<open>
  The link between the two halves: the market index of a paper level mirrors the historical
  queue of the same price. \<open>market_rep\<close> says what the index of a level stands for, a function
  from arrival numbers to lots; \<open>linked\<close> that this function is the one of the historical queue.
  The queue-position number \<open>market_ahead\<close> is then the lots of the historical orders that
  arrived before the paper order.
\<close>

section \<open>Lots of a queue by arrival\<close>

definition qsum :: "(nat \<Rightarrow> OrderNode) \<Rightarrow> nat list \<Rightarrow> nat \<Rightarrow> int" where
  "qsum N q sq = sum_list (map (\<lambda>n. if on_arrival_seq (N n) = sq then on_qty (N n) else 0) q)"

definition dsum :: "(nat \<times> int) list \<Rightarrow> nat \<Rightarrow> int" where
  "dsum ds sq = sum_list (map (\<lambda>(k, d). if k = sq then d else 0) ds)"

lemma qsum_simps [simp]:
  "qsum N [] sq = 0"
  "qsum N (n # q) sq = (if on_arrival_seq (N n) = sq then on_qty (N n) else 0) + qsum N q sq"
  "qsum N (q @ q') sq = qsum N q sq + qsum N q' sq"
  by (simp_all add: qsum_def)

lemma dsum_simps [simp]:
  "dsum [] sq = 0" "dsum ((k, d) # ds) sq = (if k = sq then d else 0) + dsum ds sq"
  "dsum (ds @ es) sq = dsum ds sq + dsum es sq"
  by (simp_all add: dsum_def)

lemma qsum_cong: "(\<And>n. n \<in> set q \<Longrightarrow> N' n = N n) \<Longrightarrow> qsum N' q sq = qsum N q sq"
  unfolding qsum_def by (rule sum_list_map_cong) simp

lemma qsum_absent: "(\<And>n. n \<in> set q \<Longrightarrow> on_arrival_seq (N n) \<noteq> sq) \<Longrightarrow> qsum N q sq = 0"
  by (induction q) auto

lemma qsum_remove:
  "distinct q \<Longrightarrow> n \<in> set q \<Longrightarrow>
     qsum N (removeAll n q) sq = qsum N q sq + dsum [(on_arrival_seq (N n), - on_qty (N n))] sq"
proof (induction q)
  case (Cons m q)
  then show ?case by (cases "m = n") auto
qed simp

lemma qsum_set_qty:
  assumes "distinct q" "n \<in> set q"
  shows "qsum (N(n := (N n)\<lparr>on_qty := v\<rparr>)) q sq = qsum N q sq + dsum [(on_arrival_seq (N n), v - on_qty (N n))] sq"
  using assms
proof (induction q)
  case (Cons m q)
  show ?case
  proof (cases "m = n")
    case True
    with Cons.prems have "qsum (N(n := (N n)\<lparr>on_qty := v\<rparr>)) q sq = qsum N q sq"
      by (intro qsum_cong) auto
    with True show ?thesis by (simp del: fun_upd_apply add: fun_upd_same)
  next
    case False
    with Cons show ?thesis by simp
  qed
qed simp

section \<open>The market index of a level\<close>

definition market_rep :: "PaperOrderLevel \<Rightarrow> nat \<Rightarrow> (nat \<Rightarrow> int) \<Rightarrow> bool" where
  "market_rep l a g \<longleftrightarrow>
     length (pl_market_seqs l) \<le> length (pl_market_qty l) - 1 \<and>
     fw_rep (pl_market_qty l)
       (\<lambda>i. if i < length (pl_market_seqs l) then g (pl_market_seqs l ! i) else 0) \<and>
     sorted_wrt (<) (pl_market_seqs l) \<and> (\<forall>sq \<in> set (pl_market_seqs l). sq < a) \<and>
     (\<forall>sq i. hm_find (pl_market_index_by_seq l) sq = Some i \<longleftrightarrow>
        i < length (pl_market_seqs l) \<and> pl_market_seqs l ! i = sq)"

lemma fw_rep_cong: "fw_rep t f \<Longrightarrow> (\<And>k. f' k = f k) \<Longrightarrow> fw_rep t f'"
  by (metis ext)

lemma market_rep_cong:
  assumes m: "market_rep l a g" and g: "\<And>sq. sq \<in> set (pl_market_seqs l) \<Longrightarrow> g' sq = g sq"
    and s: "same_market l l'" and "a \<le> b"
  shows "market_rep l' b g'"
proof -
  have "fw_rep (pl_market_qty l)
       (\<lambda>i. if i < length (pl_market_seqs l) then g' (pl_market_seqs l ! i) else 0)"
  proof (rule fw_rep_cong)
    show "fw_rep (pl_market_qty l)
        (\<lambda>i. if i < length (pl_market_seqs l) then g (pl_market_seqs l ! i) else 0)"
      using m by (simp add: market_rep_def)
    show "(if k < length (pl_market_seqs l) then g' (pl_market_seqs l ! k) else 0) =
        (if k < length (pl_market_seqs l) then g (pl_market_seqs l ! k) else 0)" for k
      using g by simp
  qed
  moreover have "\<forall>sq \<in> set (pl_market_seqs l). sq < b"
    using m assms(4) by (auto simp: market_rep_def)
  ultimately show ?thesis using m s by (simp add: market_rep_def same_market_def cong: if_cong)
qed

lemma market_rep_index_None:
  "market_rep l a g \<Longrightarrow> hm_find (pl_market_index_by_seq l) sq = None \<Longrightarrow> sq \<notin> set (pl_market_seqs l)"
  unfolding market_rep_def by (metis in_set_conv_nth option.distinct(1))

lemma market_rep_delta:
  assumes m: "market_rep l a g"
  shows "market_rep (add_market_delta sq d l) a (g(sq := g sq + d)) \<and>
    pl_market_seqs (add_market_delta sq d l) = pl_market_seqs l"
proof (cases "hm_find (pl_market_index_by_seq l) sq")
  case None
  have "market_rep l a (g(sq := g sq + d))"
    by (rule market_rep_cong [OF m _ same_market_refl order_refl])
      (use market_rep_index_None [OF m None] in auto)
  with None show ?thesis by (simp add: add_market_delta_def)
next
  case (Some i)
  let ?S = "pl_market_seqs l" and ?l = "l\<lparr>pl_market_qty := fw_add i d (pl_market_qty l)\<rparr>"
  from m Some have i: "i < length ?S" "?S ! i = sq" and len: "length ?S \<le> length (pl_market_qty l) - 1"
    by (auto simp: market_rep_def)
  have "sorted_wrt (<) ?S" using m by (simp add: market_rep_def)
  then have d: "distinct ?S" by (simp add: strict_sorted_iff)
  let ?f = "\<lambda>i. if i < length ?S then g (?S ! i) else 0"
  have rep: "fw_rep (pl_market_qty l) ?f" using m by (simp add: market_rep_def)
  have i': "i < length (pl_market_qty l) - 1" using i(1) len by simp
  have upd: "(if k < length ?S then (g(sq := g sq + d)) (?S ! k) else 0) = (?f(i := ?f i + d)) k" for k
    using i d by (auto simp: nth_eq_iff_index_eq)
  have "fw_rep (fw_add i d (pl_market_qty l))
      (\<lambda>k. if k < length ?S then (g(sq := g sq + d)) (?S ! k) else 0)"
    by (rule fw_rep_cong [OF fw.rep_add [OF rep i', of d] upd])
  moreover have "add_market_delta sq d l = ?l" using Some by (simp add: add_market_delta_def)
  ultimately show ?thesis
    using m len fw.cap_add [of i d "pl_market_qty l"] by (simp add: market_rep_def cong: if_cong)
qed

lemma market_rep_deltas:
  "market_rep l a g \<Longrightarrow> market_rep (fold (\<lambda>(sq, d). add_market_delta sq d) ds l) a (\<lambda>sq. g sq + dsum ds sq) \<and>
     pl_market_seqs (fold (\<lambda>(sq, d). add_market_delta sq d) ds l) = pl_market_seqs l"
proof (induction ds arbitrary: l g)
  case (Cons kd ds)
  obtain k d where kd: "kd = (k, d)" by fastforce
  note m = market_rep_delta [OF Cons.prems, of k d]
  have "(\<lambda>sq. (g(k := g k + d)) sq + dsum ds sq) = (\<lambda>sq. g sq + dsum (kd # ds) sq)"
    by (auto simp: kd)
  with Cons.IH [of "add_market_delta k d l" "g(k := g k + d)"] m show ?case
    by (simp only: kd fold.simps comp_apply prod.case)
qed simp

lemma market_rep_append:
  assumes m: "market_rep l a g" and b: "a \<le> b"
    and l': "pl_market_seqs l' = pl_market_seqs l @ [b]"
      "pl_market_index_by_seq l' = hm_emplace b (length (pl_market_seqs l)) (pl_market_index_by_seq l)"
      "pl_market_qty l' = fw_add (length (pl_market_seqs l)) q
         (fw_ensure_size (Suc (length (pl_market_seqs l))) (pl_market_qty l))"
  shows "market_rep l' (Suc b) (g(b := q))"
proof -
  let ?S = "pl_market_seqs l"
  let ?f = "\<lambda>i. if i < length ?S then g (?S ! i) else 0"
  have len: "length ?S \<le> length (pl_market_qty l) - 1" and rep: "fw_rep (pl_market_qty l) ?f"
    and lt: "\<And>sq. sq \<in> set ?S \<Longrightarrow> sq < b" using m b by (fastforce simp: market_rep_def)+
  have new: "hm_find (pl_market_index_by_seq l) b = None"
  proof (rule ccontr)
    assume "hm_find (pl_market_index_by_seq l) b \<noteq> None"
    then obtain i where "hm_find (pl_market_index_by_seq l) b = Some i" by blast
    with m have "b \<in> set ?S" by (auto simp: market_rep_def)
    with lt [of b] show False by simp
  qed
  let ?t = "fw_ensure_size (Suc (length ?S)) (pl_market_qty l)"
  have cap: "length ?t - 1 = max (length (pl_market_qty l) - 1) (Suc (length ?S))"
    by (rule fw.cap_ensure)
  have upd: "(if k < length (?S @ [b]) then (g(b := q)) ((?S @ [b]) ! k) else 0) =
      (?f(length ?S := ?f (length ?S) + q)) k" for k
    using lt [of "?S ! k"] by (auto simp: nth_append)
  have "fw_rep (pl_market_qty l') (\<lambda>k. if k < length (?S @ [b]) then (g(b := q)) ((?S @ [b]) ! k) else 0)"
    unfolding l'(3) by (rule fw_rep_cong [OF fw.rep_add [OF fw.rep_ensure [OF rep]] upd]) (use cap in simp)
  moreover have "length (pl_market_seqs l') \<le> length (pl_market_qty l') - 1"
    using cap fw.cap_add [of "length ?S" q ?t] l' by simp
  moreover have "sorted_wrt (<) (pl_market_seqs l')"
    using m lt by (simp add: l'(1) sorted_wrt_snoc market_rep_def)
  moreover have "hm_find (pl_market_index_by_seq l') sq = Some i \<longleftrightarrow>
      i < length (pl_market_seqs l') \<and> pl_market_seqs l' ! i = sq" for sq i
  proof -
    have old: "hm_find (pl_market_index_by_seq l) sq = Some i \<longleftrightarrow> i < length ?S \<and> ?S ! i = sq"
      using m by (simp add: market_rep_def)
    have "i < length ?S \<Longrightarrow> ?S ! i \<noteq> b" using lt [of "?S ! i"] by auto
    with old new show ?thesis
      unfolding l' hm_find_emplace by (auto simp: nth_append)
  qed
  moreover have "\<forall>sq \<in> set (pl_market_seqs l'). sq < Suc b"
    using lt by (auto simp: l'(1) less_SucI)
  ultimately show ?thesis unfolding market_rep_def l'(1) by blast
qed

text \<open>The prefix sum over the index is the sum over the arrivals before the given number.\<close>

lemma takeWhile_sorted_nth:
  fixes xs :: "nat list"
  assumes "sorted_wrt (<) xs"
  shows "{i. i < length (takeWhile (\<lambda>x. x < c) xs)} = {i. i < length xs \<and> xs ! i < c}"
  using assms
proof (induction xs)
  case (Cons x xs)
  have "xs ! i > x" if "i < length xs" for i using Cons.prems that by simp
  then have big: "\<not> xs ! i < c" if "\<not> x < c" "i < length xs" for i using that by fastforce
  show ?case
  proof (intro set_eqI)
    fix i
    have "i < length (takeWhile (\<lambda>x. x < c) xs) \<longleftrightarrow> i < length xs \<and> xs ! i < c" for i
      using Cons by (simp add: set_eq_iff)
    then show "i \<in> {i. i < length (takeWhile (\<lambda>x. x < c) (x # xs))} \<longleftrightarrow>
        i \<in> {i. i < length (x # xs) \<and> (x # xs) ! i < c}"
      using big by (cases i) auto
  qed
qed simp

lemma market_rep_ahead:
  assumes m: "market_rep l a g"
  shows "market_ahead l c = (\<Sum>sq \<in> {sq \<in> set (pl_market_seqs l). sq < c}. g sq)"
proof -
  let ?S = "pl_market_seqs l" and ?f = "\<lambda>i. if i < length (pl_market_seqs l) then g (pl_market_seqs l ! i) else 0"
  let ?pos = "length (takeWhile (\<lambda>sq. sq < c) ?S)"
  have len: "length ?S \<le> length (pl_market_qty l) - 1" and rep: "fw_rep (pl_market_qty l) ?f"
    and s: "sorted_wrt (<) ?S"
    using m by (simp_all add: market_rep_def)
  have d: "distinct ?S" using s by (simp add: strict_sorted_iff)
  have "market_ahead l c = fw_sum (pl_market_qty l) ?pos"
  proof (cases "?S = []")
    case True
    then show ?thesis by (simp add: market_ahead_def fw_sum_def fw_sum_loop.simps [of _ 0])
  next
    case False
    then show ?thesis by (simp add: market_ahead_def)
  qed
  also have "\<dots> = (\<Sum>k<?pos. ?f k)"
    by (rule fw_sum_rep [OF rep]) (rule le_trans [OF length_takeWhile_le len])
  also have "{..<?pos} = {i. i < length ?S \<and> ?S ! i < c}"
    using takeWhile_sorted_nth [OF s] by (simp add: lessThan_def)
  also have "(\<Sum>k\<in>{i. i < length ?S \<and> ?S ! i < c}. ?f k) = (\<Sum>k\<in>{i. i < length ?S \<and> ?S ! i < c}. g (?S ! k))"
    by (rule sum.cong) auto
  also have "\<dots> = (\<Sum>sq \<in> (\<lambda>i. ?S ! i) ` {i. i < length ?S \<and> ?S ! i < c}. g sq)"
    using d by (subst sum.reindex) (auto simp: inj_on_def nth_eq_iff_index_eq)
  also have "(\<lambda>i. ?S ! i) ` {i. i < length ?S \<and> ?S ! i < c} = {sq \<in> set ?S. sq < c}"
    by (auto simp: in_set_conv_nth)
  finally show ?thesis .
qed


section \<open>The link\<close>

definition market_link :: "Hist \<Rightarrow> Side \<Rightarrow> int \<Rightarrow> PaperOrderLevel \<Rightarrow> nat \<Rightarrow> bool" where
  "market_link h s px l a \<longleftrightarrow> market_rep l a (qsum (hn h) (hq h s px)) \<and>
     (\<forall>n \<in> set (hq h s px). on_arrival_seq (hn h n) \<in> set (pl_market_seqs l))"

definition linked :: "Hist \<Rightarrow> Paper \<Rightarrow> nat \<Rightarrow> bool" where
  "linked h p a \<longleftrightarrow> (\<forall>s px l. find_paper_level s px p = Some l \<longrightarrow> market_link h s px l a)"

lemma sum_qsum:
  "finite A \<Longrightarrow> (\<Sum>sq\<in>A. qsum N q sq) =
     sum_list (map on_qty (filter (\<lambda>x. on_arrival_seq x \<in> A) (map N q)))"
proof (induction q)
  case (Cons n q)
  have "(\<Sum>sq\<in>A. qsum N (n # q) sq) =
      (\<Sum>sq\<in>A. if on_arrival_seq (N n) = sq then on_qty (N n) else 0) + (\<Sum>sq\<in>A. qsum N q sq)"
    by (simp add: sum.distrib)
  with Cons show ?case by (simp add: sum.delta)
qed simp

theorem market_link_ahead:
  assumes "market_link h s px l a"
  shows "market_ahead l c =
    sum_list (map on_qty (filter (\<lambda>x. on_arrival_seq x < c) (map (hn h) (hq h s px))))"
proof -
  let ?A = "{sq \<in> set (pl_market_seqs l). sq < c}"
  have m: "market_rep l a (qsum (hn h) (hq h s px))"
    and sub: "\<And>n. n \<in> set (hq h s px) \<Longrightarrow> on_arrival_seq (hn h n) \<in> set (pl_market_seqs l)"
    using assms by (simp_all add: market_link_def)
  have "market_ahead l c = (\<Sum>sq\<in>?A. qsum (hn h) (hq h s px) sq)" by (rule market_rep_ahead [OF m])
  also have "\<dots> = sum_list (map on_qty (filter (\<lambda>x. on_arrival_seq x \<in> ?A) (map (hn h) (hq h s px))))"
    by (simp add: sum_qsum)
  also have "filter (\<lambda>x. on_arrival_seq x \<in> ?A) (map (hn h) (hq h s px)) =
      filter (\<lambda>x. on_arrival_seq x < c) (map (hn h) (hq h s px))"
    using sub by (intro filter_cong) auto
  finally show ?thesis .
qed

lemma linked_init: "linked h paper_init a"
  by (simp add: linked_def paper_init_def find_paper_level_def p_levels_def split: Side.splits)

lemma linked_clear: "linked h (paper_clear p) a"
  by (simp add: linked_def paper_clear_def find_paper_level_def p_levels_def split: Side.splits)

lemma market_link_same:
  assumes m: "market_link h s px l a" and l: "same_market l l'" and "a \<le> b"
    and q: "qsum (hn h') (hq h' s px) = qsum (hn h) (hq h s px)"
      "\<And>n. n \<in> set (hq h' s px) \<Longrightarrow>
         on_arrival_seq (hn h' n) \<in> (\<lambda>m. on_arrival_seq (hn h m)) ` set (hq h s px)"
  shows "market_link h' s px l' b"
proof -
  have "market_rep l' b (qsum (hn h') (hq h' s px))"
    using m q(1) by (intro market_rep_cong [OF _ _ l \<open>a \<le> b\<close>]) (auto simp: market_link_def)
  moreover have "on_arrival_seq (hn h' n) \<in> set (pl_market_seqs l')" if "n \<in> set (hq h' s px)" for n
  proof -
    from q(2) [OF that] obtain k where "k \<in> set (hq h s px)" "on_arrival_seq (hn h' n) = on_arrival_seq (hn h k)"
      by auto
    with m l show ?thesis by (simp add: market_link_def same_market_def)
  qed
  ultimately show ?thesis by (simp add: market_link_def)
qed

lemma linked_mono: "linked h p a \<Longrightarrow> a \<le> b \<Longrightarrow> linked h p b"
  unfolding linked_def by (auto intro!: market_link_same [of h _ _ _ a _ b])

lemma linked_mframe: "linked h p a \<Longrightarrow> mframe p p' \<Longrightarrow> linked h p' a"
  unfolding linked_def mframe_def by (blast intro: market_link_same [OF _ _ order_refl])

lemma linked_hist_cong:
  assumes "linked h p a" "hq h' = hq h" "\<And>s px n. n \<in> set (hq h s px) \<Longrightarrow> hn h' n = hn h n"
  shows "linked h' p a"
proof -
  have "qsum (hn h') (hq h s px) = qsum (hn h) (hq h s px)" for s px
    using assms(3) by (intro ext qsum_cong) blast
  with assms show ?thesis
    unfolding linked_def by (auto intro!: market_link_same [of h _ _ _ a _ a h'])
qed

text \<open>A change of one historical queue, with the matching market updates.\<close>

lemma linked_deltas:
  assumes l: "linked h p a"
    and q: "\<And>sq. qsum (hn h') (hq h' s px) sq = qsum (hn h) (hq h s px) sq + dsum ds sq"
      "\<And>n. n \<in> set (hq h' s px) \<Longrightarrow>
         on_arrival_seq (hn h' n) \<in> (\<lambda>m. on_arrival_seq (hn h m)) ` set (hq h s px)"
    and o: "\<And>s' px'. (s', px') \<noteq> (s, px) \<Longrightarrow> hq h' s' px' = hq h s' px'"
      "\<And>s' px' n. (s', px') \<noteq> (s, px) \<Longrightarrow> n \<in> set (hq h s' px') \<Longrightarrow> hn h' n = hn h n"
  shows "linked h' (p_market_deltas s px ds p) a"
  unfolding linked_def
proof (intro allI impI)
  fix s' px' l'
  assume f: "find_paper_level s' px' (p_market_deltas s px ds p) = Some l'"
  show "market_link h' s' px' l' a"
  proof (cases "(s', px') = (s, px)")
    case True
    with f obtain l0 where l0: "find_paper_level s px p = Some l0"
      "l' = fold (\<lambda>(sq, d). add_market_delta sq d) ds l0"
      by (auto simp: p_market_deltas_def split: option.splits)
    have m: "market_link h s px l0 a" using assms(1) l0(1) by (simp add: linked_def)
    then have r: "market_rep l0 a (qsum (hn h) (hq h s px))" by (simp add: market_link_def)
    have e: "qsum (hn h') (hq h' s px) = (\<lambda>sq. qsum (hn h) (hq h s px) sq + dsum ds sq)"
      by (rule ext) (rule q(1))
    have "market_rep l' a (qsum (hn h') (hq h' s px)) \<and> pl_market_seqs l' = pl_market_seqs l0"
      unfolding e l0(2) by (rule market_rep_deltas [OF r])
    moreover have "on_arrival_seq (hn h' n) \<in> set (pl_market_seqs l0)" if "n \<in> set (hq h' s px)" for n
      using q(2) [OF that] m by (auto simp: market_link_def)
    ultimately show ?thesis using True by (simp add: market_link_def)
  next
    case False
    with f have f0: "find_paper_level s' px' p = Some l'"
      by (auto simp: p_market_deltas_def split: option.splits)
    have "qsum (hn h') (hq h s' px') = qsum (hn h) (hq h s' px')"
      using o(2) [OF False] by (intro ext qsum_cong) blast
    with l f0 o [OF False] show ?thesis
      unfolding linked_def by (auto intro!: market_link_same [of h _ _ _ a _ a h'])
  qed
qed

text \<open>A new historical order, pushed onto the market index of its level when there is one.\<close>

lemma market_link_push:
  assumes m: "market_link h s px l a"
    and q: "hq h' s px = hq h s px @ [n]" "on_arrival_seq (hn h' n) = a" "on_qty (hn h' n) = v"
      "\<And>k. k \<in> set (hq h s px) \<Longrightarrow> hn h' k = hn h k \<and> on_arrival_seq (hn h k) < a"
  shows "market_link h' s px (push_market a v l) (Suc a)"
proof -
  have r: "market_rep l a (qsum (hn h) (hq h s px))" using m by (simp add: market_link_def)
  have "qsum (hn h') (hq h s px) sq = qsum (hn h) (hq h s px) sq" for sq
    using q(4) by (intro qsum_cong) blast
  moreover have "qsum (hn h) (hq h s px) a = 0" using q(4) by (intro qsum_absent) fastforce
  ultimately have e: "qsum (hn h') (hq h' s px) = (qsum (hn h) (hq h s px))(a := v)"
    using q(1-3) by (auto simp: fun_eq_iff)
  have "market_rep (push_market a v l) (Suc a) (qsum (hn h') (hq h' s px))"
    unfolding e by (rule market_rep_append [OF r order_refl]) (simp_all add: push_market_def Let_def)
  then show ?thesis
    using m q by (auto simp: market_link_def push_market_def Let_def)
qed

text \<open>A level created for a paper order starts in step with the historical queue.\<close>

lemma index_market_rep:
  assumes "market_rep l b g" "\<forall>sq \<ge> b. g sq = 0" "i = length (pl_market_seqs l)" "b \<le> a"
    and "sorted_wrt (\<lambda>m n. on_arrival_seq (np_get P m) < on_arrival_seq (np_get P n)) q"
    and "\<forall>n \<in> set q. b \<le> on_arrival_seq (np_get P n) \<and> on_arrival_seq (np_get P n) < a"
  shows "market_rep (index_market P q i l) a (\<lambda>sq. g sq + qsum (np_get P) q sq) \<and>
    pl_market_seqs (index_market P q i l) = pl_market_seqs l @ map (\<lambda>n. on_arrival_seq (np_get P n)) q"
  using assms
proof (induction q arbitrary: l b g i)
  case Nil
  then show ?case
    using market_rep_cong [OF Nil.prems(1), of g l a] by simp
next
  case (Cons n q)
  let ?sq = "on_arrival_seq (np_get P n)" and ?v = "on_qty (np_get P n)"
  let ?l = "l\<lparr>pl_market_seqs := pl_market_seqs l @ [?sq],
    pl_market_index_by_seq := hm_emplace ?sq i (pl_market_index_by_seq l),
    pl_market_qty := fw_add i ?v (fw_ensure_size (i + 1) (pl_market_qty l))\<rparr>"
  have sq: "b \<le> ?sq" "?sq < a" using Cons.prems(6) by simp_all
  have g: "g ?sq = 0" using Cons.prems(2) sq(1) by simp
  have m: "market_rep ?l (Suc ?sq) (g(?sq := ?v))"
    by (rule market_rep_append [OF Cons.prems(1) sq(1)]) (simp_all add: Cons.prems(3))
  have z: "\<forall>sq' \<ge> Suc ?sq. (g(?sq := ?v)) sq' = 0" using Cons.prems(2) sq(1) by auto
  have i: "Suc i = length (pl_market_seqs ?l)" by (simp add: Cons.prems(3))
  have le: "Suc ?sq \<le> a" using sq by simp
  have q: "sorted_wrt (\<lambda>m n. on_arrival_seq (np_get P m) < on_arrival_seq (np_get P n)) q"
    "\<forall>m \<in> set q. Suc ?sq \<le> on_arrival_seq (np_get P m) \<and> on_arrival_seq (np_get P m) < a"
    using Cons.prems(5,6) by (simp_all add: Suc_le_eq)
  from Cons.IH [OF m z i le q]
  have "market_rep (index_market P q (Suc i) ?l) a (\<lambda>sq. (g(?sq := ?v)) sq + qsum (np_get P) q sq) \<and>
      pl_market_seqs (index_market P q (Suc i) ?l) =
        pl_market_seqs ?l @ map (\<lambda>n. on_arrival_seq (np_get P n)) q" .
  moreover have "(\<lambda>sq. (g(?sq := ?v)) sq + qsum (np_get P) q sq) = (\<lambda>sq. g sq + qsum (np_get P) (n # q) sq)"
    using g by auto
  ultimately show ?case by (simp add: Let_def)
qed

lemma market_rep_empty:
  "market_rep (default_PaperOrderLevel\<lparr>pl_market_qty := fw_ensure_size k []\<rparr>) a (\<lambda>_. 0)"
proof -
  have "fw_rep (fw_ensure_size k []) (\<lambda>_. 0)"
    by (rule fw.rep_ensure) (simp add: fw_rep_def)
  then show ?thesis by (simp add: market_rep_def default_PaperOrderLevel_def)
qed

lemma market_link_new:
  assumes wf: "hist_wf cap a h"
  shows "market_link h s px (new_paper_level s px h) a"
proof (cases "hm_find (h_book s h) px")
  case None
  have "market_rep default_PaperOrderLevel a (\<lambda>_. 0)"
    by (simp add: market_rep_def default_PaperOrderLevel_def fw_rep_def)
  moreover have "qsum (hn h) [] = (\<lambda>_. 0)" by auto
  ultimately show ?thesis
    using None by (simp add: market_link_def new_paper_level_def hq_find)
next
  case (Some q)
  note c = hist_wf_core [OF wf]
  have q: "hq h s px = q" using Some by (simp add: hq_find)
  have N: "hn h = np_get (order_pool h)" by (simp add: hn_def fun_eq_iff)
  have "sorted_wrt (\<lambda>m n. on_arrival_seq (hn h m) < on_arrival_seq (hn h n)) q"
    "\<forall>n \<in> set q. on_arrival_seq (hn h n) < a"
    using c q by (auto simp: core_def core_queues_def core_nodes_def)
  then have "market_rep (new_paper_level s px h) a (\<lambda>sq. 0 + qsum (hn h) q sq) \<and>
      pl_market_seqs (new_paper_level s px h) = [] @ map (\<lambda>n. on_arrival_seq (hn h n)) q"
    using index_market_rep [OF market_rep_empty [of "length q" 0], of 0 a "order_pool h" q] Some
    by (simp add: new_paper_level_def N default_PaperOrderLevel_def)
  then show ?thesis by (simp add: market_link_def q)
qed

end
