(* ===== verification/EngineInv.thy ===== *)
theory EngineInv
  imports Engine MarketLink
begin

text \<open>
  The invariant of the whole engine and its preservation by every handler: both halves are well
  formed and the market index of every paper level mirrors the historical queue of its price.
\<close>

definition sim_wf :: "Sim \<Rightarrow> bool" where
  "sim_wf st \<longleftrightarrow>
     hist_wf (historical_capacity st) (order_arrival_seq st) (hist st) \<and>
     paper_wf (paper_capacity st) (order_arrival_seq st) (paper st) \<and>
     linked (hist st) (paper st) (order_arrival_seq st)"

section \<open>Frames\<close>

lemma emit_simps [simp, frame_simps]:
  "paper (emit_call c st) = paper st" "paper (emit_fills fs st) = paper st"
  "paper (emit_diagnostic event code sev st) = paper st"
  "order_arrival_seq (emit_call c st) = order_arrival_seq st"
  "order_arrival_seq (emit_fills fs st) = order_arrival_seq st"
  "order_arrival_seq (emit_diagnostic event code sev st) = order_arrival_seq st"
  "historical_capacity (emit_call c st) = historical_capacity st"
  "historical_capacity (emit_fills fs st) = historical_capacity st"
  "historical_capacity (emit_diagnostic event code sev st) = historical_capacity st"
  "paper_capacity (emit_call c st) = paper_capacity st"
  "paper_capacity (emit_fills fs st) = paper_capacity st"
  "paper_capacity (emit_diagnostic event code sev st) = paper_capacity st"
  "seq (emit_call c st) = seq st" "seq (emit_fills fs st) = seq st"
  "seq (emit_diagnostic event code sev st) = seq st"
  "sink (emit_call c st) = sink st" "sink (emit_fills fs st) = sink st"
  "sink (emit_diagnostic event code sev st) = sink st"
  by (simp_all add: emit_call_def emit_fills_def emit_diagnostic_def)

lemma emit_diags_simps [simp, frame_simps]:
  "hist (emit_diags event ds st) = hist st" "paper (emit_diags event ds st) = paper st"
  "order_arrival_seq (emit_diags event ds st) = order_arrival_seq st"
  "historical_capacity (emit_diags event ds st) = historical_capacity st"
  "paper_capacity (emit_diags event ds st) = paper_capacity st"
  "seq (emit_diags event ds st) = seq st" "sink (emit_diags event ds st) = sink st"
  by (induction ds arbitrary: st) (auto simp: emit_diags_def split: prod.splits)

lemma diag_if_simps [simp, frame_simps]:
  "hist (diag_if b event code sev st) = hist st" "paper (diag_if b event code sev st) = paper st"
  "order_arrival_seq (diag_if b event code sev st) = order_arrival_seq st"
  "historical_capacity (diag_if b event code sev st) = historical_capacity st"
  "paper_capacity (diag_if b event code sev st) = paper_capacity st"
  "seq (diag_if b event code sev st) = seq st" "sink (diag_if b event code sev st) = sink st"
  by (simp_all add: diag_if_def)

text \<open>What the invariant reads: two states that agree there are well formed together.\<close>

definition same_books :: "Sim \<Rightarrow> Sim \<Rightarrow> bool" where
  "same_books st st' \<longleftrightarrow> hist st' = hist st \<and> paper st' = paper st \<and>
     order_arrival_seq st' = order_arrival_seq st \<and>
     historical_capacity st' = historical_capacity st \<and> paper_capacity st' = paper_capacity st"

lemma sim_wf_same: "same_books st st' \<Longrightarrow> sim_wf st' = sim_wf st"
  by (simp add: same_books_def sim_wf_def)

lemma sim_wf_emit [simp]:
  "sim_wf (emit_call c st) = sim_wf st" "sim_wf (emit_fills fs st) = sim_wf st"
  "sim_wf (emit_diagnostic event code sev st) = sim_wf st" "sim_wf (emit_diags event ds st) = sim_wf st"
  "sim_wf (diag_if b event code sev st) = sim_wf st"
  "sim_wf (st\<lparr>seq := n\<rparr>) = sim_wf st"
  by (rule sim_wf_same, simp add: same_books_def)+

lemma sim_wf_paper:
  assumes "sim_wf st" "paper_wf (paper_capacity st) (order_arrival_seq st) p" "mframe (paper st) p"
  shows "sim_wf (st\<lparr>paper := p\<rparr>)"
  using assms linked_mframe by (auto simp: sim_wf_def)

section \<open>Cleaning a heap\<close>

lemma clean_heap:
  assumes wf: "sim_wf st"
    and b: "best_opposite_price s (h_book s (hist st)) (h_heap s (hist st)) = (best, heap')"
  shows "sim_wf (st\<lparr>hist := h_set_heap s heap' (hist st)\<rparr>)"
proof -
  have "linked (h_set_heap s heap' (hist st)) (paper st) (order_arrival_seq st)"
    by (rule linked_hist_cong [of "hist st"]) (use wf in \<open>simp_all add: sim_wf_def\<close>)
  with wf hist_wf_set_heap [OF _ b] show ?thesis by (simp add: sim_wf_def)
qed

section \<open>Matching one level\<close>

lemma consume_level_info:
  "consume_level sq ev px q r = (q', r') \<Longrightarrow> hm_find (order_info (lr_hist r)) i = None \<Longrightarrow>
     hm_find (order_info (lr_hist r')) i = None"
proof (induction q arbitrary: r)
  case (Cons n q)
  from Cons.prems(1) show ?case
    by (cases rule: consume_level_cases) (use Cons.prems(2) Cons.IH in auto)
qed auto

lemma consume_level_books:
  "consume_level sq ev px q r = (q', r') \<Longrightarrow> (\<And>s. hm_wf (h_book s (lr_hist r))) \<Longrightarrow>
     hm_wf (h_book s (lr_hist r'))"
  using consume_level_frame by metis

text \<open>What the market index must be told: the deltas account for the change of the queue.\<close>

lemma consume_level_qsum:
  assumes "consume_level sq ev px q r = (q', r')" and "distinct q"
    and "\<forall>n \<in> set q. n \<in> np_live (order_pool (lr_hist r)) \<and> 0 < on_qty (hn (lr_hist r) n)"
    and "np_wf cap (order_pool (lr_hist r))"
  shows "\<exists>ds. lr_deltas r' = lr_deltas r @ ds \<and>
    (\<forall>k. qsum (hn (lr_hist r')) q' k = qsum (hn (lr_hist r)) q k + dsum ds k) \<and> set q' \<subseteq> set q \<and>
    (\<forall>n \<in> set q'. on_arrival_seq (hn (lr_hist r') n) = on_arrival_seq (hn (lr_hist r) n))"
  using assms
proof (induction q arbitrary: r)
  case Nil
  then show ?case by auto
next
  case (Cons n q)
  let ?h = "lr_hist r"
  have node: "run_node n r = hn ?h n" by (simp add: run_node_def hn_def)
  have n: "n \<in> np_live (order_pool ?h)" "0 < on_qty (hn ?h n)" "n \<notin> set q" "distinct q"
    using Cons.prems by auto
  from Cons.prems(1) show ?case
  proof (cases rule: consume_level_cases)
    case stop
    then show ?thesis by simp
  next
    case drop
    with n node show ?thesis by simp
  next
    case take_all
    let ?r = "run_drop n (run_take sq ev px n (on_qty (run_node n r)) r)"
    have pool: "np_live (order_pool (lr_hist ?r)) = np_live (order_pool ?h) - {n}"
      "np_wf cap (order_pool (lr_hist ?r))"
      using np.release_live [OF np_wf_set [OF Cons.prems(4)], of n n] n by simp_all
    have hn: "hn (lr_hist ?r) m = hn ?h m" if "m \<in> set q" for m
      using that n by (auto simp: hn_set_qty)
    have "\<exists>ds. lr_deltas r' = lr_deltas ?r @ ds \<and>
        (\<forall>k. qsum (hn (lr_hist r')) q' k = qsum (hn (lr_hist ?r)) q k + dsum ds k) \<and> set q' \<subseteq> set q \<and>
        (\<forall>n \<in> set q'. on_arrival_seq (hn (lr_hist r') n) = on_arrival_seq (hn (lr_hist ?r) n))"
      by (rule Cons.IH [OF take_all(3)]) (use Cons.prems n pool hn in auto)
    then obtain ds where ds: "lr_deltas r' = lr_deltas ?r @ ds"
      "\<And>k. qsum (hn (lr_hist r')) q' k = qsum (hn (lr_hist ?r)) q k + dsum ds k" "set q' \<subseteq> set q"
      "\<And>n. n \<in> set q' \<Longrightarrow> on_arrival_seq (hn (lr_hist r') n) = on_arrival_seq (hn (lr_hist ?r) n)"
      by blast
    let ?ds = "(on_arrival_seq (hn ?h n), - on_qty (hn ?h n)) # ds"
    have "qsum (hn (lr_hist ?r)) q k = qsum (hn ?h) q k" for k by (rule qsum_cong) (rule hn)
    then have "qsum (hn (lr_hist r')) q' k = qsum (hn ?h) (n # q) k + dsum ?ds k" for k
      using ds(2) by simp
    moreover have "lr_deltas r' = lr_deltas r @ ?ds" using ds(1) node by simp
    moreover have "on_arrival_seq (hn (lr_hist r') m) = on_arrival_seq (hn ?h m)" if "m \<in> set q'" for m
    proof -
      have "m \<in> set q" using that ds(3) by blast
      from ds(4) [OF that] hn [OF this] show ?thesis by simp
    qed
    ultimately show ?thesis using ds(3) by (intro exI [of _ ?ds]) auto
  next
    case take_part
    let ?v = "on_qty (run_node n r) - lr_remaining r"
    have e: "hn (lr_hist r') = (hn ?h)(n := (hn ?h n)\<lparr>on_qty := ?v\<rparr>)"
      using take_part(4) n(1) by (simp add: hn_set_qty)
    have "qsum (hn (lr_hist r')) (n # q) k =
        qsum (hn ?h) (n # q) k + dsum [(on_arrival_seq (hn ?h n), ?v - on_qty (hn ?h n))] k" for k
      unfolding e by (rule qsum_set_qty) (use n in auto)
    moreover have "?v - on_qty (hn ?h n) = - lr_remaining r" by (simp add: node)
    ultimately have "qsum (hn (lr_hist r')) q' k =
        qsum (hn ?h) (n # q) k + dsum [(on_arrival_seq (hn ?h n), - lr_remaining r)] k" for k
      by (simp only: take_part(3))
    moreover have "lr_deltas r' = lr_deltas r @ [(on_arrival_seq (hn ?h n), - lr_remaining r)]"
      using take_part(4) node by simp
    moreover have "on_arrival_seq (hn (lr_hist r') m) = on_arrival_seq (hn ?h m)" for m
      using e by simp
    ultimately show ?thesis using take_part(3) by blast
  qed
qed

lemma level_close_self:
  assumes "hist_wf cap a h"
  shows "hist_wf cap a (h_close_level s px (hq h s px) h)"
  by (rule hist_wf_cong [OF assms])
    (use assms in \<open>auto simp: hist_wf_def maps_wf_def fun_eq_iff\<close>)

lemma match_one_level_wf:
  assumes wf: "sim_wf st" and m: "match_one_level event px rem st = (rem', st')"
    and q: "hq (hist st) (opposite (ev_side event)) px \<noteq> []" and rem: "0 < rem"
  defines "s \<equiv> opposite (ev_side event)"
  shows "sim_wf st'"
    and "\<exists>q'. hq (hist st') = set_queue s px q' (hq (hist st)) \<and> set q' \<subseteq> set (hq (hist st) s px) \<and>
           (q' \<noteq> [] \<longrightarrow> rem' \<le> 0)"
    and "no_empty_level (hist st) \<Longrightarrow> no_empty_level (hist st')"
    and "hm_find (order_info (hist st)) i = None \<Longrightarrow> hm_find (order_info (hist st')) i = None"
    and "order_arrival_seq st' = order_arrival_seq st" "historical_capacity st' = historical_capacity st"
      "paper_capacity st' = paper_capacity st" "seq st' = seq st" "sink st' = sink st"
    and "rem' = rem - sum_list (map fst (greedy rem (map (hn (hist st)) (hq (hist st) s px))))"
proof -
  let ?h = "hist st" and ?q = "hq (hist st) s px" and ?a = "order_arrival_seq st"
  let ?g = "greedy rem (map (hn ?h) ?q)"
  have hw: "hist_wf (historical_capacity st) ?a ?h" using wf by (simp add: sim_wf_def)
  note c = hist_wf_core [OF hw] and pool = hist_wf_pool [OF hw]
  have books: "hm_wf (h_book s' ?h)" for s' using hw by (simp add: hist_wf_def maps_wf_def)
  define r0 where "r0 = \<lparr>lr_hist = ?h, lr_remaining = rem, lr_traded = 0, lr_deltas = [], lr_fills = []\<rparr>"
  obtain q' r where r: "consume_level (seq st) event px ?q r0 = (q', r)" by fastforce
  let ?h' = "h_close_level s px q' (lr_hist r)"
  have live: "\<forall>n \<in> set ?q. n \<in> np_live (order_pool (lr_hist r0)) \<and> 0 < on_qty (hn (lr_hist r0) n)"
    using core_live [OF c] core_qty_pos [OF c] by (auto simp: r0_def)
  have dist: "distinct ?q" by (rule core_distinct [OF c])
  have pool0: "np_wf (historical_capacity st) (order_pool (lr_hist r0))" using pool by (simp add: r0_def)
  note g = consume_level_greedy [OF r dist live pool0]
  obtain ds where ds: "lr_deltas r = ds"
    "\<And>k. qsum (hn (lr_hist r)) q' k = qsum (hn ?h) ?q k + dsum ds k" "set q' \<subseteq> set ?q"
    "\<And>n. n \<in> set q' \<Longrightarrow> on_arrival_seq (hn (lr_hist r) n) = on_arrival_seq (hn ?h n)"
    using consume_level_qsum [OF r dist live pool0] by (auto simp: r0_def)
  obtain n q1 where nq: "?q = n # q1" using q unfolding s_def by (cases "hq ?h (opposite (ev_side event)) px") auto
  have pos: "0 < lr_traded r"
  proof -
    have "\<And>x. x \<in> set (map (hn ?h) ?q) \<Longrightarrow> 0 < on_qty x" using live by (auto simp: r0_def)
    from sum_greedy [of "map (hn ?h) ?q" rem, OF this] rem
    have "sum_list (map fst ?g) = min rem (sum_list (map on_qty (map (hn ?h) ?q)))" by simp
    moreover have "0 \<le> sum_list (map on_qty (map (hn ?h) q1))"
    proof (rule sum_list_nonneg_int)
      fix x assume "x \<in> set (map (hn ?h) q1)"
      then have "0 < on_qty x" using live nq by (auto simp: r0_def)
      then show "0 \<le> on_qty x" by simp
    qed
    moreover have "0 < on_qty (hn ?h n)" using live nq by (simp add: r0_def)
    ultimately show ?thesis using g rem nq by (simp add: r0_def)
  qed
  have hq': "h_book s' (lr_hist r) = h_book s' ?h" "h_heap s' (lr_hist r) = h_heap s' ?h" for s'
    using consume_level_frame [OF r] by (simp_all add: r0_def)
  have hist': "hist_wf (historical_capacity st) ?a ?h'"
    by (rule consume_level_wf [OF r]) (use level_close_self [OF hw] books in \<open>simp_all add: r0_def\<close>)
  obtain p fs where p: "apply_paper_trade_at_level (seq st) s px (lr_traded r) event (paper st) = (p, fs)"
    by fastforce
  have pw: "paper_wf (paper_capacity st) ?a (paper st)" using wf by (simp add: sim_wf_def)
  from apply_paper_trade_wf [OF pw p] have pw': "paper_wf (paper_capacity st) ?a p" "mframe (paper st) p"
    by simp_all
  have hl: "hq (lr_hist r) = hq ?h" using hq' by (simp add: hq_def fun_eq_iff)
  have st': "hist st' = ?h'" "paper st' = p_market_deltas s px ds p" "rem' = lr_remaining r"
    "order_arrival_seq st' = ?a" "historical_capacity st' = historical_capacity st"
    "paper_capacity st' = paper_capacity st" "seq st' = seq st" "sink st' = sink st"
    using m r p pos ds(1) hq'
    by (auto simp: match_one_level_def s_def [symmetric] r0_def hq_def [symmetric] Let_def h_close_level_def)
  have "linked ?h' (p_market_deltas s px ds p) ?a"
  proof (rule linked_deltas [OF linked_mframe [OF _ pw'(2)]])
    show "linked ?h (paper st) ?a" using wf by (simp add: sim_wf_def)
    show "qsum (hn ?h') (hq ?h' s px) sq = qsum (hn ?h) (hq ?h s px) sq + dsum ds sq" for sq
      using ds(2) by simp
    show "on_arrival_seq (hn ?h' n) \<in> (\<lambda>m. on_arrival_seq (hn ?h m)) ` set (hq ?h s px)"
      if "n \<in> set (hq ?h' s px)" for n
      using that ds(3,4) by auto
    show "hq ?h' s' px' = hq ?h s' px'" if "(s', px') \<noteq> (s, px)" for s' px'
      using that hl by auto
    show "hn ?h' n = hn ?h n" if "(s', px') \<noteq> (s, px)" "n \<in> set (hq ?h s' px')" for s' px' n
    proof -
      have "n \<notin> set ?q" using core_unique [OF c, of n s' px' s px] that by auto
      from consume_level_frame_nodes [OF r this _ dist pool0] live show ?thesis by (auto simp: r0_def)
    qed
  qed
  with hist' p_market_deltas_wf [OF pw'(1)] show "sim_wf st'" by (simp add: sim_wf_def st')
  have "hq ?h' = set_queue s px q' (hq ?h)" using hl by simp
  then show "\<exists>q'. hq (hist st') = set_queue s px q' (hq (hist st)) \<and> set q' \<subseteq> set (hq (hist st) s px) \<and>
      (q' \<noteq> [] \<longrightarrow> rem' \<le> 0)"
    using ds(3) g st'(1,3) by auto
  show "no_empty_level ?h \<Longrightarrow> no_empty_level (hist st')"
    using no_empty_close_level [of "lr_hist r" s px q'] hq' by (simp add: st' no_empty_level_def)
  show "hm_find (order_info ?h) i = None \<Longrightarrow> hm_find (order_info (hist st')) i = None"
    using consume_level_info [OF r, of i] by (simp add: st' r0_def)
  show "rem' = rem - sum_list (map fst ?g)" using g by (simp add: st' r0_def)
  show "order_arrival_seq st' = ?a" "historical_capacity st' = historical_capacity st"
    "paper_capacity st' = paper_capacity st" "seq st' = seq st" "sink st' = sink st"
    by (rule st')+
qed


section \<open>The matching loop\<close>

lemma crosses_best:
  assumes "heap_key (opposite (ev_side ev)) px' \<le> heap_key (opposite (ev_side ev)) px"
    and "\<not> price_crosses ev px"
  shows "\<not> price_crosses ev px'"
  using assms by (cases "ev_side ev") (auto simp: heap_key_def price_crosses_def)

text \<open>No live price of the opposite side is within the aggressor's limit.\<close>

definition exhausted :: "NormalizedLobEvent \<Rightarrow> Hist \<Rightarrow> bool" where
  "exhausted ev h \<longleftrightarrow> (\<forall>px. hq h (opposite (ev_side ev)) px \<noteq> [] \<longrightarrow> \<not> price_crosses ev px)"

lemma exhausted_best:
  assumes wf: "sim_wf st"
    and b: "best_opposite_price s (h_book s (hist st)) (h_heap s (hist st)) = (best, heap')"
    and s: "s = opposite (ev_side ev)"
    and n: "\<And>px. best = Some px \<Longrightarrow> \<not> price_crosses ev px"
  shows "exhausted ev (h_set_heap s' heap' (hist st))"
proof -
  have "heap_covers (hist st)" using wf by (simp add: sim_wf_def hist_wf_def)
  note best = best_opposite_price_best [OF this b]
  show ?thesis
  proof (cases best)
    case None
    with best show ?thesis by (simp add: exhausted_def s)
  next
    case (Some px)
    with best have "heap_key s px' \<le> heap_key s px" if "hq (hist st) s px' \<noteq> []" for px'
      using that by simp
    with n [OF Some] show ?thesis using crosses_best [of ev _ px] by (auto simp: exhausted_def s)
  qed
qed

definition keeps :: "Side \<Rightarrow> Sim \<Rightarrow> Sim \<Rightarrow> bool" where
  \<comment> \<open>what an aggressor on the book of side \<open>s\<close> does not touch\<close>
  "keeps s st st' \<longleftrightarrow> order_arrival_seq st' = order_arrival_seq st \<and>
     historical_capacity st' = historical_capacity st \<and> paper_capacity st' = paper_capacity st \<and>
     seq st' = seq st \<and> sink st' = sink st \<and>
     hq (hist st') (opposite s) = hq (hist st) (opposite s) \<and>
     (\<forall>px. hq (hist st') s px \<noteq> [] \<longrightarrow> hq (hist st) s px \<noteq> []) \<and>
     (no_empty_level (hist st) \<longrightarrow> no_empty_level (hist st')) \<and>
     (\<forall>i. hm_find (order_info (hist st)) i = None \<longrightarrow> hm_find (order_info (hist st')) i = None)"

lemma keeps_trans: "keeps s st st' \<Longrightarrow> keeps s st' st'' \<Longrightarrow> keeps s st st''"
  by (simp add: keeps_def)

lemma keeps_heap: "keeps s st (st\<lparr>hist := h_set_heap s' x (hist st)\<rparr>)"
  by (simp add: keeps_def no_empty_level_def)

lemma keeps_paper: "keeps s st (emit_fills fs (st\<lparr>paper := p\<rparr>))"
  by (simp add: keeps_def)

lemma keeps_match_one_level:
  assumes "sim_wf st" "match_one_level event px rem st = (rem', st')"
    and "hq (hist st) (opposite (ev_side event)) px \<noteq> []" "0 < rem"
  shows "keeps (opposite (ev_side event)) st st'"
proof -
  note m = match_one_level_wf [OF assms]
  from m(2) obtain q' where q': "hq (hist st') = set_queue (opposite (ev_side event)) px q' (hq (hist st))"
    "set q' \<subseteq> set (hq (hist st) (opposite (ev_side event)) px)" by blast
  have "hq (hist st') (ev_side event) = hq (hist st) (ev_side event)" using q'(1) by (auto simp: fun_eq_iff)
  with q' m(3-9) assms(3) show ?thesis by (simp add: keeps_def)
qed

lemma match_loop_wf:
  assumes "match_loop event rem st = (rem', st')" "sim_wf st"
  shows "sim_wf st' \<and> keeps (opposite (ev_side event)) st st' \<and> (0 < rem' \<longrightarrow> exhausted event (hist st'))
    \<and> rem' \<le> rem"
  using assms
proof (induction event rem st arbitrary: rem' st' rule: match_loop.induct)
  case (1 event rem st)
  let ?s = "opposite (ev_side event)"
  note wf = "1.prems"(2)
  show ?case
  proof (cases "0 < rem")
    case False
    with "1.prems" show ?thesis by (subst (asm) match_loop.simps) (simp add: keeps_def)
  next
    case True
    obtain best heap' where b: "best_opposite_price ?s (h_book ?s (hist st)) (h_heap ?s (hist st)) = (best, heap')"
      by fastforce
    let ?st = "st\<lparr>hist := h_set_heap ?s heap' (hist st)\<rparr>"
    note wf1 = clean_heap [OF wf b]
    show ?thesis
    proof (cases "case best of None \<Rightarrow> True | Some px \<Rightarrow> \<not> price_crosses event px")
      case stop: True
      then have "rem' = rem" "st' = ?st"
        using "1.prems"(1) True b by (subst (asm) match_loop.simps, auto split: option.splits)+
      moreover have "exhausted event (hist ?st)"
        using exhausted_best [OF wf b refl, of ?s] stop by (simp split: option.splits)
      ultimately show ?thesis using wf1 keeps_heap by blast
    next
      case False
      then obtain px where px: "best = Some px" "price_crosses event px" by (auto split: option.splits)
      obtain r2 st2 where m: "match_one_level event px rem ?st = (r2, st2)" by fastforce
      have loop: "match_loop event r2 st2 = (rem', st')"
        using "1.prems"(1) True b px m by (subst (asm) match_loop.simps) (simp add: Let_def)
      have q: "hq (hist ?st) ?s px \<noteq> []"
        using best_opposite_price_Some [of ?s "h_book ?s (hist st)" "h_heap ?s (hist st)" px heap'] b px(1)
        by (auto simp: hq_find)
      note m1 = match_one_level_wf [OF wf1 m q True]
      have "sim_wf st' \<and> keeps ?s st2 st' \<and> (0 < rem' \<longrightarrow> exhausted event (hist st')) \<and> rem' \<le> r2"
        by (rule "1.IH" [OF _ refl b [symmetric] px(1) refl _ refl m [symmetric] loop m1(1)])
          (use True px in auto)
      moreover have "keeps ?s st st2"
        using keeps_trans keeps_heap keeps_match_one_level [OF wf1 m q True] by blast
      moreover have "r2 \<le> rem"
      proof -
        have "hist_wf (historical_capacity ?st) (order_arrival_seq ?st) (hist ?st)"
          using wf1 unfolding sim_wf_def by blast
        note c = hist_wf_core [OF this]
        have "\<And>x. x \<in> set (map (hn (hist ?st)) (hq (hist ?st) ?s px)) \<Longrightarrow> 0 < on_qty x"
          using core_qty_pos [OF c] by auto
        then have "0 \<le> sum_list (map fst (greedy rem (map (hn (hist ?st)) (hq (hist ?st) ?s px))))"
          using greedy_pos [of "map (hn (hist ?st)) (hq (hist ?st) ?s px)"]
          by (intro sum_list_nonneg_int) fastforce
        with m1(10) show ?thesis by simp
      qed
      ultimately show ?thesis using keeps_trans by fastforce
    qed
  qed
qed


section \<open>Aggressors against paper orders\<close>

lemma best_paper_scan_mem:
  "best_paper_scan s ls best = Some px \<Longrightarrow> best = Some px \<or> (\<exists>l. (px, l) \<in> set ls \<and> 0 < pl_queued_lots l)"
proof (induction s ls best rule: best_paper_scan.induct)
  case (2 s px' level levels best)
  show ?case
  proof (cases "pl_queued_lots level \<le> 0")
    case True
    with 2 show ?thesis by auto
  next
    case False
    with 2 show ?thesis
      by (auto split: option.splits if_splits)
  qed
qed simp

lemma hit_paper_loop_wf:
  assumes "hit_paper_loop sq event crosses rem p = ((rem', p'), fs)" "paper_wf cap a p"
  shows "paper_wf cap a p' \<and> mframe p p' \<and> rem' = rem - sum_list (map fr_qty_lots fs) \<and>
    (0 \<le> rem \<longrightarrow> 0 \<le> rem') \<and> (\<forall>f \<in> set fs. 0 < fr_qty_lots f \<and> crosses (fr_price_ticks f))"
  using assms
proof (induction sq event crosses rem p arbitrary: rem' p' fs rule: hit_paper_loop.induct)
  case (1 sq event crosses rem p)
  let ?s = "opposite (ev_side event)"
  note wf = "1.prems"(2)
  show ?case
  proof (cases "0 < rem \<and> (\<exists>px. best_paper_opposite_price ?s p = Some px \<and> crosses px)")
    case False
    then have "hit_paper_loop sq event crosses rem p = ((rem, p), [])"
      by (subst hit_paper_loop.simps) (auto simp: Let_def split: option.splits)
    with "1.prems" show ?thesis by simp
  next
    case True
    then obtain px where rem: "0 < rem" and px: "best_paper_opposite_price ?s p = Some px" "crosses px"
      by blast
    obtain t p1 fs1 where t: "trade_against_paper_level sq ?s px rem event p = ((t, p1), fs1)"
      by (metis prod.exhaust)
    note tw = trade_against_paper_wf [OF wf t]
    have tf: "t = sum_list (map fr_qty_lots fs1) \<and> t \<le> rem \<and>
        (\<forall>f \<in> set fs1. 0 < fr_qty_lots f \<and> fr_price_ticks f = px)"
    proof (cases "find_paper_level ?s px p")
      case None
      with t rem show ?thesis by (auto simp: trade_against_paper_level_def)
    next
      case (Some l)
      obtain l1 p2 where lp: "paper_hit_loop sq ?s px event (pl_orders l) (l, p) rem 0 = (((l1, p2), t), fs1)"
        using t rem Some by (auto simp: trade_against_paper_level_def split: prod.splits)
      from paper_hit_loop_fills [OF lp paper_wf_open [OF wf Some] _ paper_wf_level(1) [OF wf Some]] rem
      show ?thesis by auto
    qed
    show ?thesis
    proof (cases "t \<le> 0")
      case True
      then have "hit_paper_loop sq event crosses rem p = ((rem, p1), fs1)"
        using rem px t by (subst hit_paper_loop.simps) (simp add: Let_def)
      moreover have "fs1 = []"
      proof (cases fs1)
        case (Cons f fs')
        have "0 \<le> sum_list (map fr_qty_lots fs')" using tf Cons by (intro sum_list_nonneg_int) auto
        with tf Cons True show ?thesis by simp
      qed
      ultimately show ?thesis using "1.prems"(1) tw by simp
    next
      case False
      obtain rem2 p2 fs2 where h: "hit_paper_loop sq event crosses (rem - t) p1 = ((rem2, p2), fs2)"
        by (metis prod.exhaust)
      then have e: "rem' = rem2" "p' = p2" "fs = fs1 @ fs2"
        using "1.prems"(1) rem px t False by (subst (asm) (2) hit_paper_loop.simps, simp add: Let_def)+
      have "paper_wf cap a p2 \<and> mframe p1 p2 \<and> rem2 = rem - t - sum_list (map fr_qty_lots fs2) \<and>
          (0 \<le> rem - t \<longrightarrow> 0 \<le> rem2) \<and> (\<forall>f \<in> set fs2. 0 < fr_qty_lots f \<and> crosses (fr_price_ticks f))"
        by (rule "1.IH" [OF _ refl px(1) _ refl t [symmetric] refl False h conjunct1 [OF tw]])
          (use rem px in auto)
      with tw tf px(2) show ?thesis unfolding e by (auto intro: mframe_trans)
    qed
  qed
qed

section \<open>Resting orders\<close>

definition preserves :: "Sim \<Rightarrow> Sim \<Rightarrow> bool" where
  "preserves st st' \<longleftrightarrow> sim_wf st' \<and>
     (no_empty_level (hist st) \<longrightarrow> no_empty_level (hist st')) \<and>
     (uncrossed (hist st) \<longrightarrow> uncrossed (hist st')) \<and>
     historical_capacity st' = historical_capacity st \<and> paper_capacity st' = paper_capacity st \<and>
     order_arrival_seq st \<le> order_arrival_seq st'"

lemma preserves_trans: "preserves st st' \<Longrightarrow> preserves st' st'' \<Longrightarrow> preserves st st''"
  by (auto simp: preserves_def)

lemma preserves_same: "sim_wf st \<Longrightarrow> same_books st st' \<Longrightarrow> preserves st st'"
  using sim_wf_same [of st st'] by (simp add: preserves_def same_books_def)

lemma preserves_emit [simp]:
  "preserves st (emit_fills fs st') = preserves st st'"
  "preserves st (emit_call c st') = preserves st st'"
  "preserves st (emit_diagnostic event code sev st') = preserves st st'"
  "preserves st (emit_diags event ds st') = preserves st st'"
  "preserves st (diag_if b event code sev st') = preserves st st'"
  "preserves st (st'\<lparr>seq := n\<rparr>) = preserves st st'"
  by (simp_all add: preserves_def)

lemma preserves_emit_left [simp]:
  "preserves (emit_fills fs st) st' = preserves st st'"
  "preserves (emit_call c st) st' = preserves st st'"
  "preserves (emit_diagnostic event code sev st) st' = preserves st st'"
  by (simp_all add: preserves_def)

lemma preserves_refl [simp]: "preserves st st = sim_wf st"
  by (simp add: preserves_def)

lemma preserves_paper:
  assumes "sim_wf st" "paper_wf (paper_capacity st) (order_arrival_seq st) p" "mframe (paper st) p"
  shows "preserves st (st\<lparr>paper := p\<rparr>)"
  using sim_wf_paper [OF assms] by (simp add: preserves_def)

lemma preserves_keeps:
  assumes "sim_wf st'" "keeps s st st'"
  shows "preserves st st'"
proof -
  have "hq (hist st) s' px \<noteq> []" if "hq (hist st') s' px \<noteq> []" for s' px
    using assms(2) that side_cases_wrt [of s' s] by (auto simp: keeps_def)
  then have "uncrossed (hist st) \<longrightarrow> uncrossed (hist st')" using uncrossed_subset by blast
  with assms show ?thesis by (simp add: preserves_def keeps_def)
qed

lemma uncrossed_rest:
  assumes u: "uncrossed h" and e: "exhausted event h"
    and q: "hq h' = set_queue (ev_side event) (ev_price_ticks event) x (hq h)"
  shows "uncrossed h'"
  unfolding uncrossed_def
proof (intro allI impI)
  fix pb pa
  assume b: "hq h' BUY pb \<noteq> []" and a: "hq h' SELL pa \<noteq> []"
  show "pb < pa"
  proof (cases "ev_side event")
    case BUY
    then have "hq h SELL pa \<noteq> []" using a q by simp
    then have "pb = ev_price_ticks event \<or> hq h BUY pb \<noteq> []" "ev_price_ticks event < pa"
      using b q e BUY by (auto simp: exhausted_def price_crosses_def split: if_splits)
    with u \<open>hq h SELL pa \<noteq> []\<close> show ?thesis by (auto simp: uncrossed_def)
  next
    case SELL
    then have "hq h BUY pb \<noteq> []" using b q by simp
    then have "pa = ev_price_ticks event \<or> hq h SELL pa \<noteq> []" "pb < ev_price_ticks event"
      using a q e SELL by (auto simp: exhausted_def price_crosses_def split: if_splits)
    with u \<open>hq h BUY pb \<noteq> []\<close> show ?thesis by (auto simp: uncrossed_def)
  qed
qed

lemma rest_historical_preserves:
  assumes wf: "sim_wf st" and rem: "0 < rem" and e: "exhausted event (hist st)"
    and fresh: "hm_find (order_info (hist st)) (ev_order_id event) = None"
  shows "preserves st (rest_historical event rem st)"
proof -
  let ?s = "ev_side event" and ?px = "ev_price_ticks event" and ?a = "order_arrival_seq st"
  let ?h = "hist st" and ?p = "paper st"
  have hw: "hist_wf (historical_capacity st) ?a ?h" and pw: "paper_wf (paper_capacity st) ?a ?p"
    and lk: "linked ?h ?p ?a" using wf by (simp_all add: sim_wf_def)
  note c = hist_wf_core [OF hw]
  obtain r h where r: "h_rest_order event rem ?a (historical_capacity st) ?h = (r, h)" by fastforce
  show ?thesis
  proof (cases r)
    case None
    with r h_rest_order_None [OF hw, of event rem h] wf show ?thesis by (simp add: rest_historical_def)
  next
    case (Some n)
    note hs = h_rest_order_Some [OF hw r [unfolded Some] rem fresh]
    have old: "hn h m = hn ?h m \<and> on_arrival_seq (hn ?h m) < ?a" if "m \<in> set (hq ?h s px)" for m s px
      using hs(5) core_live [OF c that] c that by (auto simp: core_def core_nodes_def)
    define p where "p = (case find_paper_level ?s ?px ?p of None \<Rightarrow> ?p
      | Some level \<Rightarrow> p_put_level ?s ?px (push_market ?a rem level) ?p)"
    have st': "rest_historical event rem st = st\<lparr>hist := h, order_arrival_seq := ?a + 1, paper := p\<rparr>"
      using r Some by (simp add: rest_historical_def p_def Let_def split: option.splits)
    have "paper_wf (paper_capacity st) ?a p"
      using pw push_market_wf [OF pw] by (simp add: p_def split: option.splits)
    then have "paper_wf (paper_capacity st) (?a + 1) p" by (rule paper_wf_mono) simp
    moreover have "linked h p (?a + 1)"
      unfolding linked_def
    proof (intro allI impI)
      fix s px l assume l: "find_paper_level s px p = Some l"
      show "market_link h s px l (?a + 1)"
      proof (cases "(s, px) = (?s, ?px)")
        case True
        then obtain l0 where l0: "find_paper_level ?s ?px ?p = Some l0" "l = push_market ?a rem l0"
          using l by (auto simp: p_def split: option.splits)
        then have m: "market_link ?h ?s ?px l0 ?a" using lk by (simp add: linked_def)
        have "market_link h ?s ?px (push_market ?a rem l0) (Suc ?a)"
          by (rule market_link_push [OF m, of h n]) (use hs(3,4) old in auto)
        with True l0 show ?thesis by simp
      next
        case False
        with l have "find_paper_level s px ?p = Some l" by (auto simp: p_def split: option.splits)
        then have m: "market_link ?h s px l ?a" using lk by (simp add: linked_def)
        have q: "hq h s px = hq ?h s px" using hs(3) False by auto
        have "qsum (hn h) (hq h s px) = qsum (hn ?h) (hq ?h s px)"
          unfolding q using old by (intro ext qsum_cong) blast
        then show ?thesis
          using q old by (intro market_link_same [OF m same_market_refl]) auto
      qed
    qed
    moreover have "uncrossed ?h \<longrightarrow> uncrossed h" using uncrossed_rest [OF _ e hs(3)] by blast
    ultimately show ?thesis
      using hs(1,6) by (simp add: preserves_def sim_wf_def st')
  qed
qed

lemma rest_paper_preserves:
  assumes wf: "sim_wf st" and rem: "0 < rem"
    and fresh: "hm_find (paper_order_info (paper st)) (ev_order_id event) = None"
  shows "preserves st (rest_paper event rem st)"
proof -
  let ?s = "ev_side event" and ?px = "ev_price_ticks event" and ?a = "order_arrival_seq st"
  have hw: "hist_wf (historical_capacity st) ?a (hist st)" and pw: "paper_wf (paper_capacity st) ?a (paper st)"
    and lk: "linked (hist st) (paper st) ?a" using wf by (simp_all add: sim_wf_def)
  obtain b p where r: "p_rest_order event rem ?a (paper_capacity st) (hist st) (paper st) = (b, p)"
    by fastforce
  show ?thesis
  proof (cases b)
    case False
    with r p_rest_order_False [OF pw, of event rem "hist st" p] wf show ?thesis
      by (simp add: rest_paper_def)
  next
    case True
    note pr = p_rest_order_True [OF pw r [unfolded eqTrueI [OF True]] rem fresh]
    have "linked (hist st) p (?a + 1)"
      unfolding linked_def
    proof (intro allI impI)
      fix s px l assume l: "find_paper_level s px p = Some l"
      have ex: "\<exists>l0. market_link (hist st) s px l0 ?a \<and> same_market l0 l"
      proof (cases "(s, px) = (?s, ?px)")
        case True
        with pr(3) l have "same_market (case find_paper_level ?s ?px (paper st) of
            None \<Rightarrow> new_paper_level ?s ?px (hist st) | Some l \<Rightarrow> l) l" by auto
        moreover have "market_link (hist st) ?s ?px (case find_paper_level ?s ?px (paper st) of
            None \<Rightarrow> new_paper_level ?s ?px (hist st) | Some l \<Rightarrow> l) ?a"
          using lk market_link_new [OF hw] by (simp add: linked_def split: option.splits)
        ultimately show ?thesis using True by blast
      next
        case False
        with pr(2) l lk have "market_link (hist st) s px l ?a" by (simp add: linked_def)
        then show ?thesis using same_market_refl by blast
      qed
      then obtain l0 where "market_link (hist st) s px l0 ?a" "same_market l0 l" by blast
      then show "market_link (hist st) s px l (?a + 1)"
        by (rule market_link_same) auto
    qed
    with True r pr(1) hist_wf_mono [OF hw, of "?a + 1"] show ?thesis
      by (simp add: rest_paper_def preserves_def sim_wf_def)
  qed
qed


section \<open>The handlers\<close>

lemma add_not_duplicate:
  "\<not> add_is_duplicate event st \<Longrightarrow>
     hm_find (order_info (hist st)) (ev_order_id event) = None \<and>
     hm_find (paper_orders (paper st)) (ev_order_id event) = None \<and>
     hm_find (paper_order_info (paper st)) (ev_order_id event) = None"
  by (auto simp: add_is_duplicate_def hm_contains_def)

lemma on_add_historical_shape:
  assumes wf: "sim_wf st"
  obtains rem st3 where "sim_wf st3" "keeps (opposite (ev_side event)) st st3"
    "0 < rem \<longrightarrow> exhausted event (hist st3)" "rem \<le> ev_quantity_lots event"
    "on_add_historical event st = (if 0 < rem then rest_historical event rem st3 else st3)"
proof -
  let ?s = "opposite (ev_side event)" and ?q = "ev_quantity_lots event"
  obtain best heap' where b: "best_opposite_price ?s (h_book ?s (hist st)) (h_heap ?s (hist st)) = (best, heap')"
    by fastforce
  define st1 where "st1 = st\<lparr>hist := h_set_heap ?s heap' (hist st)\<rparr>"
  have wf1: "sim_wf st1" unfolding st1_def by (rule clean_heap [OF wf b])
  have k1: "keeps ?s st st1" unfolding st1_def by (rule keeps_heap)
  define crosses where "crosses = (case best of None \<Rightarrow> False | Some px \<Rightarrow> price_crosses event px)"
  obtain rem st2 where m: "(if crosses then match_loop event ?q st1 else (?q, st1)) = (rem, st2)"
    by fastforce
  have m2: "sim_wf st2" "keeps ?s st1 st2" "0 < rem \<longrightarrow> exhausted event (hist st2)" "rem \<le> ?q"
  proof -
    have "sim_wf st2 \<and> keeps ?s st1 st2 \<and> (0 < rem \<longrightarrow> exhausted event (hist st2)) \<and> rem \<le> ?q"
    proof (cases crosses)
      case True
      with m match_loop_wf [of event ?q st1 rem st2] wf1 show ?thesis by simp
    next
      case False
      have "exhausted event (hist st1)"
        using exhausted_best [OF wf b refl, of ?s] False
        by (simp add: crosses_def st1_def split: option.splits)
      with False m wf1 show ?thesis by (simp add: keeps_def)
    qed
    then show "sim_wf st2" "keeps ?s st1 st2" "0 < rem \<longrightarrow> exhausted event (hist st2)" "rem \<le> ?q"
      by blast+
  qed
  obtain rem' p fs where h: "hit_paper_loop (seq st2) event (price_crosses event) rem (paper st2) = ((rem', p), fs)"
    by (metis prod.exhaust)
  have "paper_wf (paper_capacity st2) (order_arrival_seq st2) (paper st2)" using m2(1) by (simp add: sim_wf_def)
  note hw = hit_paper_loop_wf [OF h this]
  have le: "rem' \<le> rem"
  proof -
    have "0 \<le> sum_list (map fr_qty_lots fs)" using hw by (intro sum_list_nonneg_int) auto
    with hw show ?thesis by simp
  qed
  define st3 where "st3 = emit_fills fs (st2\<lparr>paper := p\<rparr>)"
  show thesis
  proof (rule that [of st3 rem'])
    show "sim_wf st3" unfolding st3_def using sim_wf_paper [OF m2(1)] hw by simp
    show "keeps ?s st st3"
      unfolding st3_def using keeps_trans [OF keeps_trans [OF k1 m2(2)] keeps_paper] .
    show "0 < rem' \<longrightarrow> exhausted event (hist st3)" using m2(3) le by (simp add: st3_def)
    show "rem' \<le> ?q" using le m2(4) by simp
    show "on_add_historical event st = (if 0 < rem' then rest_historical event rem' st3 else st3)"
    proof (cases crosses)
      case True
      with b m h show ?thesis
        by (simp add: on_add_historical_def Let_def st1_def [symmetric] crosses_def [symmetric] st3_def)
    next
      case False
      with m have "st2 = st1" "rem = ?q" by simp_all
      with b h False show ?thesis
        by (simp add: on_add_historical_def Let_def st1_def crosses_def [symmetric] st3_def)
    qed
  qed
qed

lemma on_add_historical_preserves:
  assumes wf: "sim_wf st" and d: "\<not> add_is_duplicate event st"
  shows "preserves st (on_add_historical event st)"
  using wf
proof (rule on_add_historical_shape [of st event])
  fix rem st3
  assume s3: "sim_wf st3" and k: "keeps (opposite (ev_side event)) st st3"
    and e: "0 < rem \<longrightarrow> exhausted event (hist st3)"
    and eq: "on_add_historical event st = (if 0 < rem then rest_historical event rem st3 else st3)"
  have "hm_find (order_info (hist st3)) (ev_order_id event) = None"
    using k add_not_duplicate [OF d] by (simp add: keeps_def)
  with e rest_historical_preserves [OF s3, of rem event] preserves_keeps [OF s3 k] preserves_trans
  show ?thesis unfolding eq by auto
qed

lemma on_add_paper_preserves:
  assumes wf: "sim_wf st" and d: "\<not> add_is_duplicate event st"
  shows "preserves st (on_add_paper event st)"
proof -
  have "preserves st (rest_paper event rem (emit_fills fs st))" if "0 < rem" for rem fs
    using rest_paper_preserves [of "emit_fills fs st" rem event] wf that add_not_duplicate [OF d] by simp
  then show ?thesis using wf by (auto simp: on_add_paper_def Let_def split: prod.splits)
qed

lemma on_add_preserves: "sim_wf st \<Longrightarrow> preserves st (on_add event st)"
  using on_add_paper_preserves on_add_historical_preserves by (simp add: on_add_def)

lemma on_aggressive_trade_preserves:
  assumes wf: "sim_wf st" shows "preserves st (on_aggressive_trade event st)"
proof -
  let ?s = "opposite (ev_side event)"
  obtain rem fs where sw: "sweep_aggressive ?s (seq st) event (hist st) (h_heap ?s (hist st))
      (ev_quantity_lots event) = (rem, fs)" by fastforce
  obtain rem' p fs' where h: "hit_paper_loop (seq st) event (\<lambda>_. True) rem (paper st) = ((rem', p), fs')"
    by (metis prod.exhaust)
  have pw: "paper_wf (paper_capacity st) (order_arrival_seq st) (paper st)" using wf by (simp add: sim_wf_def)
  have "preserves (emit_fills fs st) ((emit_fills fs st)\<lparr>paper := p\<rparr>)"
    by (rule preserves_paper) (use wf hit_paper_loop_wf [OF h pw] in simp_all)
  then show ?thesis
    using wf sw h by (simp add: on_aggressive_trade_def Let_def)
qed

text \<open>Looking an order up in the index, in a well-formed book.\<close>

lemma hist_lookup:
  assumes wf: "hist_wf cap a h" and i: "hm_find (order_info h) i = Some info"
  obtains n q where "oi_node info = Some n" "n \<in> set (hq h (oi_side info) (oi_price_ticks info))"
    and "hm_find (h_book (oi_side info) h) (oi_price_ticks info) = Some q"
    and "on_order_id (hn h n) = i" "n \<in> np_live (order_pool h)" "0 < on_qty (hn h n)"
proof -
  note c = hist_wf_core [OF wf]
  from core_index_node [OF c i] obtain n where
    n: "oi_node info = Some n" "n \<in> set (hq h (oi_side info) (oi_price_ticks info))" "on_order_id (hn h n) = i"
    by blast
  then obtain q where q: "hm_find (h_book (oi_side info) h) (oi_price_ticks info) = Some q"
    by (cases "hm_find (h_book (oi_side info) h) (oi_price_ticks info)") (simp_all add: hq_find)
  show thesis
    by (rule that [OF n(1,2) q n(3) core_live [OF c n(2)] core_qty_pos [OF c n(2)]])
qed

text \<open>An order leaves the historical queue, and the market index is told.\<close>

lemma remove_preserves:
  assumes wf: "sim_wf st" and i: "hm_find (order_info (hist st)) i = Some info" and n: "oi_node info = Some n"
  defines "h' \<equiv> h_remove_order (oi_side info) (oi_price_ticks info) n i (hist st)"
  shows "preserves st (st\<lparr>paper := p_market_deltas (oi_side info) (oi_price_ticks info)
    [(on_arrival_seq (hn (hist st) n), - on_qty (hn (hist st) n))] (paper st), hist := h'\<rparr>)"
proof -
  let ?s = "oi_side info" and ?px = "oi_price_ticks info" and ?h = "hist st"
  have hw: "hist_wf (historical_capacity st) (order_arrival_seq st) ?h"
    and pw: "paper_wf (paper_capacity st) (order_arrival_seq st) (paper st)"
    and lk: "linked ?h (paper st) (order_arrival_seq st)" using wf by (simp_all add: sim_wf_def)
  have mem: "n \<in> set (hq ?h ?s ?px)"
    using core_index_node [OF hist_wf_core [OF hw] i] n by auto
  note sh = remove_order_shape [where h = ?h and s = ?s and px = ?px and n = n and i = i, folded h'_def]
  have "linked h' (p_market_deltas ?s ?px [(on_arrival_seq (hn ?h n), - on_qty (hn ?h n))] (paper st))
      (order_arrival_seq st)"
    by (rule linked_deltas [OF lk])
      (use sh(3,4) qsum_remove [OF core_distinct [OF hist_wf_core [OF hw]] mem] in auto)
  with hist_wf_remove_order [OF hw i n, folded h'_def] p_market_deltas_wf [OF pw] sh(1,2)
  show ?thesis by (simp add: preserves_def sim_wf_def)
qed

text \<open>An order changes its lots in place, and the market index is told.\<close>

lemma set_qty_preserves:
  assumes wf: "sim_wf st" and n: "n \<in> set (hq (hist st) s px)" and v: "0 < v"
  shows "preserves st (st\<lparr>paper := p_market_deltas s px
    [(on_arrival_seq (hn (hist st) n), v - on_qty (hn (hist st) n))] (paper st),
    hist := h_set_qty n v (hist st)\<rparr>)"
proof -
  let ?h = "hist st"
  have hw: "hist_wf (historical_capacity st) (order_arrival_seq st) ?h"
    and pw: "paper_wf (paper_capacity st) (order_arrival_seq st) (paper st)"
    and lk: "linked ?h (paper st) (order_arrival_seq st)" using wf by (simp_all add: sim_wf_def)
  note c = hist_wf_core [OF hw]
  have live: "n \<in> np_live (order_pool ?h)" by (rule core_live [OF c n])
  note hn' = hn_set_qty [OF live, of v]
  have "linked (h_set_qty n v ?h) (p_market_deltas s px
      [(on_arrival_seq (hn ?h n), v - on_qty (hn ?h n))] (paper st)) (order_arrival_seq st)"
  proof (rule linked_deltas [OF lk])
    show "qsum (hn (h_set_qty n v ?h)) (hq (h_set_qty n v ?h) s px) sq = qsum (hn ?h) (hq ?h s px) sq +
        dsum [(on_arrival_seq (hn ?h n), v - on_qty (hn ?h n))] sq" for sq
      unfolding hn' hq_set_qty by (rule qsum_set_qty [OF core_distinct [OF c] n])
    show "hn (h_set_qty n v ?h) m = hn ?h m" if "(s', px') \<noteq> (s, px)" "m \<in> set (hq ?h s' px')" for s' px' m
      using core_unique [OF c n, of s' px'] that by (auto simp: hn')
  qed (auto simp: hn')
  with hist_wf_set_qty [OF hw live v] p_market_deltas_wf [OF pw] set_qty_shape [of ?h n v]
  show ?thesis by (simp add: preserves_def sim_wf_def)
qed


lemma linked_same_nodes:
  "linked h p a \<Longrightarrow> hn h' = hn h \<Longrightarrow> hq h' = hq h \<Longrightarrow> linked h' p a"
  by (rule linked_hist_cong) auto

lemma set_qty_same_preserves:
  assumes wf: "sim_wf st" and n: "n \<in> set (hq (hist st) s px)"
  shows "preserves st (st\<lparr>hist := h_set_qty n (on_qty (hn (hist st) n)) (hist st)\<rparr>)"
proof -
  let ?h = "hist st" and ?v = "on_qty (hn (hist st) n)"
  have hw: "hist_wf (historical_capacity st) (order_arrival_seq st) ?h" using wf by (simp add: sim_wf_def)
  note c = hist_wf_core [OF hw]
  have live: "n \<in> np_live (order_pool ?h)" by (rule core_live [OF c n])
  have "linked ?h (paper st) (order_arrival_seq st)" using wf by (simp add: sim_wf_def)
  moreover have "hn (h_set_qty n ?v ?h) = hn ?h" using hn_set_qty [OF live, of ?v] by auto
  ultimately have "linked (h_set_qty n ?v ?h) (paper st) (order_arrival_seq st)"
    by (rule linked_same_nodes) simp
  with wf hist_wf_set_qty [OF hw live core_qty_pos [OF c n]] set_qty_shape [of ?h n ?v]
  show ?thesis by (simp add: preserves_def sim_wf_def)
qed

lemma on_delete_preserves:
  assumes wf: "sim_wf st" shows "preserves st (on_delete event st)"
proof (cases "ev_update_source event = STRATEGY")
  case True
  obtain p ds where d: "delete_paper_order event (paper st) = (p, ds)" by fastforce
  have "paper_wf (paper_capacity st) (order_arrival_seq st) (paper st)" using wf by (simp add: sim_wf_def)
  from delete_paper_order_wf [OF this d] preserves_paper [OF wf] True d show ?thesis
    by (simp add: on_delete_def)
next
  case False
  show ?thesis
  proof (cases "hm_find (order_info (hist st)) (ev_order_id event)")
    case None
    with False wf show ?thesis by (simp add: on_delete_def)
  next
    case (Some info)
    let ?s = "oi_side info" and ?px = "oi_price_ticks info"
    have hw: "hist_wf (historical_capacity st) (order_arrival_seq st) (hist st)" using wf by (simp add: sim_wf_def)
    from hw Some show ?thesis
    proof (rule hist_lookup)
      fix n q assume n: "oi_node info = Some n" and q: "hm_find (h_book ?s (hist st)) ?px = Some q"
        and pos: "0 < on_qty (hn (hist st) n)"
      define st1 where "st1 = diag_if (?s \<noteq> ev_side event) event
          PROVIDED_SIDE_ON_DELETE_DIFFERS_FROM_ORIGINAL_SIDE_FOR_ORDER_ID WARNING st"
      define st2 where "st2 = diag_if (?px \<noteq> ev_price_ticks event) event
          PROVIDED_PRICE_ON_DELETE_DIFFERS_FROM_ORIGINAL_PRICE_FOR_ORDER_ID WARNING st1"
      have sb: "hist st2 = hist st" "paper st2 = paper st" "preserves st st2" "sim_wf st2"
        using wf by (simp_all add: st2_def st1_def)
      have "on_delete event st = st2\<lparr>paper := p_market_deltas ?s ?px
            [(on_arrival_seq (hn (hist st2) n), - on_qty (hn (hist st2) n))] (paper st2),
          hist := h_remove_order ?s ?px n (ev_order_id event) (hist st2)\<rparr>"
        using False Some n q pos sb(1,2)
        by (simp add: on_delete_def Let_def st1_def [symmetric] st2_def [symmetric] hn_def)
      then show ?thesis
        using remove_preserves [OF sb(4), of "ev_order_id event" info n] Some n sb(1)
          preserves_trans [OF sb(3)] by simp
    qed
  qed
qed

lemma on_set_preserves:
  assumes wf: "sim_wf st" shows "preserves st (on_set event st)"
proof (cases "ev_update_source event = STRATEGY")
  case True
  have "paper_wf (paper_capacity st) (order_arrival_seq st) (paper st)" using wf by (simp add: sim_wf_def)
  from set_paper_order_wf [OF this] preserves_paper [OF wf] True show ?thesis by (simp add: on_set_def)
next
  case False
  define st0 where "st0 = diag_if (ev_quantity_lots event < 0) event
          SET_WITH_NEGATIVE_LIQUIDITY_REQUESTED_WAS_SET_TO_ZERO WARNING st"
  have s0: "hist st0 = hist st" "preserves st st0" "sim_wf st0" using wf by (simp_all add: st0_def)
  show ?thesis
  proof (cases "hm_find (order_info (hist st)) (ev_order_id event)")
    case None
    with False s0 show ?thesis by (simp add: on_set_def st0_def [symmetric] Let_def)
  next
    case (Some info)
    let ?s = "oi_side info" and ?px = "oi_price_ticks info"
    let ?v = "if ev_quantity_lots event < 0 then 0 else ev_quantity_lots event"
    have hw: "hist_wf (historical_capacity st) (order_arrival_seq st) (hist st)" using wf by (simp add: sim_wf_def)
    from hw Some show ?thesis
    proof (rule hist_lookup)
      fix n q assume n: "oi_node info = Some n" "n \<in> set (hq (hist st) ?s ?px)"
        and q: "hm_find (h_book ?s (hist st)) ?px = Some q" and pos: "0 < on_qty (hn (hist st) n)"
      define st1 where "st1 = diag_if (?s \<noteq> ev_side event) event
          PROVIDED_SIDE_ON_SET_DIFFERS_FROM_ORIGINAL_SIDE_FOR_ORDER_ID WARNING st0"
      define st2 where "st2 = diag_if (?px \<noteq> ev_price_ticks event) event
          PROVIDED_PRICE_ON_SET_DIFFERS_FROM_ORIGINAL_PRICE_FOR_ORDER_ID WARNING st1"
      have sb: "hist st2 = hist st" "paper st2 = paper st" "preserves st st2" "sim_wf st2"
        using wf by (simp_all add: st2_def st1_def st0_def)
      let ?x = "hn (hist st2) n"
      have "on_set event st = st2\<lparr>
          paper := (if ?v - on_qty ?x \<noteq> 0
            then p_market_deltas ?s ?px [(on_arrival_seq ?x, ?v - on_qty ?x)] (paper st2) else paper st2),
          hist := (if ?v = 0 then h_remove_order ?s ?px n (ev_order_id event) (hist st2)
            else h_set_qty n ?v (hist st2))\<rparr>"
        using False Some n q s0(1) sb(1,2)
        by (simp add: on_set_def Let_def st0_def [symmetric] st1_def [symmetric] st2_def [symmetric] hn_def)
      moreover have "preserves st2 (st2\<lparr>
          paper := (if ?v - on_qty ?x \<noteq> 0
            then p_market_deltas ?s ?px [(on_arrival_seq ?x, ?v - on_qty ?x)] (paper st2) else paper st2),
          hist := (if ?v = 0 then h_remove_order ?s ?px n (ev_order_id event) (hist st2)
            else h_set_qty n ?v (hist st2))\<rparr>)"
        using remove_preserves [OF sb(4), of "ev_order_id event" info n] Some n sb(1) pos
          set_qty_preserves [OF sb(4), of n ?s ?px ?v] set_qty_same_preserves [OF sb(4), of n ?s ?px]
        by auto
      ultimately show ?thesis using preserves_trans [OF sb(3)] by simp
    qed
  qed
qed

lemma on_partial_order_cancel_preserves:
  assumes wf: "sim_wf st" shows "preserves st (on_partial_order_cancel event t st)"
proof (cases "ev_quantity_lots event \<le> 0 \<or> hm_find (order_info (hist st)) (ev_order_id event) = None")
  case True
  with wf show ?thesis by (auto simp: on_partial_order_cancel_def)
next
  case False
  then obtain info where i: "hm_find (order_info (hist st)) (ev_order_id event) = Some info"
    and pq: "0 < ev_quantity_lots event" by auto
  let ?s = "oi_side info" and ?px = "oi_price_ticks info"
  have hw: "hist_wf (historical_capacity st) (order_arrival_seq st) (hist st)" using wf by (simp add: sim_wf_def)
  from hw i show ?thesis
  proof (rule hist_lookup)
    fix n q assume n: "oi_node info = Some n" "n \<in> set (hq (hist st) ?s ?px)"
      and q: "hm_find (h_book ?s (hist st)) ?px = Some q" and pos: "0 < on_qty (hn (hist st) n)"
    define st1 where "st1 = diag_if (?s \<noteq> ev_side event) event
          PROVIDED_SIDE_ON_ORDER_REDUCE_DIFFERS_FROM_ORIGINAL_SIDE_FOR_ORDER_ID WARNING st"
    define st2 where "st2 = diag_if (?px \<noteq> ev_price_ticks event) event
          PROVIDED_PRICE_ON_ORDER_REDUCE_DIFFERS_FROM_ORIGINAL_PRICE_FOR_ORDER_ID WARNING st1"
    let ?x = "hn (hist st) n"
    define lots where "lots = min (on_qty ?x) (ev_quantity_lots event)"
    have lots: "0 < lots" "lots \<le> on_qty ?x" using pos pq by (simp_all add: lots_def)
    define st3 where "st3 = diag_if (ev_quantity_lots event > on_qty ?x) event
          REQUESTED_ORDER_REDUCE_WITH_VOLUME_LARGER_THAN_AVAILABLE_FOR_ORDER_ID WARNING st2"
    obtain p fs where p: "apply_paper_trade_at_level (seq st) ?s ?px lots event (paper st) = (p, fs)"
      by fastforce
    define st4 where "st4 = (if t then emit_fills fs (st3\<lparr>paper := p\<rparr>) else st3)"
    have s3: "hist st3 = hist st" "preserves st st3" "sim_wf st3" "paper st3 = paper st"
      using wf by (simp_all add: st3_def st2_def st1_def)
    have pw: "paper_wf (paper_capacity st3) (order_arrival_seq st3) (paper st)"
      using s3(3,4) by (simp add: sim_wf_def)
    have "preserves st3 st4" using apply_paper_trade_wf [OF pw p] preserves_paper [OF s3(3)] s3(3,4)
      by (simp add: st4_def)
    then have s4: "hist st4 = hist st" "preserves st st4" "sim_wf st4"
      using preserves_trans [OF s3(2)] s3(1) by (simp_all add: st4_def preserves_def)
    define st7 where "st7 = st4\<lparr>paper := p_market_deltas ?s ?px [(on_arrival_seq ?x, - lots)] (paper st4),
      hist := (if on_qty ?x - lots = 0 then h_remove_order ?s ?px n (ev_order_id event) (hist st4)
        else h_set_qty n (on_qty ?x - lots) (hist st4))\<rparr>"
    have "preserves st4 st7"
      using remove_preserves [OF s4(3), of "ev_order_id event" info n] i n s4(1) lots
        set_qty_preserves [OF s4(3), of n ?s ?px "on_qty ?x - lots"]
      by (auto simp: st7_def)
    then have s7: "preserves st st7" using preserves_trans [OF s4(2)] by blast
    have x: "np_get (order_pool (hist st)) n = ?x" by (simp add: hn_def)
    have "\<exists>fs ds. on_partial_order_cancel event t st = emit_diags event ds (emit_fills fs st7)"
    proof -
      let ?e = "emit_fills (if t then [passive_fill (seq st4) ?s ?px lots ?x event] else [])"
      have swap: "(emit_fills gs st)\<lparr>hist := h\<rparr> = emit_fills gs (st\<lparr>hist := h\<rparr>)" for gs st h
        by (simp add: emit_fills_def)
      have nil: "emit_fills [] st = st" for st by (simp add: emit_fills_def)
      have cap: "min lots (ev_quantity_lots event) = lots" by (simp add: lots_def)
      have "on_partial_order_cancel event t st = diag_if (t \<and> ev_update_source event = STRATEGY) event
          PAPER_ORDER_INVOKES_PASSIVE_MATCH_INSTEAD_OF_AGGRESSIVE_TRADE ERROR (?e st7)"
        using pq i n q lots(1) pos p unfolding st7_def st4_def st3_def st2_def st1_def
        by (cases t) (simp_all add: on_partial_order_cancel_def Let_def x swap nil cap lots_def [symmetric])
      then have "on_partial_order_cancel event t st = emit_diags event
          (if t \<and> ev_update_source event = STRATEGY
           then [(PAPER_ORDER_INVOKES_PASSIVE_MATCH_INSTEAD_OF_AGGRESSIVE_TRADE, ERROR)] else []) (?e st7)"
        by (simp add: emit_diags_def diag_if_def)
      then show ?thesis by blast
    qed
    then obtain fs ds where "on_partial_order_cancel event t st = emit_diags event ds (emit_fills fs st7)"
      by blast
    with s7 show ?thesis by simp
  qed
qed


lemma on_subtract_preserves:
  assumes wf: "sim_wf st" shows "preserves st (on_subtract event st)"
proof (cases "ev_update_source event = STRATEGY")
  case True
  obtain p ds where d: "reduce_paper_order event (paper st) = (p, ds)" by fastforce
  have "paper_wf (paper_capacity st) (order_arrival_seq st) (paper st)" using wf by (simp add: sim_wf_def)
  from reduce_paper_order_wf [OF this d] preserves_paper [OF wf] True d show ?thesis
    by (simp add: on_subtract_def)
next
  case False
  with on_partial_order_cancel_preserves [OF wf] show ?thesis by (simp add: on_subtract_def)
qed

lemmas handlers_preserve = on_add_preserves on_aggressive_trade_preserves on_delete_preserves
  on_set_preserves on_subtract_preserves on_partial_order_cancel_preserves

lemma dispatch_preserves: "sim_wf st \<Longrightarrow> preserves st (dispatch event st)"
  by (cases "ev_update_type event") (simp_all add: dispatch_def on_match_def handlers_preserve)

lemma update_preserves_all: "sim_wf st \<Longrightarrow> preserves st (update event st)"
  using dispatch_preserves [of "emit_call (OnEventApply (apply_record (seq st) event)) st" event]
  by (simp add: update_def Let_def)

lemma run_updates_preserves_all: "sim_wf st \<Longrightarrow> preserves st (run_updates evs st)"
proof (induction evs arbitrary: st)
  case Nil
  then show ?case by (simp add: run_updates_def)
next
  case (Cons e evs)
  have 1: "preserves st (update e st)" by (rule update_preserves_all [OF Cons.prems])
  then have "preserves (update e st) (run_updates evs (update e st))"
    by (intro Cons.IH) (simp add: preserves_def)
  with 1 show ?case using preserves_trans by (fastforce simp: run_updates_def)
qed

lemma sim_wf_init: "sim_wf (sim_init hcap pcap)"
  by (simp add: sim_wf_def sim_init_def hist_wf_init paper_wf_init linked_init)

end
