(* ===== verification/Sweep.thy ===== *)
theory Sweep
  imports HistOps
begin

text \<open>
  Price-time priority over the whole book. \<open>ladder\<close> lists the resting historical orders of a side
  from the best price to the worst and in arrival order within a price; \<open>serve\<close> is what a
  quantity takes from such a list and \<open>left_over\<close> what it leaves. The sweeps of paper aggressors
  and the matching loop are shown to take exactly that.
\<close>

section \<open>The ladder\<close>

definition ladder_prices :: "Side \<Rightarrow> Hist \<Rightarrow> int list" where
  "ladder_prices s h =
     sort_key (\<lambda>px. - heap_key s px) (map fst (filter (\<lambda>(px, q). q \<noteq> []) (h_book s h)))"

definition rung :: "Side \<Rightarrow> Hist \<Rightarrow> int \<Rightarrow> (int \<times> OrderNode) list" where
  "rung s h px = map (\<lambda>n. (px, hn h n)) (hq h s px)"

definition ladder :: "Side \<Rightarrow> Hist \<Rightarrow> (int \<times> OrderNode) list" where
  "ladder s h = concat (map (rung s h) (ladder_prices s h))"

lemma set_ladder_prices:
  assumes "hm_wf (h_book s h)"
  shows "set (ladder_prices s h) = {px. hq h s px \<noteq> []}"
proof -
  have "px \<in> set (ladder_prices s h) \<longleftrightarrow> hq h s px \<noteq> []" for px
  proof
    assume "px \<in> set (ladder_prices s h)"
    then obtain q where q: "(px, q) \<in> set (h_book s h)" "q \<noteq> []" by (auto simp: ladder_prices_def)
    with hm_find_mem [OF assms, of px q] show "hq h s px \<noteq> []" by (simp add: hq_find)
  next
    assume "hq h s px \<noteq> []"
    then obtain q where q: "hm_find (h_book s h) px = Some q" "q \<noteq> []"
      by (cases "hm_find (h_book s h) px") (simp_all add: hq_find)
    from hm_find_memD [OF q(1)] q(2) show "px \<in> set (ladder_prices s h)"
      by (force simp: ladder_prices_def)
  qed
  then show ?thesis by blast
qed

lemma distinct_ladder_prices:
  assumes "hm_wf (h_book s h)"
  shows "distinct (ladder_prices s h)"
  using assms by (auto simp: ladder_prices_def hm_wf_def distinct_map intro: inj_on_subset)

definition desc :: "Side \<Rightarrow> int list \<Rightarrow> bool" where
  \<comment> \<open>from the best price to the worst, without repetition\<close>
  "desc s ps = sorted_wrt (\<lambda>a b. heap_key s b < heap_key s a) ps"

lemma ladder_prices_desc:
  assumes "hm_wf (h_book s h)"
  shows "desc s (ladder_prices s h)"
proof -
  let ?ps = "ladder_prices s h"
  have "sorted (map (\<lambda>px. - heap_key s px) ?ps)" by (simp add: ladder_prices_def)
  moreover have "distinct (map (\<lambda>px. - heap_key s px) ?ps)"
    using distinct_ladder_prices [OF assms] by (simp add: distinct_map inj_on_def)
  ultimately have "sorted_wrt (<) (map (\<lambda>px. - heap_key s px) ?ps)"
    by (simp add: strict_sorted_iff)
  then show ?thesis by (simp add: desc_def sorted_wrt_map)
qed

lemma desc_unique:
  "desc s ps \<Longrightarrow> desc s qs \<Longrightarrow> set ps = set qs \<Longrightarrow> ps = qs"
proof -
  assume "desc s ps" "desc s qs" "set ps = set qs"
  then have "sorted_wrt (<) (map (\<lambda>px. - heap_key s px) ps)" "sorted_wrt (<) (map (\<lambda>px. - heap_key s px) qs)"
    "set (map (\<lambda>px. - heap_key s px) ps) = set (map (\<lambda>px. - heap_key s px) qs)"
    by (simp_all add: desc_def sorted_wrt_map)
  then have "map (\<lambda>px. - heap_key s px) ps = map (\<lambda>px. - heap_key s px) qs"
    using strict_sorted_equal by metis
  moreover have "inj (\<lambda>px. - heap_key s px)" by (simp add: inj_def)
  ultimately show "ps = qs" by (simp add: inj_map_eq_map)
qed

text \<open>The best live price heads the ladder; what a heap still covers is a sub-list of it.\<close>

lemma ladder_prices_best:
  assumes wf: "hm_wf (h_book s h)" and live: "hq h s px \<noteq> []"
    and best: "\<And>px'. hq h s px' \<noteq> [] \<Longrightarrow> heap_key s px' \<le> heap_key s px"
  obtains ps where "ladder_prices s h = px # ps"
proof -
  have "px \<in> set (ladder_prices s h)" using set_ladder_prices [OF wf] live by simp
  moreover have "ladder_prices s h = p # ps \<Longrightarrow> p = px" for p ps
  proof (rule ccontr)
    assume e: "ladder_prices s h = p # ps" and "p \<noteq> px"
    with calculation have "px \<in> set ps" by simp
    with ladder_prices_desc [OF wf] have "heap_key s px < heap_key s p" by (simp add: e desc_def)
    moreover have "hq h s p \<noteq> []" using set_ladder_prices [OF wf] e by auto
    ultimately show False using best [of p] by simp
  qed
  ultimately show thesis using that by (cases "ladder_prices s h") auto
qed

section \<open>Serving a quantity\<close>

fun serve :: "int \<Rightarrow> (int \<times> OrderNode) list \<Rightarrow> (int \<times> int \<times> OrderNode) list" where
  "serve rem [] = []"
| "serve rem ((px, x) # xs) =
     (if rem \<le> 0 then []
      else (min (on_qty x) rem, px, x) # serve (rem - min (on_qty x) rem) xs)"

fun left_over :: "int \<Rightarrow> (int \<times> OrderNode) list \<Rightarrow> (int \<times> OrderNode) list" where
  "left_over rem [] = []"
| "left_over rem ((px, x) # xs) =
     (if rem \<le> 0 then (px, x) # xs
      else if on_qty x \<le> rem then left_over (rem - on_qty x) xs
      else (px, x\<lparr>on_qty := on_qty x - rem\<rparr>) # xs)"

definition served :: "int \<Rightarrow> (int \<times> OrderNode) list \<Rightarrow> int" where
  "served rem xs = sum_list (map fst (serve rem xs))"

definition volume :: "(int \<times> OrderNode) list \<Rightarrow> int" where
  "volume xs = sum_list (map (on_qty \<circ> snd) xs)"

definition positive :: "(int \<times> OrderNode) list \<Rightarrow> bool" where
  "positive xs = (\<forall>(px, x) \<in> set xs. 0 < on_qty x)"

lemma positive_simps [simp]:
  "positive []" "positive ((px, x) # xs) \<longleftrightarrow> 0 < on_qty x \<and> positive xs"
  "positive (xs @ ys) \<longleftrightarrow> positive xs \<and> positive ys"
  by (auto simp: positive_def)

lemma volume_simps [simp]:
  "volume [] = 0" "volume ((px, x) # xs) = on_qty x + volume xs" "volume (xs @ ys) = volume xs + volume ys"
  by (simp_all add: volume_def)

lemma volume_nonneg: "positive xs \<Longrightarrow> 0 \<le> volume xs"
  by (induction xs) auto

lemma serve_done [simp]: "rem \<le> 0 \<Longrightarrow> serve rem xs = []"
  by (cases xs) auto

lemma served_Nil [simp]: "served rem [] = 0"
  by (simp add: served_def)

lemma served_done [simp]: "rem \<le> 0 \<Longrightarrow> served rem xs = 0"
  by (simp add: served_def)

lemma left_over_done [simp]: "rem \<le> 0 \<Longrightarrow> left_over rem xs = xs"
  by (cases xs) auto

text \<open>A quantity gets as much as there is, and never more than it asked for.\<close>

lemma served_min: "positive xs \<Longrightarrow> 0 \<le> rem \<Longrightarrow> served rem xs = min rem (volume xs)"
proof (induction xs arbitrary: rem)
  case (Cons y xs)
  obtain px x where y: "y = (px, x)" by fastforce
  have nn: "0 \<le> volume xs" using Cons.prems y volume_nonneg by simp
  show ?case
  proof (cases "rem \<le> on_qty x")
    case True
    with Cons.prems nn y show ?thesis by (auto simp: served_def)
  next
    case False
    with Cons.IH [of "rem - on_qty x"] Cons.prems y show ?thesis
      by (auto simp: served_def min_def)
  qed
qed (simp add: served_def)

lemma serve_append:
  "positive xs \<Longrightarrow> serve rem (xs @ ys) = serve rem xs @ serve (rem - served rem xs) ys"
proof (induction xs arbitrary: rem)
  case (Cons y xs)
  then show ?case by (cases y) (auto simp: served_def algebra_simps)
qed (simp add: served_def)

lemma served_append:
  "positive xs \<Longrightarrow> served rem (xs @ ys) = served rem xs + served (rem - served rem xs) ys"
  by (simp add: served_def serve_append)

lemma left_over_append:
  assumes "positive xs" "0 \<le> rem"
  shows "left_over rem (xs @ ys) = left_over rem xs @ left_over (rem - volume xs) ys"
  using assms
proof (induction xs arbitrary: rem)
  case (Cons y xs)
  obtain px x where y: "y = (px, x)" by fastforce
  have nn: "0 \<le> volume xs" using Cons.prems y volume_nonneg by simp
  show ?case
  proof (cases "rem = 0 \<or> rem < on_qty x")
    case True
    then have "rem - volume (y # xs) \<le> 0" using nn Cons.prems y by auto
    then have "left_over (rem - volume (y # xs)) ys = ys" by (rule left_over_done)
    with True Cons.prems y show ?thesis by auto
  next
    case False
    with Cons.IH [of "rem - on_qty x"] Cons.prems y show ?thesis by (simp add: algebra_simps)
  qed
qed simp

lemma left_over_all: "positive xs \<Longrightarrow> volume xs \<le> rem \<Longrightarrow> left_over rem xs = []"
proof (induction xs arbitrary: rem)
  case (Cons y xs)
  then show ?case using volume_nonneg [of xs] by (cases y) auto
qed simp

lemma left_over_volume: "positive xs \<Longrightarrow> 0 \<le> rem \<Longrightarrow> volume (left_over rem xs) = volume xs - served rem xs"
proof (induction xs arbitrary: rem)
  case (Cons y xs)
  then show ?case
    by (cases y) (auto simp: served_def min_def)
qed (simp add: served_def)

lemma serve_rung:
  "serve rem (map (\<lambda>n. (px, N n)) q) = map (\<lambda>(t, x). (t, px, x)) (greedy rem (map N q))"
  by (induction q arbitrary: rem) auto

lemma served_rung: "served rem (map (\<lambda>n. (px, N n)) q) = sum_list (map fst (greedy rem (map N q)))"
  by (simp add: served_def serve_rung comp_def case_prod_beta)

lemma rung_positive:
  assumes "hist_wf cap a h" shows "positive (rung s h px)"
  using core_qty_pos [OF hist_wf_core [OF assms]] by (auto simp: positive_def rung_def)

lemma positive_concat: "(\<And>xs. xs \<in> set xss \<Longrightarrow> positive xs) \<Longrightarrow> positive (concat xss)"
  by (induction xss) auto

lemma ladder_positive:
  assumes "hist_wf cap a h" shows "positive (ladder s h)"
  unfolding ladder_def using rung_positive [OF assms] by (intro positive_concat) auto

section \<open>The sweeps of paper aggressors\<close>

lemma sweep_level_serve:
  assumes "\<And>n. n \<in> set q \<Longrightarrow> 0 < on_qty (np_get P n)"
  shows "sweep_level sq ev px P q rem =
    (rem - served rem (map (\<lambda>n. (px, np_get P n)) q),
     map (\<lambda>(t, px, x). hist_fill sq ev px t x) (serve rem (map (\<lambda>n. (px, np_get P n)) q)))"
  using assms
proof (induction q arbitrary: rem)
  case (Cons n q)
  have "\<not> on_qty (np_get P n) \<le> 0" using Cons.prems [of n] by simp
  then show ?case
    using Cons by (auto simp: served_def Let_def)
qed (simp add: served_def)

text \<open>The part of the ladder whose prices a heap still holds.\<close>

definition covered :: "Side \<Rightarrow> Hist \<Rightarrow> int list \<Rightarrow> int list" where
  "covered s h heap = filter (\<lambda>px. heap_key s px \<in> set heap) (ladder_prices s h)"

lemma covered_all:
  assumes "hist_wf cap a h" shows "covered s h (h_heap s h) = ladder_prices s h"
proof -
  have "hm_wf (h_book s h)" "\<And>px. hq h s px \<noteq> [] \<Longrightarrow> heap_key s px \<in> set (h_heap s h)"
    using assms by (simp_all add: hist_wf_def maps_wf_def heap_covers_def)
  then show ?thesis using set_ladder_prices [of s h] by (auto simp: covered_def)
qed

lemma filter_desc_hd:
  assumes "desc s ps" "px \<in> set ps" "\<And>k. k \<in> K \<Longrightarrow> k \<le> heap_key s px"
  shows "filter (\<lambda>p. heap_key s p \<in> insert (heap_key s px) K) ps =
    px # filter (\<lambda>p. heap_key s p \<in> K - {heap_key s px}) ps"
  using assms(1,2)
proof (induction ps)
  case (Cons p ps)
  have less: "heap_key s q < heap_key s p" if "q \<in> set ps" for q using Cons.prems(1) that by (simp add: desc_def)
  show ?case
  proof (cases "p = px")
    case True
    have "filter (\<lambda>p. heap_key s p \<in> insert (heap_key s px) K) ps = filter (\<lambda>p. heap_key s p \<in> K - {heap_key s px}) ps"
      using less True by (intro filter_cong) auto
    with True show ?thesis by simp
  next
    case False
    with Cons.prems(2) have m: "px \<in> set ps" by simp
    have "heap_key s p \<notin> insert (heap_key s px) K"
      using less [OF m] assms(3) [of "heap_key s p"] by auto
    moreover have "desc s ps" using Cons.prems(1) by (simp add: desc_def)
    ultimately show ?thesis using Cons.IH m by simp
  qed
qed simp

lemma pq_prune_dropWhile: "pq_prune live heap = dropWhile (\<lambda>t. \<not> live t) heap"
  by (induction heap) auto

lemma prune_suffix: "\<exists>stale. heap = stale @ pq_prune live heap \<and> (\<forall>t \<in> set stale. \<not> live t)"
  unfolding pq_prune_dropWhile
  by (rule exI [of _ "takeWhile (\<lambda>t. \<not> live t) heap"]) (auto dest: set_takeWhileD)

lemma covered_prune:
  assumes wf: "hm_wf (h_book s h)"
  shows "covered s h (pq_prune (level_live s (h_book s h)) heap) = covered s h heap"
proof -
  let ?live = "level_live s (h_book s h)"
  obtain stale where st: "heap = stale @ pq_prune ?live heap" "\<forall>t \<in> set stale. \<not> ?live t"
    using prune_suffix [of heap ?live] by blast
  have "heap_key s px \<notin> set stale" if "px \<in> set (ladder_prices s h)" for px
  proof
    assume "heap_key s px \<in> set stale"
    with st(2) have "\<not> ?live (heap_key s px)" by blast
    then show False using that set_ladder_prices [OF wf] by (simp add: level_live_hq)
  qed
  moreover have "set heap = set stale \<union> set (pq_prune ?live heap)" using st(1) by (metis set_append)
  ultimately have "heap_key s px \<in> set (pq_prune ?live heap) \<longleftrightarrow> heap_key s px \<in> set heap"
    if "px \<in> set (ladder_prices s h)" for px
    using that by blast
  then show ?thesis unfolding covered_def by (intro filter_cong) auto
qed

lemma covered_step:
  assumes wf: "hm_wf (h_book s h)" and sorted: "pq_sorted (<) heap"
    and b: "best_opposite_price s (h_book s h) heap = (best, heap1)"
  shows "case best of None \<Rightarrow> covered s h heap = []
    | Some px \<Rightarrow> covered s h heap = px # covered s h (dropWhile (\<lambda>t. heap_key s t = px) heap1) \<and>
        pq_sorted (<) (dropWhile (\<lambda>t. heap_key s t = px) heap1) \<and>
        hm_find (h_book s h) px = Some (hq h s px)"
proof -
  let ?live = "level_live s (h_book s h)"
  have cp: "covered s h (pq_prune ?live heap) = covered s h heap" by (rule covered_prune [OF wf])
  show ?thesis
  proof (cases "pq_prune ?live heap")
    case Nil
    with b cp show ?thesis by (auto simp: best_opposite_price_prune covered_def)
  next
    case (Cons t ts)
    let ?px = "heap_key s t"
    have e: "best = Some ?px" "heap1 = t # ts" using b Cons by (auto simp: best_opposite_price_prune)
    have st: "pq_sorted (<) (t # ts)" using ipq.invar_prune [OF sorted, of ?live] Cons by simp
    have live: "?live t" using ipq.prune_top_live [OF sorted, of ?live] Cons by simp
    then have mem: "?px \<in> set (ladder_prices s h)"
      using set_ladder_prices [OF wf] by (simp add: level_live_hq)
    have dw: "dropWhile (\<lambda>u. heap_key s u = ?px) heap1 = dropWhile (\<lambda>u. u = t) ts"
      using e(2) by (simp add: heap_key_inj)
    have sdw: "set (dropWhile (\<lambda>u. u = t) ts) = set ts - {t}"
      using st
    proof (induction ts)
      case (Cons u ts)
      show ?case
      proof (cases "u = t")
        case True
        with Cons show ?thesis by (simp add: pq_sorted_def)
      next
        case False
        with Cons.prems have "u < t" by (simp add: pq_sorted_def)
        moreover have "\<forall>v \<in> set ts. v \<le> u" using Cons.prems by (auto simp: pq_sorted_def)
        ultimately show ?thesis using False by auto
      qed
    qed simp
    have "\<And>k. k \<in> set ts \<Longrightarrow> k \<le> heap_key s ?px" using st by (auto simp: pq_sorted_def)
    from filter_desc_hd [OF ladder_prices_desc [OF wf] mem this]
    have "covered s h (t # ts) = ?px # covered s h (dropWhile (\<lambda>u. u = t) ts)"
      by (simp add: covered_def sdw)
    moreover have "pq_sorted (<) (dropWhile (\<lambda>u. u = t) ts)"
      using st unfolding pq_sorted_def by (auto intro: sorted_wrt_dropWhile)
    moreover have "hm_find (h_book s h) ?px = Some (hq h s ?px)"
      using live by (auto simp: level_live_def hq_find split: option.splits)
    ultimately show ?thesis using e cp Cons dw by simp
  qed
qed

definition serve_fill :: "nat \<Rightarrow> NormalizedLobEvent \<Rightarrow> int \<times> int \<times> OrderNode \<Rightarrow> FillRecord" where
  "serve_fill sq ev = (\<lambda>(t, px, x). hist_fill sq ev px t x)"

definition rungs :: "Side \<Rightarrow> Hist \<Rightarrow> int list \<Rightarrow> (int \<times> OrderNode) list" where
  "rungs s h ps = concat (map (rung s h) ps)"

lemma rungs_simps [simp]:
  "rungs s h [] = []" "rungs s h (px # ps) = rung s h px @ rungs s h ps"
  by (simp_all add: rungs_def)

lemma ladder_rungs: "ladder s h = rungs s h (ladder_prices s h)"
  by (simp add: ladder_def rungs_def)

lemma rungs_positive: "hist_wf cap a h \<Longrightarrow> positive (rungs s h ps)"
  by (induction ps) (simp_all add: rung_positive)

lemma sweep_level_rung:
  assumes "hist_wf cap a h"
  shows "sweep_level sq ev px (order_pool h) (hq h s px) rem =
    (rem - served rem (rung s h px), map (serve_fill sq ev) (serve rem (rung s h px)))"
  using sweep_level_serve [of "hq h s px" "order_pool h" sq ev px rem]
    core_qty_pos [OF hist_wf_core [OF assms]]
  by (simp add: rung_def hn_def serve_fill_def)

lemma served_rungs:
  assumes "hist_wf cap a h"
  shows "served rem (rungs s h (px # ps)) =
      served rem (rung s h px) + served (rem - served rem (rung s h px)) (rungs s h ps)"
    and "serve rem (rungs s h (px # ps)) =
      serve rem (rung s h px) @ serve (rem - served rem (rung s h px)) (rungs s h ps)"
  using served_append [OF rung_positive [OF assms]] serve_append [OF rung_positive [OF assms]]
  by simp_all

lemma sweep_aggressive_covered:
  assumes wf: "hist_wf cap a h" and sorted: "pq_sorted (<) heap"
  shows "sweep_aggressive s sq ev h heap rem =
    (rem - served rem (rungs s h (covered s h heap)),
     map (serve_fill sq ev) (serve rem (rungs s h (covered s h heap))))"
  using sorted
proof (induction "length heap" arbitrary: heap rem rule: less_induct)
  case less
  have books: "hm_wf (h_book s h)" using wf by (simp add: hist_wf_def maps_wf_def)
  obtain best heap1 where b: "best_opposite_price s (h_book s h) heap = (best, heap1)" by fastforce
  note step = covered_step [OF books less.prems b]
  show ?case
  proof (cases "0 < rem \<and> best \<noteq> None")
    case False
    with step b show ?thesis by (subst sweep_aggressive.simps) auto
  next
    case True
    then obtain px where px: "best = Some px" by blast
    let ?heap2 = "dropWhile (\<lambda>t. heap_key s t = px) heap1"
    have cov: "covered s h heap = px # covered s h ?heap2" "pq_sorted (<) ?heap2"
      "hm_get [] (h_book s h) px = hq h s px"
      using step px by (simp_all add: hq_def)
    have "length ?heap2 < length heap"
      using best_opposite_price_shrinks [of px heap1 s "h_book s h" heap] b px by simp
    note IH = less.hyps [OF this cov(2)]
    show ?thesis
      using True b px cov IH served_rungs [OF wf, of rem s px "covered s h ?heap2"]
      by (subst sweep_aggressive.simps) (simp add: sweep_level_rung [OF wf] Let_def)
  qed
qed

lemma sweep_add_covered:
  assumes wf: "hist_wf cap a h" and sorted: "pq_sorted (<) heap"
  shows "sweep_add s sq ev h heap rem =
    (rem - served rem (rungs s h (takeWhile (price_crosses ev) (covered s h heap))),
     map (serve_fill sq ev) (serve rem (rungs s h (takeWhile (price_crosses ev) (covered s h heap)))))"
  using sorted
proof (induction "length heap" arbitrary: heap rem rule: less_induct)
  case less
  have books: "hm_wf (h_book s h)" using wf by (simp add: hist_wf_def maps_wf_def)
  obtain best heap1 where b: "best_opposite_price s (h_book s h) heap = (best, heap1)" by fastforce
  note step = covered_step [OF books less.prems b]
  show ?case
  proof (cases "0 < rem \<and> best \<noteq> None \<and> price_crosses ev (the best)")
    case False
    with step b show ?thesis by (subst sweep_add.simps) (auto split: option.splits)
  next
    case True
    then obtain px where px: "best = Some px" "price_crosses ev px" by auto
    let ?heap2 = "dropWhile (\<lambda>t. heap_key s t = px) heap1"
    have cov: "covered s h heap = px # covered s h ?heap2" "pq_sorted (<) ?heap2"
      "hm_get [] (h_book s h) px = hq h s px"
      using step px by (simp_all add: hq_def)
    have "length ?heap2 < length heap"
      using best_opposite_price_shrinks [of px heap1 s "h_book s h" heap] b px by simp
    note IH = less.hyps [OF this cov(2)]
    show ?thesis
      using True b px cov IH
        served_rungs [OF wf, of rem s px "takeWhile (price_crosses ev) (covered s h ?heap2)"]
      by (subst sweep_add.simps) (simp add: sweep_level_rung [OF wf] Let_def)
  qed
qed

section \<open>The whole book\<close>

text \<open>
  Prices go from the best to the worst, so those within the limit of an aggressor are a prefix of
  the ladder, and the part of the ladder they carry is its filter by price.
\<close>

lemma crosses_mono:
  assumes "s = opposite (ev_side ev)" "heap_key s px' \<le> heap_key s px" "price_crosses ev px'"
  shows "price_crosses ev px"
  using assms by (cases "ev_side ev") (auto simp: heap_key_def price_crosses_def)

lemma takeWhile_desc:
  assumes "desc s ps" "s = opposite (ev_side ev)"
  shows "takeWhile (price_crosses ev) ps = filter (price_crosses ev) ps"
  using assms(1)
proof (induction ps)
  case (Cons p ps)
  have "\<not> price_crosses ev q" if "q \<in> set ps" "\<not> price_crosses ev p" for q
    using crosses_mono [OF assms(2), of q p] Cons.prems that by (auto simp: desc_def)
  moreover have "desc s ps" using Cons.prems by (simp add: desc_def)
  ultimately show ?case using Cons.IH by (auto simp: filter_empty_conv)
qed simp

lemma filter_rungs: "filter (\<lambda>(px, x). P px) (rungs s h ps) = rungs s h (filter P ps)"
proof (induction ps)
  case (Cons p ps)
  then show ?case by (cases "P p") (simp_all add: rung_def filter_map comp_def)
qed simp

definition in_limit :: "NormalizedLobEvent \<Rightarrow> (int \<times> OrderNode) list \<Rightarrow> (int \<times> OrderNode) list" where
  \<comment> \<open>the orders an aggressor with a limit price may trade with\<close>
  "in_limit ev = filter (\<lambda>(px, x). price_crosses ev px)"

lemma sweep_aggressive_ladder:
  assumes "hist_wf cap a h"
  shows "sweep_aggressive s sq ev h (h_heap s h) rem =
    (rem - served rem (ladder s h), map (serve_fill sq ev) (serve rem (ladder s h)))"
proof -
  have "pq_sorted (<) (h_heap s h)" using assms by (simp add: hist_wf_def heap_covers_def)
  from sweep_aggressive_covered [OF assms this] show ?thesis
    by (simp add: covered_all [OF assms] ladder_rungs)
qed

text \<open>\<open>on_add\<close> sweeps a copy of the heap it has cleaned.\<close>

lemma sweep_add_ladder:
  assumes wf: "hist_wf cap a h" and s: "s = opposite (ev_side ev)"
    and b: "best_opposite_price s (h_book s h) (h_heap s h) = (best, heap1)"
  shows "sweep_add s sq ev h heap1 rem =
    (rem - served rem (in_limit ev (ladder s h)),
     map (serve_fill sq ev) (serve rem (in_limit ev (ladder s h))))"
proof -
  let ?live = "level_live s (h_book s h)"
  have books: "hm_wf (h_book s h)" and sorted: "pq_sorted (<) (h_heap s h)"
    using wf by (simp_all add: hist_wf_def maps_wf_def heap_covers_def)
  have heap1: "heap1 = pq_prune ?live (h_heap s h)"
    using b by (auto simp: best_opposite_price_prune split: list.splits)
  have "covered s h heap1 = ladder_prices s h"
    using covered_prune [OF books, of "h_heap s h"] covered_all [OF wf] heap1 by simp
  moreover have "pq_sorted (<) heap1" using ipq.invar_prune [OF sorted] heap1 by simp
  ultimately show ?thesis
    using sweep_add_covered [OF wf, of heap1] takeWhile_desc [OF ladder_prices_desc [OF books] s]
    by (simp add: ladder_rungs in_limit_def filter_rungs)
qed

text \<open>An aggressor whose limit is out of reach of the best price meets no order.\<close>

lemma in_limit_empty:
  assumes wf: "hist_wf cap a h" and s: "s = opposite (ev_side ev)"
    and b: "best_opposite_price s (h_book s h) (h_heap s h) = (best, heap1)"
    and n: "case best of None \<Rightarrow> True | Some px \<Rightarrow> \<not> price_crosses ev px"
  shows "in_limit ev (ladder s h) = []"
proof (cases "in_limit ev (ladder s h)")
  case (Cons y ys)
  obtain px x where "y = (px, x)" by fastforce
  then have "(px, x) \<in> set (in_limit ev (ladder s h))" using Cons by simp
  then have c: "price_crosses ev px" "hq h s px \<noteq> []"
    by (auto simp: in_limit_def ladder_def rung_def)
  moreover have "heap_covers h" using wf by (simp add: hist_wf_def)
  ultimately show ?thesis
    using best_opposite_price_best [OF _ b] n crosses_mono [OF s, of px]
    by (auto split: option.splits)
qed simp

end
