(* ===== verification/Ladder.thy ===== *)
theory Ladder
  imports EngineInv Sweep
begin

text \<open>
  What a historical aggressor does to the ladder of the opposite side: matching takes a prefix of
  the orders within its limit, best price first and oldest order first, and leaves the rest.
\<close>

section \<open>One level\<close>

lemma consume_level_left:
  assumes "consume_level sq ev px q r = (q', r')"
    and "distinct q" "\<forall>n \<in> set q. n \<in> np_live (order_pool (lr_hist r)) \<and> 0 < on_qty (hn (lr_hist r) n)"
    and "np_wf cap (order_pool (lr_hist r))"
  shows "map (\<lambda>n. (p, hn (lr_hist r') n)) q' =
    left_over (lr_remaining r) (map (\<lambda>n. (p, hn (lr_hist r) n)) q)"
  using assms
proof (induction q arbitrary: r)
  case Nil
  then show ?case by auto
next
  case (Cons n q)
  let ?h = "lr_hist r"
  have node: "run_node n r = hn ?h n" by (simp add: run_node_def hn_def)
  have n: "n \<in> np_live (order_pool ?h)" "0 < on_qty (hn ?h n)" "n \<notin> set q"
    using Cons.prems by auto
  from Cons.prems(1) show ?case
  proof (cases rule: consume_level_cases)
    case stop
    then show ?thesis by simp
  next
    case drop
    with n node show ?thesis by simp
  next
    case take_all
    let ?r = "run_drop n (run_take sq ev px n (on_qty (run_node n r)) r)"
    have pool: "np_live (order_pool (lr_hist ?r)) = np_live (order_pool ?h) - {n}"
      "np_wf cap (order_pool (lr_hist ?r))"
      using np.release_live [OF np_wf_set [OF Cons.prems(4)], of n n] n by simp_all
    have hn: "hn (lr_hist ?r) m = hn ?h m" if "m \<in> set q" for m
      using that n by (auto simp: hn_set_qty)
    have IH: "map (\<lambda>n. (p, hn (lr_hist r') n)) q' =
        left_over (lr_remaining ?r) (map (\<lambda>n. (p, hn (lr_hist ?r) n)) q)"
      by (rule Cons.IH [OF take_all(3)]) (use Cons.prems n pool hn in auto)
    have "map (\<lambda>n. (p, hn (lr_hist ?r) n)) q = map (\<lambda>n. (p, hn ?h n)) q"
      using hn by (intro map_cong) auto
    from IH [unfolded this] show ?thesis
      using n node take_all(1,2) by simp
  next
    case take_part
    have "map (\<lambda>m. (p, hn (lr_hist r') m)) q = map (\<lambda>m. (p, hn ?h m)) q"
      using take_part(4) n by (intro map_cong) (auto simp: hn_set_qty)
    with n node take_part show ?thesis by (simp add: hn_set_qty)
  qed
qed

lemma ladder_prices_unique:
  assumes "hm_wf (h_book s h)" "desc s ps" "set ps = {px. hq h s px \<noteq> []}"
  shows "ladder_prices s h = ps"
  using desc_unique [OF ladder_prices_desc [OF assms(1)] assms(2)] set_ladder_prices [OF assms(1)] assms(3)
  by simp

lemma match_one_level_ladder:
  assumes wf: "sim_wf st" and m: "match_one_level event px rem st = (rem', st')"
    and q: "hq (hist st) s px \<noteq> []" and rem: "0 < rem" and s: "s = opposite (ev_side event)"
    and lp: "ladder_prices s (hist st) = px # ps"
  shows "ladder s (hist st') = left_over rem (rung s (hist st) px) @ rungs s (hist st) ps"
    and "rem' = rem - served rem (rung s (hist st) px)"
proof -
  let ?h = "hist st" and ?q = "hq (hist st) s px"
  have hw: "hist_wf (historical_capacity st) (order_arrival_seq st) ?h" using wf by (simp add: sim_wf_def)
  note c = hist_wf_core [OF hw] and pool = hist_wf_pool [OF hw]
  define r0 where "r0 = \<lparr>lr_hist = ?h, lr_remaining = rem, lr_traded = 0, lr_deltas = [], lr_fills = []\<rparr>"
  obtain q' r where r: "consume_level (seq st) event px ?q r0 = (q', r)" by fastforce
  have live: "\<forall>n \<in> set ?q. n \<in> np_live (order_pool (lr_hist r0)) \<and> 0 < on_qty (hn (lr_hist r0) n)"
    using core_live [OF c] core_qty_pos [OF c] by (auto simp: r0_def)
  have dist: "distinct ?q" by (rule core_distinct [OF c])
  have pool0: "np_wf (historical_capacity st) (order_pool (lr_hist r0))" using pool by (simp add: r0_def)
  have left: "map (\<lambda>n. (px, hn (lr_hist r) n)) q' = left_over rem (rung s ?h px)"
    using consume_level_left [OF r dist live pool0, of px] by (simp add: r0_def rung_def)
  have books: "h_book s' (lr_hist r) = h_book s' ?h" for s'
    using consume_level_frame [OF r, of s'] by (simp add: r0_def)
  have hq: "hq (lr_hist r) s' p = hq ?h s' p" for s' p using books by (simp add: hq_def)
  have st': "hist st' = h_close_level s px q' (lr_hist r)"
    using m r books
    by (auto simp: match_one_level_def s [symmetric] r0_def hq_def [symmetric] Let_def h_close_level_def
        split: prod.splits if_splits)
  show "rem' = rem - served rem (rung s ?h px)"
    using match_one_level_wf(10) [OF wf m] q rem s by (simp add: served_rung rung_def)
  have wf': "hm_wf (h_book s (hist st'))"
    using match_one_level_wf(1) [OF wf m] q rem s by (simp add: sim_wf_def hist_wf_def maps_wf_def)
  have d: "desc s (px # ps)" "set (px # ps) = {px. hq ?h s px \<noteq> []}" "px \<notin> set ps"
    using ladder_prices_desc [of s ?h] set_ladder_prices [of s ?h] distinct_ladder_prices [of s ?h] hw lp
    by (simp_all add: hist_wf_def maps_wf_def)
  have hq': "hq (hist st') s p = (if p = px then q' else hq ?h s p)" for p using hq by (simp add: st')
  have "ladder_prices s (hist st') = (if q' = [] then ps else px # ps)"
    by (rule ladder_prices_unique [OF wf']) (use d in \<open>auto simp: hq' desc_def\<close>)
  moreover have "rung s (hist st') px = left_over rem (rung s ?h px)"
    using left by (simp add: rung_def hq' st')
  moreover have "rungs s (hist st') ps = rungs s ?h ps"
  proof -
    have "rung s (hist st') p = rung s ?h p" if "p \<in> set ps" for p
    proof -
      have "p \<noteq> px" using that d(3) by blast
      then have "n \<notin> set ?q" if "n \<in> set (hq ?h s p)" for n using core_unique [OF c] that by blast
      then have "hn (lr_hist r) n = hn ?h n" if "n \<in> set (hq ?h s p)" for n
        using consume_level_frame_nodes [OF r _ _ dist pool0] live that by (auto simp: r0_def)
      with \<open>p \<noteq> px\<close> show ?thesis by (simp add: rung_def st' hq cong: map_cong)
    qed
    then show ?thesis unfolding rungs_def by (metis map_cong)
  qed
  moreover have "rung s (hist st') px = []" if "q' = []" using that by (simp add: rung_def hq')
  ultimately show "ladder s (hist st') = left_over rem (rung s ?h px) @ rungs s ?h ps"
    by (auto simp: ladder_rungs)
qed

section \<open>The matching loop\<close>

definition beyond :: "NormalizedLobEvent \<Rightarrow> (int \<times> OrderNode) list \<Rightarrow> (int \<times> OrderNode) list" where
  "beyond ev = filter (\<lambda>(px, x). \<not> price_crosses ev px)"

lemma in_limit_rung:
  "price_crosses ev px \<Longrightarrow> in_limit ev (rung s h px @ xs) = rung s h px @ in_limit ev xs"
  "price_crosses ev px \<Longrightarrow> beyond ev (rung s h px @ xs) = beyond ev xs"
  by (auto simp: in_limit_def beyond_def rung_def filter_map comp_def)

lemma in_limit_nil_beyond: "in_limit ev xs = [] \<Longrightarrow> beyond ev xs = xs"
  by (auto simp: in_limit_def beyond_def filter_empty_conv intro: filter_True)

lemma left_over_prices: "fst ` set (left_over rem xs) \<subseteq> fst ` set xs"
proof (induction xs arbitrary: rem)
  case (Cons y xs)
  then show ?case by (cases y) auto
qed simp

lemma in_limit_left_over:
  assumes "price_crosses ev px"
  shows "in_limit ev (left_over rem (rung s h px) @ xs) = left_over rem (rung s h px) @ in_limit ev xs"
    and "beyond ev (left_over rem (rung s h px) @ xs) = beyond ev xs"
proof -
  have "p = px" if "(p, x) \<in> set (left_over rem (rung s h px))" for p x
    using left_over_prices [of rem "rung s h px"] that by (force simp: rung_def)
  then have "\<forall>y \<in> set (left_over rem (rung s h px)). price_crosses ev (fst y)" using assms by force
  then show "in_limit ev (left_over rem (rung s h px) @ xs) = left_over rem (rung s h px) @ in_limit ev xs"
    and "beyond ev (left_over rem (rung s h px) @ xs) = beyond ev xs"
    by (auto simp: in_limit_def beyond_def case_prod_beta filter_empty_conv)
qed

lemma desc_split:
  assumes "desc s ps" "s = opposite (ev_side ev)"
  shows "filter (price_crosses ev) ps @ filter (\<lambda>px. \<not> price_crosses ev px) ps = ps"
  using assms(1)
proof (induction ps)
  case (Cons p ps)
  have d: "desc s ps" "\<And>q. q \<in> set ps \<Longrightarrow> heap_key s q \<le> heap_key s p"
    using Cons.prems by (auto simp: desc_def)
  show ?case
  proof (cases "price_crosses ev p")
    case False
    then have "\<forall>q \<in> set ps. \<not> price_crosses ev q" using crosses_mono [OF assms(2)] d(2) by blast
    with False show ?thesis by (auto simp: filter_empty_conv intro!: filter_True)
  qed (use Cons.IH d in simp)
qed simp

lemma rungs_append: "rungs s h (ps @ qs) = rungs s h ps @ rungs s h qs"
  by (simp add: rungs_def)

lemma in_limit_beyond:
  assumes "hist_wf cap a h" "s = opposite (ev_side ev)"
  shows "in_limit ev (ladder s h) @ beyond ev (ladder s h) = ladder s h"
proof -
  have "desc s (ladder_prices s h)"
    using assms(1) by (intro ladder_prices_desc) (simp add: hist_wf_def maps_wf_def)
  from desc_split [OF this assms(2)] show ?thesis
    by (simp add: in_limit_def beyond_def ladder_rungs filter_rungs rungs_append [symmetric])
qed

lemma ladder_set_heap [simp]:
  "rung s (h_set_heap s' x h) = rung s h" "rungs s (h_set_heap s' x h) = rungs s h"
  "ladder_prices s (h_set_heap s' x h) = ladder_prices s h" "ladder s (h_set_heap s' x h) = ladder s h"
proof -
  show r: "rung s (h_set_heap s' x h) = rung s h" by (simp add: rung_def fun_eq_iff)
  then show "rungs s (h_set_heap s' x h) = rungs s h" by (intro ext) (simp add: rungs_def)
  then show "ladder_prices s (h_set_heap s' x h) = ladder_prices s h"
    "ladder s (h_set_heap s' x h) = ladder s h"
    by (simp_all add: ladder_prices_def ladder_rungs)
qed

lemma match_loop_ladder:
  assumes "match_loop event rem st = (rem', st')" "sim_wf st" "0 \<le> rem"
  shows "ladder (opposite (ev_side event)) (hist st') =
      left_over rem (in_limit event (ladder (opposite (ev_side event)) (hist st))) @
      beyond event (ladder (opposite (ev_side event)) (hist st)) \<and>
    rem' = rem - served rem (in_limit event (ladder (opposite (ev_side event)) (hist st)))"
  using assms
proof (induction event rem st arbitrary: rem' st' rule: match_loop.induct)
  case (1 event rem st)
  let ?s = "opposite (ev_side event)"
  let ?L = "ladder ?s (hist st)"
  note wf = "1.prems"(2)
  have hw: "hist_wf (historical_capacity st) (order_arrival_seq st) (hist st)" using wf by (simp add: sim_wf_def)
  show ?case
  proof (cases "0 < rem")
    case False
    with "1.prems" show ?thesis
      by (subst (asm) match_loop.simps)
        (use in_limit_beyond [OF hw refl] in simp)
  next
    case True
    obtain best heap' where b: "best_opposite_price ?s (h_book ?s (hist st)) (h_heap ?s (hist st)) = (best, heap')"
      by fastforce
    let ?st = "st\<lparr>hist := h_set_heap ?s heap' (hist st)\<rparr>"
    note wf1 = clean_heap [OF wf b]
    show ?thesis
    proof (cases "case best of None \<Rightarrow> True | Some px \<Rightarrow> \<not> price_crosses event px")
      case stop: True
      then have "rem' = rem" "st' = ?st"
        using "1.prems"(1) True b by (subst (asm) match_loop.simps, auto split: option.splits)+
      moreover have "in_limit event ?L = []" by (rule in_limit_empty [OF hw refl b stop])
      ultimately show ?thesis by (simp add: in_limit_nil_beyond)
    next
      case False
      then obtain px where px: "best = Some px" "price_crosses event px" by (auto split: option.splits)
      obtain r2 st2 where m: "match_one_level event px rem ?st = (r2, st2)" by fastforce
      have loop: "match_loop event r2 st2 = (rem', st')"
        using "1.prems"(1) True b px m by (subst (asm) match_loop.simps) (simp add: Let_def)
      have "heap_covers (hist st)" using hw by (simp add: hist_wf_def)
      note best = best_opposite_price_best [OF this b, unfolded px(1), simplified]
      have q: "hq (hist ?st) ?s px \<noteq> []" using best by simp
      have "hm_wf (h_book ?s (hist st))" using hw by (simp add: hist_wf_def maps_wf_def)
      then obtain ps where ps: "ladder_prices ?s (hist st) = px # ps"
        using ladder_prices_best [of ?s "hist st" px] best by metis
      let ?R = "rung ?s (hist st) px" and ?T = "rungs ?s (hist st) ps"
      have L: "?L = ?R @ ?T" by (simp add: ladder_rungs ps)
      have R: "positive ?R" by (rule rung_positive [OF hw])
      have step: "ladder ?s (hist st2) = left_over rem ?R @ ?T" "r2 = rem - served rem ?R"
        using match_one_level_ladder [OF wf1 m q True refl, of ps] ps by simp_all
      have wf2: "sim_wf st2" by (rule match_one_level_wf(1) [OF wf1 m q True])
      have r2: "0 \<le> r2" using step(2) served_min [OF R] True by simp
      have IH: "ladder ?s (hist st') = left_over r2 (in_limit event (ladder ?s (hist st2))) @
          beyond event (ladder ?s (hist st2)) \<and>
          rem' = r2 - served r2 (in_limit event (ladder ?s (hist st2)))"
        by (rule "1.IH" [OF _ refl b [symmetric] px(1) refl _ refl m [symmetric] loop wf2 r2])
          (use True px in auto)
      show ?thesis
      proof (cases "volume ?R < rem")
        case True
        with R have "left_over rem ?R = []" "served rem ?R = volume ?R"
          using left_over_all [OF R] served_min [OF R, of rem] \<open>0 < rem\<close> by simp_all
        with IH step L px(2) R \<open>0 < rem\<close> show ?thesis
          by (simp add: in_limit_rung left_over_append served_append)
      next
        case False
        then have "r2 = 0" "served rem ?R = rem" "rem - volume ?R \<le> 0"
          using step(2) served_min [OF R, of rem] \<open>0 < rem\<close> by simp_all
        moreover have "in_limit event (left_over rem ?R @ ?T) @ beyond event (left_over rem ?R @ ?T) =
            left_over rem ?R @ in_limit event ?T @ beyond event ?T"
          using in_limit_left_over px(2) by simp
        ultimately show ?thesis
          using IH step L px(2) R \<open>0 < rem\<close> by (simp add: in_limit_rung left_over_append served_append)
      qed
    qed
  qed
qed

end
