(* ===== verification/Queries.thy ===== *)
theory Queries
  imports Engine
begin

text \<open>
  The queries of \<open>PaperTradingSimulator\<close>: \<open>depth_at\<close>, \<open>l2_top_n\<close> and
  \<open>get_best_price_ticks\<close> (which cleans the mutable heap it reads).
\<close>

definition level_liquidity :: "OrderNode NodePool \<Rightarrow> nat list \<Rightarrow> int" where
  "level_liquidity P queue = fold (\<lambda>n acc. acc + on_qty (np_get P n)) queue 0"

definition depth_at :: "Side \<Rightarrow> int \<Rightarrow> Sim \<Rightarrow> int option" where
  "depth_at side price_ticks st =
     map_option (level_liquidity (order_pool (hist st))) (hm_find (h_book side (hist st)) price_ticks)"

type_synonym Level = "int \<times> int"

definition worse_on_top :: "Side \<Rightarrow> Level \<Rightarrow> Level \<Rightarrow> bool" where
  \<comment> \<open>\<open>cmp\<close>: the heap keeps the worst price on top\<close>
  "worse_on_top side a b = (if side = BUY then fst a > fst b else fst a < fst b)"

definition better_price :: "Side \<Rightarrow> int \<Rightarrow> int \<Rightarrow> bool" where
  "better_price side a b = (if side = BUY then a > b else a < b)"

fun top_n_scan ::
  "Side \<Rightarrow> nat \<Rightarrow> OrderNode NodePool \<Rightarrow> (int \<times> nat list) list \<Rightarrow> Level list \<Rightarrow> Level list" where
  "top_n_scan side n P [] heap = heap"
| "top_n_scan side n P ((price, queue) # book) heap =
     (let totalLiquidity = level_liquidity P queue in
      if totalLiquidity \<le> 0 then top_n_scan side n P book heap
      else
        let lvl = (price, totalLiquidity) in
        if length heap < n
        then top_n_scan side n P book (pq_push (worse_on_top side) lvl heap)
        else if better_price side (fst lvl) (fst (hd heap))
        then top_n_scan side n P book (pq_push (worse_on_top side) lvl (tl heap))
        else top_n_scan side n P book heap)"

definition l2_top_n :: "Side \<Rightarrow> nat \<Rightarrow> Sim \<Rightarrow> Level list" where
  "l2_top_n side n st =
     (let book = h_book side (hist st) in
      if book = [] \<or> n = 0 then []
      else
        let top = top_n_scan side n (order_pool (hist st)) book []
        in if side = BUY then sort_key (\<lambda>l. - fst l) top else sort_key fst top)"

definition get_best_price_ticks :: "Side \<Rightarrow> Sim \<Rightarrow> int option \<times> Sim" where
  "get_best_price_ticks side st =
     (let (best, heap') = best_opposite_price side (h_book side (hist st)) (h_heap side (hist st))
      in (best, st\<lparr>hist := h_set_heap side heap' (hist st)\<rparr>))"

end
