(* ===== verification/Snapshot.thy ===== *)
theory Snapshot
  imports Engine
begin

text \<open>
  \<open>clear_state\<close>, \<open>init_from_l2_snapshot\<close> and \<open>init_from_l3_snapshot\<close>. A snapshot that throws
  leaves the engine in the state it had reached, so the result is the state and, where the source
  throws, the error.
\<close>

datatype SnapshotError = SizeMismatch | DuplicatePrice | DuplicateOrderId

definition clear_state :: "Sim \<Rightarrow> Sim" where
  "clear_state st =
     emit_call OnReset
       (st\<lparr>hist := hist_clear (hist st), paper := paper_clear (paper st), order_arrival_seq := 0\<rparr>)"

definition snapshot_event :: "Side \<Rightarrow> int \<Rightarrow> int \<Rightarrow> int \<Rightarrow> int \<Rightarrow> NormalizedLobEvent" where
  "snapshot_event side price quantity oid tid =
     default_event\<lparr>ev_side := side, ev_update_type := ADD, ev_update_source := HISTORICAL,
       ev_price_ticks := price, ev_quantity_lots := quantity, ev_order_id := oid,
       ev_trader_id := tid\<rparr>"

section \<open>L2: one anonymous order per price level\<close>

definition l2_load_level :: "Side \<Rightarrow> int \<Rightarrow> int \<Rightarrow> Sim \<Rightarrow> Sim" where
  \<comment> \<open>the body of the loop after the duplicate check\<close>
  "l2_load_level side price quantity st =
     (case np_acquire default_OrderNode (historical_capacity st) (order_pool (hist st)) of
        (None, P) \<Rightarrow>
          emit_diagnostic (snapshot_event side price quantity UnknownOrderIdSentinel UnknownTraderIdSentinel)
            HISTORICAL_ORDER_POOL_EXHAUSTED ERROR (st\<lparr>hist := (hist st)\<lparr>order_pool := P\<rparr>\<rparr>)
      | (Some n, P) \<Rightarrow>
          let node = \<lparr>on_order_id = UnknownOrderIdSentinel, on_trader_id = UnknownTraderIdSentinel,
                      on_qty = quantity, on_source = HISTORICAL,
                      on_arrival_seq = order_arrival_seq st\<rparr>;
              h1 = (hist st)\<lparr>order_pool := np_set n node P\<rparr>;
              level = hm_get [] (h_book side h1) price;
              h2 = h_set_book side (hm_put price (level @ [n]) (h_book side h1)) h1;
              h3 = h_set_heap side (pq_push (<) (heap_key side price) (h_heap side h2)) h2
          in st\<lparr>hist := h3, order_arrival_seq := order_arrival_seq st + 1\<rparr>)"

fun l2_load :: "(Side \<times> int \<times> int) list \<Rightarrow> Sim \<Rightarrow> Sim \<times> SnapshotError option" where
  "l2_load [] st = (st, None)"
| "l2_load ((side, price, quantity) # rows) st =
     (if hm_contains (h_book side (hist st)) price then (st, Some DuplicatePrice)
      else l2_load rows (l2_load_level side price quantity st))"

definition init_from_l2_snapshot ::
  "Side list \<Rightarrow> int list \<Rightarrow> int list \<Rightarrow> Sim \<Rightarrow> Sim \<times> SnapshotError option" where
  "init_from_l2_snapshot sides prices quantities st =
     (let st1 = clear_state st; N = length sides in
      if N \<noteq> length prices \<or> N \<noteq> length quantities then (st1, Some SizeMismatch)
      else l2_load (zip sides (zip prices quantities)) st1)"

section \<open>L3: one order per row\<close>

definition l3_load_order :: "Side \<Rightarrow> int \<Rightarrow> int \<Rightarrow> int \<Rightarrow> int \<Rightarrow> Sim \<Rightarrow> Sim" where
  \<comment> \<open>\<open>book[price]\<close> creates the level before the node is acquired\<close>
  "l3_load_order side price quantity oid tid st =
     (let level = hm_get [] (h_book side (hist st)) price;
          newLevel = (level = []);
          h0 = h_set_book side (hm_put price level (h_book side (hist st))) (hist st)
      in case np_acquire default_OrderNode (historical_capacity st) (order_pool h0) of
        (None, P) \<Rightarrow>
          emit_diagnostic (snapshot_event side price quantity oid tid)
            HISTORICAL_ORDER_POOL_EXHAUSTED ERROR (st\<lparr>hist := h0\<lparr>order_pool := P\<rparr>\<rparr>)
      | (Some n, P) \<Rightarrow>
          let node = \<lparr>on_order_id = oid, on_trader_id = tid, on_qty = quantity,
                      on_source = HISTORICAL, on_arrival_seq = order_arrival_seq st\<rparr>;
              h1 = h0\<lparr>order_pool := np_set n node P\<rparr>;
              h2 = h_set_book side (hm_put price (level @ [n]) (h_book side h1)) h1;
              h3 = (if newLevel
                    then h_set_heap side (pq_push (<) (heap_key side price) (h_heap side h2)) h2
                    else h2);
              h4 = h3\<lparr>order_info := hm_emplace oid
                     \<lparr>oi_side = side, oi_price_ticks = price, oi_node = Some n\<rparr> (order_info h3)\<rparr>
          in st\<lparr>hist := h4, order_arrival_seq := order_arrival_seq st + 1\<rparr>)"

fun l3_load :: "(Side \<times> int \<times> int \<times> int \<times> int) list \<Rightarrow> Sim \<Rightarrow> Sim \<times> SnapshotError option" where
  "l3_load [] st = (st, None)"
| "l3_load ((side, price, quantity, oid, tid) # rows) st =
     (if hm_contains (order_info (hist st)) oid then (st, Some DuplicateOrderId)
      else l3_load rows (l3_load_order side price quantity oid tid st))"

definition init_from_l3_snapshot ::
  "Side list \<Rightarrow> int list \<Rightarrow> int list \<Rightarrow> int list \<Rightarrow> int list \<Rightarrow> Sim \<Rightarrow> Sim \<times> SnapshotError option"
where
  "init_from_l3_snapshot sides prices quantities order_ids trader_ids st =
     (let st1 = clear_state st; N = length sides in
      if N \<noteq> length prices \<or> N \<noteq> length quantities \<or> N \<noteq> length order_ids \<or> N \<noteq> length trader_ids
      then (st1, Some SizeMismatch)
      else l3_load (zip sides (zip prices (zip quantities (zip order_ids trader_ids)))) st1)"

definition sim_from_l2 ::
  "Side list \<Rightarrow> int list \<Rightarrow> int list \<Rightarrow> bool \<Rightarrow> nat \<Rightarrow> nat \<Rightarrow> Sim \<times> SnapshotError option" where
  \<comment> \<open>the constructor that takes a snapshot\<close>
  "sim_from_l2 sides prices quantities snk hcap pcap =
     init_from_l2_snapshot sides prices quantities (set_log_sink snk (sim_init hcap pcap))"

end
