(* ===== verification/EngineFacts.thy ===== *)
theory EngineFacts
  imports Ladder Queries Snapshot
begin

text \<open>
  Lemmas behind the properties of the engine: what an \<open>ADD\<close> does to the ladder of the other side,
  what a strategy event leaves alone, how the sequence number advances, how many orders there can
  be, and the small events the examples are built from.
\<close>

section \<open>Events for examples\<close>

definition hist_add :: "Side \<Rightarrow> int \<Rightarrow> int \<Rightarrow> int \<Rightarrow> NormalizedLobEvent" where
  "hist_add s px q i = default_event\<lparr>ev_side := s, ev_price_ticks := px, ev_quantity_lots := q, ev_order_id := i\<rparr>"

definition paper_add :: "Side \<Rightarrow> int \<Rightarrow> int \<Rightarrow> int \<Rightarrow> NormalizedLobEvent" where
  "paper_add s px q i = (hist_add s px q i)\<lparr>ev_update_source := STRATEGY\<rparr>"

lemma event_simps [simp]:
  "ev_side (hist_add s px q i) = s" "ev_price_ticks (hist_add s px q i) = px"
  "ev_quantity_lots (hist_add s px q i) = q" "ev_order_id (hist_add s px q i) = i"
  "ev_update_source (hist_add s px q i) = HISTORICAL" "ev_update_type (hist_add s px q i) = ADD"
  "ev_side (paper_add s px q i) = s" "ev_price_ticks (paper_add s px q i) = px"
  "ev_quantity_lots (paper_add s px q i) = q" "ev_order_id (paper_add s px q i) = i"
  "ev_update_source (paper_add s px q i) = STRATEGY" "ev_update_type (paper_add s px q i) = ADD"
  by (simp_all add: hist_add_def paper_add_def default_event_def)

lemma run_updates_wf: "sim_wf (run_updates evs (sim_init hcap pcap))"
  using run_updates_preserves_all [OF sim_wf_init] by (simp add: preserves_def)

section \<open>The ladder after an \<open>ADD\<close>\<close>

lemma ladder_cong:
  assumes "hm_wf (h_book s h)" "hm_wf (h_book s h')" "\<And>px. hq h' s px = hq h s px"
    and "\<And>px n. n \<in> set (hq h s px) \<Longrightarrow> hn h' n = hn h n"
  shows "ladder s h' = ladder s h"
proof -
  have "ladder_prices s h' = ladder_prices s h"
    by (rule ladder_prices_unique [OF assms(2) ladder_prices_desc [OF assms(1)]])
      (simp add: set_ladder_prices [OF assms(1)] assms(3))
  moreover have "rung s h' = rung s h"
    by (rule ext) (simp add: rung_def assms(3,4) cong: map_cong)
  ultimately show ?thesis by (simp add: ladder_def)
qed

lemma sim_wf_hist: "sim_wf st \<Longrightarrow> hist_wf (historical_capacity st) (order_arrival_seq st) (hist st)"
  by (simp add: sim_wf_def)

lemma sim_wf_books: "sim_wf st \<Longrightarrow> hm_wf (h_book s (hist st))"
  by (simp add: sim_wf_def hist_wf_def maps_wf_def)

lemma rest_historical_hist:
  "hist (rest_historical event rem st) =
     snd (h_rest_order event rem (order_arrival_seq st) (historical_capacity st) (hist st))"
  by (simp add: rest_historical_def Let_def split: prod.splits option.splits)

lemma rest_historical_ladder:
  assumes wf: "sim_wf st" and rem: "0 < rem" and s: "s = opposite (ev_side event)"
    and fresh: "hm_find (order_info (hist st)) (ev_order_id event) = None"
  shows "ladder s (hist (rest_historical event rem st)) = ladder s (hist st)"
proof -
  note hw = sim_wf_hist [OF wf]
  obtain r h where r: "h_rest_order event rem (order_arrival_seq st) (historical_capacity st) (hist st) = (r, h)"
    by fastforce
  show ?thesis
  proof (cases r)
    case None
    with h_rest_order_None [OF hw r [unfolded None]] r show ?thesis by (simp add: rest_historical_hist)
  next
    case (Some n)
    note rest = h_rest_order_Some [OF hw r [unfolded Some] rem fresh]
    have "ladder s h = ladder s (hist st)"
    proof (rule ladder_cong)
      show "hm_wf (h_book s (hist st))" by (rule sim_wf_books [OF wf])
      show "hm_wf (h_book s h)" using rest(1) by (simp add: hist_wf_def maps_wf_def)
      show "hq h s px = hq (hist st) s px" for px using rest(3) s by simp
      show "hn h m = hn (hist st) m" if "m \<in> set (hq (hist st) s px)" for m px
        using rest(5) core_live [OF hist_wf_core [OF hw] that] by blast
    qed
    with r show ?thesis by (simp add: rest_historical_hist)
  qed
qed

lemma on_add_historical_ladder:
  assumes wf: "sim_wf st" and d: "\<not> add_is_duplicate event st" and q: "0 \<le> ev_quantity_lots event"
    and s: "s = opposite (ev_side event)"
  shows "ladder s (hist (on_add_historical event st)) =
    left_over (ev_quantity_lots event) (in_limit event (ladder s (hist st))) @ beyond event (ladder s (hist st))"
proof -
  let ?q = "ev_quantity_lots event" and ?L = "ladder s (hist st)"
  obtain best heap' where b: "best_opposite_price s (h_book s (hist st)) (h_heap s (hist st)) = (best, heap')"
    by fastforce
  define st1 where "st1 = st\<lparr>hist := h_set_heap s heap' (hist st)\<rparr>"
  have wf1: "sim_wf st1" unfolding st1_def by (rule clean_heap [OF wf b])
  define crosses where "crosses = (case best of None \<Rightarrow> False | Some px \<Rightarrow> price_crosses event px)"
  obtain rem st2 where m: "(if crosses then match_loop event ?q st1 else (?q, st1)) = (rem, st2)"
    by fastforce
  have st2: "ladder s (hist st2) = left_over ?q (in_limit event ?L) @ beyond event ?L"
      "sim_wf st2" "hm_find (order_info (hist st2)) (ev_order_id event) = None"
  proof -
    have "ladder s (hist st2) = left_over ?q (in_limit event ?L) @ beyond event ?L \<and> sim_wf st2 \<and>
      hm_find (order_info (hist st2)) (ev_order_id event) = None"
    proof (cases crosses)
      case True
      with m have "match_loop event ?q st1 = (rem, st2)" by simp
      from match_loop_ladder [OF this wf1 q] match_loop_wf [OF this wf1] add_not_duplicate [OF d] show ?thesis
        by (simp add: s st1_def keeps_def)
    next
      case False
      then have "in_limit event ?L = []"
        by (intro in_limit_empty [OF sim_wf_hist [OF wf] s b]) (simp add: crosses_def split: option.splits)
      with False m wf1 add_not_duplicate [OF d] show ?thesis by (auto simp: st1_def in_limit_nil_beyond)
    qed
    then show "ladder s (hist st2) = left_over ?q (in_limit event ?L) @ beyond event ?L"
      "sim_wf st2" "hm_find (order_info (hist st2)) (ev_order_id event) = None" by blast+
  qed
  obtain rem' p fs where h: "hit_paper_loop (seq st2) event (price_crosses event) rem (paper st2) = ((rem', p), fs)"
    by (metis prod.exhaust)
  have "paper_wf (paper_capacity st2) (order_arrival_seq st2) (paper st2)" using st2(2) by (simp add: sim_wf_def)
  note hw = hit_paper_loop_wf [OF h this]
  define st3 where "st3 = emit_fills fs (st2\<lparr>paper := p\<rparr>)"
  have st3: "sim_wf st3" "hist st3 = hist st2" unfolding st3_def using sim_wf_paper [OF st2(2)] hw by simp_all
  have "on_add_historical event st = (if 0 < rem' then rest_historical event rem' st3 else st3)"
  proof (cases crosses)
    case True
    with b m h show ?thesis
      by (simp add: on_add_historical_def Let_def s [symmetric] st1_def [symmetric] crosses_def [symmetric] st3_def)
  next
    case False
    with m have "st2 = st1" "rem = ?q" by simp_all
    with b h False show ?thesis
      by (simp add: on_add_historical_def Let_def st1_def crosses_def [symmetric] st3_def s)
  qed
  with rest_historical_ladder [OF st3(1) _ s, of rem'] st3(2) st2 show ?thesis by simp
qed

section \<open>Strategy events\<close>

lemma on_add_paper_hist: "hist (on_add_paper event st) = hist st"
  by (auto simp: on_add_paper_def rest_paper_def Let_def split: prod.splits bool.splits)

lemma strategy_hist:
  assumes "ev_update_source event = STRATEGY" "ev_update_type event \<noteq> MATCH"
  shows "hist (update event st) = hist st"
proof -
  have "hist (dispatch event st) = hist st" for st
    using assms
    by (cases "ev_update_type event")
      (auto simp: dispatch_def on_add_def on_add_paper_hist on_aggressive_trade_def on_delete_def
        on_subtract_def on_set_def Let_def split: prod.splits)
  then show ?thesis by (simp add: update_def Let_def)
qed

lemma on_add_paper_fills:
  assumes wf: "sim_wf st" and s: "s = opposite (ev_side event)"
  shows "on_add_paper event st =
    (let L = in_limit event (ladder s (hist st)); q = ev_quantity_lots event;
         st1 = emit_fills (map (serve_fill (seq st) event) (serve q L)) st
     in if q - served q L > 0 then rest_paper event (q - served q L) st1 else st1)"
proof -
  obtain best heap1 where b: "best_opposite_price s (h_book s (hist st)) (h_heap s (hist st)) = (best, heap1)"
    by fastforce
  note hw = sim_wf_hist [OF wf]
  show ?thesis
  proof (cases "case best of None \<Rightarrow> False | Some px \<Rightarrow> price_crosses event px")
    case True
    with b sweep_add_ladder [OF hw s b] show ?thesis
      by (auto simp: on_add_paper_def Let_def s)
  next
    case False
    then have "in_limit event (ladder s (hist st)) = []"
      by (intro in_limit_empty [OF hw s b]) (simp split: option.splits)
    with False b show ?thesis
      by (auto simp: on_add_paper_def Let_def s split: option.splits)
  qed
qed

lemma calls_emit [simp]:
  "calls (emit_fills fs st) = (if sink st then calls st @ map OnFill fs else calls st)"
  "fills_of (calls (emit_diagnostic event code sev st)) = fills_of (calls st)"
  by (simp_all add: emit_fills_def emit_diagnostic_def emit_call_def)

lemma rest_paper_effect:
  assumes wf: "sim_wf st" and rem: "0 < rem"
    and fresh: "hm_find (paper_order_info (paper st)) (ev_order_id event) = None"
      "hm_find (paper_orders (paper st)) (ev_order_id event) = None"
  shows "fills_of (calls (rest_paper event rem st)) = fills_of (calls st) \<and>
    hm_find (paper_orders (paper (rest_paper event rem st))) (ev_order_id event) =
      (if card (np_live (paper_pool (paper st))) < paper_capacity st
       then Some \<lparr>po_original_event = event,
         po_status = (if rem < ev_quantity_lots event then PO_PARTIALLY_FILLED else PO_OPEN),
         po_remaining_qty = rem, po_placement_seq = order_arrival_seq st,
         po_paper_index = (case find_paper_level (ev_side event) (ev_price_ticks event) (paper st) of
           None \<Rightarrow> 0 | Some l \<Rightarrow> pl_next_paper_index l)\<rparr>
       else None)"
proof -
  have pw: "paper_wf (paper_capacity st) (order_arrival_seq st) (paper st)" using wf by (simp add: sim_wf_def)
  have pool: "np_wf (paper_capacity st) (paper_pool (paper st))" using pw by (simp add: paper_wf_def)
  obtain b p where r: "p_rest_order event rem (order_arrival_seq st) (paper_capacity st) (hist st) (paper st) = (b, p)"
    by fastforce
  show ?thesis
  proof (cases b)
    case True
    with r have r': "p_rest_order event rem (order_arrival_seq st) (paper_capacity st) (hist st) (paper st) = (True, p)"
      by simp
    have "fst (np_acquire default_PaperOrderNode (paper_capacity st) (paper_pool (paper st))) \<noteq> None"
      using r' by (auto simp: p_rest_order_def Let_def split: prod.splits option.splits)
    then have "card (np_live (paper_pool (paper st))) < paper_capacity st"
      using np.acquire_None_iff_full [OF pool] np.live_bound [OF pool] by (metis order_le_less)
    with p_rest_order_True(4) [OF pw r' rem fresh(1)] r' show ?thesis by (simp add: rest_paper_def)
  next
    case False
    with r p_rest_order_False [OF pw, of event rem "hist st" p] fresh show ?thesis
      by (simp add: rest_paper_def)
  qed
qed

section \<open>The sequence number\<close>

lemma match_one_level_seq: "seq (snd (match_one_level event px rem st)) = seq st"
  by (auto simp: match_one_level_def Let_def split: prod.splits)

lemma match_loop_seq: "match_loop event rem st = (rem', st') \<Longrightarrow> seq st' = seq st"
proof (induction event rem st arbitrary: rem' st' rule: match_loop.induct)
  case (1 event rem st)
  let ?s = "opposite (ev_side event)"
  obtain best heap' where b: "best_opposite_price ?s (h_book ?s (hist st)) (h_heap ?s (hist st)) = (best, heap')"
    by fastforce
  let ?st = "st\<lparr>hist := h_set_heap ?s heap' (hist st)\<rparr>"
  show ?case
  proof (cases "0 < rem \<and> best \<noteq> None \<and> price_crosses event (the best)")
    case False
    with "1.prems" b show ?thesis
      by (subst (asm) match_loop.simps) (auto simp: Let_def split: option.splits if_splits)
  next
    case True
    then obtain px where px: "best = Some px" "price_crosses event px" "0 < rem" by auto
    obtain r2 st2 where m: "match_one_level event px rem ?st = (r2, st2)" by fastforce
    have loop: "match_loop event r2 st2 = (rem', st')"
      using "1.prems" b px m by (subst (asm) match_loop.simps) (simp add: Let_def)
    have "seq st' = seq st2"
      by (rule "1.IH" [OF _ refl b [symmetric] px(1) refl _ refl m [symmetric] loop]) (use px in auto)
    with match_one_level_seq [of event px rem ?st] m show ?thesis by simp
  qed
qed

lemma rest_seq [simp]:
  "seq (rest_historical event rem st) = seq st" "seq (rest_paper event rem st) = seq st"
  by (auto simp: rest_historical_def rest_paper_def Let_def split: prod.splits option.splits bool.splits)

lemma on_add_seq: "seq (on_add event st) = seq st"
  by (auto simp: on_add_def on_add_historical_def on_add_paper_def Let_def match_loop_seq
      split: prod.splits if_splits option.splits dest!: match_loop_seq)

lemma cancel_seq: "seq (on_partial_order_cancel event t st) = seq st"
  by (auto simp: on_partial_order_cancel_def Let_def split: prod.splits option.splits)

lemma update_seq:
  "seq (update event st) = seq st +
     (if ev_update_type event = AGGRESSIVE_TRADE \<and> ev_update_source event = STRATEGY
         \<and> 0 < ev_quantity_lots event then 2 else 1)"
proof -
  have "seq (on_delete event st) = seq st" "seq (on_set event st) = seq st" for st
    by (auto simp: on_delete_def on_set_def Let_def split: prod.splits option.splits)
  then have "seq (dispatch event st) = seq st +
     (if ev_update_type event = AGGRESSIVE_TRADE \<and> ev_update_source event = STRATEGY
         \<and> 0 < ev_quantity_lots event then 1 else 0)" for st
    by (cases "ev_update_type event")
      (auto simp: dispatch_def on_add_seq cancel_seq on_match_def on_subtract_def on_aggressive_trade_def
        Let_def split: prod.splits)
  then show ?thesis by (simp add: update_def Let_def)
qed

section \<open>How many orders\<close>

lemma index_le_pool:
  assumes "hm_wf m" "finite L" "card L \<le> cap"
    and node: "\<And>i. hm_find m i \<noteq> None \<Longrightarrow> \<exists>n \<in> L. f n = i"
  shows "length m \<le> cap"
proof -
  have "fst ` set m \<subseteq> f ` L"
    using node by (force simp: hm_find_None_iff)
  then have "card (fst ` set m) \<le> card (f ` L)" using assms(2) by (simp add: card_mono)
  also have "\<dots> \<le> card L" using assms(2) by (rule card_image_le)
  finally have "card (fst ` set m) \<le> cap" using assms(3) by simp
  moreover have "card (fst ` set m) = length m"
    using assms(1) by (metis distinct_card hm_wf_def length_map set_map)
  ultimately show ?thesis by simp
qed

lemma order_info_bound:
  assumes "hist_wf cap a h" shows "length (order_info h) \<le> cap"
proof (rule index_le_pool [where f = "\<lambda>n. on_order_id (hn h n)"])
  note c = hist_wf_core [OF assms]
  show "hm_wf (order_info h)" using assms by (simp add: hist_wf_def maps_wf_def)
  show "finite (np_live (order_pool h))" "card (np_live (order_pool h)) \<le> cap"
    using np_live_bound [OF hist_wf_pool [OF assms]] by simp_all
  show "\<exists>n \<in> np_live (order_pool h). on_order_id (hn h n) = i" if "hm_find (order_info h) i \<noteq> None" for i
    using that core_index_node [OF c] core_live [OF c] by blast
qed

lemma paper_orders_bound:
  assumes "paper_wf cap a p" shows "length (paper_orders p) \<le> cap"
proof (rule index_le_pool [where f = "pid p"])
  have c: "pcore (pq p) (pid p) (np_live (paper_pool p)) (hm_find (paper_order_info p)) (hm_find (paper_orders p)) a"
    and pool: "np_wf cap (paper_pool p)" using assms by (simp_all add: paper_wf_def)
  show "hm_wf (paper_orders p)" using assms by (simp add: paper_wf_def pmaps_wf_def)
  show "finite (np_live (paper_pool p))" "card (np_live (paper_pool p)) \<le> cap"
    using np_live_bound [OF pool] by simp_all
  show "\<exists>n \<in> np_live (paper_pool p). pid p n = i" if x: "hm_find (paper_orders p) i \<noteq> None" for i
  proof -
    obtain info where "hm_find (paper_order_info p) i = Some info"
      using c x by (auto simp: pcore_def pcore_index_def)
    then obtain n where "n \<in> set (pq p (pi_side info) (pi_price_ticks info))" "pid p n = i"
      using c by (auto simp: pcore_def pcore_index_def)
    with c show ?thesis by (auto simp: pcore_def pcore_nodes_def)
  qed
qed

end
