(* ===== verification/PaperQueue.thy ===== *)
theory PaperQueue
  imports EngineInv
begin

text \<open>
  The queue position of a paper order as a closed form. \<open>queue_due\<close> says what each order of a level
  gets from volume that trades there: what exceeds the market lots, the paper lots and the ghost lots
  ahead of it, where ghosts are lots that the tree of the level still counts although no order rests
  with them. \<open>apply_paper_trade_at_level\<close> computes exactly that on every level of a well-formed
  state, and \<open>trade_against_paper_level\<close> is what makes ghosts: one lot for each lot of an order that
  it fills in full.
\<close>

section \<open>Paper lots ahead\<close>

lemma level_num_ahead:
  assumes l: "level_num l rs" and d: "distinct (map fst rs)" and i: "i \<le> pl_next_paper_index l"
  shows "sum_list (map snd (filter (\<lambda>x. fst x < i) rs)) \<le> fw_sum (pl_paper_qty l) i \<and>
    (pl_queued_lots l = sum_list (map snd rs) \<longrightarrow>
       fw_sum (pl_paper_qty l) i = sum_list (map snd (filter (\<lambda>x. fst x < i) rs)))"
proof -
  obtain f where f: "length (pl_paper_qty l) - 1 = pl_next_paper_index l" "fw_rep (pl_paper_qty l) f"
      "\<And>k. 0 \<le> f k" "pl_queued_lots l = (\<Sum>k<pl_next_paper_index l. f k)"
      "\<And>j q. (j, q) \<in> set rs \<Longrightarrow> j < pl_next_paper_index l \<and> f j = q"
    by (rule level_numE [OF l]) blast
  let ?J = "set (map fst rs)" and ?m = "pl_next_paper_index l"
  have psum: "fw_sum (pl_paper_qty l) i = (\<Sum>k<i. f k)"
    by (rule fw_sum_rep [OF f(2)]) (use f(1) i in simp)
  have snd: "map snd xs = map f (map fst xs)" if "set xs \<subseteq> set rs" for xs
  proof -
    have "snd x = f (fst x)" if "x \<in> set xs" for x using f(5) [of "fst x" "snd x"] that \<open>set xs \<subseteq> set rs\<close> by auto
    then show ?thesis by simp
  qed
  have dist: "distinct (map fst (filter (\<lambda>x. fst x < i) rs))" using d by (simp add: distinct_map_filter)
  have part: "sum_list (map snd (filter (\<lambda>x. fst x < i) rs)) = sum f (?J \<inter> {..<i})"
  proof -
    have "sum_list (map snd (filter (\<lambda>x. fst x < i) rs)) = sum f (set (map fst (filter (\<lambda>x. fst x < i) rs)))"
      using dist by (subst snd) (auto simp only: sum_list_distinct_conv_sum_set filter_is_subset)
    moreover have "set (map fst (filter (\<lambda>x. fst x < i) rs)) = ?J \<inter> {..<i}" by auto
    ultimately show ?thesis by simp
  qed
  have all: "sum_list (map snd rs) = sum f ?J"
    using d snd [of rs] by (simp only: sum_list_distinct_conv_sum_set subset_refl)
  have J: "?J \<subseteq> {..<?m}" using f(5) by auto
  have "sum f (?J \<inter> {..<i}) \<le> (\<Sum>k<i. f k)" by (rule sum_mono2) (use f(3) in auto)
  moreover have "(\<Sum>k<i. f k) = sum f (?J \<inter> {..<i})" if "pl_queued_lots l = sum_list (map snd rs)"
  proof -
    have "sum f {..<?m} = sum f ({..<?m} - ?J) + sum f ?J"
      using J by (intro sum.subset_diff) auto
    then have "sum f ({..<?m} - ?J) = 0" using that f(4) all by simp
    then have z: "\<forall>k \<in> {..<?m} - ?J. f k = 0" using f(3) by (subst (asm) sum_nonneg_eq_0_iff) auto
    show ?thesis by (rule sum.mono_neutral_right) (use z i in auto)
  qed
  ultimately show ?thesis using psum part by simp
qed

definition exact :: "PaperOrderLevel \<Rightarrow> Paper \<Rightarrow> bool" where
  \<comment> \<open>the level's total is the sum of what its orders rest with\<close>
  "exact l p \<longleftrightarrow> pl_queued_lots l = sum_list (map (\<lambda>n. po_remaining_qty (pdata p n)) (pl_orders l))"

lemma rest_of_snd: "map snd (rest_of p ns) = map (\<lambda>n. po_remaining_qty (pdata p n)) ns"
  by (simp add: rest_of_def comp_def)

lemma rest_of_distinct:
  assumes wf: "open_wf cap a s px l p"
  shows "distinct (map fst (rest_of p (pl_orders l)))"
proof -
  have "distinct (pl_orders l)" using pcore_distinct [OF open_wf_core [OF wf], of s px] by simp
  moreover have "inj_on (\<lambda>n. po_paper_index (pdata p n)) (set (pl_orders l))"
    using open_index_inj [OF wf] by (intro inj_onI) metis
  ultimately show ?thesis by (simp add: rest_of_def comp_def distinct_map)
qed

definition ghost_lots :: "PaperOrderLevel \<Rightarrow> Paper \<Rightarrow> int" where
  \<comment> \<open>what the level counts beyond the lots of its orders\<close>
  "ghost_lots l p = pl_queued_lots l - sum_list (map (\<lambda>n. po_remaining_qty (pdata p n)) (pl_orders l))"

lemma exact_ghosts: "exact l p \<longleftrightarrow> ghost_lots l p = 0"
  by (simp add: exact_def ghost_lots_def)

lemma paper_ahead:
  assumes wf: "open_wf cap a s px l p" and q: "pl_orders l = ns @ n # ms"
  shows "sum_list (map (\<lambda>m. po_remaining_qty (pdata p m)) ns) \<le>
      fw_sum (pl_paper_qty l) (po_paper_index (pdata p n)) \<and> 0 \<le> ghost_lots l p \<and>
    (exact l p \<longrightarrow> fw_sum (pl_paper_qty l) (po_paper_index (pdata p n)) =
      sum_list (map (\<lambda>m. po_remaining_qty (pdata p m)) ns))"
proof -
  let ?rs = "rest_of p (pl_orders l)" and ?i = "po_paper_index (pdata p n)"
  note num = open_wf_num [OF wf] and d = rest_of_distinct [OF wf]
  have "n \<in> set (pl_orders l)" using q by simp
  from open_in_rest [OF this, of p] num have i: "?i < pl_next_paper_index l" by (auto simp: level_num_def)
  have "sorted_wrt (\<lambda>m n. placed_before (the (hm_find (paper_orders p) (pid p m)))
      (the (hm_find (paper_orders p) (pid p n)))) (ns @ n # ms)"
    using pcore_sorted [OF open_wf_core [OF wf], of s px] q by simp
  then have "filter (\<lambda>x. fst x < ?i) ?rs = rest_of p ns"
    by (auto simp: q rest_of_def sorted_wrt_append filter_empty_conv placed_before_def pdata_def
        intro!: filter_True)
  with level_num_ahead [OF num d, of ?i] level_num_bound [OF num d] i show ?thesis
    by (simp add: rest_of_snd ghost_lots_def exact_def)
qed

lemma level_sum_add:
  assumes num: "level_num l rs" and i: "(i, r) \<in> set rs" and j: "(j, q) \<in> set rs"
  shows "fw_sum (fw_add i d (pl_paper_qty l)) j = fw_sum (pl_paper_qty l) j + (if i < j then d else 0)"
proof -
  obtain f where f: "length (pl_paper_qty l) - 1 = pl_next_paper_index l" "fw_rep (pl_paper_qty l) f"
      "\<And>j q. (j, q) \<in> set rs \<Longrightarrow> j < pl_next_paper_index l \<and> f j = q"
    by (rule level_numE [OF num]) blast
  have b: "i < length (pl_paper_qty l) - 1" "j < length (pl_paper_qty l) - 1"
    using f(1) f(3) [OF i] f(3) [OF j] by simp_all
  have "fw_sum (fw_add i d (pl_paper_qty l)) j = (\<Sum>k<j. (f(i := f i + d)) k)"
    by (rule fw_sum_rep [OF fw_rep_add [OF f(2) b(1)]]) (use b in simp)
  also have "\<dots> = fw_sum (pl_paper_qty l) j + (if i < j then d else 0)"
    using fw_sum_rep [OF f(2), of j] b by (simp add: sum_fun_upd_int del: fun_upd_apply)
  finally show ?thesis .
qed

lemma order_sum_add:
  assumes wf: "open_wf cap a s px l p" and q: "pl_orders l = n # ms" and m: "m \<in> set ms"
  shows "fw_sum (fw_add (po_paper_index (pdata p n)) d (pl_paper_qty l)) (po_paper_index (pdata p m)) =
    fw_sum (pl_paper_qty l) (po_paper_index (pdata p m)) + d"
proof -
  have "sorted_wrt (\<lambda>m n. placed_before (the (hm_find (paper_orders p) (pid p m)))
      (the (hm_find (paper_orders p) (pid p n)))) (n # ms)"
    using pcore_sorted [OF open_wf_core [OF wf], of s px] q by simp
  then have "po_paper_index (pdata p n) < po_paper_index (pdata p m)"
    using m by (simp add: placed_before_def pdata_def)
  then show ?thesis
    using level_sum_add [OF open_wf_num [OF wf] open_in_rest open_in_rest, of n m d] q m by simp
qed

section \<open>The closed form\<close>

fun queue_due :: "int \<Rightarrow> int \<Rightarrow> (int \<times> int \<times> int \<times> PaperOrder) list \<Rightarrow> (int \<times> int \<times> PaperOrder) list" where
  \<comment> \<open>the entries are the market lots ahead, the ghost lots ahead, the id and the order; \<open>P\<close> counts
    the paper lots ahead, and the ghosts that were waited for\<close>
  "queue_due T P [] = []"
| "queue_due T P ((M, G, i, x) # xs) =
     (let due = min (po_remaining_qty x) (T - M - G - P)
      in if due \<le> 0 then [] else (due, i, x) # queue_due T (P + G + po_remaining_qty x) xs)"

fun waiting :: "PaperOrderLevel \<Rightarrow> Paper \<Rightarrow> int \<Rightarrow> nat list \<Rightarrow> (int \<times> int \<times> int \<times> PaperOrder) list" where
  \<comment> \<open>\<open>P\<close> counts the lots of the orders ahead; the tree holds them and the ghosts\<close>
  "waiting l p P [] = []"
| "waiting l p P (n # ns) =
     (let x = pdata p n
      in (market_ahead l (po_placement_seq x), fw_sum (pl_paper_qty l) (po_paper_index x) - P, pid p n, x) #
         waiting l p (P + po_remaining_qty x) ns)"

lemma waiting_split:
  "waiting l p P (us @ n # vs) = waiting l p P us @
     (market_ahead l (po_placement_seq (pdata p n)),
      fw_sum (pl_paper_qty l) (po_paper_index (pdata p n)) - P - sum_list (map (\<lambda>m. po_remaining_qty (pdata p m)) us),
      pid p n, pdata p n) #
     waiting l p (P + sum_list (map (\<lambda>m. po_remaining_qty (pdata p m)) us) + po_remaining_qty (pdata p n)) vs"
  by (induction us arbitrary: P) (simp_all add: Let_def algebra_simps)

lemma waiting_mem:
  assumes "e \<in> set (waiting l p P ns)"
  obtains us n vs where "ns = us @ n # vs" "e = (market_ahead l (po_placement_seq (pdata p n)),
      fw_sum (pl_paper_qty l) (po_paper_index (pdata p n)) - P - sum_list (map (\<lambda>m. po_remaining_qty (pdata p m)) us),
      pid p n, pdata p n)"
  using assms
proof (induction ns arbitrary: P thesis)
  case (Cons n ns)
  show ?case
  proof (cases "e \<in> set (waiting l p (P + po_remaining_qty (pdata p n)) ns)")
    case True
    from Cons.IH [OF _ this] obtain us m vs where "ns = us @ m # vs"
      "e = (market_ahead l (po_placement_seq (pdata p m)),
        fw_sum (pl_paper_qty l) (po_paper_index (pdata p m)) - (P + po_remaining_qty (pdata p n)) -
          sum_list (map (\<lambda>m. po_remaining_qty (pdata p m)) us), pid p m, pdata p m)" by metis
    then show ?thesis by (intro Cons.prems(1) [of "n # us" m vs]) simp_all
  next
    case False
    with Cons.prems(2) show ?thesis by (intro Cons.prems(1) [of "[]" n ns]) (auto simp: Let_def)
  qed
qed simp

lemma waiting_ids: "map (\<lambda>(M, G, i, x). i) (waiting l p P ns) = map (pid p) ns"
  by (induction ns arbitrary: P) (simp_all add: Let_def)

lemma waiting_ghosts:
  assumes wf: "open_wf cap a s px l p" and e: "(M, G, i, x) \<in> set (waiting l p 0 (pl_orders l))"
  shows "0 \<le> G \<and> (exact l p \<longrightarrow> G = 0)"
  using e
proof (rule waiting_mem)
  fix us n vs assume "pl_orders l = us @ n # vs" "(M, G, i, x) = (market_ahead l (po_placement_seq (pdata p n)),
      fw_sum (pl_paper_qty l) (po_paper_index (pdata p n)) - 0 - sum_list (map (\<lambda>m. po_remaining_qty (pdata p m)) us),
      pid p n, pdata p n)"
  with paper_ahead [OF wf this(1)] show ?thesis by auto
qed

lemma waiting_shift:
  assumes "\<And>m. m \<in> set ns \<Longrightarrow> pdata p' m = pdata p m" "pid p' = pid p" "market_ahead l' = market_ahead l"
    and "\<And>m. m \<in> set ns \<Longrightarrow> fw_sum (pl_paper_qty l') (po_paper_index (pdata p m)) =
      fw_sum (pl_paper_qty l) (po_paper_index (pdata p m)) - d"
  shows "waiting l' p' P ns = waiting l p (P + d) ns"
  using assms(1,4)
proof (induction ns arbitrary: P)
  case (Cons n ns)
  from Cons.prems have n: "pdata p' n = pdata p n" "fw_sum (pl_paper_qty l') (po_paper_index (pdata p n)) =
      fw_sum (pl_paper_qty l) (po_paper_index (pdata p n)) - d" by simp_all
  have "waiting l' p' (P + po_remaining_qty (pdata p n)) ns = waiting l p (P + po_remaining_qty (pdata p n) + d) ns"
    by (rule Cons.IH) (use Cons.prems in simp_all)
  with n assms(2,3) show ?case by (simp add: Let_def algebra_simps)
qed simp

lemma queue_due_none:
  assumes "\<And>m g i x. (m, g, i, x) \<in> set xs \<Longrightarrow> T - m - g - P \<le> 0"
  shows "queue_due T P xs = []"
proof (cases xs)
  case (Cons y ys)
  obtain m g i x where y: "y = (m, g, i, x)" by (metis prod.exhaust)
  with assms [of m g i x] Cons have "T - m - g - P \<le> 0" by simp
  then show ?thesis by (simp add: Cons y Let_def)
qed simp

lemma remove_own_level:
  assumes "remove_paper_order (Some n) (po_remaining_qty x) st (l, p) = (l', p')"
    and "hm_find (paper_orders p) (pid p n) = Some x" "0 < po_remaining_qty x"
  shows "pl_paper_qty l' = fw_add (po_paper_index x) (- po_remaining_qty x) (pl_paper_qty l)"
  using assms by (auto simp: remove_paper_order_def pid_def Let_def forget_paper_order_def)

lemma paper_trade_loop_exact:
  assumes "paper_trade_loop sq s px ev ns (l, p) (T - C - P) C = (lp', fs)"
    and "open_wf cap a s px l p" "pl_orders l = ns"
    and "\<forall>n \<in> set ns. C \<le> market_ahead l (po_placement_seq (pdata p n))"
    and "sorted_wrt (\<lambda>m n. market_ahead l (po_placement_seq (pdata p m))
           \<le> market_ahead l (po_placement_seq (pdata p n))) ns"
  shows "fs = map (trade_fill sq s px ev) (queue_due T P (waiting l p 0 ns))"
  using assms
proof (induction ns arbitrary: l p C P fs)
  case Nil
  then show ?case by simp
next
  case (Cons n ns)
  note wf = Cons.prems(2) and q = Cons.prems(3)
  let ?x = "pdata p n" and ?M = "market_ahead l (po_placement_seq (pdata p n))"
  let ?G = "fw_sum (pl_paper_qty l) (po_paper_index ?x)" and ?rest = "waiting l p (po_remaining_qty ?x) ns"
  have n: "n \<in> set (pl_orders l)" using q by simp
  have dist: "n \<notin> set ns" "distinct ns"
    using pcore_distinct [OF open_wf_core [OF wf], of s px] q by simp_all
  have r: "0 < po_remaining_qty ?x" using open_order(3) [OF wf n] by (simp add: order_live_def)
  have C: "C \<le> ?M" using Cons.prems(4) by simp
  have qw: "queue_wait l ?x C = ?M - C + ?G" "market_wait l ?x C = ?M - C"
    using C by (simp_all add: queue_wait_def market_wait_def)
  have left: "T - C - P - queue_wait l ?x C = T - ?M - ?G - P" by (simp add: qw)
  have w: "waiting l p 0 (n # ns) = (?M, ?G, pid p n, ?x) # ?rest" by (simp add: Let_def)
  have later: "T - m - g - P' \<le> 0" if e: "(m, g, i, x) \<in> set ?rest" and "T - ?M - P' \<le> 0" for m g i x P'
  proof -
    have "0 \<le> g" using waiting_ghosts [OF wf, of m g i x] e by (simp add: q Let_def)
    moreover have "?M \<le> m" using e by (rule waiting_mem) (use Cons.prems(5) in auto)
    ultimately show ?thesis using that(2) by simp
  qed
  from Cons.prems(1) open_order(2) [OF wf n] r show ?case
  proof (cases rule: paper_trade_cases)
    case stop
    then have "T - ?M - ?G - P \<le> 0" using C waiting_ghosts [OF wf, of ?M ?G "pid p n" ?x] by (auto simp: qw q Let_def)
    with stop show ?thesis by (simp add: w Let_def del: waiting.simps)
  next
    case (part fs')
    note part = part [unfolded left]
    then have "fs' = []" by simp
    moreover have "queue_due T (P + ?G + po_remaining_qty ?x) ?rest = []"
      by (rule queue_due_none) (use later part(3) in auto)
    ultimately show ?thesis using part r qw(1) by (simp add: w Let_def left del: waiting.simps)
  next
    case (full fs')
    obtain l1 p1 where lp: "remove_paper_order (Some n) (po_remaining_qty ?x) PO_FILLED (l, p) = (l1, p1)"
      by fastforce
    note st = remove_own_open [OF wf n lp]
    have pd: "pdata p1 m = pdata p m" if "m \<in> set ns" for m
      using st that dist q by auto
    have ma: "market_ahead l1 = market_ahead l" using st same_market_ahead by blast
    have ns1: "pl_orders l1 = ns" using st q dist by simp
    have wt: "waiting l1 p1 0 ns = waiting l p (0 + po_remaining_qty ?x) ns"
      by (rule waiting_shift)
        (use pd st ma order_sum_add [OF wf q] remove_own_level [OF lp open_order(2) [OF wf n] r] in simp_all)
    have loop: "paper_trade_loop sq s px ev ns (l1, p1) (T - ?M - (P + ?G + po_remaining_qty ?x)) ?M = (lp', fs')"
      using full(4) lp by (simp add: qw algebra_simps)
    have "fs' = map (trade_fill sq s px ev) (queue_due T (P + ?G + po_remaining_qty ?x) (waiting l1 p1 0 ns))"
    proof (rule Cons.IH [OF loop _ ns1])
      show "open_wf cap a s px l1 p1" using st by blast
      show "\<forall>m \<in> set ns. ?M \<le> market_ahead l1 (po_placement_seq (pdata p1 m))"
        using Cons.prems(5) by (simp add: ma pd)
      show "sorted_wrt (\<lambda>m n. market_ahead l1 (po_placement_seq (pdata p1 m))
          \<le> market_ahead l1 (po_placement_seq (pdata p1 n))) ns"
        using Cons.prems(5) sorted_wrt_mono_rel [of ns] by (simp add: ma pd)
    qed
    with full [unfolded left] r show ?thesis by (simp add: w wt Let_def del: waiting.simps)
  qed
qed

text \<open>What an order waits for only grows with its place in the queue.\<close>

lemma market_link_mono:
  assumes link: "market_link h s px l a" and wf: "hist_wf cap b h" and "c \<le> c'"
  shows "0 \<le> market_ahead l c \<and> market_ahead l c \<le> market_ahead l c'"
proof -
  have pos: "0 < on_qty x" if "x \<in> set (map (hn h) (hq h s px))" for x
    using core_qty_pos [OF hist_wf_core [OF wf]] that by auto
  have "sum_list (map on_qty (filter (\<lambda>x. on_arrival_seq x < c) xs)) \<le>
      sum_list (map on_qty (filter (\<lambda>x. on_arrival_seq x < c') xs)) \<and>
      0 \<le> sum_list (map on_qty (filter (\<lambda>x. on_arrival_seq x < c) xs))"
    if "\<forall>x \<in> set xs. 0 < on_qty x" for xs
    using that
  proof (induction xs)
    case (Cons x xs)
    with \<open>c \<le> c'\<close> show ?case by (auto intro: order_trans)
  qed simp
  from this [of "map (hn h) (hq h s px)"] pos show ?thesis
    unfolding market_link_ahead [OF link] by blast
qed

lemma sim_wf_level:
  assumes "sim_wf st" "find_paper_level s px (paper st) = Some l"
  shows "open_wf (paper_capacity st) (order_arrival_seq st) s px l (paper st)"
    and "market_link (hist st) s px l (order_arrival_seq st)"
    and "c \<le> c' \<Longrightarrow> 0 \<le> market_ahead l c \<and> market_ahead l c \<le> market_ahead l c'"
proof -
  have hw: "hist_wf (historical_capacity st) (order_arrival_seq st) (hist st)"
    using assms(1) by (simp add: sim_wf_def)
  show "open_wf (paper_capacity st) (order_arrival_seq st) s px l (paper st)"
    using assms by (auto simp: sim_wf_def intro: paper_wf_open)
  show link: "market_link (hist st) s px l (order_arrival_seq st)"
    using assms by (auto simp: sim_wf_def linked_def)
  show "c \<le> c' \<Longrightarrow> 0 \<le> market_ahead l c \<and> market_ahead l c \<le> market_ahead l c'"
    by (rule market_link_mono [OF link hw])
qed

lemma level_market_sorted:
  assumes wf: "sim_wf st" and l: "find_paper_level s px (paper st) = Some l"
  shows "sorted_wrt (\<lambda>m n. market_ahead l (po_placement_seq (pdata (paper st) m))
      \<le> market_ahead l (po_placement_seq (pdata (paper st) n))) (pl_orders l)"
proof -
  let ?p = "paper st"
  have "sorted_wrt (\<lambda>m n. placed_before (the (hm_find (paper_orders ?p) (pid ?p m)))
      (the (hm_find (paper_orders ?p) (pid ?p n)))) (pl_orders l)"
    using pcore_sorted [OF open_wf_core [OF sim_wf_level(1) [OF wf l]], of s px] by simp
  then show ?thesis
    by (rule sorted_wrt_mono_rel [rotated]) (auto simp: placed_before_def pdata_def intro: sim_wf_level(3) [OF wf l, THEN conjunct2])
qed

lemma apply_paper_trade_exact:
  assumes wf: "sim_wf st" and l: "find_paper_level s px (paper st) = Some l"
  shows "snd (apply_paper_trade_at_level sq s px T ev (paper st)) =
    map (trade_fill sq s px ev) (queue_due T 0 (waiting l (paper st) 0 (pl_orders l)))"
proof -
  let ?p = "paper st" and ?ns = "pl_orders l"
  obtain lp fs where loop: "paper_trade_loop sq s px ev ?ns (l, ?p) T 0 = (lp, fs)" by fastforce
  have "fs = map (trade_fill sq s px ev) (queue_due T 0 (waiting l ?p 0 ?ns))"
    by (rule paper_trade_loop_exact [where C = 0 and P = 0, OF _ sim_wf_level(1) [OF wf l]])
      (use loop level_market_sorted [OF wf l] sim_wf_level(3) [OF wf l order_refl] in simp_all)
  with loop l show ?thesis
    by (cases "T \<le> 0"; cases lp) (simp_all add: apply_paper_trade_at_level_def)
qed

section \<open>No order is filled before its turn\<close>

lemma queue_due_pos: "(due, i, x) \<in> set (queue_due T P xs) \<Longrightarrow> 0 \<le> due"
  by (induction T P xs rule: queue_due.induct) (auto simp: Let_def split: if_splits)

lemma queue_due_turn:
  assumes "(due, i, x) \<in> set (queue_due T P xs)" "\<forall>(m, g, j, y) \<in> set xs. 0 \<le> g"
    and "sorted_wrt (\<lambda>e f. fst e \<le> fst f) xs"
  shows "\<exists>us M G vs. xs = us @ (M, G, i, x) # vs \<and> 0 < due \<and> due \<le> po_remaining_qty x \<and>
    M + P + sum_list (map (\<lambda>(m, g, j, y). po_remaining_qty y) us) + due \<le> T \<and>
    (\<forall>(m, g, j, y) \<in> set us. (po_remaining_qty y, j, y) \<in> set (queue_due T P xs))"
  using assms
proof (induction xs arbitrary: P)
  case (Cons e xs)
  obtain m g j y where e: "e = (m, g, j, y)" by (metis prod.exhaust)
  let ?due = "min (po_remaining_qty y) (T - m - g - P)"
  have pos: "0 < ?due" using Cons.prems(1) by (auto simp: e Let_def split: if_splits)
  have g: "0 \<le> g" using Cons.prems(2) by (simp add: e)
  have step: "queue_due T P (e # xs) = (?due, j, y) # queue_due T (P + g + po_remaining_qty y) xs"
    using iffD2 [OF not_le pos] by (simp only: e queue_due.simps Let_def if_False)
  show ?case
  proof (cases "(due, i, x) \<in> set (queue_due T (P + g + po_remaining_qty y) xs)")
    case True
    moreover have "\<forall>(m, g, j, y) \<in> set xs. 0 \<le> g" "sorted_wrt (\<lambda>e f. fst e \<le> fst f) xs"
      using Cons.prems(2,3) by fastforce+
    ultimately have "\<exists>us M G vs. xs = us @ (M, G, i, x) # vs \<and> 0 < due \<and> due \<le> po_remaining_qty x \<and>
      M + (P + g + po_remaining_qty y) + sum_list (map (\<lambda>(m, g, j, y). po_remaining_qty y) us) + due \<le> T \<and>
      (\<forall>(m, g', j, y') \<in> set us. (po_remaining_qty y', j, y') \<in> set (queue_due T (P + g + po_remaining_qty y) xs))"
      by (rule Cons.IH)
    then obtain us M G vs where IH: "xs = us @ (M, G, i, x) # vs" "0 < due"
      "due \<le> po_remaining_qty x"
      "M + (P + g + po_remaining_qty y) + sum_list (map (\<lambda>(m, g, j, y). po_remaining_qty y) us) + due \<le> T"
      "\<forall>(m, g', j, y') \<in> set us. (po_remaining_qty y', j, y') \<in> set (queue_due T (P + g + po_remaining_qty y) xs)"
      by (elim exE conjE) (rule that)
    have nn: "0 \<le> sum_list (map (\<lambda>(m, g, j, y). po_remaining_qty y) us)"
    proof (rule sum_list_nonneg)
      fix r assume "r \<in> set (map (\<lambda>(m, g, j, y). po_remaining_qty y) us)"
      then obtain m' g' j' y' where u: "(m', g', j', y') \<in> set us" "r = po_remaining_qty y'" by auto
      with IH(5) have "(r, j', y') \<in> set (queue_due T (P + g + po_remaining_qty y) xs)" by auto
      then show "0 \<le> r" by (rule queue_due_pos)
    qed
    have "m \<le> M" using Cons.prems(3) by (auto simp: e IH(1))
    with IH(2,4) nn g have "?due = po_remaining_qty y" by simp
    with IH step g show ?thesis
      by (intro exI [of _ "e # us"] exI [of _ M] exI [of _ G] exI [of _ vs]) (auto simp: e)
  next
    case False
    with Cons.prems(1) step have "due = ?due" "i = j" "x = y" by auto
    with pos g show ?thesis
      by (intro exI [of _ "[]"] exI [of _ m] exI [of _ g] exI [of _ xs]) (auto simp: e)
  qed
qed simp

lemma split_unique:
  assumes "us @ e # vs = us' @ e' # vs'" "f e = f e'" "distinct (map f (us @ e # vs))"
  shows "us = us' \<and> e = e'"
  using assms
proof (induction us arbitrary: us')
  case Nil
  then show ?case by (cases us') auto
next
  case (Cons u us)
  then show ?case by (cases us') auto
qed

lemma waiting_lots: "map (\<lambda>(M, G, i, x). po_remaining_qty x) (waiting l p P ns) = map (\<lambda>n. po_remaining_qty (pdata p n)) ns"
  by (induction ns arbitrary: P) (simp_all add: Let_def)

lemma waiting_entry: "n \<in> set ns \<Longrightarrow> \<exists>M G. (M, G, pid p n, pdata p n) \<in> set (waiting l p P ns)"
proof -
  assume "n \<in> set ns"
  then obtain us vs where "ns = us @ n # vs" by (auto dest: split_list)
  then show ?thesis by (simp add: waiting_split) blast
qed

lemma trade_fill_simps [simp]:
  "fr_qty_lots (trade_fill sq s px ev (q, i, x)) = q" "fr_maker_order_id (trade_fill sq s px ev (q, i, x)) = i"
  by (simp_all add: trade_fill_def paper_fill_def)

lemma apply_paper_trade_turn:
  assumes wf: "sim_wf st" and l: "find_paper_level s px (paper st) = Some l" and q: "pl_orders l = ns @ n # ms"
    and f: "f \<in> set (snd (apply_paper_trade_at_level sq s px T ev (paper st)))" "fr_maker_order_id f = pid (paper st) n"
  shows "0 < fr_qty_lots f \<and> fr_qty_lots f \<le> po_remaining_qty (pdata (paper st) n) \<and>
    market_ahead l (po_placement_seq (pdata (paper st) n)) +
      sum_list (map (\<lambda>m. po_remaining_qty (pdata (paper st) m)) ns) + fr_qty_lots f \<le> T \<and>
    (\<forall>m \<in> set ns. \<exists>g \<in> set (snd (apply_paper_trade_at_level sq s px T ev (paper st))).
       fr_maker_order_id g = pid (paper st) m \<and> fr_qty_lots g = po_remaining_qty (pdata (paper st) m))"
proof -
  let ?p = "paper st"
  let ?w = "waiting l ?p 0 (pl_orders l)"
  note o = sim_wf_level(1) [OF wf l] and fills = apply_paper_trade_exact [OF wf l, of sq T ev]
  obtain due x where due: "(due, pid ?p n, x) \<in> set (queue_due T 0 ?w)" "fr_qty_lots f = due"
    using f unfolding fills by fastforce
  have "\<forall>(m, g, j, y) \<in> set ?w. 0 \<le> g" using waiting_ghosts [OF o] by blast
  moreover have "sorted_wrt (\<lambda>e f. fst e \<le> fst f) ?w"
  proof -
    have "map fst (waiting l ?p P ns') = map (\<lambda>n. market_ahead l (po_placement_seq (pdata ?p n))) ns'" for P ns'
      by (induction ns' arbitrary: P) (simp_all add: Let_def)
    then have "sorted_wrt (\<le>) (map fst ?w)"
      using level_market_sorted [OF wf l] by (simp only: sorted_wrt_map)
    then show ?thesis by (simp only: sorted_wrt_map)
  qed
  ultimately have "\<exists>us M G vs. ?w = us @ (M, G, pid ?p n, x) # vs \<and> 0 < due \<and> due \<le> po_remaining_qty x \<and>
    M + 0 + sum_list (map (\<lambda>(m, g, j, y). po_remaining_qty y) us) + due \<le> T \<and>
    (\<forall>(m, g, j, y) \<in> set us. (po_remaining_qty y, j, y) \<in> set (queue_due T 0 ?w))"
    by (rule queue_due_turn [OF due(1)])
  then obtain us M G vs where turn: "?w = us @ (M, G, pid ?p n, x) # vs" "0 < due" "due \<le> po_remaining_qty x"
    "M + 0 + sum_list (map (\<lambda>(m, g, j, y). po_remaining_qty y) us) + due \<le> T"
    "\<forall>(m, g, j, y) \<in> set us. (po_remaining_qty y, j, y) \<in> set (queue_due T 0 ?w)"
    by (elim exE conjE) (rule that)
  define e where "e = (market_ahead l (po_placement_seq (pdata ?p n)),
      fw_sum (pl_paper_qty l) (po_paper_index (pdata ?p n)) - 0 - sum_list (map (\<lambda>m. po_remaining_qty (pdata ?p m)) ns),
      pid ?p n, pdata ?p n)"
  have split: "?w = waiting l ?p 0 ns @ e # waiting l ?p (0 + sum_list (map (\<lambda>m. po_remaining_qty (pdata ?p m)) ns) +
      po_remaining_qty (pdata ?p n)) ms"
    unfolding q waiting_split e_def ..
  have "inj_on (pid ?p) (set (pl_orders l))" using open_id_inj [OF o] by (intro inj_onI) fastforce
  then have "distinct (map (\<lambda>(M, G, i, x). i) ?w)"
    using pcore_distinct [OF open_wf_core [OF o], of s px] by (simp add: waiting_ids distinct_map)
  then have "us = waiting l ?p 0 ns \<and> (M, G, pid ?p n, x) = e"
    unfolding turn(1) by (intro split_unique [where f = "\<lambda>(M, G, i, x). i", OF turn(1) [symmetric, unfolded split]]) (simp_all add: e_def)
  then have here: "us = waiting l ?p 0 ns" "M = market_ahead l (po_placement_seq (pdata ?p n))" "x = pdata ?p n"
    by (simp_all add: e_def)
  have "\<exists>g \<in> set (snd (apply_paper_trade_at_level sq s px T ev ?p)).
      fr_maker_order_id g = pid ?p m \<and> fr_qty_lots g = po_remaining_qty (pdata ?p m)" if m: "m \<in> set ns" for m
  proof -
    obtain M' G' where "(M', G', pid ?p m, pdata ?p m) \<in> set us" using waiting_entry [OF m] here(1) by metis
    with turn(5) have "(po_remaining_qty (pdata ?p m), pid ?p m, pdata ?p m) \<in> set (queue_due T 0 ?w)" by auto
    then have "trade_fill sq s px ev (po_remaining_qty (pdata ?p m), pid ?p m, pdata ?p m) \<in>
      set (snd (apply_paper_trade_at_level sq s px T ev ?p))" unfolding fills by simp
    then show ?thesis by (rule bexI [rotated]) simp
  qed
  with turn(2-4) due(2) here show ?thesis by (simp add: waiting_lots)
qed

section \<open>How ghosts arise\<close>

lemma remove_emptied_level:
  assumes "remove_paper_order (Some n) q st (l, p) = (l', p')" "hm_find (paper_orders p) (pid p n) = Some x"
    and "po_remaining_qty x = 0" "0 < q"
  shows "pl_queued_lots l' = pl_queued_lots l \<and> pl_paper_qty l' = fw_add (po_paper_index x) 0 (pl_paper_qty l)"
  using assms by (auto simp: remove_paper_order_def pid_def Let_def forget_paper_order_def)

lemma paper_hit_loop_ghosts:
  assumes "paper_hit_loop sq s px ev ns (l, p) T C = (((l', p'), C'), fs)"
    and "open_wf cap a s px l p" "pl_orders l = ns" "0 \<le> T"
    and "T < sum_list (map (\<lambda>n. po_remaining_qty (pdata p n)) ns)"
  shows "\<exists>gone n ms. ns = gone @ n # ms \<and> pl_orders l' = n # ms \<and>
    sum_list (map (\<lambda>n. po_remaining_qty (pdata p n)) gone) \<le> T \<and>
    T < sum_list (map (\<lambda>n. po_remaining_qty (pdata p n)) gone) + po_remaining_qty (pdata p n) \<and>
    ghost_lots l' p' = ghost_lots l p + sum_list (map (\<lambda>n. po_remaining_qty (pdata p n)) gone) \<and>
    fw_sum (pl_paper_qty l') (po_paper_index (pdata p n)) = fw_sum (pl_paper_qty l) (po_paper_index (pdata p n)) \<and>
    po_paper_index (pdata p' n) = po_paper_index (pdata p n)"
  using assms
proof (induction ns arbitrary: l p T C fs)
  case Nil
  then show ?case by simp
next
  case (Cons n ns)
  note wf = Cons.prems(2) and q = Cons.prems(3)
  have n: "n \<in> set (pl_orders l)" using q by simp
  have dist: "n \<notin> set ns" "distinct ns"
    using pcore_distinct [OF open_wf_core [OF wf], of s px] q by simp_all
  note o = open_order [OF wf n]
  have pos: "0 < po_remaining_qty (pdata p n)" using o(3) by (simp add: order_live_def)
  from Cons.prems(1) o(2,3) show ?case
  proof (cases rule: paper_hit_cases)
    case stop
    with Cons.prems(4) q pos show ?thesis by (intro exI [of _ "[]"]) simp
  next
    case part
    let ?l = "take_lots (pdata p n) T l" and ?p = "partly_filled (pid p n) (pdata p n) T p"
    have l': "l' = ?l" "p' = ?p" using part by simp_all
    have other: "pdata ?p m = pdata p m" if "m \<in> set ns" for m
      using open_id_inj [OF wf n, of m s px] that dist q by (auto simp: pdata_def partly_filled_def pid_def)
    have own: "pdata ?p n = (pdata p n)\<lparr>po_remaining_qty := po_remaining_qty (pdata p n) - T, po_status := PO_PARTIALLY_FILLED\<rparr>"
      by (simp add: pdata_def [of ?p]) (simp add: partly_filled_def)
    have "sum_list (map (\<lambda>n. po_remaining_qty (pdata ?p n)) ns) = sum_list (map (\<lambda>n. po_remaining_qty (pdata p n)) ns)"
      by (rule arg_cong [where f = sum_list]) (use other in simp)
    then have "ghost_lots ?l ?p = ghost_lots l p"
      by (simp add: ghost_lots_def q own) (simp add: take_lots_def)
    moreover have "fw_sum (pl_paper_qty ?l) (po_paper_index (pdata p n)) = fw_sum (pl_paper_qty l) (po_paper_index (pdata p n))"
      using level_sum_add [OF open_wf_num [OF wf] open_in_rest [OF n] open_in_rest [OF n]] by (simp add: take_lots_def)
    ultimately show ?thesis using part q by (intro exI [of _ "[]"]) (simp add: l' own)
  next
    case (full fs')
    let ?x = "(pdata p n)\<lparr>po_remaining_qty := 0\<rparr>"
    let ?p = "p\<lparr>paper_orders := hm_put (pid p n) ?x (paper_orders p)\<rparr>"
    obtain l1 p1 where lp: "remove_paper_order (Some n) (po_remaining_qty (pdata p n)) PO_FILLED (l, ?p) = (l1, p1)"
      by fastforce
    have "hm_wf (paper_orders p)" using wf by (simp add: open_wf_def pmaps_wf_def)
    then have st: "open_wf cap a s px l1 p1" "pl_orders l1 = removeAll n (pl_orders l)"
      "\<And>m. m \<noteq> n \<Longrightarrow> m \<in> set (pl_orders l) \<Longrightarrow> pdata p1 m = pdata p m"
      using remove_paper_order_open [OF wf n _ _ _ _ _ _ _ _ lp, of ?x] o(3)
      by (simp_all add: fun_eq_iff order_live_def)
    have ns1: "pl_orders l1 = ns" using st(2) q dist by simp
    have pd: "pdata p1 m = pdata p m" if "m \<in> set ns" for m using st(3) [of m] that dist q by auto
    have rest: "map (\<lambda>n. po_remaining_qty (pdata p1 n)) ns = map (\<lambda>n. po_remaining_qty (pdata p n)) ns" using pd by simp
    have lev: "pl_queued_lots l1 = pl_queued_lots l" "pl_paper_qty l1 = fw_add (po_paper_index (pdata p n)) 0 (pl_paper_qty l)"
      using remove_emptied_level [OF lp, of ?x] pos by (simp_all add: pid_def)
    have ghost: "ghost_lots l1 p1 = ghost_lots l p + po_remaining_qty (pdata p n)"
      unfolding ghost_lots_def lev(1) ns1 q rest by simp
    have "T - po_remaining_qty (pdata p n) < sum_list (map (\<lambda>n. po_remaining_qty (pdata p1 n)) ns)"
      using Cons.prems(5) unfolding rest by simp
    from Cons.IH [OF full(4) [unfolded lp] st(1) ns1 _ this] full(2) obtain gone m ms where IH: "ns = gone @ m # ms"
      "pl_orders l' = m # ms" "sum_list (map (\<lambda>n. po_remaining_qty (pdata p1 n)) gone) \<le> T - po_remaining_qty (pdata p n)"
      "T - po_remaining_qty (pdata p n) < sum_list (map (\<lambda>n. po_remaining_qty (pdata p1 n)) gone) + po_remaining_qty (pdata p1 m)"
      "ghost_lots l' p' = ghost_lots l1 p1 + sum_list (map (\<lambda>n. po_remaining_qty (pdata p1 n)) gone)"
      "fw_sum (pl_paper_qty l') (po_paper_index (pdata p1 m)) = fw_sum (pl_paper_qty l1) (po_paper_index (pdata p1 m))"
      "po_paper_index (pdata p' m) = po_paper_index (pdata p1 m)" by auto
    have gone: "map (\<lambda>n. po_remaining_qty (pdata p1 n)) gone = map (\<lambda>n. po_remaining_qty (pdata p n)) gone"
      using pd IH(1) by simp
    have m: "m \<in> set ns" using IH(1) by simp
    show ?thesis
      using IH ghost pd [OF m] order_sum_add [OF wf q m, of 0] lev(2) unfolding gone
      by (intro exI [of _ "n # gone"] exI [of _ m] exI [of _ ms]) simp
  qed
qed

lemma trade_against_paper_ghosts:
  assumes wf: "sim_wf st" and l: "find_paper_level s px (paper st) = Some l" and T: "0 < T"
    and left: "T < sum_list (map (\<lambda>n. po_remaining_qty (pdata (paper st) n)) (pl_orders l))"
    and r: "trade_against_paper_level sq s px T ev (paper st) = ((traded, p'), fs)"
  shows "\<exists>gone n ms l'. pl_orders l = gone @ n # ms \<and>
    find_paper_level s px p' = Some l' \<and> pl_orders l' = n # ms \<and>
    sum_list (map (\<lambda>n. po_remaining_qty (pdata (paper st) n)) gone) \<le> T \<and>
    T < sum_list (map (\<lambda>n. po_remaining_qty (pdata (paper st) n)) gone) + po_remaining_qty (pdata (paper st) n) \<and>
    ghost_lots l' p' = ghost_lots l (paper st) + sum_list (map (\<lambda>n. po_remaining_qty (pdata (paper st) n)) gone) \<and>
    sum_list (map (\<lambda>n. po_remaining_qty (pdata (paper st) n)) gone) \<le> fw_sum (pl_paper_qty l') (po_paper_index (pdata p' n))"
proof -
  note o = sim_wf_level(1) [OF wf l]
  obtain l' p1 where loop: "paper_hit_loop sq s px ev (pl_orders l) (l, paper st) T 0 = (((l', p1), traded), fs)"
    and p': "p' = p_close_level s px l' p1"
    using r l T by (auto simp: trade_against_paper_level_def split: prod.splits)
  from paper_hit_loop_ghosts [OF loop o refl _ left] T obtain gone n ms where g:
    "pl_orders l = gone @ n # ms" "pl_orders l' = n # ms"
    "sum_list (map (\<lambda>n. po_remaining_qty (pdata (paper st) n)) gone) \<le> T"
    "T < sum_list (map (\<lambda>n. po_remaining_qty (pdata (paper st) n)) gone) + po_remaining_qty (pdata (paper st) n)"
    "ghost_lots l' p1 = ghost_lots l (paper st) + sum_list (map (\<lambda>n. po_remaining_qty (pdata (paper st) n)) gone)"
    "fw_sum (pl_paper_qty l') (po_paper_index (pdata (paper st) n)) = fw_sum (pl_paper_qty l) (po_paper_index (pdata (paper st) n))"
    "po_paper_index (pdata p1 n) = po_paper_index (pdata (paper st) n)" by auto
  have pd: "pdata p' = pdata p1" by (simp add: p' fun_eq_iff)
  have "find_paper_level s px p' = Some l'" using g(2) by (simp add: p' p_close_level_def)
  then show ?thesis
    using g paper_ahead [OF o g(1)]
    by (intro exI [of _ gone] exI [of _ n] exI [of _ ms] exI [of _ l']) (simp add: pd ghost_lots_def)
qed

end
