(* ===== verification/EngineProps.thy ===== *)
theory EngineProps
  imports EngineFacts PaperQueue
begin

text \<open>
  The properties of the engine: its invariant and the invariant's consequences, price-time
  priority of historical and paper aggressors, the place of a paper order in the queue, what
  strategy events may change, error branches, counters and bounds. Each is followed, where it has
  hypotheses, by an instance on a concrete run.
\<close>

section \<open>Example states\<close>

definition offers :: Sim where
  \<comment> \<open>three historical offers, one paper offer behind the first of them\<close>
  "offers = run_updates [hist_add SELL 105 5 1, hist_add SELL 106 7 2, paper_add SELL 105 3 3,
     hist_add SELL 105 4 4] (sim_init 10 10)"

lemma offers_wf: "sim_wf offers"
  unfolding offers_def by (rule run_updates_wf)

section \<open>The invariant\<close>

text \<open>C1 In every state reached by events from an empty engine, whatever the events are, the engine
  is well formed: queues, indexes, pools, heaps and market indexes agree, no level of the historical
  books is empty, and the best historical bid is below the best historical ask.\<close>

theorem reachable_states_wf:
  "sim_wf (run_updates evs (sim_init hcap pcap)) \<and>
   no_empty_level (hist (run_updates evs (sim_init hcap pcap))) \<and>
   uncrossed (hist (run_updates evs (sim_init hcap pcap)))"
  using run_updates_preserves_all [OF sim_wf_init [of hcap pcap], of evs]
  by (simp add: preserves_def sim_init_def no_empty_level_init uncrossed_init)

text \<open>C7 One event of any kind and source, valid or not, keeps a well-formed engine well formed,
  never leaves an empty level or a crossed book where there was none, and never moves the arrival
  counter back.\<close>

theorem update_keeps_wf:
  assumes "sim_wf st"
  shows "sim_wf (update event st) \<and>
    (no_empty_level (hist st) \<longrightarrow> no_empty_level (hist (update event st))) \<and>
    (uncrossed (hist st) \<longrightarrow> uncrossed (hist (update event st))) \<and>
    order_arrival_seq st \<le> order_arrival_seq (update event st)"
  using update_preserves_all [OF assms] by (simp add: preserves_def)

lemma update_keeps_wf_example: "sim_wf (update (hist_add BUY 106 20 5) offers)"
  using update_keeps_wf [OF offers_wf] by blast

section \<open>Price-time priority\<close>

text \<open>C2 A historical ADD trades with the resting orders of the other side in price-time order: the
  orders within its limit give their lots from the best price and the oldest order on, until the
  quantity is used up or no order is left; what remains of the other side is the rest of that
  sequence followed by the orders beyond the limit, all of them untouched.\<close>

theorem historical_add_price_time:
  assumes "sim_wf st" "ev_update_source event \<noteq> STRATEGY" "\<not> add_is_duplicate event st"
    and "0 \<le> ev_quantity_lots event"
  shows "ladder (opposite (ev_side event)) (hist (on_add event st)) =
    left_over (ev_quantity_lots event) (in_limit event (ladder (opposite (ev_side event)) (hist st))) @
    beyond event (ladder (opposite (ev_side event)) (hist st))"
  using on_add_historical_ladder [OF assms(1,3,4) refl] assms by (simp add: on_add_def)

lemma historical_add_price_time_example:
  "map (\<lambda>(px, x). (px, on_order_id x, on_qty x)) (ladder SELL (hist (on_add (hist_add BUY 106 11 9) offers)))
     = [(106, 2, 5)]"
proof -
  have "\<not> add_is_duplicate (hist_add BUY 106 11 9) offers" by code_simp
  from historical_add_price_time [OF offers_wf _ this]
  have "ladder SELL (hist (on_add (hist_add BUY 106 11 9) offers)) =
    left_over 11 (in_limit (hist_add BUY 106 11 9) (ladder SELL (hist offers))) @
    beyond (hist_add BUY 106 11 9) (ladder SELL (hist offers))" by simp
  moreover have "map (\<lambda>(px, x). (px, on_order_id x, on_qty x))
    (left_over 11 (in_limit (hist_add BUY 106 11 9) (ladder SELL (hist offers))) @
     beyond (hist_add BUY 106 11 9) (ladder SELL (hist offers))) = [(106, 2, 5)]" by code_simp
  ultimately show ?thesis by simp
qed

text \<open>C6 A strategy ADD is filled against the historical orders within its limit in price-time
  order, without touching them, and rests with what is left: the fills are the lots the ladder
  serves, the historical book is the same, and a remainder becomes a paper order (unless the paper
  pool is full) that has not yet waited for anything that arrives later.\<close>

theorem strategy_add_fills:
  assumes "sim_wf st" "sink st" "ev_update_source event = STRATEGY" "\<not> add_is_duplicate event st"
    and "0 \<le> ev_quantity_lots event"
  shows "let L = in_limit event (ladder (opposite (ev_side event)) (hist st));
      q = ev_quantity_lots event; st' = on_add event st
    in fills_of (calls st') = fills_of (calls st) @ map (serve_fill (seq st) event) (serve q L) \<and>
       hist st' = hist st \<and>
       hm_find (paper_orders (paper st')) (ev_order_id event) =
         (if served q L < q \<and> card (np_live (paper_pool (paper st))) < paper_capacity st
          then Some \<lparr>po_original_event = event,
            po_status = (if q - served q L < q then PO_PARTIALLY_FILLED else PO_OPEN),
            po_remaining_qty = q - served q L, po_placement_seq = order_arrival_seq st,
            po_paper_index = (case find_paper_level (ev_side event) (ev_price_ticks event) (paper st) of
              None \<Rightarrow> 0 | Some l \<Rightarrow> pl_next_paper_index l)\<rparr>
          else None)"
proof -
  let ?L = "in_limit event (ladder (opposite (ev_side event)) (hist st))" and ?q = "ev_quantity_lots event"
  define st1 where "st1 = emit_fills (map (serve_fill (seq st) event) (serve ?q ?L)) st"
  note fresh = add_not_duplicate [OF assms(4)]
  have eq: "on_add event st = (if 0 < ?q - served ?q ?L then rest_paper event (?q - served ?q ?L) st1 else st1)"
    using assms on_add_paper_fills [OF assms(1) refl, of event]
    by (simp add: on_add_def st1_def [symmetric] Let_def)
  have st1: "sim_wf st1" "paper st1 = paper st" "paper_capacity st1 = paper_capacity st"
    "order_arrival_seq st1 = order_arrival_seq st"
    "fills_of (calls st1) = fills_of (calls st) @ map (serve_fill (seq st) event) (serve ?q ?L)"
    using assms(1,2) by (simp_all add: st1_def del: map_map)
  have "hist (on_add event st) = hist st" using assms by (simp add: on_add_def on_add_paper_hist)
  with eq st1 rest_paper_effect [OF st1(1), of "?q - served ?q ?L" event] fresh show ?thesis
    by (cases "0 < ?q - served ?q ?L") (simp_all add: Let_def)
qed

lemma strategy_add_fills_example:
  "map (\<lambda>f. (fr_price_ticks f, fr_maker_order_id f, fr_qty_lots f))
     (fills_of (calls (on_add (paper_add BUY 105 20 9) (set_log_sink True offers)))) = [(105, 1, 5), (105, 4, 4)] \<and>
   map_option po_remaining_qty
     (hm_find (paper_orders (paper (on_add (paper_add BUY 105 20 9) (set_log_sink True offers)))) 9) = Some 11"
proof -
  let ?st = "set_log_sink True offers" and ?e = "paper_add BUY 105 20 9"
  have "sim_wf ?st" using offers_wf by (simp add: set_log_sink_def sim_wf_def)
  moreover have "sink ?st" by (simp add: set_log_sink_def)
  moreover have "\<not> add_is_duplicate ?e ?st" by code_simp
  ultimately have "fills_of (calls (on_add ?e ?st)) = fills_of (calls ?st) @ map (serve_fill (seq ?st) ?e)
        (serve 20 (in_limit ?e (ladder SELL (hist ?st)))) \<and>
      map_option po_remaining_qty (hm_find (paper_orders (paper (on_add ?e ?st))) 9) =
        (if served 20 (in_limit ?e (ladder SELL (hist ?st))) < 20 \<and>
           card (np_live (paper_pool (paper ?st))) < paper_capacity ?st
         then Some (20 - served 20 (in_limit ?e (ladder SELL (hist ?st)))) else None)"
    using strategy_add_fills [of ?st ?e] by (simp add: Let_def)
  moreover have "card (np_live (paper_pool (paper ?st))) < paper_capacity ?st" by code_simp
  moreover have "served 20 (in_limit ?e (ladder SELL (hist ?st))) = 9" by code_simp
  moreover have "map (\<lambda>f. (fr_price_ticks f, fr_maker_order_id f, fr_qty_lots f))
    (fills_of (calls ?st) @ map (serve_fill (seq ?st) ?e) (serve 20 (in_limit ?e (ladder SELL (hist ?st)))))
     = [(105, 1, 5), (105, 4, 4)]" by code_simp
  ultimately show ?thesis by simp
qed

text \<open>C8 A strategy AGGRESSIVE_TRADE of positive size takes the historical ladder in price-time order
  without a price limit and without touching it, then the paper orders with what is left.\<close>

theorem aggressive_trade_fills:
  assumes "sim_wf st" "sink st" "ev_update_source event = STRATEGY" "0 < ev_quantity_lots event"
  shows "let L = ladder (opposite (ev_side event)) (hist st); q = ev_quantity_lots event;
      st' = on_aggressive_trade event st
    in fills_of (calls st') = fills_of (calls st) @ map (serve_fill (seq st) event) (serve q L) @
         snd (hit_paper_loop (seq st) event (\<lambda>_. True) (q - served q L) (paper st)) \<and>
       hist st' = hist st \<and> served q L = min q (volume L)"
proof -
  note hw = sim_wf_hist [OF assms(1)]
  show ?thesis
    using assms sweep_aggressive_ladder [OF hw] served_min [OF ladder_positive [OF hw]]
    by (auto simp: on_aggressive_trade_def Let_def simp del: map_map split: prod.splits)
qed

lemma aggressive_trade_fills_example:
  "map fr_qty_lots (fills_of (calls (on_aggressive_trade (paper_add BUY 0 12 9) (set_log_sink True offers)))) =
     [5, 4, 3]"
proof -
  let ?st = "set_log_sink True offers" and ?e = "paper_add BUY 0 12 9"
  have "sim_wf ?st" "sink ?st" using offers_wf by (simp_all add: set_log_sink_def sim_wf_def)
  then have "fills_of (calls (on_aggressive_trade ?e ?st)) = fills_of (calls ?st) @
      map (serve_fill (seq ?st) ?e) (serve 12 (ladder SELL (hist ?st))) @
      snd (hit_paper_loop (seq ?st) ?e (\<lambda>_. True) (12 - served 12 (ladder SELL (hist ?st))) (paper ?st))"
    using aggressive_trade_fills [of ?st ?e] by (simp add: Let_def)
  moreover have "map fr_qty_lots (fills_of (calls ?st) @
      map (serve_fill (seq ?st) ?e) (serve 12 (ladder SELL (hist ?st))) @
      snd (hit_paper_loop (seq ?st) ?e (\<lambda>_. True) (12 - served 12 (ladder SELL (hist ?st))) (paper ?st)))
    = [5, 4, 3]" by code_simp
  ultimately show ?thesis by simp
qed

section \<open>The place of a paper order in its queue\<close>

text \<open>C4 At any time, what the engine computes as the market quantity ahead of a paper order, from the
  Fenwick tree of its level, is the sum of the lots that still rest at the price among the historical
  orders that arrived before it, whatever was traded, cancelled, reduced or added since.\<close>

theorem market_ahead_exact:
  assumes "find_paper_level s px (paper (run_updates evs (sim_init hcap pcap))) = Some level"
  shows "market_ahead level placement_seq =
    sum_list (map on_qty (filter (\<lambda>x. on_arrival_seq x < placement_seq)
      (map (hn (hist (run_updates evs (sim_init hcap pcap)))) (hq (hist (run_updates evs (sim_init hcap pcap))) s px))))"
  using run_updates_wf [of evs hcap pcap] assms
  by (intro market_link_ahead) (auto simp: sim_wf_def linked_def)

lemma market_ahead_exact_example:
  "market_ahead (the (find_paper_level SELL 105 (paper offers))) 2 = 5"
proof -
  have "find_paper_level SELL 105 (paper offers) = Some (the (find_paper_level SELL 105 (paper offers)))"
    by code_simp
  from market_ahead_exact [OF this [unfolded offers_def]]
  have "market_ahead (the (find_paper_level SELL 105 (paper offers))) 2 =
    sum_list (map on_qty (filter (\<lambda>x. on_arrival_seq x < 2) (map (hn (hist offers)) (hq (hist offers) SELL 105))))"
    unfolding offers_def .
  also have "\<dots> = 5" by code_simp
  finally show ?thesis .
qed





text \<open>C11 No paper order is filled before its turn. In every state reached by events, if volume that
  trades at a level fills an order, then that volume covers the historical lots that rest at the price and
  arrived before the order, the lots of the paper orders ahead of it and the fill itself; and every
  paper order ahead of it is filled in full by the same trade.\<close>

theorem paper_fill_waits_its_turn:
  assumes "find_paper_level s px (paper (run_updates evs (sim_init hcap pcap))) = Some level"
    and "pl_orders level = ahead @ n # behind"
    and "fill \<in> set (snd (apply_paper_trade_at_level sq s px trade_lots event
           (paper (run_updates evs (sim_init hcap pcap)))))"
    and "fr_maker_order_id fill = pid (paper (run_updates evs (sim_init hcap pcap))) n"
  shows "let st = run_updates evs (sim_init hcap pcap); rests = (\<lambda>m. po_remaining_qty (pdata (paper st) m));
      earlier = filter (\<lambda>x. on_arrival_seq x < po_placement_seq (pdata (paper st) n)) (map (hn (hist st)) (hq (hist st) s px))
    in 0 < fr_qty_lots fill \<and> fr_qty_lots fill \<le> rests n \<and>
       sum_list (map on_qty earlier) + sum_list (map rests ahead) + fr_qty_lots fill \<le> trade_lots \<and>
       (\<forall>m \<in> set ahead. \<exists>g \<in> set (snd (apply_paper_trade_at_level sq s px trade_lots event (paper st))).
          fr_maker_order_id g = pid (paper st) m \<and> fr_qty_lots g = rests m)"
  using apply_paper_trade_turn [OF run_updates_wf assms]
  unfolding Let_def market_link_ahead [OF sim_wf_level(2) [OF run_updates_wf assms(1)]] .

lemma paper_fill_waits_its_turn_example:
  "5 + 3 + fr_qty_lots (snd (apply_paper_trade_at_level 7 SELL 105 10 (hist_add BUY 105 10 8)
     (paper (run_updates [hist_add SELL 105 5 1, paper_add SELL 105 3 2, paper_add SELL 105 4 3] (sim_init 10 10)))) ! 1) \<le> 10"
proof -
  let ?st = "run_updates [hist_add SELL 105 5 1, paper_add SELL 105 3 2, paper_add SELL 105 4 3] (sim_init 10 10)"
  let ?l = "the (find_paper_level SELL 105 (paper ?st))"
  let ?fills = "snd (apply_paper_trade_at_level 7 SELL 105 10 (hist_add BUY 105 10 8) (paper ?st))"
  have l: "find_paper_level SELL 105 (paper ?st) = Some ?l" and q: "pl_orders ?l = [0] @ 1 # []" by code_simp+
  have "length ?fills = 2" by code_simp
  then have f: "?fills ! 1 \<in> set ?fills" by simp
  have i: "fr_maker_order_id (?fills ! 1) = pid (paper ?st) 1" by code_simp
  have "sum_list (map on_qty (filter (\<lambda>x. on_arrival_seq x < po_placement_seq (pdata (paper ?st) 1))
      (map (hn (hist ?st)) (hq (hist ?st) SELL 105)))) = 5" by code_simp
  moreover have "sum_list (map (\<lambda>m. po_remaining_qty (pdata (paper ?st) m)) [0]) = 3" by code_simp
  ultimately show ?thesis using paper_fill_waits_its_turn [OF l q f i] unfolding Let_def by linarith
qed

text \<open>C14 Every paper order that an aggressor fills in full leaves its lots behind as ghosts, because it is
  reduced to zero before it is removed. Whenever an aggressor takes less than what rests at a level of a
  well-formed state, the orders it fills in full leave the queue, the lots the level counts beyond
  its orders grow by exactly theirs, and the new head of the queue goes on waiting for them.\<close>

theorem filled_paper_order_leaves_ghost_lots:
  assumes "sim_wf st" "find_paper_level s px (paper st) = Some level" "0 < trade_lots"
    and "trade_lots < sum_list (map (\<lambda>n. po_remaining_qty (pdata (paper st) n)) (pl_orders level))"
    and "trade_against_paper_level sq s px trade_lots event (paper st) = ((traded, p'), fs)"
  shows "\<exists>gone n ms level'. let lots = sum_list (map (\<lambda>n. po_remaining_qty (pdata (paper st) n)) gone)
    in pl_orders level = gone @ n # ms \<and> lots \<le> trade_lots \<and> trade_lots < lots + po_remaining_qty (pdata (paper st) n) \<and>
       find_paper_level s px p' = Some level' \<and> pl_orders level' = n # ms \<and>
       ghost_lots level' p' = ghost_lots level (paper st) + lots \<and>
       lots \<le> fw_sum (pl_paper_qty level') (po_paper_index (pdata p' n))"
  unfolding Let_def using trade_against_paper_ghosts [OF assms] by blast

lemma filled_paper_order_leaves_ghost_lots_example:
  "let st = run_updates [paper_add SELL 105 5 1, paper_add SELL 105 5 2] (sim_init 10 10);
       p' = snd (fst (trade_against_paper_level 7 SELL 105 5 (hist_add BUY 105 5 3) (paper st)))
   in \<exists>level'. find_paper_level SELL 105 p' = Some level' \<and> pl_orders level' = [1] \<and> ghost_lots level' p' = 5"
proof -
  let ?st = "run_updates [paper_add SELL 105 5 1, paper_add SELL 105 5 2] (sim_init 10 10)"
  let ?r = "trade_against_paper_level 7 SELL 105 5 (hist_add BUY 105 5 3) (paper ?st)"
  let ?l = "the (find_paper_level SELL 105 (paper ?st))" and ?rest = "\<lambda>n. po_remaining_qty (pdata (paper ?st) n)"
  obtain tr p' fs where r: "?r = ((tr, p'), fs)" by (metis prod.exhaust)
  have l: "find_paper_level SELL 105 (paper ?st) = Some ?l" and q: "pl_orders ?l = [0, 1]"
    and g: "ghost_lots ?l (paper ?st) = 0" and rest: "?rest 0 = 5" "?rest (Suc 0) = 5" by code_simp+
  have "5 < sum_list (map ?rest (pl_orders ?l))" by (simp add: q rest)
  from filled_paper_order_leaves_ghost_lots [OF run_updates_wf l _ this r] obtain gone n ms level' where
    o: "[0, 1] = gone @ n # ms" "sum_list (map ?rest gone) \<le> 5" "5 < sum_list (map ?rest gone) + ?rest n"
    and l': "find_paper_level SELL 105 p' = Some level'" "pl_orders level' = n # ms"
      "ghost_lots level' p' = 0 + sum_list (map ?rest gone)"
    unfolding Let_def q g by auto
  from o have "gone = [0] \<and> n = 1 \<and> ms = []" by (auto simp: Cons_eq_append_conv rest)
  with l' rest r show ?thesis by (simp add: Let_def)
qed

text \<open>C10 An aggressor that meets the paper orders of one price takes the smaller of what it asks and
  what rests there, each fill is positive and at that price, and the fills add up to what is reported
  as traded.\<close>

theorem trade_against_paper_conserves:
  assumes "sim_wf st" "find_paper_level s px (paper st) = Some level" "0 < trade_lots"
    and "trade_against_paper_level sq s px trade_lots event (paper st) = ((traded, p'), fs)"
  shows "traded = sum_list (map fr_qty_lots fs) \<and>
    traded = min trade_lots (sum_list (map (\<lambda>n. po_remaining_qty (pdata (paper st) n)) (pl_orders level))) \<and>
    (\<forall>f \<in> set fs. 0 < fr_qty_lots f \<and> fr_price_ticks f = px)"
proof -
  have "paper_wf (paper_capacity st) (order_arrival_seq st) (paper st)" using assms(1) by (simp add: sim_wf_def)
  note o = paper_wf_open [OF this assms(2)]
  obtain l' p1 where loop: "paper_hit_loop sq s px event (pl_orders level) (level, paper st) trade_lots 0 =
      (((l', p1), traded), fs)"
    using assms(2-4) by (auto simp: trade_against_paper_level_def split: prod.splits)
  have "distinct (pl_orders level)" using pcore_distinct [OF open_wf_core [OF o], of s px] by simp
  from paper_hit_loop_fills [OF loop o subset_refl this] assms(3) show ?thesis by simp
qed

lemma trade_against_paper_conserves_example:
  "fst (fst (trade_against_paper_level 7 SELL 105 9 (hist_add BUY 105 9 8) (paper offers))) = 3"
proof -
  let ?r = "trade_against_paper_level 7 SELL 105 9 (hist_add BUY 105 9 8) (paper offers)"
  let ?l = "the (find_paper_level SELL 105 (paper offers))"
  have l: "find_paper_level SELL 105 (paper offers) = Some ?l" by code_simp
  obtain tr p' fs where r: "?r = ((tr, p'), fs)" by (metis prod.exhaust)
  have "sum_list (map (\<lambda>n. po_remaining_qty (pdata (paper offers) n)) (pl_orders ?l)) = 3" by code_simp
  with trade_against_paper_conserves [OF offers_wf l _ r] r show ?thesis by simp
qed

section \<open>Strategy and market\<close>

text \<open>C9 A strategy event of any kind but MATCH leaves the historical book as it was: its queues, its
  index, its pool and its heaps.\<close>

theorem strategy_leaves_market:
  assumes "ev_update_source event = STRATEGY" "ev_update_type event \<noteq> MATCH"
  shows "hist (update event st) = hist st"
  by (rule strategy_hist [OF assms])

lemma strategy_leaves_market_example:
  "hist (update (paper_add BUY 200 50 9) offers) = hist offers"
  by (rule strategy_leaves_market) simp_all

text \<open>A strategy MATCH does reach the historical book: the order it names loses the lots, and an
  error is logged only afterwards.\<close>

lemma strategy_match_changes_market:
  "let e = (paper_add SELL 105 2 1)\<lparr>ev_update_type := MATCH\<rparr>
   in depth_at SELL 105 offers = Some 9 \<and> depth_at SELL 105 (update e offers) = Some 7"
  by code_simp

text \<open>An ADD with a negative quantity or with an order id that is in use changes no book, no order
  and no counter of arrivals; it is answered with a diagnostic.\<close>

lemma rejected_add_changes_nothing:
  assumes "ev_quantity_lots event < 0 \<or> add_is_duplicate event st"
  shows "same_books st (on_add event st) \<and>
    on_add event st =
      (if ev_quantity_lots event < 0 then emit_diagnostic event ADD_INVOKED_WITH_NEGATIVE_QUANTITY ERROR st
       else emit_diagnostic event ADD_DUPLICATE_ORDER_ID WARNING st)"
  using assms by (auto simp: on_add_def same_books_def)

lemma rejected_add_changes_nothing_example: "same_books offers (on_add (hist_add BUY 100 1 3) offers)"
proof -
  have "add_is_duplicate (hist_add BUY 100 1 3) offers" by code_simp
  with rejected_add_changes_nothing [of "hist_add BUY 100 1 3" offers] show ?thesis by blast
qed

section \<open>Counters and bounds\<close>

lemma sim_init_caps: "historical_capacity (sim_init hcap pcap) = hcap" "paper_capacity (sim_init hcap pcap) = pcap"
  by (simp_all add: sim_init_def)

text \<open>Every event advances the sequence number by one, except a strategy AGGRESSIVE_TRADE of
  positive size, which advances it by two.\<close>

lemma update_advances_seq:
  "seq (update event st) = seq st +
     (if ev_update_type event = AGGRESSIVE_TRADE \<and> ev_update_source event = STRATEGY
         \<and> 0 < ev_quantity_lots event then 2 else 1)"
  by (rule update_seq)

text \<open>However many events are applied, the indexes never hold more historical orders than the
  historical pool's capacity nor more paper orders than the paper pool's.\<close>

lemma order_count_bound:
  "length (order_info (hist (run_updates evs (sim_init hcap pcap)))) \<le> hcap \<and>
   length (paper_orders (paper (run_updates evs (sim_init hcap pcap)))) \<le> pcap"
proof -
  let ?st = "run_updates evs (sim_init hcap pcap)"
  have p: "preserves (sim_init hcap pcap) ?st" by (rule run_updates_preserves_all [OF sim_wf_init])
  then have cap: "historical_capacity ?st = hcap" "paper_capacity ?st = pcap"
    by (simp_all add: preserves_def sim_init_caps)
  from p have "sim_wf ?st" by (simp add: preserves_def)
  then have "hist_wf hcap (order_arrival_seq ?st) (hist ?st)" "paper_wf pcap (order_arrival_seq ?st) (paper ?st)"
    by (simp_all add: sim_wf_def cap)
  from order_info_bound [OF this(1)] paper_orders_bound [OF this(2)] show ?thesis by simp
qed

section \<open>Queries\<close>

text \<open>C12 The best price is the best price at which an order rests, and none exactly when the side is
  empty; asking for it changes nothing but stale entries of the heap it cleans.\<close>

theorem best_price_correct:
  assumes "sim_wf st" "get_best_price_ticks s st = (best, st')"
  shows "(case best of
      None \<Rightarrow> \<forall>px. hq (hist st) s px = []
    | Some px \<Rightarrow> hq (hist st) s px \<noteq> [] \<and>
        (\<forall>px'. hq (hist st) s px' \<noteq> [] \<longrightarrow> px' = px \<or> better_price s px px')) \<and>
    hq (hist st') = hq (hist st) \<and> paper st' = paper st \<and> sim_wf st'"
proof -
  obtain heap' where b: "best_opposite_price s (h_book s (hist st)) (h_heap s (hist st)) = (best, heap')"
    and st': "st' = st\<lparr>hist := h_set_heap s heap' (hist st)\<rparr>"
    using assms(2) by (auto simp: get_best_price_ticks_def split: prod.splits)
  have "heap_covers (hist st)" using sim_wf_hist [OF assms(1)] by (simp add: hist_wf_def)
  note best = best_opposite_price_best [OF this b]
  have "heap_key s px' \<le> heap_key s px \<Longrightarrow> px' = px \<or> better_price s px px'" for px px'
    by (cases s) (auto simp: heap_key_def better_price_def)
  with best clean_heap [OF assms(1) b] show ?thesis by (auto simp: st' split: option.splits)
qed

lemma best_price_correct_example: "hq (hist offers) SELL 105 \<noteq> []"
proof -
  obtain best st' where g: "get_best_price_ticks SELL offers = (best, st')" by fastforce
  have "fst (get_best_price_ticks SELL offers) = Some 105" by code_simp
  with g best_price_correct [OF offers_wf g] show ?thesis by simp
qed

end
