(* ===== verification/DataProps.thy ===== *)
theory DataProps
  imports Fenwick NodePool
begin

text \<open>
  The contracts of the two small data structures of the engine as properties: prefix sums of the
  Fenwick tree under any sequence of updates and growth, and the node pool's allocation.
\<close>

section \<open>Fenwick tree\<close>

lemma fw_rep_updates:
  assumes "fw_rep t f" "\<forall>x \<in> set ds. fst x < length t - 1"
  shows "fw_rep (fold (\<lambda>(i, d). fw_add i d) ds t) (\<lambda>k. f k + sum_list (map snd (filter (\<lambda>x. fst x = k) ds))) \<and>
    length (fold (\<lambda>(i, d). fw_add i d) ds t) = length t"
  using assms
proof (induction ds arbitrary: t f)
  case (Cons x ds)
  obtain i d where x: "x = (i, d)" by fastforce
  from Cons.prems x have "fw_rep (fw_add i d t) (f(i := f i + d))" by (intro fw_rep_add) auto
  from Cons.IH [OF this] Cons.prems(2) x
  have IH: "fw_rep (fold (\<lambda>(i, d). fw_add i d) ds (fw_add i d t))
      (\<lambda>k. (f(i := f i + d)) k + sum_list (map snd (filter (\<lambda>x. fst x = k) ds)))"
    "length (fold (\<lambda>(i, d). fw_add i d) ds (fw_add i d t)) = length t" by simp_all
  have "(\<lambda>k. f k + sum_list (map snd (filter (\<lambda>x. fst x = k) ((i, d) # ds)))) =
      (\<lambda>k. (f(i := f i + d)) k + sum_list (map snd (filter (\<lambda>x. fst x = k) ds)))"
    by (auto simp: fun_eq_iff)
  with IH x show ?case by (simp only: fold_simps prod.case length_fw_add o_apply)
qed simp

lemma sum_updates_prefix:
  fixes c :: nat
  shows "(\<Sum>k<c. sum_list (map snd (filter (\<lambda>x. fst x = k) ds))) =
     (sum_list (map snd (filter (\<lambda>x. fst x < c) ds)) :: int)"
proof (induction ds)
  case (Cons x ds)
  have "(\<Sum>k<c. sum_list (map snd (filter (\<lambda>x. fst x = k) (x # ds)))) =
      (\<Sum>k<c. (if fst x = k then snd x else 0) + sum_list (map snd (filter (\<lambda>x. fst x = k) ds)))"
    by (intro sum.cong) auto
  also have "\<dots> = (if fst x < c then snd x else 0) + sum_list (map snd (filter (\<lambda>x. fst x < c) ds))"
    by (simp add: sum.distrib Cons)
  finally show ?case by simp
qed simp

text \<open>C13 The Fenwick tree keeps prefix sums: after any updates within its size and any growth, the
  sum over the first \<open>c\<close> indexes is the sum of the deltas added below \<open>c\<close>.\<close>

theorem fenwick_prefix_sums:
  assumes "\<forall>x \<in> set ds. fst x < n" "c \<le> max n m"
  shows "fw_sum (fw_ensure_size m (fold (\<lambda>(i, d). fw_add i d) ds (fw_ensure_size n []))) c =
    sum_list (map snd (filter (\<lambda>x. fst x < c) ds))"
proof -
  let ?t = "fold (\<lambda>(i, d). fw_add i d) ds (fw_ensure_size n [])"
  have "fw_rep (fw_ensure_size n []) (\<lambda>_. 0)" by (rule fw.rep_ensure [OF fw_rep_Nil])
  from fw_rep_updates [OF this, of ds] assms(1)
  have rep: "fw_rep ?t (\<lambda>k. sum_list (map snd (filter (\<lambda>x. fst x = k) ds)))" "length ?t = Suc n" by simp_all
  from fw.psum_rep [OF fw.rep_ensure [OF rep(1)], of c m] rep(2) assms(2) show ?thesis
    by (simp add: sum_updates_prefix)
qed

lemma fenwick_prefix_sums_example:
  "fw_sum (fw_ensure_size 6 (fold (\<lambda>(i, d). fw_add i d) [(1, 5), (3, 7), (1, -2)] (fw_ensure_size 4 []))) 5 = 10"
  using fenwick_prefix_sums [of "[(1, 5), (3, 7), (1, -2)]" 4 5 6] by simp

section \<open>Node pool\<close>

text \<open>The pool never hands out a node that is in use: an acquired node is new, the nodes in use are
  as they were, and acquiring fails exactly when as many nodes as the capacity are in use.\<close>

lemma node_pool_allocates_fresh:
  assumes "np_wf cap P"
  shows "case np_acquire payload cap P of
      (None, P') \<Rightarrow> P' = P \<and> card (np_live P) = cap
    | (Some i, P') \<Rightarrow> i \<notin> np_live P \<and> np_live P' = insert i (np_live P) \<and> np_wf cap P' \<and>
        card (np_live P) < cap \<and> (\<forall>j \<in> np_live P. np_get P' j = np_get P j)"
proof -
  have "card (np_live P) < cap" if "fst (np_acquire payload cap P) \<noteq> None"
    using that np.acquire_None_iff_full [OF assms, of payload] np.live_bound [OF assms] by simp
  then show ?thesis
    using np.acquire_None [OF assms] np.acquire_Some [OF assms]
    by (auto split: prod.splits option.splits)
qed

lemma node_pool_allocates_fresh_example:
  "case np_acquire (7 :: int) 2 (np_release (Some 0) (snd (np_acquire 5 2 np_empty))) of
     (None, P') \<Rightarrow> False | (Some i, P') \<Rightarrow> np_live P' = {i}"
proof -
  let ?P = "np_release (Some 0) (snd (np_acquire (5 :: int) 2 np_empty))"
  have "np_wf 2 ?P" "np_live ?P = {}" by code_simp+
  moreover have "fst (np_acquire 7 2 ?P) = Some 0" by code_simp
  ultimately show ?thesis using node_pool_allocates_fresh [of 2 ?P 7] by (auto split: prod.splits option.splits)
qed

end
