(* ===== verification/SnapshotFacts.thy ===== *)
theory SnapshotFacts
  imports EngineFacts Snapshot Queries
begin

text \<open>
  Loading a snapshot: rows with lots to sell keep the engine well formed, and when the pool has room
  the queue of every price is the rows of that price in their order.
\<close>

section \<open>What rests at a price\<close>

definition resting :: "Side \<Rightarrow> int \<Rightarrow> Sim \<Rightarrow> OrderNode list" where
  "resting s px st = map (hn (hist st)) (hq (hist st) s px)"

definition room :: "Sim \<Rightarrow> nat" where
  \<comment> \<open>historical nodes in use\<close>
  "room st = card (np_live (order_pool (hist st)))"

definition no_paper :: "Sim \<Rightarrow> bool" where
  "no_paper st \<longleftrightarrow> (\<forall>s px. find_paper_level s px (paper st) = None)"

lemma level_liquidity_sum: "level_liquidity P q = sum_list (map (\<lambda>n. on_qty (np_get P n)) q)"
proof -
  have "fold (\<lambda>n acc. acc + on_qty (np_get P n)) q a = a + sum_list (map (\<lambda>n. on_qty (np_get P n)) q)" for a
    by (induction q arbitrary: a) simp_all
  then show ?thesis by (simp add: level_liquidity_def)
qed

lemma depth_at_resting:
  "depth_at s px st = (case hm_find (h_book s (hist st)) px of None \<Rightarrow> None
     | Some q \<Rightarrow> Some (sum_list (map on_qty (resting s px st))))"
  by (simp add: depth_at_def resting_def level_liquidity_sum hq_find hn_def comp_def split: option.splits)

lemma depth_at_queue:
  "no_empty_level (hist st) \<Longrightarrow> depth_at s px st =
     (if resting s px st = [] then None else Some (sum_list (map on_qty (resting s px st))))"
  by (auto simp: depth_at_resting no_empty_level_def resting_def hq_find split: option.splits)

lemma sim_wf_no_paper:
  "sim_wf st \<Longrightarrow> no_paper st \<Longrightarrow> hist_wf (historical_capacity st) a h \<Longrightarrow> order_arrival_seq st \<le> a \<Longrightarrow>
     sim_wf (st\<lparr>hist := h, order_arrival_seq := a\<rparr>)"
  using paper_wf_mono by (auto simp: sim_wf_def linked_def no_paper_def)

section \<open>clear_state\<close>

lemma clear_state_facts:
  assumes "sim_wf st"
  shows "sim_wf (clear_state st)" "no_paper (clear_state st)" "resting s px (clear_state st) = []"
    "room (clear_state st) = 0" "order_arrival_seq (clear_state st) = 0"
    "hm_find (order_info (hist (clear_state st))) i = None" "no_empty_level (hist (clear_state st))"
    "historical_capacity (clear_state st) = historical_capacity st"
    "hm_find (paper_orders (paper (clear_state st))) i = None"
proof -
  have h: "hist_wf (historical_capacity st) 0 (hist_clear (hist st))"
    and p: "paper_wf (paper_capacity st) 0 (paper_clear (paper st))"
    using assms hist_wf_clear paper_wf_clear by (auto simp: sim_wf_def)
  from h p show "sim_wf (clear_state st)" by (simp add: clear_state_def sim_wf_def linked_clear)
  show "no_paper (clear_state st)"
    by (simp add: no_paper_def clear_state_def paper_clear_def find_paper_level_def p_levels_def split: Side.splits)
  show "resting s px (clear_state st) = []" "order_arrival_seq (clear_state st) = 0"
    "historical_capacity (clear_state st) = historical_capacity st"
    by (simp_all add: clear_state_def resting_def)
  show "room (clear_state st) = 0" by (simp add: room_def clear_state_def hist_clear_def)
  show "hm_find (order_info (hist (clear_state st))) i = None" by (simp add: clear_state_def hist_clear_def)
  show "no_empty_level (hist (clear_state st))" by (simp add: clear_state_def no_empty_level_clear)
  show "hm_find (paper_orders (paper (clear_state st))) i = None" by (simp add: clear_state_def paper_clear_def)
qed

section \<open>Placing one row\<close>

definition row_node :: "nat \<Rightarrow> int \<Rightarrow> int \<Rightarrow> int \<Rightarrow> OrderNode" where
  "row_node a q oid tid = \<lparr>on_order_id = oid, on_trader_id = tid, on_qty = q,
     on_source = HISTORICAL, on_arrival_seq = a\<rparr>"

definition placed :: "Side \<Rightarrow> int \<Rightarrow> OrderNode \<Rightarrow> Sim \<Rightarrow> Sim \<Rightarrow> bool" where
  "placed s px d st st' \<longleftrightarrow> order_arrival_seq st' = Suc (order_arrival_seq st) \<and> room st' = Suc (room st) \<and>
     (\<forall>s' px'. resting s' px' st' = resting s' px' st @ (if s' = s \<and> px' = px then [d] else [])) \<and>
     (no_empty_level (hist st) \<longrightarrow> no_empty_level (hist st'))"

lemma snapshot_event_simps [simp]:
  "ev_side (snapshot_event s px q oid tid) = s" "ev_price_ticks (snapshot_event s px q oid tid) = px"
  "ev_quantity_lots (snapshot_event s px q oid tid) = q" "ev_order_id (snapshot_event s px q oid tid) = oid"
  "ev_trader_id (snapshot_event s px q oid tid) = tid"
  "ev_update_source (snapshot_event s px q oid tid) = HISTORICAL"
  by (simp_all add: snapshot_event_def)

text \<open>A row of an L3 snapshot is placed like a historical order that found nothing to trade with.\<close>

lemma l3_load_Some:
  assumes "h_rest_order (snapshot_event s px q oid tid) q (order_arrival_seq st) (historical_capacity st) (hist st) = (Some n, h)"
  shows "l3_load_order s px q oid tid st = st\<lparr>hist := h, order_arrival_seq := order_arrival_seq st + 1\<rparr>"
proof -
  have twice: "h_set_book s b (h_set_book s b' x) = h_set_book s b x" for b b' x
    by (cases s) (simp_all add: h_set_book_def)
  have swap: "(h_set_book s b x)\<lparr>order_pool := P\<rparr> = h_set_book s b (x\<lparr>order_pool := P\<rparr>)" for b x P
    by (cases s) (simp_all add: h_set_book_def)
  have put: "hm_put px v (hm_put px w m) = hm_put px v m" for v w and m :: Book
    by (simp add: hm_put_def)
  from assms show ?thesis
    by (auto simp: h_rest_order_def l3_load_order_def Let_def row_node_def twice swap put hm_get_def
        split: option.splits prod.splits)
qed

lemma l2_load_Some:
  assumes "h_rest_order (snapshot_event s px q UnknownOrderIdSentinel UnknownTraderIdSentinel) q
      (order_arrival_seq st) (historical_capacity st) (hist st) = (Some n, h)"
    and "hq (hist st) s px = []"
  shows "l2_load_level s px q st = st\<lparr>hist := h\<lparr>order_info := order_info (hist st)\<rparr>,
    order_arrival_seq := order_arrival_seq st + 1\<rparr>"
  using assms
  by (cases s)
    (auto simp: h_rest_order_def l2_load_level_def Let_def hq_def h_set_book_def h_set_heap_def h_book_def h_heap_def
      split: option.splits prod.splits)

lemma core_forget_anonymous:
  assumes "core Q N L (I(UnknownOrderIdSentinel \<mapsto> x)) a" "I UnknownOrderIdSentinel = None"
  shows "core Q N L I a"
proof -
  have other: "i \<noteq> UnknownOrderIdSentinel" if "I i = Some info" for i info using assms(2) that by auto
  have "core_nodes Q N L I a" using assms by (auto simp: core_def core_nodes_def)
  moreover have "core_index Q N I"
    unfolding core_index_def
  proof (intro allI impI)
    fix i info assume i: "I i = Some info"
    then have "(I(UnknownOrderIdSentinel \<mapsto> x)) i = Some info" using other [OF i] by simp
    then show "\<exists>n. oi_node info = Some n \<and> n \<in> set (Q (oi_side info) (oi_price_ticks info)) \<and> on_order_id (N n) = i"
      using assms(1) unfolding core_def core_index_def by blast
  qed
  ultimately show ?thesis using assms(1) by (simp add: core_def)
qed

lemma place_facts:
  assumes wf: "sim_wf st" and r: "h_rest_order (snapshot_event s px q oid tid) q
      (order_arrival_seq st) (historical_capacity st) (hist st) = (Some n, h)"
    and q: "0 < q" and fresh: "hm_find (order_info (hist st)) oid = None"
  shows "hist_wf (historical_capacity st) (Suc (order_arrival_seq st)) h"
    and "\<And>h'. hq h' = hq h \<Longrightarrow> order_pool h' = order_pool h \<Longrightarrow> (no_empty_level h \<longrightarrow> no_empty_level h') \<Longrightarrow>
      placed s px (row_node (order_arrival_seq st) q oid tid) st (st\<lparr>hist := h', order_arrival_seq := order_arrival_seq st + 1\<rparr>)"
proof -
  have hw: "hist_wf (historical_capacity st) (order_arrival_seq st) (hist st)" using wf by (simp add: sim_wf_def)
  have f: "hm_find (order_info (hist st)) (ev_order_id (snapshot_event s px q oid tid)) = None" using fresh by simp
  note o = h_rest_order_Some [OF hw r q f]
  show "hist_wf (historical_capacity st) (Suc (order_arrival_seq st)) h" by (rule o(1))
  fix h' assume h': "hq h' = hq h" "order_pool h' = order_pool h" "no_empty_level h \<longrightarrow> no_empty_level h'"
  have fin: "finite (np_live (order_pool (hist st)))" using np.live_bound [OF hist_wf_pool [OF hw]] by blast
  have hn': "hn h' = hn h" using h'(2) by (simp add: hn_def fun_eq_iff)
  have old: "map (hn h) (hq (hist st) s' px') = map (hn (hist st)) (hq (hist st) s' px')" for s' px'
    using o(5) core_live [OF hist_wf_core [OF hw]] by (auto intro: map_cong)
  show "placed s px (row_node (order_arrival_seq st) q oid tid) st (st\<lparr>hist := h', order_arrival_seq := order_arrival_seq st + 1\<rparr>)"
    using o(2,3,4,6,7) h' fin old by (simp add: placed_def room_def resting_def hn' row_node_def)
qed

lemma l3_row:
  fixes st :: Sim and s :: Side and px q oid tid :: int
  assumes wf: "sim_wf st" and np: "no_paper st" and q: "0 < q" and fresh: "hm_find (order_info (hist st)) oid = None"
  defines "st' \<equiv> l3_load_order s px q oid tid st"
  shows "sim_wf st' \<and> no_paper st' \<and> historical_capacity st' = historical_capacity st \<and>
    (room st < historical_capacity st \<longrightarrow> placed s px (row_node (order_arrival_seq st) q oid tid) st st' \<and>
       (\<forall>i. hm_find (order_info (hist st')) i = None \<longleftrightarrow> i \<noteq> oid \<and> hm_find (order_info (hist st)) i = None))"
proof -
  let ?ev = "snapshot_event s px q oid tid"
  have hw: "hist_wf (historical_capacity st) (order_arrival_seq st) (hist st)" using wf by (simp add: sim_wf_def)
  obtain r h where r: "h_rest_order ?ev q (order_arrival_seq st) (historical_capacity st) (hist st) = (r, h)" by fastforce
  show ?thesis
  proof (cases r)
    case None
    let ?h0 = "h_set_book s (hm_put px (hq (hist st) s px) (h_book s (hist st))) (hist st)"
    obtain x P where x: "np_acquire default_OrderNode (historical_capacity st) (order_pool (hist st)) = (x, P)" by fastforce
    have full: "x = None" "P = order_pool (hist st)" "room st = historical_capacity st"
      using h_rest_order_None [OF hw r [unfolded None]] r None x np.acquire_None [OF hist_wf_pool [OF hw]]
      by (auto simp: h_rest_order_def Let_def room_def split: option.splits)
    have st': "st' = emit_diagnostic ?ev HISTORICAL_ORDER_POOL_EXHAUSTED ERROR (st\<lparr>hist := ?h0\<rparr>)"
      using x full by (cases s) (simp_all add: st'_def l3_load_order_def Let_def hq_def h_set_book_def)
    have "hq ?h0 = hq (hist st)" by (auto simp: hq_find fun_eq_iff split: option.splits)
    then have "hist_wf (historical_capacity st) (order_arrival_seq st) ?h0"
      by (rule hist_wf_cong [OF hw]) (use hw in \<open>simp_all add: hist_wf_def maps_wf_def\<close>)
    then have "sim_wf (st\<lparr>hist := ?h0\<rparr>)"
      using sim_wf_no_paper [OF wf np, of "order_arrival_seq st" ?h0] by simp
    with full np st' show ?thesis by (simp add: no_paper_def)
  next
    case (Some n)
    note pf = place_facts [OF wf r [unfolded Some] q fresh]
    have st': "st' = st\<lparr>hist := h, order_arrival_seq := order_arrival_seq st + 1\<rparr>"
      using l3_load_Some r Some by (simp add: st'_def)
    have "order_info h = hm_emplace oid \<lparr>oi_side = s, oi_price_ticks = px, oi_node = Some n\<rparr> (order_info (hist st))"
      using r Some by (auto simp: h_rest_order_def Let_def split: prod.splits option.splits)
    with fresh pf(2) [of h] sim_wf_no_paper [OF wf np pf(1)] np show ?thesis
      by (auto simp: st' no_paper_def)
  qed
qed

lemma l2_row:
  assumes wf: "sim_wf st" and np: "no_paper st" and q: "0 < q"
    and fresh: "hm_find (order_info (hist st)) UnknownOrderIdSentinel = None" and new: "hq (hist st) s px = []"
  defines "st' \<equiv> l2_load_level s px q st"
  shows "sim_wf st' \<and> no_paper st' \<and> historical_capacity st' = historical_capacity st \<and>
    order_info (hist st') = order_info (hist st) \<and>
    (no_empty_level (hist st) \<longrightarrow> no_empty_level (hist st')) \<and>
    (room st < historical_capacity st \<longrightarrow>
       placed s px (row_node (order_arrival_seq st) q UnknownOrderIdSentinel UnknownTraderIdSentinel) st st')"
proof -
  let ?ev = "snapshot_event s px q UnknownOrderIdSentinel UnknownTraderIdSentinel"
  have hw: "hist_wf (historical_capacity st) (order_arrival_seq st) (hist st)" using wf by (simp add: sim_wf_def)
  obtain r h where r: "h_rest_order ?ev q (order_arrival_seq st) (historical_capacity st) (hist st) = (r, h)" by fastforce
  show ?thesis
  proof (cases r)
    case None
    obtain x P where x: "np_acquire default_OrderNode (historical_capacity st) (order_pool (hist st)) = (x, P)" by fastforce
    have full: "x = None" "P = order_pool (hist st)" "room st = historical_capacity st"
      using h_rest_order_None [OF hw r [unfolded None]] r None x np.acquire_None [OF hist_wf_pool [OF hw]]
      by (auto simp: h_rest_order_def Let_def room_def split: option.splits)
    have st': "st' = emit_diagnostic ?ev HISTORICAL_ORDER_POOL_EXHAUSTED ERROR st"
      using x full by (simp add: st'_def l2_load_level_def)
    with full np wf show ?thesis by (simp add: no_paper_def)
  next
    case (Some n)
    let ?h = "h\<lparr>order_info := order_info (hist st)\<rparr>"
    note pf = place_facts [OF wf r [unfolded Some] q fresh]
    have st': "st' = st\<lparr>hist := ?h, order_arrival_seq := order_arrival_seq st + 1\<rparr>"
      using l2_load_Some [OF r [unfolded Some] new] by (simp add: st'_def)
    have info: "order_info h = hm_emplace UnknownOrderIdSentinel
        \<lparr>oi_side = s, oi_price_ticks = px, oi_node = Some n\<rparr> (order_info (hist st))"
      using r Some by (auto simp: h_rest_order_def Let_def split: prod.splits option.splits)
    have h: "hq ?h = hq h" "hn ?h = hn h" "h_heap s' ?h = h_heap s' h" "h_book s' ?h = h_book s' h" for s'
      by (simp_all add: hq_def hn_def h_heap_def h_book_def fun_eq_iff split: Side.splits)
    have "hm_find (order_info h) = (hm_find (order_info (hist st)))
        (UnknownOrderIdSentinel \<mapsto> \<lparr>oi_side = s, oi_price_ticks = px, oi_node = Some n\<rparr>)"
      using fresh by (auto simp: info fun_eq_iff)
    then have "core (hq ?h) (hn ?h) (np_live (order_pool ?h)) (hm_find (order_info ?h)) (Suc (order_arrival_seq st))"
      using core_forget_anonymous [where I = "hm_find (order_info (hist st))", OF _ fresh] hist_wf_core [OF pf(1)] by (simp add: h)
    then have "hist_wf (historical_capacity st) (Suc (order_arrival_seq st)) ?h"
      using pf(1) hw by (simp add: hist_wf_def maps_wf_def heap_covers_def h)
    from sim_wf_no_paper [OF wf np this] pf(2) [of ?h] np h
    show ?thesis by (simp add: st' no_paper_def no_empty_level_def placed_def)
  qed
qed

section \<open>Loading all rows\<close>

text \<open>What the rows of a snapshot put at a price, in row order.\<close>

definition l3_at :: "Side \<Rightarrow> int \<Rightarrow> (Side \<times> int \<times> int \<times> int \<times> int) list \<Rightarrow> nat \<Rightarrow> OrderNode list" where
  "l3_at s px rows a = map (\<lambda>(k, s', px', q, oid, tid). row_node k q oid tid)
     (filter (\<lambda>(k, s', px', q, oid, tid). s' = s \<and> px' = px) (enumerate a rows))"

lemma l3_at_simps [simp]:
  "l3_at s px [] a = []"
  "l3_at s px ((s', px', q, oid, tid) # rows) a =
     (if s' = s \<and> px' = px then [row_node a q oid tid] else []) @ l3_at s px rows (Suc a)"
  by (simp_all add: l3_at_def)

lemma l3_load_wf:
  assumes "sim_wf st" "no_paper st" "\<forall>(s, px, q, oid, tid) \<in> set rows. 0 < q"
  shows "sim_wf (fst (l3_load rows st))"
  using assms
proof (induction rows arbitrary: st)
  case (Cons row rows)
  obtain s px q oid tid where row: "row = (s, px, q, oid, tid)" by (cases row)
  show ?case
  proof (cases "hm_contains (order_info (hist st)) oid")
    case False
    then have "hm_find (order_info (hist st)) oid = None" by (simp add: hm_contains_def)
    with l3_row [OF Cons.prems(1,2), of q oid s px tid] Cons.prems(3) Cons.IH False row show ?thesis by simp
  qed (use Cons.prems row in simp)
qed simp

lemma l3_load_rows:
  assumes "sim_wf st" "no_paper st" "\<forall>(s, px, q, oid, tid) \<in> set rows. 0 < q"
    and "room st + length rows \<le> historical_capacity st"
    and "distinct (map (\<lambda>(s, px, q, oid, tid). oid) rows)"
    and "\<forall>(s, px, q, oid, tid) \<in> set rows. hm_find (order_info (hist st)) oid = None"
  shows "snd (l3_load rows st) = None \<and>
    (\<forall>s px. resting s px (fst (l3_load rows st)) = resting s px st @ l3_at s px rows (order_arrival_seq st)) \<and>
    (no_empty_level (hist st) \<longrightarrow> no_empty_level (hist (fst (l3_load rows st))))"
  using assms
proof (induction rows arbitrary: st)
  case (Cons row rows)
  obtain s px q oid tid where row: "row = (s, px, q, oid, tid)" by (cases row)
  have q: "0 < q" and fresh: "hm_find (order_info (hist st)) oid = None" using Cons.prems row by auto
  let ?st = "l3_load_order s px q oid tid st"
  have c: "\<not> hm_contains (order_info (hist st)) oid" using fresh by (simp add: hm_contains_def)
  note r = l3_row [OF Cons.prems(1,2) q fresh, of s px tid]
  have pl: "placed s px (row_node (order_arrival_seq st) q oid tid) st ?st" using r Cons.prems(4) by simp
  have "hm_find (order_info (hist ?st)) i = None \<longleftrightarrow> i \<noteq> oid \<and> hm_find (order_info (hist st)) i = None" for i
    using r Cons.prems(4) by simp
  with Cons.prems(5,6) row have "\<forall>(s, px, q, oid, tid) \<in> set rows. hm_find (order_info (hist ?st)) oid = None"
    by (force split: prod.splits)
  then have "snd (l3_load rows ?st) = None \<and>
    (\<forall>s px. resting s px (fst (l3_load rows ?st)) = resting s px ?st @ l3_at s px rows (order_arrival_seq ?st)) \<and>
    (no_empty_level (hist ?st) \<longrightarrow> no_empty_level (hist (fst (l3_load rows ?st))))"
    using Cons.prems pl r row by (intro Cons.IH) (auto simp: placed_def)
  with pl c show ?case by (simp add: row placed_def)
qed simp

lemma l2_load_wf:
  assumes "sim_wf st" "no_paper st" "no_empty_level (hist st)" "\<forall>(s, px, q) \<in> set rows. 0 < q"
    and "hm_find (order_info (hist st)) UnknownOrderIdSentinel = None"
  shows "sim_wf (fst (l2_load rows st)) \<and> no_empty_level (hist (fst (l2_load rows st)))"
  using assms
proof (induction rows arbitrary: st)
  case (Cons row rows)
  obtain s px q where row: "row = (s, px, q)" by (cases row)
  show ?case
  proof (cases "hm_contains (h_book s (hist st)) px")
    case False
    then have "hq (hist st) s px = []" by (simp add: hm_contains_def hq_find)
    with l2_row [OF Cons.prems(1,2), of q s px] Cons.prems(3-) Cons.IH False row show ?thesis by simp
  qed (use Cons.prems row in simp)
qed simp

text \<open>An L2 row is an anonymous order.\<close>

definition anonymous :: "(Side \<times> int \<times> int) list \<Rightarrow> (Side \<times> int \<times> int \<times> int \<times> int) list" where
  "anonymous rows = map (\<lambda>(s, px, q). (s, px, q, UnknownOrderIdSentinel, UnknownTraderIdSentinel)) rows"

lemma anonymous_simps [simp]:
  "anonymous [] = []"
  "anonymous ((s, px, q) # rows) = (s, px, q, UnknownOrderIdSentinel, UnknownTraderIdSentinel) # anonymous rows"
  by (simp_all add: anonymous_def)

lemma l2_load_rows:
  assumes "sim_wf st" "no_paper st" "no_empty_level (hist st)" "\<forall>(s, px, q) \<in> set rows. 0 < q"
    and "hm_find (order_info (hist st)) UnknownOrderIdSentinel = None"
    and "room st + length rows \<le> historical_capacity st"
    and "distinct (map (\<lambda>(s, px, q). (s, px)) rows)" "\<forall>(s, px, q) \<in> set rows. resting s px st = []"
  shows "snd (l2_load rows st) = None \<and>
    (\<forall>s px. resting s px (fst (l2_load rows st)) = resting s px st @ l3_at s px (anonymous rows) (order_arrival_seq st))"
  using assms
proof (induction rows arbitrary: st)
  case (Cons row rows)
  obtain s px q where row: "row = (s, px, q)" by (cases row)
  have q: "0 < q" and new: "hq (hist st) s px = []" using Cons.prems row by (auto simp: resting_def)
  let ?st = "l2_load_level s px q st"
  have c: "\<not> hm_contains (h_book s (hist st)) px"
    using new Cons.prems(3) by (auto simp: hm_contains_def hq_find no_empty_level_def split: option.splits)
  note r = l2_row [OF Cons.prems(1,2) q Cons.prems(5) new]
  have pl: "placed s px (row_node (order_arrival_seq st) q UnknownOrderIdSentinel UnknownTraderIdSentinel) st ?st"
    using r Cons.prems(6) by simp
  have res: "resting s' px' ?st = resting s' px' st @ (if s' = s \<and> px' = px
      then [row_node (order_arrival_seq st) q UnknownOrderIdSentinel UnknownTraderIdSentinel] else [])" for s' px'
    using pl by (simp add: placed_def)
  have empty: "\<forall>(s, px, q) \<in> set rows. resting s px ?st = []"
  proof (clarify)
    fix s' px' q' assume i: "(s', px', q') \<in> set rows"
    then have "(s', px') \<noteq> (s, px)" using Cons.prems(7) row by force
    moreover have "resting s' px' st = []" using Cons.prems(8) i by auto
    ultimately show "resting s' px' ?st = []" using res [of s' px'] by auto
  qed
  have rows: "\<forall>(s, px, q) \<in> set rows. 0 < q" "distinct (map (\<lambda>(s, px, q). (s, px)) rows)"
    using Cons.prems(4,7) by simp_all
  have len: "room ?st + length rows \<le> historical_capacity ?st" using Cons.prems(6) pl r by (simp add: placed_def)
  have "sim_wf ?st" "no_paper ?st" "no_empty_level (hist ?st)" "hm_find (order_info (hist ?st)) UnknownOrderIdSentinel = None"
    using r Cons.prems(3,5) by simp_all
  note Cons.IH [OF this(1-3) rows(1) this(4) len rows(2) empty]
  with pl c show ?case by (simp add: row placed_def)
qed simp

section \<open>The two entry points\<close>

lemma init_l2_wf:
  assumes "sim_wf st" "\<forall>q \<in> set quantities. 0 < q"
  shows "sim_wf (fst (init_from_l2_snapshot sides prices quantities st))"
proof -
  note c = clear_state_facts [OF assms(1)]
  have "\<forall>(s, px, q) \<in> set (zip sides (zip prices quantities)). 0 < q"
    using assms(2) by (auto dest: set_zip_rightD)
  with l2_load_wf [OF c(1,2,7)] c show ?thesis by (simp add: init_from_l2_snapshot_def Let_def)
qed

lemma init_l3_wf:
  assumes "sim_wf st" "\<forall>q \<in> set quantities. 0 < q"
  shows "sim_wf (fst (init_from_l3_snapshot sides prices quantities order_ids trader_ids st))"
proof -
  note c = clear_state_facts [OF assms(1)]
  have "\<forall>(s, px, q, oid, tid) \<in> set (zip sides (zip prices (zip quantities (zip order_ids trader_ids)))). 0 < q"
    using assms(2) by clarsimp (metis set_zip_leftD set_zip_rightD)
  with l3_load_wf [OF c(1,2)] c show ?thesis by (simp add: init_from_l3_snapshot_def Let_def)
qed

end
