(* ===== verification/CallFrame.thy ===== *)
theory CallFrame
  imports EngineFacts Snapshot Queries
begin

text \<open>
  What the engine does with the sink: it only appends to what the sink has been told, and neither
  what was told before nor whether a sink is attached changes anything else. Both are changes of the
  state that every operation commutes with, so the operations are treated once, in a locale.
\<close>

locale call_frame =
  fixes g :: "Sim \<Rightarrow> Sim"
  assumes same_fields: "seq (g st) = seq st" "order_arrival_seq (g st) = order_arrival_seq st"
      "hist (g st) = hist st" "paper (g st) = paper st"
      "historical_capacity (g st) = historical_capacity st" "paper_capacity (g st) = paper_capacity st"
    and set_fields: "(g st)\<lparr>hist := h\<rparr> = g (st\<lparr>hist := h\<rparr>)" "(g st)\<lparr>paper := p\<rparr> = g (st\<lparr>paper := p\<rparr>)"
      "(g st)\<lparr>seq := n\<rparr> = g (st\<lparr>seq := n\<rparr>)" "(g st)\<lparr>order_arrival_seq := n\<rparr> = g (st\<lparr>order_arrival_seq := n\<rparr>)"
    and call_commutes: "emit_call c (g st) = g (emit_call c st)"
    and fills_commute: "emit_fills fs (g st) = g (emit_fills fs st)"
begin

lemmas frame = same_fields set_fields call_commutes fills_commute

lemma diagnostic_commutes: "emit_diagnostic event code sev (g st) = g (emit_diagnostic event code sev st)"
  by (simp add: emit_diagnostic_def frame)

lemma diag_if_commutes: "diag_if b event code sev (g st) = g (diag_if b event code sev st)"
  by (simp add: diag_if_def diagnostic_commutes)

lemma diags_commute: "emit_diags event ds (g st) = g (emit_diags event ds st)"
  unfolding emit_diags_def by (induction ds arbitrary: st) (simp_all add: case_prod_beta diagnostic_commutes)

text \<open>Rules that move \<open>g\<close> out of every construct of a handler, so that no case is split.\<close>

lemma outward:
  "(if b then g x else g y) = g (if b then x else y)"
  "(case q of (a, b) \<Rightarrow> g (f1 a b)) = g (case q of (a, b) \<Rightarrow> f1 a b)"
  "(case m of None \<Rightarrow> g x | Some y \<Rightarrow> g (f2 y)) = g (case m of None \<Rightarrow> x | Some y \<Rightarrow> f2 y)"
  "Let z (\<lambda>a. g (f3 a)) = g (Let z f3)"
  "Let (g x) f4 = Let x (\<lambda>a. f4 (g a))"
  by (simp_all split: prod.splits option.splits)

lemmas commutes = frame diagnostic_commutes diag_if_commutes diags_commute outward

lemma match_one_level_commutes:
  "match_one_level event px remaining (g st) =
     (fst (match_one_level event px remaining st), g (snd (match_one_level event px remaining st)))"
  by (simp add: match_one_level_def Let_def commutes split: prod.splits)

lemma match_loop_commutes:
  "match_loop event remaining (g st) =
     (fst (match_loop event remaining st), g (snd (match_loop event remaining st)))"
proof (induction event remaining st rule: match_loop.induct)
  case (1 event remaining st)
  let ?s = "opposite (ev_side event)"
  show ?case
  proof (cases "remaining > 0")
    case False
    then show ?thesis by (simp add: match_loop.simps [of event remaining])
  next
    case True
    obtain best heap' where b: "best_opposite_price ?s (h_book ?s (hist st)) (h_heap ?s (hist st)) = (best, heap')"
      by fastforce
    let ?st1 = "st\<lparr>hist := h_set_heap ?s heap' (hist st)\<rparr>"
    show ?thesis
    proof (cases best)
      case None
      with True b show ?thesis by (simp add: match_loop.simps [of event remaining] Let_def commutes)
    next
      case (Some px)
      obtain remaining' st2 where m: "match_one_level event px remaining ?st1 = (remaining', st2)" by fastforce
      show ?thesis
      proof (cases "price_crosses event px")
        case False
        with True b Some show ?thesis by (simp add: match_loop.simps [of event remaining] Let_def commutes)
      next
        case cross: True
        have "match_loop event remaining' (g st2) =
            (fst (match_loop event remaining' st2), g (snd (match_loop event remaining' st2)))"
          by (rule "1.IH" [OF _ refl b [symmetric] Some refl _ m [symmetric] refl]) (use True cross in simp_all)
        moreover have "match_loop event remaining st = match_loop event remaining' st2"
          using True b Some cross m by (simp add: match_loop.simps [of event remaining] Let_def)
        moreover have "match_loop event remaining (g st) = match_loop event remaining' (g st2)"
          using True b Some cross match_one_level_commutes [of event px remaining ?st1] m
          by (simp add: match_loop.simps [of event remaining] Let_def commutes)
        ultimately show ?thesis by simp
      qed
    qed
  qed
qed

lemma rest_commutes:
  "rest_historical event remaining (g st) = g (rest_historical event remaining st)"
  "rest_paper event remaining (g st) = g (rest_paper event remaining st)"
  by (auto simp: rest_historical_def rest_paper_def Let_def commutes split: prod.splits option.splits bool.splits)

lemma on_add_commutes: "on_add event (g st) = g (on_add event st)"
proof -
  have "on_add_historical event (g st) = g (on_add_historical event st)"
    by (auto simp: on_add_historical_def Let_def commutes match_loop_commutes rest_commutes split: prod.splits option.splits)
  moreover have "on_add_paper event (g st) = g (on_add_paper event st)"
    by (auto simp: on_add_paper_def Let_def commutes rest_commutes split: prod.splits option.splits)
  ultimately show ?thesis by (simp add: on_add_def add_is_duplicate_def commutes)
qed

lemma on_aggressive_trade_commutes: "on_aggressive_trade event (g st) = g (on_aggressive_trade event st)"
  by (auto simp: on_aggressive_trade_def Let_def commutes split: prod.splits)

lemma on_delete_commutes: "on_delete event (g st) = g (on_delete event st)"
  by (simp add: on_delete_def commutes cong: if_cong option.case_cong prod.case_cong)

lemma on_set_commutes: "on_set event (g st) = g (on_set event st)"
  by (simp add: on_set_def commutes cong: if_cong option.case_cong prod.case_cong)

text \<open>The reduction of a resting order, step by step.\<close>

lemma on_cancel_commutes: "on_partial_order_cancel event t (g st) = g (on_partial_order_cancel event t st)"
proof -
  define F3 where "F3 = (\<lambda>(node :: OrderNode) st2. diag_if (ev_quantity_lots event > on_qty node) event
    REQUESTED_ORDER_REDUCE_WITH_VOLUME_LARGER_THAN_AVAILABLE_FOR_ORDER_ID WARNING st2)"
  define F4 where "F4 = (\<lambda>s px qty (st3 :: Sim). if qty > 0 \<and> t
    then let (p, fs) = apply_paper_trade_at_level (seq st3) s px qty event (paper st3)
         in emit_fills fs (st3\<lparr>paper := p\<rparr>)
    else st3)"
  define F5 where "F5 = (\<lambda>s px (node :: OrderNode) qty (st4 :: Sim). if qty > 0
    then st4\<lparr>paper := p_market_deltas s px [(on_arrival_seq node, - qty)] (paper st4)\<rparr> else st4)"
  define F6 where "F6 = (\<lambda>s px (node :: OrderNode) qty (st5 :: Sim). if t
    then emit_fills [passive_fill (seq st5) s px qty node event] st5 else st5)"
  define F7 where "F7 = (\<lambda>s px n (node :: OrderNode) qty (st6 :: Sim).
    st6\<lparr>hist := (if on_qty node - qty = 0 then h_remove_order s px n (ev_order_id event) (hist st6)
                 else h_set_qty n (on_qty node - qty) (hist st6))\<rparr>)"
  define tail where "tail = (\<lambda>s px n st2.
    let node = np_get (order_pool (hist st2)) n; qty = min (on_qty node) (ev_quantity_lots event)
    in diag_if (t \<and> ev_update_source event = STRATEGY) event
         PAPER_ORDER_INVOKES_PASSIVE_MATCH_INSTEAD_OF_AGGRESSIVE_TRADE ERROR
         (F7 s px n node qty (F6 s px node qty (F5 s px node qty (F4 s px qty (F3 node st2))))))"
  have "F3 node (g x) = g (F3 node x)" "F4 s px qty (g x) = g (F4 s px qty x)"
    "F5 s px node qty (g x) = g (F5 s px node qty x)" "F6 s px node qty (g x) = g (F6 s px node qty x)"
    "F7 s px n node qty (g x) = g (F7 s px n node qty x)" for s px n node qty x
    by (simp_all add: F3_def F4_def F5_def F6_def F7_def commutes split: prod.splits)
  then have tail: "tail s px n (g x) = g (tail s px n x)" for s px n x
    by (simp add: tail_def Let_def commutes)
  have "on_partial_order_cancel event t x =
     (if ev_quantity_lots event < 0
      then emit_diagnostic event REQUESTED_REDUCE_ORDER_BY_NEGATIVE_QUANTITY ERROR x
      else if ev_quantity_lots event = 0
      then emit_diagnostic event REQUESTED_REDUCE_ORDER_BY_ZERO_QUANTITY WARNING x
      else case hm_find (order_info (hist x)) (ev_order_id event) of
        None \<Rightarrow> emit_diagnostic event REQUESTED_REDUCE_NON_EXISTING_ORDER_ID WARNING x
      | Some info \<Rightarrow>
          let s = oi_side info; px = oi_price_ticks info;
              st1 = diag_if (s \<noteq> ev_side event) event
                   PROVIDED_SIDE_ON_ORDER_REDUCE_DIFFERS_FROM_ORIGINAL_SIDE_FOR_ORDER_ID WARNING x;
              st2 = diag_if (px \<noteq> ev_price_ticks event) event
                   PROVIDED_PRICE_ON_ORDER_REDUCE_DIFFERS_FROM_ORIGINAL_PRICE_FOR_ORDER_ID WARNING st1
          in case (hm_find (h_book s (hist st2)) px, oi_node info) of
               (Some queue, Some n) \<Rightarrow> tail s px n st2
             | _ \<Rightarrow> emit_diagnostic event CORRUPT_BOOK_PRICE_IN_ORDER_INFO_BUT_NOT_IN_BOOK ERROR st2)" for x
    by (simp only: on_partial_order_cancel_def tail_def F3_def F4_def F5_def F6_def F7_def Let_def)
  then show ?thesis
    by (simp add: Let_def commutes tail split: option.splits)
qed

lemma update_commutes: "update event (g st) = g (update event st)"
proof -
  have "on_subtract event (g st) = g (on_subtract event st)" for st
    by (simp add: on_subtract_def commutes on_cancel_commutes cong: if_cong prod.case_cong)
  then have "dispatch event (g st) = g (dispatch event st)" for st
    by (cases "ev_update_type event")
      (simp_all add: dispatch_def on_match_def commutes on_add_commutes on_aggressive_trade_commutes
        on_delete_commutes on_set_commutes on_cancel_commutes)
  then show ?thesis by (simp add: update_def Let_def commutes)
qed

lemma run_updates_commutes: "run_updates evs (g st) = g (run_updates evs st)"
  unfolding run_updates_def by (induction evs arbitrary: st) (simp_all add: update_commutes)

end

definition told :: "SinkCall list \<Rightarrow> Sim \<Rightarrow> Sim" where
  \<comment> \<open>the engine with a longer past of calls\<close>
  "told cs st = st\<lparr>calls := cs @ calls st\<rparr>"

definition unlogged :: "Sim \<Rightarrow> Sim" where
  \<comment> \<open>the engine without a sink\<close>
  "unlogged st = st\<lparr>sink := False, calls := []\<rparr>"

interpretation tf: call_frame "told cs" for cs
  by unfold_locales (simp_all add: told_def emit_call_def emit_fills_def)

interpretation uf: call_frame unlogged
  by unfold_locales (simp_all add: unlogged_def emit_call_def emit_fills_def)

lemma told_calls [simp]: "told (calls st) (st\<lparr>calls := []\<rparr>) = st"
  by (simp add: told_def)

lemma unlogged_simps [simp]:
  "unlogged (unlogged st) = unlogged st" "unlogged (told cs st) = unlogged st"
  "unlogged (st\<lparr>calls := c\<rparr>) = unlogged st" "unlogged (set_log_sink b st) = unlogged st"
  "hist (unlogged st) = hist st" "paper (unlogged st) = paper st"
  "seq (unlogged st) = seq st" "order_arrival_seq (unlogged st) = order_arrival_seq st"
  by (simp_all add: unlogged_def told_def set_log_sink_def)

text \<open>Calls are only ever added at the end.\<close>

lemma update_calls: "calls (update event st) = calls st @ calls (update event (st\<lparr>calls := []\<rparr>))"
  using tf.update_commutes [of event "calls st" "st\<lparr>calls := []\<rparr>"] by (simp add: told_def)

lemma update_unlogged: "unlogged (update event st) = update event (unlogged st)"
  by (simp add: uf.update_commutes)

end
