(* ===== verification/Sinks.thy ===== *)
theory Sinks
  imports HashMap LobTypes
begin

text \<open>
  The sinks that record what engines report: \<open>InMemoryLogSink\<close> (\<open>in_memory_sink.hpp/.cpp\<close>) for one
  book, \<open>InMemoryMultiLogSink\<close> and \<open>BookScopedSink\<close> (\<open>multi_log_sink.hpp\<close>) for many. Both keep
  every record and a ledger of the strategy's orders; the multi sink adds an index per book. The
  interface the multi-book simulator relies on is a locale.
\<close>

section \<open>The ledger of strategy orders\<close>

datatype PaperOrderLedgerStatus = LO_OPEN | LO_PARTIALLY_FILLED | LO_FILLED | LO_CANCELLED | LO_REJECTED

datatype PaperOrderFillRole = MAKER | TAKER

record PaperOrderFill =
  pf_seq :: nat
  pf_ts_exchange :: int
  pf_ts_received :: int
  pf_price_ticks :: int
  pf_qty_lots :: int
  pf_role :: PaperOrderFillRole

record PaperOrderState =
  ls_order_id :: int
  ls_side :: Side
  ls_price_ticks :: int
  ls_initial_qty :: int
  ls_remaining_qty :: int
  ls_filled_qty :: int
  ls_status :: PaperOrderLedgerStatus
  ls_created_seq :: nat
  ls_last_update_seq :: nat

record PaperOrderLedgerEntry =
  le_state :: PaperOrderState
  le_fills :: "PaperOrderFill list"

type_synonym Ledger = "(int, PaperOrderLedgerEntry) hmap"

definition entry_fill :: "PaperOrderFillRole \<Rightarrow> FillRecord \<Rightarrow> PaperOrderLedgerEntry \<Rightarrow> PaperOrderLedgerEntry" where
  \<comment> \<open>the end of \<open>apply_strategy_fill\<close>, on the entry it has found\<close>
  "entry_fill role r e =
     (let st = le_state e;
          fill = \<lparr>pf_seq = fr_seq r, pf_ts_exchange = fr_ts_exchange r, pf_ts_received = fr_ts_received r,
                  pf_price_ticks = fr_price_ticks r, pf_qty_lots = fr_qty_lots r, pf_role = role\<rparr>;
          e1 = e\<lparr>le_fills := le_fills e @ [fill]\<rparr>
      in if fr_qty_lots r > 0
         then
           let remaining = max (ls_remaining_qty st - fr_qty_lots r) 0
           in e1\<lparr>le_state := st\<lparr>ls_filled_qty := ls_filled_qty st + fr_qty_lots r,
                ls_remaining_qty := remaining,
                ls_status := (if remaining = 0 then LO_FILLED else LO_PARTIALLY_FILLED),
                ls_last_update_seq := fr_seq r\<rparr>\<rparr>
         else e1)"

definition apply_strategy_fill ::
  "int \<Rightarrow> UpdateSource \<Rightarrow> PaperOrderFillRole \<Rightarrow> FillRecord \<Rightarrow> Ledger \<Rightarrow> Ledger" where
  "apply_strategy_fill order_id source role r ledger =
     (if source \<noteq> STRATEGY then ledger
      else if order_id = UnknownOrderIdSentinel then ledger
      else case hm_find ledger order_id of
        None \<Rightarrow> ledger
      | Some e \<Rightarrow>
          if ls_status (le_state e) = LO_CANCELLED \<or> ls_status (le_state e) = LO_REJECTED then ledger
          else hm_put order_id (entry_fill role r e) ledger)"

definition terminal :: "PaperOrderState \<Rightarrow> bool" where
  "terminal st \<longleftrightarrow> ls_status st = LO_FILLED \<or> ls_status st = LO_CANCELLED \<or> ls_status st = LO_REJECTED"

definition ledger_add :: "EventApplyRecord \<Rightarrow> Ledger \<times> EventApplyRecord list \<Rightarrow> Ledger \<times> EventApplyRecord list" where
  "ledger_add r lr =
     (let (ledger, rejected) = lr in
      if ar_qty_lots r \<le> 0 then (ledger, rejected @ [r])
      else if hm_contains ledger (ar_order_id r) then (ledger, rejected @ [r])
      else (hm_emplace (ar_order_id r)
              \<lparr>le_state = \<lparr>ls_order_id = ar_order_id r, ls_side = ar_side r,
                 ls_price_ticks = ar_price_ticks r, ls_initial_qty = ar_qty_lots r,
                 ls_remaining_qty = ar_qty_lots r, ls_filled_qty = 0, ls_status = LO_OPEN,
                 ls_created_seq = ar_seq r, ls_last_update_seq = ar_seq r\<rparr>,
               le_fills = []\<rparr> ledger, rejected))"

definition entry_subtract :: "EventApplyRecord \<Rightarrow> PaperOrderState \<Rightarrow> PaperOrderState" where
  "entry_subtract r st =
     (if terminal st then st
      else if ar_qty_lots r = 0 then st\<lparr>ls_last_update_seq := ar_seq r\<rparr>
      else
        let remaining = ls_remaining_qty st - min (ls_remaining_qty st) (ar_qty_lots r)
        in st\<lparr>ls_remaining_qty := remaining,
              ls_status := (if remaining = 0 then LO_CANCELLED else ls_status st),
              ls_last_update_seq := ar_seq r\<rparr>)"

definition entry_set :: "EventApplyRecord \<Rightarrow> PaperOrderState \<Rightarrow> PaperOrderState" where
  "entry_set r st =
     (if terminal st then st
      else
        let new_qty = (if ar_qty_lots r < 0 then 0 else ar_qty_lots r);
            total_qty = ls_filled_qty st + new_qty
        in st\<lparr>ls_remaining_qty := new_qty,
              ls_initial_qty := (if total_qty > ls_initial_qty st then total_qty else ls_initial_qty st),
              ls_status := (if new_qty = 0 then LO_CANCELLED
                            else if ls_filled_qty st > 0 then LO_PARTIALLY_FILLED else LO_OPEN),
              ls_last_update_seq := ar_seq r\<rparr>)"

definition entry_delete :: "EventApplyRecord \<Rightarrow> PaperOrderState \<Rightarrow> PaperOrderState" where
  "entry_delete r st =
     (if ls_status st \<noteq> LO_FILLED
      then st\<lparr>ls_remaining_qty := 0, ls_status := LO_CANCELLED, ls_last_update_seq := ar_seq r\<rparr>
      else st)"

definition ledger_modify :: "int \<Rightarrow> (PaperOrderState \<Rightarrow> PaperOrderState) \<Rightarrow> Ledger \<Rightarrow> Ledger" where
  \<comment> \<open>\<open>find\<close>, nothing when there is no entry, else a write through the reference\<close>
  "ledger_modify i f ledger =
     (case hm_find ledger i of
        None \<Rightarrow> ledger
      | Some e \<Rightarrow> hm_put i (e\<lparr>le_state := f (le_state e)\<rparr>) ledger)"

definition update_strategy_order ::
  "EventApplyRecord \<Rightarrow> Ledger \<times> EventApplyRecord list \<Rightarrow> Ledger \<times> EventApplyRecord list" where
  "update_strategy_order r lr =
     (if ar_source r \<noteq> STRATEGY then lr
      else
        let (ledger, rejected) = lr in
        case ar_update_type r of
          ADD \<Rightarrow> ledger_add r lr
        | SUBTRACT \<Rightarrow>
            if ar_qty_lots r < 0 then (ledger, rejected @ [r])
            else (ledger_modify (ar_order_id r) (entry_subtract r) ledger, rejected)
        | SET \<Rightarrow> (ledger_modify (ar_order_id r) (entry_set r) ledger, rejected)
        | DELETE \<Rightarrow> (ledger_modify (ar_order_id r) (entry_delete r) ledger, rejected)
        | MATCH \<Rightarrow> lr
        | AGGRESSIVE_TRADE \<Rightarrow> lr
        | RAW_UPDATE_TYPE _ \<Rightarrow> lr)"

section \<open>\<open>InMemoryLogSink\<close>\<close>

record InMemoryLogSink =
  sk_fills :: "FillRecord list"
  sk_events :: "EventApplyRecord list"
  sk_diagnostics :: "DiagnosticRecord list"
  sk_paper_ledger :: Ledger
  sk_rejected :: "EventApplyRecord list"

definition sink_empty :: InMemoryLogSink where
  "sink_empty = \<lparr>sk_fills = [], sk_events = [], sk_diagnostics = [], sk_paper_ledger = hm_empty, sk_rejected = []\<rparr>"

definition sink_on_fill :: "FillRecord \<Rightarrow> InMemoryLogSink \<Rightarrow> InMemoryLogSink" where
  "sink_on_fill r k =
     k\<lparr>sk_fills := sk_fills k @ [r],
       sk_paper_ledger :=
         apply_strategy_fill (fr_taker_order_id r) (fr_taker_source r) TAKER r
           (apply_strategy_fill (fr_maker_order_id r) (fr_maker_source r) MAKER r (sk_paper_ledger k))\<rparr>"

definition sink_on_event_apply :: "EventApplyRecord \<Rightarrow> InMemoryLogSink \<Rightarrow> InMemoryLogSink" where
  "sink_on_event_apply r k =
     (let (ledger, rejected) = update_strategy_order r (sk_paper_ledger k, sk_rejected k)
      in k\<lparr>sk_events := sk_events k @ [r], sk_paper_ledger := ledger, sk_rejected := rejected\<rparr>)"

definition sink_on_diagnostic :: "DiagnosticRecord \<Rightarrow> InMemoryLogSink \<Rightarrow> InMemoryLogSink" where
  "sink_on_diagnostic r k = k\<lparr>sk_diagnostics := sk_diagnostics k @ [r]\<rparr>"

definition sink_reset :: "InMemoryLogSink \<Rightarrow> InMemoryLogSink" where
  "sink_reset k = \<lparr>sk_fills = [], sk_events = [], sk_diagnostics = [], sk_paper_ledger = hm_empty, sk_rejected = []\<rparr>"

definition sink_drain_fills :: "InMemoryLogSink \<Rightarrow> FillRecord list \<times> InMemoryLogSink" where
  "sink_drain_fills k = (sk_fills k, k\<lparr>sk_fills := []\<rparr>)"

definition sink_drain_events :: "InMemoryLogSink \<Rightarrow> EventApplyRecord list \<times> InMemoryLogSink" where
  "sink_drain_events k = (sk_events k, k\<lparr>sk_events := []\<rparr>)"

definition sink_find_paper_order :: "int \<Rightarrow> InMemoryLogSink \<Rightarrow> PaperOrderLedgerEntry option" where
  "sink_find_paper_order i k = hm_find (sk_paper_ledger k) i"

fun sink_call :: "SinkCall \<Rightarrow> InMemoryLogSink \<Rightarrow> InMemoryLogSink" where
  \<comment> \<open>the virtual methods of \<open>ILogSink\<close>\<close>
  "sink_call (OnFill r) k = sink_on_fill r k"
| "sink_call (OnEventApply r) k = sink_on_event_apply r k"
| "sink_call (OnDiagnostic r) k = sink_on_diagnostic r k"
| "sink_call OnReset k = sink_reset k"

section \<open>\<open>BookScopedSink\<close>\<close>

fun book_scoped :: "string \<Rightarrow> SinkCall \<Rightarrow> SinkCall list" where
  \<comment> \<open>the calls on the parent; \<open>reset\<close> is not passed on\<close>
  "book_scoped key (OnFill r) = [OnFill (if fr_book_key r = [] then r\<lparr>fr_book_key := key\<rparr> else r)]"
| "book_scoped key (OnEventApply r) = [OnEventApply (if ar_book_key r = [] then r\<lparr>ar_book_key := key\<rparr> else r)]"
| "book_scoped key (OnDiagnostic r) = [OnDiagnostic (if dr_book_key r = [] then r\<lparr>dr_book_key := key\<rparr> else r)]"
| "book_scoped key OnReset = []"

section \<open>\<open>InMemoryMultiLogSink\<close>\<close>

type_synonym Index = "(string, nat list) hmap"

record InMemoryMultiLogSink =
  mk_fills :: "FillRecord list"
  mk_events :: "EventApplyRecord list"
  mk_diagnostics :: "DiagnosticRecord list"
  mk_fill_index :: Index
  mk_event_index :: Index
  mk_diag_index :: Index
  mk_paper_ledger :: "(string, Ledger) hmap"
  mk_rejected :: "(string, EventApplyRecord list) hmap"

definition multi_sink_empty :: InMemoryMultiLogSink where
  "multi_sink_empty = \<lparr>mk_fills = [], mk_events = [], mk_diagnostics = [], mk_fill_index = hm_empty,
     mk_event_index = hm_empty, mk_diag_index = hm_empty, mk_paper_ledger = hm_empty, mk_rejected = hm_empty\<rparr>"

definition index_push :: "string \<Rightarrow> nat \<Rightarrow> Index \<Rightarrow> Index" where
  \<comment> \<open>\<open>index_[key].push_back(i)\<close>\<close>
  "index_push key i idx = hm_put key (hm_get [] idx key @ [i]) idx"

definition multi_apply_strategy_fill ::
  "string \<Rightarrow> int \<Rightarrow> UpdateSource \<Rightarrow> PaperOrderFillRole \<Rightarrow> FillRecord \<Rightarrow> (string, Ledger) hmap
     \<Rightarrow> (string, Ledger) hmap" where
  "multi_apply_strategy_fill key order_id source role r ledgers =
     (if source \<noteq> STRATEGY then ledgers
      else if order_id = UnknownOrderIdSentinel then ledgers
      else case hm_find ledgers key of
        None \<Rightarrow> ledgers
      | Some ledger \<Rightarrow>
          (case hm_find ledger order_id of
             None \<Rightarrow> ledgers
           | Some e \<Rightarrow>
               if ls_status (le_state e) = LO_CANCELLED \<or> ls_status (le_state e) = LO_REJECTED then ledgers
               else hm_put key (hm_put order_id (entry_fill role r e) ledger) ledgers))"

definition multi_update_strategy_order ::
  "EventApplyRecord \<Rightarrow> (string, Ledger) hmap \<times> (string, EventApplyRecord list) hmap
     \<Rightarrow> (string, Ledger) hmap \<times> (string, EventApplyRecord list) hmap" where
  \<comment> \<open>\<open>operator[]\<close> creates the book's ledger and list; the cases are those of the single sink\<close>
  "multi_update_strategy_order r lr =
     (if ar_source r \<noteq> STRATEGY then lr
      else
        let (ledgers, rejecteds) = lr;
            (ledger, rejected) =
              update_strategy_order r (hm_get hm_empty ledgers (ar_book_key r), hm_get [] rejecteds (ar_book_key r))
        in (hm_put (ar_book_key r) ledger ledgers, hm_put (ar_book_key r) rejected rejecteds))"

definition multi_on_fill :: "FillRecord \<Rightarrow> InMemoryMultiLogSink \<Rightarrow> InMemoryMultiLogSink" where
  "multi_on_fill r k =
     k\<lparr>mk_fill_index := index_push (fr_book_key r) (length (mk_fills k)) (mk_fill_index k),
       mk_fills := mk_fills k @ [r],
       mk_paper_ledger :=
         multi_apply_strategy_fill (fr_book_key r) (fr_taker_order_id r) (fr_taker_source r) TAKER r
           (multi_apply_strategy_fill (fr_book_key r) (fr_maker_order_id r) (fr_maker_source r) MAKER r
              (mk_paper_ledger k))\<rparr>"

definition multi_on_event_apply :: "EventApplyRecord \<Rightarrow> InMemoryMultiLogSink \<Rightarrow> InMemoryMultiLogSink" where
  "multi_on_event_apply r k =
     (let (ledgers, rejecteds) = multi_update_strategy_order r (mk_paper_ledger k, mk_rejected k)
      in k\<lparr>mk_event_index := index_push (ar_book_key r) (length (mk_events k)) (mk_event_index k),
           mk_events := mk_events k @ [r], mk_paper_ledger := ledgers, mk_rejected := rejecteds\<rparr>)"

definition multi_on_diagnostic :: "DiagnosticRecord \<Rightarrow> InMemoryMultiLogSink \<Rightarrow> InMemoryMultiLogSink" where
  "multi_on_diagnostic r k =
     k\<lparr>mk_diag_index := index_push (dr_book_key r) (length (mk_diagnostics k)) (mk_diag_index k),
       mk_diagnostics := mk_diagnostics k @ [r]\<rparr>"

definition multi_reset :: "InMemoryMultiLogSink \<Rightarrow> InMemoryMultiLogSink" where
  "multi_reset k = multi_sink_empty"

definition records_at :: "'r list \<Rightarrow> Index \<Rightarrow> string \<Rightarrow> 'r list" where
  \<comment> \<open>the body of \<open>fills_for\<close>, \<open>events_for\<close> and \<open>diagnostics_for\<close>\<close>
  "records_at rs idx key = (case hm_find idx key of None \<Rightarrow> [] | Some is \<Rightarrow> map (\<lambda>i. rs ! i) is)"

definition fills_for :: "InMemoryMultiLogSink \<Rightarrow> string \<Rightarrow> FillRecord list" where
  "fills_for k key = records_at (mk_fills k) (mk_fill_index k) key"

definition events_for :: "InMemoryMultiLogSink \<Rightarrow> string \<Rightarrow> EventApplyRecord list" where
  "events_for k key = records_at (mk_events k) (mk_event_index k) key"

definition diagnostics_for :: "InMemoryMultiLogSink \<Rightarrow> string \<Rightarrow> DiagnosticRecord list" where
  "diagnostics_for k key = records_at (mk_diagnostics k) (mk_diag_index k) key"

definition paper_ledger_for :: "InMemoryMultiLogSink \<Rightarrow> string \<Rightarrow> Ledger" where
  "paper_ledger_for k key = hm_get hm_empty (mk_paper_ledger k) key"

definition multi_find_paper_order :: "string \<Rightarrow> int \<Rightarrow> InMemoryMultiLogSink \<Rightarrow> PaperOrderLedgerEntry option" where
  "multi_find_paper_order key i k =
     (case hm_find (mk_paper_ledger k) key of None \<Rightarrow> None | Some ledger \<Rightarrow> hm_find ledger i)"

definition rejected_strategy_events_for :: "InMemoryMultiLogSink \<Rightarrow> string \<Rightarrow> EventApplyRecord list" where
  "rejected_strategy_events_for k key = hm_get [] (mk_rejected k) key"

definition multi_drain_fills :: "InMemoryMultiLogSink \<Rightarrow> FillRecord list \<times> InMemoryMultiLogSink" where
  "multi_drain_fills k = (mk_fills k, k\<lparr>mk_fills := [], mk_fill_index := hm_empty\<rparr>)"

definition multi_drain_events :: "InMemoryMultiLogSink \<Rightarrow> EventApplyRecord list \<times> InMemoryMultiLogSink" where
  "multi_drain_events k = (mk_events k, k\<lparr>mk_events := [], mk_event_index := hm_empty\<rparr>)"

definition multi_drain_diagnostics :: "InMemoryMultiLogSink \<Rightarrow> DiagnosticRecord list \<times> InMemoryMultiLogSink" where
  "multi_drain_diagnostics k = (mk_diagnostics k, k\<lparr>mk_diagnostics := [], mk_diag_index := hm_empty\<rparr>)"

fun multi_call :: "SinkCall \<Rightarrow> InMemoryMultiLogSink \<Rightarrow> InMemoryMultiLogSink" where
  "multi_call (OnFill r) k = multi_on_fill r k"
| "multi_call (OnEventApply r) k = multi_on_event_apply r k"
| "multi_call (OnDiagnostic r) k = multi_on_diagnostic r k"
| "multi_call OnReset k = multi_reset k"

end
