(* ===== verification/SinkFacts.thy ===== *)
theory SinkFacts
  imports Sinks
begin

text \<open>
  The ledger invariant and its preservation, the index of the multi sink, the interface of a multi
  sink as a locale with \<open>InMemoryMultiLogSink\<close> as its instance, and the simulation of a multi sink
  restricted to one book by a single sink.
\<close>

section \<open>The ledger\<close>

definition fills_total :: "PaperOrderFill list \<Rightarrow> int" where
  "fills_total fs = sum_list (map (\<lambda>f. max 0 (pf_qty_lots f)) fs)"

definition entry_ok :: "PaperOrderLedgerEntry \<Rightarrow> bool" where
  "entry_ok e \<longleftrightarrow>
     (let st = le_state e in
      0 \<le> ls_remaining_qty st \<and> ls_remaining_qty st \<le> ls_initial_qty st \<and>
      ls_filled_qty st = fills_total (le_fills e) \<and>
      (case ls_status st of
         LO_OPEN \<Rightarrow> ls_filled_qty st = 0 \<and> 0 < ls_remaining_qty st
       | LO_PARTIALLY_FILLED \<Rightarrow> 0 < ls_filled_qty st \<and> 0 < ls_remaining_qty st
       | LO_FILLED \<Rightarrow> 0 < ls_filled_qty st \<and> ls_remaining_qty st = 0
       | LO_CANCELLED \<Rightarrow> ls_remaining_qty st = 0
       | LO_REJECTED \<Rightarrow> False))"

definition ledger_ok :: "Ledger \<Rightarrow> bool" where
  "ledger_ok ledger \<longleftrightarrow> hm_wf ledger \<and>
     (\<forall>i e. hm_find ledger i = Some e \<longrightarrow> entry_ok e \<and> ls_order_id (le_state e) = i)"

lemma ledger_ok_empty: "ledger_ok hm_empty"
  by (simp add: ledger_ok_def)

lemma ledger_okD: "ledger_ok L \<Longrightarrow> hm_find L i = Some e \<Longrightarrow> entry_ok e \<and> ls_order_id (le_state e) = i"
  by (simp add: ledger_ok_def)

lemma ledger_ok_put:
  "ledger_ok L \<Longrightarrow> entry_ok e \<Longrightarrow> ls_order_id (le_state e) = i \<Longrightarrow> ledger_ok (hm_put i e L)"
  by (auto simp: ledger_ok_def)

lemma fills_total_nonneg: "0 \<le> fills_total fs"
  unfolding fills_total_def by (rule sum_list_nonneg_int) simp

lemma fills_total_snoc [simp]: "fills_total (fs @ [f]) = fills_total fs + max 0 (pf_qty_lots f)"
  by (simp add: fills_total_def)

lemma entry_fill_ok:
  assumes "entry_ok e" "ls_status (le_state e) \<noteq> LO_CANCELLED"
  shows "entry_ok (entry_fill role r e) \<and> ls_order_id (le_state (entry_fill role r e)) = ls_order_id (le_state e)"
  using assms fills_total_nonneg [of "le_fills e"]
  by (auto simp: entry_ok_def entry_fill_def Let_def split: PaperOrderLedgerStatus.splits)

lemma entry_subtract_ok:
  "entry_ok e \<Longrightarrow> 0 \<le> ar_qty_lots r \<Longrightarrow>
     entry_ok (e\<lparr>le_state := entry_subtract r (le_state e)\<rparr>) \<and>
     ls_order_id (entry_subtract r (le_state e)) = ls_order_id (le_state e)"
  by (auto simp: entry_ok_def entry_subtract_def terminal_def Let_def min_def
      split: PaperOrderLedgerStatus.splits)

lemma entry_set_ok:
  "entry_ok e \<Longrightarrow> entry_ok (e\<lparr>le_state := entry_set r (le_state e)\<rparr>) \<and>
     ls_order_id (entry_set r (le_state e)) = ls_order_id (le_state e)"
  using fills_total_nonneg [of "le_fills e"]
  by (auto simp: entry_ok_def entry_set_def terminal_def Let_def split: PaperOrderLedgerStatus.splits)

lemma entry_delete_ok:
  "entry_ok e \<Longrightarrow> entry_ok (e\<lparr>le_state := entry_delete r (le_state e)\<rparr>) \<and>
     ls_order_id (entry_delete r (le_state e)) = ls_order_id (le_state e)"
  by (auto simp: entry_ok_def entry_delete_def Let_def split: PaperOrderLedgerStatus.splits)

lemma ledger_modify_ok:
  assumes "ledger_ok L"
    and "\<And>e. entry_ok e \<Longrightarrow> entry_ok (e\<lparr>le_state := f (le_state e)\<rparr>) \<and>
      ls_order_id (f (le_state e)) = ls_order_id (le_state e)"
  shows "ledger_ok (ledger_modify i f L)"
proof (cases "hm_find L i")
  case (Some e)
  with assms ledger_okD [OF assms(1) Some] show ?thesis
    by (simp add: ledger_modify_def ledger_ok_put)
qed (use assms in \<open>simp add: ledger_modify_def\<close>)

lemma apply_strategy_fill_ok:
  assumes "ledger_ok L" shows "ledger_ok (apply_strategy_fill i src role r L)"
proof (cases "hm_find L i")
  case (Some e)
  with assms ledger_okD [OF assms Some] entry_fill_ok [of e role r] show ?thesis
    by (auto simp: apply_strategy_fill_def intro: ledger_ok_put)
qed (use assms in \<open>simp add: apply_strategy_fill_def\<close>)

lemma update_strategy_order_ok:
  assumes "ledger_ok L" shows "ledger_ok (fst (update_strategy_order r (L, rej)))"
proof -
  have "ledger_ok (fst (ledger_add r (L, rej)))"
    using assms
    by (auto simp: ledger_add_def Let_def hm_emplace_def entry_ok_def fills_total_def intro!: ledger_ok_put)
  moreover have "ledger_ok (ledger_modify i (entry_subtract r) L)" if "0 \<le> ar_qty_lots r" for i
    by (rule ledger_modify_ok [OF assms]) (rule entry_subtract_ok [OF _ that])
  ultimately show ?thesis
    using assms ledger_modify_ok [OF assms entry_set_ok] ledger_modify_ok [OF assms entry_delete_ok]
    by (simp add: update_strategy_order_def split: UpdateType.splits)
qed

lemma sink_call_ok: "ledger_ok (sk_paper_ledger k) \<Longrightarrow> ledger_ok (sk_paper_ledger (sink_call c k))"
  using update_strategy_order_ok [of "sk_paper_ledger k" _ "sk_rejected k"]
  by (cases c)
    (auto simp: sink_on_fill_def sink_on_event_apply_def sink_on_diagnostic_def sink_reset_def
      apply_strategy_fill_ok ledger_ok_empty case_prod_beta)

lemma sink_calls_ok: "ledger_ok (sk_paper_ledger k) \<Longrightarrow> ledger_ok (sk_paper_ledger (fold sink_call cs k))"
  by (induction cs arbitrary: k) (simp_all add: sink_call_ok)

section \<open>The index of a multi sink\<close>

definition index_ok :: "('r \<Rightarrow> string) \<Rightarrow> 'r list \<Rightarrow> Index \<Rightarrow> bool" where
  "index_ok key_of rs idx \<longleftrightarrow>
     (\<forall>key. (\<forall>i \<in> set (hm_get [] idx key). i < length rs) \<and>
        map (\<lambda>i. rs ! i) (hm_get [] idx key) = filter (\<lambda>r. key_of r = key) rs)"

lemma index_ok_empty: "index_ok key_of [] hm_empty"
  by (simp add: index_ok_def hm_get_def)

lemma records_at_get: "records_at rs idx key = map (\<lambda>i. rs ! i) (hm_get [] idx key)"
  by (simp add: records_at_def hm_get_def split: option.splits)

lemma index_ok_records: "index_ok key_of rs idx \<Longrightarrow> records_at rs idx key = filter (\<lambda>r. key_of r = key) rs"
  by (simp add: index_ok_def records_at_get)

lemma index_ok_push:
  assumes "index_ok key_of rs idx"
  shows "index_ok key_of (rs @ [r]) (index_push (key_of r) (length rs) idx)"
  unfolding index_ok_def
proof (intro allI conjI)
  fix key
  let ?old = "hm_get [] idx key"
  have old: "\<forall>i \<in> set ?old. i < length rs" "map (\<lambda>i. rs ! i) ?old = filter (\<lambda>r. key_of r = key) rs"
    using assms by (simp_all add: index_ok_def)
  then have keep: "map (\<lambda>i. (rs @ [r]) ! i) ?old = filter (\<lambda>r. key_of r = key) rs"
    by (metis (no_types, lifting) map_eq_conv nth_append)
  have new: "hm_get [] (index_push (key_of r) (length rs) idx) key =
      (if key = key_of r then ?old @ [length rs] else ?old)"
    by (simp add: index_push_def hm_get_def)
  show "\<forall>i \<in> set (hm_get [] (index_push (key_of r) (length rs) idx) key). i < length (rs @ [r])"
    using old(1) unfolding new by auto
  show "map (\<lambda>i. (rs @ [r]) ! i) (hm_get [] (index_push (key_of r) (length rs) idx) key) =
      filter (\<lambda>r. key_of r = key) (rs @ [r])"
    using keep unfolding new by simp
qed

definition multi_ok :: "InMemoryMultiLogSink \<Rightarrow> bool" where
  "multi_ok k \<longleftrightarrow> index_ok fr_book_key (mk_fills k) (mk_fill_index k) \<and>
     index_ok ar_book_key (mk_events k) (mk_event_index k) \<and>
     index_ok dr_book_key (mk_diagnostics k) (mk_diag_index k)"

lemma multi_ok_empty: "multi_ok multi_sink_empty"
  by (simp add: multi_ok_def multi_sink_empty_def index_ok_empty)

lemma multi_ok_call: "multi_ok k \<Longrightarrow> multi_ok (multi_call c k)"
  by (cases c)
    (auto simp: multi_ok_def multi_on_fill_def multi_on_event_apply_def multi_on_diagnostic_def
      multi_reset_def multi_ok_empty [unfolded multi_ok_def] index_ok_push case_prod_beta)

lemma multi_ok_drain:
  "multi_ok k \<Longrightarrow> multi_ok (snd (multi_drain_fills k))"
  "multi_ok k \<Longrightarrow> multi_ok (snd (multi_drain_events k))"
  "multi_ok k \<Longrightarrow> multi_ok (snd (multi_drain_diagnostics k))"
  by (simp_all add: multi_ok_def multi_drain_fills_def multi_drain_events_def
      multi_drain_diagnostics_def index_ok_empty)

section \<open>The interface of a multi sink\<close>

fun fill_of :: "SinkCall \<Rightarrow> FillRecord list" where
  "fill_of (OnFill r) = [r]"
| "fill_of _ = []"

fun event_of :: "SinkCall \<Rightarrow> EventApplyRecord list" where
  "event_of (OnEventApply r) = [r]"
| "event_of _ = []"

fun diagnostic_of :: "SinkCall \<Rightarrow> DiagnosticRecord list" where
  "diagnostic_of (OnDiagnostic r) = [r]"
| "diagnostic_of _ = []"

text \<open>
  What a client of \<open>IMultiLogSink\<close> relies on: a record is found under its own book, after those
  that came before, and under no other; \<open>reset\<close> is the only call that forgets.
\<close>

locale multi_log_sink =
  fixes accept :: "SinkCall \<Rightarrow> 's \<Rightarrow> 's"
    and fills :: "'s \<Rightarrow> string \<Rightarrow> FillRecord list"
    and events :: "'s \<Rightarrow> string \<Rightarrow> EventApplyRecord list"
    and diagnostics :: "'s \<Rightarrow> string \<Rightarrow> DiagnosticRecord list"
    and invar :: "'s \<Rightarrow> bool"
  assumes invar_accept: "invar s \<Longrightarrow> invar (accept c s)"
    and fills_accept: "invar s \<Longrightarrow> OnReset \<noteq> c \<Longrightarrow>
      fills (accept c s) key = fills s key @ filter (\<lambda>r. fr_book_key r = key) (fill_of c)"
    and events_accept: "invar s \<Longrightarrow> OnReset \<noteq> c \<Longrightarrow>
      events (accept c s) key = events s key @ filter (\<lambda>r. ar_book_key r = key) (event_of c)"
    and diagnostics_accept: "invar s \<Longrightarrow> OnReset \<noteq> c \<Longrightarrow>
      diagnostics (accept c s) key = diagnostics s key @ filter (\<lambda>r. dr_book_key r = key) (diagnostic_of c)"
begin

lemma invar_run: "invar s \<Longrightarrow> invar (fold accept cs s)"
  by (induction cs arbitrary: s) (simp_all add: invar_accept)

lemma fills_run:
  "invar s \<Longrightarrow> OnReset \<notin> set cs \<Longrightarrow>
     fills (fold accept cs s) key = fills s key @ filter (\<lambda>r. fr_book_key r = key) (concat (map fill_of cs))"
  by (induction cs arbitrary: s) (simp_all add: invar_accept fills_accept)

lemma events_run:
  "invar s \<Longrightarrow> OnReset \<notin> set cs \<Longrightarrow>
     events (fold accept cs s) key = events s key @ filter (\<lambda>r. ar_book_key r = key) (concat (map event_of cs))"
  by (induction cs arbitrary: s) (simp_all add: invar_accept events_accept)

lemma diagnostics_run:
  "invar s \<Longrightarrow> OnReset \<notin> set cs \<Longrightarrow>
     diagnostics (fold accept cs s) key =
       diagnostics s key @ filter (\<lambda>r. dr_book_key r = key) (concat (map diagnostic_of cs))"
  by (induction cs arbitrary: s) (simp_all add: invar_accept diagnostics_accept)

text \<open>Calls tagged with other books do not change what is found under a book.\<close>

lemma fills_other_books:
  assumes "invar s" "OnReset \<notin> set cs" "\<forall>c \<in> set cs. \<forall>r \<in> set (fill_of c). fr_book_key r \<noteq> key"
  shows "fills (fold accept cs s) key = fills s key"
  using assms by (simp add: fills_run filter_empty_conv)

end

lemma for_records:
  assumes "multi_ok k"
  shows "fills_for k key = filter (\<lambda>r. fr_book_key r = key) (mk_fills k)"
    and "events_for k key = filter (\<lambda>r. ar_book_key r = key) (mk_events k)"
    and "diagnostics_for k key = filter (\<lambda>r. dr_book_key r = key) (mk_diagnostics k)"
  using assms index_ok_records
  by (auto simp: multi_ok_def fills_for_def events_for_def diagnostics_for_def)

lemma multi_call_records:
  assumes "OnReset \<noteq> c"
  shows "mk_fills (multi_call c k) = mk_fills k @ fill_of c"
    and "mk_events (multi_call c k) = mk_events k @ event_of c"
    and "mk_diagnostics (multi_call c k) = mk_diagnostics k @ diagnostic_of c"
  using assms
  by (cases c; simp add: multi_on_fill_def multi_on_event_apply_def multi_on_diagnostic_def case_prod_beta)+

interpretation mls: multi_log_sink multi_call fills_for events_for diagnostics_for multi_ok
  by unfold_locales
    (simp_all add: multi_ok_call for_records multi_call_records)

section \<open>One book of a multi sink is a single sink\<close>

fun concerns :: "string \<Rightarrow> SinkCall \<Rightarrow> bool" where
  "concerns key (OnFill r) = (fr_book_key r = key)"
| "concerns key (OnEventApply r) = (ar_book_key r = key)"
| "concerns key (OnDiagnostic r) = (dr_book_key r = key)"
| "concerns key OnReset = True"

definition book_view :: "string \<Rightarrow> InMemoryMultiLogSink \<Rightarrow> InMemoryLogSink" where
  "book_view key k = \<lparr>sk_fills = fills_for k key, sk_events = events_for k key,
     sk_diagnostics = diagnostics_for k key, sk_paper_ledger = paper_ledger_for k key,
     sk_rejected = rejected_strategy_events_for k key\<rparr>"

lemma multi_fill_ledger:
  "hm_get hm_empty (multi_apply_strategy_fill key i src role r Ls) key' =
     (if key' = key then apply_strategy_fill i src role r (hm_get hm_empty Ls key) else hm_get hm_empty Ls key')"
  by (auto simp: multi_apply_strategy_fill_def apply_strategy_fill_def hm_get_def split: option.splits)

lemma multi_event_ledger:
  assumes "multi_update_strategy_order r (Ls, Rs) = (Ls', Rs')"
    and "update_strategy_order r (hm_get hm_empty Ls (ar_book_key r), hm_get [] Rs (ar_book_key r)) = (L, R)"
  shows "hm_get hm_empty Ls' key = (if key = ar_book_key r then L else hm_get hm_empty Ls key)"
    and "hm_get [] Rs' key = (if key = ar_book_key r then R else hm_get [] Rs key)"
  using assms
  by (auto simp: multi_update_strategy_order_def update_strategy_order_def hm_get_def Let_def split: if_splits)

lemma book_view_call:
  assumes ok: "multi_ok k"
  shows "book_view key (multi_call c k) = (if concerns key c then sink_call c (book_view key k) else book_view key k)"
proof (cases c)
  case (OnFill r)
  have "paper_ledger_for (multi_on_fill r k) key = (if fr_book_key r = key
      then sk_paper_ledger (sink_on_fill r (book_view key k)) else paper_ledger_for k key)"
    by (simp add: paper_ledger_for_def multi_on_fill_def sink_on_fill_def book_view_def multi_fill_ledger)
  then show ?thesis
    using mls.fills_accept [OF ok, of c] mls.events_accept [OF ok, of c] mls.diagnostics_accept [OF ok, of c]
    by (simp add: OnFill book_view_def sink_on_fill_def rejected_strategy_events_for_def multi_on_fill_def)
next
  case (OnEventApply r)
  obtain Ls Rs where m: "multi_update_strategy_order r (mk_paper_ledger k, mk_rejected k) = (Ls, Rs)" by fastforce
  obtain L R where l: "update_strategy_order r (hm_get hm_empty (mk_paper_ledger k) (ar_book_key r),
      hm_get [] (mk_rejected k) (ar_book_key r)) = (L, R)" by fastforce
  from multi_event_ledger [OF m l] show ?thesis
    using mls.fills_accept [OF ok, of c] mls.events_accept [OF ok, of c] mls.diagnostics_accept [OF ok, of c] l m
    by (auto simp: OnEventApply book_view_def sink_on_event_apply_def rejected_strategy_events_for_def
        paper_ledger_for_def multi_on_event_apply_def)
next
  case (OnDiagnostic r)
  then show ?thesis
    using mls.fills_accept [OF ok, of c] mls.events_accept [OF ok, of c] mls.diagnostics_accept [OF ok, of c]
    by (simp add: book_view_def sink_on_diagnostic_def rejected_strategy_events_for_def
        paper_ledger_for_def multi_on_diagnostic_def)
next
  case OnReset
  then show ?thesis
    by (simp add: book_view_def multi_reset_def multi_sink_empty_def sink_reset_def fills_for_def events_for_def
        diagnostics_for_def records_at_def paper_ledger_for_def rejected_strategy_events_for_def hm_get_def)
qed

lemma book_view_run:
  "multi_ok k \<Longrightarrow> book_view key (fold multi_call cs k) = fold sink_call (filter (concerns key) cs) (book_view key k)"
  by (induction cs arbitrary: k) (simp_all add: multi_ok_call book_view_call)

lemma book_view_empty: "book_view key multi_sink_empty = sink_empty"
  by (simp add: book_view_def multi_sink_empty_def sink_empty_def fills_for_def events_for_def
      diagnostics_for_def records_at_def paper_ledger_for_def rejected_strategy_events_for_def hm_get_def)

end
