(* ===== verification/CallTags.thy ===== *)
theory CallTags
  imports CallFrame SinkFacts
begin

text \<open>
  Every call the engine makes while it applies an event carries the event's book: what the sinks of
  a multi-book simulator rely on to keep books apart.
\<close>

definition keyed :: "string \<Rightarrow> FillRecord list \<Rightarrow> bool" where
  "keyed key fs \<longleftrightarrow> (\<forall>f \<in> set fs. fr_book_key f = key)"

definition about :: "string \<Rightarrow> SinkCall \<Rightarrow> bool" where
  "about key c \<longleftrightarrow> concerns key c \<and> c \<noteq> OnReset"

definition all_about :: "string \<Rightarrow> Sim \<Rightarrow> bool" where
  "all_about key st \<longleftrightarrow> (\<forall>c \<in> set (calls st). about key c)"

lemma keyed_simps [simp]:
  "keyed key []" "keyed key (f # fs) \<longleftrightarrow> fr_book_key f = key \<and> keyed key fs"
  "keyed key (fs @ gs) \<longleftrightarrow> keyed key fs \<and> keyed key gs"
  by (auto simp: keyed_def)

lemma fill_keys [simp]:
  "fr_book_key (hist_fill sq ev px qty node) = ev_symbol_id ev"
  "fr_book_key (paper_fill sq s px qty oid order t u ev) = ev_symbol_id ev"
  "fr_book_key (passive_fill sq s px qty node ev) = ev_symbol_id ev"
  by (simp_all add: hist_fill_def paper_fill_def passive_fill_def)

section \<open>Fills\<close>

lemma consume_level_keyed:
  "consume_level sq ev px q r = (q', r') \<Longrightarrow> keyed (ev_symbol_id ev) (lr_fills r) \<Longrightarrow>
     keyed (ev_symbol_id ev) (lr_fills r')"
proof (induction q arbitrary: r)
  case (Cons n q)
  from Cons.prems(1) show ?case
    by (cases rule: consume_level_cases) (use Cons in fastforce)+
qed simp

lemma sweep_level_keyed: "keyed (ev_symbol_id ev) (snd (sweep_level sq ev px P q remaining))"
  by (induction q arbitrary: remaining) (simp_all add: Let_def case_prod_beta)

lemma sweep_add_keyed: "keyed (ev_symbol_id ev) (snd (sweep_add s sq ev h hp remaining))"
proof (induction "length hp" arbitrary: hp remaining rule: less_induct)
  case less
  show ?case
  proof (cases "0 < remaining \<and> (\<exists>px hp1. best_opposite_price s (h_book s h) hp = (Some px, hp1) \<and> price_crosses ev px)")
    case False
    then show ?thesis by (subst sweep_add.simps) (auto split: prod.splits option.splits)
  next
    case True
    then obtain px hp1 where b: "best_opposite_price s (h_book s h) hp = (Some px, hp1)" by blast
    from less [OF best_opposite_price_shrinks [OF b [symmetric]]] True b sweep_level_keyed [of ev sq] show ?thesis
      by (subst sweep_add.simps) (simp add: Let_def case_prod_beta)
  qed
qed

lemma sweep_aggressive_keyed: "keyed (ev_symbol_id ev) (snd (sweep_aggressive s sq ev h hp remaining))"
proof (induction "length hp" arbitrary: hp remaining rule: less_induct)
  case less
  show ?case
  proof (cases "0 < remaining \<and> (\<exists>px hp1. best_opposite_price s (h_book s h) hp = (Some px, hp1))")
    case False
    then show ?thesis by (subst sweep_aggressive.simps) (auto split: prod.splits option.splits)
  next
    case True
    then obtain px hp1 where b: "best_opposite_price s (h_book s h) hp = (Some px, hp1)" by blast
    from less [OF best_opposite_price_shrinks [OF b [symmetric]]] True b sweep_level_keyed [of ev sq] show ?thesis
      by (subst sweep_aggressive.simps) (simp add: Let_def case_prod_beta)
  qed
qed

lemma paper_trade_loop_keyed: "keyed (ev_symbol_id ev) (snd (paper_trade_loop sq s px ev ns lp lots consumed))"
  by (induction ns arbitrary: lp lots consumed) (simp_all add: Let_def case_prod_beta split: option.splits)

lemma paper_hit_loop_keyed: "keyed (ev_symbol_id ev) (snd (paper_hit_loop sq s px ev ns lp lots consumed))"
  by (induction ns arbitrary: lp lots consumed) (simp_all add: Let_def case_prod_beta split: option.splits)

lemma paper_trades_keyed:
  "keyed (ev_symbol_id ev) (snd (apply_paper_trade_at_level sq s px lots ev p))"
  "keyed (ev_symbol_id ev) (snd (trade_against_paper_level sq s px lots ev p))"
  using paper_trade_loop_keyed [of ev] paper_hit_loop_keyed [of ev]
  by (simp_all add: apply_paper_trade_at_level_def trade_against_paper_level_def case_prod_beta split: option.splits)

lemma hit_paper_loop_keyed: "keyed (ev_symbol_id ev) (snd (hit_paper_loop sq ev crosses remaining p))"
proof (induction "nat remaining" arbitrary: remaining p rule: less_induct)
  case less
  let ?s = "opposite (ev_side ev)"
  show ?case
  proof (cases "0 < remaining \<and> (\<exists>px. best_paper_opposite_price ?s p = Some px \<and> crosses px)")
    case False
    then show ?thesis by (subst hit_paper_loop.simps) (auto simp: Let_def split: option.splits)
  next
    case True
    then obtain px where px: "best_paper_opposite_price ?s p = Some px" "crosses px" "0 < remaining" by blast
    obtain t p1 fs where t: "trade_against_paper_level sq ?s px remaining ev p = ((t, p1), fs)" by (metis prod.exhaust)
    have "keyed (ev_symbol_id ev) fs" using paper_trades_keyed(2) [of ev sq ?s px remaining p] t by simp
    moreover have "keyed (ev_symbol_id ev) (snd (hit_paper_loop sq ev crosses (remaining - t) p1))" if "\<not> t \<le> 0"
      by (rule less) (use px(3) that in simp)
    ultimately show ?thesis
      using px t by (subst hit_paper_loop.simps) (simp add: Let_def case_prod_beta)
  qed
qed

section \<open>Calls\<close>

lemma all_about_emit [simp]:
  "all_about (ev_symbol_id ev) (emit_diagnostic ev code sev st) = all_about (ev_symbol_id ev) st"
  "all_about (ev_symbol_id ev) (emit_diags ev ds st) = all_about (ev_symbol_id ev) st"
  "all_about (ev_symbol_id ev) (diag_if b ev code sev st) = all_about (ev_symbol_id ev) st"
  "all_about (ev_symbol_id ev) (emit_call (OnEventApply (apply_record n ev)) st) = all_about (ev_symbol_id ev) st"
proof -
  show d: "all_about (ev_symbol_id ev) (emit_diagnostic ev code sev st) = all_about (ev_symbol_id ev) st" for code sev st
    by (simp add: all_about_def about_def emit_diagnostic_def emit_call_def ball_Un)
  then show "all_about (ev_symbol_id ev) (emit_diags ev ds st) = all_about (ev_symbol_id ev) st"
    unfolding emit_diags_def by (induction ds arbitrary: st) (simp_all add: case_prod_beta)
  from d show "all_about (ev_symbol_id ev) (diag_if b ev code sev st) = all_about (ev_symbol_id ev) st"
    by (simp add: diag_if_def)
  show "all_about (ev_symbol_id ev) (emit_call (OnEventApply (apply_record n ev)) st) = all_about (ev_symbol_id ev) st"
    by (simp add: all_about_def about_def emit_call_def apply_record_def ball_Un)
qed

lemma all_about_fills: "keyed key fs \<Longrightarrow> all_about key (emit_fills fs st) = all_about key st"
  by (auto simp: keyed_def all_about_def about_def emit_fills_def ball_Un)

lemma all_about_fields [simp]:
  "all_about key (st\<lparr>hist := h\<rparr>) = all_about key st" "all_about key (st\<lparr>paper := p\<rparr>) = all_about key st"
  "all_about key (st\<lparr>seq := n\<rparr>) = all_about key st" "all_about key (st\<lparr>order_arrival_seq := n\<rparr>) = all_about key st"
  by (simp_all add: all_about_def)

lemma match_one_level_about:
  assumes "all_about (ev_symbol_id ev) st"
  shows "all_about (ev_symbol_id ev) (snd (match_one_level ev px remaining st))"
proof -
  let ?s = "opposite (ev_side ev)"
  obtain q' r where c: "consume_level (seq st) ev px (hm_get [] (h_book ?s (hist st)) px)
      \<lparr>lr_hist = hist st, lr_remaining = remaining, lr_traded = 0, lr_deltas = [], lr_fills = []\<rparr> = (q', r)" by fastforce
  obtain p fs where a: "apply_paper_trade_at_level (seq st) ?s px (lr_traded r) ev (paper st) = (p, fs)" by fastforce
  have "keyed (ev_symbol_id ev) (lr_fills r)" using consume_level_keyed [OF c] by simp
  moreover have "keyed (ev_symbol_id ev) fs"
    using paper_trades_keyed(1) [of ev "seq st" ?s px "lr_traded r" "paper st"] a by simp
  ultimately show ?thesis using assms c a by (simp add: match_one_level_def Let_def all_about_fills)
qed

lemma match_loop_about:
  "all_about (ev_symbol_id ev) st \<Longrightarrow> match_loop ev remaining st = (remaining', st') \<Longrightarrow>
     all_about (ev_symbol_id ev) st'"
proof (induction ev remaining st arbitrary: remaining' st' rule: match_loop.induct)
  case (1 ev remaining st)
  let ?s = "opposite (ev_side ev)"
  obtain best heap' where b: "best_opposite_price ?s (h_book ?s (hist st)) (h_heap ?s (hist st)) = (best, heap')"
    by fastforce
  let ?st = "st\<lparr>hist := h_set_heap ?s heap' (hist st)\<rparr>"
  show ?case
  proof (cases "0 < remaining \<and> best \<noteq> None \<and> price_crosses ev (the best)")
    case False
    with "1.prems" b show ?thesis
      by (subst (asm) match_loop.simps) (auto simp: Let_def split: option.splits if_splits)
  next
    case True
    then obtain px where px: "best = Some px" "price_crosses ev px" "0 < remaining" by auto
    obtain r2 st2 where m: "match_one_level ev px remaining ?st = (r2, st2)" by fastforce
    have loop: "match_loop ev r2 st2 = (remaining', st')"
      using "1.prems" b px m by (subst (asm) match_loop.simps) (simp add: Let_def)
    have a2: "all_about (ev_symbol_id ev) st2" using match_one_level_about [of ev ?st px remaining] "1.prems"(1) m by simp
    show ?thesis
      by (rule "1.IH" [OF _ refl b [symmetric] px(1) refl _ refl m [symmetric] a2 loop]) (use px in auto)
  qed
qed

lemma rest_about [simp]:
  "all_about (ev_symbol_id ev) (rest_historical ev remaining st) = all_about (ev_symbol_id ev) st"
  "all_about (ev_symbol_id ev) (rest_paper ev remaining st) = all_about (ev_symbol_id ev) st"
  by (auto simp: rest_historical_def rest_paper_def Let_def split: prod.splits option.splits bool.splits)

lemma on_add_about:
  assumes "all_about (ev_symbol_id ev) st" shows "all_about (ev_symbol_id ev) (on_add ev st)"
proof -
  let ?s = "opposite (ev_side ev)"
  obtain best heap' where b: "best_opposite_price ?s (h_book ?s (hist st)) (h_heap ?s (hist st)) = (best, heap')"
    by fastforce
  let ?crosses = "case best of None \<Rightarrow> False | Some px \<Rightarrow> price_crosses ev px"
  have "all_about (ev_symbol_id ev) (on_add_paper ev st)"
  proof -
    obtain rem fs where s: "(if ?crosses then sweep_add ?s (seq st) ev (hist st) heap' (ev_quantity_lots ev)
        else (ev_quantity_lots ev, [])) = (rem, fs)" by fastforce
    have "keyed (ev_symbol_id ev) fs"
      using s sweep_add_keyed [of ev ?s "seq st" "hist st" heap' "ev_quantity_lots ev"] by (simp split: if_splits)
    with assms b s show ?thesis by (simp add: on_add_paper_def Let_def all_about_fills)
  qed
  moreover have "all_about (ev_symbol_id ev) (on_add_historical ev st)"
  proof -
    let ?st1 = "st\<lparr>hist := h_set_heap ?s heap' (hist st)\<rparr>"
    obtain rem st2 where m: "(if ?crosses then match_loop ev (ev_quantity_lots ev) ?st1
        else (ev_quantity_lots ev, ?st1)) = (rem, st2)" by fastforce
    have "all_about (ev_symbol_id ev) st2"
      using m match_loop_about [of ev ?st1 "ev_quantity_lots ev" rem st2] assms by (auto split: if_splits)
    moreover obtain rem' p fs where h: "hit_paper_loop (seq st2) ev (price_crosses ev) rem (paper st2) = ((rem', p), fs)"
      by (metis prod.exhaust)
    moreover have "keyed (ev_symbol_id ev) fs"
      using hit_paper_loop_keyed [of ev "seq st2" "price_crosses ev" rem "paper st2"] h by simp
    ultimately show ?thesis using b m by (simp add: on_add_historical_def Let_def all_about_fills)
  qed
  ultimately show ?thesis using assms by (simp add: on_add_def)
qed

lemma on_aggressive_trade_about:
  assumes "all_about (ev_symbol_id ev) st" shows "all_about (ev_symbol_id ev) (on_aggressive_trade ev st)"
proof -
  let ?s = "opposite (ev_side ev)"
  obtain rem fs where s: "sweep_aggressive ?s (seq st) ev (hist st) (h_heap ?s (hist st)) (ev_quantity_lots ev) = (rem, fs)"
    by fastforce
  obtain rem' p fs' where h: "hit_paper_loop (seq st) ev (\<lambda>_. True) rem (paper st) = ((rem', p), fs')"
    by (metis prod.exhaust)
  have "keyed (ev_symbol_id ev) fs" "keyed (ev_symbol_id ev) fs'"
    using sweep_aggressive_keyed [of ev ?s "seq st" "hist st" "h_heap ?s (hist st)" "ev_quantity_lots ev"] s
      hit_paper_loop_keyed [of ev "seq st" "\<lambda>_. True" rem "paper st"] h by simp_all
  with assms s h show ?thesis by (simp add: on_aggressive_trade_def Let_def all_about_fills)
qed

lemma on_cancel_about:
  assumes "all_about (ev_symbol_id ev) st" shows "all_about (ev_symbol_id ev) (on_partial_order_cancel ev t st)"
proof -
  have k: "keyed (ev_symbol_id ev) [passive_fill sq s px qty node ev]" for sq s px qty node by simp
  have p: "all_about (ev_symbol_id ev) (case apply_paper_trade_at_level sq s px qty ev q of
      (p, fs) \<Rightarrow> emit_fills fs (x\<lparr>paper := p\<rparr>)) = all_about (ev_symbol_id ev) x" for sq s px qty q x
    using paper_trades_keyed(1) [of ev sq s px qty q] by (simp add: case_prod_beta all_about_fills)
  show ?thesis
    using assms by (simp add: on_partial_order_cancel_def Let_def all_about_fills [OF k] p split: option.splits)
qed

lemma on_paper_change_about:
  assumes "all_about (ev_symbol_id ev) st"
  shows "all_about (ev_symbol_id ev) (on_delete ev st)" "all_about (ev_symbol_id ev) (on_set ev st)"
    "all_about (ev_symbol_id ev) (on_subtract ev st)"
  using assms on_cancel_about
  by (simp_all add: on_delete_def on_set_def on_subtract_def Let_def case_prod_beta split: option.splits)

lemma update_about:
  assumes "all_about (ev_symbol_id ev) st" shows "all_about (ev_symbol_id ev) (update ev st)"
proof -
  have "all_about (ev_symbol_id ev) (dispatch ev x)" if "all_about (ev_symbol_id ev) x" for x
    using that
    by (cases "ev_update_type ev")
      (simp_all add: dispatch_def on_match_def on_add_about on_aggressive_trade_about on_cancel_about on_paper_change_about)
  with assms show ?thesis by (simp add: update_def Let_def)
qed

text \<open>Passing such calls through the wrapper of the book changes nothing.\<close>

lemma scoped_about:
  assumes "about key c" shows "book_scoped key c = [c]"
  using assms by (cases c) (auto simp: about_def)

lemma scoped_calls: "\<forall>c \<in> set cs. about key c \<Longrightarrow> concat (map (book_scoped key) cs) = cs"
  by (induction cs) (simp_all add: scoped_about)

lemma concerns_about: "about key c \<Longrightarrow> concerns k c \<longleftrightarrow> k = key"
  by (cases c) (auto simp: about_def)

lemma filter_about: "\<forall>c \<in> set cs. about key c \<Longrightarrow> filter (concerns k) cs = (if k = key then cs else [])"
  by (induction cs) (auto simp: concerns_about)

text \<open>What one event adds, on an engine whose calls start from none.\<close>

lemma update_calls_about: "\<forall>c \<in> set (calls (update ev (st\<lparr>calls := []\<rparr>))). about (ev_symbol_id ev) c"
  using update_about [of ev "st\<lparr>calls := []\<rparr>"] by (simp add: all_about_def)

lemma update_with_calls:
  "update ev (st\<lparr>calls := cs\<rparr>) = (update ev (st\<lparr>calls := []\<rparr>))\<lparr>calls := cs @ calls (update ev (st\<lparr>calls := []\<rparr>))\<rparr>"
  using tf.update_commutes [of ev cs "st\<lparr>calls := []\<rparr>"] by (simp add: told_def)

end
