(* ===== verification/QueryProps.thy ===== *)
theory QueryProps
  imports SnapshotFacts Sweep CallTags
begin

text \<open>
  The properties of the snapshots and the queries, and what the engine does with its sink.
\<close>

section \<open>The best n levels\<close>

definition level_key :: "Side \<Rightarrow> Level \<Rightarrow> int" where
  \<comment> \<open>smaller is better\<close>
  "level_key side l = - heap_key side (fst l)"

lemma worse_key: "worse_on_top side a b \<longleftrightarrow> level_key side b > level_key side a"
  by (cases side) (auto simp: worse_on_top_def level_key_def heap_key_def)

lemma better_key: "better_price side a b \<longleftrightarrow> level_key side (a, q) < level_key side (b, r)"
  by (cases side) (auto simp: better_price_def level_key_def heap_key_def)

interpretation lq: weak_order "worse_on_top side" for side
  by unfold_locales (auto simp: worse_key)

definition best_of :: "Side \<Rightarrow> nat \<Rightarrow> Level set \<Rightarrow> Level set \<Rightarrow> bool" where
  "best_of side n P A \<longleftrightarrow> finite P \<and> inj_on (level_key side) P \<and> A \<subseteq> P \<and> card A = min n (card P) \<and>
     (\<forall>x \<in> A. \<forall>y \<in> P - A. level_key side x < level_key side y)"

lemma best_of_unique:
  assumes "best_of side n P A" "best_of side n P B"
  shows "A = B"
proof (rule ccontr)
  assume "A \<noteq> B"
  have fin: "finite A" "finite B" "card A = card B"
    using assms finite_subset by (auto simp: best_of_def)
  with \<open>A \<noteq> B\<close> have "\<not> A \<subseteq> B" "\<not> B \<subseteq> A" using card_subset_eq by metis+
  then obtain a b where "a \<in> A - B" "b \<in> B - A" by blast
  with assms have "level_key side a < level_key side b" "level_key side b < level_key side a"
    by (auto simp: best_of_def)
  then show False by simp
qed

definition top_inv :: "Side \<Rightarrow> nat \<Rightarrow> Level set \<Rightarrow> Level list \<Rightarrow> bool" where
  "top_inv side n P h \<longleftrightarrow> best_of side n P (set h) \<and> distinct h \<and> pq_sorted (worse_on_top side) h"

lemma top_inv_length: "top_inv side n P h \<Longrightarrow> length h = min n (card P)"
  by (auto simp: top_inv_def best_of_def distinct_card)

lemma top_inv_add:
  assumes inv: "top_inv side n P h" and n: "0 < n"
    and new: "\<forall>y \<in> P. level_key side y \<noteq> level_key side l"
  shows "top_inv side n (insert l P)
    (if length h < n then pq_push (worse_on_top side) l h
     else if level_key side l < level_key side (hd h) then pq_push (worse_on_top side) l (tl h) else h)"
proof -
  have inj: "inj_on (level_key side) P" using inv by (simp add: top_inv_def best_of_def)
  then have inj': "inj_on (level_key side) (insert l P)" using new by (auto simp: inj_on_def)
  have P: "finite P" "set h \<subseteq> P" "distinct h" "pq_sorted (worse_on_top side) h"
    "\<forall>x \<in> set h. \<forall>y \<in> P - set h. level_key side x < level_key side y"
    using inv by (simp_all add: top_inv_def best_of_def)
  have l: "l \<notin> P" using new by auto
  then have lh: "l \<notin> set h" using P(2) by blast
  have len: "length h = min n (card P)" by (rule top_inv_length [OF inv])
  have dist: "distinct (pq_push (worse_on_top side) l q)" if "distinct q" "l \<notin> set q" for q
    using that by (metis mset_pq_push distinct.simps(2) mset.simps(2) mset_eq_imp_distinct_iff)
  show ?thesis
  proof (cases "length h < n")
    case True
    then have "card (set h) = card P" using len P(3) by (simp add: distinct_card)
    with P(1,2) have "set h = P" using card_subset_eq by blast
    with True P l lh len inj' show ?thesis
      using dist [OF P(3) lh] lq.pq_sorted_push [OF P(4)]
      by (auto simp: top_inv_def best_of_def simp del: inj_on_insert)
  next
    case False
    with n obtain w q where h: "h = w # q" by (cases h) auto
    have worst: "\<forall>x \<in> set q. level_key side x \<le> level_key side w" "pq_sorted (worse_on_top side) q"
      using P(4) by (auto simp: h pq_sorted_def worse_key not_less)
    have card: "card (insert l P) = Suc (card P)" "n \<le> card P" using P(1) l False len by simp_all
    show ?thesis
    proof (cases "level_key side l < level_key side w")
      case True
      have "card (insert l (set q)) = n"
        using P(3) lh False len card(2) by (simp add: h distinct_card)
      moreover have "level_key side x < level_key side y"
        if "x \<in> insert l (set q)" "y \<in> insert l P - insert l (set q)" for x y
      proof -
        have y: "y = w \<or> y \<in> P - set h" using that(2) by (auto simp: h)
        have w: "level_key side w < level_key side y" if "y \<in> P - set h" using P(5) that by (simp add: h)
        show ?thesis
        proof (cases "x = l")
          case True
          with y w \<open>level_key side l < level_key side w\<close> show ?thesis by auto
        next
          case False
          then have x: "x \<in> set q" using that(1) by simp
          have "x \<noteq> w" using x P(3) by (auto simp: h)
          moreover have "x \<in> P" "w \<in> P" using x P(2) by (auto simp: h)
          ultimately have "level_key side x \<noteq> level_key side w" using inj by (auto simp: inj_on_def)
          then have "level_key side x < level_key side w" using worst(1) x by fastforce
          moreover have "level_key side x < level_key side y" if "y \<in> P - set h" using P(5) x that by (simp add: h)
          ultimately show ?thesis using y by auto
        qed
      qed
      ultimately show ?thesis
        using True False P lh card inj' dist [of q] lq.pq_sorted_push [OF worst(2), of l]
        by (auto simp: top_inv_def best_of_def h simp del: inj_on_insert)
    next
      case no: False
      have "level_key side w < level_key side l" using no new P(2) by (force simp: h)
      then have "\<forall>x \<in> set h. level_key side x < level_key side l" using worst(1) by (auto simp: h)
      with False no P l card len inj' show ?thesis
        by (auto simp: top_inv_def best_of_def h distinct_card simp del: inj_on_insert)
    qed
  qed
qed

text \<open>The whole scan.\<close>

definition levels_of :: "Side \<Rightarrow> OrderNode NodePool \<Rightarrow> (int \<times> nat list) list \<Rightarrow> Level list" where
  "levels_of side P b = filter (\<lambda>l. 0 < snd l) (map (\<lambda>(px, q). (px, level_liquidity P q)) b)"

lemma level_key_eq: "level_key side a = level_key side b \<longleftrightarrow> fst a = fst b"
  by (cases side) (simp_all add: level_key_def heap_key_def)

lemma top_n_scan_inv:
  assumes "top_inv side n Q h" "0 < n" "distinct (map fst b)" "\<forall>y \<in> Q. fst y \<notin> fst ` set b"
  shows "top_inv side n (Q \<union> set (levels_of side P b)) (top_n_scan side n P b h)"
  using assms
proof (induction b arbitrary: Q h)
  case Nil
  then show ?case by (simp add: levels_of_def)
next
  case (Cons e b)
  obtain px q where e: "e = (px, q)" by (cases e)
  let ?l = "(px, level_liquidity P q)"
  show ?case
  proof (cases "0 < level_liquidity P q")
    case False
    with Cons show ?thesis by (simp add: e levels_of_def)
  next
    case True
    let ?h = "if length h < n then pq_push (worse_on_top side) ?l h
      else if level_key side ?l < level_key side (hd h) then pq_push (worse_on_top side) ?l (tl h) else h"
    have new: "\<forall>y \<in> Q. level_key side y \<noteq> level_key side ?l"
      using Cons.prems(4) by (auto simp: level_key_eq e)
    have "\<forall>y \<in> insert ?l Q. fst y \<notin> fst ` set b" using Cons.prems(3,4) by (auto simp: e)
    with Cons.IH [OF top_inv_add [OF Cons.prems(1,2) new] Cons.prems(2)] Cons.prems(3)
    have "top_inv side n (insert ?l Q \<union> set (levels_of side P b)) (top_n_scan side n P b ?h)" by (simp add: e)
    moreover have "top_n_scan side n P (e # b) h = top_n_scan side n P b ?h"
      using True by (auto simp: e Let_def better_key [where q = "level_liquidity P q" and r = "snd (hd h)"])
    moreover have "Q \<union> set (levels_of side P (e # b)) = insert ?l Q \<union> set (levels_of side P b)"
      using True by (auto simp: e levels_of_def)
    ultimately show ?thesis by simp
  qed
qed

lemma take_best_of:
  assumes "sorted (map (level_key side) S)" "distinct (map (level_key side) S)"
  shows "best_of side n (set S) (set (take n S))"
proof -
  have inj: "inj_on (level_key side) (set S)" and d: "distinct S" using assms(2) by (simp_all add: distinct_map)
  have "level_key side x < level_key side y" if "x \<in> set (take n S)" "y \<in> set S - set (take n S)" for x y
  proof -
    have "sorted (map (level_key side) (take n S @ drop n S))" using assms(1) by simp
    moreover have y: "y \<in> set (drop n S)" using that(2) by (metis Diff_iff UnE append_take_drop_id set_append)
    ultimately have "level_key side x \<le> level_key side y" using that(1) by (simp only: map_append sorted_append) auto
    moreover have "level_key side x \<noteq> level_key side y"
      using inj that by (metis Diff_iff in_set_takeD inj_on_def)
    ultimately show ?thesis by simp
  qed
  with inj d show ?thesis
    by (auto simp: best_of_def distinct_card min.commute dest: in_set_takeD)
qed

lemma final_sort_key:
  "(if side = BUY then sort_key (\<lambda>l. - fst l) ls else sort_key fst ls) = sort_key (level_key side) (ls :: Level list)"
proof -
  have "level_key side = (if side = BUY then (\<lambda>l. - fst l) else fst)"
    by (cases side) (simp_all add: level_key_def heap_key_def fun_eq_iff)
  then show ?thesis by simp
qed

text \<open>With levels that are empty or have lots, the levels with lots are those of the ladder.\<close>

lemma l2_top_n_ladder:
  assumes "sim_wf st"
  shows "l2_top_n side n st = map (\<lambda>px. (px, sum_list (map on_qty (resting side px st)))) (take n (ladder_prices side (hist st)))"
proof (cases "h_book side (hist st) = [] \<or> n = 0")
  case True
  then show ?thesis by (auto simp: l2_top_n_def ladder_prices_def)
next
  case False
  let ?P = "order_pool (hist st)" and ?b = "h_book side (hist st)"
  let ?L = "\<lambda>px. (px, sum_list (map on_qty (resting side px st)))"
  let ?S = "map ?L (ladder_prices side (hist st))"
  let ?top = "top_n_scan side n ?P ?b []"
  have wf: "hm_wf ?b" by (rule sim_wf_books [OF assms])
  have hw: "hist_wf (historical_capacity st) (order_arrival_seq st) (hist st)" using assms by (simp add: sim_wf_def)
  have liq: "level_liquidity ?P q = snd (?L px) \<and> (0 < level_liquidity ?P q \<longleftrightarrow> q \<noteq> [])" if "(px, q) \<in> set ?b" for px q
  proof -
    have "hm_find ?b px = Some q" using hm_find_mem [OF wf] that by blast
    then have q: "hq (hist st) side px = q" by (simp add: hq_find)
    have pos: "0 < on_qty (hn (hist st) m)" if "m \<in> set q" for m
      using core_qty_pos [OF hist_wf_core [OF hw], of m side px] that q by simp
    have "0 < sum_list (map (\<lambda>m. on_qty (hn (hist st) m)) q)" if "q \<noteq> []"
    proof -
      obtain m ms where m: "q = m # ms" using \<open>q \<noteq> []\<close> by (cases q) auto
      have "0 \<le> sum_list (map (\<lambda>m. on_qty (hn (hist st) m)) ms)"
        by (rule sum_list_nonneg_int) (use pos m in \<open>auto intro: less_imp_le\<close>)
      with pos [of m] m show ?thesis by simp
    qed
    then show ?thesis by (auto simp: level_liquidity_sum resting_def q hn_def comp_def)
  qed
  have queued: "hq (hist st) side px \<noteq> [] \<longleftrightarrow> (\<exists>q. (px, q) \<in> set ?b \<and> q \<noteq> [])" for px
  proof (cases "hm_find ?b px")
    case None
    then have "(px, q) \<notin> set ?b" for q using hm_find_mem [OF wf, of px q] by simp
    with None show ?thesis by (simp add: hq_find)
  next
    case (Some q)
    then have "(px, r) \<in> set ?b \<longleftrightarrow> r = q" for r using hm_find_mem [OF wf, of px r] by auto
    with Some show ?thesis by (simp add: hq_find)
  qed
  have "set (levels_of side ?P ?b) = ?L ` {px. hq (hist st) side px \<noteq> []}"
  proof -
    have "set (levels_of side ?P ?b) = {?L px | px q. (px, q) \<in> set ?b \<and> q \<noteq> []}"
      using liq unfolding levels_of_def by (force simp: image_iff)
    also have "\<dots> = ?L ` {px. hq (hist st) side px \<noteq> []}"
      using queued by auto
    finally show ?thesis .
  qed
  then have set: "set (levels_of side ?P ?b) = set ?S" by (simp add: set_ladder_prices [OF wf])
  have d: "distinct (map fst ?b)" using wf by (simp add: hm_wf_def)
  have "top_inv side n {} []" by (simp add: top_inv_def best_of_def pq_sorted_def)
  from top_n_scan_inv [OF this _ d, of ?P] False have top: "top_inv side n (set ?S) ?top" by (simp add: set)
  have keys: "map (level_key side) ?S = map (\<lambda>px. - heap_key side px) (ladder_prices side (hist st))"
    by (simp add: level_key_def comp_def)
  have S: "sorted (map (level_key side) ?S)" unfolding keys by (simp add: ladder_prices_def)
  have dp: "distinct (ladder_prices side (hist st))"
    using d by (simp add: ladder_prices_def distinct_map_filter)
  then have dS: "distinct (map (level_key side) ?S)"
    unfolding keys by (cases side) (simp_all add: distinct_map inj_on_def heap_key_def)
  from best_of_unique [OF _ take_best_of [OF S dS, of n]] top have "set ?top = set (take n ?S)"
    by (simp add: top_inv_def)
  moreover have "inj_on (level_key side) (set ?S)" using top unfolding top_inv_def best_of_def by blast
  then have "inj_on (level_key side) (set (take n ?S))" by (rule inj_on_subset) (auto dest: in_set_takeD)
  moreover have "sorted (map (level_key side) (take n ?S))" using S by (simp add: take_map [symmetric] sorted_wrt_take)
  moreover have "distinct ?S" using dp by (simp add: distinct_map inj_on_def)
  then have "distinct (take n ?S)" by (rule distinct_take)
  moreover have "distinct ?top" using top by (simp add: top_inv_def)
  ultimately have "sort_key (level_key side) ?top = take n ?S"
    by (intro map_sorted_distinct_set_unique [of "level_key side"]) (simp_all only: distinct_map set_sort distinct_sort sorted_sort_key simp_thms Un_absorb)
  with False final_sort_key [of side ?top] show ?thesis
    by (cases "side = BUY") (simp_all add: l2_top_n_def Let_def take_map)
qed

text \<open>C22 \<open>l2_top_n\<close> returns the best n price levels that have orders, best price first, each with the
  total of the lots resting there; its bounded heap never loses a better level for a worse one.
  \<open>depth_at\<close> is that total for one price.\<close>

theorem queries_report_resting_lots:
  assumes "sim_wf st" "no_empty_level (hist st)"
  shows "l2_top_n side n st =
      map (\<lambda>px. (px, sum_list (map on_qty (resting side px st)))) (take n (ladder_prices side (hist st))) \<and>
    depth_at side px st = (if resting side px st = [] then None else Some (sum_list (map on_qty (resting side px st))))"
  using l2_top_n_ladder [OF assms(1)] depth_at_queue [OF assms(2)] by blast

definition asks_only :: Sim where
  "asks_only = run_updates [hist_add SELL 105 5 1, hist_add SELL 103 7 2, hist_add SELL 108 1 3, hist_add SELL 105 4 4]
     (sim_init 10 10)"

lemma asks_only_wf: "sim_wf asks_only" "no_empty_level (hist asks_only)"
  using run_updates_preserves_all [OF sim_wf_init [of 10 10]] unfolding asks_only_def
  by (auto simp: preserves_def sim_init_def no_empty_level_init)

lemma queries_report_resting_lots_example: "l2_top_n SELL 2 asks_only = [(103, 7), (105, 9)] \<and> depth_at SELL 108 asks_only = Some 1"
proof -
  have "map (\<lambda>px. (px, sum_list (map on_qty (resting SELL px asks_only)))) (take 2 (ladder_prices SELL (hist asks_only))) =
      [(103, 7), (105, 9)]" "resting SELL 108 asks_only \<noteq> []" "sum_list (map on_qty (resting SELL 108 asks_only)) = 1"
    by code_simp+
  with queries_report_resting_lots [OF asks_only_wf, of SELL 2 108] show ?thesis by simp
qed

section \<open>Snapshots\<close>

lemma l3_at_anonymous:
  "distinct (map (\<lambda>(s, px, q). (s, px)) rs) \<Longrightarrow>
     sum_list (map on_qty (l3_at s px (anonymous rs) a)) =
       (case map_of (map (\<lambda>(s, px, q). ((s, px), q)) rs) (s, px) of None \<Rightarrow> 0 | Some q \<Rightarrow> q) \<and>
     (l3_at s px (anonymous rs) a = [] \<longleftrightarrow> map_of (map (\<lambda>(s, px, q). ((s, px), q)) rs) (s, px) = None)"
proof (induction rs arbitrary: a)
  case (Cons r rs)
  obtain s' px' q where r: "r = (s', px', q)" by (cases r)
  have "map_of (map (\<lambda>(s, px, q). ((s, px), q)) rs) (s', px') = None"
    using Cons.prems by (auto simp: r map_of_eq_None_iff case_prod_beta image_iff)
  with Cons.IH [of "Suc a"] Cons.prems show ?case by (auto simp: r row_node_def)
qed simp

lemma l2_load_paper: "paper (fst (l2_load rs st)) = paper st"
proof (induction rs arbitrary: st)
  case (Cons r rs)
  obtain s px q where r: "r = (s, px, q)" by (cases r)
  have "paper (l2_load_level s px q st) = paper st"
    by (simp add: l2_load_level_def Let_def split: prod.splits option.splits)
  with Cons show ?case by (simp add: r)
qed simp

lemma l2_snapshot_loaded:
  assumes "sim_wf st" "length prices = length sides" "length quantities = length sides" "\<forall>q \<in> set quantities. 0 < q"
    and "distinct (zip sides prices)" "length sides \<le> historical_capacity st"
  shows "let (st', err) = init_from_l2_snapshot sides prices quantities st in
    err = None \<and> sim_wf st' \<and> (\<forall>i. hm_find (paper_orders (paper st')) i = None) \<and>
    (\<forall>s px. depth_at s px st' = map_of (zip (zip sides prices) quantities) (s, px))"
proof -
  let ?rows = "zip sides (zip prices quantities)" and ?c = "clear_state st"
  note c = clear_state_facts [OF assms(1)]
  have q: "\<forall>(s, px, q) \<in> set ?rows. 0 < q" using assms(4) by (auto dest!: set_zip_rightD)
  have keys: "map (\<lambda>(s, px, q). (s, px)) ?rows = zip sides prices"
    using assms(2,3) by (auto simp: list_eq_iff_nth_eq)
  have room: "room ?c + length ?rows \<le> historical_capacity ?c" using c(4,8) assms(2,3,6) by simp
  have d: "distinct (map (\<lambda>(s, px, q). (s, px)) ?rows)" unfolding keys by (rule assms(5))
  have e: "\<forall>(s, px, q) \<in> set ?rows. resting s px ?c = []" using c(3) by auto
  have init: "init_from_l2_snapshot sides prices quantities st = l2_load ?rows ?c"
    using assms(2,3) by (simp add: init_from_l2_snapshot_def Let_def)
  note rows = l2_load_rows [OF c(1,2,7) q c(6) room d e]
  note wf = l2_load_wf [OF c(1,2,7) q c(6)]
  have at: "sum_list (map on_qty (l3_at s px (anonymous rs) a)) = (case map_of (map (\<lambda>(s, px, q). ((s, px), q)) rs) (s, px) of
      None \<Rightarrow> 0 | Some q \<Rightarrow> q) \<and> (l3_at s px (anonymous rs) a = [] \<longleftrightarrow> map_of (map (\<lambda>(s, px, q). ((s, px), q)) rs) (s, px) = None)"
    if "distinct (map (\<lambda>(s, px, q). (s, px)) rs)" for s px rs a
    using that by (rule l3_at_anonymous)
  have "map (\<lambda>(s, px, q). ((s, px), q)) ?rows = zip (zip sides prices) quantities"
    using assms(2,3) by (auto simp: list_eq_iff_nth_eq)
  with at [OF d] have "depth_at s px (fst (l2_load ?rows ?c)) = map_of (zip (zip sides prices) quantities) (s, px)" for s px
    using depth_at_queue [of "fst (l2_load ?rows ?c)" s px] wf rows c(3)
    by (auto split: option.splits)
  moreover have "paper (fst (l2_load rs x)) = paper x" for rs x by (rule l2_load_paper)
  ultimately show ?thesis using init wf rows c(9) by (simp add: case_prod_beta)
qed

text \<open>C21 An L2 snapshot with lots on every row, no (side, price) twice and room in the pool is loaded
  without an error: \<open>depth_at\<close> returns for every side and price exactly the quantity of its row, and
  nothing where there is none, whatever the engine held before; all old strategy orders are gone.\<close>

theorem l2_snapshot_roundtrip:
  assumes "sim_wf st" "length prices = length sides" "length quantities = length sides" "\<forall>q \<in> set quantities. 0 < q"
    and "distinct (zip sides prices)" "length sides \<le> historical_capacity st"
  shows "let (st', err) = init_from_l2_snapshot sides prices quantities st in
    err = None \<and> sim_wf st' \<and> (\<forall>i. hm_find (paper_orders (paper st')) i = None) \<and>
    (\<forall>s px. depth_at s px st' = map_of (zip (zip sides prices) quantities) (s, px))"
  by (rule l2_snapshot_loaded [OF assms])

lemma l2_snapshot_roundtrip_example:
  "let (st', err) = init_from_l2_snapshot [BUY, SELL, BUY] [99, 101, 98] [4, 5, 6] asks_only in
     err = None \<and> depth_at BUY 98 st' = Some 6 \<and> depth_at SELL 105 st' = None"
proof -
  have "length [BUY, SELL, BUY] \<le> historical_capacity asks_only" by code_simp
  with l2_snapshot_roundtrip [OF asks_only_wf(1), of "[99, 101, 98]" "[BUY, SELL, BUY]" "[4, 5, 6]"] show ?thesis
    by (simp add: case_prod_beta Let_def)
qed

lemma l3_load_error:
  assumes "sim_wf st" "no_paper st" "\<forall>(s, px, q, oid, tid) \<in> set rows. 0 < q"
    and "room st + length rows \<le> historical_capacity st"
  shows "snd (l3_load rows st) = (if distinct (map (\<lambda>(s, px, q, oid, tid). oid) rows) \<and>
    (\<forall>(s, px, q, oid, tid) \<in> set rows. hm_find (order_info (hist st)) oid = None) then None else Some DuplicateOrderId)"
  using assms
proof (induction rows arbitrary: st)
  case (Cons row rows)
  obtain s px q oid tid where row: "row = (s, px, q, oid, tid)" by (cases row)
  have q: "0 < q" using Cons.prems(3) row by auto
  let ?st = "l3_load_order s px q oid tid st"
  show ?case
  proof (cases "hm_find (order_info (hist st)) oid = None")
    case False
    then show ?thesis by (simp add: row hm_contains_def)
  next
    case fresh: True
    note r = l3_row [OF Cons.prems(1,2) q fresh, of s px tid]
    have pl: "placed s px (row_node (order_arrival_seq st) q oid tid) st ?st" using r Cons.prems(4) by simp
    have info: "hm_find (order_info (hist ?st)) i = None \<longleftrightarrow> i \<noteq> oid \<and> hm_find (order_info (hist st)) i = None" for i
      using r Cons.prems(4) by simp
    have iff: "(\<forall>(s, px, q, i, tid) \<in> set rows. hm_find (order_info (hist ?st)) i = None) \<longleftrightarrow>
        oid \<notin> (\<lambda>(s, px, q, oid, tid). oid) ` set rows \<and> (\<forall>(s, px, q, i, tid) \<in> set rows. hm_find (order_info (hist st)) i = None)"
      unfolding info by (induction rows) auto
    have rq: "\<forall>(s, px, q, oid, tid) \<in> set rows. 0 < q" using Cons.prems(3) by auto
    have "sim_wf ?st" "no_paper ?st" "room ?st + length rows \<le> historical_capacity ?st"
      using r pl Cons.prems(4) by (simp_all add: placed_def)
    from Cons.IH [OF this(1,2) rq this(3)] fresh show ?thesis
      by (simp add: row hm_contains_def iff)
  qed
qed simp

text \<open>C23 Loading an L3 snapshot with lots on every row and room in the pool fails exactly when an order
  id occurs twice; otherwise the queue of every side and price is that of its rows in row order, each
  with its id, trader, lots and the row number as arrival number. Different lengths are refused and
  leave an empty book.\<close>

theorem l3_snapshot_loads:
  assumes "sim_wf st" "\<forall>q \<in> set quantities. 0 < q" "length sides \<le> historical_capacity st"
  shows "let (st', err) = init_from_l3_snapshot sides prices quantities order_ids trader_ids st;
      rows = zip sides (zip prices (zip quantities (zip order_ids trader_ids)));
      same = (length prices = length sides \<and> length quantities = length sides \<and>
        length order_ids = length sides \<and> length trader_ids = length sides)
    in sim_wf st' \<and>
       err = (if \<not> same then Some SizeMismatch else if distinct order_ids then None else Some DuplicateOrderId) \<and>
       (err = None \<longrightarrow> (\<forall>s px. resting s px st' = l3_at s px rows 0)) \<and>
       (\<not> same \<longrightarrow> (\<forall>s px. resting s px st' = []))"
proof -
  let ?rows = "zip sides (zip prices (zip quantities (zip order_ids trader_ids)))" and ?c = "clear_state st"
  let ?same = "length prices = length sides \<and> length quantities = length sides \<and>
    length order_ids = length sides \<and> length trader_ids = length sides"
  note c = clear_state_facts [OF assms(1)]
  have wf: "sim_wf (fst (init_from_l3_snapshot sides prices quantities order_ids trader_ids st))"
    by (rule init_l3_wf [OF assms(1,2)])
  show ?thesis
  proof (cases ?same)
    case False
    then have "init_from_l3_snapshot sides prices quantities order_ids trader_ids st = (?c, Some SizeMismatch)"
      by (auto simp: init_from_l3_snapshot_def Let_def)
    with False c show ?thesis by auto
  next
    case True
    have q: "\<forall>(s, px, q, oid, tid) \<in> set ?rows. 0 < q"
      using assms(2) by clarsimp (metis set_zip_leftD set_zip_rightD)
    have ids: "map (\<lambda>(s, px, q, oid, tid). oid) ?rows = order_ids"
      using True by (auto simp: list_eq_iff_nth_eq)
    have room: "room ?c + length ?rows \<le> historical_capacity ?c" using c(4,8) assms(3) by simp
    have fresh: "\<forall>(s, px, q, oid, tid) \<in> set ?rows. hm_find (order_info (hist ?c)) oid = None" using c(6) by auto
    have init: "init_from_l3_snapshot sides prices quantities order_ids trader_ids st = l3_load ?rows ?c"
      using True by (simp add: init_from_l3_snapshot_def Let_def)
    have err: "snd (l3_load ?rows ?c) = (if distinct order_ids then None else Some DuplicateOrderId)"
      using l3_load_error [OF c(1,2) q room] fresh by (simp add: ids)
    have "\<forall>s px. resting s px (fst (l3_load ?rows ?c)) = l3_at s px ?rows 0" if "distinct order_ids"
      using l3_load_rows [OF c(1,2) q room _ fresh] that c(3,5) by (simp add: ids)
    with wf err True show ?thesis by (simp add: init case_prod_beta Let_def)
  qed
qed

lemma l3_snapshot_loads_example:
  "let (st', err) = init_from_l3_snapshot [BUY, BUY] [99, 99] [4, 6] [11, 12] [1, 2] asks_only in
     err = None \<and> map (\<lambda>x. (on_order_id x, on_qty x)) (resting BUY 99 st') = [(11, 4), (12, 6)]"
proof -
  have "length [BUY, BUY] \<le> historical_capacity asks_only" by code_simp
  with l3_snapshot_loads [OF asks_only_wf(1), of "[4, 6]" "[BUY, BUY]" "[99, 99]" "[11, 12]" "[1, 2]"] show ?thesis
    by (simp add: case_prod_beta Let_def row_node_def)
qed

section \<open>What the engine does with its sink\<close>

text \<open>C24 The sink only listens: the books, queues, counters and paper orders after an event are the
  same with any sink or none; the calls of an event are added after the earlier ones, every one of
  them carries the book of the event, and without a sink there are none.\<close>

theorem sink_only_listens:
  "unlogged (update event st) = update event (unlogged st) \<and>
   (\<exists>cs. calls (update event st) = calls st @ cs \<and> list_all (about (ev_symbol_id event)) cs \<and> (sink st \<or> cs = []))"
proof -
  let ?cs = "calls (update event (st\<lparr>calls := []\<rparr>))"
  have "?cs = []" if "\<not> sink st"
  proof -
    have "update event (st\<lparr>calls := []\<rparr>) = update event (unlogged st)"
      using that by (cases st) (simp add: unlogged_def)
    also have "\<dots> = unlogged (update event (unlogged st))" by (simp add: update_unlogged)
    finally show ?thesis by (simp add: unlogged_def)
  qed
  with update_calls_about [of event st] update_calls [of event st] update_unlogged [of event st] show ?thesis
    unfolding list_all_iff by blast
qed

end
