(* ===== verification/SinkProps.thy ===== *)
theory SinkProps
  imports SinkFacts
begin

text \<open>
  The properties of the sinks: the ledger of strategy orders, what is found under a book of the
  multi sink after any calls and drains, and its agreement with a sink of the book's own.
\<close>

section \<open>Calls and drains in any order\<close>

datatype MultiOp = Call SinkCall | DrainFills | DrainEvents | DrainDiagnostics

fun multi_op :: "MultiOp \<Rightarrow> InMemoryMultiLogSink \<Rightarrow> InMemoryMultiLogSink" where
  "multi_op (Call c) k = multi_call c k"
| "multi_op DrainFills k = snd (multi_drain_fills k)"
| "multi_op DrainEvents k = snd (multi_drain_events k)"
| "multi_op DrainDiagnostics k = snd (multi_drain_diagnostics k)"

lemma multi_ops_ok: "multi_ok k \<Longrightarrow> multi_ok (fold multi_op ops k)"
proof (induction ops arbitrary: k)
  case (Cons x ops)
  have "multi_ok (multi_op x k)" using Cons.prems multi_ok_call multi_ok_drain by (cases x) simp_all
  with Cons.IH show ?case by simp
qed simp

section \<open>The ledger\<close>

text \<open>C19 Whatever a sink is told, every order of its ledger has 0 up to its initial quantity left,
  its filled quantity is the sum of its recorded fills, and its status says which of the two are
  zero; a rejected order never enters the ledger.\<close>

theorem ledger_consistent:
  "ledger_ok (sk_paper_ledger (fold sink_call cs sink_empty))"
  by (rule sink_calls_ok) (simp add: sink_empty_def ledger_ok_empty)

definition settled :: "PaperOrderLedgerEntry \<Rightarrow> PaperOrderLedgerEntry \<Rightarrow> bool" where
  \<comment> \<open>the later entry of an order that has come to an end\<close>
  "settled e e' \<longleftrightarrow> ls_status (le_state e') = ls_status (le_state e) \<and> ls_remaining_qty (le_state e') = 0 \<and>
     ls_filled_qty (le_state e) \<le> ls_filled_qty (le_state e') \<and>
     (ls_status (le_state e) = LO_CANCELLED \<longrightarrow> le_fills e' = le_fills e)"

lemma settled_refl: "ledger_ok L \<Longrightarrow> hm_find L i = Some e \<Longrightarrow> terminal (le_state e) \<Longrightarrow> settled e e"
  using ledger_okD [of L i e] by (auto simp: settled_def entry_ok_def terminal_def Let_def split: PaperOrderLedgerStatus.splits)

lemma settled_trans: "settled e e' \<Longrightarrow> settled e' e'' \<Longrightarrow> settled e e''"
  by (auto simp: settled_def)

lemma settled_terminal: "settled e e' \<Longrightarrow> terminal (le_state e) \<Longrightarrow> terminal (le_state e')"
  by (simp add: settled_def terminal_def)

lemma fill_settled:
  assumes ok: "ledger_ok L" and e: "hm_find L i = Some e" and t: "terminal (le_state e)"
  shows "\<exists>e'. hm_find (apply_strategy_fill j src role r L) i = Some e' \<and> settled e e'"
proof -
  have "settled e (entry_fill role r e)" if "ls_status (le_state e) \<noteq> LO_CANCELLED" "ls_status (le_state e) \<noteq> LO_REJECTED"
    using settled_refl [OF ok e t] that t by (auto simp: settled_def entry_fill_def Let_def terminal_def)
  with settled_refl [OF ok e t] e show ?thesis
    by (auto simp: apply_strategy_fill_def split: option.splits)
qed

lemma modify_settled:
  assumes "hm_find L i = Some e" "settled e e" "settled e (e\<lparr>le_state := f (le_state e)\<rparr>)"
  shows "\<exists>e'. hm_find (ledger_modify j f L) i = Some e' \<and> settled e e'"
  using assms by (auto simp: ledger_modify_def split: option.splits)

lemma order_settled:
  assumes ok: "ledger_ok L" and e: "hm_find L i = Some e" and t: "terminal (le_state e)"
  shows "\<exists>e'. hm_find (fst (update_strategy_order r (L, rej))) i = Some e' \<and> settled e e'"
proof -
  note s = settled_refl [OF ok e t]
  note m = modify_settled [OF e s]
  have "\<exists>e'. hm_find (fst (ledger_add r (L, rej))) i = Some e' \<and> settled e e'"
    using e s by (auto simp: ledger_add_def hm_find_emplace hm_contains_def)
  moreover have "settled e (e\<lparr>le_state := entry_subtract r (le_state e)\<rparr>)"
    "settled e (e\<lparr>le_state := entry_set r (le_state e)\<rparr>)"
    using s t by (simp_all add: entry_subtract_def entry_set_def)
  moreover have "settled e (e\<lparr>le_state := entry_delete r (le_state e)\<rparr>)"
    using s t ledger_okD [OF ok e]
    by (auto simp: entry_delete_def settled_def terminal_def entry_ok_def Let_def)
  ultimately show ?thesis
    using m e s by (auto simp: update_strategy_order_def split: UpdateType.splits)
qed

lemma call_settled:
  assumes ok: "ledger_ok (sk_paper_ledger k)" and e: "hm_find (sk_paper_ledger k) i = Some e"
    and t: "terminal (le_state e)" and c: "c \<noteq> OnReset"
  shows "\<exists>e'. hm_find (sk_paper_ledger (sink_call c k)) i = Some e' \<and> settled e e'"
proof (cases c)
  case (OnFill r)
  obtain e1 where 1: "hm_find (apply_strategy_fill (fr_maker_order_id r) (fr_maker_source r) MAKER r (sk_paper_ledger k)) i = Some e1"
    "settled e e1" using fill_settled [OF ok e t] by blast
  from fill_settled [OF apply_strategy_fill_ok [OF ok] 1(1) settled_terminal [OF 1(2) t],
      of "fr_taker_order_id r" "fr_taker_source r" TAKER r] obtain e2 where
    "hm_find (sk_paper_ledger (sink_on_fill r k)) i = Some e2" "settled e1 e2"
    unfolding sink_on_fill_def by auto
  with settled_trans [OF 1(2)] show ?thesis by (auto simp: OnFill)
next
  case (OnEventApply r)
  with order_settled [OF ok e t, of r "sk_rejected k"] show ?thesis
    by (simp add: sink_on_event_apply_def case_prod_beta)
qed (use c e settled_refl [OF ok e t] in \<open>simp_all add: sink_on_diagnostic_def\<close>)

text \<open>C25 An order that is filled or cancelled stays so until the sink is reset: no later call
  changes its status or gives it lots again, and a cancelled order gets no more fills.\<close>

theorem ended_orders_stay_ended:
  assumes "ledger_ok (sk_paper_ledger k)" "sink_find_paper_order i k = Some e" "terminal (le_state e)" "OnReset \<notin> set cs"
  shows "\<exists>e'. sink_find_paper_order i (fold sink_call cs k) = Some e' \<and> settled e e'"
  using assms
proof (induction cs arbitrary: k e)
  case Nil
  then show ?case by (auto simp: sink_find_paper_order_def intro: settled_refl)
next
  case (Cons c cs)
  have "c \<noteq> OnReset" using Cons.prems(4) by auto
  then obtain e1 where "sink_find_paper_order i (sink_call c k) = Some e1" "settled e e1"
    using call_settled [of k i e c] Cons.prems by (auto simp: sink_find_paper_order_def)
  with Cons.IH [OF sink_call_ok [OF Cons.prems(1)]] Cons.prems(3,4) settled_terminal settled_trans show ?case
    by (metis fold_simps(2) list.set_intros(2))
qed

definition strategy_record :: "UpdateType \<Rightarrow> int \<Rightarrow> int \<Rightarrow> string \<Rightarrow> EventApplyRecord" where
  "strategy_record t oid qty key = \<lparr>ar_seq = 0, ar_ts_exchange = 0, ar_ts_received = 0, ar_side = BUY, ar_update_type = t,
     ar_source = STRATEGY, ar_price_ticks = 100, ar_qty_lots = qty, ar_order_id = oid, ar_trader_id = 1,
     ar_aggressor_id = 0, ar_book_key = key\<rparr>"

definition cancelled_sink :: InMemoryLogSink where
  "cancelled_sink = fold sink_call [OnEventApply (strategy_record ADD 7 5 []), OnEventApply (strategy_record DELETE 7 0 [])] sink_empty"

lemma ended_orders_stay_ended_example:
  "\<exists>e'. sink_find_paper_order 7 (fold sink_call [OnEventApply (strategy_record SET 7 3 []), OnEventApply (strategy_record ADD 7 9 [])]
     cancelled_sink) = Some e' \<and> settled (the (sink_find_paper_order 7 cancelled_sink)) e'"
proof (rule ended_orders_stay_ended)
  show "ledger_ok (sk_paper_ledger cancelled_sink)"
    unfolding cancelled_sink_def by (rule sink_calls_ok) (simp add: sink_empty_def ledger_ok_empty)
  show "sink_find_paper_order 7 cancelled_sink = Some (the (sink_find_paper_order 7 cancelled_sink))"
    "terminal (le_state (the (sink_find_paper_order 7 cancelled_sink)))" by code_simp+
qed simp

section \<open>The multi sink\<close>

text \<open>After any calls and drains, what the multi sink returns for a book is exactly those of its
  records that carry the book's key, in the order they came: the index per book is right.\<close>

lemma multi_sink_index_correct:
  "let k = fold multi_op ops multi_sink_empty in
     fills_for k key = filter (\<lambda>r. fr_book_key r = key) (mk_fills k) \<and>
     events_for k key = filter (\<lambda>r. ar_book_key r = key) (mk_events k) \<and>
     diagnostics_for k key = filter (\<lambda>r. dr_book_key r = key) (mk_diagnostics k)"
  using for_records [OF multi_ops_ok [OF multi_ok_empty]] by (simp add: Let_def)

text \<open>C20 For each book the multi sink is a sink of the book's own: its fills, events, diagnostics,
  ledger and rejected events of a book are those of a single sink that gets the calls for that book
  and no others.\<close>

theorem multi_sink_is_one_sink_per_book:
  "book_view key (fold multi_call cs multi_sink_empty) = fold sink_call (filter (concerns key) cs) sink_empty"
  by (simp add: book_view_run [OF multi_ok_empty] book_view_empty)

end
