(* ===== verification/MultiBook.thy ===== *)
theory MultiBook
  imports Snapshot Queries Sinks "HOL-Library.Product_Lexorder"
begin

text \<open>
  \<open>MultiBookSimulator\<close> (\<open>multibook_simulator.hpp\<close>): one engine per book, event streams and strategy
  events merged by a priority queue on receive time. A stream's source and adapter are template
  parameters: a stream is the list of what they still deliver, with \<open>Inl ()\<close> where the source throws and
  \<open>Inr None\<close> for a raw event the adapter rejects. \<open>mcalls\<close> is the sequence of calls made on the multi sink. An operation that throws
  leaves the state it had reached, so the results pair the error or the value with the state.
\<close>

section \<open>State\<close>

datatype MultiBookError =
    StrategyUnknownBook
  | StrategyTimeTravel
  | InvalidStrategyEntry
  | NoBufferedEvent
  | DuplicateStream
  | NonMonotonicTime
  | NonMonotonicStream
  | AdapterFailed
  | SourceFailed
  | SnapshotFailed SnapshotError

record BookEntry =
  be_id :: BookId
  be_key :: string
  be_engine :: Sim

datatype IStream =
    AdapterStream bool "(unit + NormalizedLobEvent option) list"
  | NormalizedStream "(unit + NormalizedLobEvent) list"

record StreamState =
  ss_book_key :: string
  ss_stream :: IStream
  ss_exhausted :: bool
  ss_has_buffered :: bool
  ss_buffered :: NormalizedLobEvent
  ss_has_last_ts :: bool
  ss_last_ts :: int
  ss_seq :: nat

datatype EntryKind = Stream | Strategy

record HeapEntry =
  he_ts_received :: int
  he_ts_exchange :: int
  he_stream_index :: nat
  he_kind :: EntryKind
  he_strategy_index :: nat

record StrategyItem =
  si_ev :: NormalizedLobEvent
  si_insertion_seq :: nat

record MultiBook =
  require_monotonic_ts_received :: bool
  fail_fast :: bool
  book_sinks :: "(string, unit) hmap"
  books :: "(string, BookEntry) hmap"
  multi_sink :: bool
  streams :: "StreamState list"
  heap :: "HeapEntry list"
  strategy_events :: "StrategyItem list"
  strategy_seq_counter :: nat
  has_current_time :: bool
  current_ts_received :: int
  mcalls :: "SinkCall list"

definition multibook_init :: "bool \<Rightarrow> bool \<Rightarrow> MultiBook" where
  "multibook_init monotonic ff = \<lparr>require_monotonic_ts_received = monotonic, fail_fast = ff,
     book_sinks = hm_empty, books = hm_empty, multi_sink = False, streams = [], heap = [],
     strategy_events = [], strategy_seq_counter = 0, has_current_time = False,
     current_ts_received = 0, mcalls = []\<rparr>"

section \<open>The order of the merge\<close>

instantiation EntryKind :: linorder
begin

definition less_eq_EntryKind :: "EntryKind \<Rightarrow> EntryKind \<Rightarrow> bool" where
  "less_eq_EntryKind a b = (a = Stream \<or> b = Strategy)"

definition less_EntryKind :: "EntryKind \<Rightarrow> EntryKind \<Rightarrow> bool" where
  "less_EntryKind a b = (a = Stream \<and> b = Strategy)"

instance
proof
  fix x y z :: EntryKind
  show "x < y \<longleftrightarrow> x \<le> y \<and> \<not> y \<le> x" "x \<le> x" "x \<le> y \<or> y \<le> x"
    by (cases x; cases y; simp add: less_eq_EntryKind_def less_EntryKind_def)+
  show "x \<le> y \<Longrightarrow> y \<le> z \<Longrightarrow> x \<le> z" "x \<le> y \<Longrightarrow> y \<le> x \<Longrightarrow> x = y"
    by (cases x; cases y; cases z; simp add: less_eq_EntryKind_def)+
qed

end

definition heap_lower :: "HeapEntry \<Rightarrow> HeapEntry \<Rightarrow> bool" where
  \<comment> \<open>\<open>HeapCompare\<close>\<close>
  "heap_lower a b =
     (if he_ts_received a \<noteq> he_ts_received b then he_ts_received a > he_ts_received b
      else if he_kind a \<noteq> he_kind b then he_kind a > he_kind b
      else if he_ts_exchange a \<noteq> he_ts_exchange b then he_ts_exchange a > he_ts_exchange b
      else if he_kind a = Stream then he_stream_index a > he_stream_index b
      else he_strategy_index a > he_strategy_index b)"

definition merge_key :: "HeapEntry \<Rightarrow> int \<times> EntryKind \<times> int \<times> nat" where
  "merge_key e = (he_ts_received e, he_kind e, he_ts_exchange e,
     if he_kind e = Stream then he_stream_index e else he_strategy_index e)"

lemma heap_lower_key: "heap_lower a b \<longleftrightarrow> merge_key b < merge_key a"
  by (auto simp: heap_lower_def merge_key_def less_prod_def)

interpretation mq: weak_order heap_lower
  by unfold_locales (auto simp: heap_lower_key)

section \<open>Diagnostics and sinks\<close>

definition mb_emit_diagnostic ::
  "string \<Rightarrow> DiagnosticRecordCode \<Rightarrow> DiagnosticRecordSeverity \<Rightarrow> nat \<Rightarrow> int \<Rightarrow> int \<Rightarrow> MultiBook \<Rightarrow> MultiBook" where
  "mb_emit_diagnostic key code sev sq ts_received ts_exchange mb =
     (if \<not> multi_sink mb then mb
      else mb\<lparr>mcalls := mcalls mb @ [OnDiagnostic \<lparr>dr_seq = sq, dr_ts_exchange = ts_exchange,
             dr_ts_received = ts_received, dr_code = code, dr_severity = sev, dr_book_key = key\<rparr>]\<rparr>)"

definition attach_book_sink :: "string \<Rightarrow> MultiBook \<Rightarrow> MultiBook" where
  "attach_book_sink key mb =
     (if \<not> multi_sink mb then mb
      else case hm_find (books mb) key of
        None \<Rightarrow> mb
      | Some e \<Rightarrow>
          mb\<lparr>books := hm_put key (e\<lparr>be_engine := set_log_sink True (be_engine e)\<rparr>) (books mb),
             book_sinks := hm_put key () (book_sinks mb)\<rparr>)"

definition run_engine :: "string \<Rightarrow> (Sim \<Rightarrow> Sim \<times> 'a) \<Rightarrow> MultiBook \<Rightarrow> 'a option \<times> MultiBook" where
  \<comment> \<open>a call on the engine of a book: what it reports goes through the book's wrapper to the multi
    sink, or to the sink the caller has set\<close>
  "run_engine key f mb =
     (case hm_find (books mb) key of
        None \<Rightarrow> (None, mb)
      | Some e \<Rightarrow>
          let old = calls (be_engine e);
              (st, res) = f ((be_engine e)\<lparr>calls := []\<rparr>);
              wrapped = hm_contains (book_sinks mb) key;
              kept = (if wrapped then old else old @ calls st);
              passed = (if wrapped then concat (map (book_scoped key) (calls st)) else [])
          in (Some res, mb\<lparr>books := hm_put key (e\<lparr>be_engine := st\<lparr>calls := kept\<rparr>\<rparr>) (books mb),
                           mcalls := mcalls mb @ passed\<rparr>))"

section \<open>Books\<close>

definition has_book_key :: "string \<Rightarrow> MultiBook \<Rightarrow> bool" where
  "has_book_key key mb = hm_contains (books mb) key"

definition get_book_key :: "string \<Rightarrow> MultiBook \<Rightarrow> Sim option" where
  "get_book_key key mb = map_option be_engine (hm_find (books mb) key)"

definition add_book :: "BookId \<Rightarrow> Sim \<Rightarrow> MultiBook \<Rightarrow> bool \<times> MultiBook" where
  "add_book i engine mb =
     (let key = book_key i in
      if hm_contains (books mb) key then (False, mb)
      else (True, attach_book_sink key
             (mb\<lparr>books := hm_emplace key \<lparr>be_id = i, be_key = key, be_engine = engine\<rparr> (books mb)\<rparr>)))"

definition add_default_book :: "BookId \<Rightarrow> MultiBook \<Rightarrow> bool \<times> MultiBook" where
  \<comment> \<open>\<open>OrderPoolConfig{}\<close> has the capacities 200000 and 100000\<close>
  "add_default_book i mb = add_book i (sim_init 200000 100000) mb"

definition mb_set_log_sink :: "BookId \<Rightarrow> bool \<Rightarrow> MultiBook \<Rightarrow> MultiBook" where
  "mb_set_log_sink i snk mb =
     (case hm_find (books mb) (book_key i) of
        None \<Rightarrow> mb_emit_diagnostic (book_key i) SET_LOG_SINK_FOR_UNKNOWN_BOOK_IN_MULTI_BOOK_SIMULATOR
                  ERROR 0 (-1) (-1) mb
      | Some e \<Rightarrow>
          mb\<lparr>books := hm_put (book_key i) (e\<lparr>be_engine := set_log_sink snk (be_engine e)\<rparr>) (books mb),
             book_sinks := hm_erase (book_key i) (book_sinks mb)\<rparr>)"

definition detach_book_sinks :: "MultiBook \<Rightarrow> MultiBook" where
  \<comment> \<open>the first loop of \<open>set_multi_log_sink\<close>\<close>
  "detach_book_sinks mb =
     mb\<lparr>books := map (\<lambda>(key, e). (key,
          if hm_contains (book_sinks mb) key then e\<lparr>be_engine := set_log_sink False (be_engine e)\<rparr> else e))
        (books mb)\<rparr>"

definition set_multi_log_sink :: "bool \<Rightarrow> MultiBook \<Rightarrow> MultiBook" where
  "set_multi_log_sink snk mb =
     (let mb1 = (detach_book_sinks mb)\<lparr>multi_sink := snk, book_sinks := hm_empty\<rparr>
      in fold attach_book_sink (map fst (books mb1)) mb1)"

definition mb_init_from_l2_snapshot ::
  "BookId \<Rightarrow> Side list \<Rightarrow> int list \<Rightarrow> int list \<Rightarrow> MultiBook \<Rightarrow> MultiBookError option \<times> MultiBook" where
  "mb_init_from_l2_snapshot i sides prices quantities mb =
     (case run_engine (book_key i) (init_from_l2_snapshot sides prices quantities) mb of
        (None, mb') \<Rightarrow> (None, mb_emit_diagnostic (book_key i) APPLY_EVENT_REQUESTED_FOR_UNKNOWN_BOOK ERROR 0 (-1) (-1) mb')
      | (Some None, mb') \<Rightarrow> (None, mb')
      | (Some (Some err), mb') \<Rightarrow> (Some (SnapshotFailed err), mb'))"

definition mb_init_from_l3_snapshot ::
  "BookId \<Rightarrow> Side list \<Rightarrow> int list \<Rightarrow> int list \<Rightarrow> int list \<Rightarrow> int list \<Rightarrow> MultiBook
     \<Rightarrow> MultiBookError option \<times> MultiBook" where
  "mb_init_from_l3_snapshot i sides prices quantities order_ids trader_ids mb =
     (case run_engine (book_key i) (init_from_l3_snapshot sides prices quantities order_ids trader_ids) mb of
        (None, mb') \<Rightarrow> (None, mb_emit_diagnostic (book_key i) APPLY_EVENT_REQUESTED_FOR_UNKNOWN_BOOK ERROR 0 (-1) (-1) mb')
      | (Some None, mb') \<Rightarrow> (None, mb')
      | (Some (Some err), mb') \<Rightarrow> (Some (SnapshotFailed err), mb'))"

definition mb_depth_at :: "BookId \<Rightarrow> Side \<Rightarrow> int \<Rightarrow> MultiBook \<Rightarrow> int option \<times> MultiBook" where
  "mb_depth_at i side price_ticks mb =
     (case get_book_key (book_key i) mb of
        None \<Rightarrow> (None, mb_emit_diagnostic (book_key i) DEPTH_AT_FOR_UNKNOWN_BOOK_IN_MULTI_BOOK_SIMULATOR
                   ERROR 0 (-1) (-1) mb)
      | Some book \<Rightarrow> (depth_at side price_ticks book, mb))"

definition mb_l2_top_n :: "BookId \<Rightarrow> Side \<Rightarrow> nat \<Rightarrow> MultiBook \<Rightarrow> Level list \<times> MultiBook" where
  "mb_l2_top_n i side n mb =
     (case get_book_key (book_key i) mb of
        None \<Rightarrow> ([], mb_emit_diagnostic (book_key i) L2_TOP_N_FOR_UNKNOWN_BOOK_IN_MULTI_BOOK_SIMULATOR
                   ERROR 0 (-1) (-1) mb)
      | Some book \<Rightarrow> (l2_top_n side n book, mb))"

definition mb_get_best_price_ticks :: "BookId \<Rightarrow> Side \<Rightarrow> MultiBook \<Rightarrow> int option \<times> MultiBook" where
  "mb_get_best_price_ticks i side mb =
     (case run_engine (book_key i) (\<lambda>st. (snd (get_best_price_ticks side st), fst (get_best_price_ticks side st))) mb of
        (None, mb') \<Rightarrow> (None, mb_emit_diagnostic (book_key i)
             GET_BEST_PRICE_TICKS_FOR_UNKNOWN_BOOK_IN_MULTI_BOOK_SIMULATOR ERROR 0 (-1) (-1) mb')
      | (Some best, mb') \<Rightarrow> (best, mb'))"

section \<open>Applying an event\<close>

definition tag_event :: "string \<Rightarrow> NormalizedLobEvent \<Rightarrow> NormalizedLobEvent" where
  "tag_event key ev = (if ev_symbol_id ev = [] \<or> ev_symbol_id ev \<noteq> key then ev\<lparr>ev_symbol_id := key\<rparr> else ev)"

lemma tag_event_simps [simp]:
  "ev_symbol_id (tag_event key ev) = key" "ev_ts_received (tag_event key ev) = ev_ts_received ev"
  "ev_ts_exchange (tag_event key ev) = ev_ts_exchange ev" "ev_update_source (tag_event key ev) = ev_update_source ev"
  "ev_update_type (tag_event key ev) = ev_update_type ev" "ev_quantity_lots (tag_event key ev) = ev_quantity_lots ev"
  by (simp_all add: tag_event_def)

definition apply_to_book :: "string \<Rightarrow> NormalizedLobEvent \<Rightarrow> MultiBook \<Rightarrow> MultiBookError option \<times> MultiBook" where
  "apply_to_book key ev mb =
     (if \<not> has_book_key key mb
      then (None, mb_emit_diagnostic key APPLY_EVENT_REQUESTED_FOR_UNKNOWN_BOOK ERROR 0
              (ev_ts_received ev) (ev_ts_exchange ev) mb)
      else
        let ev1 = tag_event key ev
        in if require_monotonic_ts_received mb \<and> has_current_time mb \<and> ev_ts_received ev1 < current_ts_received mb
           then (if fail_fast mb then Some NonMonotonicTime else None,
                 mb_emit_diagnostic key NON_MONOTONIC_TS_RECEIVED_DETECTED_IN_MULTI_BOOK_SIMULATOR ERROR 0
                   (ev_ts_received ev1) (ev_ts_exchange ev1) mb)
           else
             let (_, mb1) = run_engine key (\<lambda>st. (update ev1 st, ())) mb
             in (None, mb1\<lparr>has_current_time := True, current_ts_received := ev_ts_received ev1\<rparr>))"

definition mb_apply :: "BookId \<Rightarrow> NormalizedLobEvent \<Rightarrow> MultiBook \<Rightarrow> MultiBookError option \<times> MultiBook" where
  "mb_apply i ev mb = apply_to_book (book_key i) ev mb"

definition int64_max :: int where
  "int64_max = 9223372036854775807"

definition submit_strategy_event ::
  "BookId \<Rightarrow> NormalizedLobEvent \<Rightarrow> int option \<Rightarrow> MultiBook \<Rightarrow> MultiBookError option \<times> MultiBook" where
  "submit_strategy_event i ev latency mb =
     (let key = book_key i in
      if \<not> has_book_key key mb
      then (if fail_fast mb then Some StrategyUnknownBook else None,
            mb_emit_diagnostic key SUBMIT_STRATEGY_EVENT_FOR_UNKNOWN_BOOK ERROR 0
              (ev_ts_received ev) (ev_ts_exchange ev) mb)
      else
        let ev1 = tag_event key ev;
            ev2 = ev1\<lparr>ev_update_source := STRATEGY\<rparr>;
            base = (if has_current_time mb then current_ts_received mb else 0);
            ev3 = (if ev_ts_received ev2 = 0
                   then ev2\<lparr>ev_ts_received := base + (case latency of None \<Rightarrow> 1 | Some d \<Rightarrow> d)\<rparr>
                   else case latency of
                     None \<Rightarrow> ev2
                   | Some d \<Rightarrow> ev2\<lparr>ev_ts_received := ev_ts_received ev2 + d\<rparr>)
        in if require_monotonic_ts_received mb \<and> has_current_time mb \<and> ev_ts_received ev3 < current_ts_received mb
           then (if fail_fast mb then Some StrategyTimeTravel else None,
                 mb_emit_diagnostic key STRATEGY_EVENT_TIME_TRAVEL ERROR 0
                   (ev_ts_received ev3) (ev_ts_exchange ev3) mb)
           else
             let idx = length (strategy_events mb);
                 ev4 = (if ev_ts_exchange ev3 = 0 then ev3\<lparr>ev_ts_exchange := int64_max\<rparr> else ev3)
             in (None, mb\<lparr>strategy_events := strategy_events mb @
                      [\<lparr>si_ev = ev4, si_insertion_seq = strategy_seq_counter mb + 1\<rparr>],
                    strategy_seq_counter := strategy_seq_counter mb + 1,
                    heap := pq_push heap_lower
                      \<lparr>he_ts_received = ev_ts_received ev4, he_ts_exchange = ev_ts_exchange ev4,
                       he_stream_index = 0, he_kind = Strategy, he_strategy_index = idx\<rparr> (heap mb)\<rparr>))"

definition current_time :: "MultiBook \<Rightarrow> int option" where
  "current_time mb = (if \<not> has_current_time mb then None else Some (current_ts_received mb))"

section \<open>Streams\<close>

datatype NextResult = NextEnd | NextThrow MultiBookError IStream | NextEvent NormalizedLobEvent IStream

fun next_adapter :: "bool \<Rightarrow> (unit + NormalizedLobEvent option) list \<Rightarrow> NextResult" where
  \<comment> \<open>only the call of the adapter is inside of a \<open>try\<close>: what the source throws escapes with or without
      \<open>fail_fast\<close>\<close>
  "next_adapter ff [] = NextEnd"
| "next_adapter ff (Inl _ # rest) = NextThrow SourceFailed (AdapterStream ff rest)"
| "next_adapter ff (Inr None # rest) =
     (if ff then NextThrow AdapterFailed (AdapterStream ff rest) else next_adapter ff rest)"
| "next_adapter ff (Inr (Some ev) # rest) = NextEvent ev (AdapterStream ff rest)"

fun next_normalized :: "IStream \<Rightarrow> NextResult" where
  "next_normalized (AdapterStream ff rest) = next_adapter ff rest"
| "next_normalized (NormalizedStream []) = NextEnd"
| "next_normalized (NormalizedStream (Inl _ # rest)) = NextThrow SourceFailed (NormalizedStream rest)"
| "next_normalized (NormalizedStream (Inr ev # rest)) = NextEvent ev (NormalizedStream rest)"

fun stream_left :: "IStream \<Rightarrow> nat" where
  "stream_left (AdapterStream ff rest) = length rest"
| "stream_left (NormalizedStream rest) = length rest"

lemma next_adapter_left:
  "next_adapter ff rest = NextEvent ev s' \<Longrightarrow> stream_left s' < length rest"
  "next_adapter ff rest = NextThrow e s' \<Longrightarrow> stream_left s' < length rest"
  by (induction ff rest rule: next_adapter.induct) (auto split: if_splits)

lemma next_left:
  "next_normalized s = NextEvent ev s' \<Longrightarrow> stream_left s' < stream_left s"
  "next_normalized s = NextThrow e s' \<Longrightarrow> stream_left s' < stream_left s"
  by (cases s rule: next_normalized.cases; auto dest: next_adapter_left)+

definition buffer_event :: "NormalizedLobEvent \<Rightarrow> IStream \<Rightarrow> StreamState \<Rightarrow> StreamState" where
  "buffer_event ev s stream =
     stream\<lparr>ss_stream := s, ss_has_last_ts := True, ss_last_ts := ev_ts_received ev, ss_buffered := ev,
            ss_has_buffered := True, ss_seq := ss_seq stream + 1\<rparr>"

definition stream_diag :: "StreamState \<Rightarrow> NormalizedLobEvent \<Rightarrow> DiagnosticRecord" where
  "stream_diag stream ev = \<lparr>dr_seq = ss_seq stream, dr_ts_exchange = ev_ts_exchange ev,
     dr_ts_received = ev_ts_received ev, dr_code = NON_MONOTONIC_TS_RECEIVED_DETECTED_IN_MULTI_BOOK_SIMULATOR,
     dr_severity = ERROR, dr_book_key = ss_book_key stream\<rparr>"

function fill_loop :: "bool \<Rightarrow> bool \<Rightarrow> StreamState \<Rightarrow> (MultiBookError option \<times> StreamState) \<times> DiagnosticRecord list" where
  \<comment> \<open>the loop of \<open>fill_buffer\<close>, with the diagnostics it emits\<close>
  "fill_loop monotonic ff stream =
     (case next_normalized (ss_stream stream) of
        NextEnd \<Rightarrow> ((None, stream\<lparr>ss_exhausted := True\<rparr>), [])
      | NextThrow err s \<Rightarrow> ((Some err, stream\<lparr>ss_stream := s\<rparr>), [])
      | NextEvent ev s \<Rightarrow>
          if monotonic \<and> ss_has_last_ts stream \<and> ev_ts_received ev < ss_last_ts stream
          then if ff then ((Some NonMonotonicStream, stream\<lparr>ss_stream := s\<rparr>), [stream_diag stream ev])
               else let (res, ds) = fill_loop monotonic ff (stream\<lparr>ss_stream := s\<rparr>)
                    in (res, stream_diag stream ev # ds)
          else ((None, buffer_event ev s stream), []))"
  by pat_completeness auto
termination
  by (relation "measure (\<lambda>(monotonic, ff, stream). stream_left (ss_stream stream))")
    (auto dest: next_left)

declare fill_loop.simps [simp del]

definition fill_buffer :: "nat \<Rightarrow> MultiBook \<Rightarrow> MultiBookError option \<times> MultiBook" where
  "fill_buffer index mb =
     (let stream = streams mb ! index in
      if ss_exhausted stream \<or> ss_has_buffered stream then (None, mb)
      else
        let ((err, stream'), ds) = fill_loop (require_monotonic_ts_received mb) (fail_fast mb) stream;
            mb1 = mb\<lparr>streams := (streams mb)[index := stream'],
                     mcalls := (if multi_sink mb then mcalls mb @ map OnDiagnostic ds else mcalls mb)\<rparr>
        in if err = None \<and> ss_has_buffered stream'
           then (None, mb1\<lparr>heap := pq_push heap_lower
                  \<lparr>he_ts_received = ev_ts_received (ss_buffered stream'),
                   he_ts_exchange = ev_ts_exchange (ss_buffered stream'),
                   he_stream_index = index, he_kind = Stream, he_strategy_index = 0\<rparr> (heap mb1)\<rparr>)
           else (err, mb1))"

fun prime_from :: "nat list \<Rightarrow> MultiBook \<Rightarrow> MultiBookError option \<times> MultiBook" where
  "prime_from [] mb = (None, mb)"
| "prime_from (i # is) mb =
     (if ss_has_buffered (streams mb ! i) \<or> ss_exhausted (streams mb ! i) then prime_from is mb
      else case fill_buffer i mb of
        (Some err, mb') \<Rightarrow> (Some err, mb')
      | (None, mb') \<Rightarrow> prime_from is mb')"

definition prime_streams :: "MultiBook \<Rightarrow> MultiBookError option \<times> MultiBook" where
  "prime_streams mb = prime_from [0..<length (streams mb)] mb"

definition has_stream_for_book_key :: "string \<Rightarrow> MultiBook \<Rightarrow> bool" where
  "has_stream_for_book_key key mb = list_ex (\<lambda>s. ss_book_key s = key) (streams mb)"

definition add_stream :: "BookId \<Rightarrow> IStream \<Rightarrow> MultiBook \<Rightarrow> MultiBookError option \<times> MultiBook" where
  "add_stream i s mb =
     (let key = book_key i in
      if has_stream_for_book_key key mb
      then (if fail_fast mb then Some DuplicateStream else None,
            mb_emit_diagnostic key DUPLICATE_STREAM_FOR_BOOK_IN_MULTI_BOOK_SIMULATOR ERROR 0 (-1) (-1) mb)
      else
        let mb1 = (if \<not> has_book_key key mb then snd (add_default_book i mb) else mb)
        in (None, mb1\<lparr>streams := streams mb1 @
             [\<lparr>ss_book_key = key, ss_stream = s, ss_exhausted = False, ss_has_buffered = False,
               ss_buffered = default_event, ss_has_last_ts = False, ss_last_ts = 0, ss_seq = 0\<rparr>]\<rparr>))"

definition add_adapter_stream ::
  "BookId \<Rightarrow> (unit + NormalizedLobEvent option) list \<Rightarrow> MultiBook \<Rightarrow> MultiBookError option \<times> MultiBook" where
  "add_adapter_stream i items mb = add_stream i (AdapterStream (fail_fast mb) items) mb"

definition add_normalized_stream ::
  "BookId \<Rightarrow> (unit + NormalizedLobEvent) list \<Rightarrow> MultiBook \<Rightarrow> MultiBookError option \<times> MultiBook" where
  "add_normalized_stream i events mb = add_stream i (NormalizedStream events) mb"

section \<open>Stepping\<close>

definition step :: "MultiBook \<Rightarrow> (MultiBookError + bool) \<times> MultiBook" where
  "step mb0 =
     (case prime_streams mb0 of
        (Some err, mb) \<Rightarrow> (Inl err, mb)
      | (None, mb) \<Rightarrow>
          if heap mb = [] then (Inr False, mb)
          else
            let entry = hd (heap mb); mb1 = mb\<lparr>heap := tl (heap mb)\<rparr> in
            if he_kind entry = Strategy
            then
              if he_strategy_index entry \<ge> length (strategy_events mb1)
              then (if fail_fast mb1 then Inl InvalidStrategyEntry else Inr False,
                    mb_emit_diagnostic ''__multibook__'' HEAP_ENTRY_WITHOUT_BUFFERED_EVENT ERROR 0
                      (current_ts_received mb1) (-1) mb1)
              else
                let ev = si_ev (strategy_events mb1 ! he_strategy_index entry)
                in (case apply_to_book (ev_symbol_id ev) ev mb1 of
                      (Some err, mb2) \<Rightarrow> (Inl err, mb2)
                    | (None, mb2) \<Rightarrow> (Inr True, mb2))
            else
              let stream = streams mb1 ! he_stream_index entry in
              if \<not> ss_has_buffered stream
              then (if fail_fast mb1 then Inl NoBufferedEvent else Inr False,
                    mb_emit_diagnostic (ss_book_key stream) HEAP_ENTRY_WITHOUT_BUFFERED_EVENT ERROR
                      (ss_seq stream) (current_ts_received mb1) (-1) mb1)
              else
                let ev = ss_buffered stream;
                    mb2 = mb1\<lparr>streams := (streams mb1)[he_stream_index entry := stream\<lparr>ss_has_buffered := False\<rparr>]\<rparr>
                in (case apply_to_book (ss_book_key stream) ev mb2 of
                      (Some err, mb3) \<Rightarrow> (Inl err, mb3)
                    | (None, mb3) \<Rightarrow>
                        (case fill_buffer (he_stream_index entry) mb3 of
                           (Some err, mb4) \<Rightarrow> (Inl err, mb4)
                         | (None, mb4) \<Rightarrow> (Inr True, mb4))))"

text \<open>
  The loop of \<open>step_until\<close>. It is not structurally decreasing on arbitrary states, so it is partial
  here; that it returns from every well-formed state is a theorem.
\<close>

partial_function (option) step_loop ::
  "int \<Rightarrow> nat \<Rightarrow> MultiBook \<Rightarrow> ((MultiBookError + nat) \<times> MultiBook) option" where
  "step_loop limit applied mb =
     (if heap mb = [] then Some (Inr applied, mb)
      else if he_ts_received (hd (heap mb)) > limit then Some (Inr applied, mb)
      else case step mb of
        (Inl err, mb') \<Rightarrow> Some (Inl err, mb')
      | (Inr b, mb') \<Rightarrow> if \<not> b then Some (Inr applied, mb') else step_loop limit (applied + 1) mb')"

definition step_until :: "int \<Rightarrow> MultiBook \<Rightarrow> ((MultiBookError + nat) \<times> MultiBook) option" where
  "step_until ts_received_inclusive mb =
     (case prime_streams mb of
        (Some err, mb') \<Rightarrow> Some (Inl err, mb')
      | (None, mb') \<Rightarrow> step_loop ts_received_inclusive 0 mb')"

definition step_for :: "int \<Rightarrow> MultiBook \<Rightarrow> ((MultiBookError + nat) \<times> MultiBook) option" where
  "step_for delta_ts mb =
     (if delta_ts \<le> 0 then Some (Inr 0, mb)
      else step_until ((if has_current_time mb then current_ts_received mb else 0) + delta_ts) mb)"

end
