(* ===== verification/MultiBookFacts.thy ===== *)
theory MultiBookFacts
  imports MultiBook EngineFacts SinkFacts
begin

text \<open>
  The invariant of the multi-book simulator and what its operations keep: the queue holds exactly
  one entry per buffered stream event and valid entries for strategy events, every stream and every
  strategy event belongs to a book, and every engine is well formed.
\<close>

section \<open>The queue\<close>

definition entry_matches :: "StreamState list \<Rightarrow> StrategyItem list \<Rightarrow> HeapEntry \<Rightarrow> bool" where
  "entry_matches ss xs e \<longleftrightarrow>
     (case he_kind e of
        Strategy \<Rightarrow> he_strategy_index e < length xs \<and>
          he_ts_received e = ev_ts_received (si_ev (xs ! he_strategy_index e)) \<and>
          he_ts_exchange e = ev_ts_exchange (si_ev (xs ! he_strategy_index e))
      | Stream \<Rightarrow> he_stream_index e < length ss \<and> ss_has_buffered (ss ! he_stream_index e) \<and>
          he_ts_received e = ev_ts_received (ss_buffered (ss ! he_stream_index e)) \<and>
          he_ts_exchange e = ev_ts_exchange (ss_buffered (ss ! he_stream_index e)))"

definition stream_indexes :: "HeapEntry list \<Rightarrow> nat list" where
  "stream_indexes q = map he_stream_index (filter (\<lambda>e. he_kind e = Stream) q)"

definition queue_ok :: "HeapEntry list \<Rightarrow> StreamState list \<Rightarrow> StrategyItem list \<Rightarrow> bool" where
  "queue_ok q ss xs \<longleftrightarrow> pq_sorted heap_lower q \<and> (\<forall>e \<in> set q. entry_matches ss xs e) \<and>
     distinct (stream_indexes q) \<and>
     (\<forall>i < length ss. ss_has_buffered (ss ! i) \<longrightarrow> i \<in> set (stream_indexes q))"

lemma stream_indexes_simps [simp]:
  "stream_indexes [] = []"
  "stream_indexes (e # q) = (if he_kind e = Stream then he_stream_index e # stream_indexes q else stream_indexes q)"
  by (simp_all add: stream_indexes_def)

lemma stream_indexes_mem: "f \<in> set q \<Longrightarrow> he_kind f = Stream \<Longrightarrow> he_stream_index f \<in> set (stream_indexes q)"
  by (simp add: stream_indexes_def)

lemma mset_stream_indexes_push: "mset (stream_indexes (pq_push l e q)) = mset (stream_indexes (e # q))"
  by (induction q) auto

lemma stream_indexes_push [simp]:
  "distinct (stream_indexes (pq_push l e q)) = distinct (stream_indexes (e # q))"
  "set (stream_indexes (pq_push l e q)) = set (stream_indexes (e # q))"
  using mset_stream_indexes_push [of l e q] mset_eq_imp_distinct_iff mset_eq_setD by blast+

lemma queue_ok_empty [simp]: "queue_ok [] [] []"
  by (simp add: queue_ok_def pq_sorted_def)

lemma queue_ok_strategy:
  assumes "queue_ok q ss xs" "he_kind e = Strategy" "he_strategy_index e = length xs"
    and "he_ts_received e = ev_ts_received (si_ev x)" "he_ts_exchange e = ev_ts_exchange (si_ev x)"
  shows "queue_ok (pq_push heap_lower e q) ss (xs @ [x])"
proof -
  have "entry_matches ss (xs @ [x]) f" if "entry_matches ss xs f" for f
    using that by (auto simp: entry_matches_def nth_append split: EntryKind.splits)
  moreover have "entry_matches ss (xs @ [x]) e" using assms(2-5) by (simp add: entry_matches_def)
  ultimately show ?thesis using assms(1,2) mq.pq_sorted_push by (auto simp: queue_ok_def)
qed

lemma queue_ok_new_stream:
  assumes "queue_ok q ss xs" "\<not> ss_has_buffered s"
  shows "queue_ok q (ss @ [s]) xs"
proof -
  have "entry_matches (ss @ [s]) xs f" if "entry_matches ss xs f" for f
    using that by (auto simp: entry_matches_def nth_append split: EntryKind.splits)
  then show ?thesis using assms by (auto simp: queue_ok_def nth_append less_Suc_eq)
qed

lemma queue_ok_buffer:
  assumes q: "queue_ok q ss xs" and i: "i < length ss" "\<not> ss_has_buffered (ss ! i)"
    and s: "ss_has_buffered s"
    and e: "he_kind e = Stream" "he_stream_index e = i" "he_ts_received e = ev_ts_received (ss_buffered s)"
      "he_ts_exchange e = ev_ts_exchange (ss_buffered s)"
  shows "queue_ok (pq_push heap_lower e q) (ss[i := s]) xs"
proof -
  have ni: "i \<notin> set (stream_indexes q)"
    using q i by (auto simp: queue_ok_def stream_indexes_def entry_matches_def split: EntryKind.splits)
  have "entry_matches (ss[i := s]) xs f" if "f \<in> set q" for f
  proof -
    have "entry_matches ss xs f" using q that by (simp add: queue_ok_def)
    moreover have "he_kind f = Stream \<Longrightarrow> he_stream_index f \<noteq> i" using ni that by (auto simp: stream_indexes_def)
    ultimately show ?thesis by (auto simp: entry_matches_def split: EntryKind.splits)
  qed
  moreover have "entry_matches (ss[i := s]) xs e" using i s e by (simp add: entry_matches_def)
  ultimately show ?thesis
    using q i ni e(1,2) mq.pq_sorted_push by (auto simp: queue_ok_def nth_list_update_iff)
qed

lemma queue_ok_same:
  assumes q: "queue_ok q ss xs" and i: "\<not> ss_has_buffered (ss ! i)" "\<not> ss_has_buffered s"
  shows "queue_ok q (ss[i := s]) xs"
proof -
  have "entry_matches (ss[i := s]) xs f" if "f \<in> set q" for f
  proof -
    have m: "entry_matches ss xs f" using q that by (simp add: queue_ok_def)
    then have "he_kind f = Stream \<Longrightarrow> he_stream_index f \<noteq> i" using i by (auto simp: entry_matches_def)
    with m show ?thesis by (auto simp: entry_matches_def split: EntryKind.splits)
  qed
  then show ?thesis using q i(2) by (auto simp: queue_ok_def nth_list_update_iff)
qed

text \<open>Taking the top entry: it is the best of all, and the stream it came from is free again.\<close>

lemma queue_ok_pop:
  assumes q: "queue_ok (e # q) ss xs"
  shows "entry_matches ss xs e" and "\<forall>f \<in> set q. merge_key e \<le> merge_key f"
    and "he_kind e = Strategy \<Longrightarrow> queue_ok q ss xs"
    and "he_kind e = Stream \<Longrightarrow> \<not> ss_has_buffered s \<Longrightarrow> queue_ok q (ss[he_stream_index e := s]) xs"
proof -
  show m: "entry_matches ss xs e" using q by (simp add: queue_ok_def)
  show "\<forall>f \<in> set q. merge_key e \<le> merge_key f"
    using q by (auto simp: queue_ok_def pq_sorted_def heap_lower_key not_less)
  have tl: "pq_sorted heap_lower q" using q by (simp add: queue_ok_def pq_sorted_def)
  show "queue_ok q ss xs" if "he_kind e = Strategy"
    using q that tl by (auto simp: queue_ok_def)
  show "queue_ok q (ss[he_stream_index e := s]) xs" if k: "he_kind e = Stream" and s: "\<not> ss_has_buffered s"
  proof -
    have "entry_matches (ss[he_stream_index e := s]) xs f" if "f \<in> set q" for f
    proof -
      have "entry_matches ss xs f" using q that by (simp add: queue_ok_def)
      moreover have "he_stream_index e \<notin> set (stream_indexes q)" using q k by (simp add: queue_ok_def)
      then have "he_kind f = Stream \<Longrightarrow> he_stream_index f \<noteq> he_stream_index e"
        using stream_indexes_mem [OF that] by metis
      ultimately show ?thesis by (auto simp: entry_matches_def split: EntryKind.splits)
    qed
    then show ?thesis using q k s tl by (auto simp: queue_ok_def nth_list_update_iff split: if_splits)
  qed
qed

lemma queue_ok_stream:
  assumes q: "queue_ok q ss xs" and s: "s \<in> set ss" "ss_has_buffered s"
  shows "\<exists>f \<in> set q. he_kind f = Stream \<and> he_ts_received f = ev_ts_received (ss_buffered s)"
proof -
  obtain i where i: "i < length ss" "s = ss ! i" using s(1) by (auto simp: in_set_conv_nth)
  then have "i \<in> set (stream_indexes q)" using q s(2) by (simp add: queue_ok_def)
  then obtain f where f: "f \<in> set q" "he_stream_index f = i" "he_kind f = Stream" by (auto simp: stream_indexes_def)
  then have "entry_matches ss xs f" using q by (simp add: queue_ok_def)
  with f i(2) show ?thesis by (auto simp: entry_matches_def)
qed

section \<open>Books\<close>

definition books_ok :: "MultiBook \<Rightarrow> bool" where
  "books_ok mb \<longleftrightarrow> hm_wf (books mb) \<and> hm_wf (book_sinks mb) \<and>
     (\<forall>key e. hm_find (books mb) key = Some e \<longrightarrow> be_key e = key \<and> book_key (be_id e) = key \<and> sim_wf (be_engine e))"

definition mb_wf :: "MultiBook \<Rightarrow> bool" where
  "mb_wf mb \<longleftrightarrow> queue_ok (heap mb) (streams mb) (strategy_events mb) \<and> books_ok mb \<and>
     distinct (map ss_book_key (streams mb)) \<and>
     (\<forall>s \<in> set (streams mb). has_book_key (ss_book_key s) mb) \<and>
     (\<forall>x \<in> set (strategy_events mb). has_book_key (ev_symbol_id (si_ev x)) mb \<and>
        ev_update_source (si_ev x) = STRATEGY)"

definition same_queue :: "MultiBook \<Rightarrow> MultiBook \<Rightarrow> bool" where
  \<comment> \<open>what a call on an engine, a diagnostic or a change of sinks leaves alone\<close>
  "same_queue mb mb' \<longleftrightarrow> heap mb' = heap mb \<and> streams mb' = streams mb \<and>
     strategy_events mb' = strategy_events mb \<and> strategy_seq_counter mb' = strategy_seq_counter mb \<and>
     require_monotonic_ts_received mb' = require_monotonic_ts_received mb \<and> fail_fast mb' = fail_fast mb \<and>
     (\<forall>key. has_book_key key mb' = has_book_key key mb)"

lemma same_queue_refl [simp]: "same_queue mb mb"
  by (simp add: same_queue_def)

lemma same_queue_trans: "same_queue mb mb' \<Longrightarrow> same_queue mb' mb'' \<Longrightarrow> same_queue mb mb''"
  by (simp add: same_queue_def)

lemma mb_wf_same: "mb_wf mb \<Longrightarrow> same_queue mb mb' \<Longrightarrow> books_ok mb' \<Longrightarrow> mb_wf mb'"
  by (simp add: mb_wf_def same_queue_def)

lemma sim_wf_calls [simp]: "sim_wf (st\<lparr>calls := c\<rparr>) = sim_wf st"
  by (rule sim_wf_same) (simp add: same_books_def)

lemma sim_wf_sink [simp]: "sim_wf (set_log_sink b st) = sim_wf st"
  by (rule sim_wf_same) (simp add: same_books_def set_log_sink_def)

lemma mb_diag_simps [simp]:
  "same_queue mb (mb_emit_diagnostic key code sev sq tr te mb)"
  "books (mb_emit_diagnostic key code sev sq tr te mb) = books mb"
  "book_sinks (mb_emit_diagnostic key code sev sq tr te mb) = book_sinks mb"
  "has_current_time (mb_emit_diagnostic key code sev sq tr te mb) = has_current_time mb"
  "current_ts_received (mb_emit_diagnostic key code sev sq tr te mb) = current_ts_received mb"
  by (simp_all add: mb_emit_diagnostic_def same_queue_def has_book_key_def)

lemma mb_wf_diag [simp]: "mb_wf mb \<Longrightarrow> mb_wf (mb_emit_diagnostic key code sev sq tr te mb)"
  by (rule mb_wf_same [of mb]) (simp_all add: mb_wf_def books_ok_def)

lemma books_ok_cong: "books_ok mb \<Longrightarrow> books mb' = books mb \<Longrightarrow> book_sinks mb' = book_sinks mb \<Longrightarrow> books_ok mb'"
  by (simp add: books_ok_def)

lemma run_engine_Some:
  assumes "hm_find (books mb) key = Some e" "f ((be_engine e)\<lparr>calls := []\<rparr>) = (st, res)"
  shows "\<exists>kept passed. run_engine key f mb =
    (Some res, mb\<lparr>books := hm_put key (e\<lparr>be_engine := st\<lparr>calls := kept\<rparr>\<rparr>) (books mb),
       mcalls := mcalls mb @ passed\<rparr>) \<and>
    (hm_contains (book_sinks mb) key \<longrightarrow> kept = calls (be_engine e) \<and> passed = concat (map (book_scoped key) (calls st))) \<and>
    (\<not> hm_contains (book_sinks mb) key \<longrightarrow> kept = calls (be_engine e) @ calls st \<and> passed = [])"
  using assms by (simp add: run_engine_def Let_def)

lemma run_engine_keeps:
  assumes "books_ok mb" "run_engine key f mb = (res, mb')"
    and "\<And>st st' r. sim_wf st \<Longrightarrow> f st = (st', r) \<Longrightarrow> sim_wf st'"
  shows "books_ok mb' \<and> same_queue mb mb' \<and> has_current_time mb' = has_current_time mb \<and>
    current_ts_received mb' = current_ts_received mb \<and> multi_sink mb' = multi_sink mb \<and>
    (\<forall>k. k \<noteq> key \<longrightarrow> hm_find (books mb') k = hm_find (books mb) k)"
proof (cases "hm_find (books mb) key")
  case None
  with assms show ?thesis by (simp add: run_engine_def)
next
  case (Some e)
  obtain st r where f: "f ((be_engine e)\<lparr>calls := []\<rparr>) = (st, r)" by fastforce
  have e: "be_key e = key" "book_key (be_id e) = key" "sim_wf (be_engine e)"
    using assms(1) Some by (auto simp: books_ok_def)
  have "sim_wf st" by (rule assms(3) [OF _ f]) (use e in simp)
  moreover obtain kept passed where
    "mb' = mb\<lparr>books := hm_put key (e\<lparr>be_engine := st\<lparr>calls := kept\<rparr>\<rparr>) (books mb), mcalls := mcalls mb @ passed\<rparr>"
    using run_engine_Some [of mb key e f, OF Some f] assms(2) by auto
  ultimately show ?thesis
    using assms(1) Some e by (auto simp: books_ok_def same_queue_def has_book_key_def hm_contains_def split: if_splits)
qed

lemma update_unit_wf: "sim_wf st \<Longrightarrow> (update ev st, ()) = (st', r) \<Longrightarrow> sim_wf st'"
  using update_preserves_all [of st ev] by (simp add: preserves_def)

lemma apply_to_book_keeps:
  assumes "books_ok mb" "apply_to_book key ev mb = (err, mb')"
  shows "books_ok mb' \<and> same_queue mb mb' \<and> (\<forall>k. k \<noteq> key \<longrightarrow> hm_find (books mb') k = hm_find (books mb) k) \<and>
    (err = None \<or> err = Some NonMonotonicTime) \<and>
    (require_monotonic_ts_received mb \<longrightarrow> has_current_time mb \<longrightarrow>
       has_current_time mb' \<and> current_ts_received mb \<le> current_ts_received mb')"
proof -
  let ?ev = "tag_event key ev"
  consider (unknown) "\<not> has_book_key key mb"
    | (late) "has_book_key key mb" "require_monotonic_ts_received mb" "has_current_time mb"
        "ev_ts_received ev < current_ts_received mb"
    | (run) "has_book_key key mb"
        "\<not> (require_monotonic_ts_received mb \<and> has_current_time mb \<and> ev_ts_received ev < current_ts_received mb)"
    by blast
  then show ?thesis
  proof cases
    case unknown
    with assms show ?thesis by (auto simp: apply_to_book_def books_ok_def)
  next
    case late
    with assms show ?thesis by (auto simp: apply_to_book_def Let_def books_ok_def)
  next
    case run
    obtain r mb1 where r: "run_engine key (\<lambda>st. (update ?ev st, ())) mb = (r, mb1)" by fastforce
    have mb': "err = None" "mb' = mb1\<lparr>has_current_time := True, current_ts_received := ev_ts_received ev\<rparr>"
      using assms(2) run r by (auto simp: apply_to_book_def Let_def split: if_splits)
    show ?thesis
      using run_engine_keeps [OF assms(1) r update_unit_wf] run(2) unfolding mb'
      by (auto simp: same_queue_def has_book_key_def books_ok_def)
  qed
qed

section \<open>Filling buffers\<close>

definition stream_error :: "MultiBookError option \<Rightarrow> bool" where
  \<comment> \<open>what reading a stream may end with\<close>
  "stream_error err \<longleftrightarrow> err \<in> {None, Some SourceFailed, Some AdapterFailed, Some NonMonotonicStream}"

lemma stream_error_simps [simp]:
  "stream_error None" "stream_error (Some SourceFailed)" "stream_error (Some AdapterFailed)"
  "stream_error (Some NonMonotonicStream)" "\<not> stream_error (Some InvalidStrategyEntry)" "\<not> stream_error (Some NoBufferedEvent)"
  by (simp_all add: stream_error_def)

lemma next_throws: "next_normalized s = NextThrow e s' \<Longrightarrow> stream_error (Some e)"
proof (cases s rule: next_normalized.cases)
  case (1 ff rest)
  moreover have "next_adapter ff rest = NextThrow e s' \<Longrightarrow> stream_error (Some e)"
    by (induction ff rest rule: next_adapter.induct) (auto split: if_splits)
  moreover assume "next_normalized s = NextThrow e s'"
  ultimately show ?thesis by simp
qed auto

lemma fill_loop_facts:
  "fill_loop monotonic ff stream = ((err, stream'), ds) \<Longrightarrow>
     ss_book_key stream' = ss_book_key stream \<and>
     stream_left (ss_stream stream') \<le> stream_left (ss_stream stream) \<and>
     (err = None \<longrightarrow> ss_exhausted stream' \<or> ss_has_buffered stream') \<and>
     (ss_has_buffered stream' \<and> \<not> ss_has_buffered stream \<longrightarrow>
        err = None \<and> stream_left (ss_stream stream') < stream_left (ss_stream stream) \<and>
        ss_has_last_ts stream' \<and> ss_last_ts stream' = ev_ts_received (ss_buffered stream') \<and>
        (monotonic \<and> ss_has_last_ts stream \<longrightarrow> ss_last_ts stream \<le> ss_last_ts stream')) \<and>
     stream_error err \<and>
     (\<forall>d \<in> set ds. dr_book_key d = ss_book_key stream) \<and> (ff \<and> err = None \<longrightarrow> ds = [])"
proof (induction monotonic ff stream arbitrary: err stream' ds rule: fill_loop.induct)
  case (1 monotonic ff stream)
  show ?case
  proof (cases "next_normalized (ss_stream stream)")
    case NextEnd
    with "1.prems" show ?thesis by (subst (asm) fill_loop.simps) auto
  next
    case (NextThrow e s)
    with "1.prems" next_left(2) [OF NextThrow] next_throws [OF NextThrow] show ?thesis by (subst (asm) fill_loop.simps) auto
  next
    case (NextEvent ev s)
    note left = next_left(1) [OF NextEvent]
    show ?thesis
    proof (cases "monotonic \<and> ss_has_last_ts stream \<and> ev_ts_received ev < ss_last_ts stream")
      case False
      with "1.prems" NextEvent left show ?thesis
        by (subst (asm) fill_loop.simps) (auto simp: buffer_event_def)
    next
      case bad: True
      show ?thesis
      proof (cases ff)
        case True
        with "1.prems" bad NextEvent left show ?thesis
          by (subst (asm) fill_loop.simps) (auto simp: stream_diag_def)
      next
        case False
        obtain err2 s2 ds2 where r: "fill_loop monotonic ff (stream\<lparr>ss_stream := s\<rparr>) = ((err2, s2), ds2)"
          by (metis prod.exhaust)
        with "1.prems" bad NextEvent False have e: "err = err2" "stream' = s2" "ds = stream_diag stream ev # ds2"
          by (subst (asm) fill_loop.simps, simp)+
        from "1.IH" [OF NextEvent bad False r] left bad False show ?thesis by (auto simp: e stream_diag_def)
      qed
    qed
  qed
qed

definition pending :: "MultiBook \<Rightarrow> nat" where
  \<comment> \<open>what bounds the number of steps\<close>
  "pending mb = length (heap mb) + 2 * sum_list (map (\<lambda>s. stream_left (ss_stream s)) (streams mb))"

lemma sum_list_update_less:
  fixes f :: "'a \<Rightarrow> nat"
  assumes "i < length xs"
  shows "sum_list (map f (xs[i := y])) + f (xs ! i) = sum_list (map f xs) + f y"
  using assms
proof (induction xs arbitrary: i)
  case (Cons x xs)
  then show ?case by (cases i) (simp_all add: add.commute add.left_commute)
qed simp

definition same_books_mb :: "MultiBook \<Rightarrow> MultiBook \<Rightarrow> bool" where
  "same_books_mb mb mb' \<longleftrightarrow> books mb' = books mb \<and> book_sinks mb' = book_sinks mb \<and>
     strategy_events mb' = strategy_events mb \<and> multi_sink mb' = multi_sink mb \<and>
     require_monotonic_ts_received mb' = require_monotonic_ts_received mb \<and> fail_fast mb' = fail_fast mb \<and>
     has_current_time mb' = has_current_time mb \<and> current_ts_received mb' = current_ts_received mb \<and>
     map ss_book_key (streams mb') = map ss_book_key (streams mb)"

lemma fill_buffer_keeps:
  assumes wf: "mb_wf mb" and i: "i < length (streams mb)" and f: "fill_buffer i mb = (err, mb')"
  shows "mb_wf mb' \<and> same_books_mb mb mb' \<and> pending mb' \<le> pending mb \<and>
    stream_error err \<and>
    (err = None \<longrightarrow> ss_exhausted (streams mb' ! i) \<or> ss_has_buffered (streams mb' ! i)) \<and>
    (\<forall>j. j \<noteq> i \<longrightarrow> streams mb' ! j = streams mb ! j)"
proof (cases "ss_exhausted (streams mb ! i) \<or> ss_has_buffered (streams mb ! i)")
  case True
  with wf f show ?thesis by (auto simp: fill_buffer_def same_books_mb_def)
next
  case False
  let ?s = "streams mb ! i"
  obtain e s' ds where l: "fill_loop (require_monotonic_ts_received mb) (fail_fast mb) ?s = ((e, s'), ds)"
    by (metis prod.exhaust)
  note facts = fill_loop_facts [OF l]
  define mb1 where "mb1 = mb\<lparr>streams := (streams mb)[i := s'],
     mcalls := (if multi_sink mb then mcalls mb @ map OnDiagnostic ds else mcalls mb)\<rparr>"
  define ent where "ent = \<lparr>he_ts_received = ev_ts_received (ss_buffered s'),
     he_ts_exchange = ev_ts_exchange (ss_buffered s'), he_stream_index = i, he_kind = Stream, he_strategy_index = 0\<rparr>"
  have f': "err = e" "mb' = (if e = None \<and> ss_has_buffered s' then mb1\<lparr>heap := pq_push heap_lower ent (heap mb1)\<rparr> else mb1)"
    using f False l by (auto simp: fill_buffer_def mb1_def ent_def Let_def split: if_splits)
  have q: "queue_ok (heap mb) (streams mb) (strategy_events mb)" using wf by (simp add: mb_wf_def)
  have keys: "map ss_book_key ((streams mb)[i := s']) = map ss_book_key (streams mb)"
    using facts i by (simp add: map_update list_update_same_conv)
  have sum: "sum_list (map (\<lambda>s. stream_left (ss_stream s)) ((streams mb)[i := s'])) + stream_left (ss_stream ?s) =
      sum_list (map (\<lambda>s. stream_left (ss_stream s)) (streams mb)) + stream_left (ss_stream s')"
    by (rule sum_list_update_less [OF i])
  have q': "queue_ok (heap mb') (streams mb') (strategy_events mb')"
  proof (cases "e = None \<and> ss_has_buffered s'")
    case True
    have "queue_ok (pq_push heap_lower ent (heap mb)) ((streams mb)[i := s']) (strategy_events mb)"
      by (rule queue_ok_buffer [OF q i]) (use False True in \<open>simp_all add: ent_def\<close>)
    with True show ?thesis by (simp add: f' mb1_def)
  next
    case no: False
    have "\<not> ss_has_buffered s'" using no facts False by auto
    with queue_ok_same [OF q] False no show ?thesis by (simp add: f' mb1_def)
  qed
  have same: "same_books_mb mb mb'" using keys by (simp add: same_books_mb_def f' mb1_def)
  have "mb_wf mb'"
  proof -
    have st: "streams mb' = (streams mb)[i := s']" by (simp add: f' mb1_def)
    have "set (map ss_book_key (streams mb')) = set (map ss_book_key (streams mb))" using keys st by metis
    then have "\<forall>s \<in> set (streams mb'). has_book_key (ss_book_key s) mb"
      using wf unfolding mb_wf_def by (metis (no_types, lifting) image_iff list.set_map)
    moreover have "books_ok mb'" using wf same by (auto simp: mb_wf_def same_books_mb_def books_ok_def)
    ultimately show ?thesis
      using wf q' same by (auto simp: mb_wf_def same_books_mb_def has_book_key_def)
  qed
  moreover have "pending mb' \<le> pending mb"
    using sum facts False by (auto simp: pending_def f' mb1_def)
  ultimately show ?thesis
    using facts i same by (auto simp: f' mb1_def)
qed

definition primed :: "MultiBook \<Rightarrow> bool" where
  \<comment> \<open>every stream shows its next event or is exhausted\<close>
  "primed mb \<longleftrightarrow> (\<forall>s \<in> set (streams mb). ss_has_buffered s \<or> ss_exhausted s)"

lemma same_books_mb_refl [simp]: "same_books_mb mb mb"
  by (simp add: same_books_mb_def)

lemma same_books_mb_trans: "same_books_mb mb mb' \<Longrightarrow> same_books_mb mb' mb'' \<Longrightarrow> same_books_mb mb mb''"
  by (simp add: same_books_mb_def)

lemma prime_from_keeps:
  assumes "mb_wf mb" "\<forall>i \<in> set is. i < length (streams mb)" "prime_from is mb = (err, mb')"
  shows "mb_wf mb' \<and> same_books_mb mb mb' \<and> pending mb' \<le> pending mb \<and>
    stream_error err \<and>
    (err = None \<longrightarrow> (\<forall>i. i \<in> set is \<or> ss_has_buffered (streams mb ! i) \<or> ss_exhausted (streams mb ! i) \<longrightarrow>
       ss_has_buffered (streams mb' ! i) \<or> ss_exhausted (streams mb' ! i)))"
  using assms
proof (induction "is" arbitrary: mb)
  case Nil
  then show ?case by simp
next
  case (Cons i "is")
  show ?case
  proof (cases "ss_has_buffered (streams mb ! i) \<or> ss_exhausted (streams mb ! i)")
    case True
    with Cons.prems Cons.IH [of mb] show ?thesis by auto
  next
    case False
    obtain e mb1 where f: "fill_buffer i mb = (e, mb1)" by fastforce
    have "i < length (streams mb)" using Cons.prems(2) by simp
    note fb = fill_buffer_keeps [OF Cons.prems(1) this f]
    have len: "length (streams mb1) = length (streams mb)"
      using fb by (auto simp: same_books_mb_def dest: map_eq_imp_length_eq)
    show ?thesis
    proof (cases e)
      case (Some x)
      with False Cons.prems(3) f fb show ?thesis by auto
    next
      case None
      with False Cons.prems(3) f have r: "prime_from is mb1 = (err, mb')" by simp
      have "\<forall>i \<in> set is. i < length (streams mb1)" using Cons.prems(2) len by simp
      with Cons.IH [of mb1] fb r
      have IH: "mb_wf mb' \<and> same_books_mb mb1 mb' \<and> pending mb' \<le> pending mb1 \<and>
        stream_error err \<and>
        (err = None \<longrightarrow> (\<forall>i. i \<in> set is \<or> ss_has_buffered (streams mb1 ! i) \<or> ss_exhausted (streams mb1 ! i) \<longrightarrow>
          ss_has_buffered (streams mb' ! i) \<or> ss_exhausted (streams mb' ! i)))" by blast
      have "j \<in> set (i # is) \<or> ss_has_buffered (streams mb ! j) \<or> ss_exhausted (streams mb ! j) \<Longrightarrow>
          j \<in> set is \<or> ss_has_buffered (streams mb1 ! j) \<or> ss_exhausted (streams mb1 ! j)" for j
        using fb None by (cases "j = i") auto
      with IH fb show ?thesis by (auto intro: same_books_mb_trans)
    qed
  qed
qed

lemma prime_streams_keeps:
  assumes "mb_wf mb" "prime_streams mb = (err, mb')"
  shows "mb_wf mb' \<and> same_books_mb mb mb' \<and> pending mb' \<le> pending mb \<and> (err = None \<longrightarrow> primed mb') \<and>
    stream_error err"
proof -
  have p: "prime_from [0..<length (streams mb)] mb = (err, mb')" using assms(2) by (simp add: prime_streams_def)
  note k = prime_from_keeps [OF assms(1) _ p]
  have "length (streams mb') = length (streams mb)"
    using k by (auto simp: same_books_mb_def dest: map_eq_imp_length_eq)
  with k show ?thesis by (auto simp: primed_def in_set_conv_nth)
qed

lemma primed_idle: "primed mb \<Longrightarrow> prime_streams mb = (None, mb)"
proof -
  assume p: "primed mb"
  have "prime_from is mb = (None, mb)" if "\<forall>i \<in> set is. i < length (streams mb)" for "is"
    using that p by (induction "is") (auto simp: primed_def)
  then show ?thesis by (simp add: prime_streams_def)
qed

section \<open>One step\<close>

definition next_event :: "MultiBook \<Rightarrow> string \<times> NormalizedLobEvent" where
  \<comment> \<open>the book and the event of the top entry\<close>
  "next_event mb =
     (let e = hd (heap mb) in
      if he_kind e = Strategy
      then (ev_symbol_id (si_ev (strategy_events mb ! he_strategy_index e)), si_ev (strategy_events mb ! he_strategy_index e))
      else (ss_book_key (streams mb ! he_stream_index e), ss_buffered (streams mb ! he_stream_index e)))"

definition pop_entry :: "MultiBook \<Rightarrow> MultiBook" where
  "pop_entry mb =
     (let e = hd (heap mb); mb1 = mb\<lparr>heap := tl (heap mb)\<rparr> in
      if he_kind e = Strategy then mb1
      else mb1\<lparr>streams := (streams mb1)[he_stream_index e := (streams mb1 ! he_stream_index e)\<lparr>ss_has_buffered := False\<rparr>]\<rparr>)"

definition finish_step :: "HeapEntry \<Rightarrow> MultiBookError option \<times> MultiBook \<Rightarrow> (MultiBookError + bool) \<times> MultiBook" where
  "finish_step e r =
     (case r of
        (Some err, mb) \<Rightarrow> (Inl err, mb)
      | (None, mb) \<Rightarrow>
          if he_kind e = Strategy then (Inr True, mb)
          else case fill_buffer (he_stream_index e) mb of
            (Some err, mb') \<Rightarrow> (Inl err, mb')
          | (None, mb') \<Rightarrow> (Inr True, mb'))"

lemma kind_cases: "he_kind e \<noteq> Strategy \<longleftrightarrow> he_kind e = Stream"
  by (cases "he_kind e") auto

lemma next_matches:
  assumes "mb_wf mb" "heap mb \<noteq> []"
  shows "entry_matches (streams mb) (strategy_events mb) (hd (heap mb))"
    and "ev_ts_received (snd (next_event mb)) = he_ts_received (hd (heap mb))"
    and "ev_ts_exchange (snd (next_event mb)) = he_ts_exchange (hd (heap mb))"
    and "has_book_key (fst (next_event mb)) mb"
proof -
  have q: "queue_ok (hd (heap mb) # tl (heap mb)) (streams mb) (strategy_events mb)"
    using assms by (simp add: mb_wf_def)
  show m: "entry_matches (streams mb) (strategy_events mb) (hd (heap mb))" by (rule queue_ok_pop(1) [OF q])
  then show "ev_ts_received (snd (next_event mb)) = he_ts_received (hd (heap mb))"
    "ev_ts_exchange (snd (next_event mb)) = he_ts_exchange (hd (heap mb))"
    by (simp_all add: next_event_def Let_def entry_matches_def split: EntryKind.splits)
  show "has_book_key (fst (next_event mb)) mb"
    using m assms(1) by (auto simp: next_event_def Let_def entry_matches_def mb_wf_def split: EntryKind.splits)
qed

text \<open>In a well-formed state the checks for a stale entry always pass.\<close>

lemma step_shape:
  assumes wf: "mb_wf mb0" and p: "prime_streams mb0 = (None, mb)" and ne: "heap mb \<noteq> []"
  shows "step mb0 = finish_step (hd (heap mb)) (apply_to_book (fst (next_event mb)) (snd (next_event mb)) (pop_entry mb))"
proof -
  have "mb_wf mb" using prime_streams_keeps [OF wf p] by blast
  note m = next_matches(1) [OF this ne]
  show ?thesis
  proof (cases "he_kind (hd (heap mb))")
    case Stream
    with m p ne show ?thesis
      by (auto simp: step_def finish_step_def next_event_def pop_entry_def entry_matches_def Let_def
          split: prod.splits option.splits)
  next
    case Strategy
    with m p ne show ?thesis
      by (auto simp: step_def finish_step_def next_event_def pop_entry_def entry_matches_def Let_def
          split: prod.splits option.splits)
  qed
qed

lemma pop_entry_wf:
  assumes wf: "mb_wf mb" and ne: "heap mb \<noteq> []"
  shows "mb_wf (pop_entry mb)" and "same_books_mb mb (pop_entry mb)" and "Suc (pending (pop_entry mb)) = pending mb"
    and "mcalls (pop_entry mb) = mcalls mb" and "heap (pop_entry mb) = tl (heap mb)"
    and "primed mb \<Longrightarrow> j < length (streams mb) \<Longrightarrow> \<not> (he_kind (hd (heap mb)) = Stream \<and> j = he_stream_index (hd (heap mb))) \<Longrightarrow>
      ss_has_buffered (streams (pop_entry mb) ! j) \<or> ss_exhausted (streams (pop_entry mb) ! j)"
proof -
  let ?e = "hd (heap mb)"
  let ?s = "(streams mb ! he_stream_index ?e)\<lparr>ss_has_buffered := False\<rparr>"
  have q: "queue_ok (?e # tl (heap mb)) (streams mb) (strategy_events mb)" using wf ne by (simp add: mb_wf_def)
  note pop = queue_ok_pop [OF q]
  have q': "queue_ok (heap (pop_entry mb)) (streams (pop_entry mb)) (strategy_events (pop_entry mb))"
    using pop(3) pop(4) [of ?s] by (cases "he_kind ?e") (simp_all add: pop_entry_def Let_def)
  have keys: "map ss_book_key (streams (pop_entry mb)) = map ss_book_key (streams mb)"
    using pop(1) by (cases "he_kind ?e")
      (simp_all add: pop_entry_def Let_def map_update list_update_same_conv entry_matches_def)
  show same: "same_books_mb mb (pop_entry mb)"
    using keys by (simp add: same_books_mb_def) (simp add: pop_entry_def Let_def)
  have "set (map ss_book_key (streams (pop_entry mb))) = set (map ss_book_key (streams mb))" using keys by metis
  then have "\<forall>s \<in> set (streams (pop_entry mb)). has_book_key (ss_book_key s) mb"
    using wf unfolding mb_wf_def by (metis (no_types, lifting) image_iff list.set_map)
  then show "mb_wf (pop_entry mb)"
    using wf q' same by (auto simp: mb_wf_def same_books_mb_def books_ok_def has_book_key_def)
  have "map (\<lambda>s. stream_left (ss_stream s)) (streams (pop_entry mb)) = map (\<lambda>s. stream_left (ss_stream s)) (streams mb)"
    using pop(1) by (cases "he_kind ?e")
      (simp_all add: pop_entry_def Let_def map_update list_update_same_conv entry_matches_def)
  with ne show "Suc (pending (pop_entry mb)) = pending mb"
    by (cases "heap mb") (simp_all add: pending_def pop_entry_def Let_def)
  show "mcalls (pop_entry mb) = mcalls mb" "heap (pop_entry mb) = tl (heap mb)"
    by (simp_all add: pop_entry_def Let_def)
  show "ss_has_buffered (streams (pop_entry mb) ! j) \<or> ss_exhausted (streams (pop_entry mb) ! j)"
    if "primed mb" "j < length (streams mb)" "\<not> (he_kind ?e = Stream \<and> j = he_stream_index ?e)"
    using that by (cases "he_kind ?e") (auto simp: pop_entry_def Let_def primed_def)
qed

lemma same_queue_pending: "same_queue mb mb' \<Longrightarrow> pending mb' = pending mb"
  by (simp add: same_queue_def pending_def)

definition time_ok :: "MultiBook \<Rightarrow> MultiBook \<Rightarrow> bool" where
  \<comment> \<open>the clock, once running, does not go back\<close>
  "time_ok mb mb' \<longleftrightarrow> require_monotonic_ts_received mb' = require_monotonic_ts_received mb \<and>
     (require_monotonic_ts_received mb \<longrightarrow> has_current_time mb \<longrightarrow>
        has_current_time mb' \<and> current_ts_received mb \<le> current_ts_received mb')"

lemma time_ok_trans: "time_ok mb mb' \<Longrightarrow> time_ok mb' mb'' \<Longrightarrow> time_ok mb mb''"
  by (auto simp: time_ok_def)

lemma time_ok_refl [simp]: "time_ok mb mb"
  by (simp add: time_ok_def)

lemma finish_step_facts:
  assumes wf: "mb_wf mb" and ne: "heap mb \<noteq> []" and pr: "primed mb"
    and f: "finish_step (hd (heap mb)) (apply_to_book (fst (next_event mb)) (snd (next_event mb)) (pop_entry mb)) = (res, mb')"
  shows "mb_wf mb' \<and> time_ok mb mb' \<and> pending mb' < pending mb \<and> res \<noteq> Inr False \<and>
    (res = Inr True \<longrightarrow> primed mb') \<and> (\<forall>err. res = Inl err \<longrightarrow> err \<noteq> InvalidStrategyEntry \<and> err \<noteq> NoBufferedEvent) \<and>
    (\<forall>k. k \<noteq> fst (next_event mb) \<longrightarrow> hm_find (books mb') k = hm_find (books mb) k)"
proof -
  let ?e = "hd (heap mb)" and ?key = "fst (next_event mb)" and ?p = "pop_entry mb"
  note pop = pop_entry_wf [OF wf ne]
  obtain err mb3 where a: "apply_to_book ?key (snd (next_event mb)) ?p = (err, mb3)" by fastforce
  have "books_ok ?p" using pop(1) by (simp add: mb_wf_def)
  note ap = apply_to_book_keeps [OF this a]
  have wf3: "mb_wf mb3" using mb_wf_same [OF pop(1)] ap by blast
  have pend: "pending mb3 < pending mb" using same_queue_pending [of ?p mb3] ap pop(3) by simp
  have pp: "books ?p = books mb" "has_current_time ?p = has_current_time mb" "current_ts_received ?p = current_ts_received mb"
    "require_monotonic_ts_received ?p = require_monotonic_ts_received mb"
    using pop(2) by (simp_all add: same_books_mb_def)
  have t3: "time_ok mb mb3" using ap pp by (auto simp: time_ok_def same_queue_def)
  have others: "\<forall>k. k \<noteq> ?key \<longrightarrow> hm_find (books mb3) k = hm_find (books mb) k" using ap pp by simp
  have st3: "streams mb3 = streams ?p" using ap by (simp add: same_queue_def)
  have len: "length (streams ?p) = length (streams mb)"
    using pop(2) by (auto simp: same_books_mb_def dest: map_eq_imp_length_eq)
  show ?thesis
  proof (cases err)
    case (Some x)
    with f a ap wf3 pend t3 others show ?thesis by (auto simp: finish_step_def)
  next
    case None
    show ?thesis
    proof (cases "he_kind ?e")
      case Strategy
      have "\<forall>j < length (streams ?p). ss_has_buffered (streams ?p ! j) \<or> ss_exhausted (streams ?p ! j)"
        using pop(6) [OF pr] Strategy len by simp
      then have "primed mb3" by (simp add: primed_def st3 all_set_conv_all_nth)
      with Strategy None f a wf3 pend t3 others show ?thesis by (auto simp: finish_step_def)
    next
      case Stream
      have i: "he_stream_index ?e < length (streams mb3)"
        using next_matches(1) [OF wf ne] Stream len by (simp add: entry_matches_def st3)
      obtain err4 mb4 where fb: "fill_buffer (he_stream_index ?e) mb3 = (err4, mb4)" by fastforce
      note k = fill_buffer_keeps [OF wf3 i fb]
      have len4: "length (streams mb4) = length (streams mb)"
        using k len by (auto simp: same_books_mb_def st3 dest: map_eq_imp_length_eq)
      have "primed mb4" if "err4 = None"
      proof -
        have "ss_has_buffered (streams mb4 ! j) \<or> ss_exhausted (streams mb4 ! j)" if "j < length (streams mb)" for j
          using k \<open>err4 = None\<close> pop(6) [OF pr that] st3 by (cases "j = he_stream_index ?e") auto
        then show ?thesis by (simp add: primed_def all_set_conv_all_nth len4)
      qed
      moreover have "time_ok mb mb4" using t3 k by (auto simp: time_ok_def same_books_mb_def)
      moreover have "\<forall>k. k \<noteq> ?key \<longrightarrow> hm_find (books mb4) k = hm_find (books mb) k"
        using others k by (simp add: same_books_mb_def)
      ultimately show ?thesis
        using Stream None f a fb k pend by (auto simp: finish_step_def split: option.splits)
    qed
  qed
qed

lemma step_facts:
  assumes wf: "mb_wf mb" and s: "step mb = (res, mb')"
  shows "mb_wf mb' \<and> time_ok mb mb' \<and> (res = Inr True \<longrightarrow> pending mb' < pending mb \<and> primed mb') \<and>
    (res = Inr False \<longrightarrow> heap mb' = [] \<and> primed mb') \<and>
    (\<forall>err. res = Inl err \<longrightarrow> err \<noteq> InvalidStrategyEntry \<and> err \<noteq> NoBufferedEvent)"
proof -
  obtain err mb1 where p: "prime_streams mb = (err, mb1)" by fastforce
  note k = prime_streams_keeps [OF wf p]
  have t1: "time_ok mb mb1" using k by (simp add: time_ok_def same_books_mb_def)
  show ?thesis
  proof (cases err)
    case (Some x)
    with s p k t1 show ?thesis by (auto simp: step_def)
  next
    case None
    show ?thesis
    proof (cases "heap mb1 = []")
      case True
      with s p k t1 None show ?thesis by (auto simp: step_def)
    next
      case False
      have wf1: "mb_wf mb1" "primed mb1" using k None by simp_all
      have "finish_step (hd (heap mb1)) (apply_to_book (fst (next_event mb1)) (snd (next_event mb1)) (pop_entry mb1)) = (res, mb')"
        using step_shape [OF wf p [unfolded None] False] s by simp
      from finish_step_facts [OF wf1(1) False wf1(2) this] k t1 show ?thesis
        by (auto simp: time_ok_def same_books_mb_def)
    qed
  qed
qed

end
