(* ===== verification/MultiBookRun.thy ===== *)
theory MultiBookRun
  imports MultiBookFacts CallFrame SnapshotFacts
begin

text \<open>
  The operations that manage books, sinks, streams and strategy events keep the invariant; the
  states reachable by the operations; the loop of \<open>step_until\<close> returns.
\<close>

section \<open>Books and sinks\<close>

lemma books_ok_put:
  assumes "books_ok mb" "hm_find (books mb) key = Some e" "be_key e' = be_key e" "be_id e' = be_id e"
    and "sim_wf (be_engine e')" "hm_wf bs"
  shows "books_ok (mb\<lparr>books := hm_put key e' (books mb), book_sinks := bs\<rparr>)"
  using assms by (auto simp: books_ok_def)

lemma same_queue_put:
  "hm_find (books mb) key = Some e \<Longrightarrow>
     same_queue mb (mb\<lparr>books := hm_put key e' (books mb), book_sinks := bs\<rparr>)"
  by (auto simp: same_queue_def has_book_key_def hm_contains_def)

lemma attach_book_sink_keeps:
  assumes "books_ok mb" shows "books_ok (attach_book_sink key mb) \<and> same_queue mb (attach_book_sink key mb)"
proof (cases "multi_sink mb \<and> hm_find (books mb) key \<noteq> None")
  case True
  then obtain e where e: "hm_find (books mb) key = Some e" by blast
  then have "sim_wf (be_engine e)" "hm_wf (book_sinks mb)" using assms by (auto simp: books_ok_def)
  with True e assms show ?thesis
    by (simp add: attach_book_sink_def books_ok_put [OF assms e] same_queue_put [OF e])
next
  case False
  with assms show ?thesis by (auto simp: attach_book_sink_def)
qed

lemma fold_attach_keeps:
  "books_ok mb \<Longrightarrow> books_ok (fold attach_book_sink ks mb) \<and> same_queue mb (fold attach_book_sink ks mb)"
proof (induction ks arbitrary: mb)
  case (Cons k ks)
  from attach_book_sink_keeps [OF Cons.prems, of k] Cons.IH show ?case by (auto intro: same_queue_trans)
qed simp

lemma hm_find_map_values: "hm_find (map (\<lambda>(k, v). (k, f k v)) m) k = map_option (f k) (hm_find m k)"
  by (induction m) (auto simp: hm_find_def)

lemma hm_wf_map_values: "hm_wf (map (\<lambda>(k, v). (k, f k v)) m) = hm_wf m"
  by (simp add: hm_wf_def comp_def case_prod_beta)

lemma detach_book_sinks_keeps:
  assumes "books_ok mb" shows "books_ok (detach_book_sinks mb) \<and> same_queue mb (detach_book_sinks mb)"
  using assms
  by (auto simp: detach_book_sinks_def books_ok_def same_queue_def has_book_key_def hm_contains_def
      hm_find_map_values hm_wf_map_values)

lemma set_multi_log_sink_keeps:
  assumes "mb_wf mb" shows "mb_wf (set_multi_log_sink snk mb)"
proof -
  let ?mb1 = "(detach_book_sinks mb)\<lparr>multi_sink := snk, book_sinks := hm_empty\<rparr>"
  have "books_ok mb" using assms by (simp add: mb_wf_def)
  then have 1: "books_ok ?mb1" "same_queue mb ?mb1"
    using detach_book_sinks_keeps [of mb] by (auto simp: books_ok_def same_queue_def has_book_key_def)
  from fold_attach_keeps [OF 1(1)] 1(2) show ?thesis
    unfolding set_multi_log_sink_def Let_def by (blast intro: mb_wf_same [OF assms] same_queue_trans)
qed

lemma mb_set_log_sink_keeps:
  assumes "mb_wf mb" shows "mb_wf (mb_set_log_sink i snk mb)"
proof -
  have ok: "books_ok mb" using assms by (simp add: mb_wf_def)
  show ?thesis
  proof (cases "hm_find (books mb) (book_key i)")
    case None
    with ok show ?thesis
      by (intro mb_wf_same [OF assms]) (simp_all add: mb_set_log_sink_def books_ok_def)
  next
    case (Some e)
    then have "sim_wf (be_engine e)" "hm_wf (book_sinks mb)" using ok by (auto simp: books_ok_def)
    with Some show ?thesis
      by (intro mb_wf_same [OF assms])
        (simp_all add: mb_set_log_sink_def books_ok_put [OF ok Some] same_queue_put [OF Some])
  qed
qed

lemma add_book_keeps:
  assumes wf: "mb_wf mb" and e: "sim_wf engine" and r: "add_book i engine mb = (b, mb')"
  shows "mb_wf mb' \<and> has_book_key (book_key i) mb' \<and> heap mb' = heap mb \<and> streams mb' = streams mb \<and>
    (\<forall>k. has_book_key k mb \<longrightarrow> has_book_key k mb')"
proof (cases "hm_contains (books mb) (book_key i)")
  case True
  with r wf show ?thesis by (simp add: add_book_def has_book_key_def)
next
  case False
  let ?mb1 = "mb\<lparr>books := hm_emplace (book_key i) \<lparr>be_id = i, be_key = book_key i, be_engine = engine\<rparr> (books mb)\<rparr>"
  have mb': "mb' = attach_book_sink (book_key i) ?mb1" using r False by (simp add: add_book_def Let_def)
  have none: "hm_find (books mb) (book_key i) = None" using False by (simp add: hm_contains_def)
  have ok: "books_ok ?mb1" using wf e none by (auto simp: mb_wf_def books_ok_def)
  have keys: "has_book_key k ?mb1 \<longleftrightarrow> k = book_key i \<or> has_book_key k mb" for k
    using none by (auto simp: has_book_key_def hm_contains_def)
  have "mb_wf ?mb1" using wf ok keys by (auto simp: mb_wf_def)
  with attach_book_sink_keeps [OF ok, of "book_key i"] keys mb' show ?thesis
    using mb_wf_same by (auto simp: same_queue_def)
qed

section \<open>Streams and strategy events\<close>

lemma add_stream_keeps:
  assumes wf: "mb_wf mb" and r: "add_stream i s mb = (err, mb')"
  shows "mb_wf mb'"
proof (cases "has_stream_for_book_key (book_key i) mb")
  case True
  with r wf show ?thesis
    by (intro mb_wf_same [OF wf]) (auto simp: add_stream_def mb_wf_def books_ok_def)
next
  case False
  define mb1 where "mb1 = (if \<not> has_book_key (book_key i) mb then snd (add_default_book i mb) else mb)"
  obtain b mb2 where a: "add_default_book i mb = (b, mb2)" by fastforce
  from add_book_keeps [OF wf sim_wf_init a [unfolded add_default_book_def]] a wf
  have 1: "mb_wf mb1" "has_book_key (book_key i) mb1" "streams mb1 = streams mb" by (auto simp: mb1_def)
  have new: "book_key i \<notin> set (map ss_book_key (streams mb1))"
    using False by (auto simp: 1(3) has_stream_for_book_key_def list_ex_iff)
  have mb': "mb' = mb1\<lparr>streams := streams mb1 @ [\<lparr>ss_book_key = book_key i, ss_stream = s, ss_exhausted = False,
      ss_has_buffered = False, ss_buffered = default_event, ss_has_last_ts = False, ss_last_ts = 0, ss_seq = 0\<rparr>]\<rparr>"
    using r False by (auto simp: add_stream_def mb1_def Let_def split: if_splits)
  have "queue_ok (heap mb') (streams mb') (strategy_events mb')"
    using 1(1) queue_ok_new_stream by (simp add: mb' mb_wf_def)
  with 1 new show ?thesis
    by (auto simp: mb_wf_def mb' books_ok_def has_book_key_def)
qed

definition submitted :: "BookId \<Rightarrow> NormalizedLobEvent \<Rightarrow> int option \<Rightarrow> MultiBook \<Rightarrow> NormalizedLobEvent" where
  \<comment> \<open>the event that \<open>submit_strategy_event\<close> queues\<close>
  "submitted i ev latency mb =
     (let ev2 = (tag_event (book_key i) ev)\<lparr>ev_update_source := STRATEGY\<rparr>;
          base = (if has_current_time mb then current_ts_received mb else 0);
          ev3 = (if ev_ts_received ev2 = 0
                 then ev2\<lparr>ev_ts_received := base + (case latency of None \<Rightarrow> 1 | Some d \<Rightarrow> d)\<rparr>
                 else case latency of None \<Rightarrow> ev2 | Some d \<Rightarrow> ev2\<lparr>ev_ts_received := ev_ts_received ev2 + d\<rparr>)
      in if ev_ts_exchange ev3 = 0 then ev3\<lparr>ev_ts_exchange := int64_max\<rparr> else ev3)"

lemma submitted_simps [simp]:
  "ev_symbol_id (submitted i ev latency mb) = book_key i"
  "ev_update_source (submitted i ev latency mb) = STRATEGY"
  by (simp_all add: submitted_def Let_def split: option.splits)

definition time_travel :: "NormalizedLobEvent \<Rightarrow> MultiBook \<Rightarrow> bool" where
  "time_travel ev mb \<longleftrightarrow>
     require_monotonic_ts_received mb \<and> has_current_time mb \<and> ev_ts_received ev < current_ts_received mb"

definition strategy_entry :: "NormalizedLobEvent \<Rightarrow> nat \<Rightarrow> HeapEntry" where
  "strategy_entry ev idx = \<lparr>he_ts_received = ev_ts_received ev, he_ts_exchange = ev_ts_exchange ev,
     he_stream_index = 0, he_kind = Strategy, he_strategy_index = idx\<rparr>"

lemma submit_accepted:
  assumes "has_book_key (book_key i) mb" "\<not> time_travel (submitted i ev latency mb) mb"
  shows "submit_strategy_event i ev latency mb =
    (None, mb\<lparr>strategy_events := strategy_events mb @
         [\<lparr>si_ev = submitted i ev latency mb, si_insertion_seq = strategy_seq_counter mb + 1\<rparr>],
       strategy_seq_counter := strategy_seq_counter mb + 1,
       heap := pq_push heap_lower
         (strategy_entry (submitted i ev latency mb) (length (strategy_events mb))) (heap mb)\<rparr>)"
  using assms
  by (cases latency; cases "ev_ts_received ev = 0"; cases "ev_ts_exchange ev = 0")
    (auto simp: submit_strategy_event_def submitted_def time_travel_def strategy_entry_def Let_def)

lemma submit_unknown:
  "\<not> has_book_key (book_key i) mb \<Longrightarrow> submit_strategy_event i ev latency mb =
     (if fail_fast mb then Some StrategyUnknownBook else None,
      mb_emit_diagnostic (book_key i) SUBMIT_STRATEGY_EVENT_FOR_UNKNOWN_BOOK ERROR 0
        (ev_ts_received ev) (ev_ts_exchange ev) mb)"
  by (simp add: submit_strategy_event_def Let_def)

lemma submit_late:
  assumes "has_book_key (book_key i) mb" "time_travel (submitted i ev latency mb) mb"
  shows "submit_strategy_event i ev latency mb =
     (if fail_fast mb then Some StrategyTimeTravel else None,
      mb_emit_diagnostic (book_key i) STRATEGY_EVENT_TIME_TRAVEL ERROR 0
        (ev_ts_received (submitted i ev latency mb)) (ev_ts_exchange ev) mb)"
proof -
  from assms(2) have "require_monotonic_ts_received mb" "has_current_time mb"
    "ev_ts_received (submitted i ev latency mb) < current_ts_received mb" by (simp_all add: time_travel_def)
  with assms(1) show ?thesis
    by (cases latency; cases "ev_ts_received ev = 0"; cases "ev_ts_exchange ev = 0")
      (simp_all add: submit_strategy_event_def submitted_def Let_def)
qed

lemma submit_keeps:
  assumes wf: "mb_wf mb" shows "mb_wf (snd (submit_strategy_event i ev latency mb))"
proof -
  consider "\<not> has_book_key (book_key i) mb"
    | "has_book_key (book_key i) mb" "time_travel (submitted i ev latency mb) mb"
    | "has_book_key (book_key i) mb" "\<not> time_travel (submitted i ev latency mb) mb" by blast
  then show ?thesis
  proof cases
    case 1
    with wf show ?thesis by (simp add: submit_unknown)
  next
    case 2
    with wf show ?thesis by (simp add: submit_late)
  next
    case 3
    let ?ev = "submitted i ev latency mb"
    let ?x = "\<lparr>si_ev = ?ev, si_insertion_seq = strategy_seq_counter mb + 1\<rparr>"
    have "queue_ok (pq_push heap_lower (strategy_entry ?ev (length (strategy_events mb))) (heap mb))
        (streams mb) (strategy_events mb @ [?x])"
      by (rule queue_ok_strategy) (use wf in \<open>simp_all add: mb_wf_def strategy_entry_def\<close>)
    with 3 wf show ?thesis
      by (simp add: submit_accepted mb_wf_def books_ok_def has_book_key_def)
  qed
qed

lemma mb_wf_books: "mb_wf mb \<Longrightarrow> books_ok mb"
  by (simp add: mb_wf_def)

lemma mb_apply_keeps: "mb_wf mb \<Longrightarrow> mb_apply i ev mb = (err, mb') \<Longrightarrow> mb_wf mb'"
  unfolding mb_apply_def using apply_to_book_keeps [OF mb_wf_books] mb_wf_same by blast

lemma mb_query_keeps:
  assumes wf: "mb_wf mb"
  shows "mb_wf (snd (mb_depth_at i s px mb))" "mb_wf (snd (mb_l2_top_n i s n mb))"
    "mb_wf (snd (mb_get_best_price_ticks i s mb))"
proof -
  have ok: "books_ok mb" using wf by (simp add: mb_wf_def)
  from wf show "mb_wf (snd (mb_depth_at i s px mb))" "mb_wf (snd (mb_l2_top_n i s n mb))"
    by (simp_all add: mb_depth_at_def mb_l2_top_n_def split: option.splits)
  let ?f = "\<lambda>st. (snd (get_best_price_ticks s st), fst (get_best_price_ticks s st))"
  obtain r mb' where run: "run_engine (book_key i) ?f mb = (r, mb')" by fastforce
  have pres: "sim_wf st'" if "sim_wf st" "?f st = (st', b)" for st st' :: Sim and b
    using that clean_heap [of st s]
    by (auto simp: get_best_price_ticks_def Let_def split: prod.splits)
  have "books_ok mb' \<and> same_queue mb mb'" using run_engine_keeps [OF ok run] pres by blast
  then have "mb_wf mb'" using mb_wf_same [OF wf] by blast
  moreover have "mb' = mb" if "r = None" using run that by (auto simp: run_engine_def Let_def split: option.splits prod.splits)
  ultimately show "mb_wf (snd (mb_get_best_price_ticks i s mb))"
    using run wf by (cases r) (auto simp: mb_get_best_price_ticks_def)
qed

lemma mb_init_keeps:
  assumes wf: "mb_wf mb" and q: "\<forall>q \<in> set quantities. 0 < q"
  shows "mb_wf (snd (mb_init_from_l2_snapshot i sides prices quantities mb))"
    and "mb_wf (snd (mb_init_from_l3_snapshot i sides prices quantities order_ids trader_ids mb))"
proof -
  have run: "mb_wf (snd (run_engine (book_key i) f mb)) \<and>
      (fst (run_engine (book_key i) f mb) = None \<longrightarrow> snd (run_engine (book_key i) f mb) = mb)"
    if f: "\<And>st. sim_wf st \<Longrightarrow> sim_wf (fst (f st))" for f :: "Sim \<Rightarrow> Sim \<times> SnapshotError option"
  proof -
    obtain r mb' where r: "run_engine (book_key i) f mb = (r, mb')" by fastforce
    have "books_ok mb' \<and> same_queue mb mb'"
      using run_engine_keeps [OF mb_wf_books [OF wf] r] f by (metis fst_conv)
    moreover have "r = None \<longrightarrow> mb' = mb"
      using r by (auto simp: run_engine_def Let_def split: option.splits prod.splits)
    ultimately show ?thesis using mb_wf_same [OF wf] r by auto
  qed
  have l2: "sim_wf (fst (init_from_l2_snapshot sides prices quantities st))" if "sim_wf st" for st
    using init_l2_wf [OF that q] .
  have l3: "sim_wf (fst (init_from_l3_snapshot sides prices quantities order_ids trader_ids st))" if "sim_wf st" for st
    using init_l3_wf [OF that q] .
  from run [of "init_from_l2_snapshot sides prices quantities", OF l2] show "mb_wf (snd (mb_init_from_l2_snapshot i sides prices quantities mb))"
    by (auto simp: mb_init_from_l2_snapshot_def split: prod.splits option.splits)
  from run [of "init_from_l3_snapshot sides prices quantities order_ids trader_ids", OF l3] show "mb_wf (snd (mb_init_from_l3_snapshot i sides prices quantities order_ids trader_ids mb))"
    by (auto simp: mb_init_from_l3_snapshot_def split: prod.splits option.splits)
qed

section \<open>The loop\<close>

lemma step_loop_returns:
  "mb_wf mb \<Longrightarrow> \<exists>r mb'. step_loop limit applied mb = Some (r, mb') \<and> mb_wf mb' \<and> time_ok mb mb' \<and>
     (\<forall>n. r = Inr n \<longrightarrow> heap mb' = [] \<or> limit < he_ts_received (hd (heap mb')))"
proof (induction "pending mb" arbitrary: mb applied rule: less_induct)
  case less
  show ?case
  proof (cases "heap mb = [] \<or> he_ts_received (hd (heap mb)) > limit")
    case True
    with less.prems show ?thesis by (subst step_loop.simps) (auto simp: time_ok_def)
  next
    case False
    obtain res mb1 where s: "step mb = (res, mb1)" by fastforce
    note f = step_facts [OF less.prems s]
    show ?thesis
    proof (cases res)
      case (Inl err)
      with False s f show ?thesis by (subst step_loop.simps) auto
    next
      case (Inr b)
      show ?thesis
      proof (cases b)
        case False
        with \<open>\<not> (heap mb = [] \<or> _)\<close> s f Inr show ?thesis by (subst step_loop.simps) auto
      next
        case b: True
        have "pending mb1 < pending mb" "mb_wf mb1" using f Inr b by auto
        from less.hyps [OF this, of "applied + 1"] obtain r mb' where
          l: "step_loop limit (applied + 1) mb1 = Some (r, mb')" and "mb_wf mb'" "time_ok mb1 mb'"
          and e: "\<forall>n. r = Inr n \<longrightarrow> heap mb' = [] \<or> limit < he_ts_received (hd (heap mb'))" by blast
        moreover have "time_ok mb mb'" using f \<open>time_ok mb1 mb'\<close> time_ok_trans by blast
        ultimately show ?thesis using False s Inr b by (subst step_loop.simps) auto
      qed
    qed
  qed
qed

lemma step_until_returns_wf:
  assumes wf: "mb_wf mb"
  shows "\<exists>r mb'. step_until limit mb = Some (r, mb') \<and> mb_wf mb' \<and> time_ok mb mb' \<and>
    (\<forall>n. r = Inr n \<longrightarrow> heap mb' = [] \<or> limit < he_ts_received (hd (heap mb')))"
proof -
  obtain err mb1 where p: "prime_streams mb = (err, mb1)" by fastforce
  note k = prime_streams_keeps [OF wf p]
  then have t: "time_ok mb mb1" by (simp add: time_ok_def same_books_mb_def)
  show ?thesis
  proof (cases err)
    case None
    from k step_loop_returns [of mb1 limit 0] obtain r mb' where
      "step_loop limit 0 mb1 = Some (r, mb')" "mb_wf mb'" "time_ok mb1 mb'"
      "\<forall>n. r = Inr n \<longrightarrow> heap mb' = [] \<or> limit < he_ts_received (hd (heap mb'))" by blast
    with p None t time_ok_trans show ?thesis by (fastforce simp: step_until_def)
  qed (use p k t in \<open>simp add: step_until_def\<close>)
qed

section \<open>Reachable states\<close>

text \<open>
  The states a caller can produce: every public operation, in any order, errors included, from the
  empty simulator. The snapshots are those with lots on every row.
\<close>

inductive multibook_reachable :: "bool \<Rightarrow> bool \<Rightarrow> MultiBook \<Rightarrow> bool" for monotonic ff where
  start: "multibook_reachable monotonic ff (multibook_init monotonic ff)"
| book: "multibook_reachable monotonic ff mb \<Longrightarrow>
    multibook_reachable monotonic ff (snd (add_book i (sim_init hcap pcap) mb))"
| l2: "multibook_reachable monotonic ff mb \<Longrightarrow> \<forall>q \<in> set quantities. 0 < q \<Longrightarrow>
    multibook_reachable monotonic ff (snd (mb_init_from_l2_snapshot i sides prices quantities mb))"
| l3: "multibook_reachable monotonic ff mb \<Longrightarrow> \<forall>q \<in> set quantities. 0 < q \<Longrightarrow>
    multibook_reachable monotonic ff (snd (mb_init_from_l3_snapshot i sides prices quantities order_ids trader_ids mb))"
| log_sink: "multibook_reachable monotonic ff mb \<Longrightarrow> multibook_reachable monotonic ff (mb_set_log_sink i snk mb)"
| multi_log_sink: "multibook_reachable monotonic ff mb \<Longrightarrow> multibook_reachable monotonic ff (set_multi_log_sink snk mb)"
| adapter: "multibook_reachable monotonic ff mb \<Longrightarrow>
    multibook_reachable monotonic ff (snd (add_adapter_stream i items mb))"
| normalized: "multibook_reachable monotonic ff mb \<Longrightarrow>
    multibook_reachable monotonic ff (snd (add_normalized_stream i events mb))"
| event: "multibook_reachable monotonic ff mb \<Longrightarrow> multibook_reachable monotonic ff (snd (mb_apply i ev mb))"
| strategy: "multibook_reachable monotonic ff mb \<Longrightarrow>
    multibook_reachable monotonic ff (snd (submit_strategy_event i ev latency mb))"
| depth: "multibook_reachable monotonic ff mb \<Longrightarrow> multibook_reachable monotonic ff (snd (mb_depth_at i s px mb))"
| top_n: "multibook_reachable monotonic ff mb \<Longrightarrow> multibook_reachable monotonic ff (snd (mb_l2_top_n i s n mb))"
| best: "multibook_reachable monotonic ff mb \<Longrightarrow> multibook_reachable monotonic ff (snd (mb_get_best_price_ticks i s mb))"
| one_step: "multibook_reachable monotonic ff mb \<Longrightarrow> multibook_reachable monotonic ff (snd (step mb))"
| many_steps: "multibook_reachable monotonic ff mb \<Longrightarrow> step_until limit mb = Some (r, mb') \<Longrightarrow>
    multibook_reachable monotonic ff mb'"

lemma mb_wf_init: "mb_wf (multibook_init monotonic ff)"
  by (simp add: mb_wf_def multibook_init_def books_ok_def)

lemma reachable_wf: "multibook_reachable monotonic ff mb \<Longrightarrow> mb_wf mb"
proof (induction rule: multibook_reachable.induct)
  case (book mb i hcap pcap)
  obtain b mb' where "add_book i (sim_init hcap pcap) mb = (b, mb')" by fastforce
  with add_book_keeps [OF book.IH sim_wf_init this] show ?case by simp
next
  case (event mb i ev)
  obtain err mb' where "mb_apply i ev mb = (err, mb')" by fastforce
  with mb_apply_keeps [OF event.IH this] show ?case by simp
next
  case (one_step mb)
  obtain res mb' where "step mb = (res, mb')" by fastforce
  with step_facts [OF one_step.IH this] show ?case by simp
next
  case (many_steps mb limit r mb')
  then show ?case using step_until_returns_wf [of mb limit] by auto
next
  case (adapter mb i items)
  obtain err mb' where "add_adapter_stream i items mb = (err, mb')" by fastforce
  with add_stream_keeps [OF adapter.IH this [unfolded add_adapter_stream_def]] show ?case by simp
next
  case (normalized mb i events)
  obtain err mb' where "add_normalized_stream i events mb = (err, mb')" by fastforce
  with add_stream_keeps [OF normalized.IH this [unfolded add_normalized_stream_def]] show ?case by simp
qed (simp_all add: mb_wf_init mb_init_keeps mb_set_log_sink_keeps set_multi_log_sink_keeps submit_keeps mb_query_keeps)

end
