(* ===== verification/MultiBookReplay.thy ===== *)
theory MultiBookReplay
  imports MultiBookRun CallTags
begin

text \<open>
  A replay without strategy events whose streams are in time order: the merge of the streams gives
  every book exactly its own events in their order, whatever the other books do.
\<close>

section \<open>What a stream still delivers\<close>

fun stream_events :: "IStream \<Rightarrow> NormalizedLobEvent list" where
  "stream_events (AdapterStream ff items) = List.map_filter (\<lambda>x. case x of Inl _ \<Rightarrow> None | Inr y \<Rightarrow> y) items"
| "stream_events (NormalizedStream items) = List.map_filter (\<lambda>x. case x of Inl _ \<Rightarrow> None | Inr ev \<Rightarrow> Some ev) items"

fun readable :: "IStream \<Rightarrow> bool" where
  \<comment> \<open>the source does not throw, and no raw event makes the adapter throw\<close>
  "readable (AdapterStream ff items) = (Inl () \<notin> set items \<and> (ff \<longrightarrow> Inr None \<notin> set items))"
| "readable (NormalizedStream items) = (Inl () \<notin> set items)"

definition upcoming :: "StreamState \<Rightarrow> NormalizedLobEvent list" where
  "upcoming s = (if ss_has_buffered s then [ss_buffered s] else []) @
     (if ss_exhausted s then [] else stream_events (ss_stream s))"

definition in_order :: "NormalizedLobEvent list \<Rightarrow> bool" where
  "in_order evs = sorted (map ev_ts_received evs)"

lemma in_order_simps [simp]:
  "in_order []" "in_order (e # evs) \<longleftrightarrow> (\<forall>f \<in> set evs. ev_ts_received e \<le> ev_ts_received f) \<and> in_order evs"
  by (auto simp: in_order_def)

definition steady :: "StreamState \<Rightarrow> bool" where
  "steady s \<longleftrightarrow> readable (ss_stream s) \<and> in_order (upcoming s) \<and>
     (ss_has_last_ts s \<longrightarrow> (\<forall>ev \<in> set (upcoming s). ss_last_ts s \<le> ev_ts_received ev))"

lemma next_adapter_cases:
  "Inl () \<notin> set items \<Longrightarrow> (ff \<longrightarrow> Inr None \<notin> set items) \<Longrightarrow>
     (next_adapter ff items = NextEnd \<and> stream_events (AdapterStream ff items) = []) \<or>
     (\<exists>ev s. next_adapter ff items = NextEvent ev s \<and> readable s \<and>
        stream_events (AdapterStream ff items) = ev # stream_events s)"
  by (induction ff items rule: next_adapter.induct) (auto simp: map_filter_simps)

lemma next_cases:
  assumes "readable s"
  obtains "next_normalized s = NextEnd" "stream_events s = []"
    | ev s' where "next_normalized s = NextEvent ev s'" "readable s'" "stream_events s = ev # stream_events s'"
proof (cases s rule: next_normalized.cases)
  case (1 ff items)
  from next_adapter_cases [of items ff] assms 1 that show ?thesis by auto
next
  case 2
  with that(1) show ?thesis by (simp add: map_filter_simps)
next
  case (3 u rest)
  with assms show ?thesis by simp
next
  case (4 ev rest)
  with that(2) [of ev "NormalizedStream rest"] assms show ?thesis by (simp add: map_filter_simps)
qed

lemma fill_loop_steady:
  assumes st: "steady s" and new: "\<not> ss_exhausted s" "\<not> ss_has_buffered s"
  shows "\<exists>s'. fill_loop monotonic ff s = ((None, s'), []) \<and> steady s' \<and> upcoming s' = upcoming s \<and>
    ss_book_key s' = ss_book_key s"
proof -
  have "readable (ss_stream s)" using st by (simp add: steady_def)
  then show ?thesis
  proof (cases rule: next_cases)
    case 1
    with st new show ?thesis by (subst fill_loop.simps) (auto simp: steady_def upcoming_def)
  next
    case (2 ev s')
    have up: "upcoming s = ev # stream_events s'" using new 2 by (simp add: upcoming_def)
    have "\<not> (ss_has_last_ts s \<and> ev_ts_received ev < ss_last_ts s)"
      using st by (auto simp: steady_def up)
    with 2 new st show ?thesis
      by (subst fill_loop.simps) (auto simp: steady_def upcoming_def buffer_event_def)
  qed
qed

section \<open>Calm states\<close>

definition coming :: "string \<Rightarrow> MultiBook \<Rightarrow> NormalizedLobEvent list" where
  \<comment> \<open>the events that the stream of a book has not yet delivered\<close>
  "coming key mb = hm_get [] (map (\<lambda>s. (ss_book_key s, upcoming s)) (streams mb)) key"

definition calm :: "MultiBook \<Rightarrow> bool" where
  "calm mb \<longleftrightarrow> mb_wf mb \<and> (\<forall>s \<in> set (streams mb). steady s) \<and> (\<forall>e \<in> set (heap mb). he_kind e = Stream) \<and>
     (require_monotonic_ts_received mb \<and> has_current_time mb \<longrightarrow>
        (\<forall>s \<in> set (streams mb). \<forall>ev \<in> set (upcoming s). current_ts_received mb \<le> ev_ts_received ev))"

definition same_coming :: "MultiBook \<Rightarrow> MultiBook \<Rightarrow> bool" where
  "same_coming mb mb' \<longleftrightarrow> map (\<lambda>s. (ss_book_key s, upcoming s)) (streams mb') =
     map (\<lambda>s. (ss_book_key s, upcoming s)) (streams mb)"

lemma same_coming_refl [simp]: "same_coming mb mb"
  by (simp add: same_coming_def)

lemma same_coming_trans: "same_coming mb mb' \<Longrightarrow> same_coming mb' mb'' \<Longrightarrow> same_coming mb mb''"
  by (simp add: same_coming_def)

lemma same_coming_upcoming:
  assumes "same_coming mb mb'"
  shows "(\<forall>s \<in> set (streams mb'). P (upcoming s)) \<longleftrightarrow> (\<forall>s \<in> set (streams mb). P (upcoming s))"
proof -
  have "map upcoming (streams mb') = map snd (map (\<lambda>s. (ss_book_key s, upcoming s)) (streams mb'))" by simp
  also have "\<dots> = map upcoming (streams mb)" using assms unfolding same_coming_def by simp
  finally have "set (map upcoming (streams mb')) = set (map upcoming (streams mb))" by simp
  then show ?thesis by (auto simp: set_eq_iff image_iff) metis+
qed

lemma fill_buffer_calm:
  assumes calm: "calm mb" and i: "i < length (streams mb)"
  shows "\<exists>mb'. fill_buffer i mb = (None, mb') \<and> calm mb' \<and> same_coming mb mb' \<and> mcalls mb' = mcalls mb"
proof (cases "ss_exhausted (streams mb ! i) \<or> ss_has_buffered (streams mb ! i)")
  case True
  with calm show ?thesis by (auto simp: fill_buffer_def)
next
  case False
  let ?s = "streams mb ! i"
  have "steady ?s" using calm i by (simp add: calm_def)
  from fill_loop_steady [OF this, of "require_monotonic_ts_received mb" "fail_fast mb"] False
  obtain s' where l: "fill_loop (require_monotonic_ts_received mb) (fail_fast mb) ?s = ((None, s'), [])"
    and s': "steady s'" "upcoming s' = upcoming ?s" "ss_book_key s' = ss_book_key ?s" by auto
  obtain err mb' where f: "fill_buffer i mb = (err, mb')" by fastforce
  have "mb_wf mb" using calm by (simp add: calm_def)
  note k = fill_buffer_keeps [OF this i f]
  have mb': "err = None" "streams mb' = (streams mb)[i := s']" "mcalls mb' = mcalls mb"
    "\<forall>e \<in> set (heap mb'). e \<in> set (heap mb) \<or> he_kind e = Stream"
    using f False l by (auto simp: fill_buffer_def Let_def split: if_splits)
  have same: "same_coming mb mb'"
    using s' i by (simp add: same_coming_def mb' map_update list_update_same_conv)
  have "\<forall>s \<in> set (streams mb'). steady s"
    using calm s'(1) by (auto simp: calm_def mb' dest: set_update_subset_insert [THEN subsetD])
  moreover have "\<forall>e \<in> set (heap mb'). he_kind e = Stream" using calm mb'(4) by (auto simp: calm_def)
  moreover have "has_current_time mb' = has_current_time mb" "current_ts_received mb' = current_ts_received mb"
    "require_monotonic_ts_received mb' = require_monotonic_ts_received mb"
    using k by (simp_all add: same_books_mb_def)
  ultimately have "calm mb'"
    using k calm same_coming_upcoming [OF same, of "\<lambda>u. \<forall>ev \<in> set u. current_ts_received mb \<le> ev_ts_received ev"]
    by (simp add: calm_def)
  with same f mb' show ?thesis by auto
qed

lemma prime_from_calm:
  "calm mb \<Longrightarrow> \<forall>i \<in> set is. i < length (streams mb) \<Longrightarrow>
     \<exists>mb'. prime_from is mb = (None, mb') \<and> calm mb' \<and> same_coming mb mb' \<and> mcalls mb' = mcalls mb"
proof (induction "is" arbitrary: mb)
  case (Cons i "is")
  obtain mb1 where f: "fill_buffer i mb = (None, mb1)" "calm mb1" "same_coming mb mb1" "mcalls mb1 = mcalls mb"
    using fill_buffer_calm [OF Cons.prems(1), of i] Cons.prems(2) by auto
  have "length (streams mb1) = length (streams mb)"
    using f(3) by (auto simp: same_coming_def dest: map_eq_imp_length_eq)
  with Cons.prems(2) have "\<forall>i \<in> set is. i < length (streams mb1)" by simp
  from Cons.IH [OF f(2) this] obtain mb' where
    "prime_from is mb1 = (None, mb')" "calm mb'" "same_coming mb1 mb'" "mcalls mb' = mcalls mb1" by blast
  with f same_coming_trans [OF f(3)] Cons.IH [OF Cons.prems(1)] Cons.prems(2) show ?case by auto
qed simp

lemma prime_streams_calm:
  assumes "calm mb"
  shows "\<exists>mb'. prime_streams mb = (None, mb') \<and> calm mb' \<and> primed mb' \<and> same_coming mb mb' \<and>
    books mb' = books mb \<and> book_sinks mb' = book_sinks mb \<and> mcalls mb' = mcalls mb"
proof -
  obtain mb' where p: "prime_streams mb = (None, mb')" "calm mb'" "same_coming mb mb'" "mcalls mb' = mcalls mb"
    using prime_from_calm [OF assms, of "[0..<length (streams mb)]"] by (auto simp: prime_streams_def)
  have "mb_wf mb" using assms by (simp add: calm_def)
  from prime_streams_keeps [OF this p(1)] p show ?thesis by (auto simp: same_books_mb_def)
qed

section \<open>One step of a calm replay\<close>

definition view_engine :: "string \<Rightarrow> MultiBook \<Rightarrow> Sim option" where
  \<comment> \<open>the engine of a book with the calls that a sink of its own would have got: of a book that is
    attached to the multi sink, those of the multi sink's calls that concern the book\<close>
  "view_engine key mb = map_option (\<lambda>e.
     if hm_contains (book_sinks mb) key then (be_engine e)\<lparr>calls := filter (concerns key) (mcalls mb)\<rparr>
     else be_engine e) (hm_find (books mb) key)"

lemma apply_to_book_runs:
  assumes "books_ok mb" "has_book_key key mb"
    and t: "\<not> (require_monotonic_ts_received mb \<and> has_current_time mb \<and> ev_ts_received ev < current_ts_received mb)"
  obtains mb' where "apply_to_book key ev mb = (None, mb')" "same_queue mb mb'" "books_ok mb'"
    "has_current_time mb'" "current_ts_received mb' = ev_ts_received ev" "book_sinks mb' = book_sinks mb"
    "view_engine key mb' = map_option (update (tag_event key ev)) (view_engine key mb)"
    "\<forall>k. k \<noteq> key \<longrightarrow> view_engine k mb' = view_engine k mb"
proof -
  let ?ev = "tag_event key ev"
  let ?f = "\<lambda>st. (update ?ev st, ())"
  obtain e where e: "hm_find (books mb) key = Some e" using assms(2) by (auto simp: has_book_key_def hm_contains_def)
  let ?st = "update ?ev ((be_engine e)\<lparr>calls := []\<rparr>)"
  have about: "\<forall>c \<in> set (calls ?st). about key c" using update_calls_about [of ?ev] by simp
  from run_engine_Some [OF e, of ?f ?st "()"] obtain kept passed where
    r: "run_engine key ?f mb = (Some (), mb\<lparr>books := hm_put key (e\<lparr>be_engine := ?st\<lparr>calls := kept\<rparr>\<rparr>) (books mb),
      mcalls := mcalls mb @ passed\<rparr>)"
    and wrapped: "hm_contains (book_sinks mb) key \<Longrightarrow> passed = calls ?st"
    and own: "\<not> hm_contains (book_sinks mb) key \<Longrightarrow> kept = calls (be_engine e) @ calls ?st \<and> passed = []"
    using scoped_calls [OF about] by auto
  define mb1 where "mb1 = mb\<lparr>books := hm_put key (e\<lparr>be_engine := ?st\<lparr>calls := kept\<rparr>\<rparr>) (books mb),
      mcalls := mcalls mb @ passed, has_current_time := True, current_ts_received := ev_ts_received ev\<rparr>"
  have a: "apply_to_book key ev mb = (None, mb1)"
    using assms(2) t r by (simp add: apply_to_book_def Let_def mb1_def) blast
  have "view_engine key mb1 = map_option (update ?ev) (view_engine key mb)"
  proof (cases "hm_contains (book_sinks mb) key")
    case True
    then show ?thesis
      using update_with_calls [of ?ev "filter (concerns key) (mcalls mb)" "be_engine e"] filter_about [OF about, of key]
      by (simp add: view_engine_def mb1_def e wrapped)
  next
    case False
    then show ?thesis
      using update_with_calls [of ?ev "calls (be_engine e)" "be_engine e"]
      by (simp add: view_engine_def mb1_def e own)
  qed
  moreover have "filter (concerns k) passed = []" if "k \<noteq> key" for k
    using that filter_about [OF about, of k] wrapped own by (cases "hm_contains (book_sinks mb) key") simp_all
  then have "\<forall>k. k \<noteq> key \<longrightarrow> view_engine k mb1 = view_engine k mb"
    by (simp add: mb1_def view_engine_def cong: if_cong)
  ultimately show ?thesis
    using that [of mb1] a apply_to_book_keeps [OF assms(1) a] by (simp add: mb1_def)
qed

lemma map_of_update_nth:
  assumes "distinct (map fst u)" "i < length u" "fst (u ! i) = k"
  shows "map_of (u[i := (k, y)]) = (map_of u)(k \<mapsto> y)"
  using assms
proof (induction u arbitrary: i)
  case (Cons p u)
  show ?case
  proof (cases i)
    case 0
    with Cons.prems show ?thesis by (cases p) (auto simp: fun_eq_iff)
  next
    case (Suc j)
    then have j: "j < length u" "fst (u ! j) = k" using Cons.prems by simp_all
    then have "k \<in> fst ` set u" by auto
    with Cons.prems(1) have "fst p \<noteq> k" by auto
    moreover have "map_of (u[j := (k, y)]) = (map_of u)(k \<mapsto> y)"
      by (rule Cons.IH [OF _ j]) (use Cons.prems(1) in simp)
    ultimately show ?thesis using Suc by (cases p) (auto simp: fun_upd_twist)
  qed
qed simp

lemma coming_nth:
  assumes "mb_wf mb" "i < length (streams mb)"
  shows "coming (ss_book_key (streams mb ! i)) mb = upcoming (streams mb ! i)"
proof -
  let ?u = "map (\<lambda>s. (ss_book_key s, upcoming s)) (streams mb)"
  have "distinct (map fst ?u)" using assms(1) by (simp add: mb_wf_def comp_def)
  moreover have "(ss_book_key (streams mb ! i), upcoming (streams mb ! i)) \<in> set ?u"
    using assms(2) by (metis (no_types, lifting) length_map nth_map nth_mem)
  ultimately show ?thesis by (simp add: coming_def hm_get_def hm_find_def)
qed

lemma coming_in_stream:
  assumes "ev \<in> set (coming key mb)"
  obtains s where "s \<in> set (streams mb)" "ss_book_key s = key" "coming key mb = upcoming s"
proof -
  let ?u = "map (\<lambda>s. (ss_book_key s, upcoming s)) (streams mb)"
  obtain l where l: "map_of ?u key = Some l" "coming key mb = l"
    using assms by (cases "map_of ?u key") (simp_all add: coming_def hm_get_def hm_find_def)
  from map_of_SomeD [OF l(1)] l(2) that show ?thesis by auto
qed

lemma same_coming_coming: "same_coming mb mb' \<Longrightarrow> coming key mb' = coming key mb"
  by (simp add: same_coming_def coming_def)

text \<open>The top of the queue is the earliest event of all.\<close>

lemma calm_top:
  assumes calm: "calm mb" and pr: "primed mb" and ne: "heap mb \<noteq> []"
  defines "i \<equiv> he_stream_index (hd (heap mb))"
  shows "i < length (streams mb)" and "he_kind (hd (heap mb)) = Stream"
    and "next_event mb = (ss_book_key (streams mb ! i), ss_buffered (streams mb ! i))"
    and "ss_has_buffered (streams mb ! i)"
    and "he_ts_received (hd (heap mb)) = ev_ts_received (ss_buffered (streams mb ! i))"
    and "\<forall>s \<in> set (streams mb). \<forall>ev \<in> set (upcoming s). ev_ts_received (snd (next_event mb)) \<le> ev_ts_received ev"
proof -
  have wf: "mb_wf mb" using calm by (simp add: calm_def)
  show k: "he_kind (hd (heap mb)) = Stream" using calm ne by (simp add: calm_def)
  from next_matches(1) [OF wf ne] k
  show i: "i < length (streams mb)" "ss_has_buffered (streams mb ! i)"
    "he_ts_received (hd (heap mb)) = ev_ts_received (ss_buffered (streams mb ! i))"
    by (simp_all add: entry_matches_def i_def)
  show n: "next_event mb = (ss_book_key (streams mb ! i), ss_buffered (streams mb ! i))"
    using k by (simp add: next_event_def i_def Let_def)
  have q: "queue_ok (hd (heap mb) # tl (heap mb)) (streams mb) (strategy_events mb)"
    using wf ne by (simp add: mb_wf_def)
  have "ev_ts_received (snd (next_event mb)) \<le> ev_ts_received ev"
    if j: "j < length (streams mb)" and ev: "ev \<in> set (upcoming (streams mb ! j))" for j ev
  proof -
    let ?s = "streams mb ! j"
    have b: "ss_has_buffered ?s" using pr j ev by (auto simp: primed_def upcoming_def split: if_splits)
    then have "j \<in> set (stream_indexes (hd (heap mb) # tl (heap mb)))" using q j by (simp add: queue_ok_def)
    then obtain f where f: "f \<in> set (hd (heap mb) # tl (heap mb))" "he_stream_index f = j" "he_kind f = Stream"
      by (auto simp: stream_indexes_def split: if_splits)
    then have "merge_key (hd (heap mb)) \<le> merge_key f" using queue_ok_pop(2) [OF q] by auto
    then have "he_ts_received (hd (heap mb)) \<le> he_ts_received f" by (auto simp: merge_key_def less_eq_prod_def)
    moreover have "he_ts_received f = ev_ts_received (ss_buffered ?s)"
      using q f by (auto simp: queue_ok_def entry_matches_def)
    moreover have "steady ?s" using calm j by (simp add: calm_def)
    then have "ev_ts_received (ss_buffered ?s) \<le> ev_ts_received ev"
      using ev b by (auto simp: steady_def upcoming_def split: if_splits)
    ultimately show ?thesis using n i(3) by simp
  qed
  then show "\<forall>s \<in> set (streams mb). \<forall>ev \<in> set (upcoming s). ev_ts_received (snd (next_event mb)) \<le> ev_ts_received ev"
    by (metis in_set_conv_nth)
qed

lemma step_calm:
  assumes calm: "calm mb" and pr: "primed mb" and ne: "heap mb \<noteq> []"
  obtains mb' where "step mb = (Inr True, mb')" "calm mb'" "primed mb'" "pending mb' < pending mb"
    "coming (fst (next_event mb)) mb = snd (next_event mb) # coming (fst (next_event mb)) mb'"
    "\<forall>k. k \<noteq> fst (next_event mb) \<longrightarrow> coming k mb' = coming k mb"
    "view_engine (fst (next_event mb)) mb' =
       map_option (update (tag_event (fst (next_event mb)) (snd (next_event mb)))) (view_engine (fst (next_event mb)) mb)"
    "\<forall>k. k \<noteq> fst (next_event mb) \<longrightarrow> view_engine k mb' = view_engine k mb"
proof -
  let ?i = "he_stream_index (hd (heap mb))"
  let ?s = "streams mb ! ?i"
  let ?key = "ss_book_key ?s" and ?ev = "ss_buffered ?s"
  let ?p = "pop_entry mb"
  have wf: "mb_wf mb" using calm by (simp add: calm_def)
  note top = calm_top [OF calm pr ne]
  note pop = pop_entry_wf [OF wf ne]
  have pp: "books ?p = books mb" "has_current_time ?p = has_current_time mb"
    "current_ts_received ?p = current_ts_received mb"
    "require_monotonic_ts_received ?p = require_monotonic_ts_received mb"
    using pop(2) by (simp_all add: same_books_mb_def)
  have st: "streams ?p = (streams mb)[?i := ?s\<lparr>ss_has_buffered := False\<rparr>]"
    using top(2) by (simp add: pop_entry_def Let_def)
  have late: "\<not> (require_monotonic_ts_received ?p \<and> has_current_time ?p \<and> ev_ts_received ?ev < current_ts_received ?p)"
  proof -
    have "?ev \<in> set (upcoming ?s)" using top(4) by (simp add: upcoming_def)
    moreover have "?s \<in> set (streams mb)" using top(1) by simp
    ultimately show ?thesis using calm pp by (fastforce simp: calm_def)
  qed
  have "has_book_key ?key ?p" using next_matches(4) [OF wf ne] top(3) pp(1) by (simp add: has_book_key_def)
  from apply_to_book_runs [OF mb_wf_books [OF pop(1)] this late] obtain mb3 where
    a: "apply_to_book ?key ?ev ?p = (None, mb3)" and same: "same_queue ?p mb3" "books_ok mb3"
    and now: "has_current_time mb3" "current_ts_received mb3 = ev_ts_received ?ev"
    and bs: "book_sinks mb3 = book_sinks ?p"
    and eng: "view_engine ?key mb3 = map_option (update (tag_event ?key ?ev)) (view_engine ?key ?p)"
      "\<forall>k. k \<noteq> ?key \<longrightarrow> view_engine k mb3 = view_engine k ?p" by blast
  have st3: "streams mb3 = (streams mb)[?i := ?s\<lparr>ss_has_buffered := False\<rparr>]"
    using same(1) st by (simp add: same_queue_def)
  let ?rest = "upcoming (?s\<lparr>ss_has_buffered := False\<rparr>)"
  have split: "upcoming ?s = ?ev # ?rest" using top(4) by (simp add: upcoming_def)
  have sub: "set (upcoming s) \<subseteq> \<Union> (set ` set (map upcoming (streams mb)))" if "s \<in> set (streams mb3)" for s
  proof -
    have "s = ?s\<lparr>ss_has_buffered := False\<rparr> \<or> s \<in> set (streams mb)"
      using that by (auto simp: st3 dest!: set_update_subset_insert [THEN subsetD])
    moreover have "set ?rest \<subseteq> set (upcoming ?s)" using split by auto
    moreover have "?s \<in> set (streams mb)" using top(1) by simp
    ultimately show ?thesis by fastforce
  qed
  have calm3: "calm mb3"
  proof -
    have wf3: "mb_wf mb3" by (rule mb_wf_same [OF pop(1) same])
    have steady0: "\<forall>s \<in> set (streams mb). steady s" and heap0: "\<forall>e \<in> set (heap mb). he_kind e = Stream"
      using calm by (simp_all add: calm_def)
    have "steady ?s" using steady0 top(1) by simp
    then have "steady (?s\<lparr>ss_has_buffered := False\<rparr>)"
      using split by (auto simp: steady_def)
    then have "\<forall>s \<in> set (streams mb3). steady s"
      using steady0 by (auto simp: st3 dest: set_update_subset_insert [THEN subsetD])
    moreover have "heap mb3 = tl (heap mb)" using same(1) pop(5) by (simp add: same_queue_def)
    then have "\<forall>e \<in> set (heap mb3). he_kind e = Stream" using heap0 by (auto dest: list.set_sel(2) [OF ne])
    moreover have "\<forall>s \<in> set (streams mb3). \<forall>ev \<in> set (upcoming s). current_ts_received mb3 \<le> ev_ts_received ev"
      using sub top(3,6) by (fastforce simp: now(2))
    ultimately show ?thesis using wf3 by (simp add: calm_def)
  qed
  have "?i < length (streams mb3)" using top(1) by (simp add: st3)
  from fill_buffer_calm [OF calm3 this] obtain mb4 where
    f: "fill_buffer ?i mb3 = (None, mb4)" "calm mb4" "same_coming mb3 mb4" "mcalls mb4 = mcalls mb3" by blast
  have step: "step mb = (Inr True, mb4)"
    using step_shape [OF wf primed_idle [OF pr] ne] a f(1) top(2,3) by (simp add: finish_step_def)
  have fin: "finish_step (hd (heap mb)) (apply_to_book (fst (next_event mb)) (snd (next_event mb)) (pop_entry mb)) = (Inr True, mb4)"
    using step_shape [OF wf primed_idle [OF pr] ne] step by simp
  from finish_step_facts [OF wf ne pr fin] have "primed mb4" "pending mb4 < pending mb" by simp_all
  moreover have "books mb4 = books mb3" "book_sinks mb4 = book_sinks mb3"
    using fill_buffer_keeps [OF _ \<open>?i < length (streams mb3)\<close> f(1)] calm3 by (simp_all add: calm_def same_books_mb_def)
  then have eng4: "view_engine k mb4 = view_engine k mb3" for k by (simp add: view_engine_def f(4) cong: if_cong)
  have "book_sinks ?p = book_sinks mb" "mcalls ?p = mcalls mb" using pop(2,4) by (simp_all add: same_books_mb_def)
  then have engp: "view_engine k ?p = view_engine k mb" for k by (simp add: view_engine_def pp(1) cong: if_cong)
  have "hm_find (map (\<lambda>s. (ss_book_key s, upcoming s)) (streams mb3)) =
      (hm_find (map (\<lambda>s. (ss_book_key s, upcoming s)) (streams mb)))(?key \<mapsto> ?rest)"
  proof -
    have "distinct (map fst (map (\<lambda>s. (ss_book_key s, upcoming s)) (streams mb)))"
      using wf by (simp add: mb_wf_def comp_def)
    from map_of_update_nth [OF this, of ?i ?key ?rest] top(1) show ?thesis
      by (simp add: st3 hm_find_def [abs_def] map_update)
  qed
  then have "coming k mb3 = (if k = ?key then ?rest else coming k mb)" for k by (simp add: coming_def hm_get_def)
  then have "coming k mb4 = (if k = ?key then ?rest else coming k mb)" for k
    using same_coming_coming [OF f(3)] by simp
  moreover have "coming ?key mb = ?ev # ?rest" using coming_nth [OF wf top(1)] split by simp
  ultimately show ?thesis using that step f(2) eng eng4 engp top(3) by simp
qed

section \<open>The whole loop\<close>

definition due :: "int \<Rightarrow> string \<Rightarrow> MultiBook \<Rightarrow> NormalizedLobEvent list" where
  "due limit key mb = filter (\<lambda>ev. ev_ts_received ev \<le> limit) (coming key mb)"

definition later :: "int \<Rightarrow> string \<Rightarrow> MultiBook \<Rightarrow> NormalizedLobEvent list" where
  "later limit key mb = filter (\<lambda>ev. limit < ev_ts_received ev) (coming key mb)"

definition replayed :: "int \<Rightarrow> MultiBook \<Rightarrow> MultiBook \<Rightarrow> bool" where
  "replayed limit mb mb' \<longleftrightarrow> (\<forall>key.
     view_engine key mb' = map_option (run_updates (map (tag_event key) (due limit key mb))) (view_engine key mb) \<and>
     coming key mb' = later limit key mb)"

lemma run_updates_Cons: "run_updates (e # evs) = (\<lambda>st. run_updates evs (update e st))"
  by (simp add: run_updates_def fun_eq_iff)

lemma nothing_due:
  assumes "calm mb" "primed mb" "heap mb = [] \<or> limit < he_ts_received (hd (heap mb))" "ev \<in> set (coming key mb)"
  shows "limit < ev_ts_received ev"
proof -
  obtain s where s: "s \<in> set (streams mb)" "ev \<in> set (upcoming s)"
    using coming_in_stream [OF assms(4)] assms(4) by metis
  then obtain j where j: "j < length (streams mb)" "s = streams mb ! j" by (auto simp: in_set_conv_nth)
  have "ss_has_buffered s" using assms(2) s by (auto simp: primed_def upcoming_def split: if_splits)
  with assms(1) j have "heap mb \<noteq> []" by (auto simp: calm_def mb_wf_def queue_ok_def)
  with calm_top(3,5,6) [OF assms(1,2) this] assms(3) s show ?thesis by fastforce
qed

lemma step_loop_calm:
  "calm mb \<Longrightarrow> primed mb \<Longrightarrow>
     \<exists>n mb'. step_loop limit applied mb = Some (Inr n, mb') \<and> calm mb' \<and> primed mb' \<and> replayed limit mb mb'"
proof (induction "pending mb" arbitrary: mb applied rule: less_induct)
  case less
  show ?case
  proof (cases "heap mb = [] \<or> he_ts_received (hd (heap mb)) > limit")
    case True
    have "due limit key mb = [] \<and> later limit key mb = coming key mb" for key
      using nothing_due [OF less.prems, of limit _ key] True
      by (force simp: due_def later_def filter_empty_conv filter_id_conv)
    moreover have "run_updates [] = (\<lambda>st. st)" by (simp add: run_updates_def fun_eq_iff)
    ultimately have "replayed limit mb mb" by (simp add: replayed_def option.map_ident)
    with True less.prems show ?thesis by (subst step_loop.simps) auto
  next
    case False
    let ?key = "fst (next_event mb)" and ?ev = "snd (next_event mb)"
    obtain mb1 where 1: "step mb = (Inr True, mb1)" "calm mb1" "primed mb1" "pending mb1 < pending mb"
      "coming ?key mb = ?ev # coming ?key mb1" "\<forall>k. k \<noteq> ?key \<longrightarrow> coming k mb1 = coming k mb"
      "view_engine ?key mb1 = map_option (update (tag_event ?key ?ev)) (view_engine ?key mb)"
      "\<forall>k. k \<noteq> ?key \<longrightarrow> view_engine k mb1 = view_engine k mb"
      using step_calm [OF less.prems] False by blast
    from less.hyps [OF 1(4,2,3), of "applied + 1"] obtain n mb' where
      l: "step_loop limit (applied + 1) mb1 = Some (Inr n, mb')" "calm mb'" "primed mb'" "replayed limit mb1 mb'" by blast
    have "ev_ts_received ?ev \<le> limit"
      using False calm_top(3,5) [OF less.prems] by (simp add: not_less)
    then have "due limit k mb = (if k = ?key then ?ev # due limit k mb1 else due limit k mb1) \<and>
        later limit k mb = later limit k mb1" for k
      using 1(5,6) by (simp add: due_def later_def)
    then have "replayed limit mb mb'"
      using l(4) 1(7,8) by (auto simp: replayed_def run_updates_Cons option.map_comp comp_def)
    moreover have "step_loop limit applied mb = Some (Inr n, mb')"
      using False 1(1) l(1) by (subst step_loop.simps) simp
    ultimately show ?thesis using l by blast
  qed
qed

lemma step_until_calm:
  assumes "calm mb"
  shows "\<exists>n mb'. step_until limit mb = Some (Inr n, mb') \<and> calm mb' \<and> primed mb' \<and> replayed limit mb mb'"
proof -
  obtain mb1 where p: "prime_streams mb = (None, mb1)" "calm mb1" "primed mb1" "same_coming mb mb1" "books mb1 = books mb"
    "book_sinks mb1 = book_sinks mb" "mcalls mb1 = mcalls mb"
    using prime_streams_calm [OF assms] by blast
  from step_loop_calm [OF p(2,3), of limit 0] obtain n mb' where
    l: "step_loop limit 0 mb1 = Some (Inr n, mb')" "calm mb'" "primed mb'" "replayed limit mb1 mb'" by blast
  have "replayed limit mb mb'"
    using l(4) same_coming_coming [OF p(4)] p(5-)
    by (simp add: replayed_def due_def later_def view_engine_def cong: if_cong)
  with l p(1) show ?thesis by (simp add: step_until_def)
qed

end
