(* ===== verification/MultiBookProps.thy ===== *)
theory MultiBookProps
  imports MultiBookReplay
begin

text \<open>
  The properties of the multi-book simulator: its invariant, the order of the merge, its clock, the
  end of its loop, strategy events, unknown books, and what a replay amounts to for each book.
\<close>

section \<open>Example states\<close>

definition btc :: BookId where
  "btc = \<lparr>bi_venue = ''x'', bi_symbol = ''btc''\<rparr>"

definition eth :: BookId where
  "eth = \<lparr>bi_venue = ''x'', bi_symbol = ''eth''\<rparr>"

definition at_time :: "int \<Rightarrow> NormalizedLobEvent \<Rightarrow> NormalizedLobEvent" where
  "at_time t ev = ev\<lparr>ev_ts_received := t\<rparr>"

definition two_books :: MultiBook where
  \<comment> \<open>two streams whose events alternate, reported to a multi sink\<close>
  "two_books =
     snd (add_normalized_stream eth [Inr (at_time 2 (hist_add BUY 50 1 7)), Inr (at_time 5 (hist_add BUY 51 4 8))]
       (snd (add_normalized_stream btc [Inr (at_time 1 (hist_add SELL 105 5 1)), Inr (at_time 4 (hist_add BUY 105 2 2))]
         (snd (add_book eth (sim_init 10 10) (snd (add_book btc (sim_init 10 10)
           (set_multi_log_sink True (multibook_init True True)))))))))"

lemma two_books_reachable: "multibook_reachable True True two_books"
  unfolding two_books_def by (intro multibook_reachable.intros)

lemma two_books_wf: "mb_wf two_books"
  by (rule reachable_wf [OF two_books_reachable])

definition two_books_primed :: MultiBook where
  "two_books_primed = snd (prime_streams two_books)"

lemma two_books_prime: "prime_streams two_books = (None, two_books_primed)" "heap two_books_primed \<noteq> []"
  by code_simp+

section \<open>The invariant\<close>



section \<open>The order of the merge\<close>

text \<open>C17 A step applies the entry that is first by receive time, stream events before strategy
  events of the same time, then by exchange time and index: no buffered event of any stream and no
  queued strategy event is earlier, so no strategy event is applied before the market events of its
  time. The event goes to its own book and its stream is refilled afterwards.\<close>

theorem step_takes_earliest:
  assumes "mb_wf mb0" "prime_streams mb0 = (None, mb)" "heap mb \<noteq> []"
  shows "let e = hd (heap mb); (key, ev) = next_event mb in
    step mb0 = finish_step e (apply_to_book key ev (pop_entry mb)) \<and>
    ev_ts_received ev = he_ts_received e \<and>
    (\<forall>f \<in> set (heap mb). merge_key e \<le> merge_key f) \<and>
    (\<forall>s \<in> set (streams mb). ss_has_buffered s \<longrightarrow> ev_ts_received ev \<le> ev_ts_received (ss_buffered s)) \<and>
    (he_kind e = Strategy \<longrightarrow>
       (\<forall>s \<in> set (streams mb). ss_has_buffered s \<longrightarrow> ev_ts_received ev < ev_ts_received (ss_buffered s)))"
proof -
  let ?e = "hd (heap mb)" and ?ev = "snd (next_event mb)"
  have wf: "mb_wf mb" using prime_streams_keeps [OF assms(1,2)] by blast
  have q: "queue_ok (?e # tl (heap mb)) (streams mb) (strategy_events mb)"
    using wf assms(3) by (simp add: mb_wf_def)
  have least: "\<forall>f \<in> set (heap mb). merge_key ?e \<le> merge_key f"
    using queue_ok_pop(2) [OF q] assms(3) by (metis list.collapse order_refl set_ConsD)
  have ts: "ev_ts_received ?ev = he_ts_received ?e" by (rule next_matches(2) [OF wf assms(3)])
  have entry: "\<exists>f \<in> set (heap mb). he_kind f = Stream \<and> he_ts_received f = ev_ts_received (ss_buffered s)"
    if "s \<in> set (streams mb)" "ss_has_buffered s" for s
    using queue_ok_stream [OF q [unfolded list.collapse [OF assms(3)]] that] .
  have "ev_ts_received ?ev \<le> ev_ts_received (ss_buffered s) \<and>
      (he_kind ?e = Strategy \<longrightarrow> ev_ts_received ?ev < ev_ts_received (ss_buffered s))"
    if s: "s \<in> set (streams mb)" "ss_has_buffered s" for s
  proof -
    obtain f where f: "f \<in> set (heap mb)" "he_kind f = Stream" "he_ts_received f = ev_ts_received (ss_buffered s)"
      using entry [OF s] by blast
    with least have "merge_key ?e \<le> merge_key f" by blast
    with f show ?thesis by (auto simp: merge_key_def less_eq_prod_def ts less_eq_EntryKind_def less_EntryKind_def)
  qed
  with step_shape [OF assms] least ts show ?thesis by (auto simp: Let_def case_prod_beta)
qed

lemma step_takes_earliest_example: "step two_books = finish_step (hd (heap two_books_primed))
    (apply_to_book (fst (next_event two_books_primed)) (snd (next_event two_books_primed)) (pop_entry two_books_primed)) \<and>
    fst (next_event two_books_primed) = ''x:btc''"
proof -
  have "fst (next_event two_books_primed) = ''x:btc''" by code_simp
  with step_takes_earliest [OF two_books_wf two_books_prime] show ?thesis
    by (simp add: Let_def case_prod_beta)
qed

text \<open>C18 With the check for monotonic time, no step and no run of steps ever moves the clock of the
  simulator back, whatever the streams and strategies deliver and however the run ends; and
  \<open>step_until\<close> returns from every well-formed state, because the events left bound its steps, and
  when it ends without an error nothing up to the limit is left in the queue.\<close>

theorem step_until_returns:
  assumes "mb_wf mb"
  shows "time_ok mb (snd (step mb)) \<and>
    (\<exists>r mb'. step_until limit mb = Some (r, mb') \<and> mb_wf mb' \<and> time_ok mb mb' \<and>
       (\<forall>n. r = Inr n \<longrightarrow> heap mb' = [] \<or> limit < he_ts_received (hd (heap mb'))))"
proof -
  obtain res mb1 where s: "step mb = (res, mb1)" by fastforce
  from step_facts [OF assms s] step_until_returns_wf [OF assms] s show ?thesis by auto
qed

lemma step_until_returns_example: "\<exists>r mb'. step_until 4 two_books = Some (r, mb') \<and> time_ok two_books mb'"
  using step_until_returns [OF two_books_wf, of 4] by blast

text \<open>A step changes the engine of at most one book, that of the event it applies; every other
  book's engine is untouched, whether the step ends with an error or not.\<close>

lemma step_touches_one_book:
  assumes "mb_wf mb" "primed mb" "heap mb \<noteq> []" "key \<noteq> fst (next_event mb)"
  shows "hm_find (books (snd (step mb))) key = hm_find (books mb) key"
proof -
  obtain res mb' where f: "finish_step (hd (heap mb)) (apply_to_book (fst (next_event mb)) (snd (next_event mb)) (pop_entry mb)) = (res, mb')"
    by fastforce
  from finish_step_facts [OF assms(1,3,2) f] step_shape [OF assms(1) primed_idle [OF assms(2)] assms(3)] f assms(4)
  show ?thesis by simp
qed

lemma step_touches_one_book_example:
  "hm_find (books (snd (step two_books_primed))) ''x:eth'' = hm_find (books two_books_primed) ''x:eth''"
proof (rule step_touches_one_book)
  show "mb_wf two_books_primed" "primed two_books_primed"
    using prime_streams_keeps [OF two_books_wf two_books_prime(1)] by simp_all
  show "''x:eth'' \<noteq> fst (next_event two_books_primed)" by code_simp
qed (rule two_books_prime)

section \<open>What a replay amounts to\<close>

lemma two_books_calm: "calm two_books"
proof -
  have "list_all (\<lambda>s. readable (ss_stream s) \<and> in_order (upcoming s) \<and> \<not> ss_has_last_ts s) (streams two_books)"
    "heap two_books = []" "has_current_time two_books = False" by code_simp+
  then show ?thesis using two_books_wf by (auto simp: calm_def steady_def list_all_iff)
qed

text \<open>C15 A replay of streams that are each in time order, of sources that do not throw (nor, under
  \<open>fail_fast\<close>, their adapters), without strategy events, gives every book exactly its own events up to the
  limit, in their order and tagged with its key, whatever the other books do; what is left of each stream is exactly the later events. The engine of each book, and
  the calls its sink would have got, are those of a single engine that is given these events.\<close>

theorem replay_is_per_book:
  assumes "calm mb"
  shows "\<exists>n mb'. step_until limit mb = Some (Inr n, mb') \<and> (\<forall>key.
    view_engine key mb' = map_option (run_updates (map (tag_event key)
      (filter (\<lambda>ev. ev_ts_received ev \<le> limit) (coming key mb)))) (view_engine key mb) \<and>
    coming key mb' = filter (\<lambda>ev. limit < ev_ts_received ev) (coming key mb))"
  using step_until_calm [OF assms, of limit] unfolding replayed_def due_def later_def by blast

lemma replay_is_per_book_example:
  "\<exists>n mb'. step_until 4 two_books = Some (Inr n, mb') \<and>
     map_option seq (view_engine ''x:btc'' mb') = Some 2 \<and> map_option seq (view_engine ''x:eth'' mb') = Some 1"
proof -
  let ?due = "\<lambda>key. map (tag_event key) (filter (\<lambda>ev. ev_ts_received ev \<le> 4) (coming key two_books))"
  obtain n mb' where "step_until 4 two_books = Some (Inr n, mb')"
    "\<forall>key. view_engine key mb' = map_option (run_updates (?due key)) (view_engine key two_books)"
    using replay_is_per_book [OF two_books_calm, of 4] by blast
  moreover have "map_option seq (map_option (run_updates (?due ''x:btc'')) (view_engine ''x:btc'' two_books)) = Some 2"
    "map_option seq (map_option (run_updates (?due ''x:eth'')) (view_engine ''x:eth'' two_books)) = Some 1" by code_simp+
  ultimately show ?thesis by metis
qed

section \<open>Strategy events\<close>

text \<open>A strategy event that \<open>submit_strategy_event\<close> accepts is queued for its own book as a
  strategy event; with the check for monotonic time it is never queued before the current time, and
  without an exchange time of its own it comes after every other strategy event of its receive time
  that has one. Nothing else in the queue, the streams or the books changes.\<close>

lemma accepted_strategy_event:
  assumes "mb_wf mb" "submit_strategy_event i ev latency mb = (None, mb')" "strategy_events mb' \<noteq> strategy_events mb"
  shows "\<exists>e. set (heap mb') = insert e (set (heap mb)) \<and> he_kind e = Strategy \<and>
    entry_matches (streams mb') (strategy_events mb') e \<and>
    ev_symbol_id (si_ev (strategy_events mb' ! he_strategy_index e)) = book_key i \<and>
    ev_update_source (si_ev (strategy_events mb' ! he_strategy_index e)) = STRATEGY \<and>
    (require_monotonic_ts_received mb \<and> has_current_time mb \<longrightarrow> current_ts_received mb \<le> he_ts_received e) \<and>
    (ev_ts_exchange ev = 0 \<longrightarrow> he_ts_exchange e = int64_max) \<and>
    streams mb' = streams mb \<and> books mb' = books mb"
proof -
  have known: "has_book_key (book_key i) mb"
  proof (rule ccontr)
    assume "\<not> has_book_key (book_key i) mb"
    with assms(2,3) show False by (auto simp: submit_unknown mb_emit_diagnostic_def split: if_splits)
  qed
  have t: "\<not> time_travel (submitted i ev latency mb) mb"
  proof (rule notI)
    assume "time_travel (submitted i ev latency mb) mb"
    with assms(2,3) known show False
      by (auto simp: submit_late mb_emit_diagnostic_def split: if_splits)
  qed
  from known t have mb': "mb' = mb\<lparr>strategy_events := strategy_events mb @
       [\<lparr>si_ev = submitted i ev latency mb, si_insertion_seq = strategy_seq_counter mb + 1\<rparr>],
     strategy_seq_counter := strategy_seq_counter mb + 1,
     heap := pq_push heap_lower (strategy_entry (submitted i ev latency mb) (length (strategy_events mb))) (heap mb)\<rparr>"
    using assms(2) by (simp add: submit_accepted)
  have "ev_ts_exchange ev = 0 \<longrightarrow> ev_ts_exchange (submitted i ev latency mb) = int64_max"
    by (simp add: submitted_def Let_def split: option.splits)
  with t show ?thesis
    by (intro exI [of _ "strategy_entry (submitted i ev latency mb) (length (strategy_events mb))"])
      (auto simp: mb' strategy_entry_def entry_matches_def time_travel_def)
qed

lemma accepted_strategy_event_example:
  "\<exists>e. set (heap (snd (submit_strategy_event btc (paper_add BUY 105 1 3) (Some 2) two_books))) = {e} \<and> he_ts_exchange e = int64_max"
proof -
  let ?mb = "snd (submit_strategy_event btc (paper_add BUY 105 1 3) (Some 2) two_books)"
  have "submit_strategy_event btc (paper_add BUY 105 1 3) (Some 2) two_books = (None, ?mb)"
    "strategy_events ?mb \<noteq> strategy_events two_books" "heap two_books = []" "ev_ts_exchange (paper_add BUY 105 1 3) = 0" by code_simp+
  from accepted_strategy_event [OF two_books_wf this(1,2)] this(3,4) show ?thesis
    by (metis empty_set)
qed

section \<open>Errors\<close>

text \<open>An operation on a book that does not exist reports one diagnostic with the book's key when a
  multi sink is attached, returns nothing, throws only for a submission under \<open>fail_fast\<close>, and
  leaves books, streams, queue and clock as they were.\<close>

lemma unknown_book_is_reported:
  assumes "\<not> has_book_key (book_key i) mb"
  shows "\<forall>mb' \<in> {snd (mb_apply i ev mb), snd (submit_strategy_event i ev latency mb), snd (mb_depth_at i s px mb),
      snd (mb_l2_top_n i s n mb), snd (mb_get_best_price_ticks i s mb), mb_set_log_sink i snk mb}.
      same_queue mb mb' \<and> books mb' = books mb \<and> current_time mb' = current_time mb \<and>
      (if multi_sink mb then \<exists>d. mcalls mb' = mcalls mb @ [OnDiagnostic d] \<and> dr_book_key d = book_key i
       else mcalls mb' = mcalls mb) \<and>
    fst (mb_apply i ev mb) = None \<and> fst (mb_depth_at i s px mb) = None \<and> fst (mb_l2_top_n i s n mb) = [] \<and>
    fst (mb_get_best_price_ticks i s mb) = None \<and>
    fst (submit_strategy_event i ev latency mb) = (if fail_fast mb then Some StrategyUnknownBook else None)"
proof -
  have none: "hm_find (books mb) (book_key i) = None" using assms by (simp add: has_book_key_def hm_contains_def)
  have diag: "same_queue mb mb' \<and> books mb' = books mb \<and> current_time mb' = current_time mb \<and>
      (if multi_sink mb then \<exists>d. mcalls mb' = mcalls mb @ [OnDiagnostic d] \<and> dr_book_key d = book_key i
       else mcalls mb' = mcalls mb)"
    if "mb' = mb_emit_diagnostic (book_key i) code ERROR 0 tr te mb" for mb' code tr te
    unfolding that by (simp add: current_time_def) (simp add: mb_emit_diagnostic_def)
  have eqs: "mb_apply i ev mb = (None, mb_emit_diagnostic (book_key i) APPLY_EVENT_REQUESTED_FOR_UNKNOWN_BOOK ERROR 0
      (ev_ts_received ev) (ev_ts_exchange ev) mb)"
    "mb_depth_at i s px mb = (None, mb_emit_diagnostic (book_key i)
      DEPTH_AT_FOR_UNKNOWN_BOOK_IN_MULTI_BOOK_SIMULATOR ERROR 0 (-1) (-1) mb)"
    "mb_l2_top_n i s n mb = ([], mb_emit_diagnostic (book_key i)
      L2_TOP_N_FOR_UNKNOWN_BOOK_IN_MULTI_BOOK_SIMULATOR ERROR 0 (-1) (-1) mb)"
    "mb_get_best_price_ticks i s mb = (None, mb_emit_diagnostic (book_key i)
      GET_BEST_PRICE_TICKS_FOR_UNKNOWN_BOOK_IN_MULTI_BOOK_SIMULATOR ERROR 0 (-1) (-1) mb)"
    "mb_set_log_sink i snk mb = mb_emit_diagnostic (book_key i)
      SET_LOG_SINK_FOR_UNKNOWN_BOOK_IN_MULTI_BOOK_SIMULATOR ERROR 0 (-1) (-1) mb"
    using assms none
    by (simp_all add: mb_apply_def apply_to_book_def mb_depth_at_def mb_l2_top_n_def mb_get_best_price_ticks_def
        mb_set_log_sink_def get_book_key_def run_engine_def)
  show ?thesis
    unfolding eqs submit_unknown [OF assms] fst_conv snd_conv
    using diag by blast
qed

lemma unknown_book_is_reported_example:
  "fst (submit_strategy_event btc (hist_add BUY 1 1 1) None (multibook_init True True)) = Some StrategyUnknownBook"
proof -
  have "\<not> has_book_key (book_key btc) (multibook_init True True)" by code_simp
  from unknown_book_is_reported [OF this, of "hist_add BUY 1 1 1" None] show ?thesis
    by (simp add: multibook_init_def)
qed

end
