(* ===== verification/ReplaySession.thy ===== *)
theory ReplaySession
  imports EngineFacts
begin

text \<open>
  \<open>ReplaySession\<close> (\<open>replay_session.hpp\<close>): feeds normalized events, or the raw events of a source
  through an adapter, to an engine. The session holds a reference to an \<open>IMatchingEngine\<close>, an
  abstract class: its \<open>update\<close> is the argument \<open>upd\<close> of the operations and the engine's state the
  field \<open>rs_engine\<close>. Source and adapter are template parameters: a source is the list of what its
  \<open>next\<close> still gives, \<open>Inl ()\<close> where it throws, and an adapter a function that gives \<open>None\<close> where it
  throws. A call that throws loses the summary but keeps the state the engine and the session
  had reached, so a result is a pair of an error or a value with the state.
\<close>

section \<open>State\<close>

datatype ReplayError = InvalidTsReceived | NonMonotonicTsReceived | AdapterThrew | SourceThrew

record ReplayConfig =
  rc_require_monotonic_ts_received :: bool
  rc_fail_fast :: bool

record RunSummary =
  num_raw_events :: nat
  num_normalized_events :: nat
  num_engine_updates :: nat
  num_adapter_failures :: nat
  has_ts_range :: bool
  first_ts_received :: int
  last_ts_received :: int

record 'e ReplaySession =
  rs_engine :: 'e
  rs_cfg :: ReplayConfig
  rs_has_last_ts_received :: bool
  rs_last_ts_received :: int

definition default_ReplayConfig :: ReplayConfig where
  "default_ReplayConfig = \<lparr>rc_require_monotonic_ts_received = True, rc_fail_fast = True\<rparr>"

definition empty_RunSummary :: RunSummary where
  "empty_RunSummary = \<lparr>num_raw_events = 0, num_normalized_events = 0, num_engine_updates = 0,
     num_adapter_failures = 0, has_ts_range = False, first_ts_received = 0, last_ts_received = 0\<rparr>"

definition replay_session :: "'e \<Rightarrow> ReplayConfig \<Rightarrow> 'e ReplaySession" where
  "replay_session engine cfg = \<lparr>rs_engine = engine, rs_cfg = cfg,
     rs_has_last_ts_received = False, rs_last_ts_received = 0\<rparr>"

section \<open>Operations\<close>

definition session_step ::
  "(NormalizedLobEvent \<Rightarrow> 'e \<Rightarrow> 'e) \<Rightarrow> NormalizedLobEvent \<Rightarrow> 'e ReplaySession \<Rightarrow>
     (ReplayError + unit) \<times> 'e ReplaySession" where
  "session_step upd ev s =
     (if ev_ts_received ev < 0 then (Inl InvalidTsReceived, s)
      else if rc_require_monotonic_ts_received (rs_cfg s) \<and> rs_has_last_ts_received s \<and>
              ev_ts_received ev < rs_last_ts_received s
      then (Inl NonMonotonicTsReceived, s)
      else let s1 = s\<lparr>rs_has_last_ts_received := True, rs_last_ts_received := ev_ts_received ev\<rparr>
           in (Inr (), s1\<lparr>rs_engine := upd ev (rs_engine s1)\<rparr>))"

definition note_ts_received :: "int \<Rightarrow> RunSummary \<Rightarrow> RunSummary" where
  \<comment> \<open>the part of both loops that keeps the range of receive times\<close>
  "note_ts_received t summary =
     (if \<not> has_ts_range summary
      then summary\<lparr>has_ts_range := True, first_ts_received := t, last_ts_received := t\<rparr>
      else let s1 = (if t < first_ts_received summary then summary\<lparr>first_ts_received := t\<rparr>
                     else summary)
           in if t > last_ts_received s1 then s1\<lparr>last_ts_received := t\<rparr> else s1)"

definition session_event ::
  "(NormalizedLobEvent \<Rightarrow> 'e \<Rightarrow> 'e) \<Rightarrow> NormalizedLobEvent \<Rightarrow> RunSummary \<Rightarrow> 'e ReplaySession \<Rightarrow>
     (ReplayError + RunSummary) \<times> 'e ReplaySession" where
  \<comment> \<open>what both loops do with one normalized event\<close>
  "session_event upd ev summary s =
     (let summary1 = note_ts_received (ev_ts_received ev)
            (summary\<lparr>num_normalized_events := num_normalized_events summary + 1\<rparr>)
      in case session_step upd ev s of
           (Inl e, s') \<Rightarrow> (Inl e, s')
         | (Inr _, s') \<Rightarrow>
             (Inr (summary1\<lparr>num_engine_updates := num_engine_updates summary1 + 1\<rparr>), s'))"

fun run_loop ::
  "(NormalizedLobEvent \<Rightarrow> 'e \<Rightarrow> 'e) \<Rightarrow> NormalizedLobEvent list \<Rightarrow> RunSummary \<Rightarrow>
     'e ReplaySession \<Rightarrow> (ReplayError + RunSummary) \<times> 'e ReplaySession" where
  "run_loop upd [] summary s = (Inr summary, s)"
| "run_loop upd (ev # evs) summary s =
     (case session_event upd ev summary s of
        (Inl e, s') \<Rightarrow> (Inl e, s')
      | (Inr summary', s') \<Rightarrow> run_loop upd evs summary' s')"

definition session_run ::
  "(NormalizedLobEvent \<Rightarrow> 'e \<Rightarrow> 'e) \<Rightarrow> NormalizedLobEvent list \<Rightarrow> ReplayConfig \<Rightarrow>
     'e ReplaySession \<Rightarrow> (ReplayError + RunSummary) \<times> 'e ReplaySession" where
  "session_run upd evs cfg s = run_loop upd evs empty_RunSummary (s\<lparr>rs_cfg := cfg\<rparr>)"

fun run_source_loop ::
  "(NormalizedLobEvent \<Rightarrow> 'e \<Rightarrow> 'e) \<Rightarrow> ('r \<Rightarrow> NormalizedLobEvent option) \<Rightarrow> (unit + 'r) list \<Rightarrow>
     bool \<Rightarrow> RunSummary \<Rightarrow> 'e ReplaySession \<Rightarrow> (ReplayError + RunSummary) \<times> 'e ReplaySession" where
  "run_source_loop upd adapt [] ff summary s = (Inr summary, s)"
| "run_source_loop upd adapt (Inl _ # src) ff summary s = (Inl SourceThrew, s)"
| "run_source_loop upd adapt (Inr raw # src) ff summary s =
     (let summary1 = summary\<lparr>num_raw_events := num_raw_events summary + 1\<rparr>
      in case adapt raw of
           None \<Rightarrow>
             let summary2 = summary1\<lparr>num_adapter_failures := num_adapter_failures summary1 + 1\<rparr>
             in if ff then (Inl AdapterThrew, s)
                else run_source_loop upd adapt src ff summary2 s
         | Some ev \<Rightarrow>
             (case session_event upd ev summary1 s of
                (Inl e, s') \<Rightarrow> (Inl e, s')
              | (Inr summary', s') \<Rightarrow> run_source_loop upd adapt src ff summary' s'))"

definition session_run_source ::
  "(NormalizedLobEvent \<Rightarrow> 'e \<Rightarrow> 'e) \<Rightarrow> ('r \<Rightarrow> NormalizedLobEvent option) \<Rightarrow> (unit + 'r) list \<Rightarrow>
     ReplayConfig \<Rightarrow> 'e ReplaySession \<Rightarrow> (ReplayError + RunSummary) \<times> 'e ReplaySession" where
  "session_run_source upd adapt src cfg s =
     run_source_loop upd adapt src (rc_fail_fast cfg) empty_RunSummary (s\<lparr>rs_cfg := cfg\<rparr>)"

section \<open>What is accepted\<close>

definition accepted_times :: "ReplayConfig \<Rightarrow> 'e ReplaySession \<Rightarrow> NormalizedLobEvent list \<Rightarrow> bool" where
  \<comment> \<open>no receive time is negative and, where the configuration asks for it, none goes back\<close>
  "accepted_times cfg s evs \<longleftrightarrow> list_all (\<lambda>ev. 0 \<le> ev_ts_received ev) evs \<and>
     (rc_require_monotonic_ts_received cfg \<longrightarrow>
        sorted ((if rs_has_last_ts_received s then [rs_last_ts_received s] else []) @
                map ev_ts_received evs))"

definition delivered :: "bool \<Rightarrow> ('r \<Rightarrow> NormalizedLobEvent option) \<Rightarrow> (unit + 'r) list \<Rightarrow> (unit + 'r) list" where
  \<comment> \<open>what a source delivers before it throws or, with \<open>fail_fast\<close>, before the adapter does\<close>
  "delivered ff adapt src =
     takeWhile (\<lambda>x. case x of Inl _ \<Rightarrow> False | Inr raw \<Rightarrow> \<not> (ff \<and> adapt raw = None)) src"

definition normalized :: "('r \<Rightarrow> NormalizedLobEvent option) \<Rightarrow> (unit + 'r) list \<Rightarrow> NormalizedLobEvent list" where
  "normalized adapt src = List.map_filter (\<lambda>x. case x of Inl _ \<Rightarrow> None | Inr raw \<Rightarrow> adapt raw) src"

lemma normalized_simps [simp]:
  "normalized f [] = []"
  "normalized f (Inl u # src) = normalized f src"
  "normalized f (Inr r # src) = (case f r of None \<Rightarrow> normalized f src | Some ev \<Rightarrow> ev # normalized f src)"
  by (simp_all add: normalized_def map_filter_simps split: option.split)

lemma delivered_simps [simp]:
  "delivered ff f [] = []"
  "delivered ff f (Inl u # src) = []"
  "delivered ff f (Inr r # src) = (if ff \<and> f r = None then [] else Inr r # delivered ff f src)"
  by (auto simp: delivered_def simp del: not_None_eq)

end
