(* ===== verification/ReplayFacts.thy ===== *)
theory ReplayFacts
  imports ReplaySession
begin

text \<open>
  Facts on replay sessions: what a run over accepted events does, where a run over other events
  stops, and how a run over a source and an adapter reduces to a run over events. The engine
  behind a session is the locale \<open>matching_engine\<close>, an \<open>update\<close> with an invariant it keeps.
\<close>

section \<open>Accepted events\<close>

definition advance :: "(NormalizedLobEvent \<Rightarrow> 'e \<Rightarrow> 'e) \<Rightarrow> NormalizedLobEvent list \<Rightarrow>
    'e ReplaySession \<Rightarrow> 'e ReplaySession" where
  \<comment> \<open>the session after accepted events\<close>
  "advance upd evs s = fold (\<lambda>ev s. s\<lparr>rs_engine := upd ev (rs_engine s),
     rs_has_last_ts_received := True, rs_last_ts_received := ev_ts_received ev\<rparr>) evs s"

definition tally :: "NormalizedLobEvent list \<Rightarrow> RunSummary \<Rightarrow> RunSummary" where
  \<comment> \<open>the summary after accepted events\<close>
  "tally evs su = fold (\<lambda>ev su. let su1 = note_ts_received (ev_ts_received ev)
       (su\<lparr>num_normalized_events := num_normalized_events su + 1\<rparr>)
     in su1\<lparr>num_engine_updates := num_engine_updates su1 + 1\<rparr>) evs su"

lemma advance_simps [simp]:
  "advance upd [] s = s"
  "advance upd (ev # evs) s = advance upd evs (s\<lparr>rs_engine := upd ev (rs_engine s),
     rs_has_last_ts_received := True, rs_last_ts_received := ev_ts_received ev\<rparr>)"
  by (simp_all add: advance_def)

lemma rs_engine_advance [simp]: "rs_engine (advance upd evs s) = fold upd evs (rs_engine s)"
  by (induction evs arbitrary: s) simp_all

lemma rs_cfg_advance [simp]: "rs_cfg (advance upd evs s) = rs_cfg s"
  by (induction evs arbitrary: s) simp_all

lemma accepted_times_Nil [simp]:
  "accepted_times cfg s []"
  by (simp add: accepted_times_def)

lemma accepted_times_Cons:
  "accepted_times cfg s (ev # evs) \<longleftrightarrow> 0 \<le> ev_ts_received ev \<and>
     \<not> (rc_require_monotonic_ts_received cfg \<and> rs_has_last_ts_received s \<and>
        ev_ts_received ev < rs_last_ts_received s) \<and>
     accepted_times cfg (advance upd [ev] s) evs"
  by (auto simp: accepted_times_def)

lemma accepted_times_cfg [simp]: "accepted_times cfg (s\<lparr>rs_cfg := c\<rparr>) = accepted_times cfg s"
  by (simp add: accepted_times_def fun_eq_iff)

lemma session_event_accepted:
  assumes "accepted_times (rs_cfg s) s (ev # evs)"
  shows "session_event upd ev su s = (Inr (tally [ev] su), advance upd [ev] s)"
  using assms by (auto simp: accepted_times_Cons [of _ _ _ _ upd] session_event_def session_step_def
      tally_def Let_def)

lemma run_loop_accepted:
  assumes "accepted_times (rs_cfg s) s evs"
  shows "run_loop upd evs su s = (Inr (tally evs su), advance upd evs s)"
  using assms
proof (induction evs arbitrary: su s)
  case Nil
  then show ?case by (simp add: tally_def)
next
  case (Cons ev evs)
  have "accepted_times (rs_cfg (advance upd [ev] s)) (advance upd [ev] s) evs"
    using Cons.prems by (simp add: accepted_times_Cons [of _ _ _ _ upd])
  from Cons.IH [OF this] session_event_accepted [OF Cons.prems]
  show ?case by (simp add: tally_def)
qed

lemma session_event_rejected:
  assumes "\<not> accepted_times (rs_cfg s) s [ev]"
  shows "session_event upd ev su s =
    (Inl (if ev_ts_received ev < 0 then InvalidTsReceived else NonMonotonicTsReceived), s)"
  using assms
  by (cases "rs_has_last_ts_received s")
    (auto simp: accepted_times_def session_event_def session_step_def Let_def)

lemma run_loop_rejected:
  assumes "\<not> accepted_times (rs_cfg s) s evs"
  shows "\<exists>k<length evs. accepted_times (rs_cfg s) s (take k evs) \<and>
     \<not> accepted_times (rs_cfg s) s (take (Suc k) evs) \<and>
     run_loop upd evs su s = (Inl (if ev_ts_received (evs ! k) < 0 then InvalidTsReceived
       else NonMonotonicTsReceived), advance upd (take k evs) s)"
  using assms
proof (induction evs arbitrary: su s)
  case Nil
  then show ?case by simp
next
  case (Cons ev evs)
  show ?case
  proof (cases "accepted_times (rs_cfg s) s [ev]")
    case False
    then show ?thesis using session_event_rejected [OF False] by (intro exI [of _ 0]) simp
  next
    case True
    let ?s = "advance upd [ev] s"
    have "\<not> accepted_times (rs_cfg ?s) ?s evs"
      using Cons.prems True by (auto simp: accepted_times_Cons [of _ _ _ _ upd])
    from Cons.IH [OF this] obtain k where k: "k < length evs"
      "accepted_times (rs_cfg ?s) ?s (take k evs)" "\<not> accepted_times (rs_cfg ?s) ?s (take (Suc k) evs)"
      "run_loop upd evs (tally [ev] su) ?s = (Inl (if ev_ts_received (evs ! k) < 0
         then InvalidTsReceived else NonMonotonicTsReceived), advance upd (take k evs) ?s)"
      by blast
    then show ?thesis
      using True session_event_accepted [OF True, of upd su]
      by (intro exI [of _ "Suc k"]) (simp add: accepted_times_Cons [of _ _ _ _ upd])
  qed
qed

section \<open>The summary\<close>

lemma note_ts_received_counts [simp]:
  "num_engine_updates (note_ts_received t su) = num_engine_updates su"
  "(note_ts_received t su)\<lparr>num_engine_updates := k\<rparr> = note_ts_received t (su\<lparr>num_engine_updates := k\<rparr>)"
  by (simp_all add: note_ts_received_def Let_def)

lemma tally_simps [simp]:
  "tally [] su = su"
  "tally (ev # evs) su = tally evs (note_ts_received (ev_ts_received ev)
     (su\<lparr>num_normalized_events := num_normalized_events su + 1,
         num_engine_updates := num_engine_updates su + 1\<rparr>))"
  by (simp_all add: tally_def Let_def)

lemma tally_counts:
  "num_normalized_events (tally evs su) = num_normalized_events su + length evs \<and>
   num_engine_updates (tally evs su) = num_engine_updates su + length evs \<and>
   num_raw_events (tally evs su) = num_raw_events su \<and>
   num_adapter_failures (tally evs su) = num_adapter_failures su \<and>
   has_ts_range (tally evs su) = (has_ts_range su \<or> evs \<noteq> [])"
  by (induction evs arbitrary: su) (simp_all add: note_ts_received_def Let_def)

lemma tally_range:
  assumes "has_ts_range su" "first_ts_received su \<le> last_ts_received su"
  shows "first_ts_received (tally evs su) = fold min (map ev_ts_received evs) (first_ts_received su) \<and>
    last_ts_received (tally evs su) = fold max (map ev_ts_received evs) (last_ts_received su)"
  using assms
  by (induction evs arbitrary: su) (auto simp: note_ts_received_def Let_def min_def max_def)

lemma tally_range_new:
  assumes "\<not> has_ts_range su" "evs \<noteq> []"
  shows "first_ts_received (tally evs su) = Min (set (map ev_ts_received evs)) \<and>
    last_ts_received (tally evs su) = Max (set (map ev_ts_received evs))"
proof -
  obtain ev evs' where [simp]: "evs = ev # evs'" using assms(2) by (cases evs) auto
  let ?su = "su\<lparr>num_normalized_events := num_normalized_events su + 1,
    num_engine_updates := num_engine_updates su + 1, has_ts_range := True,
    first_ts_received := ev_ts_received ev, last_ts_received := ev_ts_received ev\<rparr>"
  have "tally evs su = tally evs' ?su" using assms(1) by (simp add: note_ts_received_def)
  moreover have "set (map ev_ts_received evs) = set (ev_ts_received ev # map ev_ts_received evs')"
    by simp
  ultimately show ?thesis
    using tally_range [of ?su evs'] by (simp only: Min.set_eq_fold Max.set_eq_fold) simp
qed

section \<open>Sources\<close>

lemma length_normalized: "length (normalized adapt xs) \<le> length xs"
  by (induction xs) (auto simp: normalized_def map_filter_simps split: option.split)

definition with_raw :: "nat \<Rightarrow> nat \<Rightarrow> RunSummary \<Rightarrow> RunSummary" where
  "with_raw n m su = su\<lparr>num_raw_events := n, num_adapter_failures := m\<rparr>"

lemma session_event_with_raw:
  "session_event upd ev (with_raw n m su) s =
     (case session_event upd ev su s of (Inl e, s') \<Rightarrow> (Inl e, s')
      | (Inr su', s') \<Rightarrow> (Inr (with_raw n m su'), s'))"
  by (auto simp: session_event_def note_ts_received_def with_raw_def Let_def
      split: sum.split prod.split)

definition stop_result :: "(unit + 'r) list \<Rightarrow> (unit + 'r) list \<Rightarrow> RunSummary \<Rightarrow> ReplayError + RunSummary" where
  \<comment> \<open>how a run over a source ends that delivered \<open>got\<close> of \<open>src\<close>\<close>
  "stop_result src got su =
     (if got = src then Inr su
      else if isl (src ! length got) then Inl SourceThrew else Inl AdapterThrew)"

lemma stop_result_Cons [simp]:
  "stop_result [] [] su = Inr su"
  "stop_result (x # src) (x # got) su = stop_result src got su"
  by (simp_all add: stop_result_def)

lemma with_raw_simps [simp]:
  "num_raw_events (with_raw n m su) = n" "num_adapter_failures (with_raw n m su) = m"
  "(with_raw n m su)\<lparr>num_raw_events := k\<rparr> = with_raw k m su"
  "(with_raw n m su)\<lparr>num_adapter_failures := k\<rparr> = with_raw n k su"
  by (simp_all add: with_raw_def)

lemma run_source_loop_is_run_loop:
  "run_source_loop upd adapt src ff (with_raw n m su) s =
     (let got = delivered ff adapt src; evs = normalized adapt got
      in case run_loop upd evs su s of
           (Inl e, s') \<Rightarrow> (Inl e, s')
         | (Inr su', s') \<Rightarrow>
             (stop_result src got (with_raw (n + length got) (m + (length got - length evs)) su'), s'))"
proof (induction src arbitrary: n m su s)
  case Nil
  then show ?case by (simp add: Let_def)
next
  case (Cons x src)
  show ?case
  proof (cases x)
    case (Inl u)
    then show ?thesis by (simp add: stop_result_def)
  next
    case [simp]: (Inr raw)
    show ?thesis
    proof (cases "adapt raw")
      case None
      then show ?thesis
        using Cons.IH [of "Suc n" "Suc m" su s] length_normalized [of adapt "delivered False adapt src"]
        by (auto simp: stop_result_def Let_def Suc_diff_le split: prod.split sum.split)
    next
      case (Some ev)
      show ?thesis
      proof (cases "session_event upd ev su s")
        case (Pair r s')
        then show ?thesis using Some Cons.IH [of "Suc n" m _ s']
          by (cases r) (simp_all add: session_event_with_raw Let_def split: prod.split sum.split)
      qed
    qed
  qed
qed

lemma session_run_source_run:
  "session_run_source upd adapt src cfg s =
     (let got = delivered (rc_fail_fast cfg) adapt src; evs = normalized adapt got
      in case session_run upd evs cfg s of
           (Inl e, s') \<Rightarrow> (Inl e, s')
         | (Inr su', s') \<Rightarrow>
             (stop_result src got (with_raw (length got) (length got - length evs) su'), s'))"
proof -
  have "with_raw 0 0 empty_RunSummary = empty_RunSummary"
    by (simp add: with_raw_def empty_RunSummary_def)
  with run_source_loop_is_run_loop
    [of upd adapt src "rc_fail_fast cfg" 0 0 empty_RunSummary, unfolded add_0_left]
  show ?thesis by (simp add: session_run_source_def session_run_def)
qed

lemma session_run_counts:
  assumes "session_run upd evs cfg s = (Inr su, t)"
  shows "num_normalized_events su = length evs"
proof (cases "accepted_times (rs_cfg (s\<lparr>rs_cfg := cfg\<rparr>)) (s\<lparr>rs_cfg := cfg\<rparr>) evs")
  case True
  then show ?thesis using assms tally_counts [of evs empty_RunSummary]
    by (simp add: session_run_def run_loop_accepted empty_RunSummary_def)
next
  case False
  from run_loop_rejected [OF False, of upd empty_RunSummary] assms show ?thesis
    by (auto simp: session_run_def)
qed

section \<open>The engine behind a session\<close>

locale matching_engine =
  fixes upd :: "NormalizedLobEvent \<Rightarrow> 'e \<Rightarrow> 'e"
    and inv :: "'e \<Rightarrow> bool"
  assumes update_keeps: "inv e \<Longrightarrow> inv (upd ev e)"
begin

lemma fold_keeps: "inv e \<Longrightarrow> inv (fold upd evs e)"
  by (induction evs arbitrary: e) (simp_all add: update_keeps)

lemma run_loop_keeps: "inv (rs_engine s) \<Longrightarrow> inv (rs_engine (snd (run_loop upd evs su s)))"
proof (cases "accepted_times (rs_cfg s) s evs")
  case True
  then show "inv (rs_engine s) \<Longrightarrow> ?thesis" by (simp add: run_loop_accepted fold_keeps)
next
  case False
  from run_loop_rejected [OF False, of upd su] show "inv (rs_engine s) \<Longrightarrow> ?thesis"
    by (auto simp: fold_keeps)
qed

text \<open>Whatever a source delivers and wherever a run throws, the engine keeps its invariant.\<close>

lemma run_source_keeps:
  assumes "inv (rs_engine s)"
  shows "inv (rs_engine (snd (session_run_source upd adapt src cfg s)))"
proof -
  let ?evs = "normalized adapt (delivered (rc_fail_fast cfg) adapt src)"
  have "snd (session_run_source upd adapt src cfg s) = snd (session_run upd ?evs cfg s)"
    by (simp add: session_run_source_run Let_def split: prod.split sum.split)
  then show ?thesis using run_loop_keeps [of "s\<lparr>rs_cfg := cfg\<rparr>"] assms
    by (simp add: session_run_def)
qed

end

interpretation simulator: matching_engine update sim_wf
  by unfold_locales (use update_preserves_all in \<open>simp add: preserves_def\<close>)

end
