(* ===== verification/ReplayProps.thy ===== *)
theory ReplayProps
  imports ReplayFacts
begin

text \<open>
  The properties of replay sessions over the paper trading engine, with runs on concrete events.
\<close>

definition timed :: "int \<Rightarrow> NormalizedLobEvent \<Rightarrow> NormalizedLobEvent" where
  "timed t ev = ev\<lparr>ev_ts_received := t\<rparr>"

definition fresh_session :: "Sim ReplaySession" where
  "fresh_session = replay_session (sim_init 10 10) default_ReplayConfig"

text \<open>C26 A run over events of accepted receive times (none negative and, where the configuration
  asks for it, none before its predecessor or before the last event of an earlier run) applies every
  one of them to the engine in order and returns the counts and the exact range of the receive
  times; otherwise it throws at the first event that breaks the rule, with the engine in the state
  after exactly the events before it, and names the rule that was broken.\<close>

theorem session_run_exact:
  "let (r, s') = session_run update evs cfg s;
       times = set (map ev_ts_received evs)
   in if accepted_times cfg s evs
      then r = Inr \<lparr>num_raw_events = 0, num_normalized_events = length evs,
                    num_engine_updates = length evs, num_adapter_failures = 0,
                    has_ts_range = (evs \<noteq> []),
                    first_ts_received = (if evs = [] then 0 else Min times),
                    last_ts_received = (if evs = [] then 0 else Max times)\<rparr> \<and>
           rs_engine s' = run_updates evs (rs_engine s)
      else (\<exists>k<length evs. accepted_times cfg s (take k evs) \<and>
             \<not> accepted_times cfg s (take (Suc k) evs) \<and>
             rs_engine s' = run_updates (take k evs) (rs_engine s) \<and>
             r = Inl (if ev_ts_received (evs ! k) < 0 then InvalidTsReceived
                      else NonMonotonicTsReceived))"
proof (cases "accepted_times cfg s evs")
  case True
  let ?t = "tally evs empty_RunSummary"
  have "session_run update evs cfg s = (Inr ?t, advance update evs (s\<lparr>rs_cfg := cfg\<rparr>))"
    using True by (simp add: session_run_def run_loop_accepted)
  moreover have "evs \<noteq> [] \<Longrightarrow> first_ts_received ?t = Min (set (map ev_ts_received evs)) \<and>
      last_ts_received ?t = Max (set (map ev_ts_received evs))"
    by (rule tally_range_new) (simp_all add: empty_RunSummary_def)
  moreover have "evs = [] \<Longrightarrow> ?t = empty_RunSummary" by simp
  ultimately show ?thesis
    using True tally_counts [of evs empty_RunSummary]
    by (auto simp: run_updates_def empty_RunSummary_def)
next
  case False
  then have "\<not> accepted_times (rs_cfg (s\<lparr>rs_cfg := cfg\<rparr>)) (s\<lparr>rs_cfg := cfg\<rparr>) evs" by simp
  from run_loop_rejected [OF this, of update empty_RunSummary] False show ?thesis
    by (auto simp: session_run_def run_updates_def)
qed

lemma session_run_exact_example:
  "fst (session_run update [timed 5 (hist_add SELL 105 5 1), timed 9 (hist_add SELL 106 7 2)]
      default_ReplayConfig fresh_session) =
     Inr \<lparr>num_raw_events = 0, num_normalized_events = 2, num_engine_updates = 2,
       num_adapter_failures = 0, has_ts_range = True, first_ts_received = 5, last_ts_received = 9\<rparr>"
proof -
  let ?evs = "[timed 5 (hist_add SELL 105 5 1), timed 9 (hist_add SELL 106 7 2)]"
  have "accepted_times default_ReplayConfig fresh_session ?evs" by code_simp
  with session_run_exact [of ?evs default_ReplayConfig fresh_session] show ?thesis
    by (simp add: Let_def timed_def split: prod.splits)
qed

text \<open>A run over a source and an adapter does to the engine and the session exactly what a run
  over the normalized events does that the source and the adapter deliver before one of them stops
  the run, and throws what that run throws. Otherwise, where the whole source was delivered, it
  returns that run's summary with every raw event counted either as normalized or as a failure of
  the adapter; where it was not, it throws because the source did or, with \<open>fail_fast\<close>, the
  adapter.\<close>

lemma session_run_source_is_run:
  "let got = delivered (rc_fail_fast cfg) adapt src;
       (r, s') = session_run_source update adapt src cfg s;
       (q, t) = session_run update (normalized adapt got) cfg s
   in s' = t \<and>
      (case q of
         Inl e \<Rightarrow> r = Inl e
       | Inr su \<Rightarrow>
           if got = src
           then (\<exists>m. r = Inr (su\<lparr>num_raw_events := length src, num_adapter_failures := m\<rparr>) \<and>
                   length src = num_normalized_events su + m)
           else r = Inl (if isl (src ! length got) then SourceThrew else AdapterThrew))"
  using session_run_source_run [of update adapt src cfg s]
    session_run_counts [of update "normalized adapt (delivered (rc_fail_fast cfg) adapt src)" cfg s]
    length_normalized [of adapt "delivered (rc_fail_fast cfg) adapt src"]
  by (auto simp: Let_def stop_result_def with_raw_def split: prod.split sum.split)

lemma session_run_source_is_run_example:
  "fst (session_run_source update (\<lambda>ev. if ev_quantity_lots ev < 0 then None else Some ev)
      [Inr (timed 5 (hist_add SELL 105 5 1)), Inr (timed 6 (hist_add SELL 106 (- 7) 2))]
      \<lparr>rc_require_monotonic_ts_received = True, rc_fail_fast = False\<rparr> fresh_session) =
     Inr \<lparr>num_raw_events = 2, num_normalized_events = 1, num_engine_updates = 1,
       num_adapter_failures = 1, has_ts_range = True, first_ts_received = 5, last_ts_received = 5\<rparr>"
proof -
  let ?cfg = "\<lparr>rc_require_monotonic_ts_received = True, rc_fail_fast = False\<rparr>"
  let ?src = "[Inr (timed 5 (hist_add SELL 105 5 1)), Inr (timed 6 (hist_add SELL 106 (- 7) 2))]"
  let ?adapt = "\<lambda>ev. if ev_quantity_lots ev < 0 then None else Some ev"
  have "delivered False ?adapt ?src = ?src" by code_simp
  moreover have "normalized ?adapt ?src = [timed 5 (hist_add SELL 105 5 1)]" by code_simp
  moreover have "fst (session_run update [timed 5 (hist_add SELL 105 5 1)] ?cfg fresh_session) =
     Inr \<lparr>num_raw_events = 0, num_normalized_events = 1, num_engine_updates = 1,
       num_adapter_failures = 0, has_ts_range = True, first_ts_received = 5, last_ts_received = 5\<rparr>"
    by code_simp
  ultimately show ?thesis
    using session_run_source_is_run [of ?cfg ?adapt ?src fresh_session]
    by (auto simp: Let_def split: prod.splits sum.splits)
qed

text \<open>The engine stays well formed whatever a session is fed.\<close>

lemma session_run_source_keeps_wf:
  "sim_wf (rs_engine s) \<Longrightarrow> sim_wf (rs_engine (snd (session_run_source update adapt src cfg s)))"
  by (rule simulator.run_source_keeps)

end
