(* ===== verification/Text.thy ===== *)
theory Text
  imports Prelude
begin

text \<open>
  The characters and number formats of the feeds: the parts of \<open><cctype>\<close>, \<open><charconv>\<close> and
  \<open><cstdlib>\<close> the parsers call, and lemmas on trimming and on decimal digits that every parser
  shares. A text is a list of characters.
\<close>

section \<open>Characters\<close>

definition char_code :: "char \<Rightarrow> nat" where
  "char_code c = of_char c"

definition is_digit :: "char \<Rightarrow> bool" where
  "is_digit c = (48 \<le> char_code c \<and> char_code c \<le> 57)"

definition digit_value :: "char \<Rightarrow> int" where
  \<comment> \<open>the expression \<open>c - '0'\<close>\<close>
  "digit_value c = int (char_code c) - 48"

definition isspace :: "char \<Rightarrow> bool" where
  \<comment> \<open>\<open>std::isspace\<close> in the C locale: space and the codes 9 to 13\<close>
  "isspace c = (char_code c = 32 \<or> (9 \<le> char_code c \<and> char_code c \<le> 13))"

definition toupper :: "char \<Rightarrow> char" where
  \<comment> \<open>\<open>std::toupper\<close> in the C locale\<close>
  "toupper c = (if 97 \<le> char_code c \<and> char_code c \<le> 122 then char_of (char_code c - 32) else c)"

definition strip :: "(char \<Rightarrow> bool) \<Rightarrow> string \<Rightarrow> string" where
  \<comment> \<open>both trimming loops of a text: first the front, then the back\<close>
  "strip blank s = rev (dropWhile blank (rev (dropWhile blank s)))"

section \<open>Decimal numbers\<close>

definition int64_in_range :: "int \<Rightarrow> bool" where
  "int64_in_range v = (- (2 ^ 63) \<le> v \<and> v < 2 ^ 63)"

definition decimal :: "string \<Rightarrow> int" where
  "decimal ds = foldl (\<lambda>v c. 10 * v + digit_value c) 0 ds"

definition digit_char :: "nat \<Rightarrow> char" where
  "digit_char d = char_of (48 + d)"

fun show_nat :: "nat \<Rightarrow> string" where
  "show_nat n = (if n < 10 then [digit_char n] else show_nat (n div 10) @ [digit_char (n mod 10)])"

declare show_nat.simps [simp del]

definition show_int :: "int \<Rightarrow> string" where
  \<comment> \<open>\<open>std::to_chars\<close> of an integer in base 10\<close>
  "show_int v = (if v < 0 then CHR ''-'' # show_nat (nat (- v)) else show_nat (nat v))"

definition from_chars_int64 :: "string \<Rightarrow> (int \<times> string) option" where
  \<comment> \<open>\<open>std::from_chars\<close> for an \<open>int64\<close>: an optional minus sign and the longest run of digits; the
      value with the rest of the text, or \<open>None\<close> where \<open>ec\<close> is set (no digit, or out of range)\<close>
  "from_chars_int64 s =
     (let minus = (s \<noteq> [] \<and> hd s = CHR ''-'');
          t = (if minus then tl s else s);
          ds = takeWhile is_digit t;
          v = (if minus then - decimal ds else decimal ds)
      in if ds = [] \<or> \<not> int64_in_range v then None else Some (v, dropWhile is_digit t))"

definition strtoll :: "string \<Rightarrow> int \<times> string" where
  \<comment> \<open>\<open>std::strtoll\<close> in base 10: leading white space, an optional sign, the longest run of digits,
      the value clamped to the range of \<open>int64\<close>; without a digit nothing is consumed\<close>
  "strtoll s =
     (let t = dropWhile isspace s;
          minus = (t \<noteq> [] \<and> hd t = CHR ''-'');
          u = (if t \<noteq> [] \<and> (hd t = CHR ''-'' \<or> hd t = CHR ''+'') then tl t else t);
          ds = takeWhile is_digit u;
          v = (if minus then - decimal ds else decimal ds)
      in if ds = [] then (0, s)
         else (max (- (2 ^ 63)) (min (2 ^ 63 - 1) v), dropWhile is_digit u))"

section \<open>Lemmas\<close>

lemma strip_padded:
  assumes "list_all blank l" "list_all blank r" "t = [] \<or> (\<not> blank (hd t) \<and> \<not> blank (last t))"
  shows "strip blank (l @ t @ r) = t"
proof -
  have drop: "dropWhile blank (xs @ ys) = dropWhile blank ys" if "list_all blank xs" for xs ys
    using that by (induction xs) auto
  have rev: "list_all blank (rev r)" using assms(2) by (simp add: list_all_iff)
  have keep: "dropWhile blank (u @ ys) = u @ ys" if "u \<noteq> []" "\<not> blank (hd u)" for u ys
    using that by (cases u) auto
  have last: "dropWhile blank (rev t) = rev t" if "t \<noteq> []" "\<not> blank (last t)"
    using keep [of "rev t" "[]"] that by (simp add: hd_rev)
  show ?thesis
  proof (cases "t = []")
    case True
    have "dropWhile blank (l @ t @ r) = []" using assms(2)
      by (simp only: True append_Nil drop [OF assms(1)] dropWhile_eq_Nil_conv list_all_iff)
    then show ?thesis by (simp only: strip_def rev.simps dropWhile.simps True)
  next
    case False
    then show ?thesis
      using assms(3) by (simp add: strip_def drop [OF assms(1)] keep drop [OF rev] last)
  qed
qed

lemma strip_id: "t = [] \<or> (\<not> blank (hd t) \<and> \<not> blank (last t)) \<Longrightarrow> strip blank t = t"
  using strip_padded [of blank "[]" "[]" t] by simp

lemma char_code_digit_char [simp]: "d < 10 \<Longrightarrow> char_code (digit_char d) = 48 + d"
  by (simp add: char_code_def digit_char_def)

lemma is_digit_digit_char [simp]: "d < 10 \<Longrightarrow> is_digit (digit_char d)"
  by (simp add: is_digit_def)

lemma digit_value_digit_char [simp]: "d < 10 \<Longrightarrow> digit_value (digit_char d) = int d"
  by (simp add: digit_value_def)

lemma digit_value_range: "is_digit c \<Longrightarrow> 0 \<le> digit_value c \<and> digit_value c \<le> 9"
  by (auto simp: is_digit_def digit_value_def)

lemma is_digit_not_space: "is_digit c \<Longrightarrow> \<not> isspace c"
  by (auto simp: is_digit_def isspace_def)

lemma decimal_Nil [simp]: "decimal [] = 0"
  by (simp add: decimal_def)

lemma decimal_snoc [simp]: "decimal (ds @ [c]) = 10 * decimal ds + digit_value c"
  by (simp add: decimal_def)

lemma show_nat_digits: "show_nat n \<noteq> [] \<and> list_all is_digit (show_nat n)"
  by (induction n rule: show_nat.induct) (subst (1 2) show_nat.simps, auto)

lemma decimal_show_nat [simp]: "decimal (show_nat n) = int n"
proof (induction n rule: show_nat.induct)
  case (1 n)
  show ?case
  proof (cases "n < 10")
    case True
    then show ?thesis using decimal_snoc [of "[]"] by (subst show_nat.simps) simp
  next
    case False
    then show ?thesis using 1 by (subst show_nat.simps) (simp add: zdiv_int zmod_int)
  qed
qed

lemma takeWhile_all_append:
  "list_all P xs \<Longrightarrow> (ys = [] \<or> \<not> P (hd ys)) \<Longrightarrow> takeWhile P (xs @ ys) = xs \<and> dropWhile P (xs @ ys) = ys"
  by (induction xs) (cases ys; auto)+

lemma hd_show_nat: "is_digit (hd (show_nat n))"
  using show_nat_digits [of n] by (auto simp: list_all_iff)

lemma is_digit_not_minus: "is_digit c \<Longrightarrow> c \<noteq> CHR ''-''"
  by (auto simp: is_digit_def char_code_def)

text \<open>Reading what was printed gives the number back, and stops where the digits stop.\<close>

lemma from_chars_show_int:
  assumes "int64_in_range v" "rest = [] \<or> \<not> is_digit (hd rest)"
  shows "from_chars_int64 (show_int v @ rest) = Some (v, rest)"
proof -
  have run: "takeWhile is_digit (show_nat n @ rest) = show_nat n \<and>
      dropWhile is_digit (show_nat n @ rest) = rest" for n
    using takeWhile_all_append [OF conjunct2 [OF show_nat_digits] assms(2)] .
  have "hd (show_nat n @ rest) \<noteq> CHR ''-''" for n
    using show_nat_digits [of n] hd_show_nat [of n] is_digit_not_minus by auto
  then show ?thesis
    using assms(1) run show_nat_digits
    by (auto simp: from_chars_int64_def show_int_def Let_def)
qed

lemma from_chars_range: "from_chars_int64 s = Some (v, rest) \<Longrightarrow> int64_in_range v"
  by (auto simp: from_chars_int64_def Let_def split: if_splits)

lemma show_int_ends:
  "show_int v \<noteq> [] \<and> (hd (show_int v) = CHR ''-'' \<or> is_digit (hd (show_int v))) \<and> is_digit (last (show_int v))"
proof -
  have "is_digit (last (show_nat n))" for n
    using show_nat_digits [of n] by (auto simp: list_all_iff)
  then show ?thesis using show_nat_digits hd_show_nat by (auto simp: show_int_def)
qed

lemma show_int_chars: "list_all (\<lambda>c. c = CHR ''-'' \<or> is_digit c) (show_int v)"
  using show_nat_digits by (auto simp: show_int_def list_all_iff)

end
