(* ===== verification/Instrument.thy ===== *)
theory Instrument
  imports Text Complex_Main
begin

text \<open>
  \<open>InstrumentSpec\<close> (\<open>instrument.hpp\<close>): the conversion of prices and quantities to integer ticks and
  lots. A \<open>long double\<close> is a rational, an infinity or NaN (the sign of zero, which no operation here
  reads, is dropped). How the platform rounds is a parameter: \<open>fe_round\<close> rounds an exact result to
  a \<open>long double\<close>, \<open>fe_double_finite\<close> tells whether a finite value is still finite as a
  \<open>double\<close>, and \<open>fe_llround_range\<close> is what \<open>llround\<close> returns outside of \<open>int64\<close>, which the C
  standard leaves open.
\<close>

section \<open>long double\<close>

datatype LDouble = Fin rat | PInf | NInf | NaN

record FloatEnv =
  fe_round :: "rat \<Rightarrow> LDouble"
  fe_double_finite :: "rat \<Rightarrow> bool"
  fe_llround_range :: "rat \<Rightarrow> int"

definition ld_signed_inf :: "bool \<Rightarrow> LDouble" where
  "ld_signed_inf negative = (if negative then NInf else PInf)"

fun ld_sign :: "LDouble \<Rightarrow> rat" where
  "ld_sign (Fin q) = sgn q"
| "ld_sign PInf = 1"
| "ld_sign NInf = - 1"
| "ld_sign NaN = 0"

definition ld_mult :: "FloatEnv \<Rightarrow> LDouble \<Rightarrow> LDouble \<Rightarrow> LDouble" where
  "ld_mult env x y =
     (case (x, y) of
        (Fin a, Fin b) \<Rightarrow> fe_round env (a * b)
      | _ \<Rightarrow> let s = ld_sign x * ld_sign y in if s = 0 then NaN else ld_signed_inf (s < 0))"

definition ld_div_pos :: "FloatEnv \<Rightarrow> LDouble \<Rightarrow> LDouble \<Rightarrow> LDouble" where
  \<comment> \<open>division; the program only divides by values above 0\<close>
  "ld_div_pos env x y =
     (case (x, y) of
        (Fin a, Fin b) \<Rightarrow> fe_round env (a / b)
      | (Fin a, NaN) \<Rightarrow> NaN
      | (Fin a, _) \<Rightarrow> Fin 0
      | (_, Fin b) \<Rightarrow> x
      | _ \<Rightarrow> NaN)"

definition ld_sub :: "FloatEnv \<Rightarrow> rat \<Rightarrow> rat \<Rightarrow> LDouble" where
  "ld_sub env a b = fe_round env (a - b)"

fun ld_abs :: "LDouble \<Rightarrow> LDouble" where
  "ld_abs (Fin q) = Fin \<bar>q\<bar>"
| "ld_abs NInf = PInf"
| "ld_abs x = x"

fun ld_less :: "LDouble \<Rightarrow> LDouble \<Rightarrow> bool" where
  \<comment> \<open>\<open>x < y\<close>, false when one of them is NaN\<close>
  "ld_less (Fin a) (Fin b) = (a < b)"
| "ld_less (Fin a) PInf = True"
| "ld_less NInf (Fin b) = True"
| "ld_less NInf PInf = True"
| "ld_less _ _ = False"

definition ld_nonneg :: "LDouble \<Rightarrow> bool" where
  \<comment> \<open>\<open>x >= 0.0L\<close>\<close>
  "ld_nonneg x = (case x of Fin q \<Rightarrow> 0 \<le> q | PInf \<Rightarrow> True | _ \<Rightarrow> False)"

definition ld_of_int :: "FloatEnv \<Rightarrow> int \<Rightarrow> LDouble" where
  "ld_of_int env n = fe_round env (of_int n)"

definition int64_limit :: int where
  \<comment> \<open>\<open>std::numeric_limits<std::int64_t>::max()\<close>\<close>
  "int64_limit = 2 ^ 63 - 1"

definition half_away :: "rat \<Rightarrow> int" where
  "half_away q = (if 0 \<le> q then \<lfloor>q + 1 / 2\<rfloor> else - \<lfloor>1 / 2 - q\<rfloor>)"

definition llround :: "FloatEnv \<Rightarrow> rat \<Rightarrow> int" where
  "llround env q = (if int64_in_range (half_away q) then half_away q else fe_llround_range env q)"

section \<open>instrument.hpp\<close>

text \<open>\<open>RAW_POLICY\<close> stands for the values of the enum's \<open>uint8\<close> without an enumerator.\<close>

datatype RoundingPolicy = Strict | Nearest | Floor | Ceil | RAW_POLICY nat

record Rational =
  ra_num :: int
  ra_den :: int

record InstrumentSpec =
  is_symbol :: string
  is_venue :: string
  is_tick_size :: Rational
  is_lot_size :: Rational
  is_price_policy :: RoundingPolicy
  is_qty_policy :: RoundingPolicy
  is_strict_eps :: rat

definition rational_valid :: "Rational \<Rightarrow> bool" where
  "rational_valid r = (ra_den r > 0 \<and> ra_num r > 0)"

definition spec_valid :: "InstrumentSpec \<Rightarrow> bool" where
  "spec_valid spec = (rational_valid (is_tick_size spec) \<and> rational_valid (is_lot_size spec))"

definition strict_fits :: "FloatEnv \<Rightarrow> rat \<Rightarrow> rat \<Rightarrow> int \<Rightarrow> bool" where
  \<comment> \<open>not \<open>fabsl(x - r) > strict_eps\<close>, with \<open>r\<close> converted to \<open>long double\<close>\<close>
  "strict_fits env eps x r =
     (case ld_of_int env r of
        Fin q \<Rightarrow> \<not> ld_less (Fin eps) (ld_abs (ld_sub env x q))
      | z \<Rightarrow> z = NaN)"

definition round_by_policy :: "FloatEnv \<Rightarrow> InstrumentSpec \<Rightarrow> rat \<Rightarrow> RoundingPolicy \<Rightarrow> string \<Rightarrow> string + LDouble" where
  \<comment> \<open>the switch of \<open>round_to_int64\<close>; the floor and the ceiling of a \<open>long double\<close> are exact\<close>
  "round_by_policy env spec x pol what =
     (case pol of
        Nearest \<Rightarrow> Inr (ld_of_int env (llround env x))
      | Floor \<Rightarrow> Inr (Fin (of_int \<lfloor>x\<rfloor>))
      | Ceil \<Rightarrow> Inr (Fin (of_int \<lceil>x\<rceil>))
      | Strict \<Rightarrow>
          if \<not> strict_fits env (is_strict_eps spec) x (llround env x)
          then Inl (''Strict '' @ what @ '' not on grid.'')
          else Inr (ld_of_int env (llround env x))
      | RAW_POLICY _ \<Rightarrow> Inl ''Unknown rounding policy.'')"

fun ld_to_int64 :: "LDouble \<Rightarrow> int" where
  \<comment> \<open>\<open>static_cast<std::int64_t>\<close> of a value that is not negative (undefined for the others)\<close>
  "ld_to_int64 (Fin q) = \<lfloor>q\<rfloor>"
| "ld_to_int64 _ = 0"

definition round_to_int64 :: "FloatEnv \<Rightarrow> InstrumentSpec \<Rightarrow> LDouble \<Rightarrow> RoundingPolicy \<Rightarrow> string \<Rightarrow> string + int" where
  "round_to_int64 env spec x pol what =
     (case x of
        Fin q \<Rightarrow>
          if \<not> fe_double_finite env q then Inl (''Non-finite '' @ what @ '' conversion.'')
          else (case round_by_policy env spec q pol what of
                  Inl msg \<Rightarrow> Inl msg
                | Inr y \<Rightarrow>
                    if ld_less y (Fin 0) then Inl (''Negative '' @ what @ '' ticks/lots.'')
                    else if ld_less (ld_of_int env int64_limit) y
                    then Inl (''Overflow converting '' @ what @ ''.'')
                    else Inr (ld_to_int64 y))
      | _ \<Rightarrow> Inl (''Non-finite '' @ what @ '' conversion.''))"

definition price_to_ticks :: "FloatEnv \<Rightarrow> InstrumentSpec \<Rightarrow> LDouble \<Rightarrow> string + int" where
  "price_to_ticks env spec price =
     (if \<not> spec_valid spec then Inl ''InstrumentSpec invalid tick/lot.''
      else if \<not> ld_nonneg price then Inl ''Negative price.''
      else let x = ld_mult env price (ld_div_pos env (ld_of_int env (ra_den (is_tick_size spec)))
                                       (ld_of_int env (ra_num (is_tick_size spec))))
           in round_to_int64 env spec x (is_price_policy spec) ''price'')"

definition quantity_to_lots :: "FloatEnv \<Rightarrow> InstrumentSpec \<Rightarrow> LDouble \<Rightarrow> string + int" where
  "quantity_to_lots env spec qty =
     (if \<not> spec_valid spec then Inl ''InstrumentSpec invalid tick/lot.''
      else if \<not> ld_nonneg qty then Inl ''Negative qty.''
      else let x = ld_mult env qty (ld_div_pos env (ld_of_int env (ra_den (is_lot_size spec)))
                                     (ld_of_int env (ra_num (is_lot_size spec))))
           in round_to_int64 env spec x (is_qty_policy spec) ''qty'')"

definition ticks_to_price :: "FloatEnv \<Rightarrow> InstrumentSpec \<Rightarrow> int \<Rightarrow> LDouble" where
  "ticks_to_price env spec ticks =
     ld_mult env (ld_of_int env ticks)
       (ld_div_pos env (ld_of_int env (ra_num (is_tick_size spec))) (ld_of_int env (ra_den (is_tick_size spec))))"

definition lots_to_quantity :: "FloatEnv \<Rightarrow> InstrumentSpec \<Rightarrow> int \<Rightarrow> LDouble" where
  "lots_to_quantity env spec lots =
     ld_mult env (ld_of_int env lots)
       (ld_div_pos env (ld_of_int env (ra_num (is_lot_size spec))) (ld_of_int env (ra_den (is_lot_size spec))))"

end
