(* ===== verification/Coinbase.thy ===== *)
theory Coinbase
  imports LobTypes Instrument "HOL-Library.Word" "HOL-Library.Signed_Division"
begin

text \<open>
  The Coinbase BTC/USDT feed: the adapter (\<open>coinbase_btcusdt_adapter.hpp\<close>) and the Parquet source
  (\<open>coinbase_btcusdt_parquet_source.cpp\<close>). Arrow is not part of the repository: a file is its
  schema and the record batches its reader delivers (\<open>Inl ()\<close> where \<open>ReadNext\<close> fails), and an
  array is a typed list of cells, \<open>None\<close> for a null. What the source does outside of Arrow's
  contract (a cast to the wrong array type, a row past the end of a batch) is the error
  \<open>UndefinedAccess\<close>.
\<close>

unbundle bit_operations_syntax

section \<open>The adapter\<close>

record CoinbaseBTCUSDTRawEvent =
  cb_ts_exchange_us :: int
  cb_ts_received_us :: int
  cb_update_type :: UpdateType
  cb_side :: Side
  cb_price :: LDouble
  cb_size :: LDouble
  cb_order_id :: string

definition stable_order_id :: "string \<Rightarrow> int" where
  \<comment> \<open>FNV-1a over 64 bits, read as a signed number\<close>
  "stable_order_id value =
     sint (foldl (\<lambda>hash c. (hash XOR of_nat (char_code c)) * (1099511628211 :: 64 word))
             14695981039346656037 value)"

definition try_normalize ::
  "FloatEnv \<Rightarrow> InstrumentSpec \<Rightarrow> CoinbaseBTCUSDTRawEvent \<Rightarrow> NormalizedLobEvent option" where
  "try_normalize env spec raw =
     (if cb_ts_exchange_us raw < 0 \<or> cb_ts_received_us raw < 0 then None
      else if cb_order_id raw = [] then None
      else if \<not> ld_nonneg (cb_price raw) \<or> \<not> ld_nonneg (cb_size raw) then None
      else case price_to_ticks env spec (cb_price raw) of
        Inl _ \<Rightarrow> None
      | Inr px \<Rightarrow>
          (case quantity_to_lots env spec (cb_size raw) of
             Inl _ \<Rightarrow> None
           | Inr sz \<Rightarrow> Some
               \<lparr>ev_ts_exchange = cb_ts_exchange_us raw, ev_ts_received = cb_ts_received_us raw,
                ev_side = cb_side raw, ev_update_type = cb_update_type raw, ev_price_ticks = px,
                ev_quantity_lots = sz, ev_order_id = stable_order_id (cb_order_id raw),
                ev_trader_id = UnknownTraderIdSentinel,
                ev_aggressor_id = UnknownAggressorIdSentinel, ev_update_source = HISTORICAL,
                ev_symbol_id = is_symbol spec\<rparr>))"

section \<open>Text fields\<close>

datatype ParquetError =
    BadTime string
  | UnknownUpdateType string
  | MissingColumn string
  | MissingReceivedTimeColumn
  | UnsupportedTimeExchangeType
  | UnsupportedReceivedTimeType
  | ReadFailed
  | NullTime nat
  | UnsupportedTime64Unit
  | UnsupportedTimeArrayType
  | NullUpdateType nat
  | NullIsBuy nat
  | UnsupportedIsBuyType
  | NullPriceOrSize nat
  | UnsupportedEntryPxType
  | UnsupportedEntrySxType
  | NullOrderId nat
  | UndefinedAccess

definition parse_update_type :: "string \<Rightarrow> ParquetError + UpdateType" where
  "parse_update_type text =
     (let s = strip isspace text; upper = map toupper s
      in if upper = ''SNAPSHOT'' then Inr SET
         else if upper = ''ADD'' then Inr ADD
         else if upper = ''DELETE'' then Inr DELETE
         else if upper = ''MATCH'' then Inr MATCH
         else if upper = ''SUBTRACT'' then Inr SUBTRACT
         else if upper = ''SET'' then Inr SET
         else Inl (UnknownUpdateType s))"

definition read2 :: "string \<Rightarrow> nat \<Rightarrow> int" where
  "read2 sv off =
     (if off + 2 > length sv \<or> \<not> is_digit (sv ! off) \<or> \<not> is_digit (sv ! (off + 1)) then - 1
      else digit_value (sv ! off) * 10 + digit_value (sv ! (off + 1)))"

fun fraction_loop :: "nat \<Rightarrow> int \<Rightarrow> string \<Rightarrow> nat \<times> int" where
  \<comment> \<open>the loop over the digits after the point: how many were read, and their value\<close>
  "fraction_loop digits fr (c # sv) =
     (if is_digit c \<and> digits < 6 then fraction_loop (digits + 1) (fr * 10 + digit_value c) sv
      else (digits, fr))"
| "fraction_loop digits fr [] = (digits, fr)"

definition pad_fraction :: "nat \<times> int \<Rightarrow> int" where
  \<comment> \<open>the loop \<open>while (digits < 6)\<close>\<close>
  "pad_fraction p = (case p of (digits, fr) \<Rightarrow> fr * 10 ^ (6 - digits))"

definition parse_hh_mm_ss_to_us :: "string \<Rightarrow> ParquetError + int" where
  "parse_hh_mm_ss_to_us text =
     (let sv = strip isspace text
      in if length sv < 8 \<or> sv ! 2 \<noteq> CHR '':'' \<or> sv ! 5 \<noteq> CHR '':'' then Inl (BadTime sv)
         else
           let hh = read2 sv 0; mm = read2 sv 3; ss = read2 sv 6
           in if hh < 0 \<or> mm < 0 \<or> ss < 0 then Inl (BadTime sv)
              else if hh > 23 \<or> mm > 59 \<or> ss > 59 then Inl (BadTime sv)
              else
                let us = hh * 3600000000 + mm * 60000000 + ss * 1000000
                in if length sv = 8 then Inr us
                   else if sv ! 8 \<noteq> CHR ''.'' then Inl (BadTime sv)
                   else Inr (us + pad_fraction (fraction_loop 0 0 (drop 9 sv))))"

section \<open>Arrow data\<close>

datatype TimeUnit = SECOND | MILLI | MICRO | NANO

datatype ArrowType =
    T_STRING | T_LARGE_STRING | T_TIME64 TimeUnit | T_INT64 | T_INT32 | T_BOOL | T_DOUBLE | T_FLOAT
  | T_OTHER

datatype Column =
    StringArray "string option list"
  | LargeStringArray "string option list"
  | Time64Array "int option list"
  | Int64Array "int option list"
  | Int32Array "int option list"
  | BooleanArray "bool option list"
  | DoubleArray "LDouble option list"
  | FloatArray "LDouble option list"
  | OtherArray "bool list"

record RecordBatch =
  rb_num_rows :: nat
  rb_time_exchange :: Column
  rb_time_feed :: Column
  rb_update_type :: Column
  rb_is_buy :: Column
  rb_entry_px :: Column
  rb_entry_sx :: Column
  rb_order_id :: Column

record ParquetImpl =
  im_rb_reader :: "(unit + RecordBatch) list"
  im_batch :: "RecordBatch option"
  im_row_in_batch :: nat
  im_global_row :: nat
  im_columns :: "nat list"
  im_time_exchange_is_string :: bool
  im_time_feed_is_string :: bool
  im_time_exchange_unit :: TimeUnit
  im_time_feed_unit :: TimeUnit

section \<open>Opening a file\<close>

type_synonym Schema = "(string \<times> ArrowType) list"

definition get_field_index :: "Schema \<Rightarrow> string \<Rightarrow> nat option" where
  \<comment> \<open>\<open>arrow::Schema::GetFieldIndex\<close>: the field of that name, if there is exactly one\<close>
  "get_field_index schema name =
     (case filter (\<lambda>i. fst (schema ! i) = name) [0..<length schema] of [i] \<Rightarrow> Some i | _ \<Rightarrow> None)"

fun text_contains :: "string \<Rightarrow> string \<Rightarrow> bool" where
  \<comment> \<open>\<open>s.find(pat) != npos\<close>\<close>
  "text_contains pat s = (take (length pat) s = pat \<or> (case s of [] \<Rightarrow> False | _ # t \<Rightarrow> text_contains pat t))"

definition find_time_feed :: "Schema \<Rightarrow> nat option" where
  "find_time_feed schema =
     (case get_field_index schema ''time_received'' of
        Some i \<Rightarrow> Some i
      | None \<Rightarrow>
          (case get_field_index schema ''time_feed'' of
             Some i \<Rightarrow> Some i
           | None \<Rightarrow>
               (case filter (\<lambda>k. text_contains ''time'' (fst (schema ! k)) \<and>
                             \<not> text_contains ''exchange'' (fst (schema ! k))) [0..<length schema] of
                  [] \<Rightarrow> None
                | k # _ \<Rightarrow> Some k)))"

definition time_column :: "ParquetError \<Rightarrow> ArrowType \<Rightarrow> ParquetError + (bool \<times> TimeUnit)" where
  \<comment> \<open>whether a time column is a string, and its unit (value-initialised where there is none)\<close>
  "time_column unsupported t =
     (case t of
        T_STRING \<Rightarrow> Inr (True, SECOND)
      | T_LARGE_STRING \<Rightarrow> Inr (True, SECOND)
      | T_TIME64 unit \<Rightarrow> Inr (False, unit)
      | T_INT64 \<Rightarrow> Inr (False, SECOND)
      | _ \<Rightarrow> Inl unsupported)"

fun find_columns :: "Schema \<Rightarrow> string list \<Rightarrow> ParquetError + nat list" where
  \<comment> \<open>the calls of \<open>idx\<close>, in order\<close>
  "find_columns schema [] = Inr []"
| "find_columns schema (name # names) =
     (case get_field_index schema name of
        None \<Rightarrow> Inl (MissingColumn name)
      | Some i \<Rightarrow> (case find_columns schema names of Inl e \<Rightarrow> Inl e | Inr is \<Rightarrow> Inr (i # is)))"

definition parquet_open :: "Schema \<Rightarrow> (unit + RecordBatch) list \<Rightarrow> ParquetError + ParquetImpl" where
  "parquet_open schema batches =
     (case find_columns schema [''time_exchange''] of
        Inl e \<Rightarrow> Inl e
      | Inr c0 \<Rightarrow>
     (case find_time_feed schema of
        None \<Rightarrow> Inl MissingReceivedTimeColumn
      | Some c1 \<Rightarrow>
     (case find_columns schema [''update_type'', ''is_buy'', ''entry_px'', ''entry_sx'', ''order_id''] of
        Inl e \<Rightarrow> Inl e
      | Inr cs \<Rightarrow>
     (case time_column UnsupportedTimeExchangeType (snd (schema ! hd c0)) of
        Inl e \<Rightarrow> Inl e
      | Inr (str0, unit0) \<Rightarrow>
     (case time_column UnsupportedReceivedTimeType (snd (schema ! c1)) of
        Inl e \<Rightarrow> Inl e
      | Inr (str1, unit1) \<Rightarrow> Inr
          \<lparr>im_rb_reader = batches, im_batch = None, im_row_in_batch = 0, im_global_row = 0,
           im_columns = c0 @ [c1] @ cs, im_time_exchange_is_string = str0,
           im_time_feed_is_string = str1, im_time_exchange_unit = unit0,
           im_time_feed_unit = unit1\<rparr>)))))"

section \<open>Reading rows\<close>

definition cell :: "'a option list \<Rightarrow> nat \<Rightarrow> ParquetError \<Rightarrow> ParquetError + 'a" where
  \<comment> \<open>\<open>IsNull(r)\<close>, then \<open>Value(r)\<close>\<close>
  "cell xs r null =
     (if length xs \<le> r then Inl UndefinedAccess
      else case xs ! r of None \<Rightarrow> Inl null | Some v \<Rightarrow> Inr v)"

definition null_check :: "Column \<Rightarrow> nat \<Rightarrow> ParquetError \<Rightarrow> ParquetError + unit" where
  \<comment> \<open>\<open>if (arr->IsNull(row)) throw\<close>\<close>
  "null_check arr r null =
     (let check = (\<lambda>nulls. if length nulls \<le> r then Inl UndefinedAccess
                          else if nulls ! r then Inl null else Inr ())
      in case arr of
           StringArray xs \<Rightarrow> check (map Option.is_none xs)
         | LargeStringArray xs \<Rightarrow> check (map Option.is_none xs)
         | Time64Array xs \<Rightarrow> check (map Option.is_none xs)
         | Int64Array xs \<Rightarrow> check (map Option.is_none xs)
         | Int32Array xs \<Rightarrow> check (map Option.is_none xs)
         | BooleanArray xs \<Rightarrow> check (map Option.is_none xs)
         | DoubleArray xs \<Rightarrow> check (map Option.is_none xs)
         | FloatArray xs \<Rightarrow> check (map Option.is_none xs)
         | OtherArray xs \<Rightarrow> check xs)"

definition string_cell :: "Column \<Rightarrow> nat \<Rightarrow> ParquetError \<Rightarrow> ParquetError + string" where
  \<comment> \<open>the view of a string array, or of anything else as a large string array\<close>
  "string_cell arr r null =
     (case arr of
        StringArray xs \<Rightarrow> cell xs r null
      | LargeStringArray xs \<Rightarrow> cell xs r null
      | _ \<Rightarrow> Inl UndefinedAccess)"

definition read_time_us :: "nat \<Rightarrow> Column \<Rightarrow> nat \<Rightarrow> bool \<Rightarrow> TimeUnit \<Rightarrow> ParquetError + int" where
  "read_time_us global_row arr r is_string unit =
     (case null_check arr r (NullTime global_row) of
        Inl e \<Rightarrow> Inl e
      | Inr _ \<Rightarrow>
          if is_string
          then (case string_cell arr r (NullTime global_row) of
                  Inl e \<Rightarrow> Inl e
                | Inr s \<Rightarrow> parse_hh_mm_ss_to_us s)
          else (case arr of
                  Time64Array xs \<Rightarrow>
                    (case cell xs r (NullTime global_row) of
                       Inl e \<Rightarrow> Inl e
                     | Inr v \<Rightarrow> (case unit of MICRO \<Rightarrow> Inr v | NANO \<Rightarrow> Inr (v sdiv 1000)
                                 | _ \<Rightarrow> Inl UnsupportedTime64Unit))
                | Int64Array xs \<Rightarrow> cell xs r (NullTime global_row)
                | _ \<Rightarrow> Inl UnsupportedTimeArrayType))"

definition read_update_type :: "nat \<Rightarrow> Column \<Rightarrow> nat \<Rightarrow> ParquetError + UpdateType" where
  "read_update_type global_row arr r =
     (case null_check arr r (NullUpdateType global_row) of
        Inl e \<Rightarrow> Inl e
      | Inr _ \<Rightarrow> (case string_cell arr r (NullUpdateType global_row) of
                   Inl e \<Rightarrow> Inl e
                 | Inr ut \<Rightarrow> parse_update_type ut))"

definition read_side :: "nat \<Rightarrow> Column \<Rightarrow> nat \<Rightarrow> ParquetError + Side" where
  "read_side global_row arr r =
     (case null_check arr r (NullIsBuy global_row) of
        Inl e \<Rightarrow> Inl e
      | Inr _ \<Rightarrow>
          (case arr of
             Int64Array xs \<Rightarrow> map_sum (\<lambda>e. e) (\<lambda>v. if v = 1 then BUY else SELL) (cell xs r (NullIsBuy global_row))
           | Int32Array xs \<Rightarrow> map_sum (\<lambda>e. e) (\<lambda>v. if v = 1 then BUY else SELL) (cell xs r (NullIsBuy global_row))
           | BooleanArray xs \<Rightarrow> map_sum (\<lambda>e. e) (\<lambda>v. if v then BUY else SELL) (cell xs r (NullIsBuy global_row))
           | _ \<Rightarrow> Inl UnsupportedIsBuyType))"

definition read_ldouble :: "nat \<Rightarrow> ParquetError \<Rightarrow> Column \<Rightarrow> nat \<Rightarrow> ParquetError + LDouble" where
  \<comment> \<open>both floating point columns: a \<open>double\<close> or a \<open>float\<close> is widened without loss\<close>
  "read_ldouble global_row unsupported arr r =
     (case arr of
        DoubleArray xs \<Rightarrow> cell xs r (NullPriceOrSize global_row)
      | FloatArray xs \<Rightarrow> cell xs r (NullPriceOrSize global_row)
      | _ \<Rightarrow> Inl unsupported)"

definition read_row :: "ParquetImpl \<Rightarrow> RecordBatch \<Rightarrow> nat \<Rightarrow> ParquetError + CoinbaseBTCUSDTRawEvent" where
  \<comment> \<open>the body of \<open>next\<close> after the row was chosen, with its order of checks\<close>
  "read_row impl batch r =
     (let g = im_global_row impl in
      case read_time_us g (rb_time_exchange batch) r (im_time_exchange_is_string impl)
             (im_time_exchange_unit impl) of Inl e \<Rightarrow> Inl e | Inr t0 \<Rightarrow>
      (case read_time_us g (rb_time_feed batch) r (im_time_feed_is_string impl)
             (im_time_feed_unit impl) of Inl e \<Rightarrow> Inl e | Inr t1 \<Rightarrow>
      (case read_update_type g (rb_update_type batch) r of Inl e \<Rightarrow> Inl e | Inr ut \<Rightarrow>
      (case read_side g (rb_is_buy batch) r of Inl e \<Rightarrow> Inl e | Inr sd \<Rightarrow>
      (case null_check (rb_entry_px batch) r (NullPriceOrSize g) of Inl e \<Rightarrow> Inl e | Inr _ \<Rightarrow>
      (case null_check (rb_entry_sx batch) r (NullPriceOrSize g) of Inl e \<Rightarrow> Inl e | Inr _ \<Rightarrow>
      (case read_ldouble g UnsupportedEntryPxType (rb_entry_px batch) r of Inl e \<Rightarrow> Inl e | Inr px \<Rightarrow>
      (case read_ldouble g UnsupportedEntrySxType (rb_entry_sx batch) r of Inl e \<Rightarrow> Inl e | Inr sx \<Rightarrow>
      (case null_check (rb_order_id batch) r (NullOrderId g) of Inl e \<Rightarrow> Inl e | Inr _ \<Rightarrow>
      (case string_cell (rb_order_id batch) r (NullOrderId g) of Inl e \<Rightarrow> Inl e | Inr oid \<Rightarrow> Inr
         \<lparr>cb_ts_exchange_us = t0, cb_ts_received_us = t1, cb_update_type = ut, cb_side = sd,
          cb_price = px, cb_size = sx, cb_order_id = oid\<rparr>))))))))))"

definition load_next_batch :: "ParquetImpl \<Rightarrow> (ParquetError + bool) \<times> ParquetImpl" where
  "load_next_batch impl =
     (let impl1 = impl\<lparr>im_batch := None, im_row_in_batch := 0\<rparr>
      in case im_rb_reader impl1 of
           [] \<Rightarrow> (Inr False, impl1)
         | Inl _ # rest \<Rightarrow> (Inl ReadFailed, impl1\<lparr>im_rb_reader := rest\<rparr>)
         | Inr batch # rest \<Rightarrow> (Inr True, impl1\<lparr>im_rb_reader := rest, im_batch := Some batch\<rparr>))"

definition read_current :: "ParquetImpl \<Rightarrow> (ParquetError + CoinbaseBTCUSDTRawEvent option) \<times> ParquetImpl" where
  "read_current impl =
     (case im_batch impl of
        None \<Rightarrow> (Inl UndefinedAccess, impl)
      | Some batch \<Rightarrow>
          let r = im_row_in_batch impl;
              impl1 = impl\<lparr>im_row_in_batch := r + 1\<rparr>
          in case read_row impl1 batch r of
               Inl e \<Rightarrow> (Inl e, impl1)
             | Inr raw \<Rightarrow> (Inr (Some raw), impl1\<lparr>im_global_row := im_global_row impl1 + 1\<rparr>))"

definition parquet_next :: "ParquetImpl \<Rightarrow> (ParquetError + CoinbaseBTCUSDTRawEvent option) \<times> ParquetImpl" where
  \<comment> \<open>\<open>Impl::next\<close>; its loop always returns in the first round\<close>
  "parquet_next impl =
     (if (case im_batch impl of None \<Rightarrow> True | Some batch \<Rightarrow> im_row_in_batch impl \<ge> rb_num_rows batch)
      then (case load_next_batch impl of
              (Inl e, impl1) \<Rightarrow> (Inl e, impl1)
            | (Inr loaded, impl1) \<Rightarrow> if loaded then read_current impl1 else (Inr None, impl1))
      else read_current impl)"

section \<open>The source as a list\<close>

text \<open>
  What a replay session gets from repeated calls of \<open>next\<close>: the raw events in order, and \<open>Inl ()\<close>
  where a call throws. Every call uses up a row or a batch.
\<close>

definition parquet_left :: "ParquetImpl \<Rightarrow> nat" where
  "parquet_left impl =
     sum_list (map (\<lambda>b. case b of Inl _ \<Rightarrow> 1 | Inr batch \<Rightarrow> rb_num_rows batch + 2) (im_rb_reader impl)) +
     (case im_batch impl of None \<Rightarrow> 0 | Some batch \<Rightarrow> 1 + (rb_num_rows batch - im_row_in_batch impl))"

lemma parquet_next_left:
  assumes "parquet_next impl = (r, impl')" "r \<noteq> Inr None"
  shows "parquet_left impl' < parquet_left impl"
  using assms
  by (auto simp: parquet_next_def load_next_batch_def read_current_def parquet_left_def Let_def
      split: if_splits option.splits list.splits sum.splits)

function parquet_items :: "ParquetImpl \<Rightarrow> (unit + CoinbaseBTCUSDTRawEvent) list" where
  "parquet_items impl =
     (case parquet_next impl of
        (Inl _, impl') \<Rightarrow> Inl () # parquet_items impl'
      | (Inr (Some raw), impl') \<Rightarrow> Inr raw # parquet_items impl'
      | (Inr None, impl') \<Rightarrow> [])"
  by pat_completeness auto
termination
  by (relation "measure parquet_left") (auto intro: parquet_next_left dest: sym)

declare parquet_items.simps [simp del]

end
