(* ===== verification/InstrumentFacts.thy ===== *)
theory InstrumentFacts
  imports Instrument
begin

text \<open>
  What the conversions guarantee on a platform whose \<open>long double\<close> holds every \<open>int64\<close>
  (\<open>ieee64\<close>: a 64-bit significand, as on x86): each rounding policy as a function of the scaled
  value, and the range of every result.
\<close>

definition ieee64 :: "FloatEnv \<Rightarrow> bool" where
  \<comment> \<open>integers up to \<open>2 ^ 63\<close> are representable, and so is the distance of a representable value to
      the integer next to it\<close>
  "ieee64 env \<longleftrightarrow>
     (\<forall>n. \<bar>n\<bar> \<le> 2 ^ 63 \<longrightarrow> fe_round env (of_int n) = Fin (of_int n)) \<and>
     (\<forall>x. fe_round env x = Fin x \<and> int64_in_range (half_away x) \<longrightarrow>
        fe_round env (x - of_int (half_away x)) = Fin (x - of_int (half_away x)))"

definition exact_env :: FloatEnv where
  "exact_env = \<lparr>fe_round = Fin, fe_double_finite = (\<lambda>q. True), fe_llround_range = (\<lambda>q. - (2 ^ 63))\<rparr>"

lemma ieee64_exact_env: "ieee64 exact_env"
  by (simp add: ieee64_def exact_env_def)

lemma ld_of_int_exact: "ieee64 env \<Longrightarrow> \<bar>n\<bar> \<le> 2 ^ 63 \<Longrightarrow> ld_of_int env n = Fin (of_int n)"
  by (simp add: ieee64_def ld_of_int_def)

lemma ld_of_int_in_range:
  assumes "ieee64 env" "int64_in_range n"
  shows "ld_of_int env n = Fin (of_int n)"
  using assms(2) by (intro ld_of_int_exact [OF assms(1)]) (simp add: int64_in_range_def abs_le_iff)

lemma half_away_nonneg: "0 \<le> x \<Longrightarrow> half_away x = \<lfloor>x + 1 / 2\<rfloor>"
  by (simp add: half_away_def)

lemma near_half: "(n :: rat) \<le> x + 1 / 2 \<Longrightarrow> x + 1 / 2 < n + 1 \<Longrightarrow> \<bar>n - x\<bar> \<le> 1 / 2"
  by (rule abs_leI) linarith+

lemma half_away_near:
  assumes "0 \<le> x"
  shows "0 \<le> half_away x \<and> \<bar>of_int (half_away x) - x\<bar> \<le> 1 / 2"
proof -
  let ?n = "\<lfloor>x + 1 / 2\<rfloor>"
  have "of_int ?n \<le> x + 1 / 2" by (rule of_int_floor_le)
  moreover have "x + 1 / 2 < of_int ?n + 1" using floor_correct [of "x + 1 / 2"] by (simp only: of_int_add of_int_1)
  ultimately have "\<bar>of_int ?n - x\<bar> \<le> 1 / 2" by (rule near_half)
  moreover have "0 \<le> ?n" using assms by simp
  ultimately show ?thesis
    unfolding half_away_nonneg [OF assms] by blast
qed

lemma half_away_range:
  assumes "0 \<le> x" "x \<le> of_int int64_limit"
  shows "int64_in_range (half_away x)"
proof -
  have "x + 1 / 2 < of_int (int64_limit + 1)" using assms(2) by simp
  then have "half_away x < int64_limit + 1"
    unfolding half_away_nonneg [OF assms(1)] by (simp only: floor_less_iff)
  then show ?thesis
    using half_away_near [OF assms(1)] by (simp add: int64_in_range_def int64_limit_def)
qed

lemma strict_fits_iff:
  assumes "ieee64 env" "fe_round env x = Fin x" "int64_in_range (half_away x)"
  shows "strict_fits env eps x (half_away x) \<longleftrightarrow> \<bar>x - of_int (half_away x)\<bar> \<le> eps"
proof -
  have "ld_of_int env (half_away x) = Fin (of_int (half_away x))"
    by (rule ld_of_int_in_range [OF assms(1,3)])
  moreover have "fe_round env (x - of_int (half_away x)) = Fin (x - of_int (half_away x))"
    using assms by (auto simp: ieee64_def)
  ultimately show ?thesis by (auto simp: strict_fits_def ld_sub_def)
qed

text \<open>Inside the range of \<open>int64\<close> every policy is what its name says.\<close>

lemma round_to_int64_in_range:
  assumes "ieee64 env" "fe_round env x = Fin x" "fe_double_finite env x"
    and "0 \<le> x" "x \<le> of_int int64_limit"
  shows "round_to_int64 env spec (Fin x) pol what =
    (case pol of
       Floor \<Rightarrow> Inr \<lfloor>x\<rfloor>
     | Ceil \<Rightarrow> Inr \<lceil>x\<rceil>
     | Nearest \<Rightarrow> Inr \<lfloor>x + 1 / 2\<rfloor>
     | Strict \<Rightarrow> if \<bar>x - of_int \<lfloor>x + 1 / 2\<rfloor>\<bar> \<le> is_strict_eps spec then Inr \<lfloor>x + 1 / 2\<rfloor>
                 else Inl (''Strict '' @ what @ '' not on grid.'')
     | RAW_POLICY _ \<Rightarrow> Inl ''Unknown rounding policy.'')"
proof -
  have lim: "ld_of_int env int64_limit = Fin (of_int int64_limit)"
    using ld_of_int_exact [OF assms(1)] by (simp add: int64_limit_def)
  have near: "int64_in_range (half_away x)" "llround env x = half_away x"
    using half_away_range [OF assms(4,5)] by (simp_all add: llround_def)
  have half: "ld_of_int env (half_away x) = Fin (of_int (half_away x))"
    by (rule ld_of_int_in_range [OF assms(1) near(1)])
  have le: "(of_int (half_away x) :: rat) \<le> of_int int64_limit" "(0 :: rat) \<le> of_int (half_away x)"
    using near half_away_near [OF assms(4)] by (simp_all add: int64_in_range_def int64_limit_def)
  have fl: "(of_int \<lfloor>x\<rfloor> :: rat) \<le> of_int int64_limit" "(0 :: rat) \<le> of_int \<lfloor>x\<rfloor>"
    using assms(4,5) of_int_floor_le [of x] by (linarith, simp)
  have "\<lceil>x\<rceil> \<le> int64_limit" using assms(5) by (simp add: ceiling_le_iff)
  then have ce: "(of_int \<lceil>x\<rceil> :: rat) \<le> of_int int64_limit" "(0 :: rat) \<le> of_int \<lceil>x\<rceil>"
    using assms(4) by (simp_all only: of_int_le_iff, simp_all)
  show ?thesis
    using assms(3) lim near half le fl ce strict_fits_iff [OF assms(1,2) near(1), of "is_strict_eps spec"]
      half_away_nonneg [OF assms(4)]
    by (cases pol) (simp_all add: round_to_int64_def round_by_policy_def not_less)
qed

text \<open>Whatever is converted, with whatever policy, a success is a number of ticks or lots in the
  range of \<open>int64\<close>.\<close>

lemma round_to_int64_range:
  assumes "ieee64 env" "round_to_int64 env spec x pol what = Inr v"
  shows "0 \<le> v \<and> v < 2 ^ 63"
proof -
  have lim: "ld_of_int env int64_limit = Fin (of_int int64_limit)"
    using ld_of_int_exact [OF assms(1)] by (simp add: int64_limit_def)
  from assms(2) obtain y where y: "\<not> ld_less y (Fin 0)" "\<not> ld_less (Fin (of_int int64_limit)) y"
      "v = ld_to_int64 y"
    by (auto simp: round_to_int64_def lim split: LDouble.splits if_splits sum.splits)
  show ?thesis
  proof (cases y)
    case (Fin q)
    then have "0 \<le> q" "q \<le> of_int int64_limit" using y by auto
    then have "0 \<le> \<lfloor>q\<rfloor>" "\<lfloor>q\<rfloor> \<le> int64_limit" by (simp, simp add: floor_le_iff)
    then show ?thesis using y(3) Fin by (simp add: int64_limit_def)
  qed (use y in simp_all)
qed

lemma price_to_ticks_range: "ieee64 env \<Longrightarrow> price_to_ticks env spec p = Inr v \<Longrightarrow> 0 \<le> v \<and> v < 2 ^ 63"
  by (auto simp: price_to_ticks_def Let_def split: if_splits dest: round_to_int64_range)

lemma quantity_to_lots_range: "ieee64 env \<Longrightarrow> quantity_to_lots env spec q = Inr v \<Longrightarrow> 0 \<le> v \<and> v < 2 ^ 63"
  by (auto simp: quantity_to_lots_def Let_def split: if_splits dest: round_to_int64_range)

end
