(* ===== verification/CoinbaseFacts.thy ===== *)
theory CoinbaseFacts
  imports Coinbase InstrumentFacts
begin

text \<open>
  Facts on the Coinbase feed: the format of times of day and the range of what is parsed, and what
  holds of every event the adapter makes of a row of a file.
\<close>

section \<open>Times of day\<close>

fun show_fixed :: "nat \<Rightarrow> nat \<Rightarrow> string" where
  \<comment> \<open>the last \<open>w\<close> decimal digits of a number\<close>
  "show_fixed 0 n = []"
| "show_fixed (Suc w) n = show_fixed w (n div 10) @ [digit_char (n mod 10)]"

definition render_time :: "nat \<Rightarrow> string" where
  \<comment> \<open>\<open>hh:mm:ss.ffffff\<close> of a number of microseconds since midnight\<close>
  "render_time us =
     show_fixed 2 (us div 3600000000) @ [CHR '':''] @ show_fixed 2 (us div 60000000 mod 60) @ [CHR '':''] @
     show_fixed 2 (us div 1000000 mod 60) @ [CHR ''.''] @ show_fixed 6 (us mod 1000000)"

lemma length_show_fixed [simp]: "length (show_fixed w n) = w"
  by (induction w arbitrary: n) simp_all

lemma digits_show_fixed: "list_all is_digit (show_fixed w n)"
  by (induction w arbitrary: n) simp_all

lemma decimal_show_fixed: "decimal (show_fixed w n) = int (n mod 10 ^ w)"
proof (induction w arbitrary: n)
  case (Suc w)
  have "n mod (10 * 10 ^ w) = 10 * (n div 10 mod 10 ^ w) + n mod 10"
    by (simp add: mod_mult2_eq)
  then show ?case using Suc by simp
qed simp

lemma decimal_foldl:
  "foldl (\<lambda>v c. 10 * v + digit_value c) f ds = f * 10 ^ length ds + decimal ds"
  by (induction ds rule: rev_induct) (simp_all add: decimal_def algebra_simps)

lemma fraction_loop_digits:
  assumes "list_all is_digit ds" "n + length ds \<le> 6"
  shows "fraction_loop n f ds = (n + length ds, f * 10 ^ length ds + decimal ds)"
  using assms
proof (induction ds arbitrary: n f)
  case (Cons c ds)
  have "decimal (c # ds) = digit_value c * 10 ^ length ds + decimal ds"
    using decimal_foldl [of "digit_value c" ds] by (simp add: decimal_def)
  then show ?case using Cons by (simp add: algebra_simps)
qed simp

lemma fraction_loop_range:
  assumes "0 \<le> f" "f < 10 ^ n" "n \<le> 6"
  shows "case fraction_loop n f s of (n', f') \<Rightarrow> n' \<le> 6 \<and> 0 \<le> f' \<and> f' < 10 ^ n'"
  using assms
proof (induction n f s rule: fraction_loop.induct)
  case (1 n f c s)
  show ?case
  proof (cases "is_digit c \<and> n < 6")
    case True
    have "0 \<le> f * 10 + digit_value c" "f * 10 + digit_value c < 10 ^ Suc n"
      using 1(2,3) digit_value_range [of c] True by auto
    then show ?thesis using 1(1) [OF True] True by simp
  qed (use 1 in auto)
qed simp

lemma pad_fraction_range:
  assumes "0 \<le> f" "f < 10 ^ n" "n \<le> 6"
  shows "0 \<le> pad_fraction (n, f) \<and> pad_fraction (n, f) < 1000000"
proof -
  have "f * 10 ^ (6 - n) < 10 ^ n * 10 ^ (6 - n)" using assms(2) by simp
  also have "(10 :: int) ^ n * 10 ^ (6 - n) = 10 ^ 6" using assms(3) by (simp flip: power_add)
  finally show ?thesis using assms(1) by (simp add: pad_fraction_def)
qed

lemma read2_digits:
  assumes "length sv \<ge> off + 2" "sv ! off = digit_char a" "sv ! (off + 1) = digit_char b" "a < 10" "b < 10"
  shows "read2 sv off = int (10 * a + b)"
  using assms by (simp add: read2_def)

lemma show_fixed_numeral:
  "show_fixed (numeral k) n = show_fixed (pred_numeral k) (n div 10) @ [digit_char (n mod 10)]"
  by (simp only: numeral_eq_Suc [of k] show_fixed.simps)

lemma show_fixed_2: "show_fixed 2 n = [digit_char (n div 10 mod 10), digit_char (n mod 10)]"
  by (simp add: numeral_2_eq_2)

lemma sexagesimal: "(q :: nat) = a * 60 + s \<Longrightarrow> a = h * 60 + m \<Longrightarrow> q = h * 3600 + m * 60 + s"
  by simp

lemma microseconds:
  "(us :: nat) = 1000000 * q + r \<Longrightarrow> q = h * 3600 + m * 60 + s \<Longrightarrow>
     int h * 3600000000 + int m * 60000000 + int s * 1000000 + int r = int us"
  by simp

lemma int_less_numeral: "n < numeral k \<Longrightarrow> int n < numeral k"
  by simp

lemma time_parts:
  "int (us div 3600000000) * 3600000000 + int (us div 60000000 mod 60) * 60000000 +
     int (us div 1000000 mod 60) * 1000000 + int (us mod 1000000) = int us"
proof -
  define q where "q = us div 1000000"
  have m: "us div 60000000 = q div 60" using div_mult2_eq [of us 1000000 60] by (simp add: q_def)
  have h: "us div 3600000000 = q div 60 div 60"
    using div_mult2_eq [of us 60000000 60] by (simp add: m)
  have "us = 1000000 * q + us mod 1000000" by (simp add: q_def)
  moreover have "q = q div 60 div 60 * 3600 + q div 60 mod 60 * 60 + q mod 60"
    by (rule sexagesimal) (rule div_mult_mod_eq [symmetric])+
  ultimately show ?thesis unfolding h m q_def [symmetric] by (rule microseconds)
qed

lemma parse_fields:
  assumes "strip isspace s = sv" "sv = [a, b, CHR '':'', c, d, CHR '':'', e, f, CHR ''.''] @ fraction"
    and "read2 sv 0 = hh" "read2 sv 3 = mm" "read2 sv 6 = ss"
    and "0 \<le> hh" "hh < 24" "0 \<le> mm" "mm < 60" "0 \<le> ss" "ss < 60"
  shows "parse_hh_mm_ss_to_us s =
    Inr (hh * 3600000000 + mm * 60000000 + ss * 1000000 + pad_fraction (fraction_loop 0 0 fraction))"
proof -
  have "\<not> length sv < 8" "length sv \<noteq> 8" "sv ! 2 = CHR '':''" "sv ! 5 = CHR '':''" "sv ! 8 = CHR ''.''"
    "drop 9 sv = fraction" by (simp_all add: assms(2))
  then show ?thesis using assms by (simp add: parse_hh_mm_ss_to_us_def)
qed

text \<open>A rendered time, padded with white space, is parsed to the time that was rendered.\<close>

lemma parse_render_time:
  assumes "us < 86400000000" "list_all isspace l" "list_all isspace r"
  shows "parse_hh_mm_ss_to_us (l @ render_time us @ r) = Inr (int us)"
proof -
  let ?hh = "us div 3600000000" and ?mm = "us div 60000000 mod 60" and ?ss = "us div 1000000 mod 60"
  let ?sv = "render_time us"
  have hh: "?hh < 24" using assms(1) by (simp add: less_mult_imp_div_less)
  have sv: "?sv = [digit_char (?hh div 10 mod 10), digit_char (?hh mod 10), CHR '':'',
      digit_char (?mm div 10 mod 10), digit_char (?mm mod 10), CHR '':'',
      digit_char (?ss div 10 mod 10), digit_char (?ss mod 10), CHR ''.''] @ show_fixed 6 (us mod 1000000)"
    by (simp add: render_time_def show_fixed_2)
  have "\<not> isspace (hd ?sv)" using hh by (simp add: sv is_digit_not_space)
  moreover have "show_fixed 6 k = show_fixed 5 (k div 10) @ [digit_char (k mod 10)]" for k
    using show_fixed_numeral [of "num.Bit0 (num.Bit1 num.One)" k] by simp
  then have "\<not> isspace (last ?sv)" by (simp add: sv is_digit_not_space)
  ultimately have strip: "strip isspace (l @ ?sv @ r) = ?sv"
    using strip_padded [OF assms(2,3)] by blast
  have two: "10 * (k div 10 mod 10) + k mod 10 = k" if "k < 100" for k :: nat
    using that by (simp add: div_less_iff_less_mult)
  have r0: "read2 ?sv 0 = int ?hh"
    using read2_digits [of 0 ?sv "?hh div 10 mod 10" "?hh mod 10"] two [of ?hh] hh by (simp add: sv del: div_less mod_less)
  have r3: "read2 ?sv 3 = int ?mm"
    using read2_digits [of 3 ?sv "?mm div 10 mod 10" "?mm mod 10"] two [of ?mm] by (simp add: sv del: div_less mod_less)
  have r6: "read2 ?sv 6 = int ?ss"
    using read2_digits [of 6 ?sv "?ss div 10 mod 10" "?ss mod 10"] two [of ?ss] by (simp add: sv del: div_less mod_less)
  have frac: "pad_fraction (fraction_loop 0 0 (show_fixed 6 (us mod 1000000))) = int (us mod 1000000)"
    using fraction_loop_digits [OF digits_show_fixed, of 0 6] by (simp add: decimal_show_fixed pad_fraction_def)
  have "int ?hh < 24" by (rule int_less_numeral [OF hh])
  moreover have "int ?mm < 60" "int ?ss < 60" by (rule int_less_numeral, rule mod_less_divisor, simp)+
  ultimately show ?thesis
    using parse_fields [OF strip sv r0 r3 r6 of_nat_0_le_iff _ of_nat_0_le_iff _ of_nat_0_le_iff]
    unfolding frac time_parts by blast
qed

text \<open>Every text is parsed to a time of the day or is refused with the trimmed text.\<close>

lemma parse_time_range:
  "case parse_hh_mm_ss_to_us s of
     Inr us \<Rightarrow> 0 \<le> us \<and> us < 86400000000
   | Inl e \<Rightarrow> e = BadTime (strip isspace s)"
proof -
  let ?sv = "strip isspace s"
  obtain n f where nf: "fraction_loop 0 0 (drop 9 ?sv) = (n, f)" by fastforce
  then have "n \<le> 6 \<and> 0 \<le> f \<and> f < 10 ^ n"
    using fraction_loop_range [of 0 0 "drop 9 ?sv"] by simp
  then have "0 \<le> pad_fraction (n, f) \<and> pad_fraction (n, f) < 1000000"
    using pad_fraction_range by blast
  then show ?thesis
    by (auto simp: parse_hh_mm_ss_to_us_def Let_def nf)
qed

section \<open>What the feed delivers\<close>

definition feed_type :: "UpdateType \<Rightarrow> bool" where
  "feed_type ut \<longleftrightarrow> ut \<in> {ADD, DELETE, SUBTRACT, MATCH, SET}"

definition feed_event :: "InstrumentSpec \<Rightarrow> NormalizedLobEvent \<Rightarrow> bool" where
  \<comment> \<open>a well-formed historical event of the instrument\<close>
  "feed_event spec ev \<longleftrightarrow> 0 \<le> ev_ts_exchange ev \<and> 0 \<le> ev_ts_received ev \<and>
     0 \<le> ev_price_ticks ev \<and> ev_price_ticks ev < 2 ^ 63 \<and>
     0 \<le> ev_quantity_lots ev \<and> ev_quantity_lots ev < 2 ^ 63 \<and>
     int64_in_range (ev_order_id ev) \<and> feed_type (ev_update_type ev) \<and>
     ev_update_source ev = HISTORICAL \<and> ev_symbol_id ev = is_symbol spec"

lemma stable_order_id_range: "int64_in_range (stable_order_id value)"
proof -
  have "- (2 ^ 63) \<le> sint w \<and> sint w < 2 ^ 63" for w :: "64 word"
    using sint_greater_eq [of w] sint_less [of w] by simp
  then show ?thesis by (simp add: int64_in_range_def stable_order_id_def)
qed

lemma try_normalize_cases:
  assumes "try_normalize env spec raw = Some ev"
  obtains px sz where "price_to_ticks env spec (cb_price raw) = Inr px"
    "quantity_to_lots env spec (cb_size raw) = Inr sz"
    "0 \<le> cb_ts_exchange_us raw" "0 \<le> cb_ts_received_us raw" "cb_order_id raw \<noteq> []"
    "ev = \<lparr>ev_ts_exchange = cb_ts_exchange_us raw, ev_ts_received = cb_ts_received_us raw,
       ev_side = cb_side raw, ev_update_type = cb_update_type raw, ev_price_ticks = px,
       ev_quantity_lots = sz, ev_order_id = stable_order_id (cb_order_id raw),
       ev_trader_id = UnknownTraderIdSentinel, ev_aggressor_id = UnknownAggressorIdSentinel,
       ev_update_source = HISTORICAL, ev_symbol_id = is_symbol spec\<rparr>"
  using assms unfolding try_normalize_def by (auto split: if_splits sum.splits)

lemma try_normalize_feed:
  assumes "ieee64 env" "feed_type (cb_update_type raw)" "try_normalize env spec raw = Some ev"
  shows "feed_event spec ev"
  using assms(3)
proof (cases rule: try_normalize_cases)
  case (1 px sz)
  then show ?thesis
    using assms(2) price_to_ticks_range [OF assms(1) 1(1)] quantity_to_lots_range [OF assms(1) 1(2)]
      stable_order_id_range by (simp add: feed_event_def)
qed

lemma parse_update_type_feed: "parse_update_type text = Inr ut \<Longrightarrow> feed_type ut"
  by (auto simp: parse_update_type_def feed_type_def Let_def split: if_splits)

lemma read_row_feed:
  assumes "read_row impl batch r = Inr raw"
  shows "feed_type (cb_update_type raw)"
proof -
  have "feed_type ut" if "read_update_type g arr k = Inr ut" for g arr k ut
    using that by (auto simp: read_update_type_def split: sum.splits dest: parse_update_type_feed)
  then show ?thesis using assms by (auto simp: read_row_def Let_def split: sum.splits)
qed

lemma parquet_next_feed:
  "parquet_next impl = (Inr (Some raw), impl') \<Longrightarrow> feed_type (cb_update_type raw)"
  by (auto simp: parquet_next_def read_current_def Let_def dest!: read_row_feed
      split: if_splits prod.splits sum.splits option.splits)

lemma parquet_items_feed:
  "list_all (\<lambda>x. case x of Inl _ \<Rightarrow> True | Inr raw \<Rightarrow> feed_type (cb_update_type raw)) (parquet_items impl)"
proof (induction impl rule: parquet_items.induct)
  case (1 impl)
  then show ?case
    by (subst parquet_items.simps)
      (auto split: prod.split sum.split option.split dest: parquet_next_feed)
qed

end
