(* ===== verification/FeedProps.thy ===== *)
theory FeedProps
  imports CoinbaseFacts ReplayFacts
begin

text \<open>
  The properties of the Coinbase feed: the conversion of prices under each rounding policy, the
  format of times, what a replay of a file gives the engine, and what becomes of snapshot rows.
\<close>

section \<open>Examples\<close>

definition btcusdt :: "RoundingPolicy \<Rightarrow> InstrumentSpec" where
  \<comment> \<open>the instrument of \<open>examples/lobsim_multibook_cpp.cpp\<close>\<close>
  "btcusdt policy = \<lparr>is_symbol = ''BTC-USDT'', is_venue = ''coinbase'',
     is_tick_size = \<lparr>ra_num = 1, ra_den = 100\<rparr>, is_lot_size = \<lparr>ra_num = 1, ra_den = 100000000\<rparr>,
     is_price_policy = policy, is_qty_policy = policy, is_strict_eps = 1 / 10 ^ 12\<rparr>"

definition sample_row :: "UpdateType \<Rightarrow> CoinbaseBTCUSDTRawEvent" where
  "sample_row ut = \<lparr>cb_ts_exchange_us = 3, cb_ts_received_us = 7, cb_update_type = ut, cb_side = BUY,
     cb_price = Fin (50 / 4), cb_size = Fin 2, cb_order_id = ''a''\<rparr>"

section \<open>Conversions\<close>

definition scaled_price :: "FloatEnv \<Rightarrow> InstrumentSpec \<Rightarrow> rat \<Rightarrow> LDouble" where
  \<comment> \<open>the value \<open>x\<close> of \<open>price_to_ticks\<close>\<close>
  "scaled_price env spec p = ld_mult env (Fin p)
     (ld_div_pos env (ld_of_int env (ra_den (is_tick_size spec))) (ld_of_int env (ra_num (is_tick_size spec))))"

text \<open>C30 On a platform whose \<open>long double\<close> has a 64-bit significand, a price whose scaled value
  \<open>x\<close> is in the range of \<open>int64\<close> becomes exactly what the price policy says: the floor or the ceiling of
  \<open>x\<close>, the nearest integer (half away from zero), or under \<open>Strict\<close> the nearest integer if it is
  no further away than \<open>strict_eps\<close> and an error otherwise.\<close>

theorem price_to_ticks_policies:
  assumes "ieee64 env" "spec_valid spec" "0 \<le> p" "scaled_price env spec p = Fin x"
    and "fe_round env x = Fin x" "fe_double_finite env x" "0 \<le> x" "x \<le> of_int int64_limit"
  shows "price_to_ticks env spec (Fin p) =
    (case is_price_policy spec of
       Floor \<Rightarrow> Inr \<lfloor>x\<rfloor>
     | Ceil \<Rightarrow> Inr \<lceil>x\<rceil>
     | Nearest \<Rightarrow> Inr \<lfloor>x + 1 / 2\<rfloor>
     | Strict \<Rightarrow> if \<bar>x - of_int \<lfloor>x + 1 / 2\<rfloor>\<bar> \<le> is_strict_eps spec then Inr \<lfloor>x + 1 / 2\<rfloor>
                 else Inl ''Strict price not on grid.''
     | RAW_POLICY _ \<Rightarrow> Inl ''Unknown rounding policy.'')"
  using assms(2-4) round_to_int64_in_range [OF assms(1,5-8), of spec "is_price_policy spec" "''price''"]
  by (simp add: price_to_ticks_def scaled_price_def ld_nonneg_def Let_def cong: RoundingPolicy.case_cong)

lemma scaled_price_btcusdt: "scaled_price exact_env (btcusdt policy) p = Fin (100 * p)"
  by (simp add: scaled_price_def exact_env_def btcusdt_def ld_mult_def ld_div_pos_def ld_of_int_def)

lemma btcusdt_valid: "spec_valid (btcusdt policy)"
  by (simp add: btcusdt_def spec_valid_def rational_valid_def)

lemma price_to_ticks_policies_example:
  "price_to_ticks exact_env (btcusdt Floor) (Fin (12507 / 1000)) = Inr 1250 \<and>
   price_to_ticks exact_env (btcusdt Nearest) (Fin (12507 / 1000)) = Inr 1251"
proof -
  have "price_to_ticks exact_env (btcusdt policy) (Fin (12507 / 1000)) =
      (case policy of
         Floor \<Rightarrow> Inr \<lfloor>100 * (12507 / 1000 :: rat)\<rfloor>
       | Ceil \<Rightarrow> Inr \<lceil>100 * (12507 / 1000 :: rat)\<rceil>
       | Nearest \<Rightarrow> Inr \<lfloor>100 * (12507 / 1000 :: rat) + 1 / 2\<rfloor>
       | Strict \<Rightarrow> if \<bar>100 * (12507 / 1000 :: rat) - of_int \<lfloor>100 * (12507 / 1000 :: rat) + 1 / 2\<rfloor>\<bar>
             \<le> is_strict_eps (btcusdt policy) then Inr \<lfloor>100 * (12507 / 1000 :: rat) + 1 / 2\<rfloor>
           else Inl ''Strict price not on grid.''
       | RAW_POLICY _ \<Rightarrow> Inl ''Unknown rounding policy.'')" for policy
    using price_to_ticks_policies [OF ieee64_exact_env btcusdt_valid _ scaled_price_btcusdt,
        of "12507 / 1000" policy]
    by (simp add: exact_env_def int64_limit_def btcusdt_def cong: RoundingPolicy.case_cong)
  from this [of Floor] this [of Nearest] show ?thesis by (simp add: floor_eq_iff)
qed

text \<open>
  The price 97123.45 is 2.9e-10 ticks away from the grid once it was stored as a \<open>double\<close>, as the
  price column of a file does; the default \<open>strict_eps\<close> of 1e-12 refuses it.
\<close>

lemma strict_refuses_double_price:
  "price_to_ticks exact_env (btcusdt Strict) (Fin (6674272662795059 / 68719476736)) =
     Inl ''Strict price not on grid.''"
proof -
  have "\<lfloor>100 * (6674272662795059 / 68719476736 :: rat) + 1 / 2\<rfloor> = 9712345"
    by (simp add: floor_eq_iff)
  then show ?thesis
    by (simp add: price_to_ticks_def round_to_int64_def round_by_policy_def strict_fits_def btcusdt_def
        exact_env_def spec_valid_def rational_valid_def ld_nonneg_def ld_mult_def ld_div_pos_def
        ld_of_int_def ld_sub_def llround_def half_away_def int64_in_range_def)
qed

section \<open>Times of day\<close>

text \<open>C29 The parser of times of day gives back every time of the day, to the microsecond, from its
  rendering as \<open>hh:mm:ss.ffffff\<close> with any white space around it; and from any text whatever it
  gives a time within the day or the error that quotes the trimmed text.\<close>

theorem time_of_day_roundtrip:
  assumes "us < 86400000000" "list_all isspace l" "list_all isspace r"
  shows "parse_hh_mm_ss_to_us (l @ render_time us @ r) = Inr (int us) \<and>
    (case parse_hh_mm_ss_to_us text of
       Inr t \<Rightarrow> 0 \<le> t \<and> t < 86400000000
     | Inl e \<Rightarrow> e = BadTime (strip isspace text))"
  using parse_render_time [OF assms] parse_time_range by blast

lemma time_of_day_roundtrip_example:
  "parse_hh_mm_ss_to_us '' 00:00:01.000002 '' = Inr 1000002"
proof -
  have blank: "list_all isspace '' ''" by (simp add: isspace_def char_code_def)
  have "parse_hh_mm_ss_to_us ('' '' @ render_time 1000002 @ '' '') = Inr (int 1000002)"
    by (rule conjunct1 [OF time_of_day_roundtrip [OF _ blank blank]]) simp
  moreover have "render_time 1000002 = ''00:00:01.000002''"
    by (simp add: render_time_def show_fixed_numeral digit_char_def) code_simp
  ultimately show ?thesis by simp
qed

text \<open>Text behind the fraction is not looked at, and neither are digits behind the sixth.\<close>

lemma text_behind_fraction_accepted: "parse_hh_mm_ss_to_us ''00:00:01.5 pm'' = Inr 1500000"
  by code_simp

section \<open>A file into the engine\<close>

text \<open>C27 However a Parquet file is cut into batches and whatever its cells hold, nulls and bad texts
  included, a replay of it gives the engine only well-formed historical events of the instrument:
  times that are not negative, prices, quantities and ids in the range of \<open>int64\<close>, no aggressive
  trade and no unknown update type. So the replay never throws for a negative receive time, and the
  engine ends in the state of these events, well formed.\<close>

theorem coinbase_replay_events:
  assumes "ieee64 env" "sim_wf (rs_engine s)"
  shows "let (r, s') = session_run_source update (try_normalize env spec) (parquet_items impl) cfg s;
             evs = normalized (try_normalize env spec)
               (delivered (rc_fail_fast cfg) (try_normalize env spec) (parquet_items impl))
         in list_all (feed_event spec) evs \<and> r \<noteq> Inl InvalidTsReceived \<and> sim_wf (rs_engine s') \<and>
            (\<exists>n. rs_engine s' = run_updates (take n evs) (rs_engine s))"
proof -
  let ?adapt = "try_normalize env spec" and ?src = "parquet_items impl"
  let ?evs = "normalized ?adapt (delivered (rc_fail_fast cfg) ?adapt ?src)"
  let ?s = "s\<lparr>rs_cfg := cfg\<rparr>"
  have "set (delivered (rc_fail_fast cfg) ?adapt ?src) \<subseteq> set ?src"
    by (auto simp: delivered_def dest: set_takeWhileD)
  then have evs: "list_all (feed_event spec) ?evs"
    using parquet_items_feed [of impl] try_normalize_feed [OF assms(1)]
    by (fastforce simp: normalized_def List.map_filter_def list_all_iff split: sum.splits)
  have "fst (run_loop update ?evs empty_RunSummary ?s) \<noteq> Inl InvalidTsReceived \<and>
      (\<exists>n. rs_engine (snd (run_loop update ?evs empty_RunSummary ?s)) = run_updates (take n ?evs) (rs_engine s))"
  proof (cases "accepted_times (rs_cfg ?s) ?s ?evs")
    case True
    then show ?thesis by (simp add: run_loop_accepted run_updates_def) (metis take_all_iff order_refl)
  next
    case False
    have "\<not> ev_ts_received (?evs ! k) < 0" if "k < length ?evs" for k
      using evs that by (fastforce simp: list_all_length feed_event_def)
    then show ?thesis
      using run_loop_rejected [OF False, of update empty_RunSummary] by (auto simp: run_updates_def)
  qed
  then show ?thesis
    using evs simulator.run_source_keeps [OF assms(2), of ?adapt ?src cfg]
      session_run_source_run [of update ?adapt ?src cfg s]
    by (cases "run_loop update ?evs empty_RunSummary ?s"; cases "fst (run_loop update ?evs empty_RunSummary ?s)")
      (auto simp: Let_def session_run_def stop_result_def)
qed

lemma coinbase_replay_events_example:
  "fst (session_run_source update (try_normalize exact_env (btcusdt Nearest))
     (parquet_items \<lparr>im_rb_reader = [Inl ()], im_batch = None, im_row_in_batch = 0, im_global_row = 0,
        im_columns = [0, 1, 2, 3, 4, 5, 6], im_time_exchange_is_string = True,
        im_time_feed_is_string = True, im_time_exchange_unit = SECOND, im_time_feed_unit = SECOND\<rparr>)
     default_ReplayConfig (replay_session (sim_init 10 10) default_ReplayConfig)) \<noteq> Inl InvalidTsReceived"
  using coinbase_replay_events [OF ieee64_exact_env, of "replay_session (sim_init 10 10) default_ReplayConfig"]
  by (simp add: Let_def case_prod_beta replay_session_def sim_wf_init)

section \<open>Snapshot rows\<close>

text \<open>C28 A row that the file marks as a snapshot row, in whatever case and spacing, is read as a
  \<open>SET\<close>; when its order does not rest in the book, as when a replay starts from an empty engine,
  the engine changes nothing and reports the order as unknown: the liquidity of the snapshot never
  enters the book.\<close>

theorem snapshot_row_rejected:
  assumes "map toupper (strip isspace text) = ''SNAPSHOT''"
    and "parse_update_type text = Inr (cb_update_type raw)"
    and "try_normalize env spec raw = Some ev"
    and "hm_find (order_info (hist st)) (ev_order_id ev) = None" "sink st"
  shows "hist (update ev st) = hist st \<and> paper (update ev st) = paper st \<and>
    (\<exists>d. dr_code d = SET_NON_EXISTING_ORDER_ID_IS_REJECTED \<and> OnDiagnostic d \<in> set (calls (update ev st)))"
proof -
  have "cb_update_type raw = SET" using assms(1,2) by (simp add: parse_update_type_def Let_def)
  then have "ev_update_type ev = SET" "ev_update_source ev = HISTORICAL"
    using assms(3) by (auto elim!: try_normalize_cases)
  then show ?thesis
    using assms(4,5)
    by (simp add: update_def dispatch_def on_set_def Let_def diag_if_def emit_diagnostic_def emit_call_def
        ex_disj_distrib conj_disj_distribL)
qed

lemma snapshot_row_rejected_example:
  "\<exists>ev. try_normalize exact_env (btcusdt Nearest) (sample_row SET) = Some ev \<and>
     hist (update ev (set_log_sink True (sim_init 10 10))) = hist (sim_init 10 10)"
proof -
  have price: "price_to_ticks exact_env (btcusdt Nearest) (Fin (50 / 4)) = Inr 1250"
    using price_to_ticks_policies [OF ieee64_exact_env btcusdt_valid _ scaled_price_btcusdt, of "50 / 4" Nearest]
    by (simp add: exact_env_def int64_limit_def btcusdt_def floor_eq_iff)
  have "quantity_to_lots exact_env (btcusdt Nearest) (Fin 2) = Inr 200000000"
    by (simp add: quantity_to_lots_def round_to_int64_def round_by_policy_def btcusdt_def exact_env_def
        spec_valid_def rational_valid_def ld_nonneg_def ld_mult_def ld_div_pos_def ld_of_int_def
        llround_def half_away_def int64_in_range_def int64_limit_def floor_eq_iff)
  with price obtain ev where ev: "try_normalize exact_env (btcusdt Nearest) (sample_row SET) = Some ev"
    by (simp add: try_normalize_def sample_row_def ld_nonneg_def)
  have "map toupper (strip isspace '' Snapshot '') = ''SNAPSHOT''"
    "parse_update_type '' Snapshot '' = Inr SET" by code_simp+
  from snapshot_row_rejected [OF this(1) _ ev, of "set_log_sink True (sim_init 10 10)"] this(2)
  have "hist (update ev (set_log_sink True (sim_init 10 10))) = hist (set_log_sink True (sim_init 10 10))"
    by (simp add: sample_row_def set_log_sink_def sim_init_def hist_init_def)
  then show ?thesis using ev by (auto simp: set_log_sink_def)
qed

end
