(* ===== verification/Lobster.thy ===== *)
theory Lobster
  imports Snapshot Queries ReplaySession Text
begin

text \<open>
  The LOBSTER replay (\<open>examples/lobsim_lobster_cpp.cpp\<close>): message and order book files as lists of
  lines, the adapter to normalized events, the initialisation of an engine from a row of the order
  book, and the loop that replays the messages and compares the best prices with the file.
  \<open>std::strtod\<close> followed by the rounding to microseconds is a parameter, \<open>read_us\<close>: it gives the
  number and the rest of the text, the text itself where nothing could be read.
\<close>

section \<open>Lines\<close>

record LobsterMessageEvent =
  lm_ts_exchange_us :: int
  lm_event_type :: int
  lm_order_id :: int
  lm_size :: int
  lm_price_ticks :: int
  lm_direction :: int

definition int_of_long :: "int \<Rightarrow> int" where
  \<comment> \<open>\<open>static_cast<int>\<close> of a \<open>long\<close>\<close>
  "int_of_long v = (v + 2 ^ 31) mod 2 ^ 32 - 2 ^ 31"

definition comma_field :: "int \<times> string \<Rightarrow> string \<Rightarrow> (int \<times> string) option" where
  \<comment> \<open>the check \<open>end == s || *end != ','\<close> after a number was read from \<open>s\<close>, and the step behind the comma\<close>
  "comma_field r s =
     (case r of (v, rest) \<Rightarrow>
        if rest = s \<or> rest = [] \<or> hd rest \<noteq> CHR '','' then None else Some (v, tl rest))"

definition parse_message_line :: "(string \<Rightarrow> int \<times> string) \<Rightarrow> string \<Rightarrow> LobsterMessageEvent option" where
  "parse_message_line read_us line =
     (if line = [] then None
      else case comma_field (read_us line) line of None \<Rightarrow> None | Some (ts, s1) \<Rightarrow>
      (case comma_field (strtoll s1) s1 of None \<Rightarrow> None | Some (ty, s2) \<Rightarrow>
      (case comma_field (strtoll s2) s2 of None \<Rightarrow> None | Some (oid, s3) \<Rightarrow>
      (case comma_field (strtoll s3) s3 of None \<Rightarrow> None | Some (sz, s4) \<Rightarrow>
      (case comma_field (strtoll s4) s4 of None \<Rightarrow> None | Some (px, s5) \<Rightarrow>
         (case strtoll s5 of (dir, rest) \<Rightarrow>
            if rest = s5 then None
            else Some \<lparr>lm_ts_exchange_us = ts, lm_event_type = int_of_long ty, lm_order_id = oid,
                   lm_size = sz, lm_price_ticks = px, lm_direction = int_of_long dir\<rparr>))))))"

fun orderbook_fields :: "nat \<Rightarrow> string \<Rightarrow> int list option" where
  \<comment> \<open>the loop of \<open>parse_orderbook_line\<close>, with the number of columns that are left\<close>
  "orderbook_fields 0 s = Some []"
| "orderbook_fields (Suc n) s =
     (case strtoll s of (v, rest) \<Rightarrow>
        if rest = s then None
        else if n = 0 then Some [v]
        else if rest = [] \<or> hd rest \<noteq> CHR '','' then None
        else (case orderbook_fields n (tl rest) of None \<Rightarrow> None | Some vs \<Rightarrow> Some (v # vs)))"

definition parse_orderbook_line :: "string \<Rightarrow> nat \<Rightarrow> int list option" where
  "parse_orderbook_line line expected_cols =
     (if line = [] then None else orderbook_fields expected_cols line)"

section \<open>Sources\<close>

definition drop_cr :: "string \<Rightarrow> string" where
  "drop_cr line = (if line \<noteq> [] \<and> last line = char_of (13 :: nat) then butlast line else line)"

fun next_line :: "(string \<Rightarrow> 'a option) \<Rightarrow> string list \<Rightarrow> ('a \<times> string list) option" where
  \<comment> \<open>\<open>next\<close> of both sources: the first line that can be parsed, and the lines behind it\<close>
  "next_line parse [] = None"
| "next_line parse (line # lines) =
     (case parse (drop_cr line) of Some x \<Rightarrow> Some (x, lines) | None \<Rightarrow> next_line parse lines)"

definition message_next ::
  "(string \<Rightarrow> int \<times> string) \<Rightarrow> string list \<Rightarrow> (LobsterMessageEvent \<times> string list) option" where
  "message_next read_us lines = next_line (parse_message_line read_us) lines"

definition orderbook_next :: "nat \<Rightarrow> string list \<Rightarrow> (int list \<times> string list) option" where
  "orderbook_next levels lines = next_line (\<lambda>line. parse_orderbook_line line (levels * 4)) lines"

definition open_lines :: "nat \<Rightarrow> string list \<Rightarrow> string list" where
  \<comment> \<open>both constructors: \<open>skip_rows\<close> lines are read and dropped\<close>
  "open_lines skip_rows lines = drop skip_rows lines"

section \<open>The adapter\<close>

datatype LobsterOutcome = HiddenExecution | UnsupportedEventType | BadDirection | Normalized NormalizedLobEvent

definition lobster_try_normalize :: "string \<Rightarrow> LobsterMessageEvent \<Rightarrow> LobsterOutcome" where
  \<comment> \<open>\<open>HiddenExecution\<close> is the result \<open>false\<close>; the other two failures are thrown\<close>
  "lobster_try_normalize symbol raw =
     (if lm_event_type raw = 5 then HiddenExecution
      else case (if lm_event_type raw = 1 then Some ADD
                 else if lm_event_type raw = 2 then Some SUBTRACT
                 else if lm_event_type raw = 3 then Some DELETE
                 else if lm_event_type raw = 4 then Some MATCH
                 else None) of
        None \<Rightarrow> UnsupportedEventType
      | Some ut \<Rightarrow>
          if lm_direction raw \<noteq> 1 \<and> lm_direction raw \<noteq> - 1 then BadDirection
          else Normalized
            \<lparr>ev_ts_exchange = lm_ts_exchange_us raw, ev_ts_received = lm_ts_exchange_us raw,
             ev_side = (if lm_direction raw = 1 then BUY else SELL), ev_update_type = ut,
             ev_price_ticks = lm_price_ticks raw, ev_quantity_lots = lm_size raw,
             ev_order_id = lm_order_id raw, ev_trader_id = UnknownTraderIdSentinel,
             ev_aggressor_id = UnknownAggressorIdSentinel, ev_update_source = HISTORICAL,
             ev_symbol_id = symbol\<rparr>)"

section \<open>The order book row\<close>

definition row_level :: "int list \<Rightarrow> nat \<Rightarrow> (Side \<times> int \<times> int) list" where
  \<comment> \<open>what one round of the loop pushes onto sides, prices and quantities\<close>
  "row_level row level =
     (let ask_px = row ! (4 * level); ask_sz = row ! (4 * level + 1);
          bid_px = row ! (4 * level + 2); bid_sz = row ! (4 * level + 3)
      in (if ask_px > 0 \<and> ask_sz > 0 then [(SELL, ask_px, ask_sz)] else []) @
         (if bid_px > 0 \<and> bid_sz > 0 then [(BUY, bid_px, bid_sz)] else []))"

definition row_levels :: "int list \<Rightarrow> nat \<Rightarrow> (Side \<times> int \<times> int) list" where
  "row_levels row levels = concat (map (row_level row) [0..<levels])"

definition init_from_orderbook_row :: "int list \<Rightarrow> nat \<Rightarrow> Sim \<Rightarrow> Sim \<times> SnapshotError option" where
  "init_from_orderbook_row row levels engine =
     (let rows = row_levels row levels
      in init_from_l2_snapshot (map fst rows) (map (fst \<circ> snd) rows) (map (snd \<circ> snd) rows) engine)"

section \<open>The replay\<close>

record LobsterRun =
  lr_processed :: nat
  lr_applied :: nat
  lr_skipped_hidden :: nat
  lr_mismatches :: nat

datatype LobsterError = AdapterError LobsterOutcome | SessionError ReplayError

definition side_ok :: "int \<Rightarrow> int \<Rightarrow> (int \<times> int) list \<Rightarrow> bool" where
  \<comment> \<open>\<open>bid_ok\<close> and \<open>ask_ok\<close>\<close>
  "side_ok px sz top_level =
     ((px = 0 \<and> top_level = []) \<or> (top_level \<noteq> [] \<and> fst (hd top_level) = px \<and> snd (hd top_level) = sz))"

definition check_row :: "int list \<Rightarrow> Sim \<Rightarrow> LobsterRun \<Rightarrow> LobsterRun" where
  \<comment> \<open>the comparison with the file after every 10000 rows\<close>
  "check_row book_row engine run =
     (if lr_processed run mod 10000 = 0 \<and>
         \<not> (side_ok (book_row ! 2) (book_row ! 3) (l2_top_n BUY 1 engine) \<and>
            side_ok (book_row ! 0) (book_row ! 1) (l2_top_n SELL 1 engine))
      then run\<lparr>lr_mismatches := lr_mismatches run + 1\<rparr> else run)"

fun lobster_loop ::
  "string \<Rightarrow> (LobsterMessageEvent \<times> int list) list \<Rightarrow> LobsterRun \<Rightarrow> Sim ReplaySession \<Rightarrow>
     (LobsterError + LobsterRun) \<times> Sim ReplaySession" where
  \<comment> \<open>the main loop, over the messages and rows both sources still deliver\<close>
  "lobster_loop symbol [] run s = (Inr run, s)"
| "lobster_loop symbol ((raw, book_row) # rows) run s =
     (let run1 = run\<lparr>lr_processed := lr_processed run + 1\<rparr> in
      case lobster_try_normalize symbol raw of
        Normalized ev \<Rightarrow>
          (case session_step update ev s of
             (Inl e, s') \<Rightarrow> (Inl (SessionError e), s')
           | (Inr _, s') \<Rightarrow>
               lobster_loop symbol rows
                 (check_row book_row (rs_engine s') (run1\<lparr>lr_applied := lr_applied run1 + 1\<rparr>)) s')
      | HiddenExecution \<Rightarrow>
          lobster_loop symbol rows
            (check_row book_row (rs_engine s) (run1\<lparr>lr_skipped_hidden := lr_skipped_hidden run1 + 1\<rparr>)) s
      | e \<Rightarrow> (Inl (AdapterError e), s))"

end
