(* ===== verification/LobsterProps.thy ===== *)
theory LobsterProps
  imports Lobster QueryProps
begin

text \<open>
  The LOBSTER replay starts from the book of the file: an engine initialised from a row of the order
  book answers \<open>l2_top_n\<close> with exactly the levels of the row.
\<close>

section \<open>Loading levels and reading them back\<close>

definition side_rows :: "Side \<Rightarrow> (Side \<times> int \<times> int) list \<Rightarrow> (int \<times> int) list" where
  "side_rows s rows = map snd (filter (\<lambda>r. fst r = s) rows)"

lemma side_rows_simps [simp]:
  "side_rows s [] = []"
  "side_rows s (r # rows) = (if fst r = s then snd r # side_rows s rows else side_rows s rows)"
  "side_rows s (rows @ rows') = side_rows s rows @ side_rows s rows'"
  by (simp_all add: side_rows_def)

lemma zip_sides_prices: "zip (map fst rows) (map (fst \<circ> snd) rows) = map (\<lambda>(s, px, q). (s, px)) rows"
  by (induction rows) auto

lemma zip_rows:
  "zip (zip (map fst rows) (map (fst \<circ> snd) rows)) (map (snd \<circ> snd) rows) = map (\<lambda>(s, px, q). ((s, px), q)) rows"
  by (induction rows) auto

lemma distinct_rows:
  assumes "\<And>s. distinct (map fst (side_rows s rows))"
  shows "distinct (map (\<lambda>(s, px, q). (s, px)) rows)"
  using assms
proof (induction rows)
  case (Cons r rows)
  obtain s px q where r: "r = (s, px, q)" by (cases r)
  have "distinct (map fst (side_rows s' rows))" for s'
    using Cons.prems [of s'] by (simp split: if_splits)
  moreover have "px \<notin> fst ` set (side_rows s rows)" using Cons.prems [of s] by (simp add: r)
  ultimately show ?case using Cons.IH by (force simp: r side_rows_def)
qed simp

lemma map_of_side_rows:
  "map_of (map (\<lambda>(s, px, q). ((s, px), q)) rows) (s, px) = map_of (side_rows s rows) px"
  by (induction rows) auto

lemma desc_distinct: "desc s ps \<Longrightarrow> distinct ps"
  by (induction ps) (auto simp: desc_def)

lemma l2_loaded_top_n:
  assumes "sim_wf st" "\<forall>r \<in> set rows. 0 < snd (snd r)" "length rows \<le> historical_capacity st"
    and "\<And>s. desc s (map fst (side_rows s rows))"
  shows "let (st', err) = init_from_l2_snapshot (map fst rows) (map (fst \<circ> snd) rows) (map (snd \<circ> snd) rows) st in
    err = None \<and> sim_wf st' \<and> (\<forall>s n. l2_top_n s n st' = take n (side_rows s rows))"
proof -
  let ?init = "init_from_l2_snapshot (map fst rows) (map (fst \<circ> snd) rows) (map (snd \<circ> snd) rows) st"
  let ?st = "fst ?init"
  have "distinct (zip (map fst rows) (map (fst \<circ> snd) rows))"
    unfolding zip_sides_prices using desc_distinct [OF assms(4)] by (rule distinct_rows)
  then have ok: "snd ?init = None" "sim_wf ?st"
    and depth: "depth_at s px ?st = map_of (side_rows s rows) px" for s px
    using l2_snapshot_loaded [OF assms(1), of "map (fst \<circ> snd) rows" "map fst rows" "map (snd \<circ> snd) rows"]
      assms(2,3) by (auto simp: case_prod_beta Let_def zip_rows map_of_side_rows)
  have pos: "0 < q" if "map_of (side_rows s rows) px = Some q" for s px q
    using assms(2) map_of_SomeD [OF that] by (auto simp: side_rows_def)
  have wf: "hm_wf (h_book s (hist ?st))" for s by (rule sim_wf_books [OF ok(2)])
  have at: "map_of (side_rows s rows) px = (if hq (hist ?st) s px = [] then None
      else Some (sum_list (map on_qty (resting s px ?st))))" for s px
    using depth [of s px] pos [of s px 0] depth_at_resting [of s px ?st]
    by (auto simp: hq_find resting_def split: option.splits)
  have "l2_top_n s n ?st = take n (side_rows s rows)" for s n
  proof -
    have "set (ladder_prices s (hist ?st)) = dom (map_of (side_rows s rows))"
      unfolding set_ladder_prices [OF wf] using at by (auto simp: dom_def)
    then have lp: "ladder_prices s (hist ?st) = map fst (side_rows s rows)"
      using desc_unique [OF ladder_prices_desc [OF wf] assms(4)] by (simp add: dom_map_of_conv_image_fst)
    have sums: "(fst r, sum_list (map on_qty (resting s (fst r) ?st))) = r" if "r \<in> set (side_rows s rows)" for r
      using at [of s "fst r"] map_of_eq_Some_iff [OF desc_distinct [OF assms(4) [of s]], of "fst r" "snd r"] that
      by (simp add: prod_eq_iff split: if_splits)
    have "l2_top_n s n ?st = map (\<lambda>r. (fst r, sum_list (map on_qty (resting s (fst r) ?st)))) (take n (side_rows s rows))"
      by (subst l2_top_n_ladder [OF ok(2)], subst lp) (simp add: take_map)
    also have "\<dots> = take n (side_rows s rows)" by (rule map_idI, rule sums, rule in_set_takeD)
    finally show ?thesis .
  qed
  with ok show ?thesis by (simp add: case_prod_beta Let_def)
qed

section \<open>The row of the file\<close>

definition row_side :: "Side \<Rightarrow> int list \<Rightarrow> nat \<Rightarrow> (int \<times> int) list" where
  \<comment> \<open>the occupied levels of one side of a row, in the order of the file\<close>
  "row_side s row levels = filter (\<lambda>(px, sz). px > 0 \<and> sz > 0)
     (map (\<lambda>l. case s of SELL \<Rightarrow> (row ! (4 * l), row ! (4 * l + 1))
                       | BUY \<Rightarrow> (row ! (4 * l + 2), row ! (4 * l + 3))) [0..<levels])"

lemma side_rows_row_levels: "side_rows s (row_levels row levels) = row_side s row levels"
proof (induction levels)
  case (Suc n)
  then show ?case by (cases s) (auto simp: row_levels_def row_side_def row_level_def Let_def)
qed (simp add: row_levels_def row_side_def)

lemma length_row_levels: "length (row_levels row levels) \<le> 2 * levels"
  by (induction levels) (simp_all add: row_levels_def row_level_def Let_def)

text \<open>C31 An engine initialised from a row of the order book file whose occupied levels are in price
  order, asks upwards and bids downwards as LOBSTER writes them, and fit the pool, loads without an error
  whatever it held before, and then answers \<open>l2_top_n\<close> on each side with exactly the first levels of the
  row.\<close>

theorem lobster_book_is_row:
  assumes "sim_wf st" "2 * levels \<le> historical_capacity st"
    and "desc BUY (map fst (row_side BUY row levels))" "desc SELL (map fst (row_side SELL row levels))"
  shows "let (st', err) = init_from_orderbook_row row levels st in
    err = None \<and> sim_wf st' \<and> (\<forall>s n. l2_top_n s n st' = take n (row_side s row levels))"
proof -
  have "\<forall>r \<in> set (row_levels row levels). 0 < snd (snd r)"
    by (auto simp: row_levels_def row_level_def Let_def)
  moreover have "desc s (map fst (side_rows s (row_levels row levels)))" for s
    using assms(3,4) by (cases s) (simp_all add: side_rows_row_levels)
  ultimately show ?thesis
    using l2_loaded_top_n [OF assms(1), of "row_levels row levels"] assms(2) length_row_levels [of row levels]
    by (simp add: init_from_orderbook_row_def side_rows_row_levels Let_def)
qed

lemma lobster_book_is_row_example:
  "let (st', err) = init_from_orderbook_row [101, 5, 99, 4, 103, 2, 98, 7, 9999999999, 0, - 9999999999, 0] 3 (sim_init 10 10) in
     err = None \<and> l2_top_n SELL 3 st' = [(101, 5), (103, 2)] \<and> l2_top_n BUY 1 st' = [(99, 4)]"
proof -
  let ?row = "[101, 5, 99, 4, 103, 2, 98, 7, 9999999999, 0, - 9999999999, 0] :: int list"
  have r: "row_side BUY ?row 3 = [(99, 4), (98, 7)]" "row_side SELL ?row 3 = [(101, 5), (103, 2)]"
    by (simp_all add: row_side_def upt_rec numeral_eq_Suc)
  then have d: "desc BUY (map fst (row_side BUY ?row 3))" "desc SELL (map fst (row_side SELL ?row 3))"
    by (simp_all add: desc_def heap_key_def)
  have "2 * 3 \<le> historical_capacity (sim_init 10 10)" by code_simp
  from lobster_book_is_row [OF sim_wf_init this d] r show ?thesis
    by (simp add: case_prod_beta Let_def)
qed

end
