(* ===== verification/FlatTable.thy ===== *)
theory FlatTable
  imports HashMap "HOL-Library.Word"
begin

text \<open>
  The hash table behind \<open>FlatHashMap\<close>: \<open>sherwood_v3_table\<close> and \<open>flat_hash_map\<close> of
  \<open>flat_hash_map.hpp\<close>, Robin Hood hashing with a bound on the length of a probe. Keys are kept in one array
  of entries; an entry knows how far it is from the slot its hash asks for. \<open>std::hash\<close> is a parameter, the hash
  policy is the default one (\<open>fibonacci_hash_policy\<close>), the load factor the default 0.5, and allocation
  never fails. Pointers into the array are suffixes of the list of entries. A table whose probes overflow
  grows until they fit; as nothing bounds that for a bad hash, insertion takes a number of
  growths it may use up.
\<close>

unbundle bit_operations_syntax

section \<open>Bit tricks\<close>

definition log2_table :: "nat list" where
  "log2_table = [63, 0, 58, 1, 59, 47, 53, 2, 60, 39, 48, 27, 54, 33, 42, 3,
     61, 51, 37, 40, 49, 18, 28, 20, 55, 30, 34, 11, 43, 14, 22, 4,
     62, 57, 46, 52, 38, 26, 32, 41, 50, 36, 17, 19, 29, 10, 13, 21,
     56, 45, 25, 31, 35, 16, 9, 12, 44, 24, 15, 8, 23, 7, 6, 5]"

definition smear :: "64 word \<Rightarrow> 64 word" where
  \<comment> \<open>the six lines \<open>value |= value >> ..\<close>\<close>
  "smear v0 =
     (let v1 = v0 OR drop_bit 1 v0; v2 = v1 OR drop_bit 2 v1; v3 = v2 OR drop_bit 4 v2;
          v4 = v3 OR drop_bit 8 v3; v5 = v4 OR drop_bit 16 v4
      in v5 OR drop_bit 32 v5)"

definition table_log2 :: "64 word \<Rightarrow> nat" where
  "table_log2 value =
     (let v = smear value
      in log2_table ! unat (drop_bit 58 ((v - drop_bit 1 v) * 0x07EDD5E59A4E28C2)))"

definition next_power_of_two :: "64 word \<Rightarrow> 64 word" where
  "next_power_of_two i = smear (i - 1) + 1"

section \<open>Entries\<close>

datatype ('k, 'v) entry =
  Entry (distance_from_desired: int) (entry_value: "('k \<times> 'v) option")

definition empty_entry :: "('k, 'v) entry" where
  "empty_entry = Entry (- 1) None"

definition special_end :: "('k, 'v) entry" where
  \<comment> \<open>\<open>special_end_value\<close>: at its desired position, without a value\<close>
  "special_end = Entry 0 None"

definition has_value :: "('k, 'v) entry \<Rightarrow> bool" where
  "has_value e = (distance_from_desired e \<ge> 0)"

definition is_at_desired_position :: "('k, 'v) entry \<Rightarrow> bool" where
  "is_at_desired_position e = (distance_from_desired e \<le> 0)"

definition min_lookups :: nat where
  "min_lookups = 4"

record ('k, 'v) FlatTable =
  ft_entries :: "('k, 'v) entry list"
  ft_num_slots_minus_one :: nat
  ft_shift :: nat
  ft_max_lookups :: nat
  ft_num_elements :: nat

definition empty_default_table :: "('k, 'v) entry list" where
  "empty_default_table = [empty_entry, empty_entry, empty_entry, special_end]"

definition ft_empty :: "('k, 'v) FlatTable" where
  "ft_empty = \<lparr>ft_entries = empty_default_table, ft_num_slots_minus_one = 0, ft_shift = 63,
     ft_max_lookups = min_lookups - 1, ft_num_elements = 0\<rparr>"

section \<open>Lookup\<close>

definition index_for_hash :: "nat \<Rightarrow> 64 word \<Rightarrow> nat" where
  "index_for_hash shift h = unat (drop_bit shift (11400714819323198485 * h))"

datatype ('k, 'v) probe =
    Found "('k \<times> 'v)"
  | Stop "('k, 'v) entry list" int
  \<comment> \<open>where the probe stopped, and its distance there\<close>

fun probe_from :: "'k \<Rightarrow> int \<Rightarrow> ('k, 'v) entry list \<Rightarrow> ('k, 'v) probe" where
  \<comment> \<open>the loop that \<open>find\<close> and \<open>emplace\<close> share\<close>
  "probe_from k distance [] = Stop [] distance"
| "probe_from k distance (e # es) =
     (if distance_from_desired e \<ge> distance
      then (case entry_value e of
              Some kv \<Rightarrow> if fst kv = k then Found kv else probe_from k (distance + 1) es
            | None \<Rightarrow> probe_from k (distance + 1) es)
      else Stop (e # es) distance)"

definition ft_index :: "('k \<Rightarrow> 64 word) \<Rightarrow> 'k \<Rightarrow> ('k, 'v) FlatTable \<Rightarrow> nat" where
  "ft_index hash k t = index_for_hash (ft_shift t) (hash k)"

definition ft_find :: "('k \<Rightarrow> 64 word) \<Rightarrow> ('k, 'v) FlatTable \<Rightarrow> 'k \<Rightarrow> 'v option" where
  "ft_find hash t k =
     (case probe_from k 0 (drop (ft_index hash k t) (ft_entries t)) of
        Found kv \<Rightarrow> Some (snd kv) | Stop _ _ \<Rightarrow> None)"

definition elements :: "('k, 'v) entry list \<Rightarrow> ('k \<times> 'v) list" where
  \<comment> \<open>what an iterator that skips empty entries visits\<close>
  "elements es = List.map_filter entry_value es"

definition ft_items :: "('k, 'v) FlatTable \<Rightarrow> ('k \<times> 'v) list" where
  \<comment> \<open>from \<open>begin()\<close> to \<open>end()\<close>\<close>
  "ft_items t = elements (butlast (ft_entries t))"

section \<open>Growing\<close>

definition bucket_count :: "('k, 'v) FlatTable \<Rightarrow> nat" where
  "bucket_count t = (if ft_num_slots_minus_one t = 0 then 0 else ft_num_slots_minus_one t + 1)"

definition compute_max_lookups :: "nat \<Rightarrow> nat" where
  "compute_max_lookups num_buckets = max min_lookups (table_log2 (of_nat num_buckets))"

definition next_size_over :: "nat \<Rightarrow> nat \<times> nat" where
  \<comment> \<open>\<open>fibonacci_hash_policy::next_size_over\<close>: the size, and the shift to commit\<close>
  "next_size_over sz =
     (let s = max 2 (unat (next_power_of_two (of_nat sz))) in (s, 64 - table_log2 (of_nat s)))"

definition fresh_table :: "nat \<Rightarrow> nat \<Rightarrow> ('k, 'v) FlatTable" where
  \<comment> \<open>the new array of \<open>rehash\<close>\<close>
  "fresh_table num_buckets shift =
     (let m = compute_max_lookups num_buckets
      in \<lparr>ft_entries = replicate (num_buckets + m - 1) empty_entry @ [special_end],
          ft_num_slots_minus_one = num_buckets - 1, ft_shift = shift, ft_max_lookups = m,
          ft_num_elements = 0\<rparr>)"

fun emplace_all :: "('k \<Rightarrow> 'v \<Rightarrow> 't \<Rightarrow> 't option) \<Rightarrow> ('k \<times> 'v) list \<Rightarrow> 't \<Rightarrow> 't option" where
  \<comment> \<open>\<open>insert(begin, end)\<close>, also the last loop of \<open>rehash\<close>\<close>
  "emplace_all emp [] t = Some t"
| "emplace_all emp (kv # kvs) t =
     (case emp (fst kv) (snd kv) t of None \<Rightarrow> None | Some t' \<Rightarrow> emplace_all emp kvs t')"

definition rehash ::
  "('k \<Rightarrow> 'v \<Rightarrow> ('k, 'v) FlatTable \<Rightarrow> ('k, 'v) FlatTable option) \<Rightarrow> nat \<Rightarrow>
     ('k, 'v) FlatTable \<Rightarrow> ('k, 'v) FlatTable option" where
  "rehash emp sz t =
     (let wanted = max sz (2 * ft_num_elements t)
      in if wanted = 0 then Some ft_empty
         else let (num_buckets, shift) = next_size_over wanted
              in if num_buckets = bucket_count t then Some t
                 else emplace_all emp (ft_items t) (fresh_table num_buckets shift))"

definition grow ::
  "('k \<Rightarrow> 'v \<Rightarrow> ('k, 'v) FlatTable \<Rightarrow> ('k, 'v) FlatTable option) \<Rightarrow>
     ('k, 'v) FlatTable \<Rightarrow> ('k, 'v) FlatTable option" where
  "grow emp t = rehash emp (max 4 ((2 * bucket_count t) mod 2 ^ 64)) t"

section \<open>Insertion\<close>

datatype ('k, 'v) shifted =
    Placed "('k, 'v) entry list"
  | Overflow "('k \<times> 'v)" "('k, 'v) entry list"
  \<comment> \<open>the element that found no place, and the entries as they are then\<close>

fun shifted_cons :: "('k, 'v) entry \<Rightarrow> ('k, 'v) shifted \<Rightarrow> ('k, 'v) shifted" where
  "shifted_cons e (Placed es) = Placed (e # es)"
| "shifted_cons e (Overflow kv es) = Overflow kv (e # es)"

fun shift_insert :: "nat \<Rightarrow> int \<Rightarrow> ('k \<times> 'v) \<Rightarrow> ('k, 'v) entry list \<Rightarrow> ('k, 'v) shifted" where
  \<comment> \<open>\<open>emplace_new_key\<close> from the entry the probe stopped at: an empty entry is taken, an entry that is closer to
      its desired position gives way and moves on, any other is passed\<close>
  "shift_insert max_lookups distance kv [] = Overflow kv []"
| "shift_insert max_lookups distance kv (e # es) =
     (if distance_from_desired e < 0 then Placed (Entry distance (Some kv) # es)
      else if distance_from_desired e < distance
      then (case entry_value e of
              Some kv' \<Rightarrow> shifted_cons (Entry distance (Some kv))
                         (shift_insert max_lookups (distance_from_desired e + 1) kv' es)
            | None \<Rightarrow> Overflow kv (e # es))
      else if distance + 1 = int max_lookups then Overflow kv (e # es)
      else shifted_cons e (shift_insert max_lookups (distance + 1) kv es))"

definition put_back :: "('k \<times> 'v) \<Rightarrow> ('k, 'v) entry list \<Rightarrow> ('k, 'v) entry list" where
  \<comment> \<open>\<open>swap(to_insert, result.current->value)\<close>: the new element is taken out again and the one that found no place
      stands in its entry, until the table has grown\<close>
  "put_back kv es = (case es of [] \<Rightarrow> [] | e # es' \<Rightarrow> Entry (distance_from_desired e) (Some kv) # es')"

definition emplace_new_key ::
  "('k \<Rightarrow> 'v \<Rightarrow> ('k, 'v) FlatTable \<Rightarrow> ('k, 'v) FlatTable option) \<Rightarrow> int \<Rightarrow> ('k, 'v) entry list \<Rightarrow>
     ('k, 'v) entry list \<Rightarrow> 'k \<Rightarrow> 'v \<Rightarrow> ('k, 'v) FlatTable \<Rightarrow> ('k, 'v) FlatTable option" where
  \<comment> \<open>\<open>before\<close> are the entries in front of \<open>current\<close>\<close>
  "emplace_new_key emp distance before current k v t =
     (if ft_num_slots_minus_one t = 0 \<or> distance = int (ft_max_lookups t) \<or>
         2 * (ft_num_elements t + 1) > ft_num_slots_minus_one t + 1
      then Option.bind (grow emp t) (emp k v)
      else case shift_insert (ft_max_lookups t) distance (k, v) current of
             Placed es \<Rightarrow>
               Some (t\<lparr>ft_entries := before @ es, ft_num_elements := ft_num_elements t + 1\<rparr>)
           | Overflow kv es \<Rightarrow>
               Option.bind (grow emp (t\<lparr>ft_entries := before @ put_back kv es\<rparr>)) (emp k v))"

primrec ft_emplace ::
  "nat \<Rightarrow> ('k \<Rightarrow> 64 word) \<Rightarrow> 'k \<Rightarrow> 'v \<Rightarrow> ('k, 'v) FlatTable \<Rightarrow> ('k, 'v) FlatTable option" where
  "ft_emplace 0 hash = (\<lambda>k v t. None)"
| "ft_emplace (Suc n) hash = (\<lambda>k v t.
     let i = ft_index hash k t in
     case probe_from k 0 (drop i (ft_entries t)) of
       Found _ \<Rightarrow> Some t
     | Stop current distance \<Rightarrow>
         emplace_new_key (ft_emplace n hash) distance
           (take (length (ft_entries t) - length current) (ft_entries t)) current k v t)"

section \<open>Assignment, erasure\<close>

fun assign_from :: "'k \<Rightarrow> 'v \<Rightarrow> ('k, 'v) entry list \<Rightarrow> ('k, 'v) entry list" where
  \<comment> \<open>writing through the reference to the value of a key\<close>
  "assign_from k v [] = []"
| "assign_from k v (e # es) =
     (case entry_value e of
        Some kv \<Rightarrow> if fst kv = k then Entry (distance_from_desired e) (Some (k, v)) # es
                  else e # assign_from k v es
      | None \<Rightarrow> e # assign_from k v es)"

definition ft_assign :: "nat \<Rightarrow> ('k \<Rightarrow> 64 word) \<Rightarrow> 'v \<Rightarrow> 'k \<Rightarrow> 'v \<Rightarrow> ('k, 'v) FlatTable \<Rightarrow> ('k, 'v) FlatTable option" where
  \<comment> \<open>\<open>t[k] = v\<close>: \<open>operator[]\<close> inserts the default value \<open>d\<close> where there is none\<close>
  "ft_assign n hash d k v t =
     map_option (\<lambda>t'. t'\<lparr>ft_entries := assign_from k v (ft_entries t')\<rparr>) (ft_emplace n hash k d t)"

fun close_gap :: "('k, 'v) entry list \<Rightarrow> ('k, 'v) entry list" where
  \<comment> \<open>the loop of \<open>erase\<close> over the entries behind a destroyed one\<close>
  "close_gap [] = [empty_entry]"
| "close_gap (next # es) =
     (if is_at_desired_position next then empty_entry # next # es
      else Entry (distance_from_desired next - 1) (entry_value next) # close_gap es)"

fun erase_from :: "'k \<Rightarrow> int \<Rightarrow> ('k, 'v) entry list \<Rightarrow> ('k, 'v) entry list option" where
  \<comment> \<open>\<open>find\<close>, then \<open>erase\<close> of what it found\<close>
  "erase_from k distance [] = None"
| "erase_from k distance (e # es) =
     (if distance_from_desired e \<ge> distance
      then if map_option fst (entry_value e) = Some k then Some (close_gap es)
           else map_option (Cons e) (erase_from k (distance + 1) es)
      else None)"

definition ft_erase :: "('k \<Rightarrow> 64 word) \<Rightarrow> 'k \<Rightarrow> ('k, 'v) FlatTable \<Rightarrow> ('k, 'v) FlatTable" where
  "ft_erase hash k t =
     (let i = ft_index hash k t in
      case erase_from k 0 (drop i (ft_entries t)) of
        None \<Rightarrow> t
      | Some es \<Rightarrow> t\<lparr>ft_entries := take i (ft_entries t) @ es, ft_num_elements := ft_num_elements t - 1\<rparr>)"

definition ft_clear :: "('k, 'v) FlatTable \<Rightarrow> ('k, 'v) FlatTable" where
  "ft_clear t = t\<lparr>ft_entries := map (\<lambda>e. if has_value e then empty_entry else e) (butlast (ft_entries t)) @
                   [last (ft_entries t)], ft_num_elements := 0\<rparr>"

definition ft_contains :: "('k \<Rightarrow> 64 word) \<Rightarrow> ('k, 'v) FlatTable \<Rightarrow> 'k \<Rightarrow> bool" where
  "ft_contains hash t k = (ft_find hash t k \<noteq> None)"

section \<open>Reserving and copying\<close>

definition num_buckets_for_reserve :: "nat \<Rightarrow> nat" where
  "num_buckets_for_reserve n = 2 * n"

definition rehash_for_other_container ::
  "('k \<Rightarrow> 'v \<Rightarrow> ('k, 'v) FlatTable \<Rightarrow> ('k, 'v) FlatTable option) \<Rightarrow> ('k, 'v) FlatTable \<Rightarrow>
     ('k, 'v) FlatTable \<Rightarrow> ('k, 'v) FlatTable option" where
  "rehash_for_other_container emp other =
     rehash emp (min (num_buckets_for_reserve (ft_num_elements other)) (bucket_count other))"

definition ft_reserve :: "nat \<Rightarrow> ('k \<Rightarrow> 64 word) \<Rightarrow> nat \<Rightarrow> ('k, 'v) FlatTable \<Rightarrow> ('k, 'v) FlatTable option" where
  "ft_reserve n hash num_elements t =
     (if num_buckets_for_reserve num_elements > bucket_count t
      then rehash (ft_emplace n hash) (num_buckets_for_reserve num_elements) t else Some t)"

definition ft_copy :: "nat \<Rightarrow> ('k \<Rightarrow> 64 word) \<Rightarrow> ('k, 'v) FlatTable \<Rightarrow> ('k, 'v) FlatTable option" where
  \<comment> \<open>the copy constructor\<close>
  "ft_copy n hash other =
     Option.bind (rehash_for_other_container (ft_emplace n hash) other ft_empty)
       (emplace_all (ft_emplace n hash) (ft_items other))"

definition ft_copy_assign ::
  "nat \<Rightarrow> ('k \<Rightarrow> 64 word) \<Rightarrow> ('k, 'v) FlatTable \<Rightarrow> ('k, 'v) FlatTable \<Rightarrow> ('k, 'v) FlatTable option" where
  \<comment> \<open>\<open>t = other\<close> of two different tables\<close>
  "ft_copy_assign n hash other t =
     Option.bind (rehash_for_other_container (ft_emplace n hash) other (ft_clear t))
       (emplace_all (ft_emplace n hash) (ft_items other))"

section \<open>The operations of \<open>flat_hash_map\<close>\<close>

datatype out_of_range = OutOfRange

definition ft_at :: "('k \<Rightarrow> 64 word) \<Rightarrow> ('k, 'v) FlatTable \<Rightarrow> 'k \<Rightarrow> out_of_range + 'v" where
  "ft_at hash t k = (case ft_find hash t k of None \<Rightarrow> Inl OutOfRange | Some v \<Rightarrow> Inr v)"

definition ft_try_emplace ::
  "nat \<Rightarrow> ('k \<Rightarrow> 64 word) \<Rightarrow> 'k \<Rightarrow> 'v \<Rightarrow> ('k, 'v) FlatTable \<Rightarrow> ('k, 'v) FlatTable option" where
  "ft_try_emplace n hash k v t = (if ft_find hash t k \<noteq> None then Some t else ft_emplace n hash k v t)"

definition ft_insert_or_assign ::
  "nat \<Rightarrow> ('k \<Rightarrow> 64 word) \<Rightarrow> 'k \<Rightarrow> 'v \<Rightarrow> ('k, 'v) FlatTable \<Rightarrow> ('k, 'v) FlatTable option" where
  "ft_insert_or_assign n hash k v t =
     map_option
       (\<lambda>t'. if ft_find hash t k \<noteq> None then t'\<lparr>ft_entries := assign_from k v (ft_entries t')\<rparr> else t')
       (ft_emplace n hash k v t)"

definition ft_equal :: "('k \<Rightarrow> 64 word) \<Rightarrow> ('k, 'v) FlatTable \<Rightarrow> ('k, 'v) FlatTable \<Rightarrow> bool" where
  "ft_equal hash lhs rhs \<longleftrightarrow> ft_num_elements lhs = ft_num_elements rhs \<and>
     list_all (\<lambda>kv. ft_find hash rhs (fst kv) = Some (snd kv)) (ft_items lhs)"

end
