(* ===== verification/FlatBits.thy ===== *)
theory FlatBits
  imports FlatTable
begin

text \<open>
  The bit tricks of the hash table: smearing the highest bit downwards, the logarithm by a de Bruijn
  multiplication, and the next power of two; the range of the Fibonacci index.
\<close>

lemma or_shift_bit:
  fixes y :: "64 word"
  assumes "\<And>n. bit y n \<longleftrightarrow> (\<exists>j<m. bit x (n + j))"
  shows "bit (y OR drop_bit m y) n \<longleftrightarrow> (\<exists>j<m + m. bit x (n + j))"
proof -
  have "(\<exists>j<m. bit x (n + m + j)) \<longleftrightarrow> (\<exists>j<m + m. m \<le> j \<and> bit x (n + j))"
    by (metis add.assoc add_less_cancel_left le_add1 le_iff_add)
  moreover have "bit (y OR drop_bit m y) n \<longleftrightarrow> (\<exists>j<m. bit x (n + j)) \<or> (\<exists>j<m. bit x (n + m + j))"
    by (simp add: bit_or_iff bit_drop_bit_eq assms add.commute)
  ultimately show ?thesis by (metis not_less trans_less_add1)
qed

lemma smear_bit: "bit (smear x) n \<longleftrightarrow> (\<exists>j<64. bit x (n + j))"
proof -
  define v1 where "v1 = x OR drop_bit 1 x"
  define v2 where "v2 = v1 OR drop_bit 2 v1"
  define v3 where "v3 = v2 OR drop_bit 4 v2"
  define v4 where "v4 = v3 OR drop_bit 8 v3"
  define v5 where "v5 = v4 OR drop_bit 16 v4"
  have "bit x n \<longleftrightarrow> (\<exists>j<1. bit x (n + j))" for n by simp
  from or_shift_bit [OF this] have 1: "bit v1 n \<longleftrightarrow> (\<exists>j<2. bit x (n + j))" for n
    by (simp add: v1_def numeral_2_eq_2)
  from or_shift_bit [OF 1] have 2: "bit v2 n \<longleftrightarrow> (\<exists>j<4. bit x (n + j))" for n by (simp add: v2_def)
  from or_shift_bit [OF 2] have 3: "bit v3 n \<longleftrightarrow> (\<exists>j<8. bit x (n + j))" for n by (simp add: v3_def)
  from or_shift_bit [OF 3] have 4: "bit v4 n \<longleftrightarrow> (\<exists>j<16. bit x (n + j))" for n by (simp add: v4_def)
  from or_shift_bit [OF 4] have 5: "bit v5 n \<longleftrightarrow> (\<exists>j<32. bit x (n + j))" for n by (simp add: v5_def)
  from or_shift_bit [OF 5] show ?thesis
    by (simp add: smear_def Let_def v1_def v2_def v3_def v4_def v5_def)
qed

text \<open>Below the highest bit, all bits are set.\<close>

lemma smear_mask:
  assumes "2 ^ b \<le> unat x" "unat x < 2 ^ Suc b"
  shows "smear x = mask (Suc b)"
proof (rule bit_word_eqI)
  fix n assume n: "n < LENGTH(64)"
  have at: "bit x n \<longleftrightarrow> odd (unat x div 2 ^ n)" for n using bit_iff_odd [of "unat x" n] by (simp add: bit_unsigned_iff)
  have "bit x b"
  proof -
    have "unat x div 2 ^ b = 1" using assms by (simp add: div_nat_eqI)
    then show ?thesis by (simp add: at)
  qed
  have high: "k \<le> b" if "bit x k" for k
  proof (rule ccontr)
    assume "\<not> k \<le> b"
    then have "(2 :: nat) ^ Suc b \<le> 2 ^ k" by (simp del: power_Suc)
    then have "unat x div 2 ^ k = 0" using assms(2) by simp
    then show False using that by (simp add: at)
  qed
  have "b < 64" using \<open>bit x b\<close> bit_imp_le_length [of x b] by simp
  have "(\<exists>j<64. bit x (n + j)) \<longleftrightarrow> n < Suc b"
  proof
    assume "\<exists>j<64. bit x (n + j)"
    then obtain j where "bit x (n + j)" by blast
    from high [OF this] show "n < Suc b" by simp
  next
    assume "n < Suc b"
    then show "\<exists>j<64. bit x (n + j)"
      using \<open>bit x b\<close> \<open>b < 64\<close> by (intro exI [of _ "b - n"]) simp
  qed
  then show "bit (smear x) n \<longleftrightarrow> bit (mask (Suc b) :: 64 word) n"
    using n by (simp add: smear_bit bit_mask_iff)
qed

lemma log2_table_all:
  "list_all (\<lambda>b. log2_table ! nat ((2 ^ b * 0x07EDD5E59A4E28C2 mod 2 ^ 64 :: int) div 2 ^ 58) = b) [0..<64]"
  by code_simp


lemma unat_pow2:
  assumes "b < 64"
  shows "unat (2 ^ b :: 64 word) = 2 ^ b"
proof -
  have "(2 :: nat) ^ b < 2 ^ 64" using assms by (rule power_strict_increasing) simp
  then have "unat (of_nat (2 ^ b) :: 64 word) = 2 ^ b" unfolding unat_of_nat by simp
  then show ?thesis by simp
qed

lemma unat_drop_bit_58: "unat (drop_bit 58 w) = nat (uint (w :: 64 word) div 2 ^ 58)"
proof -
  have "nat (uint w div 2 ^ 58) = unat w div 2 ^ 58" by (simp add: nat_div_distrib)
  then show ?thesis by (simp only: unat_drop_bit_eq drop_bit_eq_div [of 58 "unat w"])
qed

text \<open>\<open>log2\<close> is the position of the highest bit.\<close>

lemma table_log2_floor:
  assumes "2 ^ b \<le> unat x" "unat x < 2 ^ Suc b"
  shows "table_log2 x = b"
proof -
  have "(2 :: nat) ^ b < 2 ^ 64" using assms(1) unsigned_less [of x] by (auto intro: le_less_trans)
  then have b: "b < 64" by (simp only: power_strict_increasing_iff)
  have u: "uint (2 ^ b :: 64 word) = 2 ^ b" using unat_pow2 [OF b] by (simp only: uint_nat of_nat_power of_nat_numeral)
  have "drop_bit 1 (mask (Suc b)) = (mask b :: 64 word)"
    by (rule bit_word_eqI) (use b in \<open>auto simp: bit_drop_bit_eq bit_mask_iff\<close>)
  then have "(mask (Suc b) :: 64 word) = 2 ^ b + drop_bit 1 (mask (Suc b))"
    by (simp add: mask_eq_exp_minus_1)
  then have "mask (Suc b) - drop_bit 1 (mask (Suc b)) = (2 ^ b :: 64 word)"
    by (simp only: diff_eq_eq)
  then have "table_log2 x = log2_table ! unat (drop_bit 58 (2 ^ b * 0x07EDD5E59A4E28C2 :: 64 word))"
    by (simp only: table_log2_def smear_mask [OF assms] Let_def)
  also have "\<dots> = log2_table ! nat ((2 ^ b * 0x07EDD5E59A4E28C2 mod 2 ^ 64 :: int) div 2 ^ 58)"
    by (simp add: unat_drop_bit_58 uint_word_ariths u)
  also have "\<dots> = b" using log2_table_all b by (simp add: list_all_iff)
  finally show ?thesis .
qed

text \<open>\<open>next_power_of_two\<close> is the least power of two that is not below its argument.\<close>

lemma next_power_of_two_least:
  assumes "2 ^ b < n" "n \<le> 2 ^ Suc b" "b < 63"
  shows "unat (next_power_of_two (of_nat n)) = 2 ^ Suc b"
proof -
  have "(2 :: nat) ^ Suc b \<le> 2 ^ 63" by (rule power_increasing) (use assms(3) in simp_all)
  then have "unat (of_nat (n - 1) :: 64 word) = n - 1"
    using assms(2) by (simp add: unat_of_nat)
  moreover have "(of_nat n - 1 :: 64 word) = of_nat (n - 1)" using assms(1) by (simp add: of_nat_diff)
  ultimately have "unat (of_nat n - 1 :: 64 word) = n - 1" by (simp only:)
  then have "smear (of_nat n - 1) = mask (Suc b)" using assms(1,2) by (intro smear_mask) linarith+
  then have "next_power_of_two (of_nat n) = 2 ^ Suc b"
    by (simp add: next_power_of_two_def mask_eq_exp_minus_1)
  then show ?thesis using unat_pow2 [of "Suc b"] assms(3) by (simp del: power_Suc)
qed

text \<open>The Fibonacci index is below the number of buckets, and a table of twice the size refines it.\<close>

lemma index_for_hash_less:
  assumes "b \<le> 64"
  shows "index_for_hash (64 - b) h < 2 ^ b"
proof -
  let ?w = "11400714819323198485 * h"
  have "unat ?w < 2 ^ b * 2 ^ (64 - b)" using unsigned_less [of ?w] assms by (simp flip: power_add)
  then have "unat ?w div 2 ^ (64 - b) < 2 ^ b" by (simp add: less_mult_imp_div_less)
  then show ?thesis by (simp only: index_for_hash_def unat_drop_bit_eq drop_bit_eq_div [of _ "unat ?w"])
qed

lemma index_for_hash_Suc:
  assumes "b < 64"
  shows "index_for_hash (64 - Suc b) h div 2 = index_for_hash (64 - b) h"
proof -
  have "64 - b = Suc (64 - Suc b)" using assms by simp
  then show ?thesis
    by (simp only: index_for_hash_def unat_drop_bit_eq drop_bit_eq_div [of _ "unat (11400714819323198485 * h)"]
        div_mult2_eq [symmetric] power_Suc2)
qed

text \<open>The sizes and shifts the default policy chooses.\<close>

lemma power_bracket:
  fixes w :: nat
  assumes "2 \<le> w" "w \<le> 2 ^ Suc m"
  shows "\<exists>c\<le>m. 2 ^ c < w \<and> w \<le> 2 ^ Suc c"
  using assms
proof (induction m)
  case (Suc m)
  show ?case
  proof (cases "w \<le> 2 ^ Suc m")
    case True
    then show ?thesis using Suc le_SucI by blast
  next
    case False
    then show ?thesis using Suc.prems(2) not_le_imp_less by blast
  qed
qed simp

lemma next_size_over_pow:
  assumes "2 ^ b < n" "n \<le> 2 ^ Suc b" "b < 63"
  shows "next_size_over n = (2 ^ Suc b, 64 - Suc b)"
proof -
  have u: "unat (of_nat (2 ^ Suc b) :: 64 word) = 2 ^ Suc b" using unat_pow2 [of "Suc b"] assms(3) by simp
  then have "table_log2 (of_nat (2 ^ Suc b)) = Suc b" by (intro table_log2_floor) simp_all
  moreover have "max 2 ((2 :: nat) ^ Suc b) = 2 ^ Suc b" by simp
  ultimately show ?thesis
    using next_power_of_two_least [OF assms] by (simp only: next_size_over_def Let_def)
qed

lemma next_size_over_level:
  assumes "1 \<le> n" "n \<le> 2 ^ 63"
  obtains b where "1 \<le> b" "b \<le> 63" "next_size_over n = (2 ^ b, 64 - b)" "n \<le> 2 ^ b" "2 ^ b < max 3 (2 * n)"
proof (cases "n = 1")
  case True
  have "unat (2 :: 64 word) = 2" by simp
  then have "table_log2 2 = 1" by (intro table_log2_floor) (simp_all only: power_one_right, simp)
  then show thesis using that [of 1] True by (simp add: next_size_over_def next_power_of_two_def smear_def)
next
  case False
  then have "2 \<le> n" "n \<le> 2 ^ Suc 62" using assms by simp_all
  from power_bracket [OF this] obtain c where "c \<le> 62" "2 ^ c < n" "n \<le> 2 ^ Suc c" by blast
  then show thesis using that [of "Suc c"] next_size_over_pow [of c n] by (simp add: less_max_iff_disj)
qed

lemma compute_max_lookups_pow:
  assumes "b < 64"
  shows "compute_max_lookups (2 ^ b) = max 4 b"
proof -
  have "unat (of_nat (2 ^ b) :: 64 word) = 2 ^ b" using unat_pow2 [OF assms] by simp
  then have "table_log2 (of_nat (2 ^ b)) = b" by (intro table_log2_floor) simp_all
  then show ?thesis by (simp add: compute_max_lookups_def min_lookups_def)
qed

end
