(* ===== verification/FlatTableInv.thy ===== *)
theory FlatTableInv
  imports FlatTable
begin

text \<open>
  The Robin Hood invariant of an array of entries, and what the loops of the table do under it. \<open>home\<close> is
  the slot a key asks for and \<open>m\<close> the bound on the distance. The array is a body followed by the special
  end; no entry is more than one step poorer than the entry in front of it (\<open>links\<close>).
\<close>

section \<open>The invariant of a stretch of entries\<close>

definition sound :: "('k \<Rightarrow> nat) \<Rightarrow> nat \<Rightarrow> nat \<Rightarrow> ('k, 'v) entry \<Rightarrow> bool" where
  \<comment> \<open>the entry at position \<open>i\<close> is empty, or at the distance from its home that it says, below \<open>m\<close>\<close>
  "sound home m i e \<longleftrightarrow> e = empty_entry \<or>
     (\<exists>d k v. e = Entry d (Some (k, v)) \<and> 0 \<le> d \<and> d < int m \<and> int i = int (home k) + d)"

fun links :: "('k \<Rightarrow> nat) \<Rightarrow> nat \<Rightarrow> nat \<Rightarrow> int \<Rightarrow> ('k, 'v) entry list \<Rightarrow> bool" where
  \<comment> \<open>from position \<open>i\<close> on, behind an entry of distance \<open>p\<close>\<close>
  "links home m i p [] = True"
| "links home m i p (e # es) =
     (sound home m i e \<and> distance_from_desired e \<le> p + 1 \<and> links home m (Suc i) (distance_from_desired e) es)"

definition prev_distance :: "int \<Rightarrow> ('k, 'v) entry list \<Rightarrow> int" where
  "prev_distance p es = (if es = [] then p else distance_from_desired (last es))"

lemma prev_distance_simps [simp]:
  "prev_distance p [] = p"
  "prev_distance p (e # es) = prev_distance (distance_from_desired e) es"
  by (simp_all add: prev_distance_def)

lemma links_append:
  "links home m i p (xs @ ys) \<longleftrightarrow> links home m i p xs \<and> links home m (i + length xs) (prev_distance p xs) ys"
  by (induction xs arbitrary: i p) auto

lemma elements_simps [simp]:
  "elements [] = []"
  "elements (e # es) = (case entry_value e of None \<Rightarrow> elements es | Some kv \<Rightarrow> kv # elements es)"
  "elements (es @ es') = elements es @ elements es'"
  by (simp_all add: elements_def map_filter_simps List.map_filter_def split: option.split)

lemma entry_simps [simp]:
  "distance_from_desired empty_entry = - 1" "entry_value empty_entry = None"
  "distance_from_desired special_end = 0" "entry_value special_end = None"
  by (simp_all add: empty_entry_def special_end_def)

lemma sound_empty [simp]: "sound home m i empty_entry"
  by (simp add: sound_def)

lemma links_mono: "links home m i p es \<Longrightarrow> p \<le> q \<Longrightarrow> links home m i q es"
  by (cases es) auto

lemma sound_cases:
  assumes "sound home m i e"
  obtains "e = empty_entry" | d k v where "e = Entry d (Some (k, v))" "0 \<le> d" "d < int m" "int i = int (home k) + d"
  using assms by (auto simp: sound_def)

lemma sound_distance: "sound home m i e \<Longrightarrow> - 1 \<le> distance_from_desired e \<and> distance_from_desired e < int m"
  by (auto simp: sound_def)

section \<open>Probing\<close>

lemma links_absent:
  assumes "links home m i p es" "int i = int (home k) + d" "p + 1 < d"
  shows "k \<notin> fst ` set (elements es)"
  using assms
proof (induction es arbitrary: i p d)
  case (Cons e es)
  have "k \<notin> fst ` set (elements es)"
    by (rule Cons.IH [of "Suc i" "distance_from_desired e" "d + 1"]) (use Cons.prems in auto)
  then show ?case using Cons.prems by (auto simp: sound_def split: option.splits)
qed simp

lemma probe_from_links:
  assumes "links home m i p es" "int i = int (home k) + d" "0 \<le> d" "d \<le> p + 1" "d \<le> int m"
    and "home k + m \<le> i + length es" "0 < m"
  shows "case probe_from k d (es @ [special_end]) of
      Found kv \<Rightarrow> kv \<in> set (elements es) \<and> fst kv = k
    | Stop suf d' \<Rightarrow> k \<notin> fst ` set (elements es) \<and>
        (\<exists>pre rest. es = pre @ rest \<and> suf = rest @ [special_end] \<and> d' = d + int (length pre) \<and>
           d' \<le> prev_distance p pre + 1 \<and> d' \<le> int m \<and>
           (\<forall>e rest'. rest = e # rest' \<longrightarrow> distance_from_desired e < d'))"
  using assms
proof (induction es arbitrary: i p d)
  case Nil
  then have "0 < d" by simp
  then show ?case using Nil by simp
next
  case (Cons e es)
  show ?case
  proof (cases "d \<le> distance_from_desired e")
    case False
    have "k \<notin> fst ` set (elements es)"
      by (rule links_absent [of home m "Suc i" "distance_from_desired e" es k "d + 1"]) (use Cons.prems False in auto)
    moreover have "k \<notin> fst ` set (elements [e])"
      using Cons.prems(1,2) False by (auto simp: sound_def)
    ultimately show ?thesis
      using False Cons.prems(4,5) by (auto split: option.splits intro!: exI [of _ "[]"])
  next
    case True
    then obtain k' v' where e: "e = Entry (distance_from_desired e) (Some (k', v'))" "distance_from_desired e < int m"
      using Cons.prems(1,3) by (auto simp: sound_def)
    have val: "entry_value e = Some (k', v')" by (subst e) simp
    show ?thesis
    proof (cases "k' = k")
      case True
      then show ?thesis using \<open>d \<le> distance_from_desired e\<close> by (simp add: val)
    next
      case False
      have "case probe_from k (d + 1) (es @ [special_end]) of
          Found kv \<Rightarrow> kv \<in> set (elements es) \<and> fst kv = k
        | Stop suf d' \<Rightarrow> k \<notin> fst ` set (elements es) \<and>
            (\<exists>pre rest. es = pre @ rest \<and> suf = rest @ [special_end] \<and> d' = d + 1 + int (length pre) \<and>
               d' \<le> prev_distance (distance_from_desired e) pre + 1 \<and> d' \<le> int m \<and>
               (\<forall>e rest'. rest = e # rest' \<longrightarrow> distance_from_desired e < d'))"
        by (rule Cons.IH [of "Suc i"]) (use Cons.prems True e(2) in auto)
      then show ?thesis
        using True False
        by (auto simp: val split: probe.splits)
    qed
  qed
qed

section \<open>Insertion\<close>

lemma shift_insert_links:
  assumes "links home m i p es" "int i = int (home (fst kv)) + d" "0 \<le> d" "d < int m" "d \<le> p + 1"
    and "\<And>k. home k + m \<le> i + length es"
  shows "case shift_insert m d kv (es @ [special_end]) of
      Placed es' \<Rightarrow> \<exists>body. es' = body @ [special_end] \<and> length body = length es \<and> links home m i p body \<and>
        mset (elements body) = add_mset kv (mset (elements es))
    | Overflow kv' es' \<Rightarrow> \<exists>body. es' = body @ [special_end] \<and> length body = length es \<and>
        add_mset kv' (mset (elements body)) = add_mset kv (mset (elements es))"
  using assms
proof (induction es arbitrary: i p d kv)
  case Nil
  then show ?case using Nil.prems(6) [of "fst kv"] by simp
next
  case (Cons e es)
  obtain k v where kv: "kv = (k, v)" by (cases kv)
  from Cons.prems(1) have "sound home m i e" by simp
  then show ?case
  proof (cases rule: sound_cases)
    case 1
    then have "links home m (Suc i) d es" using Cons.prems(1,3) by (auto intro: links_mono)
    then show ?thesis using Cons.prems 1
      by (auto simp: sound_def kv intro!: exI [of _ "Entry d (Some (k, v)) # es"])
  next
    case (2 d' k' v')
    show ?thesis
    proof (cases "d' < d")
      case True
      have "case shift_insert m (d' + 1) (k', v') (es @ [special_end]) of
          Placed es' \<Rightarrow> \<exists>body. es' = body @ [special_end] \<and> length body = length es \<and> links home m (Suc i) d body \<and>
            mset (elements body) = add_mset (k', v') (mset (elements es))
        | Overflow kv' es' \<Rightarrow> \<exists>body. es' = body @ [special_end] \<and> length body = length es \<and>
            add_mset kv' (mset (elements body)) = add_mset (k', v') (mset (elements es))"
      proof (rule Cons.IH)
        have "links home m (Suc i) d' es" using Cons.prems(1) 2 by simp
        then show "links home m (Suc i) d es" using True by (cases es) auto
      qed (use 2 True Cons.prems(4,6) in auto)
      then show ?thesis
        using True 2 Cons.prems(2-5)
        by (auto simp: kv sound_def split: shifted.splits)
    next
      case False
      show ?thesis
      proof (cases "d + 1 = int m")
        case True
        then show ?thesis using False 2 by auto
      next
        case neq: False
        have "case shift_insert m (d + 1) kv (es @ [special_end]) of
            Placed es' \<Rightarrow> \<exists>body. es' = body @ [special_end] \<and> length body = length es \<and> links home m (Suc i) d' body \<and>
              mset (elements body) = add_mset kv (mset (elements es))
          | Overflow kv' es' \<Rightarrow> \<exists>body. es' = body @ [special_end] \<and> length body = length es \<and>
              add_mset kv' (mset (elements body)) = add_mset kv (mset (elements es))"
          by (rule Cons.IH) (use 2 False neq Cons.prems in auto)
        then show ?thesis
          using False neq 2 Cons.prems(1,3)
          by (auto split: shifted.splits)
      qed
    qed
  qed
qed

section \<open>Erasure\<close>

lemma close_gap_links:
  assumes "links home m (Suc i) q es" "q \<le> p + 1" "- 1 \<le> p"
  shows "\<exists>body. close_gap (es @ [special_end]) = body @ [special_end] \<and> links home m i p body \<and>
    elements body = elements es \<and> length body = Suc (length es)"
  using assms
proof (induction es arbitrary: i p q)
  case Nil
  then show ?case by (intro exI [of _ "[empty_entry]"]) (simp add: is_at_desired_position_def)
next
  case (Cons e es)
  show ?case
  proof (cases "distance_from_desired e \<le> 0")
    case True
    then show ?thesis using Cons.prems
      by (intro exI [of _ "empty_entry # e # es"]) (simp add: is_at_desired_position_def)
  next
    case False
    then obtain d k v where e: "e = Entry d (Some (k, v))" "0 < d" "d < int m" "int (Suc i) = int (home k) + d"
      using Cons.prems(1) by (auto simp: sound_def)
    have "\<exists>body. close_gap (es @ [special_end]) = body @ [special_end] \<and> links home m (Suc i) (d - 1) body \<and>
        elements body = elements es \<and> length body = Suc (length es)"
      by (rule Cons.IH [of "Suc i" d]) (use Cons.prems e in auto)
    then obtain body where "close_gap (es @ [special_end]) = body @ [special_end]" "links home m (Suc i) (d - 1) body"
      "elements body = elements es" "length body = Suc (length es)" by blast
    moreover have "sound home m i (Entry (d - 1) (Some (k, v)))" using e by (auto simp: sound_def)
    ultimately show ?thesis using e Cons.prems
      by (intro exI [of _ "Entry (d - 1) (Some (k, v)) # body"]) (simp add: is_at_desired_position_def)
  qed
qed

lemma erase_from_links:
  assumes "links home m i p es" "int i = int (home k) + d" "0 \<le> d" "- 1 \<le> p"
    and "home k + m \<le> i + length es" "0 < m" "distinct (map fst (elements es))"
  shows "case erase_from k d (es @ [special_end]) of
      None \<Rightarrow> k \<notin> fst ` set (elements es)
    | Some es' \<Rightarrow> k \<in> fst ` set (elements es) \<and>
        (\<exists>body. es' = body @ [special_end] \<and> links home m i p body \<and> length body = length es \<and>
           elements body = filter (\<lambda>kv. fst kv \<noteq> k) (elements es))"
  using assms
proof (induction es arbitrary: i p d)
  case Nil
  then show ?case by simp
next
  case (Cons e es)
  show ?case
  proof (cases "d \<le> distance_from_desired e")
    case False
    have "k \<notin> fst ` set (elements es)"
      by (rule links_absent [of home m "Suc i" "distance_from_desired e" es k "d + 1"]) (use Cons.prems False in auto)
    moreover have "k \<notin> fst ` set (elements [e])"
      using Cons.prems(1,2) False by (auto simp: sound_def)
    ultimately show ?thesis using False by (auto split: option.splits)
  next
    case True
    then obtain k' v' where val: "entry_value e = Some (k', v')" and range: "0 \<le> distance_from_desired e"
      using Cons.prems(1,3) by (auto simp: sound_def)
    show ?thesis
    proof (cases "k' = k")
      case k: True
      have "filter (\<lambda>kv. fst kv \<noteq> k) (elements es) = elements es"
        using Cons.prems(7) k val by (auto intro!: filter_True)
      moreover have "\<exists>body. close_gap (es @ [special_end]) = body @ [special_end] \<and> links home m i p body \<and>
          elements body = elements es \<and> length body = Suc (length es)"
        by (rule close_gap_links) (use Cons.prems in auto)
      ultimately show ?thesis using True k val by auto
    next
      case k: False
      have "case erase_from k (d + 1) (es @ [special_end]) of
          None \<Rightarrow> k \<notin> fst ` set (elements es)
        | Some es' \<Rightarrow> k \<in> fst ` set (elements es) \<and>
            (\<exists>body. es' = body @ [special_end] \<and> links home m (Suc i) (distance_from_desired e) body \<and>
               length body = length es \<and> elements body = filter (\<lambda>kv. fst kv \<noteq> k) (elements es))"
        by (rule Cons.IH) (use Cons.prems val range in auto)
      then show ?thesis
        using True k val Cons.prems(1)
        by (auto split: option.splits)
    qed
  qed
qed

section \<open>Assignment\<close>

lemma assign_from_links:
  assumes "links home m i p es"
  shows "\<exists>body. assign_from k v (es @ [special_end]) = body @ [special_end] \<and> links home m i p body \<and>
    length body = length es \<and> elements body = (if k \<in> fst ` set (elements es) then AList.update k v (elements es) else elements es)"
  using assms
proof (induction es arbitrary: i p)
  case Nil
  then show ?case by simp
next
  case (Cons e es)
  from Cons.IH [of "Suc i" "distance_from_desired e"] Cons.prems
  obtain body where body: "assign_from k v (es @ [special_end]) = body @ [special_end]"
    "links home m (Suc i) (distance_from_desired e) body" "length body = length es"
    "elements body = (if k \<in> fst ` set (elements es) then AList.update k v (elements es) else elements es)" by auto
  from Cons.prems(1) have "sound home m i e" by simp
  then show ?case
  proof (cases rule: sound_cases)
    case 1
    then show ?thesis using body Cons.prems by (intro exI [of _ "e # body"]) simp
  next
    case (2 d k' v')
    then show ?thesis using body Cons.prems
      by (intro exI [of _ "if k' = k then Entry d (Some (k, v)) # es else e # body"]) (auto simp: sound_def)
  qed
qed

end
