(* ===== verification/FlatTableFacts.thy ===== *)
theory FlatTableFacts
  imports FlatBits FlatTableInv
begin

text \<open>
  The invariant of the hash table, and what its operations do under it: lookup and erasure are those of a map,
  and an insertion that returns adds its binding, also through any number of growths.
\<close>

section \<open>The invariant\<close>

abbreviation ft_home :: "('k \<Rightarrow> 64 word) \<Rightarrow> nat \<Rightarrow> 'k \<Rightarrow> nat" where
  "ft_home hash b \<equiv> \<lambda>k. index_for_hash (64 - b) (hash k)"

definition ft_level :: "('k, 'v) FlatTable \<Rightarrow> nat" where
  \<comment> \<open>the table has \<open>2 ^ ft_level\<close> buckets, or none, at level 1\<close>
  "ft_level t = 64 - ft_shift t"

definition ft_sized :: "('k, 'v) FlatTable \<Rightarrow> bool" where
  "ft_sized t \<longleftrightarrow> 1 \<le> ft_level t \<and> ft_level t \<le> 63 \<and> ft_shift t = 64 - ft_level t \<and>
     (ft_num_slots_minus_one t = 2 ^ ft_level t - 1 \<or> ft_num_slots_minus_one t = 0 \<and> ft_level t = 1)"

definition ft_holds :: "('k, 'v) FlatTable \<Rightarrow> bool" where
  \<comment> \<open>the array ends with the special end, no key is twice in it, and the elements are counted\<close>
  "ft_holds t \<longleftrightarrow> ft_entries t = butlast (ft_entries t) @ [special_end] \<and>
     distinct (map fst (ft_items t)) \<and> ft_num_elements t = length (ft_items t) \<and>
     2 * ft_num_elements t \<le> 2 ^ ft_level t"

definition ft_wf :: "('k \<Rightarrow> 64 word) \<Rightarrow> ('k, 'v) FlatTable \<Rightarrow> bool" where
  "ft_wf hash t \<longleftrightarrow> t = ft_empty \<or>
     ft_num_slots_minus_one t = 2 ^ ft_level t - 1 \<and> ft_sized t \<and> ft_holds t \<and> ft_max_lookups t = max 4 (ft_level t) \<and>
     length (ft_entries t) = 2 ^ ft_level t + max 4 (ft_level t) \<and>
     links (ft_home hash (ft_level t)) (max 4 (ft_level t)) 0 (- 1) (butlast (ft_entries t))"

lemma ft_items_append [simp]: "ft_items (t\<lparr>ft_entries := body @ [special_end]\<rparr>) = elements body"
  by (simp add: ft_items_def)

lemma ft_level_update [simp]:
  "ft_level (t\<lparr>ft_entries := es\<rparr>) = ft_level t" "ft_level (t\<lparr>ft_num_elements := n\<rparr>) = ft_level t"
  by (simp_all add: ft_level_def)

lemma ft_sized_update [simp]:
  "ft_sized (t\<lparr>ft_entries := es\<rparr>) = ft_sized t" "ft_sized (t\<lparr>ft_num_elements := n\<rparr>) = ft_sized t"
  by (simp_all add: ft_sized_def)

lemma ft_items_empty [simp]: "ft_items ft_empty = []"
  by (simp add: ft_items_def ft_empty_def empty_default_table_def)

lemma ft_wf_empty [simp]: "ft_wf hash ft_empty"
  by (simp add: ft_wf_def)

lemma ft_wf_sized: "ft_wf hash t \<Longrightarrow> ft_sized t"
  by (auto simp: ft_wf_def ft_sized_def ft_level_def ft_empty_def)

lemma ft_wf_holds: "ft_wf hash t \<Longrightarrow> ft_holds t"
  by (auto simp: ft_wf_def ft_holds_def ft_empty_def empty_default_table_def ft_items_def)

lemma ft_wf_body:
  assumes "ft_wf hash t" "t \<noteq> ft_empty"
  obtains body where "ft_entries t = body @ [special_end]" "ft_items t = elements body"
    "length body = 2 ^ ft_level t + max 4 (ft_level t) - 1"
    "links (ft_home hash (ft_level t)) (max 4 (ft_level t)) 0 (- 1) body"
    "distinct (map fst (elements body))"
    "ft_num_slots_minus_one t = 2 ^ ft_level t - 1" "ft_max_lookups t = max 4 (ft_level t)"
    "ft_index hash k t = ft_home hash (ft_level t) k" "1 \<le> ft_level t" "ft_level t \<le> 63"
proof -
  let ?body = "butlast (ft_entries t)"
  have "ft_entries t = ?body @ [special_end]" using assms by (simp add: ft_wf_def ft_holds_def)
  moreover have "length ?body = 2 ^ ft_level t + max 4 (ft_level t) - 1" using assms by (simp add: ft_wf_def)
  ultimately show thesis
    using assms by (intro that [of ?body]) (auto simp: ft_wf_def ft_holds_def ft_sized_def ft_items_def ft_index_def)
qed

lemma ft_wfI:
  assumes "ft_sized t" "ft_entries t = body @ [special_end]" "ft_num_slots_minus_one t = 2 ^ ft_level t - 1"
    "length body = 2 ^ ft_level t + max 4 (ft_level t) - 1"
    "links (ft_home hash (ft_level t)) (max 4 (ft_level t)) 0 (- 1) body"
    "distinct (map fst (elements body))" "ft_num_elements t = length (elements body)"
    "2 * ft_num_elements t \<le> 2 ^ ft_level t" "ft_max_lookups t = max 4 (ft_level t)"
  shows "ft_wf hash t"
proof -
  have "ft_items t = elements body" using assms(2) by (simp add: ft_items_def)
  then show ?thesis using assms by (simp add: ft_wf_def ft_holds_def)
qed

section \<open>The stretch of entries behind the home of a key\<close>

lemma prev_distance_ge: "links home m i p es \<Longrightarrow> - 1 \<le> p \<Longrightarrow> - 1 \<le> prev_distance p es"
  by (induction es arbitrary: i p) (auto dest: sound_distance)

lemma links_keys_before: "links home m i p es \<Longrightarrow> k \<in> fst ` set (elements es) \<Longrightarrow> home k < i + length es"
proof (induction es arbitrary: i p)
  case (Cons e es)
  have "home k < Suc i + length es" if "k \<in> fst ` set (elements es)"
    using Cons.IH [of "Suc i" "distance_from_desired e"] that Cons.prems(1) by simp
  then show ?case using Cons.prems by (auto simp: sound_def split: option.splits)
qed simp

lemma links_split:
  assumes "links home m 0 (- 1) body" "i \<le> length body"
  shows "links home m i (prev_distance (- 1) (take i body)) (drop i body)"
    "- 1 \<le> prev_distance (- 1) (take i body)" "links home m 0 (- 1) (take i body)"
    "home k = i \<Longrightarrow> k \<notin> fst ` set (elements (take i body))"
proof -
  have *: "links home m 0 (- 1) (take i body @ drop i body)" using assms(1) by simp
  then show "links home m i (prev_distance (- 1) (take i body)) (drop i body)"
    unfolding links_append using assms(2) by simp
  from * show left: "links home m 0 (- 1) (take i body)" unfolding links_append by blast
  show "- 1 \<le> prev_distance (- 1) (take i body)" using prev_distance_ge [OF left] by simp
  show "home k = i \<Longrightarrow> k \<notin> fst ` set (elements (take i body))"
    using links_keys_before [OF left, of k] assms(2) by auto
qed

lemma elements_split: "elements body = elements (take i body) @ elements (drop i body)"
  by (metis append_take_drop_id elements_simps(3))

lemma home_room:
  assumes "length body = 2 ^ b + m - 1" "b \<le> 63" "0 < m"
  shows "ft_home hash b k \<le> length body" "ft_home hash b k + m \<le> length body"
  using index_for_hash_less [of b "hash k"] assms by auto

lemma ft_wf_at:
  assumes "ft_wf hash t" "t \<noteq> ft_empty"
  obtains front rear where "ft_entries t = front @ rear @ [special_end]" "ft_items t = elements front @ elements rear"
    "length front = ft_index hash k t" "ft_index hash k t = ft_home hash (ft_level t) k"
    "links (ft_home hash (ft_level t)) (ft_max_lookups t) 0 (- 1) front"
    "links (ft_home hash (ft_level t)) (ft_max_lookups t) (ft_index hash k t) (prev_distance (- 1) front) rear"
    "- 1 \<le> prev_distance (- 1) front" "k \<notin> fst ` set (elements front)"
    "length (front @ rear) = 2 ^ ft_level t + ft_max_lookups t - 1"
    "ft_index hash k t + ft_max_lookups t \<le> ft_index hash k t + length rear"
    "ft_max_lookups t = max 4 (ft_level t)" "ft_num_slots_minus_one t = 2 ^ ft_level t - 1"
proof -
  let ?m = "max 4 (ft_level t)"
  obtain body where body: "ft_entries t = body @ [special_end]" "ft_items t = elements body"
    "length body = 2 ^ ft_level t + ?m - 1" "links (ft_home hash (ft_level t)) ?m 0 (- 1) body"
    "ft_num_slots_minus_one t = 2 ^ ft_level t - 1"
    "ft_max_lookups t = ?m" "ft_index hash k t = ft_home hash (ft_level t) k" "ft_level t \<le> 63"
    using ft_wf_body [OF assms] by metis
  let ?i = "ft_index hash k t"
  have room: "?i \<le> length body" "?i + ?m \<le> length body"
    using home_room [OF body(3,8), of hash k] body(7) by auto
  note split = links_split [OF body(4) room(1)]
  have items: "ft_items t = elements (take ?i body) @ elements (drop ?i body)"
    by (metis body(2) elements_split)
  have entries: "ft_entries t = take ?i body @ drop ?i body @ [special_end]"
    using body(1) by simp
  have before: "k \<notin> fst ` set (elements (take ?i body))" using split(4) body(7) by simp
  have lengths: "length (take ?i body) = ?i" "length (take ?i body @ drop ?i body) = length body"
    "?i + length (drop ?i body) = length body"
    using room(1) by simp_all
  show thesis
    by (rule that [OF entries items lengths(1) body(7)])
      (use split(1-3) before lengths room(2) body(3,5,6) in \<open>simp_all only: not_False_eq_True\<close>)
qed

section \<open>Lookup\<close>

lemma ft_probe:
  assumes "ft_wf hash t" "t \<noteq> ft_empty" and i: "i = ft_index hash k t"
  shows "case probe_from k 0 (drop i (ft_entries t)) of
      Found kv \<Rightarrow> kv \<in> set (ft_items t) \<and> fst kv = k
    | Stop suf d \<Rightarrow> k \<notin> fst ` set (ft_items t) \<and>
        (\<exists>before rest. ft_entries t = before @ rest @ [special_end] \<and> suf = rest @ [special_end] \<and>
           length before = i + nat d \<and> 0 \<le> d \<and>
           d \<le> prev_distance (- 1) before + 1 \<and> d \<le> int (ft_max_lookups t) \<and>
           (\<forall>e rest'. rest = e # rest' \<longrightarrow> distance_from_desired e < d))"
proof -
  obtain front rear where at: "ft_entries t = front @ rear @ [special_end]" "ft_items t = elements front @ elements rear"
    "length front = i" "i = ft_home hash (ft_level t) k"
    "links (ft_home hash (ft_level t)) (ft_max_lookups t) i (prev_distance (- 1) front) rear"
    "- 1 \<le> prev_distance (- 1) front" "k \<notin> fst ` set (elements front)"
    "i + ft_max_lookups t \<le> i + length rear" "ft_max_lookups t = max 4 (ft_level t)"
    unfolding i by (rule ft_wf_at [OF assms(1,2), of k])
  have *: "case probe_from k 0 (rear @ [special_end]) of
      Found kv \<Rightarrow> kv \<in> set (elements rear) \<and> fst kv = k
    | Stop suf d' \<Rightarrow> k \<notin> fst ` set (elements rear) \<and>
        (\<exists>pre rest. rear = pre @ rest \<and> suf = rest @ [special_end] \<and> d' = 0 + int (length pre) \<and>
           d' \<le> prev_distance (prev_distance (- 1) front) pre + 1 \<and> d' \<le> int (ft_max_lookups t) \<and>
           (\<forall>e rest'. rest = e # rest' \<longrightarrow> distance_from_desired e < d'))"
    by (rule probe_from_links [OF at(5)]) (use at(4,6,8,9) in auto)
  show ?thesis
  proof (cases "probe_from k 0 (rear @ [special_end])")
    case (Stop suf d)
    from * Stop obtain pre rest where rest: "rear = pre @ rest" "suf = rest @ [special_end]"
      "d = int (length pre)" "d \<le> prev_distance (prev_distance (- 1) front) pre + 1"
      "d \<le> int (ft_max_lookups t)" "\<forall>e rest'. rest = e # rest' \<longrightarrow> distance_from_desired e < d" by auto
    moreover have "prev_distance (prev_distance (- 1) front) pre = prev_distance (- 1) (front @ pre)"
      by (simp add: prev_distance_def)
    ultimately show ?thesis
      using Stop * at(1,2,3,7) by (auto intro!: exI [of _ "front @ pre"])
  qed (use * at(1-3) in auto)
qed

lemma ft_find_wf:
  assumes "ft_wf hash t"
  shows "ft_find hash t k = map_of (ft_items t) k"
proof (cases "t = ft_empty")
  case True
  have "index_for_hash 63 (hash k) < 2" using index_for_hash_less [of 1 "hash k"] by simp
  then have "index_for_hash 63 (hash k) \<in> {0, 1}" by auto
  then show ?thesis using True
    by (auto simp: ft_find_def ft_index_def ft_empty_def empty_default_table_def ft_items_def)
next
  case False
  have "distinct (map fst (ft_items t))" using ft_wf_holds [OF assms] by (simp add: ft_holds_def)
  then show ?thesis
    using ft_probe [OF assms False refl, of k]
    by (cases "probe_from k 0 (drop (ft_index hash k t) (ft_entries t))")
      (auto simp: ft_find_def map_of_eq_None_iff, metis map_of_eq_None_iff)
qed

section \<open>Growing\<close>

lemma elements_replicate_empty [simp]: "elements (replicate n empty_entry) = []"
  by (induction n) auto

lemma links_replicate_empty: "- 1 \<le> p + 1 \<Longrightarrow> links home m i p (replicate n empty_entry)"
  by (induction n arbitrary: i p) auto

lemma fresh_table_entries:
  assumes "1 \<le> b" "b \<le> 63"
  shows "ft_entries (fresh_table (2 ^ b) (64 - b)) = replicate (2 ^ b + max 4 b - 1) empty_entry @ [special_end]"
    "ft_level (fresh_table (2 ^ b) (64 - b)) = b" "ft_num_elements (fresh_table (2 ^ b) (64 - b)) = 0"
    "ft_max_lookups (fresh_table (2 ^ b) (64 - b)) = max 4 b"
    "ft_sized (fresh_table (2 ^ b) (64 - b))" "ft_num_slots_minus_one (fresh_table (2 ^ b) (64 - b)) = 2 ^ b - 1"
  using assms
  by (simp_all add: fresh_table_def ft_sized_def ft_level_def Let_def compute_max_lookups_pow)

lemma fresh_table_items [simp]: "ft_items (fresh_table n shift) = []"
  by (simp add: ft_items_def fresh_table_def Let_def)

lemma fresh_table_wf:
  assumes "1 \<le> b" "b \<le> 63"
  shows "ft_wf hash (fresh_table (2 ^ b) (64 - b))"
  by (rule ft_wfI [OF fresh_table_entries(5,1)])
    (use assms in \<open>simp_all add: fresh_table_entries links_replicate_empty\<close>)

lemma rehash_fresh:
  assumes "0 < max sz (2 * ft_num_elements t)" "next_size_over (max sz (2 * ft_num_elements t)) = (num_buckets, shift)"
    and "num_buckets \<noteq> bucket_count t"
  shows "rehash emp sz t = emplace_all emp (ft_items t) (fresh_table num_buckets shift)"
  using assms by (auto simp: rehash_def Let_def)

text \<open>\<open>grow\<close> goes up a level. At level 63, doubling wraps around and it goes to whatever holds twice the elements.\<close>

lemma grow_fresh:
  assumes "ft_sized t" "2 * ft_num_elements t \<le> 2 ^ ft_level t" "ft_num_elements t < 2 ^ 52"
  obtains c where "2 \<le> c" "c \<le> 63" "2 * ft_num_elements t \<le> 2 ^ c" "ft_level t < 63 \<longrightarrow> c = Suc (ft_level t)"
    "\<And>emp. grow emp t = emplace_all emp (ft_items t) (fresh_table (2 ^ c) (64 - c))"
proof -
  let ?b = "ft_level t"
  let ?w = "max (max 4 ((2 * bucket_count t) mod 2 ^ 64)) (2 * ft_num_elements t)"
  have b: "1 \<le> ?b" "?b \<le> 63" using assms(1) by (auto simp: ft_sized_def)
  have "\<not> (2 :: nat) ^ ?b \<le> Suc 0" using b less_exp [of ?b] by linarith
  then have count: "bucket_count t = 2 ^ ?b \<or> bucket_count t = 0 \<and> ?b = 1"
    using assms(1) b by (auto simp: ft_sized_def bucket_count_def)
  have "\<exists>c. 1 \<le> c \<and> c < 63 \<and> 2 ^ c < ?w \<and> ?w \<le> 2 ^ Suc c \<and> (?b < 63 \<longrightarrow> c = ?b) \<and> 2 ^ Suc c \<noteq> bucket_count t"
  proof (cases "?b < 63")
    case True
    have "(2 :: nat) ^ Suc ?b < 2 ^ 64" by (rule power_strict_increasing) (use True in simp_all)
    then have "?w = 2 ^ Suc ?b"
      using count b assms(2) self_le_power [of "2 :: nat" ?b] power_increasing [of 2 ?b "2 :: nat"]
      by (auto simp: max_def)
    then show ?thesis using True b count by (intro exI [of _ ?b]) auto
  next
    case False
    then have "?b = 63" using b by simp
    then have w: "?w = max 4 (2 * ft_num_elements t)" using count by simp
    have "2 \<le> ?w" "?w \<le> 2 ^ Suc 52" using assms(3) unfolding w by simp_all
    from power_bracket [OF this] obtain c where c: "c \<le> 52" "2 ^ c < ?w" "?w \<le> 2 ^ Suc c" by blast
    have "c \<noteq> 0" using c(3) w by (intro notI) simp
    moreover have "(2 :: nat) ^ Suc c \<noteq> 2 ^ 63" using c(1) by (simp only: power_inject_exp)
    ultimately show ?thesis using c False \<open>?b = 63\<close> count by (intro exI [of _ c]) auto
  qed
  then obtain c where c: "1 \<le> c" "c < 63" "2 ^ c < ?w" "?w \<le> 2 ^ Suc c" "?b < 63 \<longrightarrow> c = ?b"
    "2 ^ Suc c \<noteq> bucket_count t" by blast
  have "grow emp t = emplace_all emp (ft_items t) (fresh_table (2 ^ Suc c) (64 - Suc c))" for emp
    unfolding grow_def by (rule rehash_fresh [OF _ next_size_over_pow [OF c(3,4,2)] c(6)]) simp
  moreover have "2 * ft_num_elements t \<le> 2 ^ Suc c" using c(4) by linarith
  ultimately show thesis using c by (intro that [of "Suc c"]) auto
qed

section \<open>Insertion\<close>

lemma ft_slots_empty: "ft_num_slots_minus_one ft_empty = 0"
  by (simp add: ft_empty_def)

lemma ft_probe_empty:
  obtains suf where "probe_from k 0 (drop (ft_index hash k (ft_empty :: ('k, 'v) FlatTable)) (ft_entries ft_empty)) = Stop (suf :: ('k, 'v) entry list) 0"
proof -
  have "index_for_hash 63 (hash k) < 2" using index_for_hash_less [of 1 "hash k"] by simp
  then have "index_for_hash 63 (hash k) \<in> {0, 1}" by auto
  then show thesis using that by (auto simp: ft_index_def ft_empty_def empty_default_table_def)
qed

lemma mset_distinct_keys: "mset xs = mset ys \<Longrightarrow> distinct (map fst xs) \<longleftrightarrow> distinct (map fst ys)"
  by (rule mset_eq_imp_distinct_iff) (metis mset_map)

lemma shift_insert_head:
  assumes "shift_insert m d kv (e # es) = Overflow kv' es'" "sound home m' i e" "distance_from_desired e < d"
  obtains es2 where "es' = Entry d (Some kv) # es2"
  using assms by (auto simp: sound_def split: if_splits) (metis shifted.distinct(1) shifted.inject(2) shifted_cons.elims)

lemma shift_insert_wf:
  assumes wf: "ft_wf hash t" "t \<noteq> ft_empty"
    and at: "ft_entries t = before @ rest @ [special_end]" "length before = ft_index hash k t + nat d" "0 \<le> d"
      "d \<le> prev_distance (- 1) before + 1" "d < int (ft_max_lookups t)"
      "\<forall>e rest'. rest = e # rest' \<longrightarrow> distance_from_desired e < d"
    and new: "k \<notin> fst ` set (ft_items t)" and load: "2 * (ft_num_elements t + 1) \<le> ft_num_slots_minus_one t + 1"
  shows "case shift_insert (ft_max_lookups t) d (k, v) (rest @ [special_end]) of
      Placed es \<Rightarrow> ft_wf hash (t\<lparr>ft_entries := before @ es, ft_num_elements := ft_num_elements t + 1\<rparr>) \<and>
        mset (ft_items (t\<lparr>ft_entries := before @ es, ft_num_elements := ft_num_elements t + 1\<rparr>)) =
          add_mset (k, v) (mset (ft_items t))
    | Overflow kv es \<Rightarrow> ft_holds (t\<lparr>ft_entries := before @ put_back kv es\<rparr>) \<and>
        mset (ft_items (t\<lparr>ft_entries := before @ put_back kv es\<rparr>)) = mset (ft_items t)"
proof -
  let ?b = "ft_level t"
  let ?m = "max 4 (ft_level t)"
  let ?home = "ft_home hash ?b"
  have b: "1 \<le> ?b" "?b \<le> 63" and m: "ft_max_lookups t = ?m" and index: "ft_index hash k t = ?home k"
    and nsm: "ft_num_slots_minus_one t = 2 ^ ?b - 1" and sized: "ft_sized t"
    using ft_wf_body [OF wf] ft_wf_sized [OF wf(1)] by metis+
  have "Suc (length (before @ rest)) = 2 ^ ?b + ?m"
    and links: "links ?home ?m 0 (- 1) (before @ rest)"
    and items: "ft_items t = elements (before @ rest)"
    using wf at(1) by (simp_all add: ft_wf_def ft_items_def butlast_append)
  then have len: "length (before @ rest) = 2 ^ ?b + ?m - 1" by linarith
  have holds: "distinct (map fst (ft_items t))" "ft_num_elements t = length (ft_items t)"
    using ft_wf_holds [OF wf(1)] by (simp_all add: ft_holds_def)
  have links': "links ?home ?m 0 (- 1) before"
    "links ?home ?m (length before) (prev_distance (- 1) before) rest"
    using links by (simp_all add: links_append)
  have room: "?home k' + ?m \<le> length before + length rest" for k'
    using home_room(2) [OF len, of hash k'] b by simp
  have ins: "case shift_insert ?m d (k, v) (rest @ [special_end]) of
      Placed es' \<Rightarrow> \<exists>body. es' = body @ [special_end] \<and> length body = length rest \<and>
        links ?home ?m (length before) (prev_distance (- 1) before) body \<and>
        mset (elements body) = add_mset (k, v) (mset (elements rest))
    | Overflow kv' es' \<Rightarrow> \<exists>body. es' = body @ [special_end] \<and> length body = length rest \<and>
        add_mset kv' (mset (elements body)) = add_mset (k, v) (mset (elements rest))"
    by (rule shift_insert_links [OF links'(2)]) (use at index m room in auto)
  have dist: "distinct (map fst (add_new # elements before @ elements rest)) \<longleftrightarrow> fst add_new \<notin> fst ` set (ft_items t)"
    for add_new using holds(1) items by auto
  show ?thesis
  proof (cases "shift_insert ?m d (k, v) (rest @ [special_end])")
    case (Placed es)
    with ins obtain body where body: "es = body @ [special_end]" "length body = length rest"
      "links ?home ?m (length before) (prev_distance (- 1) before) body"
      "mset (elements body) = add_mset (k, v) (mset (elements rest))" by auto
    have ms: "mset (elements (before @ body)) = add_mset (k, v) (mset (ft_items t))"
      using body(4) items by simp
    then have "mset (elements (before @ body)) = mset ((k, v) # ft_items t)" by simp
    from mset_distinct_keys [OF this] have "distinct (map fst (elements (before @ body)))"
      using holds(1) new by simp
    moreover have "length (elements (before @ body)) = ft_num_elements t + 1"
      using arg_cong [OF ms, of size] holds(2) by simp
    ultimately have "ft_wf hash (t\<lparr>ft_entries := before @ es, ft_num_elements := ft_num_elements t + 1\<rparr>)"
      by (intro ft_wfI [where body = "before @ body"])
        (use body len links' sized b m load nsm in \<open>simp_all add: links_append\<close>)
    then show ?thesis using Placed ms body(1) by (simp add: m ft_items_def butlast_append)
  next
    case (Overflow kv es)
    with ins obtain body where body: "es = body @ [special_end]" "length body = length rest"
      "add_mset kv (mset (elements body)) = add_mset (k, v) (mset (elements rest))" by auto
    have "rest \<noteq> []" using room [of k] at(2,3,5) index m by auto
    then obtain e rest' where rest: "rest = e # rest'" by (cases rest) auto
    have "sound ?home ?m (length before) e" "distance_from_desired e < d"
      using links'(2) at(6) rest by auto
    from shift_insert_head [OF Overflow [unfolded rest append_Cons] this]
    obtain es2 where es2: "es = Entry d (Some (k, v)) # es2" .
    obtain body2 where body2: "body = Entry d (Some (k, v)) # body2"
      using body(1,2) es2 rest by (cases body) auto
    have put: "put_back kv es = (Entry d (Some kv) # body2) @ [special_end]"
      using body(1) body2 by (simp add: put_back_def)
    have ms: "mset (elements (before @ Entry d (Some kv) # body2)) = mset (ft_items t)"
      using body(3) body2 items by simp
    let ?t = "t\<lparr>ft_entries := before @ put_back kv es\<rparr>"
    have it: "ft_items ?t = elements (before @ Entry d (Some kv) # body2)"
      by (simp add: ft_items_def put butlast_append del: elements_simps)
    have "mset (ft_items ?t) = mset (ft_items t)" using ms it by simp
    from mset_distinct_keys [OF this] have "distinct (map fst (ft_items ?t))" using holds(1) by simp
    moreover have "length (ft_items ?t) = ft_num_elements t"
      using arg_cong [OF ms, of size] holds(2) it by simp
    moreover have "2 * ft_num_elements t \<le> 2 ^ ?b" using ft_wf_holds [OF wf(1)] by (simp add: ft_holds_def)
    ultimately have "ft_holds ?t" by (simp add: ft_holds_def put butlast_append)
    then show ?thesis using Overflow ms it m by simp
  qed
qed

text \<open>
  What an insertion that returns has done; \<open>num_elements < 2 ^ 52\<close> keeps the load factor, a \<open>double\<close>,
  exact.
\<close>

definition inserted :: "('k \<Rightarrow> 64 word) \<Rightarrow> 'k \<Rightarrow> 'v \<Rightarrow> ('k, 'v) FlatTable \<Rightarrow> ('k, 'v) FlatTable \<Rightarrow> bool" where
  "inserted hash k v t t' \<longleftrightarrow> ft_wf hash t' \<and>
     (if k \<in> fst ` set (ft_items t) then t' = t else mset (ft_items t') = add_mset (k, v) (mset (ft_items t)))"

definition inserts ::
  "('k \<Rightarrow> 64 word) \<Rightarrow> ('k \<Rightarrow> 'v \<Rightarrow> ('k, 'v) FlatTable \<Rightarrow> ('k, 'v) FlatTable option) \<Rightarrow> bool" where
  "inserts hash emp \<longleftrightarrow> (\<forall>t k v t'. ft_wf hash t \<longrightarrow> length (ft_items t) < 2 ^ 52 \<longrightarrow> emp k v t = Some t' \<longrightarrow>
     inserted hash k v t t')"

lemma insertsD:
  "inserts hash emp \<Longrightarrow> ft_wf hash t \<Longrightarrow> length (ft_items t) < 2 ^ 52 \<Longrightarrow> emp k v t = Some t' \<Longrightarrow>
     inserted hash k v t t'"
  by (simp add: inserts_def)

lemma emplace_all_items:
  assumes "inserts hash emp" "ft_wf hash t" "distinct (map fst kvs)" "fst ` set kvs \<inter> fst ` set (ft_items t) = {}"
    and "length kvs + length (ft_items t) \<le> 2 ^ 52" "emplace_all emp kvs t = Some t'"
  shows "ft_wf hash t' \<and> mset (ft_items t') = mset kvs + mset (ft_items t)"
  using assms(2-)
proof (induction kvs arbitrary: t)
  case (Cons kv kvs)
  obtain t1 where t1: "emp (fst kv) (snd kv) t = Some t1" "emplace_all emp kvs t1 = Some t'"
    using Cons.prems(5) by (auto split: option.splits)
  have "inserted hash (fst kv) (snd kv) t t1"
    by (rule insertsD [OF assms(1) Cons.prems(1) _ t1(1)]) (use Cons.prems(4) in simp)
  then have ins: "ft_wf hash t1" "mset (ft_items t1) = mset (kv # ft_items t)"
    using Cons.prems(3) by (auto simp: inserted_def)
  have "set (ft_items t1) = insert kv (set (ft_items t))" "length (ft_items t1) = Suc (length (ft_items t))"
    using mset_eq_setD [OF ins(2)] mset_eq_length [OF ins(2)] by simp_all
  then have "ft_wf hash t' \<and> mset (ft_items t') = mset kvs + mset (ft_items t1)"
    by (intro Cons.IH [OF ins(1) _ _ _ t1(2)]) (use Cons.prems(2-4) in auto)
  then show ?case using ins(2) by simp
qed simp

lemma grow_items:
  assumes "inserts hash emp" "ft_sized t" "ft_holds t" "length (ft_items t) < 2 ^ 52" "grow emp t = Some t'"
  shows "ft_wf hash t' \<and> mset (ft_items t') = mset (ft_items t)"
proof -
  have n: "ft_num_elements t = length (ft_items t)" "2 * ft_num_elements t \<le> 2 ^ ft_level t"
    and d: "distinct (map fst (ft_items t))"
    using assms(3) by (simp_all add: ft_holds_def)
  have "ft_num_elements t < 2 ^ 52" using assms(4) n(1) by simp
  from grow_fresh [OF assms(2) n(2) this]
  obtain c where c: "1 \<le> c" "c \<le> 63" "grow emp t = emplace_all emp (ft_items t) (fresh_table (2 ^ c) (64 - c))"
    by (metis one_le_numeral order_trans)
  have "ft_wf hash t' \<and> mset (ft_items t') = mset (ft_items t) + mset (ft_items (fresh_table (2 ^ c) (64 - c) :: ('a, 'b) FlatTable))"
    by (rule emplace_all_items [OF assms(1) fresh_table_wf [OF c(1,2)] d]) (use assms(4,5) c(3) in simp_all)
  then show ?thesis by simp
qed

lemma grow_then_emplace:
  assumes "inserts hash emp" "ft_sized t1" "ft_holds t1" "length (ft_items t) < 2 ^ 52"
    and "mset (ft_items t1) = mset (ft_items t)" "k \<notin> fst ` set (ft_items t)"
    and "Option.bind (grow emp t1) (emp k v) = Some t'"
  shows "inserted hash k v t t'"
proof -
  have len: "length (ft_items t1) < 2 ^ 52" using assms(4) mset_eq_length [OF assms(5)] by simp
  obtain t2 where t2: "grow emp t1 = Some t2" "emp k v t2 = Some t'"
    using assms(7) by (auto simp: Option.bind_eq_Some_conv)
  note grown = grow_items [OF assms(1-3) len t2(1)]
  then have "mset (ft_items t2) = mset (ft_items t)" using assms(5) by simp
  moreover have "inserted hash k v t2 t'"
    by (rule insertsD [OF assms(1) _ _ t2(2)]) (use grown len mset_eq_length in fastforce)+
  ultimately show ?thesis using assms(6) mset_eq_setD [of "ft_items t2" "ft_items t"]
    by (auto simp: inserted_def)
qed

text \<open>One call finds the key, places it, or grows a table with the same elements and tries again.\<close>

lemma ft_emplace_cases:
  assumes "ft_wf hash t"
  obtains
    (found) "k \<in> fst ` set (ft_items t)" "\<And>n. ft_emplace (Suc n) hash k v t = Some t"
  | (placed) t1 where "k \<notin> fst ` set (ft_items t)" "\<And>n. ft_emplace (Suc n) hash k v t = Some t1"
      "inserted hash k v t t1" "ft_level t1 = ft_level t"
  | (grown) t1 where "k \<notin> fst ` set (ft_items t)"
      "\<And>n. ft_emplace (Suc n) hash k v t = Option.bind (grow (ft_emplace n hash) t1) (ft_emplace n hash k v)"
      "ft_sized t1" "ft_holds t1" "mset (ft_items t1) = mset (ft_items t)" "ft_level t1 = ft_level t"
proof (cases "t = ft_empty")
  case True
  obtain suf where "probe_from k 0 (drop (ft_index hash k t) (ft_entries t)) = Stop suf 0"
    unfolding True by (rule ft_probe_empty)
  then have "ft_emplace (Suc n) hash k v t = Option.bind (grow (ft_emplace n hash) t) (ft_emplace n hash k v)" for n
    using True by (simp add: emplace_new_key_def ft_slots_empty)
  then show thesis
    by (rule grown [rotated]) (use True ft_wf_sized [OF assms] ft_wf_holds [OF assms] in simp_all)
next
  case False
  note probe = ft_probe [OF assms False refl, of k]
  show thesis
  proof (cases "probe_from k 0 (drop (ft_index hash k t) (ft_entries t))")
    case (Found kv)
    then show thesis using probe by (intro found) auto
  next
    case (Stop suf d)
    with probe obtain before rest where at: "ft_entries t = before @ rest @ [special_end]" "suf = rest @ [special_end]"
      "length before = ft_index hash k t + nat d" "0 \<le> d" "d \<le> prev_distance (- 1) before + 1"
      "d \<le> int (ft_max_lookups t)" "\<forall>e rest'. rest = e # rest' \<longrightarrow> distance_from_desired e < d"
      and new: "k \<notin> fst ` set (ft_items t)" by auto
    have take: "take (length (ft_entries t) - length suf) (ft_entries t) = before" using at(1,2) by simp
    have step: "ft_emplace (Suc n) hash k v t = emplace_new_key (ft_emplace n hash) d before suf k v t" for n
      using Stop take by simp
    show thesis
    proof (cases "ft_num_slots_minus_one t = 0 \<or> d = int (ft_max_lookups t) \<or>
        2 * (ft_num_elements t + 1) > ft_num_slots_minus_one t + 1")
      case True
      then show thesis
        by (intro grown [OF new, where ?t1.0 = t])
          (simp_all add: step emplace_new_key_def ft_wf_sized [OF assms] ft_wf_holds [OF assms] del: ft_emplace.simps)
    next
      case fits: False
      then have "d < int (ft_max_lookups t)" using at(6) by simp
      note insert = shift_insert_wf [OF assms False at(1,3,4,5) this at(7) new, of v]
      show thesis
      proof (cases "shift_insert (ft_max_lookups t) d (k, v) suf")
        case (Placed es)
        then show thesis using insert fits at(2) new
          by (intro placed [OF new, where ?t1.0 = "t\<lparr>ft_entries := before @ es, ft_num_elements := ft_num_elements t + 1\<rparr>"])
            (simp_all add: step emplace_new_key_def inserted_def del: ft_emplace.simps)
      next
        case (Overflow kv es)
        then show thesis using insert fits at(2) ft_wf_sized [OF assms]
          by (intro grown [OF new, where ?t1.0 = "t\<lparr>ft_entries := before @ put_back kv es\<rparr>"])
            (simp_all add: step emplace_new_key_def del: ft_emplace.simps)
      qed
    qed
  qed
qed

lemma ft_emplace_inserts: "inserts (hash :: 'k \<Rightarrow> 64 word) (ft_emplace n hash :: 'k \<Rightarrow> 'v \<Rightarrow> _)"
proof (induction n)
  case 0
  then show ?case by (simp add: inserts_def)
next
  case (Suc n)
  show ?case unfolding inserts_def
  proof (intro allI impI)
    fix t :: "('k, 'v) FlatTable" and k v t'
    assume wf: "ft_wf hash t" and len: "length (ft_items t) < 2 ^ 52" and run: "ft_emplace (Suc n) hash k v t = Some t'"
    show "inserted hash k v t t'"
    proof (cases rule: ft_emplace_cases [OF wf, of k v])
      case 1
      then show ?thesis using run wf by (simp add: inserted_def)
    next
      case 2
      then show ?thesis using run by simp
    next
      case (3 t1)
      then have "Option.bind (grow (ft_emplace n hash) t1) (ft_emplace n hash k v) = Some t'" using run by simp
      from grow_then_emplace [OF Suc.IH] this len 3 show ?thesis by blast
    qed
  qed
qed

section \<open>Rehashing\<close>

lemma rehash_items:
  assumes "inserts hash emp" "ft_wf hash t" "length (ft_items t) < 2 ^ 52" "sz \<le> 2 ^ 63" "rehash emp sz t = Some t'"
  shows "ft_wf hash t' \<and> mset (ft_items t') = mset (ft_items t)"
proof -
  let ?w = "max sz (2 * ft_num_elements t)"
  have n: "ft_num_elements t = length (ft_items t)" and d: "distinct (map fst (ft_items t))"
    using ft_wf_holds [OF assms(2)] by (simp_all add: ft_holds_def)
  show ?thesis
  proof (cases "?w = 0")
    case True
    then have "ft_items t = []" using n by simp
    then show ?thesis using assms(5) True by (auto simp: rehash_def Let_def)
  next
    case False
    have "?w \<le> 2 ^ 63" using assms(3,4) n by simp
    moreover have "1 \<le> ?w" using False by linarith
    ultimately obtain b where b: "1 \<le> b" "b \<le> 63" "next_size_over ?w = (2 ^ b, 64 - b)"
      using next_size_over_level by blast
    show ?thesis
    proof (cases "2 ^ b = bucket_count t")
      case True
      then show ?thesis using assms(2,5) False b(3) by (auto simp: rehash_def Let_def)
    next
      case neq: False
      have "0 < ?w" using False by linarith
      from rehash_fresh [OF this b(3) neq]
      have "emplace_all emp (ft_items t) (fresh_table (2 ^ b) (64 - b)) = Some t'" using assms(5) by simp
      from emplace_all_items [OF assms(1) fresh_table_wf [OF b(1,2)] d _ _ this] assms(3) show ?thesis by simp
    qed
  qed
qed

end
