(* ===== verification/FlatTableMap.thy ===== *)
theory FlatTableMap
  imports FlatTableFacts
begin

text \<open>
  The hash table as a map: erasure, assignment, clearing, copying and comparison. The contract of the table is a
  locale, \<open>partial_hash_map\<close>: an insertion may not return, and one that returns has added its binding.
\<close>

section \<open>Erasure, assignment, clearing\<close>

lemma filter_absent: "k \<notin> fst ` set kvs \<Longrightarrow> filter (\<lambda>kv. fst kv \<noteq> k) kvs = kvs"
  by (rule filter_True) (metis image_eqI)

lemma map_of_filter_key: "map_of (filter (\<lambda>kv. fst kv \<noteq> k) kvs) k' = (if k' = k then None else map_of kvs k')"
  by (induction kvs) auto

lemma length_filter_key:
  "distinct (map fst kvs) \<Longrightarrow> k \<in> fst ` set kvs \<Longrightarrow> length (filter (\<lambda>kv. fst kv \<noteq> k) kvs) = length kvs - 1"
proof (induction kvs)
  case (Cons kv kvs)
  show ?case
  proof (cases "fst kv = k")
    case True
    then have "filter (\<lambda>kv. fst kv \<noteq> k) kvs = kvs" using Cons.prems by (intro filter_absent) simp
    then show ?thesis using True by simp
  next
    case False
    then have "k \<in> fst ` set kvs" using Cons.prems by auto
    moreover then have "kvs \<noteq> []" by auto
    ultimately show ?thesis using Cons False by simp
  qed
qed simp

lemma ft_erase_empty: "ft_erase hash k ft_empty = ft_empty"
proof -
  have "index_for_hash 63 (hash k) < 2" using index_for_hash_less [of 1 "hash k"] by simp
  then have "index_for_hash 63 (hash k) \<in> {0, 1}" by auto
  then show ?thesis by (auto simp: ft_erase_def ft_index_def ft_empty_def empty_default_table_def)
qed

lemma ft_erase_step:
  assumes "ft_wf hash t" "t \<noteq> ft_empty"
  shows "ft_wf hash (ft_erase hash k t) \<and> ft_items (ft_erase hash k t) = filter (\<lambda>kv. fst kv \<noteq> k) (ft_items t)"
proof -
  let ?i = "ft_index hash k t"
  let ?links = "links (ft_home hash (ft_level t)) (ft_max_lookups t)"
  obtain front rear where at: "ft_entries t = front @ rear @ [special_end]" "ft_items t = elements front @ elements rear"
    "length front = ?i" "?i = ft_home hash (ft_level t) k" "?links 0 (- 1) front"
    "?links ?i (prev_distance (- 1) front) rear" "- 1 \<le> prev_distance (- 1) front" "k \<notin> fst ` set (elements front)"
    "length (front @ rear) = 2 ^ ft_level t + ft_max_lookups t - 1"
    "?i + ft_max_lookups t \<le> ?i + length rear" "ft_max_lookups t = max 4 (ft_level t)"
    "ft_num_slots_minus_one t = 2 ^ ft_level t - 1"
    by (rule ft_wf_at [OF assms, of k])
  have holds: "distinct (map fst (ft_items t))" "ft_num_elements t = length (ft_items t)"
    "2 * ft_num_elements t \<le> 2 ^ ft_level t"
    using ft_wf_holds [OF assms(1)] by (simp_all add: ft_holds_def)
  have keep: "filter (\<lambda>kv. fst kv \<noteq> k) (elements front) = elements front"
    using at(8) by (rule filter_absent)
  have *: "case erase_from k 0 (rear @ [special_end]) of
      None \<Rightarrow> k \<notin> fst ` set (elements rear)
    | Some es' \<Rightarrow> k \<in> fst ` set (elements rear) \<and>
        (\<exists>rest. es' = rest @ [special_end] \<and> ?links ?i (prev_distance (- 1) front) rest \<and>
           length rest = length rear \<and> elements rest = filter (\<lambda>kv. fst kv \<noteq> k) (elements rear))"
    by (rule erase_from_links [OF at(6)]) (use at holds(1) in auto)
  show ?thesis
  proof (cases "erase_from k 0 (rear @ [special_end])")
    case None
    then have "filter (\<lambda>kv. fst kv \<noteq> k) (ft_items t) = ft_items t" using * at(2) keep by (simp add: filter_absent)
    then show ?thesis using None assms at(1,3) by (simp add: ft_erase_def Let_def)
  next
    case (Some es')
    with * obtain rest where rest: "es' = rest @ [special_end]" "?links ?i (prev_distance (- 1) front) rest"
      "length rest = length rear" "elements rest = filter (\<lambda>kv. fst kv \<noteq> k) (elements rear)"
      "k \<in> fst ` set (elements rear)" by auto
    have t: "ft_erase hash k t = t\<lparr>ft_entries := front @ es', ft_num_elements := ft_num_elements t - 1\<rparr>"
      using Some at(1,3) by (simp add: ft_erase_def Let_def)
    have items: "elements (front @ rest) = filter (\<lambda>kv. fst kv \<noteq> k) (ft_items t)"
      by (simp add: rest(4) keep at(2))
    have "length (elements (front @ rest)) = ft_num_elements t - 1"
      unfolding items holds(2) by (rule length_filter_key [OF holds(1)]) (use rest(5) at(2) in auto)
    moreover have "2 * (ft_num_elements t - 1) \<le> 2 ^ ft_level t" using holds(3) by linarith
    moreover have "distinct (map fst (elements (front @ rest)))"
      unfolding items using holds(1) by (rule distinct_map_filter)
    moreover have "length (front @ rest) = 2 ^ ft_level t + max 4 (ft_level t) - 1"
      using at(9,11) rest(3) by simp
    moreover have "?links 0 (- 1) (front @ rest)" using at(3,5) rest(2) by (simp add: links_append)
    ultimately have "ft_wf hash (ft_erase hash k t)" unfolding t
      by (intro ft_wfI [where body = "front @ rest"])
        (simp_all add: rest(1) at(11,12) ft_wf_sized [OF assms(1)] del: elements_simps(3))
    then show ?thesis using rest(1) items by (simp add: t ft_items_def butlast_append del: elements_simps(3))
  qed
qed

lemma ft_erase_wf:
  assumes "ft_wf hash t"
  shows "ft_wf hash (ft_erase hash k t)" "ft_items (ft_erase hash k t) = filter (\<lambda>kv. fst kv \<noteq> k) (ft_items t)"
  using ft_erase_step [OF assms, of k] assms by (cases "t = ft_empty"; simp add: ft_erase_empty)+

lemma assign_wf:
  assumes "ft_wf hash t" "k \<in> fst ` set (ft_items t)"
  shows "ft_wf hash (t\<lparr>ft_entries := assign_from k v (ft_entries t)\<rparr>)"
    "ft_items (t\<lparr>ft_entries := assign_from k v (ft_entries t)\<rparr>) = AList.update k v (ft_items t)"
proof -
  have "t \<noteq> ft_empty" using assms(2) by auto
  note nonempty = this
  obtain body where body: "ft_entries t = body @ [special_end]" "ft_items t = elements body"
    "length body = 2 ^ ft_level t + max 4 (ft_level t) - 1"
    "links (ft_home hash (ft_level t)) (max 4 (ft_level t)) 0 (- 1) body"
    "ft_num_slots_minus_one t = 2 ^ ft_level t - 1" "ft_max_lookups t = max 4 (ft_level t)"
    using ft_wf_body [OF assms(1) nonempty] by metis
  have holds: "distinct (map fst (ft_items t))" "ft_num_elements t = length (ft_items t)"
    "2 * ft_num_elements t \<le> 2 ^ ft_level t"
    using ft_wf_holds [OF assms(1)] by (simp_all add: ft_holds_def)
  obtain body' where body': "assign_from k v (body @ [special_end]) = body' @ [special_end]"
    "links (ft_home hash (ft_level t)) (max 4 (ft_level t)) 0 (- 1) body'" "length body' = length body"
    "elements body' = AList.update k v (elements body)"
    using assign_from_links [OF body(4), of k v] assms(2) body(2) by auto
  have "length (AList.update k v (elements body)) = length (elements body)"
    using assms(2) body(2) by (metis length_map set_map update_keys)
  then show "ft_wf hash (t\<lparr>ft_entries := assign_from k v (ft_entries t)\<rparr>)"
    by (intro ft_wfI [where body = body'])
      (use body body' holds ft_wf_sized [OF assms(1)] in \<open>simp_all add: distinct_update\<close>)
  show "ft_items (t\<lparr>ft_entries := assign_from k v (ft_entries t)\<rparr>) = AList.update k v (ft_items t)"
    using body body' by simp
qed

lemma ft_clear_wf:
  assumes "ft_wf hash t"
  shows "ft_wf hash (ft_clear t)" "ft_items (ft_clear t) = []"
proof -
  let ?clear = "\<lambda>e :: ('a, 'b) entry. if has_value e then empty_entry else e"
  have *: "map ?clear es = replicate (length es) empty_entry" if "links home m i p es" for home m i p es
    using that by (induction es arbitrary: i p) (auto simp: sound_def has_value_def)
  have "ft_wf hash (ft_clear t) \<and> ft_items (ft_clear t) = []"
  proof (cases "t = ft_empty")
    case True
    then have "ft_clear t = ft_empty"
      by (simp add: ft_clear_def ft_empty_def empty_default_table_def has_value_def)
    then show ?thesis by simp
  next
    case False
    obtain body where body: "ft_entries t = body @ [special_end]"
      "length body = 2 ^ ft_level t + max 4 (ft_level t) - 1"
      "links (ft_home hash (ft_level t)) (max 4 (ft_level t)) 0 (- 1) body"
      "ft_num_slots_minus_one t = 2 ^ ft_level t - 1" "ft_max_lookups t = max 4 (ft_level t)"
      using ft_wf_body [OF assms False] by metis
    have t: "ft_clear t = t\<lparr>ft_entries := replicate (length body) empty_entry @ [special_end], ft_num_elements := 0\<rparr>"
      using * [OF body(3)] by (simp add: ft_clear_def body(1))
    then have "ft_wf hash (ft_clear t)"
      by (intro ft_wfI [where body = "replicate (length body) empty_entry"])
        (use body ft_wf_sized [OF assms] in \<open>simp_all add: links_replicate_empty\<close>)
    then show ?thesis by (simp add: t ft_items_def)
  qed
  then show "ft_wf hash (ft_clear t)" "ft_items (ft_clear t) = []" by simp_all
qed

section \<open>The contract\<close>

locale partial_hash_map =
  fixes find :: "'m \<Rightarrow> 'k \<Rightarrow> 'v option"
    and emplace :: "'k \<Rightarrow> 'v \<Rightarrow> 'm \<Rightarrow> 'm option"
    and erase :: "'k \<Rightarrow> 'm \<Rightarrow> 'm"
    and entries :: "'m \<Rightarrow> ('k \<times> 'v) list"
    and wf :: "'m \<Rightarrow> bool"
    and bound :: nat
  assumes find_entries: "wf m \<Longrightarrow> find m k = map_of (entries m) k"
    and distinct_entries: "wf m \<Longrightarrow> distinct (map fst (entries m))"
    and emplace_entries: "wf m \<Longrightarrow> length (entries m) < bound \<Longrightarrow> emplace k v m = Some m' \<Longrightarrow>
      wf m' \<and> (if k \<in> fst ` set (entries m) then m' = m else mset (entries m') = add_mset (k, v) (mset (entries m)))"
    and erase_entries: "wf m \<Longrightarrow> wf (erase k m) \<and> entries (erase k m) = filter (\<lambda>kv. fst kv \<noteq> k) (entries m)"
begin

lemma map_of_perm:
  assumes "mset xs = mset ys" "distinct (map fst ys)"
  shows "map_of xs = map_of ys"
  using assms map_of_inject_set [of xs ys] mset_distinct_keys [of xs ys] mset_eq_setD by blast

lemma find_emplace:
  assumes "wf m" "length (entries m) < bound" "emplace k v m = Some m'"
  shows "find m' k' = (if k' = k then Some (case find m k of None \<Rightarrow> v | Some w \<Rightarrow> w) else find m k')"
proof -
  have wf': "wf m'" using emplace_entries [OF assms] by simp
  show ?thesis
  proof (cases "k \<in> fst ` set (entries m)")
    case True
    then obtain w where "find m k = Some w" using assms(1) find_entries by (metis map_of_eq_None_iff not_None_eq)
    then show ?thesis using True emplace_entries [OF assms] by auto
  next
    case False
    then have "mset ((k, v) # entries m) = mset (entries m')" "distinct (map fst (entries m'))"
      using emplace_entries [OF assms] distinct_entries by auto
    from map_of_perm [OF this] have "map_of (entries m') = (map_of (entries m))(k \<mapsto> v)" by simp
    moreover have "find m k = None" using False assms(1) by (simp add: find_entries map_of_eq_None_iff)
    ultimately show ?thesis using assms(1) wf' by (simp add: find_entries)
  qed
qed

lemma length_emplace:
  assumes "wf m" "length (entries m) < bound" "emplace k v m = Some m'"
  shows "length (entries m') = (if find m k = None then Suc (length (entries m)) else length (entries m))"
proof -
  have "find m k = None \<longleftrightarrow> k \<notin> fst ` set (entries m)"
    by (simp add: find_entries [OF assms(1)] map_of_eq_None_iff)
  then show ?thesis using emplace_entries [OF assms] mset_eq_length [of "entries m'" "(k, v) # entries m"] by auto
qed

lemma find_erase: "wf m \<Longrightarrow> find (erase k m) k' = (if k' = k then None else find m k')"
  using erase_entries [of m k] by (simp add: find_entries map_of_filter_key)

text \<open>A range of pairs is inserted with what the map has, and what comes first, taking precedence.\<close>

lemma insert_range:
  assumes "wf m" "length kvs + length (entries m) \<le> bound" "emplace_all emplace kvs m = Some m'"
  shows "wf m' \<and> find m' = map_of kvs ++ find m"
  using assms
proof (induction kvs arbitrary: m)
  case (Cons kv kvs)
  obtain m1 where m1: "emplace (fst kv) (snd kv) m = Some m1" "emplace_all emplace kvs m1 = Some m'"
    using Cons.prems(3) by (auto split: option.splits)
  have len: "length (entries m) < bound" using Cons.prems(2) by simp
  note emp = Cons.prems(1) len m1(1)
  have "wf m1" using emplace_entries [OF emp] by simp
  then have "wf m' \<and> find m' = map_of kvs ++ find m1"
    by (rule Cons.IH [OF _ _ m1(2)]) (use Cons.prems(2) length_emplace [OF emp] in auto)
  moreover have "find m1 = (\<lambda>k'. if k' = fst kv then Some (case find m k' of None \<Rightarrow> snd kv | Some w \<Rightarrow> w) else find m k')"
    using find_emplace [OF emp] by (auto simp: fun_eq_iff)
  ultimately show ?case by (auto simp: fun_eq_iff map_add_def split: option.splits)
qed simp

text \<open>Comparing the sizes and looking up every entry of one in the other decides equality.\<close>

lemma equal_entries:
  assumes "wf m" "wf n"
  shows "length (entries m) = length (entries n) \<and> list_all (\<lambda>kv. find n (fst kv) = Some (snd kv)) (entries m) \<longleftrightarrow>
    find m = find n"
proof -
  have d: "distinct (entries m)" "distinct (entries n)"
    using assms distinct_entries distinct_map by blast+
  have mem: "kv \<in> set (entries x) \<longleftrightarrow> find x (fst kv) = Some (snd kv)" if "wf x" for x kv
    using that distinct_entries find_entries by (metis map_of_eq_Some_iff prod.collapse)
  have "find m = find n \<longleftrightarrow> set (entries m) = set (entries n)"
    using find_entries [OF assms(1)] find_entries [OF assms(2)] map_of_inject_set distinct_entries assms
    by (metis ext)
  moreover have "length (entries m) = length (entries n) \<and> set (entries m) \<subseteq> set (entries n) \<longleftrightarrow>
      set (entries m) = set (entries n)"
    using d distinct_card card_subset_eq by (metis List.finite_set order_refl)
  ultimately show ?thesis using mem [OF assms(2)] by (auto simp: list_all_iff)
qed

end

interpretation ft: partial_hash_map "ft_find hash" "ft_emplace n hash" "ft_erase hash" ft_items "ft_wf hash" "2 ^ 52"
proof unfold_locales
  fix m :: "('a, 'b) FlatTable" and k v m'
  assume wf: "ft_wf hash m"
  show "ft_find hash m k = map_of (ft_items m) k" using wf by (rule ft_find_wf)
  show "distinct (map fst (ft_items m))" using ft_wf_holds [OF wf] by (simp add: ft_holds_def)
  show "ft_wf hash (ft_erase hash k m) \<and> ft_items (ft_erase hash k m) = filter (\<lambda>kv. fst kv \<noteq> k) (ft_items m)"
    using ft_erase_wf [OF wf] by simp
  assume "length (ft_items m) < 2 ^ 52" "ft_emplace n hash k v m = Some m'"
  then show "ft_wf hash m' \<and> (if k \<in> fst ` set (ft_items m) then m' = m
      else mset (ft_items m') = add_mset (k, v) (mset (ft_items m)))"
    using insertsD [OF ft_emplace_inserts wf] by (simp add: inserted_def)
qed

section \<open>Copying and comparing\<close>

lemma insert_items_into_empty:
  assumes "ft_wf hash other" "length (ft_items other) < 2 ^ 52" "ft_wf hash t" "ft_items t = []"
    and "Option.bind (rehash_for_other_container (ft_emplace n hash) other t)
      (emplace_all (ft_emplace n hash) (ft_items other)) = Some t'"
  shows "ft_wf hash t' \<and> mset (ft_items t') = mset (ft_items other)"
proof -
  obtain t1 where t1: "rehash_for_other_container (ft_emplace n hash) other t = Some t1"
    "emplace_all (ft_emplace n hash) (ft_items other) t1 = Some t'"
    using assms(5) by (auto simp: Option.bind_eq_Some_conv)
  have other: "ft_num_elements other = length (ft_items other)" "distinct (map fst (ft_items other))"
    using ft_wf_holds [OF assms(1)] by (simp_all add: ft_holds_def)
  have "num_buckets_for_reserve (ft_num_elements other) \<le> 2 ^ 63"
    using assms(2) other(1) by (simp add: num_buckets_for_reserve_def)
  then have "min (num_buckets_for_reserve (ft_num_elements other)) (bucket_count other) \<le> 2 ^ 63" by simp
  from rehash_items [OF ft_emplace_inserts assms(3) _ this t1(1) [unfolded rehash_for_other_container_def]]
  have "ft_wf hash t1" "ft_items t1 = []" using assms(4) by simp_all
  from emplace_all_items [OF ft_emplace_inserts this(1) other(2) _ _ t1(2)] this(2) assms(2)
  show ?thesis by simp
qed

lemma ft_equal_wf:
  assumes "ft_wf hash lhs" "ft_wf hash rhs"
  shows "ft_equal hash lhs rhs \<longleftrightarrow> ft_find hash lhs = ft_find hash rhs"
  using ft.equal_entries [OF assms] ft_wf_holds [OF assms(1)] ft_wf_holds [OF assms(2)]
  by (simp add: ft_equal_def ft_holds_def)

lemma same_items_equal:
  assumes "ft_wf hash t" "ft_wf hash other" "mset (ft_items t) = mset (ft_items other)"
  shows "ft_equal hash t other"
proof -
  have "map_of (ft_items t) = map_of (ft_items other)"
    using ft.map_of_perm [OF assms(3)] ft.distinct_entries [OF assms(2)] by blast
  then show ?thesis
    using ft_equal_wf [OF assms(1,2)] ft.find_entries [OF assms(1)] ft.find_entries [OF assms(2)]
    by (simp add: fun_eq_iff)
qed

end
