(* ===== verification/FlatTableTotal.thy ===== *)
theory FlatTableTotal
  imports FlatTableMap
begin

text \<open>
  Insertion returns when the hash spreads the keys: if there is a size at which no two of them ask for the same
  slot, no probe is displaced there, so the table stops growing at that size at the latest. Every growth goes up
  one level, so the levels bound the number of nested growths.
\<close>

definition spread :: "('k \<Rightarrow> 64 word) \<Rightarrow> nat \<Rightarrow> 'k set \<Rightarrow> bool" where
  \<comment> \<open>a table of \<open>2 ^ b\<close> buckets has a slot for each of the keys, and is at most half full of them\<close>
  "spread hash b K \<longleftrightarrow> finite K \<and> inj_on (ft_home hash b) K \<and> 2 * card K \<le> 2 ^ b"

lemma spread_Suc: "spread hash b K \<Longrightarrow> b < 64 \<Longrightarrow> spread hash (Suc b) K"
  using index_for_hash_Suc [of b] unfolding spread_def inj_on_def by (metis le_SucI mult_2 power_Suc trans_le_add1)

lemma spread_mono:
  assumes "spread hash b K" "b \<le> b'" "b' \<le> 64"
  shows "spread hash b' K"
  using assms(2,3)
proof (induction b' rule: dec_induct)
  case base
  from assms(1) show ?case .
next
  case (step c)
  then show ?case by (intro spread_Suc) auto
qed

lemma spread_subset: "spread hash b K \<Longrightarrow> L \<subseteq> K \<Longrightarrow> spread hash b L"
  unfolding spread_def by (meson card_mono finite_subset inj_on_subset le_trans mult_le_mono2)

text \<open>With distinct homes, every element is at home.\<close>

lemma links_at_home:
  assumes "links home m i p es" "inj_on home K" "fst ` set (elements es) \<subseteq> K" "distinct (map fst (elements es))"
    and "p = - 1 \<or> p = 0 \<and> (\<exists>k\<in>K. k \<notin> fst ` set (elements es) \<and> Suc (home k) = i)"
  shows "\<forall>e\<in>set es. distance_from_desired e \<le> 0"
  using assms(1,3-)
proof (induction es arbitrary: i p)
  case (Cons e es)
  have "sound home m i e" using Cons.prems(1) by simp
  then show ?case
  proof (cases rule: sound_cases)
    case 1
    then have "\<forall>e\<in>set es. distance_from_desired e \<le> 0"
      using Cons.prems by (intro Cons.IH [of "Suc i" "- 1"]) auto
    then show ?thesis using 1 by simp
  next
    case (2 d k v)
    have "d = 0"
    proof (rule ccontr)
      assume "d \<noteq> 0"
      then have "p = 0" "d = 1" using 2 Cons.prems(1,4) by auto
      then obtain k' where "k' \<in> K" "k' \<noteq> k" "Suc (home k') = i" using 2 Cons.prems(4) by auto
      moreover have "k \<in> K" using 2 Cons.prems(2) by simp
      ultimately show False using inj_onD [OF assms(2), of k k'] 2(4) \<open>d = 1\<close> by simp
    qed
    moreover have "\<forall>e\<in>set es. distance_from_desired e \<le> 0"
      using Cons.prems 2 \<open>d = 0\<close> by (intro Cons.IH [of "Suc i" 0]) (auto simp: image_iff)
    ultimately show ?thesis using 2 by simp
  qed
qed simp

text \<open>A table of that size takes a key without growing.\<close>

lemma ft_emplace_spread:
  assumes wf: "ft_wf hash t" "t \<noteq> ft_empty" and K: "spread hash (ft_level t) K" "insert k (fst ` set (ft_items t)) \<subseteq> K"
  shows "\<exists>t'. (\<forall>n. ft_emplace (Suc n) hash k v t = Some t') \<and> ft_level t' = ft_level t"
proof (cases rule: ft_emplace_cases [OF wf(1), of k v])
  case 3
  let ?home = "ft_home hash (ft_level t)"
  let ?i = "ft_index hash k t"
  have holds: "distinct (map fst (ft_items t))" "ft_num_elements t = length (ft_items t)"
    using ft_wf_holds [OF wf(1)] by (simp_all add: ft_holds_def)
  obtain front rear where at: "ft_entries t = front @ rear @ [special_end]" "ft_items t = elements front @ elements rear"
    "length front = ?i" "?i = ?home k" "links ?home (ft_max_lookups t) 0 (- 1) front"
    "links ?home (ft_max_lookups t) ?i (prev_distance (- 1) front) rear"
    "?i + ft_max_lookups t \<le> ?i + length rear" "ft_max_lookups t = max 4 (ft_level t)"
    "ft_num_slots_minus_one t = 2 ^ ft_level t - 1"
    by (rule ft_wf_at [OF wf, of k])
  have "links ?home (ft_max_lookups t) 0 (- 1) (front @ rear)" using at(3,5,6) by (simp add: links_append)
  from links_at_home [OF this, of K] have home: "\<forall>e\<in>set (front @ rear). distance_from_desired e \<le> 0"
    using K holds(1) at(2) by (auto simp: spread_def)
  obtain e rest where rear: "rear = e # rest" using at(7,8) by (cases rear) auto
  have e: "sound ?home (ft_max_lookups t) ?i e" "distance_from_desired e \<le> 0" using at(6) home rear by auto
  have "e = empty_entry" using e(1)
  proof (cases rule: sound_cases)
    case (2 d k' v')
    then have "?home k' = ?home k" using e(2) at(4) by simp
    moreover have "k' \<in> fst ` set (ft_items t)" using at(2) rear 2 by simp
    ultimately have "k \<in> fst ` set (ft_items t)" using K inj_onD [of ?home K k' k] by (auto simp: spread_def)
    then show ?thesis using 3 by simp
  qed simp
  moreover have "1 \<le> ft_level t" using ft_wf_sized [OF wf(1)] by (simp add: ft_sized_def)
  then have "\<not> (2 :: nat) ^ ft_level t \<le> 1" using less_exp [of "ft_level t"] by linarith
  then have "ft_num_slots_minus_one t \<noteq> 0" using at(9) by simp
  moreover have "2 * (ft_num_elements t + 1) \<le> ft_num_slots_minus_one t + 1"
  proof -
    have "card (insert k (fst ` set (ft_items t))) \<le> card K" using K by (intro card_mono) (auto simp: spread_def)
    moreover have "card (fst ` set (ft_items t)) = ft_num_elements t"
      using distinct_card [OF holds(1)] holds(2) by simp
    ultimately have "ft_num_elements t + 1 \<le> card K" using 3(1) by simp
    then show ?thesis using K(1) at(9) by (simp add: spread_def)
  qed
  ultimately have "ft_emplace (Suc n) hash k v t =
      Some (t\<lparr>ft_entries := front @ Entry 0 (Some (k, v)) # rest @ [special_end], ft_num_elements := ft_num_elements t + 1\<rparr>)" for n
    using at(1,3,8) rear by (simp add: emplace_new_key_def)
  then show ?thesis by (intro exI [of _ "t\<lparr>ft_entries := _, ft_num_elements := _\<rparr>"]) (auto simp del: ft_emplace.simps)
qed blast+

section \<open>Enough growths\<close>

lemma emplace_all_total:
  assumes ins: "inserts hash emp" and K: "finite K" "card K \<le> 2 ^ 52"
    and total: "\<And>t k v. ft_wf hash t \<Longrightarrow> L \<le> ft_level t \<Longrightarrow> insert k (fst ` set (ft_items t)) \<subseteq> K \<Longrightarrow>
      \<exists>t'. emp k v t = Some t' \<and> ft_level t \<le> ft_level t'"
    and t: "ft_wf hash t" "L \<le> ft_level t" "fst ` set (kvs @ ft_items t) \<subseteq> K" "distinct (map fst (kvs @ ft_items t))"
  shows "\<exists>t'. emplace_all emp kvs t = Some t' \<and> ft_level t \<le> ft_level t'"
  using t
proof (induction kvs arbitrary: t)
  case (Cons kv kvs)
  obtain t1 where t1: "emp (fst kv) (snd kv) t = Some t1" "ft_level t \<le> ft_level t1"
    using total [of t "fst kv" "snd kv"] Cons.prems by auto
  have "card (fst ` set ((kv # kvs) @ ft_items t)) \<le> 2 ^ 52"
    using Cons.prems(3) K by (meson card_mono le_trans)
  moreover have "card (fst ` set ((kv # kvs) @ ft_items t)) = length ((kv # kvs) @ ft_items t)"
    using distinct_card [OF Cons.prems(4)] by (simp only: set_map length_map)
  ultimately have "length ((kv # kvs) @ ft_items t) \<le> 2 ^ 52" by (simp only:)
  then have "length (ft_items t) < 2 ^ 52" by simp
  from insertsD [OF ins Cons.prems(1) this t1(1)]
  have "ft_wf hash t1" "mset (ft_items t1) = mset (kv # ft_items t)"
    using Cons.prems(4) by (auto simp: inserted_def)
  moreover then have "mset (kvs @ ft_items t1) = mset ((kv # kvs) @ ft_items t)" by simp
  then have "set (kvs @ ft_items t1) = set ((kv # kvs) @ ft_items t)"
    "distinct (map fst (kvs @ ft_items t1)) = distinct (map fst ((kv # kvs) @ ft_items t))"
    by (rule mset_eq_setD, rule mset_distinct_keys)
  ultimately have "\<exists>t'. emplace_all emp kvs t1 = Some t' \<and> ft_level t1 \<le> ft_level t'"
    using Cons.prems t1(2) by (intro Cons.IH) auto
  then show ?case using t1 by auto
qed simp

lemma ft_emplace_total:
  fixes t :: "('k, 'v) FlatTable"
  assumes K: "spread hash B K" "2 \<le> B" "B \<le> 62" "card K \<le> 2 ^ 52"
    and "ft_wf hash t" "insert k (fst ` set (ft_items t)) \<subseteq> K" "B \<le> ft_level t + n"
  shows "\<exists>t'. ft_emplace (Suc n) hash k v t = Some t' \<and> ft_level t \<le> ft_level t'"
  using assms(5-)
proof (induction n arbitrary: t k v)
  case 0
  have "ft_level t \<le> 63" using ft_wf_sized [OF 0(1)] by (simp add: ft_sized_def)
  then have "spread hash (ft_level t) K" using spread_mono [OF K(1)] 0(3) by simp
  moreover have "t \<noteq> ft_empty" using 0(3) K(2) by (auto simp: ft_level_def ft_empty_def)
  ultimately show ?case using ft_emplace_spread [OF 0(1) _ _ 0(2), of v] by (metis order_refl)
next
  case (Suc n)
  show ?case
  proof (cases "B \<le> ft_level t")
    case True
    then have "t \<noteq> ft_empty" using K(2) by (auto simp: ft_level_def ft_empty_def)
    moreover have "ft_level t \<le> 63" using ft_wf_sized [OF Suc.prems(1)] by (simp add: ft_sized_def)
    then have "spread hash (ft_level t) K" using spread_mono [OF K(1) True] by simp
    ultimately show ?thesis using ft_emplace_spread [OF Suc.prems(1) _ _ Suc.prems(2), of v] by (metis order_refl)
  next
    case False
    show ?thesis
    proof (cases rule: ft_emplace_cases [OF Suc.prems(1), of k v])
      case (3 t1)
      have small: "length (ft_items t) < 2 ^ 52"
      proof -
        have "Suc (length (ft_items t)) = card (insert k (fst ` set (ft_items t)))"
          using 3(1) ft_wf_holds [OF Suc.prems(1)] distinct_card [of "map fst (ft_items t)"] by (simp add: ft_holds_def)
        also have "\<dots> \<le> card K" using K(1) Suc.prems(2) by (intro card_mono) (simp_all add: spread_def)
        finally show ?thesis using K(4) by simp
      qed
      have len: "length (ft_items t1) = length (ft_items t)" and keys: "set (ft_items t1) = set (ft_items t)"
        using mset_eq_length [OF 3(5)] mset_eq_setD [OF 3(5)] by auto
      have n: "ft_num_elements t1 = length (ft_items t1)" "2 * ft_num_elements t1 \<le> 2 ^ ft_level t1"
        and d: "distinct (map fst (ft_items t1))"
        using 3(4) by (simp_all add: ft_holds_def)
      have "ft_num_elements t1 < 2 ^ 52" using small n(1) len by simp
      from grow_fresh [OF 3(3) n(2) this] obtain c where c: "2 \<le> c" "c \<le> 63" "ft_level t1 < 63 \<longrightarrow> c = Suc (ft_level t1)"
        "grow (ft_emplace (Suc n) hash) t1 = emplace_all (ft_emplace (Suc n) hash) (ft_items t1) (fresh_table (2 ^ c) (64 - c))"
        by metis
      have level: "c = Suc (ft_level t)" using c(3) 3(6) False K(3) by simp
      have fuel: "B \<le> c + n" using Suc.prems(3) level by simp
      have total: "\<exists>t'. ft_emplace (Suc n) hash k v t = Some t' \<and> ft_level t \<le> ft_level t'"
        if "ft_wf hash t" "c \<le> ft_level t" "insert k (fst ` set (ft_items t)) \<subseteq> K"
        for t :: "('k, 'v) FlatTable" and k v
        using that fuel by (intro Suc.IH) auto
      have c1: "1 \<le> c" using c(1) by simp
      have "\<exists>t2. emplace_all (ft_emplace (Suc n) hash) (ft_items t1) (fresh_table (2 ^ c) (64 - c)) = Some t2 \<and>
          ft_level (fresh_table (2 ^ c) (64 - c) :: ('k, 'v) FlatTable) \<le> ft_level t2"
        by (rule emplace_all_total [OF ft_emplace_inserts _ K(4) total fresh_table_wf [OF c1 c(2)]])
          (use K(1) d keys Suc.prems(2) in \<open>auto simp: spread_def fresh_table_entries(2) [OF c1 c(2)]\<close>)
      then obtain t2 where t2: "grow (ft_emplace (Suc n) hash) t1 = Some t2" "c \<le> ft_level t2"
        using c(4) by (auto simp: fresh_table_entries(2) [OF c1 c(2)] simp del: ft_emplace.simps)
      have "length (ft_items t1) < 2 ^ 52" using small len by simp
      from grow_items [OF ft_emplace_inserts 3(3,4) this t2(1)]
      have "ft_wf hash t2" "set (ft_items t2) = set (ft_items t)" using keys mset_eq_setD by (metis, metis)
      with total [of t2 k v] t2(2) Suc.prems(2)
      obtain t' where "ft_emplace (Suc n) hash k v t2 = Some t'" "ft_level t2 \<le> ft_level t'" by auto
      then show ?thesis using 3(2) [of "Suc n"] t2 level by (intro exI [of _ t']) simp
    qed auto
  qed
qed

text \<open>62 levels suffice for any table.\<close>

corollary ft_emplace_62:
  assumes "spread hash B K" "2 \<le> B" "B \<le> 62" "card K \<le> 2 ^ 52" "ft_wf hash t"
    and "insert k (fst ` set (ft_items t)) \<subseteq> K"
  shows "\<exists>t'. ft_emplace 62 hash k v t = Some t'"
proof -
  have "1 \<le> ft_level t" using ft_wf_sized [OF assms(5)] by (simp add: ft_sized_def)
  then have "B \<le> ft_level t + 61" using assms(3) by simp
  from ft_emplace_total [OF assms this, of v] show ?thesis by (simp only: Suc_numeral) auto
qed

end
