(* ===== verification/FlatTableRun.thy ===== *)
theory FlatTableRun
  imports FlatTableTotal
begin

text \<open>
  Runs of the operations the program uses: the hash table implements the association list that the other theories
  take for a hash map, and with a hash that spreads the keys every run returns.
\<close>

datatype ('k, 'v) map_op = Put 'k 'v | Emplace 'k 'v | Erase 'k | Clear

fun ft_step ::
  "nat \<Rightarrow> ('k \<Rightarrow> 64 word) \<Rightarrow> 'v \<Rightarrow> ('k, 'v) map_op \<Rightarrow> ('k, 'v) FlatTable \<Rightarrow> ('k, 'v) FlatTable option" where
  "ft_step n hash d (Put k v) t = ft_assign n hash d k v t"
| "ft_step n hash d (Emplace k v) t = ft_emplace n hash k v t"
| "ft_step n hash d (Erase k) t = Some (ft_erase hash k t)"
| "ft_step n hash d Clear t = Some (ft_clear t)"

fun ft_run ::
  "nat \<Rightarrow> ('k \<Rightarrow> 64 word) \<Rightarrow> 'v \<Rightarrow> ('k, 'v) map_op list \<Rightarrow> ('k, 'v) FlatTable \<Rightarrow> ('k, 'v) FlatTable option" where
  "ft_run n hash d [] t = Some t"
| "ft_run n hash d (op # ops) t = Option.bind (ft_step n hash d op t) (ft_run n hash d ops)"

fun hm_step :: "('k, 'v) map_op \<Rightarrow> ('k, 'v) hmap \<Rightarrow> ('k, 'v) hmap" where
  "hm_step (Put k v) m = hm_put k v m"
| "hm_step (Emplace k v) m = hm_emplace k v m"
| "hm_step (Erase k) m = hm_erase k m"
| "hm_step Clear m = hm_empty"

definition hm_run :: "('k, 'v) map_op list \<Rightarrow> ('k, 'v) hmap \<Rightarrow> ('k, 'v) hmap" where
  "hm_run = fold hm_step"

fun op_keys :: "('k, 'v) map_op \<Rightarrow> 'k set" where
  "op_keys (Put k v) = {k}"
| "op_keys (Emplace k v) = {k}"
| "op_keys (Erase k) = {}"
| "op_keys Clear = {}"

section \<open>One operation\<close>

lemma ft_assign_correct:
  assumes "ft_wf hash t" "length (ft_items t) < 2 ^ 52" "ft_assign n hash d k v t = Some t'"
  shows "ft_wf hash t' \<and> length (ft_items t') \<le> Suc (length (ft_items t)) \<and>
    ft_find hash t' k' = (if k' = k then Some v else ft_find hash t k')"
proof -
  obtain t1 where t1: "ft_emplace n hash k d t = Some t1"
    "t' = t1\<lparr>ft_entries := assign_from k v (ft_entries t1)\<rparr>"
    using assms(3) by (auto simp: ft_assign_def)
  note emp = assms(1,2) t1(1)
  have wf1: "ft_wf hash t1" using ft.emplace_entries [OF emp] by simp
  have "ft_find hash t1 k \<noteq> None" using ft.find_emplace [OF emp] by simp
  then have k: "k \<in> fst ` set (ft_items t1)" by (simp add: ft.find_entries [OF wf1] map_of_eq_None_iff)
  note assigned = assign_wf [OF wf1 k, of v]
  have "length (AList.update k v (ft_items t1)) = length (ft_items t1)"
    using k by (metis length_map set_map update_keys)
  moreover have "length (ft_items t1) \<le> Suc (length (ft_items t))" using ft.length_emplace [OF emp] by simp
  ultimately have "length (ft_items t') \<le> Suc (length (ft_items t))" using assigned(2) t1(2) by simp
  moreover have "ft_find hash t' k' = (if k' = k then Some v else ft_find hash t1 k')"
    unfolding t1(2) ft.find_entries [OF assigned(1)] assigned(2) by (simp add: update_conv' ft.find_entries [OF wf1])
  ultimately show ?thesis using assigned(1) t1(2) ft.find_emplace [OF emp, of k'] by simp
qed

lemma ft_step_refines:
  assumes "ft_wf hash t" "length (ft_items t) < 2 ^ 52" "ft_step n hash d op t = Some t'"
    and "ft_find hash t = hm_find m"
  shows "ft_wf hash t' \<and> length (ft_items t') \<le> Suc (length (ft_items t)) \<and> ft_find hash t' = hm_find (hm_step op m)"
proof (cases op)
  case (Put k v)
  then show ?thesis using ft_assign_correct [OF assms(1,2)] assms(3,4) by (auto simp: fun_eq_iff)
next
  case (Emplace k v)
  then have emp: "ft_emplace n hash k v t = Some t'" using assms(3) by simp
  note step = assms(1,2) emp
  show ?thesis
    using ft.emplace_entries [OF step] ft.length_emplace [OF step] ft.find_emplace [OF step] assms(4) Emplace
    by (auto simp: fun_eq_iff hm_find_emplace)
next
  case (Erase k)
  then show ?thesis
    using ft.erase_entries [OF assms(1), of k] ft.find_erase [OF assms(1)] assms(3,4)
    by (auto simp: fun_eq_iff intro: le_SucI)
next
  case Clear
  have "ft_find hash (ft_clear t) = hm_find hm_empty"
    by (simp add: fun_eq_iff ft.find_entries [OF ft_clear_wf(1) [OF assms(1)]] ft_clear_wf(2) [OF assms(1)])
  then show ?thesis using Clear ft_clear_wf [OF assms(1)] assms(3) by auto
qed

section \<open>Runs\<close>

lemma ft_run_refines:
  assumes "ft_wf hash t" "length (ft_items t) + length ops \<le> 2 ^ 52" "ft_run n hash d ops t = Some t'"
    and "ft_find hash t = hm_find m"
  shows "ft_wf hash t' \<and> ft_find hash t' = hm_find (hm_run ops m)"
  using assms
proof (induction ops arbitrary: t m)
  case Nil
  then show ?case by (simp add: hm_run_def)
next
  case (Cons op ops)
  obtain t1 where t1: "ft_step n hash d op t = Some t1" "ft_run n hash d ops t1 = Some t'"
    using Cons.prems(3) by (auto simp: Option.bind_eq_Some_conv)
  have "length (ft_items t) < 2 ^ 52" using Cons.prems(2) by simp
  note step = ft_step_refines [OF Cons.prems(1) this t1(1) Cons.prems(4)]
  then have "ft_wf hash t' \<and> ft_find hash t' = hm_find (hm_run ops (hm_step op m))"
    by (intro Cons.IH [OF _ _ t1(2)]) (use Cons.prems(2) in auto)
  then show ?case by (simp add: hm_run_def)
qed

lemma hm_run_wf: "hm_wf m \<Longrightarrow> hm_wf (hm_run ops m)"
proof (induction ops arbitrary: m)
  case (Cons op ops)
  then show ?case by (cases op) (simp_all add: hm_run_def)
qed (simp add: hm_run_def)

lemma hm_step_dom: "dom (hm_find (hm_step op m)) \<subseteq> dom (hm_find m) \<union> op_keys op"
  by (cases op) (auto simp: hm_find_emplace split: if_splits)

text \<open>Two lists without repeated keys that find the same are permutations of each other.\<close>

lemma items_perm:
  assumes "ft_wf hash t" "hm_wf m" "ft_find hash t = hm_find m"
  shows "mset (ft_items t) = mset m"
proof -
  have "set (ft_items t) = set m"
    using ft.find_entries [OF assms(1)] ft.distinct_entries [OF assms(1)] assms(2,3)
    by (intro map_of_inject_set [THEN iffD1]) (auto simp: hm_wf_def hm_find_def fun_eq_iff)
  moreover have "distinct (ft_items t)" "distinct m"
    using ft.distinct_entries [OF assms(1)] assms(2) by (auto simp: hm_wf_def distinct_map)
  ultimately show ?thesis by (simp add: set_eq_iff_mset_eq_distinct)
qed

lemma ft_run_total:
  assumes "spread hash B K" "2 \<le> B" "B \<le> 62" "card K \<le> 2 ^ 52" "\<Union> (op_keys ` set ops) \<subseteq> K"
    and "ft_wf hash t" "fst ` set (ft_items t) \<subseteq> K" "length (ft_items t) + length ops \<le> 2 ^ 52"
  shows "\<exists>t'. ft_run 62 hash d ops t = Some t'"
  using assms(5-)
proof (induction ops arbitrary: t)
  case (Cons op ops)
  note emp = ft_emplace_62 [OF assms(1-4) Cons.prems(2)]
  have "\<exists>t1. ft_step 62 hash d op t = Some t1"
    using emp [where k = "case op of Put k v \<Rightarrow> k | Emplace k v \<Rightarrow> k"] Cons.prems(1,3)
    by (cases op) (auto simp: ft_assign_def)
  then obtain t1 where t1: "ft_step 62 hash d op t = Some t1" by blast
  have len: "length (ft_items t) < 2 ^ 52" using Cons.prems(4) by simp
  define m where "m = ft_items t"
  have find: "ft_find hash t = hm_find m"
    using ft.find_entries [OF Cons.prems(2)] by (auto simp: m_def hm_find_def fun_eq_iff)
  note step = ft_step_refines [OF Cons.prems(2) len t1 find]
  have "dom (ft_find hash t1) \<subseteq> K"
  proof -
    have "dom (hm_find m) \<subseteq> K" using Cons.prems(3)
      unfolding m_def hm_find_def by (simp add: dom_map_of_conv_image_fst)
    moreover have "op_keys op \<subseteq> K" using Cons.prems(1) by auto
    ultimately have "dom (hm_find (hm_step op m)) \<subseteq> K" using hm_step_dom [of op m] by blast
    then show ?thesis using step by simp
  qed
  moreover have "dom (ft_find hash t1) = fst ` set (ft_items t1)"
    using step ft.find_entries [of hash t1] by (simp add: dom_map_of_conv_image_fst [symmetric] dom_def)
  ultimately have "fst ` set (ft_items t1) \<subseteq> K" by simp
  then show ?case using Cons step t1 by auto
qed simp

end
