(* ===== verification/HashPolicy.thy ===== *)
theory HashPolicy
  imports FlatBits
begin

text \<open>
  The policies that choose the size of the table and the slot of a hash: the default one
  (\<open>fibonacci_hash_policy\<close>), \<open>power_of_two_hash_policy\<close> and \<open>prime_number_hash_policy\<close>. They share a
  contract, the locale \<open>hash_policy\<close>: the size is large enough, every hash has a slot in it, and a table without
  buckets is only probed in its empty entries.
\<close>

unbundle bit_operations_syntax

section \<open>The policies\<close>

definition fib_next_size_over :: "nat \<Rightarrow> nat \<times> nat" where
  "fib_next_size_over sz = next_size_over sz"

definition fib_commit :: "nat \<Rightarrow> nat \<Rightarrow> nat" where
  "fib_commit new_shift shift = new_shift"

definition fib_reset :: "nat \<Rightarrow> nat" where
  "fib_reset shift = 63"

definition fib_index :: "nat \<Rightarrow> 64 word \<Rightarrow> nat \<Rightarrow> nat" where
  "fib_index shift hash num_slots_minus_one = index_for_hash shift hash"

definition mask_index :: "nat \<Rightarrow> nat \<Rightarrow> nat" where
  \<comment> \<open>\<open>keep_in_range\<close> of the Fibonacci and of the power-of-two policy\<close>
  "mask_index index num_slots_minus_one = index AND num_slots_minus_one"

definition p2_index :: "64 word \<Rightarrow> nat \<Rightarrow> nat" where
  "p2_index hash num_slots_minus_one = mask_index (unat hash) num_slots_minus_one"

definition p2_next_size_over :: "nat \<Rightarrow> nat \<times> int" where
  "p2_next_size_over sz = (unat (next_power_of_two (of_nat sz)), 0)"

definition prime_list :: "nat list" where
  "prime_list = [
     2, 3, 5, 7, 11, 13, 17, 23, 29, 37, 47, 59, 73, 97, 127, 151, 197, 251, 313, 397, 499, 631, 797, 1009, 1259,
     1597, 2011, 2539, 3203, 4027, 5087, 6421, 8089, 10193, 12853, 16193, 20399, 25717, 32401, 40823, 51437, 64811,
     81649, 102877, 129607, 163307, 205759, 259229, 326617, 411527, 518509, 653267, 823117, 1037059, 1306601,
     1646237, 2074129, 2613229, 3292489, 4148279, 5226491, 6584983, 8296553, 10453007, 13169977, 16593127, 20906033,
     26339969, 33186281, 41812097, 52679969, 66372617, 83624237, 105359939, 132745199, 167248483, 210719881,
     265490441, 334496971, 421439783, 530980861, 668993977, 842879579, 1061961721, 1337987929, 1685759167,
     2123923447, 2675975881, 3371518343, 4247846927, 5351951779, 6743036717, 8495693897, 10703903591, 13486073473,
     16991387857, 21407807219, 26972146961, 33982775741, 42815614441, 53944293929, 67965551447, 85631228929,
     107888587883, 135931102921, 171262457903, 215777175787, 271862205833, 342524915839, 431554351609, 543724411781,
     685049831731, 863108703229, 1087448823553, 1370099663459, 1726217406467, 2174897647073, 2740199326961,
     3452434812973, 4349795294267, 5480398654009, 6904869625999, 8699590588571, 10960797308051, 13809739252051,
     17399181177241, 21921594616111, 27619478504183, 34798362354533, 43843189232363, 55238957008387, 69596724709081,
     87686378464759, 110477914016779, 139193449418173, 175372756929481, 220955828033581, 278386898836457,
     350745513859007, 441911656067171, 556773797672909, 701491027718027, 883823312134381, 1113547595345903,
     1402982055436147, 1767646624268779, 2227095190691797, 2805964110872297, 3535293248537579, 4454190381383713,
     5611928221744609, 7070586497075177, 8908380762767489, 11223856443489329, 14141172994150357, 17816761525534927,
     22447712886978529, 28282345988300791, 35633523051069991, 44895425773957261, 56564691976601587,
     71267046102139967, 89790851547914507, 113129383953203213, 142534092204280003, 179581703095829107,
     226258767906406483, 285068184408560057, 359163406191658253, 452517535812813007, 570136368817120201,
     718326812383316683, 905035071625626043, 1140272737634240411, 1436653624766633509, 1810070143251252131,
     2280545475268481167, 2873307249533267101, 3620140286502504283, 4561090950536962147, 5746614499066534157,
     7240280573005008577, 9122181901073924329, 11493228998133068689, 14480561146010017169, 18446744073709551557]"

definition mod0 :: "nat \<Rightarrow> nat" where
  "mod0 hash = 0"

definition mod_p :: "nat \<Rightarrow> nat \<Rightarrow> nat" where
  \<comment> \<open>\<open>mod2\<close>, \<open>mod3\<close> and so on: one function for each prime, with the prime as a literal\<close>
  "mod_p p hash = hash mod p"

definition mod_functions :: "(nat \<Rightarrow> nat) list" where
  "mod_functions = [
     mod0, mod_p 2, mod_p 3, mod_p 5, mod_p 7, mod_p 11, mod_p 13, mod_p 17, mod_p 23, mod_p 29, mod_p 37, mod_p 47,
     mod_p 59, mod_p 73, mod_p 97, mod_p 127, mod_p 151, mod_p 197, mod_p 251, mod_p 313, mod_p 397, mod_p 499,
     mod_p 631, mod_p 797, mod_p 1009, mod_p 1259, mod_p 1597, mod_p 2011, mod_p 2539, mod_p 3203, mod_p 4027,
     mod_p 5087, mod_p 6421, mod_p 8089, mod_p 10193, mod_p 12853, mod_p 16193, mod_p 20399, mod_p 25717,
     mod_p 32401, mod_p 40823, mod_p 51437, mod_p 64811, mod_p 81649, mod_p 102877, mod_p 129607, mod_p 163307,
     mod_p 205759, mod_p 259229, mod_p 326617, mod_p 411527, mod_p 518509, mod_p 653267, mod_p 823117, mod_p 1037059,
     mod_p 1306601, mod_p 1646237, mod_p 2074129, mod_p 2613229, mod_p 3292489, mod_p 4148279, mod_p 5226491,
     mod_p 6584983, mod_p 8296553, mod_p 10453007, mod_p 13169977, mod_p 16593127, mod_p 20906033, mod_p 26339969,
     mod_p 33186281, mod_p 41812097, mod_p 52679969, mod_p 66372617, mod_p 83624237, mod_p 105359939,
     mod_p 132745199, mod_p 167248483, mod_p 210719881, mod_p 265490441, mod_p 334496971, mod_p 421439783,
     mod_p 530980861, mod_p 668993977, mod_p 842879579, mod_p 1061961721, mod_p 1337987929, mod_p 1685759167,
     mod_p 2123923447, mod_p 2675975881, mod_p 3371518343, mod_p 4247846927, mod_p 5351951779, mod_p 6743036717,
     mod_p 8495693897, mod_p 10703903591, mod_p 13486073473, mod_p 16991387857, mod_p 21407807219, mod_p 26972146961,
     mod_p 33982775741, mod_p 42815614441, mod_p 53944293929, mod_p 67965551447, mod_p 85631228929,
     mod_p 107888587883, mod_p 135931102921, mod_p 171262457903, mod_p 215777175787, mod_p 271862205833,
     mod_p 342524915839, mod_p 431554351609, mod_p 543724411781, mod_p 685049831731, mod_p 863108703229,
     mod_p 1087448823553, mod_p 1370099663459, mod_p 1726217406467, mod_p 2174897647073, mod_p 2740199326961,
     mod_p 3452434812973, mod_p 4349795294267, mod_p 5480398654009, mod_p 6904869625999, mod_p 8699590588571,
     mod_p 10960797308051, mod_p 13809739252051, mod_p 17399181177241, mod_p 21921594616111, mod_p 27619478504183,
     mod_p 34798362354533, mod_p 43843189232363, mod_p 55238957008387, mod_p 69596724709081, mod_p 87686378464759,
     mod_p 110477914016779, mod_p 139193449418173, mod_p 175372756929481, mod_p 220955828033581,
     mod_p 278386898836457, mod_p 350745513859007, mod_p 441911656067171, mod_p 556773797672909,
     mod_p 701491027718027, mod_p 883823312134381, mod_p 1113547595345903, mod_p 1402982055436147,
     mod_p 1767646624268779, mod_p 2227095190691797, mod_p 2805964110872297, mod_p 3535293248537579,
     mod_p 4454190381383713, mod_p 5611928221744609, mod_p 7070586497075177, mod_p 8908380762767489,
     mod_p 11223856443489329, mod_p 14141172994150357, mod_p 17816761525534927, mod_p 22447712886978529,
     mod_p 28282345988300791, mod_p 35633523051069991, mod_p 44895425773957261, mod_p 56564691976601587,
     mod_p 71267046102139967, mod_p 89790851547914507, mod_p 113129383953203213, mod_p 142534092204280003,
     mod_p 179581703095829107, mod_p 226258767906406483, mod_p 285068184408560057, mod_p 359163406191658253,
     mod_p 452517535812813007, mod_p 570136368817120201, mod_p 718326812383316683, mod_p 905035071625626043,
     mod_p 1140272737634240411, mod_p 1436653624766633509, mod_p 1810070143251252131, mod_p 2280545475268481167,
     mod_p 2873307249533267101, mod_p 3620140286502504283, mod_p 4561090950536962147, mod_p 5746614499066534157,
     mod_p 7240280573005008577, mod_p 9122181901073924329, mod_p 11493228998133068689, mod_p 14480561146010017169,
     mod_p 18446744073709551557]"

definition prime_next_size_over :: "nat \<Rightarrow> nat \<times> (nat \<Rightarrow> nat)" where
  \<comment> \<open>\<open>std::lower_bound\<close> over all primes but the last\<close>
  "prime_next_size_over sz =
     (let found = length (takeWhile (\<lambda>p. p < sz) (butlast prime_list))
      in (prime_list ! found, mod_functions ! (1 + found)))"

definition prime_commit :: "(nat \<Rightarrow> nat) \<Rightarrow> (nat \<Rightarrow> nat) \<Rightarrow> nat \<Rightarrow> nat" where
  "prime_commit new_mod_function current_mod_function = new_mod_function"

definition prime_reset :: "(nat \<Rightarrow> nat) \<Rightarrow> nat \<Rightarrow> nat" where
  "prime_reset current_mod_function = mod_functions ! 0"

definition prime_index :: "(nat \<Rightarrow> nat) \<Rightarrow> 64 word \<Rightarrow> nat \<Rightarrow> nat" where
  "prime_index current_mod_function hash num_slots_minus_one = current_mod_function (unat hash)"

definition prime_keep_in_range :: "(nat \<Rightarrow> nat) \<Rightarrow> nat \<Rightarrow> nat \<Rightarrow> nat" where
  "prime_keep_in_range current_mod_function index num_slots_minus_one =
     (if index > num_slots_minus_one then current_mod_function index else index)"

section \<open>The tables of the prime policy\<close>

text \<open>The two tables of the source line up: function \<open>i + 1\<close> is the remainder by prime \<open>i\<close>.\<close>

lemma mod_functions_prime_list: "mod_functions = mod0 # map mod_p prime_list"
  by (simp add: mod_functions_def prime_list_def)

lemma prime_list_pos: "\<forall>p\<in>set prime_list. 0 < p"
  by (simp add: prime_list_def)

lemma prime_list_ends: "prime_list \<noteq> []" "last prime_list = 18446744073709551557"
  by (simp_all add: prime_list_def)

lemma prime_list_sorted: "sorted prime_list"
  unfolding prime_list_def by (simp only: sorted2 sorted1) simp

lemma prime_found:
  obtains i where "i < length prime_list" "prime_next_size_over n = (prime_list ! i, mod_p (prime_list ! i))"
    "n \<le> 18446744073709551557 \<Longrightarrow> n \<le> prime_list ! i" "\<And>j. j < i \<Longrightarrow> prime_list ! j < n"
proof -
  let ?i = "length (takeWhile (\<lambda>p. p < n) (butlast prime_list))"
  have le: "?i \<le> length prime_list - 1" using length_takeWhile_le [of _ "butlast prime_list"] by simp
  then have i: "?i < length prime_list" using prime_list_ends(1) by (simp only: length_greater_0_conv [symmetric])
  have "prime_next_size_over n = (prime_list ! ?i, mod_p (prime_list ! ?i))"
    using i by (simp add: prime_next_size_over_def mod_functions_prime_list Let_def)
  moreover have "n \<le> prime_list ! ?i" if "n \<le> 18446744073709551557"
  proof (cases "?i < length (butlast prime_list)")
    case True
    then show ?thesis using nth_length_takeWhile [OF True] by (simp add: nth_butlast)
  next
    case False
    then have "?i = length prime_list - 1" using le by simp
    then show ?thesis using that prime_list_ends by (simp add: last_conv_nth)
  qed
  moreover have "prime_list ! j < n" if "j < ?i" for j
    using that le nth_mem [of j "takeWhile (\<lambda>p. p < n) (butlast prime_list)"]
    by (auto dest: set_takeWhileD simp: takeWhile_nth nth_butlast)
  ultimately show thesis using that i by blast
qed

lemma prime_least:
  assumes "n \<le> 18446744073709551557"
  shows "(LEAST p. p \<in> set prime_list \<and> n \<le> p) = fst (prime_next_size_over n)"
proof -
  obtain i where i: "i < length prime_list" "fst (prime_next_size_over n) = prime_list ! i" "n \<le> prime_list ! i"
    "\<And>j. j < i \<Longrightarrow> prime_list ! j < n"
    using prime_found assms by (metis fst_conv)
  have "prime_list ! i \<le> p" if "p \<in> set prime_list" "n \<le> p" for p
  proof -
    obtain j where "j < length prime_list" "p = prime_list ! j" using \<open>p \<in> set prime_list\<close> by (metis in_set_conv_nth)
    then show ?thesis using i(4) [of j] \<open>n \<le> p\<close> sorted_nth_mono [OF prime_list_sorted, of i j] by fastforce
  qed
  then show ?thesis using i by (intro Least_equality) auto
qed

section \<open>The contract\<close>

locale hash_policy =
  fixes next_size :: "nat \<Rightarrow> nat \<times> 'i"
    and commit :: "'i \<Rightarrow> 'p \<Rightarrow> 'p"
    and reset :: "'p \<Rightarrow> 'p"
    and index :: "'p \<Rightarrow> 64 word \<Rightarrow> nat \<Rightarrow> nat"
    and keep :: "'p \<Rightarrow> nat \<Rightarrow> nat \<Rightarrow> nat"
    and bound :: nat
  assumes size_fits: "1 \<le> n \<Longrightarrow> n \<le> bound \<Longrightarrow> n \<le> fst (next_size n)"
    and index_fits: "1 \<le> n \<Longrightarrow> n \<le> bound \<Longrightarrow>
      index (commit (snd (next_size n)) p) h (fst (next_size n) - 1) < fst (next_size n)"
    and keep_fits: "1 \<le> n \<Longrightarrow> n \<le> bound \<Longrightarrow>
      keep (commit (snd (next_size n)) p) i (fst (next_size n) - 1) < fst (next_size n)"
    and empty_fits: "index (reset p) h 0 < min_lookups - 1"
begin

text \<open>A probe of at most \<open>m\<close> entries stays in the array of \<open>size + m\<close> entries.\<close>

lemma probe_fits:
  assumes "1 \<le> n" "n \<le> bound" "d < m"
  shows "index (commit (snd (next_size n)) p) h (fst (next_size n) - 1) + d < fst (next_size n) + m - 1"
  using index_fits [OF assms(1,2), of p h] assms(3) by linarith

end

lemma mask_index_le: "mask_index i n \<le> n"
proof -
  have "int (i AND n) \<le> int n" by (simp add: of_nat_and_eq AND_upper2)
  then show ?thesis by (simp add: mask_index_def)
qed

lemma mask_index_less: "0 < s \<Longrightarrow> mask_index i (s - 1) < s"
  using mask_index_le [of i "s - 1"] by linarith

lemma fib_level:
  assumes "1 \<le> n" "n \<le> 2 ^ 63"
  obtains b where "1 \<le> b" "b \<le> 63" "fib_next_size_over n = (2 ^ b, 64 - b)" "n \<le> 2 ^ b"
  using next_size_over_level [OF assms] by (metis fib_next_size_over_def)

interpretation fib: hash_policy fib_next_size_over fib_commit fib_reset fib_index "\<lambda>_. mask_index" "2 ^ 63"
proof unfold_locales
  fix n p h i
  assume n: "1 \<le> n" "n \<le> (2 ^ 63 :: nat)"
  obtain b where b: "b \<le> 63" "fib_next_size_over n = (2 ^ b, 64 - b)" "n \<le> 2 ^ b" by (rule fib_level [OF n])
  then show "n \<le> fst (fib_next_size_over n)" by simp
  show "fib_index (fib_commit (snd (fib_next_size_over n)) p) h (fst (fib_next_size_over n) - 1) < fst (fib_next_size_over n)"
    using b index_for_hash_less [of b h] by (simp add: fib_index_def fib_commit_def)
  show "mask_index i (fst (fib_next_size_over n) - 1) < fst (fib_next_size_over n)"
    using b(2) mask_index_less [of "2 ^ b"] by simp
next
  fix p h
  have "index_for_hash 63 h < 2" using index_for_hash_less [of 1 h] by simp
  then show "fib_index (fib_reset p) h 0 < min_lookups - 1" by (simp add: fib_index_def fib_reset_def min_lookups_def)
qed

lemma p2_size:
  assumes "1 \<le> n" "n \<le> 2 ^ 63"
  shows "n \<le> fst (p2_next_size_over n)" "0 < fst (p2_next_size_over n)"
proof -
  have *: "n \<le> fst (p2_next_size_over n)"
  proof (cases "n = 1")
    case True
    then show ?thesis by (simp add: p2_next_size_over_def next_power_of_two_def smear_def)
  next
    case False
    then have "2 \<le> n" "n \<le> 2 ^ Suc 62" using assms by simp_all
    from power_bracket [OF this] obtain c where c: "c \<le> 62" "2 ^ c < n" "n \<le> 2 ^ Suc c" by blast
    then have "unat (next_power_of_two (of_nat n)) = 2 ^ Suc c" by (intro next_power_of_two_least) simp_all
    then show ?thesis using c(3) by (simp only: p2_next_size_over_def fst_conv)
  qed
  then show "n \<le> fst (p2_next_size_over n)" "0 < fst (p2_next_size_over n)" using assms(1) by linarith+
qed

interpretation p2: hash_policy p2_next_size_over "\<lambda>_ p. p" "\<lambda>p :: unit. p" "\<lambda>_. p2_index" "\<lambda>_. mask_index" "2 ^ 63"
proof unfold_locales
  fix n i h
  assume n: "1 \<le> n" "n \<le> (2 ^ 63 :: nat)"
  show "n \<le> fst (p2_next_size_over n)" by (rule p2_size(1) [OF n])
  show "p2_index h (fst (p2_next_size_over n) - 1) < fst (p2_next_size_over n)"
    unfolding p2_index_def by (rule mask_index_less [OF p2_size(2) [OF n]])
  show "mask_index i (fst (p2_next_size_over n) - 1) < fst (p2_next_size_over n)"
    by (rule mask_index_less [OF p2_size(2) [OF n]])
next
  fix h
  show "p2_index h 0 < min_lookups - 1" by (simp add: p2_index_def mask_index_def min_lookups_def)
qed

interpretation prime: hash_policy prime_next_size_over prime_commit prime_reset prime_index prime_keep_in_range
    18446744073709551557
proof unfold_locales
  fix n p h i
  assume n: "1 \<le> n" "n \<le> (18446744073709551557 :: nat)"
  obtain j where j: "j < length prime_list" "prime_next_size_over n = (prime_list ! j, mod_p (prime_list ! j))"
    "n \<le> prime_list ! j"
    using prime_found n(2) by metis
  have pos: "0 < prime_list ! j" using j(1) prime_list_pos by simp
  show "n \<le> fst (prime_next_size_over n)" using j by simp
  show "prime_index (prime_commit (snd (prime_next_size_over n)) p) h (fst (prime_next_size_over n) - 1)
      < fst (prime_next_size_over n)"
    using j(2) pos by (simp add: prime_index_def prime_commit_def mod_p_def)
  show "prime_keep_in_range (prime_commit (snd (prime_next_size_over n)) p) i (fst (prime_next_size_over n) - 1)
      < fst (prime_next_size_over n)"
    using j(2) pos by (auto simp: prime_keep_in_range_def prime_commit_def mod_p_def)
next
  fix p h
  show "prime_index (prime_reset p) h 0 < min_lookups - 1"
    by (simp add: prime_index_def prime_reset_def mod0_def mod_functions_prime_list min_lookups_def)
qed

end
