(* ===== verification/FlatTableProps.thy ===== *)
theory FlatTableProps
  imports FlatTableRun HashPolicy
begin

text \<open>
  Properties of the hash table: it implements the hash map of the other theories, its insertions return, its
  sizes and slots are in range, and a copy equals its original.
\<close>

text \<open>C32 What a run of operations leaves in the table is what the association list has.\<close>

theorem flat_table_is_map:
  assumes "length ops \<le> 2 ^ 52" "ft_run n hash d ops ft_empty = Some t"
  shows "ft_find hash t = hm_find (hm_run ops hm_empty) \<and> mset (ft_items t) = mset (hm_run ops hm_empty)"
proof -
  have "ft_find hash ft_empty = hm_find hm_empty" by (simp add: fun_eq_iff ft_find_wf)
  then have "ft_wf hash t \<and> ft_find hash t = hm_find (hm_run ops hm_empty)"
    by (intro ft_run_refines [OF ft_wf_empty _ assms(2)]) (use assms(1) in simp)
  then show ?thesis using items_perm [of hash t] hm_run_wf [OF hm_wf_empty, of ops] by simp
qed

lemma table_2_62:
  "next_size_over 4 = (4, 62)"
  "fresh_table 4 62 = \<lparr>ft_entries = [empty_entry, empty_entry, empty_entry, empty_entry, empty_entry, empty_entry,
     empty_entry, special_end], ft_num_slots_minus_one = 3, ft_shift = 62, ft_max_lookups = 4, ft_num_elements = 0\<rparr>"
proof -
  show "next_size_over 4 = (4, 62)" using next_size_over_pow [of 1 4] by simp
  have seven: "4 + 4 - 1 = Suc (Suc (Suc (Suc (Suc (Suc (Suc 0))))))" by simp
  have four: "compute_max_lookups 4 = 4" using compute_max_lookups_pow [of 2] by simp
  show "fresh_table 4 62 = \<lparr>ft_entries = [empty_entry, empty_entry, empty_entry, empty_entry, empty_entry, empty_entry,
     empty_entry, special_end], ft_num_slots_minus_one = 3, ft_shift = 62, ft_max_lookups = 4, ft_num_elements = 0\<rparr>"
    by (simp only: fresh_table_def Let_def four seven) simp
qed

lemma homes_1_6:
  "index_for_hash 62 1 = 2" "index_for_hash 62 6 = 2" "index_for_hash 63 1 = 1" "index_for_hash 63 6 = 1"
  by (simp_all add: index_for_hash_def)

lemmas table_run = ft_assign_def Let_def emplace_new_key_def grow_def rehash_def ft_index_def homes_1_6 table_2_62
  ft_empty_def empty_default_table_def empty_entry_def special_end_def bucket_count_def min_lookups_def
  ft_items_def ft_erase_def is_at_desired_position_def

text \<open>1 and 6 ask for the same slot: 6 is displaced, and moves back when 1 is erased.\<close>

lemma displaced_and_back:
  "ft_run (Suc (Suc 0)) word_of_int 0 [Put (1 :: int) (10 :: int), Put 6 20, Erase 1, Emplace 6 5] ft_empty =
     Some \<lparr>ft_entries = [empty_entry, empty_entry, Entry 0 (Some (6, 20)), empty_entry, empty_entry, empty_entry,
       empty_entry, special_end],
       ft_num_slots_minus_one = 3, ft_shift = 62, ft_max_lookups = 4, ft_num_elements = 1\<rparr>"
  by (simp add: table_run)

lemma flat_table_is_map_witness:
  "ft_find word_of_int
     (the (ft_run (Suc (Suc 0)) word_of_int 0 [Put (1 :: int) (10 :: int), Put 6 20, Erase 1, Emplace 6 5] ft_empty)) 6 =
   Some 20"
  using flat_table_is_map [OF _ displaced_and_back] unfolding displaced_and_back option.sel
  by (simp add: hm_run_def hm_find_emplace)

text \<open>C33 With a hash that spreads the keys every run returns.\<close>

theorem flat_table_total:
  assumes "spread hash B (\<Union> (op_keys ` set ops))" "2 \<le> B" "B \<le> 62" "length ops \<le> 2 ^ 52"
  shows "\<exists>t. ft_run 62 hash d ops ft_empty = Some t"
proof -
  have "card (\<Union> (op_keys ` set ops)) \<le> length ops"
  proof (induction ops)
    case (Cons op ops)
    have "card (op_keys op) \<le> 1" by (cases op) simp_all
    then show ?case using Cons card_Un_le [of "op_keys op" "\<Union> (op_keys ` set ops)"] by simp
  qed simp
  then have "card (\<Union> (op_keys ` set ops)) \<le> 2 ^ 52" using assms(4) by linarith
  from ft_run_total [OF assms(1-3) this order_refl ft_wf_empty, of d] assms(4) show ?thesis by simp
qed

lemma homes_1_2_3: "index_for_hash 61 1 = 4" "index_for_hash 61 2 = 1" "index_for_hash 61 3 = 6"
  by (simp_all add: index_for_hash_def)

lemma flat_table_total_witness:
  "\<exists>t. ft_run 62 word_of_int 0 [Put (1 :: int) (10 :: int), Emplace 2 20, Put 3 30, Erase 1] ft_empty = Some t"
  by (rule flat_table_total [of _ 3]) (simp_all add: spread_def homes_1_2_3)

text \<open>C34 For any number of elements, the default and the prime policy choose a size that holds them and is not
  more than twice too large or the least prime of the table, and give every hash a slot below it.\<close>

theorem policies_fit:
  assumes "1 \<le> n" "n \<le> 2 ^ 63"
  shows "n \<le> fst (fib_next_size_over n) \<and> fst (fib_next_size_over n) < max 3 (2 * n) \<and>
    fib_index (snd (fib_next_size_over n)) h (fst (fib_next_size_over n) - 1) < fst (fib_next_size_over n) \<and>
    (LEAST p. p \<in> set prime_list \<and> n \<le> p) = fst (prime_next_size_over n) \<and>
    prime_index (snd (prime_next_size_over n)) h (fst (prime_next_size_over n) - 1) < fst (prime_next_size_over n)"
proof -
  have bound: "n \<le> 18446744073709551557" using assms(2) by simp
  have "fst (fib_next_size_over n) < max 3 (2 * n)"
    using next_size_over_level [OF assms] by (metis fib_next_size_over_def fst_conv)
  moreover have "(LEAST p. p \<in> set prime_list \<and> n \<le> p) = fst (prime_next_size_over n)"
    by (rule prime_least [OF bound])
  ultimately show ?thesis
    using fib.size_fits [OF assms] fib.index_fits [OF assms, of 0 h] prime.index_fits [OF assms(1) bound, of id h]
    by (simp add: fib_commit_def prime_commit_def)
qed

lemma policies_fit_witness: "fib_index 62 (12345 :: 64 word) 3 < 4"
  using policies_fit [of 4 12345] table_2_62(1) by (simp add: fib_next_size_over_def)

text \<open>The copy of a table is equal to it.\<close>

lemma copy_is_equal:
  assumes "ft_wf hash other" "length (ft_items other) < 2 ^ 52" "ft_copy n hash other = Some t"
  shows "ft_wf hash t \<and> ft_equal hash t other"
  using insert_items_into_empty [OF assms(1,2) ft_wf_empty ft_items_empty assms(3) [unfolded ft_copy_def]]
    same_items_equal assms(1) by blast

lemma table_1_63:
  "next_size_over 2 = (2, 63)"
  "fresh_table 2 63 = \<lparr>ft_entries = [empty_entry, empty_entry, empty_entry, empty_entry, empty_entry, special_end],
     ft_num_slots_minus_one = 1, ft_shift = 63, ft_max_lookups = 4, ft_num_elements = 0\<rparr>"
proof -
  show "next_size_over 2 = (2, 63)" using next_size_over_pow [of 0 2] by simp
  have five: "2 + 4 - 1 = Suc (Suc (Suc (Suc (Suc 0))))" by simp
  have four: "compute_max_lookups 2 = 4" using compute_max_lookups_pow [of 1] by simp
  show "fresh_table 2 63 = \<lparr>ft_entries = [empty_entry, empty_entry, empty_entry, empty_entry, empty_entry, special_end],
     ft_num_slots_minus_one = 1, ft_shift = 63, ft_max_lookups = 4, ft_num_elements = 0\<rparr>"
    by (simp only: fresh_table_def Let_def four five) simp
qed

lemma copied_down:
  "ft_copy (Suc (Suc 0)) word_of_int
    \<lparr>ft_entries = [empty_entry, empty_entry, Entry 0 (Some (6 :: int, 20 :: int)), empty_entry, empty_entry, empty_entry,
       empty_entry, special_end],
       ft_num_slots_minus_one = 3, ft_shift = 62, ft_max_lookups = 4, ft_num_elements = 1\<rparr> =
   Some \<lparr>ft_entries = [empty_entry, Entry 0 (Some (6, 20)), empty_entry, empty_entry, empty_entry, special_end],
     ft_num_slots_minus_one = 1, ft_shift = 63, ft_max_lookups = 4, ft_num_elements = 1\<rparr>"
  by (simp add: ft_copy_def rehash_for_other_container_def num_buckets_for_reserve_def table_run table_1_63)

lemma copy_is_equal_witness:
  "ft_wf word_of_int
     \<lparr>ft_entries = [empty_entry, Entry 0 (Some (6 :: int, 20 :: int)), empty_entry, empty_entry, empty_entry, special_end],
       ft_num_slots_minus_one = 1, ft_shift = 63, ft_max_lookups = 4, ft_num_elements = 1\<rparr>"
proof -
  have "ft_wf word_of_int
    \<lparr>ft_entries = [empty_entry, empty_entry, Entry 0 (Some (6 :: int, 20 :: int)), empty_entry, empty_entry, empty_entry,
       empty_entry, special_end],
       ft_num_slots_minus_one = 3, ft_shift = 62, ft_max_lookups = 4, ft_num_elements = 1\<rparr>"
    using ft_run_refines [OF ft_wf_empty _ displaced_and_back, of hm_empty] by (simp add: fun_eq_iff ft_find_wf)
  from copy_is_equal [OF this _ copied_down] show ?thesis by (simp add: ft_items_def empty_entry_def special_end_def)
qed

end
