(* ===== verification/Bindings.thy ===== *)
theory Bindings
  imports ReplayFacts MultiBook
begin

text \<open>
  What \<open>src/python_bindings.cpp\<close> adds to the classes it exposes: the tables of diagnostic names, the sources that
  wrap Python objects, the adapter that wraps one, \<open>ReplaySession.run_raw\<close> and the streams of the
  multi-book simulator. A Python object is what the bindings ask of it: the items its iteration gives (\<open>Inl ()\<close>
  where it raises), the results of its method \<open>next\<close>, and what calling it gives, \<open>None\<close> where the call raises or
  its result is no event.
\<close>

section \<open>Diagnostics\<close>

fun diagnostic_code :: "DiagnosticRecordCode \<Rightarrow> int" where
  "diagnostic_code ADD_DUPLICATE_ORDER_ID = 0"
| "diagnostic_code DELETE_NON_EXISTING_PAPER_ORDER_ID = 1"
| "diagnostic_code DELETE_NON_EXISTING_HISTORICAL_ORDER_ID = 2"
| "diagnostic_code PROVIDED_SIDE_ON_DELETE_DIFFERS_FROM_ORIGINAL_SIDE_FOR_ORDER_ID = 3"
| "diagnostic_code PROVIDED_PRICE_ON_DELETE_DIFFERS_FROM_ORIGINAL_PRICE_FOR_ORDER_ID = 4"
| "diagnostic_code SET_WITH_NEGATIVE_LIQUIDITY_REQUESTED_WAS_SET_TO_ZERO = 5"
| "diagnostic_code SET_NON_EXISTING_ORDER_ID_IS_REJECTED = 6"
| "diagnostic_code PROVIDED_SIDE_ON_SET_DIFFERS_FROM_ORIGINAL_SIDE_FOR_ORDER_ID = 7"
| "diagnostic_code PROVIDED_PRICE_ON_SET_DIFFERS_FROM_ORIGINAL_PRICE_FOR_ORDER_ID = 8"
| "diagnostic_code REQUESTED_REDUCE_ORDER_BY_ZERO_QUANTITY = 9"
| "diagnostic_code REQUESTED_REDUCE_NON_EXISTING_ORDER_ID = 10"
| "diagnostic_code PROVIDED_SIDE_ON_ORDER_REDUCE_DIFFERS_FROM_ORIGINAL_SIDE_FOR_ORDER_ID = 11"
| "diagnostic_code PROVIDED_PRICE_ON_ORDER_REDUCE_DIFFERS_FROM_ORIGINAL_PRICE_FOR_ORDER_ID = 12"
| "diagnostic_code REQUESTED_ORDER_REDUCE_WITH_VOLUME_LARGER_THAN_AVAILABLE_FOR_ORDER_ID = 13"
| "diagnostic_code PAPER_ORDER_INVOKES_PASSIVE_MATCH_INSTEAD_OF_AGGRESSIVE_TRADE = 14"
| "diagnostic_code INVALID_UPDATE_TYPE = 15"
| "diagnostic_code ADD_INVOKED_WITH_NEGATIVE_QUANTITY = 16"
| "diagnostic_code REQUESTED_REDUCE_PAPER_ORDER_BY_NEGATIVE_QUANTITY = 17"
| "diagnostic_code CORRUPT_BOOK_PRICE_IN_ORDER_INFO_BUT_NOT_IN_BOOK = 18"
| "diagnostic_code REQUESTED_REDUCE_ORDER_BY_NEGATIVE_QUANTITY = 19"
| "diagnostic_code SET_LOG_SINK_FOR_UNKNOWN_BOOK_IN_MULTI_BOOK_SIMULATOR = 20"
| "diagnostic_code DEPTH_AT_FOR_UNKNOWN_BOOK_IN_MULTI_BOOK_SIMULATOR = 21"
| "diagnostic_code L2_TOP_N_FOR_UNKNOWN_BOOK_IN_MULTI_BOOK_SIMULATOR = 22"
| "diagnostic_code GET_BEST_PRICE_TICKS_FOR_UNKNOWN_BOOK_IN_MULTI_BOOK_SIMULATOR = 23"
| "diagnostic_code HEAP_ENTRY_WITHOUT_BUFFERED_EVENT = 24"
| "diagnostic_code APPLY_EVENT_REQUESTED_FOR_UNKNOWN_BOOK = 25"
| "diagnostic_code NON_MONOTONIC_TS_RECEIVED_DETECTED_IN_MULTI_BOOK_SIMULATOR = 26"
| "diagnostic_code DUPLICATE_STREAM_FOR_BOOK_IN_MULTI_BOOK_SIMULATOR = 27"
| "diagnostic_code SUBMIT_STRATEGY_EVENT_FOR_UNKNOWN_BOOK = 28"
| "diagnostic_code STRATEGY_EVENT_TIME_TRAVEL = 29"
| "diagnostic_code REQUESTED_REDUCE_PAPER_ORDER_BY_ZERO_QUANTITY = 30"
| "diagnostic_code HISTORICAL_ORDER_POOL_EXHAUSTED = 31"
| "diagnostic_code PAPER_ORDER_POOL_EXHAUSTED = 32"

fun diagnostic_severity :: "DiagnosticRecordSeverity \<Rightarrow> int" where
  "diagnostic_severity INFO = 0"
| "diagnostic_severity WARNING = 1"
| "diagnostic_severity ERROR = 2"

definition diagnostic_code_names :: "(int \<times> string) list" where
  "diagnostic_code_names =
    [(diagnostic_code ADD_DUPLICATE_ORDER_ID, ''ADD_DUPLICATE_ORDER_ID''),
     (diagnostic_code DELETE_NON_EXISTING_PAPER_ORDER_ID, ''DELETE_NON_EXISTING_PAPER_ORDER_ID''),
     (diagnostic_code DELETE_NON_EXISTING_HISTORICAL_ORDER_ID, ''DELETE_NON_EXISTING_HISTORICAL_ORDER_ID''),
     (diagnostic_code PROVIDED_SIDE_ON_DELETE_DIFFERS_FROM_ORIGINAL_SIDE_FOR_ORDER_ID, ''PROVIDED_SIDE_ON_DELETE_DIFFERS_FROM_ORIGINAL_SIDE_FOR_ORDER_ID''),
     (diagnostic_code PROVIDED_PRICE_ON_DELETE_DIFFERS_FROM_ORIGINAL_PRICE_FOR_ORDER_ID, ''PROVIDED_PRICE_ON_DELETE_DIFFERS_FROM_ORIGINAL_PRICE_FOR_ORDER_ID''),
     (diagnostic_code SET_WITH_NEGATIVE_LIQUIDITY_REQUESTED_WAS_SET_TO_ZERO, ''SET_WITH_NEGATIVE_LIQUIDITY_REQUESTED_WAS_SET_TO_ZERO''),
     (diagnostic_code SET_NON_EXISTING_ORDER_ID_IS_REJECTED, ''SET_NON_EXISTING_ORDER_ID_IS_REJECTED''),
     (diagnostic_code PROVIDED_SIDE_ON_SET_DIFFERS_FROM_ORIGINAL_SIDE_FOR_ORDER_ID, ''PROVIDED_SIDE_ON_SET_DIFFERS_FROM_ORIGINAL_SIDE_FOR_ORDER_ID''),
     (diagnostic_code PROVIDED_PRICE_ON_SET_DIFFERS_FROM_ORIGINAL_PRICE_FOR_ORDER_ID, ''PROVIDED_PRICE_ON_SET_DIFFERS_FROM_ORIGINAL_PRICE_FOR_ORDER_ID''),
     (diagnostic_code REQUESTED_REDUCE_ORDER_BY_ZERO_QUANTITY, ''REQUESTED_REDUCE_ORDER_BY_ZERO_QUANTITY''),
     (diagnostic_code REQUESTED_REDUCE_NON_EXISTING_ORDER_ID, ''REQUESTED_REDUCE_NON_EXISTING_ORDER_ID''),
     (diagnostic_code PROVIDED_SIDE_ON_ORDER_REDUCE_DIFFERS_FROM_ORIGINAL_SIDE_FOR_ORDER_ID, ''PROVIDED_SIDE_ON_ORDER_REDUCE_DIFFERS_FROM_ORIGINAL_SIDE_FOR_ORDER_ID''),
     (diagnostic_code PROVIDED_PRICE_ON_ORDER_REDUCE_DIFFERS_FROM_ORIGINAL_PRICE_FOR_ORDER_ID, ''PROVIDED_PRICE_ON_ORDER_REDUCE_DIFFERS_FROM_ORIGINAL_PRICE_FOR_ORDER_ID''),
     (diagnostic_code REQUESTED_ORDER_REDUCE_WITH_VOLUME_LARGER_THAN_AVAILABLE_FOR_ORDER_ID, ''REQUESTED_ORDER_REDUCE_WITH_VOLUME_LARGER_THAN_AVAILABLE_FOR_ORDER_ID''),
     (diagnostic_code PAPER_ORDER_INVOKES_PASSIVE_MATCH_INSTEAD_OF_AGGRESSIVE_TRADE, ''PAPER_ORDER_INVOKES_PASSIVE_MATCH_INSTEAD_OF_AGGRESSIVE_TRADE''),
     (diagnostic_code INVALID_UPDATE_TYPE, ''INVALID_UPDATE_TYPE''),
     (diagnostic_code ADD_INVOKED_WITH_NEGATIVE_QUANTITY, ''ADD_INVOKED_WITH_NEGATIVE_QUANTITY''),
     (diagnostic_code REQUESTED_REDUCE_PAPER_ORDER_BY_NEGATIVE_QUANTITY, ''REQUESTED_REDUCE_PAPER_ORDER_BY_NEGATIVE_QUANTITY''),
     (diagnostic_code CORRUPT_BOOK_PRICE_IN_ORDER_INFO_BUT_NOT_IN_BOOK, ''CORRUPT_BOOK_PRICE_IN_ORDER_INFO_BUT_NOT_IN_BOOK''),
     (diagnostic_code REQUESTED_REDUCE_ORDER_BY_NEGATIVE_QUANTITY, ''REQUESTED_REDUCE_ORDER_BY_NEGATIVE_QUANTITY''),
     (diagnostic_code SET_LOG_SINK_FOR_UNKNOWN_BOOK_IN_MULTI_BOOK_SIMULATOR, ''SET_LOG_SINK_FOR_UNKNOWN_BOOK_IN_MULTI_BOOK_SIMULATOR''),
     (diagnostic_code DEPTH_AT_FOR_UNKNOWN_BOOK_IN_MULTI_BOOK_SIMULATOR, ''DEPTH_AT_FOR_UNKNOWN_BOOK_IN_MULTI_BOOK_SIMULATOR''),
     (diagnostic_code L2_TOP_N_FOR_UNKNOWN_BOOK_IN_MULTI_BOOK_SIMULATOR, ''L2_TOP_N_FOR_UNKNOWN_BOOK_IN_MULTI_BOOK_SIMULATOR''),
     (diagnostic_code GET_BEST_PRICE_TICKS_FOR_UNKNOWN_BOOK_IN_MULTI_BOOK_SIMULATOR, ''GET_BEST_PRICE_TICKS_FOR_UNKNOWN_BOOK_IN_MULTI_BOOK_SIMULATOR''),
     (diagnostic_code HEAP_ENTRY_WITHOUT_BUFFERED_EVENT, ''HEAP_ENTRY_WITHOUT_BUFFERED_EVENT''),
     (diagnostic_code APPLY_EVENT_REQUESTED_FOR_UNKNOWN_BOOK, ''APPLY_EVENT_REQUESTED_FOR_UNKNOWN_BOOK''),
     (diagnostic_code NON_MONOTONIC_TS_RECEIVED_DETECTED_IN_MULTI_BOOK_SIMULATOR, ''NON_MONOTONIC_TS_RECEIVED_DETECTED_IN_MULTI_BOOK_SIMULATOR''),
     (diagnostic_code DUPLICATE_STREAM_FOR_BOOK_IN_MULTI_BOOK_SIMULATOR, ''DUPLICATE_STREAM_FOR_BOOK_IN_MULTI_BOOK_SIMULATOR''),
     (diagnostic_code SUBMIT_STRATEGY_EVENT_FOR_UNKNOWN_BOOK, ''SUBMIT_STRATEGY_EVENT_FOR_UNKNOWN_BOOK''),
     (diagnostic_code STRATEGY_EVENT_TIME_TRAVEL, ''STRATEGY_EVENT_TIME_TRAVEL''),
     (diagnostic_code REQUESTED_REDUCE_PAPER_ORDER_BY_ZERO_QUANTITY, ''REQUESTED_REDUCE_PAPER_ORDER_BY_ZERO_QUANTITY''),
     (diagnostic_code HISTORICAL_ORDER_POOL_EXHAUSTED, ''HISTORICAL_ORDER_POOL_EXHAUSTED''),
     (diagnostic_code PAPER_ORDER_POOL_EXHAUSTED, ''PAPER_ORDER_POOL_EXHAUSTED'')]"

definition diagnostic_severity_names :: "(int \<times> string) list" where
  "diagnostic_severity_names =
    [(diagnostic_severity INFO, ''INFO''), (diagnostic_severity WARNING, ''WARNING''),
     (diagnostic_severity ERROR, ''ERROR'')]"

section \<open>Events\<close>

definition py_default_event :: NormalizedLobEvent where
  \<comment> \<open>\<open>NormalizedLobEvent()\<close> of the module, with the defaults of its arguments\<close>
  "py_default_event = \<lparr>ev_ts_exchange = 0, ev_ts_received = 0, ev_side = BUY, ev_update_type = ADD,
     ev_price_ticks = 0, ev_quantity_lots = 0, ev_order_id = UnknownOrderIdSentinel,
     ev_trader_id = UnknownTraderIdSentinel, ev_aggressor_id = NoAggressorNeededSentinel,
     ev_update_source = HISTORICAL, ev_symbol_id = []\<rparr>"

section \<open>Sources\<close>

record PyNormalizedVectorSource =
  pv_events :: "NormalizedLobEvent list"
  pv_index :: nat

definition vector_source :: "NormalizedLobEvent list \<Rightarrow> PyNormalizedVectorSource" where
  "vector_source events = \<lparr>pv_events = events, pv_index = 0\<rparr>"

definition vector_next :: "PyNormalizedVectorSource \<Rightarrow> NormalizedLobEvent option \<times> PyNormalizedVectorSource" where
  "vector_next s =
     (if pv_index s \<ge> length (pv_events s) then (None, s)
      else (Some (pv_events s ! pv_index s), s\<lparr>pv_index := pv_index s + 1\<rparr>))"

definition vector_reset :: "PyNormalizedVectorSource \<Rightarrow> PyNormalizedVectorSource" where
  "vector_reset s = s\<lparr>pv_index := 0\<rparr>"

datatype PyError = PyRaised | NotASource | NotAnAdapter | PyReplay ReplayError

record 'o PySource =
  ps_iter :: "(unit + 'o) list option"
  ps_next :: "(unit + 'o option) list option"
  \<comment> \<open>what \<open>__iter__\<close> and \<open>next\<close> give, where the object has them\<close>

record 'o PyIteratorSource =
  pi_source :: "'o PySource"
  pi_iter :: "(unit + 'o) list option"

definition iterator_source :: "'o PySource \<Rightarrow> 'o PyIteratorSource" where
  "iterator_source source = \<lparr>pi_source = source, pi_iter = None\<rparr>"

definition next_object :: "'o PyIteratorSource \<Rightarrow> (PyError + 'o option) \<times> 'o PyIteratorSource" where
  "next_object s0 =
     (let s = (if pi_iter s0 = None \<and> ps_iter (pi_source s0) \<noteq> None
               then s0\<lparr>pi_iter := ps_iter (pi_source s0)\<rparr> else s0) in
      case pi_iter s of
        Some items \<Rightarrow>
          (case items of
             [] \<Rightarrow> (Inr None, s)
           | Inl _ # rest \<Rightarrow> (Inl PyRaised, s\<lparr>pi_iter := Some rest\<rparr>)
           | Inr x # rest \<Rightarrow> (Inr (Some x), s\<lparr>pi_iter := Some rest\<rparr>))
      | None \<Rightarrow>
          (case ps_next (pi_source s) of
             None \<Rightarrow> (Inl NotASource, s)
           | Some [] \<Rightarrow> (Inr None, s)
           | Some (Inl _ # results) \<Rightarrow> (Inl PyRaised, s\<lparr>pi_source := (pi_source s)\<lparr>ps_next := Some results\<rparr>\<rparr>)
           | Some (Inr r # results) \<Rightarrow> (Inr r, s\<lparr>pi_source := (pi_source s)\<lparr>ps_next := Some results\<rparr>\<rparr>)))"

section \<open>The adapter\<close>

type_synonym 'r py_callable = "('r \<Rightarrow> NormalizedLobEvent option) option"
  \<comment> \<open>\<open>None\<close> is an object that cannot be called\<close>

record 'r PyAdapter =
  pa_normalize :: "'r py_callable option"
  pa_self :: "'r py_callable"

definition call_target :: "'r PyAdapter \<Rightarrow> 'r py_callable" where
  "call_target a = (case pa_normalize a of Some f \<Rightarrow> f | None \<Rightarrow> pa_self a)"

definition py_normalize :: "'r PyAdapter \<Rightarrow> 'r \<Rightarrow> NormalizedLobEvent option" where
  \<comment> \<open>\<open>PyAdapter::normalize\<close>\<close>
  "py_normalize a raw = (case call_target a of None \<Rightarrow> None | Some f \<Rightarrow> f raw)"

section \<open>run_raw\<close>

fun raw_loop ::
  "('r \<Rightarrow> NormalizedLobEvent option) \<Rightarrow> bool \<Rightarrow> (unit + 'r) list \<Rightarrow> nat \<Rightarrow> nat \<Rightarrow> NormalizedLobEvent list \<Rightarrow>
     PyError + nat \<times> nat \<times> NormalizedLobEvent list" where
  "raw_loop f ff [] raw failures evs = Inr (raw, failures, evs)"
| "raw_loop f ff (Inl _ # src) raw failures evs = Inl PyRaised"
| "raw_loop f ff (Inr item # src) raw failures evs =
     (case f item of
        Some ev \<Rightarrow> raw_loop f ff src (raw + 1) failures (evs @ [ev])
      | None \<Rightarrow> if ff then Inl PyRaised else raw_loop f ff src (raw + 1) (failures + 1) evs)"

definition run_raw ::
  "(NormalizedLobEvent \<Rightarrow> 'e \<Rightarrow> 'e) \<Rightarrow> 'r PySource \<Rightarrow> 'r PyAdapter \<Rightarrow> ReplayConfig \<Rightarrow> 'e ReplaySession \<Rightarrow>
     (PyError + RunSummary) \<times> 'e ReplaySession" where
  "run_raw upd source adapter cfg s =
     (case call_target adapter of
        None \<Rightarrow> (Inl NotAnAdapter, s)
      | Some f \<Rightarrow>
          (case ps_iter source of
             None \<Rightarrow> (Inl PyRaised, s)
           | Some items \<Rightarrow>
               (case raw_loop f (rc_fail_fast cfg) items 0 0 [] of
                  Inl e \<Rightarrow> (Inl e, s)
                | Inr (raw, failures, evs) \<Rightarrow>
                    (case session_run upd evs cfg s of
                       (Inl e, s') \<Rightarrow> (Inl (PyReplay e), s')
                     | (Inr summary, s') \<Rightarrow>
                         (Inr (summary\<lparr>num_raw_events := raw, num_adapter_failures := failures,
                            num_normalized_events := length evs\<rparr>), s')))))"

section \<open>Streams of the multi-book simulator\<close>

definition py_add_normalized_stream ::
  "BookId \<Rightarrow> NormalizedLobEvent list \<Rightarrow> MultiBook \<Rightarrow> MultiBookError option \<times> MultiBook" where
  "py_add_normalized_stream i events mb = add_normalized_stream i (map Inr events) mb"

definition py_items :: "'o PySource \<Rightarrow> (unit + 'o) list" where
  \<comment> \<open>what repeated calls of \<open>nextObject\<close> deliver; an object that is no source raises at the first call\<close>
  "py_items source =
     (case ps_iter source of
        Some items \<Rightarrow> items
      | None \<Rightarrow>
          (case ps_next source of
             None \<Rightarrow> [Inl ()]
           | Some results \<Rightarrow> map (map_sum id the) (takeWhile (\<lambda>r. r \<noteq> Inr None) results)))"

definition cast_item :: "('r \<Rightarrow> NormalizedLobEvent option) \<Rightarrow> unit + 'r \<Rightarrow> unit + NormalizedLobEvent" where
  \<comment> \<open>\<open>PyNormalizedStreamSource::next\<close>: the cast of an item may raise as well\<close>
  "cast_item cast item =
     (case item of
        Inl e \<Rightarrow> Inl e
      | Inr x \<Rightarrow> (case cast x of Some ev \<Rightarrow> Inr ev | None \<Rightarrow> Inl ()))"

definition py_add_stream ::
  "BookId \<Rightarrow> 'r PySource \<Rightarrow> ('r \<Rightarrow> NormalizedLobEvent option) + 'r PyAdapter \<Rightarrow> MultiBook \<Rightarrow>
     MultiBookError option \<times> MultiBook" where
  \<comment> \<open>without an adapter the items are cast to events\<close>
  "py_add_stream i source adapter mb =
     (case adapter of
        Inl cast \<Rightarrow> add_normalized_stream i (map (cast_item cast) (py_items source)) mb
      | Inr a \<Rightarrow> add_adapter_stream i (map (map_sum (\<lambda>e. e) (py_normalize a)) (py_items source)) mb)"

end
