(* ===== verification/BindingsProps.thy ===== *)
theory BindingsProps
  imports Bindings ReplayProps
begin

text \<open>
  Facts on the Python bindings: the wrapped sources deliver what the Python objects hold, every diagnostic code
  has a name of its own, and \<open>run_raw\<close> against the overload of \<open>run\<close> over a source and an adapter.
\<close>

section \<open>Sources\<close>

definition remaining :: "'o PyIteratorSource \<Rightarrow> (unit + 'o) list" where
  "remaining s = (case pi_iter s of Some items \<Rightarrow> items | None \<Rightarrow> py_items (pi_source s))"

lemma remaining_iterator_source: "remaining (iterator_source source) = py_items source"
  by (simp add: remaining_def iterator_source_def)

lemma next_object_remaining:
  "case remaining s of
     [] \<Rightarrow> fst (next_object s) = Inr None
   | Inl _ # rest \<Rightarrow> \<exists>e. fst (next_object s) = Inl e
   | Inr x # rest \<Rightarrow> fst (next_object s) = Inr (Some x) \<and> remaining (snd (next_object s)) = rest"
  by (auto simp: next_object_def remaining_def py_items_def Let_def
      split: list.splits sum.splits option.splits)

lemma vector_next_remaining:
  assumes "pv_index s \<le> length (pv_events s)"
  shows "case drop (pv_index s) (pv_events s) of
      [] \<Rightarrow> vector_next s = (None, s)
    | ev # rest \<Rightarrow> fst (vector_next s) = Some ev \<and>
        drop (pv_index (snd (vector_next s))) (pv_events (snd (vector_next s))) = rest"
  using assms by (auto simp: vector_next_def Cons_nth_drop_Suc [symmetric] split: list.split)

section \<open>Names\<close>

lemma diagnostic_names_complete:
  "\<exists>name. map_of diagnostic_code_names (diagnostic_code c) = Some name"
  by (cases c) (simp_all add: diagnostic_code_names_def)

lemma diagnostic_names_distinct:
  "distinct (map fst diagnostic_code_names) \<and> distinct (map snd diagnostic_code_names)"
  by (simp add: diagnostic_code_names_def)

section \<open>run_raw\<close>

lemma raw_loop_run:
  "raw_loop f ff src raw failures evs =
     (let got = delivered ff f src; more_evs = normalized f got
      in if got = src then Inr (raw + length got, failures + (length got - length more_evs), evs @ more_evs)
         else Inl PyRaised)"
proof (induction src arbitrary: raw failures evs)
  case (Cons x src)
  show ?case
  proof (cases x)
    case [simp]: (Inr item)
    show ?thesis
    proof (cases "f item")
      case None
      then show ?thesis
        using Cons.IH [of "Suc raw" "Suc failures" evs] length_normalized [of f "delivered False f src"]
        by (auto simp: Let_def Suc_diff_le)
    next
      case (Some ev)
      then show ?thesis using Cons.IH [of "Suc raw" failures "evs @ [ev]"] by (auto simp: Let_def)
    qed
  qed simp
qed simp

text \<open>C35 \<open>run_raw\<close> does what a run over the same source and adapter does, and returns the same summary or throws the same
  error, whenever the source can be read to its end; otherwise it throws without having touched the
  engine or the session, where that run would have applied the events before the failure.\<close>

theorem run_raw_is_run:
  assumes "call_target adapter = Some f" "ps_iter source = Some items"
  shows "run_raw upd source adapter cfg s =
    (if delivered (rc_fail_fast cfg) f items = items
     then (case session_run_source upd f items cfg s of
             (Inl e, s') \<Rightarrow> (Inl (PyReplay e), s') | (Inr summary, s') \<Rightarrow> (Inr summary, s'))
     else (Inl PyRaised, s))"
proof -
  let ?got = "delivered (rc_fail_fast cfg) f items"
  let ?evs = "normalized f ?got"
  show ?thesis
  proof (cases "?got = items")
    case True
    show ?thesis
    proof (cases "session_run upd ?evs cfg s")
      case (Pair r s')
      show ?thesis
      proof (cases r)
        case (Inr su)
        have "num_normalized_events su = length ?evs"
          using session_run_counts Pair Inr by blast
        then show ?thesis
          using Pair Inr assms True
          by (cases su) (simp add: run_raw_def raw_loop_run session_run_source_run stop_result_def Let_def with_raw_def)
      qed (use Pair assms True in \<open>simp add: run_raw_def raw_loop_run session_run_source_run Let_def\<close>)
    qed
  qed (use assms in \<open>simp add: run_raw_def raw_loop_run\<close>)
qed

lemma run_raw_is_run_example:
  "run_raw update
     \<lparr>ps_iter = Some [Inr (timed 5 (hist_add SELL 105 5 1)), Inr (timed 6 (hist_add SELL 106 (- 7) 2))], ps_next = None\<rparr>
     \<lparr>pa_normalize = None, pa_self = Some (\<lambda>ev. if ev_quantity_lots ev < 0 then None else Some ev)\<rparr>
     default_ReplayConfig fresh_session = (Inl PyRaised, fresh_session)"
proof -
  let ?adapt = "\<lambda>ev. if ev_quantity_lots ev < 0 then None else Some ev"
  let ?items = "[Inr (timed 5 (hist_add SELL 105 5 1)), Inr (timed 6 (hist_add SELL 106 (- 7) 2))] ::
    (unit + NormalizedLobEvent) list"
  have not_read: "delivered (rc_fail_fast default_ReplayConfig) ?adapt ?items \<noteq> ?items" by code_simp
  have "run_raw update \<lparr>ps_iter = Some ?items, ps_next = None\<rparr> \<lparr>pa_normalize = None, pa_self = Some ?adapt\<rparr>
      default_ReplayConfig fresh_session =
    (if delivered (rc_fail_fast default_ReplayConfig) ?adapt ?items = ?items
     then (case session_run_source update ?adapt ?items default_ReplayConfig fresh_session of
             (Inl e, s') \<Rightarrow> (Inl (PyReplay e), s') | (Inr summary, s') \<Rightarrow> (Inr summary, s'))
     else (Inl PyRaised, fresh_session))"
    by (rule run_raw_is_run) (simp_all add: call_target_def)
  then show ?thesis unfolding if_not_P [OF not_read] .
qed

end
