(* ===== verification/EventParser.thy ===== *)
theory EventParser
  imports Text Engine EngineFacts
begin

text \<open>
  The text form of normalized events: \<open>parse_normalized_event\<close> of
  \<open>benchmark/normalized_event_parser.hpp\<close>, the lines and datagrams of
  \<open>benchmark/lobsim_event_generator.cpp\<close>, and what the input and the processing thread of
  \<open>benchmark/lobsim_udp_main.cpp\<close> do with them.
\<close>

section \<open>Codes\<close>

definition newline :: char where
  "newline = CHR 0x0A"

fun side_code :: "Side \<Rightarrow> int" where
  \<comment> \<open>\<open>static_cast<int>\<close> of a side\<close>
  "side_code SELL = 0"
| "side_code BUY = 1"

fun update_type_code :: "UpdateType \<Rightarrow> int" where
  "update_type_code ADD = 0"
| "update_type_code DELETE = 1"
| "update_type_code SUBTRACT = 2"
| "update_type_code MATCH = 3"
| "update_type_code SET = 4"
| "update_type_code AGGRESSIVE_TRADE = 5"
| "update_type_code (RAW_UPDATE_TYPE n) = int n"

fun source_code :: "UpdateSource \<Rightarrow> int" where
  "source_code HISTORICAL = 0"
| "source_code STRATEGY = 1"
| "source_code UNKNOWN = 2"

section \<open>Fields\<close>

definition blank :: "char \<Rightarrow> bool" where
  "blank c = (c = CHR '' '' \<or> c = CHR 0x09 \<or> c = CHR 0x0D)"

definition trim :: "string \<Rightarrow> string" where
  "trim s = strip blank s"

definition next_field :: "string \<Rightarrow> (string \<times> string) option" where
  \<comment> \<open>the next field of what is left of the line, and what is left behind its comma\<close>
  "next_field s =
     (if s = [] then None
      else Some (trim (takeWhile (\<lambda>c. c \<noteq> CHR '','') s), tl (dropWhile (\<lambda>c. c \<noteq> CHR '','') s)))"

definition parse_int64 :: "string \<Rightarrow> int option" where
  "parse_int64 field = (case from_chars_int64 field of Some (v, []) \<Rightarrow> Some v | _ \<Rightarrow> None)"

definition parse_uint8 :: "string \<Rightarrow> int option" where
  "parse_uint8 field =
     (case parse_int64 field of None \<Rightarrow> None | Some v \<Rightarrow> if v < 0 \<or> v > 255 then None else Some v)"

definition int_field :: "(string \<Rightarrow> int option) \<Rightarrow> string \<Rightarrow> (int \<times> string) option" where
  \<comment> \<open>the condition \<open>!next_field(line, pos, field) || !parse(field, out)\<close>\<close>
  "int_field parse s =
     (case next_field s of
        None \<Rightarrow> None
      | Some (field, rest) \<Rightarrow> (case parse field of None \<Rightarrow> None | Some v \<Rightarrow> Some (v, rest)))"

fun int_fields :: "(string \<Rightarrow> int option) list \<Rightarrow> string \<Rightarrow> (int list \<times> string) option" where
  \<comment> \<open>the first ten conditions, one parser each\<close>
  "int_fields [] s = Some ([], s)"
| "int_fields (parse # parses) s =
     (case int_field parse s of
        None \<Rightarrow> None
      | Some (v, rest) \<Rightarrow> (case int_fields parses rest of None \<Rightarrow> None | Some (vs, rest') \<Rightarrow> Some (v # vs, rest')))"

definition side_of :: "int \<Rightarrow> Side" where
  "side_of n = (if n = 0 then SELL else BUY)"

definition update_type_of :: "int \<Rightarrow> UpdateType" where
  "update_type_of n =
     (if n = 0 then ADD else if n = 1 then DELETE else if n = 2 then SUBTRACT else if n = 3 then MATCH
      else if n = 4 then SET else AGGRESSIVE_TRADE)"

definition source_of :: "int \<Rightarrow> UpdateSource" where
  "source_of n = (if n = 0 then HISTORICAL else if n = 1 then STRATEGY else UNKNOWN)"

definition event_parsers :: "(string \<Rightarrow> int option) list" where
  "event_parsers = [parse_int64, parse_int64, parse_uint8, parse_uint8, parse_int64, parse_int64, parse_int64,
     parse_int64, parse_int64, parse_uint8]"

definition parse_normalized_event :: "string \<Rightarrow> NormalizedLobEvent option" where
  "parse_normalized_event line =
     (case int_fields event_parsers line of
        Some ([ts_exchange, ts_received, side_raw, update_type_raw, price_ticks, qty_lots, order_id,
               trader_id, aggressor_id, update_source_raw], rest) \<Rightarrow>
          (case next_field rest of
             None \<Rightarrow> None
           | Some (symbol_id, _) \<Rightarrow>
               if symbol_id = [] then None
               else if side_raw > 1 \<or> update_type_raw > 5 \<or> update_source_raw > 2 then None
               else Some \<lparr>ev_ts_exchange = ts_exchange, ev_ts_received = ts_received,
                 ev_side = side_of side_raw, ev_update_type = update_type_of update_type_raw,
                 ev_price_ticks = price_ticks, ev_quantity_lots = qty_lots, ev_order_id = order_id,
                 ev_trader_id = trader_id, ev_aggressor_id = aggressor_id,
                 ev_update_source = source_of update_source_raw, ev_symbol_id = symbol_id\<rparr>)
      | _ \<Rightarrow> None)"

section \<open>The generator\<close>

definition event_numbers :: "NormalizedLobEvent \<Rightarrow> int list" where
  "event_numbers ev =
     [ev_ts_exchange ev, ev_ts_received ev, side_code (ev_side ev), update_type_code (ev_update_type ev),
      ev_price_ticks ev, ev_quantity_lots ev, ev_order_id ev, ev_trader_id ev, ev_aggressor_id ev,
      source_code (ev_update_source ev)]"

definition event_text :: "NormalizedLobEvent \<Rightarrow> string" where
  \<comment> \<open>the line of \<open>emit_line\<close> without its end\<close>
  "event_text ev = concat (map (\<lambda>v. show_int v @ '','') (event_numbers ev)) @ ev_symbol_id ev"

record Batches =
  ba_sent :: "string list"
  ba_batch :: string
  ba_batch_count :: nat

definition flush_batch :: "Batches \<Rightarrow> Batches" where
  "flush_batch b =
     (if ba_batch b = [] then b
      else b\<lparr>ba_sent := ba_sent b @ [ba_batch b], ba_batch := [], ba_batch_count := 0\<rparr>)"

definition emit_line :: "nat \<Rightarrow> nat \<Rightarrow> NormalizedLobEvent \<Rightarrow> Batches \<Rightarrow> Batches" where
  "emit_line max_datagram_bytes batch_lines ev b =
     (let line = event_text ev @ [newline];
          b1 = (if length (ba_batch b) + length line > max_datagram_bytes \<or> ba_batch_count b \<ge> batch_lines
                then flush_batch b else b)
      in b1\<lparr>ba_batch := ba_batch b1 @ line, ba_batch_count := ba_batch_count b1 + 1\<rparr>)"

definition send_round :: "nat \<Rightarrow> nat \<Rightarrow> NormalizedLobEvent list \<Rightarrow> Batches \<Rightarrow> Batches" where
  \<comment> \<open>a round of the main loop: the events that are due, and a flush\<close>
  "send_round max_datagram_bytes batch_lines evs b =
     flush_batch (fold (emit_line max_datagram_bytes batch_lines) evs b)"

definition event_datagrams :: "nat \<Rightarrow> nat \<Rightarrow> NormalizedLobEvent list list \<Rightarrow> string list" where
  "event_datagrams max_datagram_bytes batch_lines rounds =
     ba_sent (flush_batch (fold (send_round max_datagram_bytes batch_lines) rounds
       \<lparr>ba_sent = [], ba_batch = [], ba_batch_count = 0\<rparr>))"

definition header_text :: string where
  "header_text =
     ''ts_exchange,ts_received,side,update_type,price_ticks,quantity_lots,order_id,trader_id,'' @
     ''aggressor_id,update_source,symbol_id''"

definition send_events :: "bool \<Rightarrow> nat \<Rightarrow> nat \<Rightarrow> NormalizedLobEvent list list \<Rightarrow> string list" where
  \<comment> \<open>the datagrams of a run, in order\<close>
  "send_events header max_datagram_bytes batch_lines rounds =
     (if header then [header_text] else []) @ event_datagrams max_datagram_bytes batch_lines rounds"

section \<open>The receiver\<close>

function payload_lines :: "string \<Rightarrow> string list" where
  \<comment> \<open>the inner loop of the input thread: the lines of a datagram that it pushes\<close>
  "payload_lines payload =
     (if payload = [] then []
      else
        let line = trim (takeWhile (\<lambda>c. c \<noteq> newline) payload);
            rest = tl (dropWhile (\<lambda>c. c \<noteq> newline) payload)
        in (if line = [] then [] else [line]) @ payload_lines rest)"
  by pat_completeness auto
termination
proof (relation "measure length")
  fix payload line rest :: string
  assume "payload \<noteq> []" "rest = tl (dropWhile (\<lambda>c. c \<noteq> newline) payload)"
  moreover have "length (dropWhile (\<lambda>c. c \<noteq> newline) payload) \<le> length payload"
    by (rule length_dropWhile_le)
  ultimately show "(rest, payload) \<in> measure length" by (cases payload) auto
qed simp

declare payload_lines.simps [simp del]

definition process_line :: "string \<Rightarrow> Sim \<Rightarrow> Sim" where
  \<comment> \<open>what the processing thread does with one line: a header is skipped\<close>
  "process_line line engine =
     (if take 11 line = ''ts_exchange'' then engine
      else case parse_normalized_event line of None \<Rightarrow> engine | Some ev \<Rightarrow> update ev engine)"

end
