(* ===== verification/Drivers.thy ===== *)
theory Drivers
  imports CoinbaseFacts ReplaySession Queries Lobster MultiBook Sinks EventParser
begin

text \<open>
  The drivers under \<open>examples/\<close>: the replay of a Coinbase file with its report of fills
  (\<open>lobsim_cpp.cpp\<close>), the same replay sampled by a strategy, the two-book replay
  (\<open>lobsim_multibook_cpp.cpp\<close>), and the main program of the LOBSTER replay. A file is what its
  source reads from it; what a program prints is the text it returns. Opening files is not modelled.
\<close>

section \<open>Printing\<close>

fun show_level_list :: "(int \<times> int) list \<Rightarrow> string" where
  \<comment> \<open>the loop of \<open>print_levels\<close>\<close>
  "show_level_list [] = []"
| "show_level_list ((px, q) # ls) =
     ''('' @ show_int px @ '', '' @ show_int q @ '')'' @ (if ls = [] then [] else '', '') @ show_level_list ls"

definition print_levels :: "(int \<times> int) list \<Rightarrow> string" where
  "print_levels ls = ''['' @ show_level_list ls @ '']''"

fun separated :: "char \<Rightarrow> string list \<Rightarrow> string" where
  "separated sep [] = []"
| "separated sep [t] = t"
| "separated sep (t # ts) = t @ sep # separated sep ts"

section \<open>The report of fills\<close>

definition fills_header :: string where
  "fills_header =
     ''seq,ts_exchange,ts_received,price_ticks,qty_lots,maker_side,maker_order_id,maker_trader_id,maker_source,'' @
     ''taker_side,taker_order_id,taker_trader_id,taker_source''"

definition fill_fields :: "FillRecord \<Rightarrow> int list" where
  "fill_fields r =
     [int (fr_seq r), fr_ts_exchange r, fr_ts_received r, fr_price_ticks r, fr_qty_lots r,
      side_code (fr_maker_side r), fr_maker_order_id r, fr_maker_trader_id r,
      source_code (fr_maker_source r), side_code (fr_taker_side r), fr_taker_order_id r,
      fr_taker_trader_id r, source_code (fr_taker_source r)]"

definition fill_line :: "FillRecord \<Rightarrow> string" where
  "fill_line r = separated CHR '','' (map show_int (fill_fields r)) @ [newline]"

definition write_fills_csv :: "FillRecord list \<Rightarrow> string" where
  "write_fills_csv fills = fills_header @ [newline] @ concat (map fill_line fills)"

section \<open>lobsim_cpp.cpp\<close>

definition single_btcusdt_spec :: InstrumentSpec where
  \<comment> \<open>\<open>make_btcusdt_spec\<close>, with the default tolerance of \<open>InstrumentSpec\<close>\<close>
  "single_btcusdt_spec = \<lparr>is_symbol = ''BTC-USDT'', is_venue = ''coinbase'',
     is_tick_size = \<lparr>ra_num = 1, ra_den = 100\<rparr>, is_lot_size = \<lparr>ra_num = 1, ra_den = 100000000\<rparr>,
     is_price_policy = Nearest, is_qty_policy = Nearest, is_strict_eps = 1 / 10 ^ 12\<rparr>"

fun driver_args :: "string list \<Rightarrow> string \<Rightarrow> string \<Rightarrow> (string \<times> string) option" where
  \<comment> \<open>the path of the file and of the report; \<open>None\<close> where the program returns 2\<close>
  "driver_args [] path dump = Some (path, dump)"
| "driver_args [arg] path dump = (if arg = ''--dump-fills'' then None else Some (arg, dump))"
| "driver_args (arg # arg' # args) path dump =
     (if arg = ''--dump-fills'' then driver_args args path arg' else driver_args (arg' # args) arg dump)"

definition default_engine :: Sim where
  \<comment> \<open>\<open>PaperTradingSimulator engine; engine.set_log_sink(&sink)\<close>\<close>
  "default_engine = set_log_sink True (sim_init 200000 100000)"

definition sink_of :: "Sim \<Rightarrow> InMemoryLogSink" where
  \<comment> \<open>what the sink attached to an engine has become\<close>
  "sink_of engine = fold sink_call (calls engine) sink_empty"

definition coinbase_replay ::
  "FloatEnv \<Rightarrow> (unit + CoinbaseBTCUSDTRawEvent) list \<Rightarrow> (ReplayError + RunSummary) \<times> Sim ReplaySession" where
  "coinbase_replay env source =
     session_run_source update (try_normalize env single_btcusdt_spec) source default_ReplayConfig
       (replay_session default_engine default_ReplayConfig)"

definition dump_fills_csv :: "FloatEnv \<Rightarrow> (unit + CoinbaseBTCUSDTRawEvent) list \<Rightarrow> ReplayError + string" where
  \<comment> \<open>the run with \<open>--dump-fills\<close>\<close>
  "dump_fills_csv env source =
     (case coinbase_replay env source of
        (Inl e, s) \<Rightarrow> Inl e
      | (Inr summary, s) \<Rightarrow> Inr (write_fills_csv (sk_fills (sink_of (rs_engine s)))))"

definition replay_report :: "FloatEnv \<Rightarrow> (unit + CoinbaseBTCUSDTRawEvent) list \<Rightarrow> ReplayError + string" where
  \<comment> \<open>the first of the two runs without it\<close>
  "replay_report env source =
     (case coinbase_replay env source of
        (Inl e, s) \<Rightarrow> Inl e
      | (Inr summary, s) \<Rightarrow> Inr
          (''Replay summary: first_ts='' @ show_int (first_ts_received summary) @
           '' last_ts='' @ show_int (last_ts_received summary) @
           '' raw='' @ show_nat (num_raw_events summary) @
           '' normalized='' @ show_nat (num_normalized_events summary) @
           '' adapter_failures='' @ show_nat (num_adapter_failures summary) @
           '' num_fills='' @ show_nat (length (sk_fills (sink_of (rs_engine s)))) @ [newline]))"

definition sampling_order :: "NormalizedLobEvent \<Rightarrow> NormalizedLobEvent" where
  \<comment> \<open>the strategy's order, two lots at the price of the event\<close>
  "sampling_order ev = \<lparr>ev_ts_exchange = ev_ts_exchange ev, ev_ts_received = ev_ts_received ev + 1,
     ev_side = BUY, ev_update_type = ADD, ev_price_ticks = ev_price_ticks ev, ev_quantity_lots = 2,
     ev_order_id = 123456789, ev_trader_id = 123456789, ev_aggressor_id = UnknownAggressorIdSentinel,
     ev_update_source = STRATEGY, ev_symbol_id = is_symbol single_btcusdt_spec\<rparr>"

definition sample_engine :: "NormalizedLobEvent \<Rightarrow> Sim \<Rightarrow> Sim \<times> string" where
  \<comment> \<open>what every 500th round does; both labels are those of the program\<close>
  "sample_engine ev engine =
     (let top2b = l2_top_n SELL 2 engine;
          top2a = l2_top_n BUY 2 engine;
          (best_ask, engine1) = get_best_price_ticks SELL engine
      in (update (sampling_order ev) engine1,
          ''Top 2 - BID: '' @ print_levels top2b @ '' | ASK: '' @ print_levels top2a @
          (case best_ask of None \<Rightarrow> [] | Some px \<Rightarrow> '' | best_ask='' @ show_int px) @ [newline]))"

fun sampling_loop ::
  "FloatEnv \<Rightarrow> (unit + CoinbaseBTCUSDTRawEvent) list \<Rightarrow> nat \<Rightarrow> Sim \<Rightarrow> string \<Rightarrow> bool \<times> Sim \<times> string" where
  \<comment> \<open>\<open>False\<close> where the source throws\<close>
  "sampling_loop env [] i engine out = (True, engine, out)"
| "sampling_loop env (Inl _ # source) i engine out = (False, engine, out)"
| "sampling_loop env (Inr raw # source) i engine out =
     (case try_normalize env single_btcusdt_spec raw of
        None \<Rightarrow> sampling_loop env source (i + 1) engine out
      | Some ev \<Rightarrow>
          let engine1 = update ev engine in
          if i mod 500 = 0
          then (case sample_engine ev engine1 of
                  (engine2, text) \<Rightarrow> sampling_loop env source (i + 1) engine2 (out @ text))
          else sampling_loop env source (i + 1) engine1 out)"

definition sampling_run :: "FloatEnv \<Rightarrow> (unit + CoinbaseBTCUSDTRawEvent) list \<Rightarrow> bool \<times> Sim \<times> string" where
  "sampling_run env source =
     (case sampling_loop env source 0 default_engine [] of
        (ok, engine, out) \<Rightarrow>
          (ok, engine, if ok then out @ ''num_fills='' @ show_nat (length (sk_fills (sink_of engine))) @ [newline]
                       else out))"

datatype SingleExit =
    MissingPath
  | Uncaught string
  | FillsWritten string string
  | Printed string

definition single_main ::
  "FloatEnv \<Rightarrow> (string \<Rightarrow> (unit + CoinbaseBTCUSDTRawEvent) list) \<Rightarrow> string list \<Rightarrow> SingleExit" where
  \<comment> \<open>over what each file holds: the report and where it goes, or what was printed, also before an
    exception that nobody catches\<close>
  "single_main env file args =
     (case driver_args args ''../sample_data/coinbase_btcusdt_sample.parquet'' [] of
        None \<Rightarrow> MissingPath
      | Some (path, dump) \<Rightarrow>
          if dump \<noteq> []
          then (case dump_fills_csv env (file path) of Inl _ \<Rightarrow> Uncaught [] | Inr csv \<Rightarrow> FillsWritten dump csv)
          else (case replay_report env (file path) of
                  Inl _ \<Rightarrow> Uncaught []
                | Inr report \<Rightarrow>
                    (case sampling_run env (file path) of
                       (ok, engine, out) \<Rightarrow> if ok then Printed (report @ out) else Uncaught (report @ out))))"

section \<open>lobsim_multibook_cpp.cpp\<close>

definition multi_btcusdt_spec :: InstrumentSpec where
  "multi_btcusdt_spec = single_btcusdt_spec\<lparr>is_price_policy := Strict, is_qty_policy := Strict\<rparr>"

definition spot :: BookId where
  "spot = \<lparr>bi_venue = ''coinbase'', bi_symbol = ''BTC-USDT-spot''\<rparr>"

definition perp :: BookId where
  "perp = \<lparr>bi_venue = ''coinbase'', bi_symbol = ''BTC-USDT-perp''\<rparr>"

type_synonym Items = "(unit + NormalizedLobEvent option) list"

definition multi_items :: "FloatEnv \<Rightarrow> (unit + CoinbaseBTCUSDTRawEvent) list \<Rightarrow> Items" where
  \<comment> \<open>what the adapter makes of the rows of a source, and where the source throws\<close>
  "multi_items env = map (map_sum (\<lambda>e. e) (try_normalize env multi_btcusdt_spec))"

definition multibook_setup :: "Items \<Rightarrow> Items \<Rightarrow> MultiBook" where
  \<comment> \<open>up to the loop, with what the adapter makes of each row of the two files; the four calls succeed, as the
    books are new\<close>
  "multibook_setup spot_items perp_items =
     (let mb0 = set_multi_log_sink True (multibook_init True False);
          mb1 = snd (add_default_book spot mb0);
          mb2 = snd (add_default_book perp mb1);
          mb3 = snd (add_adapter_stream spot spot_items mb2)
      in snd (add_adapter_stream perp perp_items mb3))"

definition show_best :: "int option \<Rightarrow> string" where
  "show_best best = (case best of Some px \<Rightarrow> show_int px | None \<Rightarrow> ''NA'')"

definition injected_order :: "nat \<Rightarrow> int option \<Rightarrow> int option \<Rightarrow> NormalizedLobEvent" where
  "injected_order steps now best_ask_spot =
     (let ts = (case now of Some t \<Rightarrow> t | None \<Rightarrow> 0) in
      \<lparr>ev_ts_exchange = ts, ev_ts_received = ts + 1, ev_side = BUY, ev_update_type = ADD,
       ev_price_ticks = (case best_ask_spot of Some px \<Rightarrow> px | None \<Rightarrow> 0), ev_quantity_lots = 2,
       ev_order_id = 123456789 + int steps, ev_trader_id = 42,
       ev_aggressor_id = UnknownAggressorIdSentinel, ev_update_source = STRATEGY,
       ev_symbol_id = book_key spot\<rparr>)"

definition sample_books :: "nat \<Rightarrow> MultiBook \<Rightarrow> MultiBookError option \<times> MultiBook \<times> string" where
  \<comment> \<open>what every 500th step does\<close>
  "sample_books steps mb0 =
     (let (best_bid_spot, mb1) = mb_get_best_price_ticks spot BUY mb0;
          (best_ask_spot, mb2) = mb_get_best_price_ticks spot SELL mb1;
          (best_bid_perp, mb3) = mb_get_best_price_ticks perp BUY mb2;
          (best_ask_perp, mb4) = mb_get_best_price_ticks perp SELL mb3;
          text1 =
            ''Step '' @ show_nat steps @ '' @ t='' @
            show_int (case current_time mb4 of Some t \<Rightarrow> t | None \<Rightarrow> - 1) @ [newline] @
            ''  Spot best: bid='' @ show_best best_bid_spot @ '' ask='' @ show_best best_ask_spot @ [newline] @
            ''  Perp best: bid='' @ show_best best_bid_perp @ '' ask='' @ show_best best_ask_perp @ [newline]
      in case submit_strategy_event spot (injected_order steps (current_time mb4) best_ask_spot) None mb4 of
           (Some err, mb5) \<Rightarrow> (Some err, mb5, text1)
         | (None, mb5) \<Rightarrow>
             let (top2_spot, mb6) = mb_l2_top_n spot BUY 2 mb5;
                 (top2_perp, mb7) = mb_l2_top_n perp SELL 2 mb6
             in (None, mb7, text1 @ ''  Spot top2 bids: '' @ print_levels top2_spot @
                  '' | Perp top2 asks: '' @ print_levels top2_perp @ [newline]))"

fun multibook_loop ::
  "nat \<Rightarrow> nat \<Rightarrow> MultiBook \<Rightarrow> string \<Rightarrow> (MultiBookError + nat) \<times> MultiBook \<times> string" where
  \<comment> \<open>with the number of steps that are left of \<open>max_steps\<close>, and those done\<close>
  "multibook_loop 0 steps mb out = (Inr steps, mb, out)"
| "multibook_loop (Suc left) steps mb out =
     (case step mb of
        (Inl err, mb1) \<Rightarrow> (Inl err, mb1, out)
      | (Inr again, mb1) \<Rightarrow>
          if \<not> again then (Inr steps, mb1, out)
          else if (steps + 1) mod 500 = 0
          then (case sample_books (steps + 1) mb1 of
                  (Some err, mb2, text) \<Rightarrow> (Inl err, mb2, out @ text)
                | (None, mb2, text) \<Rightarrow> multibook_loop left (steps + 1) mb2 (out @ text))
          else multibook_loop left (steps + 1) mb1 out)"

definition dump_fill :: "FillRecord \<Rightarrow> string" where
  "dump_fill f =
     ''  ['' @ fr_book_key f @ ''] seq='' @ show_nat (fr_seq f) @ '' px='' @ show_int (fr_price_ticks f) @
     '' qty='' @ show_int (fr_qty_lots f) @ '' maker_side='' @ show_int (side_code (fr_maker_side f)) @
     '' maker='' @ show_int (fr_maker_order_id f) @ '' taker='' @ show_int (fr_taker_order_id f) @
     '' src m/t='' @ show_int (source_code (fr_maker_source f)) @ ''/'' @
     show_int (source_code (fr_taker_source f)) @ [newline]"

definition dump_fills :: "InMemoryMultiLogSink \<Rightarrow> string" where
  "dump_fills k = ''Total fills: '' @ show_nat (length (mk_fills k)) @ [newline] @
     concat (map dump_fill (mk_fills k))"

definition multibook_main :: "Items \<Rightarrow> Items \<Rightarrow> (MultiBookError + nat) \<times> MultiBook \<times> string" where
  \<comment> \<open>from the loop on; an exception that \<open>step\<close> lets through ends the program with what was printed\<close>
  "multibook_main spot_items perp_items =
     (case multibook_loop 2000 0 (multibook_setup spot_items perp_items) [] of
        (Inl err, mb, out) \<Rightarrow> (Inl err, mb, out)
      | (Inr steps, mb, out) \<Rightarrow>
          (Inr steps, mb, out @ [newline] @ ''Replay finished after '' @ show_nat steps @ '' steps'' @ [newline] @
             dump_fills (fold multi_call (mcalls mb) multi_sink_empty)))"

definition multibook_program ::
  "FloatEnv \<Rightarrow> Schema \<Rightarrow> (unit + RecordBatch) list \<Rightarrow> ParquetError + ((MultiBookError + nat) \<times> MultiBook \<times> string)" where
  \<comment> \<open>over the content of the file, which both sources read; opening it may throw\<close>
  "multibook_program env schema batches =
     (case parquet_open schema batches of
        Inl e \<Rightarrow> Inl e
      | Inr impl \<Rightarrow>
          Inr (multibook_main (multi_items env (parquet_items impl)) (multi_items env (parquet_items impl))))"

section \<open>The LOBSTER main program\<close>

lemma next_line_shorter: "next_line parse lines = Some (x, lines') \<Longrightarrow> length lines' < length lines"
  by (induction lines) (auto split: option.splits)

function paired_rows ::
  "(string \<Rightarrow> int \<times> string) \<Rightarrow> nat \<Rightarrow> string list \<Rightarrow> string list \<Rightarrow> (LobsterMessageEvent \<times> int list) list" where
  \<comment> \<open>what the condition of the main loop reads from both sources\<close>
  "paired_rows read_us levels messages rows =
     (case message_next read_us messages of
        None \<Rightarrow> []
      | Some (raw, messages') \<Rightarrow>
          (case orderbook_next levels rows of
             None \<Rightarrow> []
           | Some (book_row, rows') \<Rightarrow> (raw, book_row) # paired_rows read_us levels messages' rows'))"
  by pat_completeness auto
termination
  by (relation "measure (\<lambda>(read_us, levels, messages, rows). length messages)")
    (auto simp: message_next_def dest: next_line_shorter)

declare paired_rows.simps [simp del]

datatype LobsterExit = NoFirstRow | SnapshotThrew SnapshotError | ReplayThrew LobsterError | LobsterDone LobsterRun

definition lobster_main ::
  "(string \<Rightarrow> int \<times> string) \<Rightarrow> string list \<Rightarrow> string list \<Rightarrow> LobsterExit \<times> Sim" where
  \<comment> \<open>over the lines of the message file and of the order book file; what it prints is left out\<close>
  "lobster_main read_us messages rows =
     (case orderbook_next 10 (open_lines 0 rows) of
        None \<Rightarrow> (NoFirstRow, default_engine)
      | Some (first_row, _) \<Rightarrow>
          (case init_from_orderbook_row first_row 10 default_engine of
             (engine, Some err) \<Rightarrow> (SnapshotThrew err, engine)
           | (engine, None) \<Rightarrow>
               (case lobster_loop ''AMZN'' (paired_rows read_us 10 (open_lines 1 messages) (open_lines 1 rows))
                       \<lparr>lr_processed = 0, lr_applied = 0, lr_skipped_hidden = 0, lr_mismatches = 0\<rparr>
                       (replay_session engine default_ReplayConfig) of
                  (Inl e, s) \<Rightarrow> (ReplayThrew e, rs_engine s)
                | (Inr run, s) \<Rightarrow> (LobsterDone run, rs_engine s))))"

end
