(* ===== verification/DriverProps.thy ===== *)
theory DriverProps
  imports Drivers MultiBookRun
begin

text \<open>
  The drivers: without \<open>fail_fast\<close> only a source can make the multi-book simulator throw, so the two-book
  replay ends, either there or after its steps; and the report of fills determines the fills.
\<close>

section \<open>A simulator without fail_fast\<close>

definition read_clean :: "Items \<Rightarrow> StreamState \<Rightarrow> bool" where
  \<comment> \<open>of the items of a source, a part was read in which it did not throw; an exhausted stream has read all\<close>
  "read_clean items s \<longleftrightarrow> (\<exists>used rest. items = used @ rest \<and> ss_stream s = AdapterStream False rest \<and>
     Inl () \<notin> set used \<and> (ss_exhausted s \<longrightarrow> Inl () \<notin> set rest))"

definition read_throwing :: "Items \<Rightarrow> StreamState \<Rightarrow> bool" where
  \<comment> \<open>the last item read is the first at which the source throws\<close>
  "read_throwing items s \<longleftrightarrow>
     (\<exists>used rest. items = used @ Inl () # rest \<and> ss_stream s = AdapterStream False rest \<and> Inl () \<notin> set used)"

definition lenient :: "Items list \<Rightarrow> MultiBook \<Rightarrow> bool" where
  "lenient its mb \<longleftrightarrow> \<not> fail_fast mb \<and> list_all2 read_clean its (streams mb)"

definition thrown :: "Items list \<Rightarrow> MultiBook \<Rightarrow> bool" where
  \<comment> \<open>one source has thrown, the others have not\<close>
  "thrown its mb \<longleftrightarrow> length (streams mb) = length its \<and>
     (\<exists>i < length its. read_throwing (its ! i) (streams mb ! i) \<and>
        (\<forall>j < length its. j = i \<or> read_clean (its ! j) (streams mb ! j)))"

lemma lenient_update:
  assumes "lenient its mb" "i < length (streams mb)" "streams mb' = (streams mb)[i := s]" "fail_fast mb' = fail_fast mb"
  shows "read_clean (its ! i) s \<Longrightarrow> lenient its mb'" "read_throwing (its ! i) s \<Longrightarrow> thrown its mb'"
  using assms by (auto simp: lenient_def thrown_def list_all2_conv_all_nth nth_list_update)

lemma next_adapter_reads:
  "(next_adapter False rest = NextEnd \<and> Inl () \<notin> set rest) \<or>
   (\<exists>used rest' ev. rest = used @ rest' \<and> Inl () \<notin> set used \<and>
      next_adapter False rest = NextEvent ev (AdapterStream False rest')) \<or>
   (\<exists>used rest'. rest = used @ Inl () # rest' \<and> Inl () \<notin> set used \<and>
      next_adapter False rest = NextThrow SourceFailed (AdapterStream False rest'))"
proof (induction rest)
  case (Cons x rest)
  consider "x = Inl ()" | "x = Inr None" | ev where "x = Inr (Some ev)" by (cases x) auto
  then show ?case
  proof cases
    case 1
    then show ?thesis by (intro disjI2 exI [of _ "[]"] exI [of _ rest]) simp
  next
    case 2
    from Cons.IH show ?thesis
    proof (elim disjE exE conjE)
      fix used rest' ev
      assume "rest = used @ rest'" "Inl () \<notin> set used" "next_adapter False rest = NextEvent ev (AdapterStream False rest')"
      with 2 show ?thesis by (intro disjI2 disjI1 exI [of _ "x # used"] exI [of _ rest'] exI [of _ ev]) simp
    next
      fix used rest'
      assume "rest = used @ Inl () # rest'" "Inl () \<notin> set used"
        "next_adapter False rest = NextThrow SourceFailed (AdapterStream False rest')"
      with 2 show ?thesis by (intro disjI2 exI [of _ "x # used"] exI [of _ rest']) simp
    qed (use 2 in simp)
  next
    case 3
    then show ?thesis by (intro disjI2 disjI1 exI [of _ "[x]"] exI [of _ rest]) simp
  qed
qed simp

lemma next_reads:
  assumes "read_clean items s" "\<not> ss_exhausted s"
  obtains "next_normalized (ss_stream s) = NextEnd" "read_clean items (s\<lparr>ss_exhausted := True\<rparr>)"
    | ev n where "next_normalized (ss_stream s) = NextEvent ev n"
        "\<And>t. ss_stream t = n \<Longrightarrow> \<not> ss_exhausted t \<Longrightarrow> read_clean items t"
    | n where "next_normalized (ss_stream s) = NextThrow SourceFailed n" "read_throwing items (s\<lparr>ss_stream := n\<rparr>)"
proof -
  obtain used rest where i: "items = used @ rest" "ss_stream s = AdapterStream False rest" "Inl () \<notin> set used"
    using assms(1) by (auto simp: read_clean_def)
  from next_adapter_reads [of rest] show thesis
  proof (elim disjE exE conjE)
    assume "next_adapter False rest = NextEnd" "Inl () \<notin> set rest"
    with i show thesis by (intro that(1)) (auto simp: read_clean_def)
  next
    fix more_used rest' ev
    assume n: "rest = more_used @ rest'" "Inl () \<notin> set more_used"
      "next_adapter False rest = NextEvent ev (AdapterStream False rest')"
    have "read_clean items t" if "ss_stream t = AdapterStream False rest'" "\<not> ss_exhausted t" for t
      unfolding read_clean_def by (intro exI [of _ "used @ more_used"] exI [of _ rest']) (use i n that in simp)
    with i n show thesis by (intro that(2)) auto
  next
    fix more_used rest'
    assume n: "rest = more_used @ Inl () # rest'" "Inl () \<notin> set more_used"
      "next_adapter False rest = NextThrow SourceFailed (AdapterStream False rest')"
    have "read_throwing items (s\<lparr>ss_stream := AdapterStream False rest'\<rparr>)"
      unfolding read_throwing_def by (intro exI [of _ "used @ more_used"] exI [of _ rest']) (use i n in simp)
    with i n show thesis by (intro that(3)) auto
  qed
qed

lemma fill_loop_reads:
  "read_clean items s \<Longrightarrow> \<not> ss_exhausted s \<Longrightarrow> fill_loop monotonic False s = ((err, s'), ds) \<Longrightarrow>
     (err = None \<and> read_clean items s') \<or> (err = Some SourceFailed \<and> read_throwing items s')"
proof (induction "stream_left (ss_stream s)" arbitrary: s s' err ds rule: less_induct)
  case less
  from less.prems(1,2) show ?case
  proof (cases rule: next_reads)
    case 1
    with less.prems show ?thesis by (auto simp: fill_loop.simps [of _ _ s])
  next
    case (2 ev n)
    show ?thesis
    proof (cases "monotonic \<and> ss_has_last_ts s \<and> ev_ts_received ev < ss_last_ts s")
      case True
      obtain err2 s2 ds2 where l: "fill_loop monotonic False (s\<lparr>ss_stream := n\<rparr>) = ((err2, s2), ds2)"
        by (metis prod.exhaust)
      have "(err2 = None \<and> read_clean items s2) \<or> (err2 = Some SourceFailed \<and> read_throwing items s2)"
        by (rule less.hyps [OF _ _ _ l]) (use next_left(1) [OF 2(1)] 2(2) less.prems(2) in simp_all)
      with less.prems(3) 2 True l show ?thesis by (simp add: fill_loop.simps [of _ _ s])
    next
      case False
      with less.prems(2,3) 2 show ?thesis by (auto simp: fill_loop.simps [of _ _ s] buffer_event_def)
    qed
  next
    case (3 n)
    with less.prems(3) show ?thesis by (auto simp: fill_loop.simps [of _ _ s])
  qed
qed

lemma fill_buffer_lenient:
  assumes "lenient its mb" "i < length (streams mb)" "fill_buffer i mb = (err, mb')"
  shows "(err = None \<and> lenient its mb') \<or> (err = Some SourceFailed \<and> thrown its mb')"
proof (cases "ss_exhausted (streams mb ! i) \<or> ss_has_buffered (streams mb ! i)")
  case True
  with assms show ?thesis by (auto simp: fill_buffer_def)
next
  case False
  obtain e s' ds where l: "fill_loop (require_monotonic_ts_received mb) (fail_fast mb) (streams mb ! i) = ((e, s'), ds)"
    by (metis prod.exhaust)
  have ff: "\<not> fail_fast mb" "read_clean (its ! i) (streams mb ! i)"
    using assms(1,2) by (auto simp: lenient_def list_all2_conv_all_nth)
  have mb': "err = e" "streams mb' = (streams mb)[i := s']" "fail_fast mb' = fail_fast mb"
    using assms(3) l False by (auto simp: fill_buffer_def Let_def split: if_splits)
  from fill_loop_reads [OF ff(2)] False l ff(1)
  have "(e = None \<and> read_clean (its ! i) s') \<or> (e = Some SourceFailed \<and> read_throwing (its ! i) s')" by simp
  with lenient_update [OF assms(1,2) mb'(2,3)] mb'(1) show ?thesis by blast
qed

lemma fill_buffer_length: "fill_buffer i mb = (err, mb') \<Longrightarrow> length (streams mb') = length (streams mb)"
  by (auto simp: fill_buffer_def Let_def split: if_splits prod.splits)

lemma prime_from_lenient:
  "lenient its mb \<Longrightarrow> \<forall>i \<in> set is. i < length (streams mb) \<Longrightarrow> prime_from is mb = (err, mb') \<Longrightarrow>
     (err = None \<and> lenient its mb') \<or> (err = Some SourceFailed \<and> thrown its mb')"
proof (induction "is" arbitrary: mb)
  case (Cons i "is")
  obtain e mb1 where f: "fill_buffer i mb = (e, mb1)" by fastforce
  from fill_buffer_lenient [OF Cons.prems(1) _ f] Cons.prems(2)
  have "(e = None \<and> lenient its mb1) \<or> (e = Some SourceFailed \<and> thrown its mb1)" by simp
  with Cons f fill_buffer_length [OF f] show ?case by (auto split: if_splits)
qed simp

lemma prime_streams_lenient:
  "lenient its mb \<Longrightarrow> prime_streams mb = (err, mb') \<Longrightarrow>
     (err = None \<and> lenient its mb') \<or> (err = Some SourceFailed \<and> thrown its mb')"
  unfolding prime_streams_def by (rule prime_from_lenient) auto

lemma same_queue_lenient: "same_queue mb mb' \<Longrightarrow> lenient its mb' = lenient its mb"
  by (simp add: same_queue_def lenient_def)

lemma apply_to_book_lenient:
  assumes "lenient its mb" "apply_to_book key ev mb = (err, mb')"
  shows "err = None"
  using assms by (auto simp: apply_to_book_def lenient_def Let_def split: if_splits prod.splits)

lemma pop_entry_lenient:
  assumes "lenient its mb" shows "lenient its (pop_entry mb)"
proof -
  let ?i = "he_stream_index (hd (heap mb))"
  show ?thesis
  proof (cases "he_kind (hd (heap mb)) = Strategy \<or> \<not> ?i < length (streams mb)")
    case True
    with assms show ?thesis by (auto simp: lenient_def pop_entry_def Let_def list_update_beyond)
  next
    case False
    then have "read_clean (its ! ?i) (streams mb ! ?i)" using assms by (auto simp: lenient_def list_all2_conv_all_nth)
    then have "read_clean (its ! ?i) ((streams mb ! ?i)\<lparr>ss_has_buffered := False\<rparr>)" by (simp add: read_clean_def)
    with False show ?thesis by (intro lenient_update(1) [OF assms]) (auto simp: pop_entry_def Let_def)
  qed
qed

definition same_orders :: "MultiBook \<Rightarrow> MultiBook \<Rightarrow> bool" where
  "same_orders mb mb' \<longleftrightarrow> strategy_events mb' = strategy_events mb \<and> (\<forall>key. has_book_key key mb' = has_book_key key mb)"

lemma same_orders_intros:
  "same_books_mb mb mb' \<Longrightarrow> same_orders mb mb'" "same_queue mb mb' \<Longrightarrow> same_orders mb mb'"
  "same_orders mb mb1 \<Longrightarrow> same_orders mb1 mb' \<Longrightarrow> same_orders mb mb'"
  by (simp_all add: same_orders_def same_books_mb_def same_queue_def has_book_key_def)

lemma step_lenient:
  assumes wf: "mb_wf mb" and l: "lenient its mb" and s: "step mb = (res, mb')"
  shows "same_orders mb mb' \<and> ((\<exists>again. res = Inr again \<and> lenient its mb') \<or> (res = Inl SourceFailed \<and> thrown its mb'))"
proof -
  obtain err mb1 where p: "prime_streams mb = (err, mb1)" by fastforce
  have wf1: "mb_wf mb1" "same_orders mb mb1"
    using prime_streams_keeps [OF wf p] by (auto intro: same_orders_intros)
  from prime_streams_lenient [OF l p] show ?thesis
  proof (elim disjE conjE)
    assume "err = Some SourceFailed" "thrown its mb1"
    with p s wf1 show ?thesis by (auto simp: step_def)
  next
    assume e: "err = None" and l1: "lenient its mb1"
    show ?thesis
    proof (cases "heap mb1 = []")
      case True
      with p s l1 wf1 e show ?thesis by (auto simp: step_def)
    next
      case False
      let ?key = "fst (next_event mb1)" and ?p = "pop_entry mb1" and ?i = "he_stream_index (hd (heap mb1))"
      obtain err3 mb3 where a: "apply_to_book ?key (snd (next_event mb1)) ?p = (err3, mb3)" by fastforce
      have wfp: "mb_wf ?p" by (rule pop_entry_wf(1) [OF wf1(1) False])
      then have "same_queue ?p mb3" using apply_to_book_keeps [OF mb_wf_books a] by blast
      moreover from this have o: "same_orders mb mb3"
        using wf1(2) pop_entry_wf(2) [OF wf1(1) False] by (blast intro: same_orders_intros)
      moreover have wf3: "mb_wf mb3" using mb_wf_same [OF wfp] apply_to_book_keeps [OF mb_wf_books [OF wfp] a] by blast
      ultimately have mb3: "err3 = None" "lenient its mb3" "streams mb3 = streams ?p"
        using apply_to_book_lenient [OF pop_entry_lenient [OF l1] a] pop_entry_lenient [OF l1]
        by (simp_all add: same_queue_lenient) (simp add: same_queue_def)
      have i: "?i < length (streams mb3)" if "he_kind (hd (heap mb1)) \<noteq> Strategy"
        using next_matches(1) [OF wf1(1) False] that mb3(3)
        by (simp add: entry_matches_def pop_entry_def Let_def kind_cases)
      obtain e mb4 where f: "fill_buffer ?i mb3 = (e, mb4)" by fastforce
      have "step mb = finish_step (hd (heap mb1)) (apply_to_book ?key (snd (next_event mb1)) ?p)"
        by (rule step_shape [OF wf p [unfolded e] False])
      moreover have "same_orders mb mb4 \<and> ((e = None \<and> lenient its mb4) \<or> (e = Some SourceFailed \<and> thrown its mb4))"
        if "he_kind (hd (heap mb1)) \<noteq> Strategy"
        using fill_buffer_keeps [OF wf3 i [OF that] f] fill_buffer_lenient [OF mb3(2) i [OF that] f] o
        by (blast intro: same_orders_intros)
      ultimately show ?thesis using s a f mb3 o
        by (auto simp: finish_step_def split: if_splits)
    qed
  qed
qed

section \<open>The two-book replay\<close>

lemma run_engine_same_queue:
  "same_queue mb (snd (run_engine key f mb)) \<and> current_time (snd (run_engine key f mb)) = current_time mb"
  by (auto simp: run_engine_def same_queue_def current_time_def has_book_key_def hm_contains_def Let_def
      split: option.splits prod.splits)

lemma best_same_queue:
  "same_queue mb (snd (mb_get_best_price_ticks i s mb)) \<and>
     current_time (snd (mb_get_best_price_ticks i s mb)) = current_time mb"
proof -
  let ?r = "run_engine (book_key i) (\<lambda>st. (snd (get_best_price_ticks s st), fst (get_best_price_ticks s st))) mb"
  have "same_queue (snd ?r) (snd (mb_get_best_price_ticks i s mb)) \<and>
      current_time (snd (mb_get_best_price_ticks i s mb)) = current_time (snd ?r)"
    by (auto simp: mb_get_best_price_ticks_def current_time_def split: option.splits prod.splits)
  with run_engine_same_queue [of mb "book_key i"] show ?thesis by (auto intro: same_queue_trans)
qed

lemma top_n_same_queue: "same_queue mb (snd (mb_l2_top_n i s n mb))"
  by (simp add: mb_l2_top_n_def split: option.split)

definition driving :: "Items list \<Rightarrow> nat \<Rightarrow> MultiBook \<Rightarrow> bool" where
  \<comment> \<open>what holds between the rounds of the loop, after \<open>n\<close> orders: all of them were accepted\<close>
  "driving its n mb \<longleftrightarrow> multibook_reachable True False mb \<and> lenient its mb \<and> has_book_key (book_key spot) mb \<and>
     length (strategy_events mb) = n"

lemma driving_same_queue:
  "driving its n mb \<Longrightarrow> same_queue mb mb' \<Longrightarrow> multibook_reachable True False mb' \<Longrightarrow> driving its n mb'"
  by (simp add: driving_def same_queue_lenient) (simp add: same_queue_def)

lemma injected_accepted:
  assumes "lenient its mb" "has_book_key (book_key spot) mb"
  shows "\<exists>mb'. submit_strategy_event spot (injected_order steps (current_time mb) best) None mb = (None, mb') \<and>
    lenient its mb' \<and> has_book_key (book_key spot) mb' \<and>
    length (strategy_events mb') = Suc (length (strategy_events mb))"
proof -
  have "\<not> time_travel (submitted spot (injected_order steps (current_time mb) best) None mb) mb"
    by (auto simp: time_travel_def submitted_def injected_order_def current_time_def tag_event_def Let_def)
  from submit_accepted [OF assms(2) this] assms show ?thesis
    by (auto simp: lenient_def has_book_key_def)
qed

lemma driving_best: "driving its n mb \<Longrightarrow> driving its n (snd (mb_get_best_price_ticks i s mb))"
  by (rule driving_same_queue) (use best_same_queue in \<open>auto simp: driving_def intro: multibook_reachable.best\<close>)

lemma driving_top_n: "driving its n mb \<Longrightarrow> driving its n (snd (mb_l2_top_n i s k mb))"
  by (rule driving_same_queue) (use top_n_same_queue in \<open>auto simp: driving_def intro: multibook_reachable.top_n\<close>)

lemma driving_order:
  assumes "driving its n mb"
  shows "\<exists>mb'. submit_strategy_event spot (injected_order steps (current_time mb) best) None mb = (None, mb') \<and>
    driving its (Suc n) mb'"
proof -
  obtain mb' where s: "submit_strategy_event spot (injected_order steps (current_time mb) best) None mb = (None, mb')"
    and mb': "lenient its mb'" "has_book_key (book_key spot) mb'" "length (strategy_events mb') = Suc n"
    using injected_accepted [of its mb steps best] assms by (auto simp: driving_def)
  have "multibook_reachable True False (snd (submit_strategy_event spot (injected_order steps (current_time mb) best) None mb))"
    using assms by (intro multibook_reachable.strategy) (simp add: driving_def)
  with s mb' show ?thesis by (simp add: driving_def)
qed

lemma sample_books_driving:
  assumes "driving its n mb"
  shows "\<exists>mb' text. sample_books steps mb = (None, mb', text) \<and> driving its (Suc n) mb'"
proof -
  define mb1 where "mb1 = snd (mb_get_best_price_ticks spot BUY mb)"
  define mb2 where "mb2 = snd (mb_get_best_price_ticks spot SELL mb1)"
  define mb3 where "mb3 = snd (mb_get_best_price_ticks perp BUY mb2)"
  define mb4 where "mb4 = snd (mb_get_best_price_ticks perp SELL mb3)"
  have "driving its n mb4" unfolding mb4_def mb3_def mb2_def mb1_def by (intro driving_best assms)
  then obtain mb5 where s: "submit_strategy_event spot (injected_order steps (current_time mb4)
      (fst (mb_get_best_price_ticks spot SELL mb1))) None mb4 = (None, mb5)" and d: "driving its (Suc n) mb5"
    using driving_order by blast
  have "driving its (Suc n) (snd (mb_l2_top_n perp SELL 2 (snd (mb_l2_top_n spot BUY 2 mb5))))"
    by (intro driving_top_n d)
  moreover have "\<exists>text. sample_books steps mb = (None, snd (mb_l2_top_n perp SELL 2 (snd (mb_l2_top_n spot BUY 2 mb5))), text)"
    using s by (simp add: sample_books_def Let_def case_prod_beta mb1_def mb2_def mb3_def mb4_def)
  ultimately show ?thesis by blast
qed

lemma step_driving:
  assumes "driving its n mb"
  shows "(\<exists>again mb'. step mb = (Inr again, mb') \<and> driving its n mb' \<and> (\<not> again \<longrightarrow> heap mb' = [] \<and> primed mb')) \<or>
    (\<exists>mb'. step mb = (Inl SourceFailed, mb') \<and> thrown its mb' \<and> multibook_reachable True False mb')"
proof -
  obtain res mb' where s: "step mb = (res, mb')" by fastforce
  have wf: "mb_wf mb" using assms reachable_wf by (auto simp: driving_def)
  have "multibook_reachable True False (snd (step mb))"
    using assms by (intro multibook_reachable.one_step) (simp add: driving_def)
  moreover have "lenient its mb" using assms by (simp add: driving_def)
  from step_lenient [OF wf this s] have "same_orders mb mb'"
    "(\<exists>again. res = Inr again \<and> lenient its mb') \<or> (res = Inl SourceFailed \<and> thrown its mb')" by blast+
  ultimately show ?thesis using s assms step_facts [OF wf s] by (auto simp: driving_def same_orders_def)
qed

definition drained :: "MultiBook \<Rightarrow> bool" where
  \<comment> \<open>nothing is left in the queue or the streams\<close>
  "drained mb \<longleftrightarrow> heap mb = [] \<and> (\<forall>s \<in> set (streams mb). ss_exhausted s \<and> \<not> ss_has_buffered s)"

lemma drained_intro:
  assumes "mb_wf mb" "heap mb = []" "primed mb"
  shows "drained mb"
proof -
  have q: "queue_ok [] (streams mb) (strategy_events mb)" using assms(1,2) by (simp add: mb_wf_def)
  have "\<not> ss_has_buffered s" if "s \<in> set (streams mb)" for s using queue_ok_stream [OF q that] by auto
  with assms(2,3) show ?thesis by (auto simp: drained_def primed_def)
qed

lemma multibook_loop_drives:
  "driving its (steps div 500) mb \<Longrightarrow>
     (\<exists>steps' mb' out'. multibook_loop left steps mb out = (Inr steps', mb', out') \<and> driving its (steps' div 500) mb' \<and>
       steps' \<le> steps + left \<and> (steps' < steps + left \<longrightarrow> drained mb')) \<or>
     (\<exists>mb' out'. multibook_loop left steps mb out = (Inl SourceFailed, mb', out') \<and> thrown its mb' \<and>
       multibook_reachable True False mb')"
proof (induction left arbitrary: steps mb out)
  case (Suc left)
  from step_driving [OF Suc.prems] show ?case
  proof (elim disjE exE conjE)
    fix mb1 assume "step mb = (Inl SourceFailed, mb1)" "thrown its mb1" "multibook_reachable True False mb1"
    then show ?thesis by simp
  next
    fix again mb1 assume s: "step mb = (Inr again, mb1)" and d: "driving its (steps div 500) mb1"
      and e: "\<not> again \<longrightarrow> heap mb1 = [] \<and> primed mb1"
    consider "\<not> again" | "again" "(steps + 1) mod 500 = 0" | "again" "(steps + 1) mod 500 \<noteq> 0" by blast
    then show ?thesis
    proof cases
      case 1
      have "mb_wf mb1" using d reachable_wf by (auto simp: driving_def)
      then have "drained mb1" using 1 e by (simp add: drained_intro)
      then show ?thesis using 1 d by (simp add: s)
    next
      case 2
      then have "(steps + 1) div 500 = Suc (steps div 500)" by (simp add: div_Suc)
      moreover obtain mb2 txt1 where b: "sample_books (steps + 1) mb1 = (None, mb2, txt1)" "driving its (Suc (steps div 500)) mb2"
        using sample_books_driving [OF d] by blast
      ultimately have "driving its ((steps + 1) div 500) mb2" by simp
      from Suc.IH [OF this, of "out @ txt1"] show ?thesis using 2 by (simp add: s b(1) [unfolded Suc_eq_plus1 [symmetric]])
    next
      case 3
      then have "(steps + 1) div 500 = steps div 500" by (simp add: div_Suc)
      with d have "driving its ((steps + 1) div 500) mb1" by simp
      from Suc.IH [OF this, of out] show ?thesis using 3 by (simp add: s)
    qed
  qed
qed auto

lemma driving_book:
  assumes "driving its n mb \<or> (lenient its mb \<and> strategy_events mb = [] \<and> n = 0 \<and> i = spot \<and> multibook_reachable True False mb)"
  shows "driving its n (snd (add_default_book i mb)) \<and> streams (snd (add_default_book i mb)) = streams mb \<and>
    (\<forall>key. has_book_key key (snd (add_default_book i mb)) \<longleftrightarrow> key = book_key i \<or> has_book_key key mb)"
proof -
  let ?mb = "snd (add_book i (sim_init 200000 100000) mb)"
  have "lenient its mb" "multibook_reachable True False mb" "length (strategy_events mb) = n"
    "i = spot \<or> has_book_key (book_key spot) mb" using assms by (auto simp: driving_def)
  moreover have "fail_fast ?mb = fail_fast mb \<and> streams ?mb = streams mb \<and> strategy_events ?mb = strategy_events mb"
    by (auto simp: add_book_def attach_book_sink_def Let_def split: option.splits)
  moreover have "has_book_key key ?mb \<longleftrightarrow> key = book_key i \<or> has_book_key key mb" for key
    by (auto simp: add_book_def attach_book_sink_def has_book_key_def hm_contains_def Let_def split: option.splits)
  ultimately show ?thesis by (auto simp: driving_def lenient_def add_default_book_def intro: multibook_reachable.book)
qed

lemma driving_stream:
  assumes d: "driving its n mb" and new: "book_key i \<notin> set (map ss_book_key (streams mb))" and b: "has_book_key (book_key i) mb"
  shows "driving (its @ [items]) n (snd (add_adapter_stream i items mb)) \<and>
    map ss_book_key (streams (snd (add_adapter_stream i items mb))) = map ss_book_key (streams mb) @ [book_key i] \<and>
    (\<forall>key. has_book_key key (snd (add_adapter_stream i items mb)) = has_book_key key mb)"
proof -
  have ff: "\<not> fail_fast mb" using d by (simp add: driving_def lenient_def)
  have "\<not> has_stream_for_book_key (book_key i) mb" using new by (force simp: has_stream_for_book_key_def list_ex_iff)
  then have mb': "snd (add_adapter_stream i items mb) = mb\<lparr>streams := streams mb @
      [\<lparr>ss_book_key = book_key i, ss_stream = AdapterStream False items, ss_exhausted = False, ss_has_buffered = False,
        ss_buffered = default_event, ss_has_last_ts = False, ss_last_ts = 0, ss_seq = 0\<rparr>]\<rparr>"
    using b ff by (simp add: add_adapter_stream_def add_stream_def Let_def)
  have "multibook_reachable True False (snd (add_adapter_stream i items mb))"
    using d by (intro multibook_reachable.adapter) (simp add: driving_def)
  moreover have "list_all2 read_clean (its @ [items]) (streams (snd (add_adapter_stream i items mb)))"
    using d unfolding mb' by (simp add: driving_def lenient_def list_all2_appendI read_clean_def)
  ultimately show ?thesis using d by (simp add: driving_def lenient_def has_book_key_def) (simp add: mb')
qed

lemma setup_driving: "driving [spot_items, perp_items] 0 (multibook_setup spot_items perp_items)"
proof -
  define mb0 where "mb0 = set_multi_log_sink True (multibook_init True False)"
  define mb1 where "mb1 = snd (add_default_book spot mb0)"
  define mb2 where "mb2 = snd (add_default_book perp mb1)"
  define mb3 where "mb3 = snd (add_adapter_stream spot spot_items mb2)"
  have "fail_fast mb0 = False" "streams mb0 = []" "strategy_events mb0 = []" unfolding mb0_def by code_simp+
  moreover have "multibook_reachable True False mb0" unfolding mb0_def by (intro multibook_reachable.intros)
  ultimately have 1: "driving [] 0 mb1" "streams mb1 = []" "has_book_key (book_key spot) mb1"
    using driving_book [of "[]" 0 mb0 spot] by (simp_all add: mb1_def lenient_def)
  have 2: "driving [] 0 mb2" "streams mb2 = []"
    and books: "has_book_key (book_key spot) mb2" "has_book_key (book_key perp) mb2"
    using driving_book [of "[]" 0 mb1 perp] 1 by (simp_all add: mb2_def)
  have "driving ([] @ [spot_items]) 0 mb3 \<and> map ss_book_key (streams mb3) = map ss_book_key (streams mb2) @ [book_key spot] \<and>
      (\<forall>key. has_book_key key mb3 = has_book_key key mb2)"
    unfolding mb3_def by (rule driving_stream [OF 2(1) _ books(1)]) (simp add: 2(2))
  then have 3: "driving [spot_items] 0 mb3" "map ss_book_key (streams mb3) = [book_key spot]" "has_book_key (book_key perp) mb3"
    using 2(2) books(2) by simp_all
  have "book_key perp \<noteq> book_key spot" by code_simp
  then have "driving ([spot_items] @ [perp_items]) 0 (snd (add_adapter_stream perp perp_items mb3))"
    using driving_stream [OF 3(1) _ 3(3)] 3(2) by simp
  then show ?thesis by (simp add: multibook_setup_def Let_def mb3_def mb2_def mb1_def mb0_def)
qed

text \<open>C36 Whatever the two files hold, the two-book replay ends, and only a source can make it throw. It
  ends with an exception exactly when a source throws at a row that is read: then the last item read of one
  stream is the first at which its source throws, and no other source has thrown. Otherwise it takes at
  most 2000 steps, stops before that only when every stream is exhausted and no event, of a file or of the
  strategy, is left in the queue, and injects one order after every 500 steps, each of which the
  simulator accepts. Either way the state is one that the simulator's invariant covers.\<close>

theorem multibook_main_ends:
  "case multibook_main spot_items perp_items of
     (Inl err, mb, out) \<Rightarrow> err = SourceFailed \<and> thrown [spot_items, perp_items] mb \<and>
       Inl () \<in> set spot_items \<union> set perp_items \<and> multibook_reachable True False mb
   | (Inr steps, mb, out) \<Rightarrow> steps \<le> 2000 \<and> (steps = 2000 \<or> drained mb) \<and>
       length (strategy_events mb) = steps div 500 \<and>
       list_all2 read_clean [spot_items, perp_items] (streams mb) \<and> multibook_reachable True False mb"
proof -
  have "driving [spot_items, perp_items] (0 div 500) (multibook_setup spot_items perp_items)" using setup_driving by simp
  from multibook_loop_drives [OF this, of 2000 "[]"] show ?thesis
  proof (elim disjE exE conjE)
    fix mb' out' assume l: "multibook_loop 2000 0 (multibook_setup spot_items perp_items) [] = (Inl SourceFailed, mb', out')"
      and t: "thrown [spot_items, perp_items] mb'" and r: "multibook_reachable True False mb'"
    have "Inl () \<in> set spot_items \<union> set perp_items"
      using t by (auto simp: thrown_def read_throwing_def less_Suc_eq)
    with l t r show ?thesis by (simp add: multibook_main_def)
  next
    fix steps' mb' out'
    assume "multibook_loop 2000 0 (multibook_setup spot_items perp_items) [] = (Inr steps', mb', out')"
      "driving [spot_items, perp_items] (steps' div 500) mb'" "steps' \<le> 0 + 2000" "steps' < 0 + 2000 \<longrightarrow> drained mb'"
    then show ?thesis by (auto simp: multibook_main_def driving_def lenient_def)
  qed
qed

section \<open>The report of fills\<close>

lemma split_at_first:
  "x \<notin> set xs \<Longrightarrow> x \<notin> set ys \<Longrightarrow> xs @ x # r = ys @ x # r' \<longleftrightarrow> xs = ys \<and> r = r'"
proof (induction xs arbitrary: ys)
  case Nil
  then show ?case by (cases ys) auto
next
  case (Cons y xs)
  then show ?case by (cases ys) auto
qed

lemma show_int_inject [simp]: "show_int v = show_int w \<longleftrightarrow> v = w"
proof
  assume e: "show_int v = show_int w"
  have nat: "m = n" if "show_nat m = show_nat n" for m n
    using arg_cong [OF that, of decimal] by simp
  have "hd (show_nat n) \<noteq> CHR ''-''" for n using hd_show_nat is_digit_not_minus by blast
  then have "CHR ''-'' # t \<noteq> show_nat n" "show_nat n \<noteq> CHR ''-'' # t" for t n by (metis list.sel(1))+
  with e show "v = w" by (auto simp: show_int_def dest: nat split: if_splits)
qed simp

lemma show_int_free: "c \<noteq> CHR ''-'' \<Longrightarrow> \<not> is_digit c \<Longrightarrow> c \<notin> set (show_int v)"
  using show_int_chars [of v] by (auto simp: list_all_iff)

lemma separated_inject:
  "length ts = length us \<Longrightarrow> \<forall>t \<in> set ts \<union> set us. sep \<notin> set t \<Longrightarrow> separated sep ts = separated sep us \<Longrightarrow> ts = us"
proof (induction ts us rule: list_induct2)
  case (Cons t ts u us)
  then show ?case by (cases ts; cases us) (auto simp: split_at_first)
qed simp

lemma set_separated: "set (separated sep ts) \<subseteq> insert sep (\<Union> (set ` set ts))"
  by (induction sep ts rule: separated.induct) auto

definition fill_text :: "FillRecord \<Rightarrow> string" where
  "fill_text r = separated CHR '','' (map show_int (fill_fields r))"

lemma fill_text_inject: "fill_text r = fill_text r' \<longleftrightarrow> fill_fields r = fill_fields r'"
proof
  assume e: "fill_text r = fill_text r'"
  have "CHR '','' \<notin> set (show_int v)" for v
    by (rule show_int_free) (simp_all add: is_digit_def char_code_def)
  with e have "map show_int (fill_fields r) = map show_int (fill_fields r')"
    unfolding fill_text_def by (intro separated_inject) (auto simp: fill_fields_def)
  then show "fill_fields r = fill_fields r'" by (simp add: map_eq_conv inj_map_eq_map inj_def)
qed (simp add: fill_text_def)

lemma newline_free: "newline \<notin> set (fill_text r)"
proof -
  have "newline \<notin> set (show_int v)" for v
    by (rule show_int_free) (simp_all add: is_digit_def char_code_def newline_def)
  moreover have "newline \<noteq> CHR '',''" by (simp add: newline_def)
  ultimately show ?thesis
    using set_separated [of "CHR '',''" "map show_int (fill_fields r)"] by (auto simp: fill_text_def)
qed

lemma lines_inject:
  "concat (map fill_line fills) = concat (map fill_line fills') \<longleftrightarrow> map fill_fields fills = map fill_fields fills'"
proof (induction fills arbitrary: fills')
  case Nil
  then show ?case by (cases fills') (auto simp: fill_line_def)
next
  case (Cons r fills)
  then show ?case
    by (cases fills')
      (auto simp: fill_line_def fill_text_def [symmetric] split_at_first newline_free fill_text_inject)
qed

lemma side_code_inject [simp]: "side_code s = side_code s' \<longleftrightarrow> s = s'"
  by (cases s; cases s') simp_all

lemma source_code_inject [simp]: "source_code u = source_code u' \<longleftrightarrow> u = u'"
  by (cases u; cases u') simp_all

lemma fill_fields_inject:
  fixes r r' :: FillRecord
  shows "fill_fields r = fill_fields r' \<longleftrightarrow> r\<lparr>fr_book_key := []\<rparr> = r'\<lparr>fr_book_key := []\<rparr>"
  by (cases r; cases r') (auto simp: fill_fields_def)

lemma map_fill_fields:
  "map fill_fields fills = map fill_fields fills' \<longleftrightarrow>
     map (\<lambda>r. r\<lparr>fr_book_key := []\<rparr>) fills = map (\<lambda>r. r\<lparr>fr_book_key := []\<rparr>) fills'"
proof (induction fills arbitrary: fills')
  case (Cons r fills)
  then show ?case by (cases fills') (simp_all add: fill_fields_inject)
qed auto

text \<open>The report of fills loses nothing but the book's key, of which a single-book run has only one:
  two lists of fills have the same report exactly when they are the same fills in the same order.\<close>

lemma fills_csv_determines_fills:
  "write_fills_csv fills = write_fills_csv fills' \<longleftrightarrow>
     map (\<lambda>r. r\<lparr>fr_book_key := []\<rparr>) fills = map (\<lambda>r. r\<lparr>fr_book_key := []\<rparr>) fills'"
  by (simp add: write_fills_csv_def lines_inject map_fill_fields)

section \<open>The other drivers\<close>

lemma update_wf: "sim_wf st \<Longrightarrow> sim_wf (update event st)"
  using update_preserves_all [of st event] by (simp add: preserves_def)

lemma sampling_loop_wf:
  "sim_wf engine \<Longrightarrow> sampling_loop env source i engine out = (ok, engine', out') \<Longrightarrow> sim_wf engine'"
proof (induction env source i engine out rule: sampling_loop.induct)
  case (3 env raw source i engine out)
  have best: "sim_wf (snd (get_best_price_ticks s st))" if "sim_wf st" for s st
    using that clean_heap [of st s] by (auto simp: get_best_price_ticks_def Let_def split: prod.splits)
  have sample: "sim_wf (fst (sample_engine ev st))" if "sim_wf st" for ev st
    using best [OF that, of SELL] by (auto simp: sample_engine_def Let_def update_wf split: prod.splits)
  show ?case
  proof (cases "try_normalize env single_btcusdt_spec raw")
    case None
    with 3 show ?thesis by simp
  next
    case (Some ev)
    have wf: "sim_wf (update ev engine)" by (rule update_wf [OF "3.prems"(1)])
    obtain st txt1 where e: "sample_engine ev (update ev engine) = (st, txt1)" by fastforce
    with sample [OF wf, of ev] have "sim_wf st" by simp
    with 3 Some wf e show ?thesis by (auto simp: Let_def split: if_splits)
  qed
qed auto

lemma sampling_run_wf: "sampling_run env source = (ok, engine, out) \<Longrightarrow> sim_wf engine"
proof -
  have "sim_wf default_engine" using sim_wf_init by (simp add: default_engine_def set_log_sink_def sim_wf_def)
  moreover assume "sampling_run env source = (ok, engine, out)"
  ultimately show ?thesis
    using sampling_loop_wf [of default_engine env source 0 "[]" ok engine] by (auto simp: sampling_run_def split: prod.splits)
qed

text \<open>The LOBSTER replay accounts for every row it reads: it was applied or it was hidden.\<close>

lemma lobster_loop_counts:
  "lobster_loop symbol rows run s = (Inr run', s') \<Longrightarrow>
     lr_processed run' = lr_processed run + length rows \<and>
     lr_applied run' + lr_skipped_hidden run' = lr_applied run + lr_skipped_hidden run + length rows"
proof (induction symbol rows run s rule: lobster_loop.induct)
  case (2 symbol raw book_row rows run s)
  have c: "lr_processed (check_row r e n) = lr_processed n" "lr_applied (check_row r e n) = lr_applied n"
    "lr_skipped_hidden (check_row r e n) = lr_skipped_hidden n" for r e n
    by (simp_all add: check_row_def)
  from 2 show ?case
    by (auto simp: Let_def c split: LobsterOutcome.splits prod.splits sum.splits)
qed simp

lemma lobster_main_counts:
  assumes "lobster_main read_us messages rows = (LobsterDone run, engine)"
  shows "lr_processed run = length (paired_rows read_us 10 (drop 1 messages) (drop 1 rows)) \<and>
    lr_applied run + lr_skipped_hidden run = lr_processed run"
  using assms
  by (auto simp: lobster_main_def open_lines_def split: option.splits prod.splits sum.splits dest: lobster_loop_counts)

end
