(* ===== verification/BlockingQueue.thy ===== *)
theory BlockingQueue
  imports Prelude
begin

text \<open>
  The bounded queue between threads of \<open>benchmark/blocking_queue.hpp\<close>. Its critical sections are the
  steps of a transition relation: which thread gets the mutex next, which waiting thread a
  notification reaches and when a wait ends spuriously is left open. A thread that waits on
  \<open>cvNotFull\<close> is its value in \<open>bq_push_asleep\<close>, and in \<open>bq_push_awake\<close> once it was woken and has to take
  the mutex again; of the threads that wait on \<open>cvNotEmpty\<close> only their number matters. The counters
  of nanoseconds are left out.
\<close>

section \<open>State\<close>

record 'a BlockingQueue =
  bq_capacity :: nat
  bq_queue :: "'a list"
  bq_closed :: bool
  bq_pushes :: nat
  bq_pops :: nat
  bq_push_dropped :: nat
  bq_max_depth :: nat
  bq_push_asleep :: "'a list"
  bq_push_awake :: "'a list"
  bq_pop_asleep :: nat
  bq_pop_awake :: nat
  bq_to_notify_not_empty :: nat
  bq_to_notify_not_full :: nat
  \<comment> \<open>calls of \<open>close\<close> that still have to notify both condition variables, or the second\<close>

definition bq_init :: "nat \<Rightarrow> 'a BlockingQueue" where
  "bq_init capacity = \<lparr>bq_capacity = capacity, bq_queue = [], bq_closed = False, bq_pushes = 0,
     bq_pops = 0, bq_push_dropped = 0, bq_max_depth = 0, bq_push_asleep = [], bq_push_awake = [],
     bq_pop_asleep = 0, bq_pop_awake = 0, bq_to_notify_not_empty = 0, bq_to_notify_not_full = 0\<rparr>"

datatype 'a BqEvent =
    Accepted 'a
  | Refused 'a
  | Taken 'a
  | PoppedNothing
  | Closed
  | Internal
  \<comment> \<open>what a step lets its caller see: \<open>push\<close> returns true or false, \<open>pop\<close> a value or nothing\<close>

section \<open>Critical sections\<close>

definition notify_not_empty :: "'a BlockingQueue \<Rightarrow> 'a BlockingQueue" where
  \<comment> \<open>\<open>cvNotEmpty.notify_one()\<close>\<close>
  "notify_not_empty q =
     (if bq_pop_asleep q = 0 then q
      else q\<lparr>bq_pop_asleep := bq_pop_asleep q - 1, bq_pop_awake := bq_pop_awake q + 1\<rparr>)"

definition notify_not_full :: "'a BlockingQueue \<Rightarrow> 'a BlockingQueue list" where
  \<comment> \<open>\<open>cvNotFull.notify_one()\<close>: the states after the choice of a waiting thread\<close>
  "notify_not_full q =
     (if bq_push_asleep q = [] then [q]
      else map (\<lambda>v. q\<lparr>bq_push_asleep := remove1 v (bq_push_asleep q), bq_push_awake := v # bq_push_awake q\<rparr>)
             (bq_push_asleep q))"

definition push_locked :: "'a \<Rightarrow> 'a BlockingQueue \<Rightarrow> 'a BqEvent \<times> 'a BlockingQueue" where
  \<comment> \<open>\<open>push\<close> with the mutex held, up to its return or up to the wait\<close>
  "push_locked v q =
     (if \<not> (bq_closed q \<or> length (bq_queue q) < bq_capacity q)
      then (Internal, q\<lparr>bq_push_asleep := v # bq_push_asleep q\<rparr>)
      else if bq_closed q then (Refused v, q\<lparr>bq_push_dropped := bq_push_dropped q + 1\<rparr>)
      else (Accepted v, notify_not_empty (q\<lparr>bq_queue := bq_queue q @ [v], bq_pushes := bq_pushes q + 1,
              bq_max_depth := max (bq_max_depth q) (length (bq_queue q) + 1)\<rparr>)))"

definition pop_locked :: "'a BlockingQueue \<Rightarrow> 'a BqEvent \<times> 'a BlockingQueue list" where
  \<comment> \<open>\<open>pop\<close> with the mutex held; the states differ in the thread that is notified\<close>
  "pop_locked q =
     (if \<not> (bq_closed q \<or> bq_queue q \<noteq> []) then (Internal, [q\<lparr>bq_pop_asleep := bq_pop_asleep q + 1\<rparr>])
      else case bq_queue q of
        [] \<Rightarrow> (PoppedNothing, [q])
      | v # vs \<Rightarrow> (Taken v, notify_not_full (q\<lparr>bq_queue := vs, bq_pops := bq_pops q + 1\<rparr>)))"

section \<open>Steps\<close>

inductive bq_step :: "'a BlockingQueue \<Rightarrow> 'a BqEvent \<Rightarrow> 'a BlockingQueue \<Rightarrow> bool" where
  push_zero: "bq_capacity q = 0 \<Longrightarrow> bq_step q (Refused v) (q\<lparr>bq_push_dropped := bq_push_dropped q + 1\<rparr>)"
| push: "bq_capacity q \<noteq> 0 \<Longrightarrow> push_locked v q = (e, q') \<Longrightarrow> bq_step q e q'"
| push_again: "v \<in> set (bq_push_awake q) \<Longrightarrow>
    push_locked v (q\<lparr>bq_push_awake := remove1 v (bq_push_awake q)\<rparr>) = (e, q') \<Longrightarrow> bq_step q e q'"
| pop: "pop_locked q = (e, qs) \<Longrightarrow> q' \<in> set qs \<Longrightarrow> bq_step q e q'"
| pop_again: "bq_pop_awake q \<noteq> 0 \<Longrightarrow> pop_locked (q\<lparr>bq_pop_awake := bq_pop_awake q - 1\<rparr>) = (e, qs) \<Longrightarrow>
    q' \<in> set qs \<Longrightarrow> bq_step q e q'"
| push_spurious: "v \<in> set (bq_push_asleep q) \<Longrightarrow> bq_step q Internal
    (q\<lparr>bq_push_asleep := remove1 v (bq_push_asleep q), bq_push_awake := v # bq_push_awake q\<rparr>)"
| pop_spurious: "bq_pop_asleep q \<noteq> 0 \<Longrightarrow> bq_step q Internal
    (q\<lparr>bq_pop_asleep := bq_pop_asleep q - 1, bq_pop_awake := bq_pop_awake q + 1\<rparr>)"
| close_mark: "bq_step q Closed (q\<lparr>bq_closed := True, bq_to_notify_not_empty := bq_to_notify_not_empty q + 1\<rparr>)"
| close_not_empty: "bq_to_notify_not_empty q \<noteq> 0 \<Longrightarrow> bq_step q Internal
    (q\<lparr>bq_to_notify_not_empty := bq_to_notify_not_empty q - 1,
       bq_to_notify_not_full := bq_to_notify_not_full q + 1,
       bq_pop_asleep := 0, bq_pop_awake := bq_pop_awake q + bq_pop_asleep q\<rparr>)"
| close_not_full: "bq_to_notify_not_full q \<noteq> 0 \<Longrightarrow> bq_step q Internal
    (q\<lparr>bq_to_notify_not_full := bq_to_notify_not_full q - 1,
       bq_push_asleep := [], bq_push_awake := bq_push_awake q @ bq_push_asleep q\<rparr>)"

inductive bq_run :: "nat \<Rightarrow> 'a BqEvent list \<Rightarrow> 'a BlockingQueue \<Rightarrow> bool" for capacity where
  start: "bq_run capacity [] (bq_init capacity)"
| more: "bq_run capacity es q \<Longrightarrow> bq_step q e q' \<Longrightarrow> bq_run capacity (es @ [e]) q'"

section \<open>What was accepted and taken\<close>

fun accepted_value :: "'a BqEvent \<Rightarrow> 'a list" where
  "accepted_value (Accepted v) = [v]"
| "accepted_value e = []"

fun taken_value :: "'a BqEvent \<Rightarrow> 'a list" where
  "taken_value (Taken v) = [v]"
| "taken_value e = []"

definition accepted :: "'a BqEvent list \<Rightarrow> 'a list" where
  "accepted es = concat (map accepted_value es)"

definition taken :: "'a BqEvent list \<Rightarrow> 'a list" where
  "taken es = concat (map taken_value es)"

definition refusals :: "'a BqEvent list \<Rightarrow> nat" where
  "refusals es = length (filter (\<lambda>e. case e of Refused _ \<Rightarrow> True | _ \<Rightarrow> False) es)"

lemma history_simps [simp]:
  "accepted [] = []" "taken [] = []" "refusals [] = 0"
  "accepted (es @ [e]) = accepted es @ accepted_value e" "taken (es @ [e]) = taken es @ taken_value e"
  "refusals (es @ [e]) = refusals es + (case e of Refused _ \<Rightarrow> 1 | _ \<Rightarrow> 0)"
  by (simp_all add: accepted_def taken_def refusals_def split: BqEvent.split)

section \<open>The invariant\<close>

text \<open>
  The first part relates the state to the history. The second part is why a single notification is
  enough: as long as a consumer sleeps, the values in the queue are at most as many as the consumers
  that were woken and have not yet looked; the same holds of free places and producers.
\<close>

definition bq_inv :: "nat \<Rightarrow> 'a BqEvent list \<Rightarrow> 'a BlockingQueue \<Rightarrow> bool" where
  "bq_inv capacity es q \<longleftrightarrow> bq_capacity q = capacity \<and> accepted es = taken es @ bq_queue q \<and>
     bq_pushes q = length (accepted es) \<and> bq_pops q = length (taken es) \<and> bq_push_dropped q = refusals es \<and>
     length (bq_queue q) \<le> bq_max_depth q \<and> bq_max_depth q \<le> capacity \<and> (bq_closed q \<longleftrightarrow> Closed \<in> set es)"

definition wake_ok :: "bool \<Rightarrow> nat \<Rightarrow> nat \<Rightarrow> nat \<Rightarrow> nat \<Rightarrow> nat \<Rightarrow> nat \<Rightarrow> nat \<Rightarrow> nat \<Rightarrow> bool" where
  \<comment> \<open>over the numbers of values, of sleeping and woken consumers and producers, and of closing threads\<close>
  "wake_ok cls cap n ca cw pa pw te tf \<longleftrightarrow>
     (ca \<noteq> 0 \<longrightarrow> n \<le> cw) \<and> (\<not> cls \<and> pa \<noteq> 0 \<longrightarrow> cap \<le> n + pw) \<and>
     (cls \<and> ca \<noteq> 0 \<longrightarrow> te \<noteq> 0) \<and> (cls \<and> pa \<noteq> 0 \<longrightarrow> te \<noteq> 0 \<or> tf \<noteq> 0) \<and>
     n \<le> cap \<and> (cap = 0 \<longrightarrow> pw = 0 \<and> pa = 0)"

definition bq_awake :: "'a BlockingQueue \<Rightarrow> bool" where
  "bq_awake q \<longleftrightarrow> wake_ok (bq_closed q) (bq_capacity q) (length (bq_queue q)) (bq_pop_asleep q) (bq_pop_awake q)
     (length (bq_push_asleep q)) (length (bq_push_awake q)) (bq_to_notify_not_empty q) (bq_to_notify_not_full q)"

lemma bq_inv_init: "bq_inv capacity [] (bq_init capacity)"
  by (simp add: bq_inv_def bq_init_def)

lemma bq_awake_init: "bq_awake (bq_init capacity)"
  by (simp add: bq_awake_def wake_ok_def bq_init_def)

lemma notify_not_full_cases:
  assumes "q' \<in> set (notify_not_full q)"
  obtains "bq_push_asleep q = []" "q' = q"
    | v where "v \<in> set (bq_push_asleep q)"
      "q' = q\<lparr>bq_push_asleep := remove1 v (bq_push_asleep q), bq_push_awake := v # bq_push_awake q\<rparr>"
  using assms by (auto simp: notify_not_full_def split: if_splits)

lemma push_locked_inv:
  "bq_inv capacity es q \<Longrightarrow> push_locked v q = (e, q') \<Longrightarrow> bq_inv capacity (es @ [e]) q'"
  by (auto simp: push_locked_def bq_inv_def notify_not_empty_def split: if_splits)

lemma pop_locked_inv:
  "bq_inv capacity es q \<Longrightarrow> pop_locked q = (e, qs) \<Longrightarrow> q' \<in> set qs \<Longrightarrow> bq_inv capacity (es @ [e]) q'"
  by (auto simp: pop_locked_def bq_inv_def split: if_splits list.splits elim!: notify_not_full_cases)

lemma bq_inv_waiting:
  "bq_inv capacity es (q\<lparr>bq_push_awake := x\<rparr>) = bq_inv capacity es q"
  "bq_inv capacity es (q\<lparr>bq_pop_awake := n\<rparr>) = bq_inv capacity es q"
  by (simp_all add: bq_inv_def)

lemma bq_step_inv: "bq_step q e q' \<Longrightarrow> bq_inv capacity es q \<Longrightarrow> bq_inv capacity (es @ [e]) q'"
proof (induction rule: bq_step.induct)
  case (push_again v q e q')
  then show ?case using push_locked_inv bq_inv_waiting(1) by metis
next
  case (pop_again q e qs q')
  then show ?case using pop_locked_inv bq_inv_waiting(2) by metis
qed (simp_all add: push_locked_inv pop_locked_inv, simp_all add: bq_inv_def)

lemma remove1_in: "v \<in> set vs \<Longrightarrow> Suc (length (remove1 v vs)) = length vs"
  by (simp add: length_remove1) (metis Suc_pred length_pos_if_in_set)

lemma wake_ok_push:
  assumes "wake_ok cls cap n ca cw pa (pw + k) te tf" "k \<le> 1" "cap \<noteq> 0"
  shows "\<not> cls \<Longrightarrow> \<not> n < cap \<Longrightarrow> wake_ok cls cap n ca cw (Suc pa) pw te tf"
    and "cls \<Longrightarrow> wake_ok cls cap n ca cw pa pw te tf"
    and "\<not> cls \<Longrightarrow> n < cap \<Longrightarrow> ca = 0 \<Longrightarrow> wake_ok cls cap (Suc n) ca cw pa pw te tf"
    and "\<not> cls \<Longrightarrow> n < cap \<Longrightarrow> wake_ok cls cap (Suc n) (ca - 1) (Suc cw) pa pw te tf"
  using assms by (auto simp: wake_ok_def)

lemma push_locked_awake:
  assumes "bq_awake (q\<lparr>bq_push_awake := ws\<rparr>)" "length ws = length (bq_push_awake q) + k" "k \<le> 1" "bq_capacity q \<noteq> 0"
    and "push_locked v q = (e, q')"
  shows "bq_awake q'"
  using assms(5) wake_ok_push [OF _ assms(3,4)] assms(1,2)
  by (auto simp: push_locked_def bq_awake_def notify_not_empty_def split: if_splits)

lemma wake_ok_pop:
  assumes "wake_ok cls cap n ca (cw + k) pa pw te tf" "k \<le> 1"
  shows "\<not> cls \<Longrightarrow> n = 0 \<Longrightarrow> wake_ok cls cap n (Suc ca) cw pa pw te tf"
    and "n = 0 \<Longrightarrow> wake_ok cls cap n ca cw pa pw te tf"
    and "n = Suc m \<Longrightarrow> pa = 0 \<Longrightarrow> wake_ok cls cap m ca cw pa pw te tf"
    and "n = Suc m \<Longrightarrow> pa \<noteq> 0 \<Longrightarrow> wake_ok cls cap m ca cw (pa - 1) (Suc pw) te tf"
  using assms by (auto simp: wake_ok_def)

lemma pop_locked_awake:
  assumes "bq_awake (q\<lparr>bq_pop_awake := bq_pop_awake q + k\<rparr>)" "k \<le> 1"
    and "pop_locked q = (e, qs)" "q' \<in> set qs"
  shows "bq_awake q'"
proof -
  note w = wake_ok_pop [OF assms(1) [unfolded bq_awake_def, simplified] assms(2)]
  show ?thesis
  proof (cases "bq_queue q")
    case Nil
    with assms(3,4) w(1,2) show ?thesis
      by (auto simp: pop_locked_def bq_awake_def split: if_splits)
  next
    case (Cons x xs)
    then have "q' \<in> set (notify_not_full (q\<lparr>bq_queue := xs, bq_pops := bq_pops q + 1\<rparr>))"
      using assms(3,4) by (auto simp: pop_locked_def)
    then show ?thesis
    proof (cases rule: notify_not_full_cases)
      case 1
      with Cons w(3) [of "length xs"] show ?thesis by (simp add: bq_awake_def)
    next
      case (2 u)
      then have "length (remove1 u (bq_push_asleep q)) = length (bq_push_asleep q) - 1" "bq_push_asleep q \<noteq> []"
        by (auto simp: length_remove1)
      with 2 Cons w(4) [of "length xs"] show ?thesis by (simp add: bq_awake_def)
    qed
  qed
qed

lemma bq_step_awake: "bq_step q e q' \<Longrightarrow> bq_awake q \<Longrightarrow> bq_awake q'"
proof (induction rule: bq_step.induct)
  case (push q v e q')
  then show ?case using push_locked_awake [where q = q and ws = "bq_push_awake q" and k = 0] by simp
next
  case (push_again v q e q')
  have "bq_capacity q \<noteq> 0" using push_again.hyps(1) push_again.prems by (auto simp: bq_awake_def wake_ok_def)
  with push_again remove1_in [OF push_again.hyps(1)] show ?case
    using push_locked_awake
      [where q = "q\<lparr>bq_push_awake := remove1 v (bq_push_awake q)\<rparr>" and ws = "bq_push_awake q" and k = 1] by simp
next
  case (pop q e qs q')
  then show ?case using pop_locked_awake [where q = q and k = 0] by simp
next
  case (pop_again q e qs q')
  then show ?case using pop_locked_awake [where q = "q\<lparr>bq_pop_awake := bq_pop_awake q - 1\<rparr>" and k = 1] by simp
next
  case (push_spurious v q)
  then have "length (remove1 v (bq_push_asleep q)) = length (bq_push_asleep q) - 1" "bq_push_asleep q \<noteq> []"
    by (auto simp: length_remove1)
  with push_spurious.prems show ?case by (auto simp: bq_awake_def wake_ok_def)
qed (auto simp: bq_awake_def wake_ok_def)

lemma bq_run_inv: "bq_run capacity es q \<Longrightarrow> bq_inv capacity es q \<and> bq_awake q"
proof (induction rule: bq_run.induct)
  case start
  show ?case by (simp add: bq_inv_init bq_awake_init)
next
  case (more es q e q')
  then show ?case using bq_step_inv bq_step_awake by blast
qed

section \<open>Closing\<close>

definition closing_inv :: "'a BqEvent list \<Rightarrow> 'a BlockingQueue \<Rightarrow> bool" where
  "closing_inv es q \<longleftrightarrow> accepted es = accepted (takeWhile (\<lambda>e. e \<noteq> Closed) es) \<and>
     (PoppedNothing \<in> set es \<longrightarrow> bq_closed q \<and> bq_queue q = [])"

lemma step_after_close:
  "bq_step q e q' \<Longrightarrow> bq_closed q \<Longrightarrow> accepted_value e = [] \<and> bq_closed q' \<and> (bq_queue q = [] \<longrightarrow> bq_queue q' = [])"
  by (induction rule: bq_step.induct)
    (auto simp: push_locked_def pop_locked_def split: if_splits list.splits elim!: notify_not_full_cases)

lemma popped_nothing: "bq_step q PoppedNothing q' \<Longrightarrow> bq_closed q \<and> bq_queue q = []"
  by (cases rule: bq_step.cases) (auto simp: push_locked_def pop_locked_def split: if_splits list.splits)

lemma bq_run_closing: "bq_run capacity es q \<Longrightarrow> closing_inv es q"
proof (induction rule: bq_run.induct)
  case (more es q e q')
  have closed: "bq_closed q \<longleftrightarrow> Closed \<in> set es" using bq_run_inv [OF more.hyps(1)] by (simp add: bq_inv_def)
  show ?case
  proof (cases "bq_closed q")
    case True
    with step_after_close [OF more.hyps(2) True] popped_nothing [of q q'] more closed show ?thesis
      by (auto simp: closing_inv_def takeWhile_append)
  next
    case False
    then have "takeWhile (\<lambda>e. e \<noteq> Closed) es = es" using closed by (auto simp: takeWhile_eq_all_conv)
    moreover have "e \<noteq> PoppedNothing" using popped_nothing [of q q'] more.hyps(2) False by blast
    ultimately show ?thesis using False more.IH closed by (auto simp: closing_inv_def takeWhile_append)
  qed
qed (simp add: closing_inv_def bq_init_def)

end
