(* ===== verification/QueueProps.thy ===== *)
theory QueueProps
  imports BlockingQueue EventParser
begin

text \<open>
  The properties of the queue between threads, and of the way an event takes from the generator
  through datagrams, lines and the queue into an engine.
\<close>

section \<open>Texts of events\<close>

definition printable :: "NormalizedLobEvent \<Rightarrow> bool" where
  \<comment> \<open>what the text form can carry\<close>
  "printable ev \<longleftrightarrow> list_all int64_in_range (event_numbers ev) \<and>
     (\<forall>n. ev_update_type ev \<noteq> RAW_UPDATE_TYPE n) \<and>
     ev_symbol_id ev \<noteq> [] \<and> CHR '','' \<notin> set (ev_symbol_id ev) \<and> newline \<notin> set (ev_symbol_id ev) \<and>
     \<not> blank (hd (ev_symbol_id ev)) \<and> \<not> blank (last (ev_symbol_id ev))"

lemma digit_not_special: "is_digit c \<or> c = CHR ''-'' \<Longrightarrow> c \<noteq> CHR '','' \<and> c \<noteq> newline \<and> \<not> blank c"
  by (auto simp: is_digit_def char_code_def newline_def blank_def)

lemma show_int_special: "c \<in> set (show_int v) \<Longrightarrow> c \<noteq> CHR '','' \<and> c \<noteq> newline \<and> \<not> blank c"
  using show_int_chars [of v] digit_not_special by (auto simp: list_all_iff)

lemma trim_show_int: "trim (show_int v) = show_int v"
proof -
  have "show_int v \<noteq> []" using show_int_ends by blast
  then have "\<not> blank (hd (show_int v))" "\<not> blank (last (show_int v))"
    using show_int_special hd_in_set last_in_set by blast+
  then show ?thesis unfolding trim_def by (intro strip_id) simp
qed

lemma takeWhile_until:
  "x \<notin> set xs \<Longrightarrow> takeWhile (\<lambda>c. c \<noteq> x) (xs @ x # ys) = xs \<and> dropWhile (\<lambda>c. c \<noteq> x) (xs @ x # ys) = x # ys"
  by (induction xs) auto

lemma next_field_show_int: "next_field (show_int v @ CHR '','' # rest) = Some (show_int v, rest)"
proof -
  have "CHR '','' \<notin> set (show_int v)" using show_int_special by blast
  from takeWhile_until [OF this] show ?thesis by (simp add: next_field_def trim_show_int)
qed

lemma parse_show_int: "int64_in_range v \<Longrightarrow> parse_int64 (show_int v) = Some v"
  using from_chars_show_int [of v "[]"] by (simp add: parse_int64_def)

lemma parse_show_byte: "0 \<le> v \<Longrightarrow> v \<le> 255 \<Longrightarrow> parse_uint8 (show_int v) = Some v"
  by (simp add: parse_uint8_def parse_show_int int64_in_range_def)

lemma int_fields_show:
  "list_all2 (\<lambda>parse v. parse (show_int v) = Some v) parses vs \<Longrightarrow>
     int_fields parses (concat (map (\<lambda>v. show_int v @ '','') vs) @ rest) = Some (vs, rest)"
  by (induction parses vs rule: list_all2_induct) (simp_all add: int_field_def next_field_show_int)

lemma side_of_code [simp]: "side_of (side_code s) = s"
  by (cases s) (simp_all add: side_of_def)

lemma source_of_code [simp]: "source_of (source_code u) = u"
  by (cases u) (simp_all add: source_of_def)

lemma update_type_of_code: "\<forall>n. t \<noteq> RAW_UPDATE_TYPE n \<Longrightarrow> update_type_of (update_type_code t) = t"
  by (cases t) (simp_all add: update_type_of_def)

lemma code_bounds: "0 \<le> side_code s \<and> side_code s \<le> 1 \<and> 0 \<le> source_code u \<and> source_code u \<le> 2"
  by (cases s; cases u) simp_all

lemma update_type_bounds: "\<forall>n. t \<noteq> RAW_UPDATE_TYPE n \<Longrightarrow> 0 \<le> update_type_code t \<and> update_type_code t \<le> 5"
  by (cases t) simp_all

lemma parse_event_text:
  assumes "printable ev"
  shows "parse_normalized_event (event_text ev) = Some ev"
proof -
  have raw: "\<forall>n. ev_update_type ev \<noteq> RAW_UPDATE_TYPE n" and sym: "ev_symbol_id ev \<noteq> []" "CHR '','' \<notin> set (ev_symbol_id ev)"
    "\<not> blank (hd (ev_symbol_id ev))" "\<not> blank (last (ev_symbol_id ev))"
    using assms by (simp_all add: printable_def)
  note bounds = code_bounds [of "ev_side ev" "ev_update_source ev"] update_type_bounds [OF raw]
  have "list_all2 (\<lambda>parse v. parse (show_int v) = Some v) event_parsers (event_numbers ev)"
    using assms bounds by (simp add: event_parsers_def event_numbers_def printable_def parse_show_int parse_show_byte)
  from int_fields_show [OF this, of "ev_symbol_id ev"]
  have "int_fields event_parsers (event_text ev) = Some (event_numbers ev, ev_symbol_id ev)"
    by (simp add: event_text_def)
  moreover have "next_field (ev_symbol_id ev) = Some (ev_symbol_id ev, [])"
  proof -
    have w: "takeWhile (\<lambda>c. c \<noteq> CHR '','') (ev_symbol_id ev) = ev_symbol_id ev"
      "dropWhile (\<lambda>c. c \<noteq> CHR '','') (ev_symbol_id ev) = []"
      using sym(2) by (auto simp only: takeWhile_eq_all_conv dropWhile_eq_Nil_conv)
    have "trim (ev_symbol_id ev) = ev_symbol_id ev" unfolding trim_def using sym by (intro strip_id) simp
    with sym(1) show ?thesis by (simp only: next_field_def w if_False option.inject prod.inject list.sel simp_thms)
  qed
  ultimately show ?thesis
    using sym(1) bounds by (simp add: parse_normalized_event_def event_numbers_def update_type_of_code [OF raw])
qed

section \<open>Datagrams\<close>

lemma event_text_start: "\<exists>c t. event_text ev = c # t \<and> (is_digit c \<or> c = CHR ''-'')"
proof -
  obtain c t where "show_int (ev_ts_exchange ev) = c # t" using show_int_ends by (cases "show_int (ev_ts_exchange ev)") auto
  moreover from this have "is_digit c \<or> c = CHR ''-''" using show_int_ends [of "ev_ts_exchange ev"] by auto
  ultimately show ?thesis by (simp add: event_text_def event_numbers_def)
qed

lemma event_text_trim:
  assumes "printable ev"
  shows "trim (event_text ev) = event_text ev" "newline \<notin> set (event_text ev)"
proof -
  from event_text_start obtain c t where "event_text ev = c # t" "is_digit c \<or> c = CHR ''-''" by blast
  with digit_not_special have "\<not> blank (hd (event_text ev))" by auto
  moreover have "\<not> blank (last (event_text ev))" using assms by (simp add: event_text_def printable_def)
  ultimately show "trim (event_text ev) = event_text ev" unfolding trim_def by (intro strip_id) simp
  have "newline \<noteq> CHR '',''" by (simp add: newline_def)
  then show "newline \<notin> set (event_text ev)"
    using assms show_int_special by (auto simp: event_text_def printable_def)
qed

lemma payload_lines_event:
  assumes "printable ev"
  shows "payload_lines (event_text ev @ newline # rest) = event_text ev # payload_lines rest"
proof -
  have "event_text ev \<noteq> []" using event_text_start [of ev] by auto
  with takeWhile_until [OF event_text_trim(2) [OF assms]] event_text_trim(1) [OF assms] show ?thesis
    by (simp add: payload_lines.simps [of "event_text ev @ newline # rest"])
qed

definition datagram :: "NormalizedLobEvent list \<Rightarrow> string" where
  "datagram evs = concat (map (\<lambda>ev. event_text ev @ [newline]) evs)"

lemma payload_lines_datagram: "list_all printable evs \<Longrightarrow> payload_lines (datagram evs) = map event_text evs"
  by (induction evs) (simp_all add: datagram_def payload_lines.simps [of "[]"] payload_lines_event)

lemma datagram_simps [simp]: "datagram [] = []" "datagram (evs @ [ev]) = datagram evs @ event_text ev @ [newline]"
  by (simp_all add: datagram_def)

lemma datagram_Nil_iff: "datagram evs = [] \<longleftrightarrow> evs = []" "[] = datagram evs \<longleftrightarrow> evs = []"
  by (cases evs; simp add: datagram_def)+

text \<open>The batches of a run are consecutive stretches of its events.\<close>

definition batches_of :: "NormalizedLobEvent list \<Rightarrow> Batches \<Rightarrow> bool" where
  "batches_of evs b \<longleftrightarrow> (\<exists>groups cur. evs = concat groups @ cur \<and> ba_sent b = map datagram groups \<and>
     ba_batch b = datagram cur)"

lemma flush_batch_of: "batches_of evs b \<Longrightarrow> batches_of evs (flush_batch b)"
proof -
  assume "batches_of evs b"
  then obtain groups cur where b: "evs = concat groups @ cur" "ba_sent b = map datagram groups" "ba_batch b = datagram cur"
    by (auto simp: batches_of_def)
  show ?thesis
  proof (cases "ba_batch b = []")
    case True
    with b show ?thesis by (auto simp: flush_batch_def batches_of_def)
  next
    case False
    have "evs = concat (groups @ [cur]) @ []" using b(1) by simp
    with b(2,3) False show ?thesis unfolding batches_of_def
      by (intro exI [of _ "groups @ [cur]"] exI [of _ "[]"]) (simp add: flush_batch_def)
  qed
qed

lemma flush_batch_empties: "ba_batch (flush_batch b) = []"
  by (cases "ba_batch b = []") (simp_all add: flush_batch_def)

lemma append_line_of:
  assumes "batches_of evs b"
  shows "batches_of (evs @ [ev]) (b\<lparr>ba_batch := ba_batch b @ event_text ev @ [newline], ba_batch_count := n\<rparr>)"
proof -
  obtain groups cur where b: "evs = concat groups @ cur" "ba_sent b = map datagram groups" "ba_batch b = datagram cur"
    using assms by (auto simp: batches_of_def)
  then show ?thesis unfolding batches_of_def
    by (intro exI [of _ groups] exI [of _ "cur @ [ev]"]) simp
qed

lemma emit_line_of: "batches_of evs b \<Longrightarrow> batches_of (evs @ [ev]) (emit_line m n ev b)"
  using append_line_of [of evs b] append_line_of [OF flush_batch_of, of evs b]
  by (simp add: emit_line_def Let_def)

lemma emit_lines_of: "batches_of evs b \<Longrightarrow> batches_of (evs @ evs') (fold (emit_line m n) evs' b)"
proof (induction evs' arbitrary: evs b)
  case (Cons ev evs')
  from Cons.IH [OF emit_line_of [OF Cons.prems, of ev m n]] show ?case by simp
qed simp

lemma send_rounds_of: "batches_of evs b \<Longrightarrow> batches_of (evs @ concat rounds) (fold (send_round m n) rounds b)"
proof (induction rounds arbitrary: evs b)
  case (Cons evs' rounds)
  have "batches_of (evs @ evs') (send_round m n evs' b)"
    unfolding send_round_def by (rule flush_batch_of [OF emit_lines_of [OF Cons.prems]])
  from Cons.IH [OF this] show ?case by simp
qed simp

lemma event_datagrams_groups:
  "\<exists>groups. concat groups = concat rounds \<and> event_datagrams m n rounds = map datagram groups"
proof -
  define b where "b = flush_batch (fold (send_round m n) rounds \<lparr>ba_sent = [], ba_batch = [], ba_batch_count = 0\<rparr>)"
  have "batches_of [] \<lparr>ba_sent = [], ba_batch = [], ba_batch_count = 0\<rparr>"
    unfolding batches_of_def by (intro exI [of _ "[]"]) simp
  from flush_batch_of [OF send_rounds_of [OF this, of rounds m n]] have "batches_of (concat rounds) b" by (simp add: b_def)
  moreover have "ba_batch b = []" by (simp only: b_def flush_batch_empties)
  moreover have "event_datagrams m n rounds = ba_sent b" by (simp add: b_def event_datagrams_def)
  ultimately show ?thesis by (auto simp: batches_of_def datagram_Nil_iff)
qed

definition datagrams_fit :: "nat \<Rightarrow> Batches \<Rightarrow> bool" where
  "datagrams_fit m b \<longleftrightarrow> length (ba_batch b) \<le> m \<and> (\<forall>d \<in> set (ba_sent b). length d \<le> m)"

lemma flush_batch_fit: "datagrams_fit m b \<Longrightarrow> datagrams_fit m (flush_batch b) \<and> ba_batch (flush_batch b) = []"
  by (auto simp: datagrams_fit_def flush_batch_def)

lemma emit_line_fit: "datagrams_fit m b \<Longrightarrow> length (event_text ev) < m \<Longrightarrow> datagrams_fit m (emit_line m n ev b)"
  using flush_batch_fit [of m b] by (auto simp: emit_line_def Let_def datagrams_fit_def)

lemma event_datagrams_fit:
  assumes "\<forall>ev \<in> set (concat rounds). length (event_text ev) < m" "d \<in> set (event_datagrams m n rounds)"
  shows "length d \<le> m"
proof -
  have round: "datagrams_fit m b \<Longrightarrow> \<forall>ev \<in> set evs. length (event_text ev) < m \<Longrightarrow>
      datagrams_fit m (fold (emit_line m n) evs b)" for evs b
    by (induction evs arbitrary: b) (auto dest: emit_line_fit)
  have "datagrams_fit m b \<Longrightarrow> datagrams_fit m (fold (send_round m n) rounds b)" for b
    using assms(1)
  proof (induction rounds arbitrary: b)
    case (Cons evs rounds)
    then have "datagrams_fit m (send_round m n evs b)" using round flush_batch_fit by (simp add: send_round_def)
    with Cons.IH Cons.prems(2) show ?case by simp
  qed simp
  moreover have "datagrams_fit m \<lparr>ba_sent = [], ba_batch = [], ba_batch_count = 0\<rparr>" by (simp add: datagrams_fit_def)
  ultimately have "datagrams_fit m (flush_batch (fold (send_round m n) rounds \<lparr>ba_sent = [], ba_batch = [], ba_batch_count = 0\<rparr>))"
    using flush_batch_fit by blast
  with assms(2) show ?thesis by (simp add: event_datagrams_def datagrams_fit_def)
qed

lemma payload_lines_header: "payload_lines header_text = [header_text]"
  by code_simp

lemma received_lines:
  assumes "list_all printable (concat rounds)"
  shows "concat (map payload_lines (send_events header m n rounds)) =
    (if header then [header_text] else []) @ map event_text (concat rounds)"
proof -
  obtain groups where g: "concat groups = concat rounds" "event_datagrams m n rounds = map datagram groups"
    using event_datagrams_groups by blast
  from assms have "list_all printable (concat groups)" by (simp add: g(1))
  then have "concat (map (payload_lines \<circ> datagram) groups) = map event_text (concat groups)"
    by (induction groups) (simp_all add: payload_lines_datagram)
  then show ?thesis by (simp add: send_events_def g(2) payload_lines_header) (simp only: g(1))
qed

lemma process_event_text: "printable ev \<Longrightarrow> process_line (event_text ev) engine = update ev engine"
proof -
  assume p: "printable ev"
  obtain c t where "event_text ev = c # t" "is_digit c \<or> c = CHR ''-''" using event_text_start by blast
  then have "take 11 (event_text ev) \<noteq> ''ts_exchange''" by (auto simp: is_digit_def char_code_def)
  then show ?thesis by (simp add: process_line_def parse_event_text [OF p])
qed

lemma process_lines: "list_all printable evs \<Longrightarrow> fold process_line (map event_text evs) engine = run_updates evs engine"
  by (induction evs arbitrary: engine) (simp_all add: run_updates_def process_event_text)

lemma process_header: "process_line header_text engine = engine"
  by (simp add: process_line_def header_text_def)

section \<open>The queue\<close>

text \<open>C37 Whatever producers and consumers do, in whatever order they get the mutex and however their
  waits end, the queue hands out exactly the values it accepted, each once and in their order, never
  holds more than its capacity, and its counters are right. Nothing is accepted after a \<open>close\<close>, and
  \<open>pop\<close> returns nothing only after a \<open>close\<close> and once every accepted value was taken.\<close>

theorem queue_delivers:
  assumes "bq_run capacity es q"
  shows "accepted es = taken es @ bq_queue q \<and> length (bq_queue q) \<le> capacity \<and>
    bq_pushes q = length (accepted es) \<and> bq_pops q = length (taken es) \<and> bq_push_dropped q = refusals es \<and>
    accepted es = accepted (takeWhile (\<lambda>e. e \<noteq> Closed) es) \<and>
    (PoppedNothing \<in> set es \<longrightarrow> Closed \<in> set es \<and> taken es = accepted es)"
  using bq_run_inv [OF assms] bq_run_closing [OF assms]
  by (auto simp: bq_inv_def closing_inv_def)

lemma wake_ok_alive:
  "wake_ok cls cap n ca cw pa pw te tf \<Longrightarrow> ca \<noteq> 0 \<Longrightarrow> pa \<noteq> 0 \<Longrightarrow> cw \<noteq> 0 \<or> pw \<noteq> 0 \<or> te \<noteq> 0"
  by (auto simp: wake_ok_def)

text \<open>C38 No wake-up is lost although every operation notifies one thread only. While a consumer
  sleeps, every value in the queue has a woken consumer that has yet to look, and a closed queue has a
  \<open>close\<close> that has yet to notify; while a producer sleeps, the same holds of every free place. And a
  consumer and a producer never both sleep with no thread awake to go on.\<close>

theorem no_lost_wakeup:
  assumes "bq_run capacity es q"
  shows "(bq_pop_asleep q \<noteq> 0 \<longrightarrow> length (bq_queue q) \<le> bq_pop_awake q \<and> (bq_closed q \<longrightarrow> bq_to_notify_not_empty q \<noteq> 0)) \<and>
    (bq_push_asleep q \<noteq> [] \<longrightarrow>
       (if bq_closed q then bq_to_notify_not_empty q \<noteq> 0 \<or> bq_to_notify_not_full q \<noteq> 0
        else capacity - length (bq_queue q) \<le> length (bq_push_awake q))) \<and>
    (bq_pop_asleep q \<noteq> 0 \<and> bq_push_asleep q \<noteq> [] \<longrightarrow>
       bq_pop_awake q \<noteq> 0 \<or> bq_push_awake q \<noteq> [] \<or> bq_to_notify_not_empty q \<noteq> 0)"
proof -
  have "bq_capacity q = capacity" "bq_awake q" using bq_run_inv [OF assms] by (simp_all add: bq_inv_def)
  then show ?thesis
    using wake_ok_alive [of "bq_closed q" "bq_capacity q" "length (bq_queue q)" "bq_pop_asleep q" "bq_pop_awake q"
        "length (bq_push_asleep q)" "length (bq_push_awake q)"]
    by (auto simp: bq_awake_def wake_ok_def)
qed

section \<open>An example run\<close>

definition run_of_one :: "'a \<Rightarrow> 'a BqEvent list" where
  \<comment> \<open>one value through a queue of one place: accepted, the queue closed, taken, and nothing more\<close>
  "run_of_one v = [Accepted v, Closed, Taken v, PoppedNothing]"

definition end_of_one :: "'a BlockingQueue" where
  "end_of_one = (bq_init 1)\<lparr>bq_closed := True, bq_pushes := 1, bq_pops := 1, bq_max_depth := 1,
     bq_to_notify_not_empty := 1\<rparr>"

lemma run_of_one: "bq_run 1 (run_of_one v) (end_of_one :: 'a BlockingQueue)"
proof -
  let ?q0 = "bq_init 1 :: 'a BlockingQueue"
  let ?q1 = "?q0\<lparr>bq_queue := [v], bq_pushes := 1, bq_max_depth := 1\<rparr>"
  let ?q2 = "?q1\<lparr>bq_closed := True, bq_to_notify_not_empty := bq_to_notify_not_empty ?q1 + 1\<rparr>"
  have 1: "bq_step ?q0 (Accepted v) ?q1"
    by (rule bq_step.push [where v = v]) (simp_all add: bq_init_def push_locked_def notify_not_empty_def)
  have 2: "bq_step ?q1 Closed ?q2" by (rule bq_step.close_mark)
  have 3: "bq_step ?q2 (Taken v) end_of_one"
    by (rule bq_step.pop [where qs = "[end_of_one]"])
      (simp_all add: bq_init_def pop_locked_def notify_not_full_def end_of_one_def)
  have 4: "bq_step end_of_one PoppedNothing (end_of_one :: 'a BlockingQueue)"
    by (rule bq_step.pop [where qs = "[end_of_one]"]) (simp_all add: pop_locked_def end_of_one_def bq_init_def)
  have "bq_run 1 ((([] @ [Accepted v]) @ [Closed]) @ [Taken v]) (end_of_one :: 'a BlockingQueue)"
    by (rule bq_run.more [OF bq_run.more [OF bq_run.more [OF bq_run.start 1] 2] 3])
  from bq_run.more [OF this 4] show ?thesis by (simp add: run_of_one_def)
qed

lemma queue_delivers_example: "taken (run_of_one (7 :: nat)) = accepted (run_of_one 7)"
proof -
  have "PoppedNothing \<in> set (run_of_one (7 :: nat))" by (simp add: run_of_one_def)
  with queue_delivers [OF run_of_one [of "7 :: nat"]] show ?thesis by blast
qed

definition one_waits :: "nat BlockingQueue" where
  \<comment> \<open>a consumer sleeps at an empty queue\<close>
  "one_waits = (bq_init 1)\<lparr>bq_pop_asleep := 1\<rparr>"

lemma one_waits_run: "bq_run 1 [Internal] one_waits"
proof -
  have "bq_step (bq_init 1) Internal one_waits"
    by (rule bq_step.pop [where qs = "[one_waits]"]) (simp_all add: pop_locked_def one_waits_def bq_init_def)
  from bq_run.more [OF bq_run.start this] show ?thesis by simp
qed

lemma no_lost_wakeup_example: "bq_pop_asleep one_waits \<noteq> 0 \<and> length (bq_queue one_waits) \<le> bq_pop_awake one_waits"
proof -
  have "bq_pop_asleep one_waits \<noteq> 0" by (simp add: one_waits_def)
  with no_lost_wakeup [OF one_waits_run] show ?thesis by blast
qed

section \<open>From the generator to the engine\<close>

text \<open>C39 Events that the generator writes, with or without a header and cut into rounds and datagrams in
  any way, arrive in the engine unchanged: when the input thread pushed the lines of all datagrams and
  the processing thread found the closed queue empty, the engine is in the state of exactly these
  events in their order, for every capacity of the queue and every interleaving of the threads. No
  datagram of events is longer than the limit when every line fits into one.\<close>

theorem generator_reaches_engine:
  assumes "list_all printable (concat rounds)" "bq_run capacity es q" "PoppedNothing \<in> set es"
    and "accepted es = concat (map payload_lines (send_events header max_bytes batch_lines rounds))"
    and "\<forall>ev \<in> set (concat rounds). length (event_text ev) < max_bytes"
  shows "fold process_line (taken es) engine = run_updates (concat rounds) engine \<and>
    (\<forall>d \<in> set (event_datagrams max_bytes batch_lines rounds). length d \<le> max_bytes)"
proof -
  have "taken es = accepted es"
    using bq_run_inv [OF assms(2)] bq_run_closing [OF assms(2)] assms(3) by (simp add: bq_inv_def closing_inv_def)
  then have "taken es = (if header then [header_text] else []) @ map event_text (concat rounds)"
    using assms(4) received_lines [OF assms(1)] by simp
  then have "fold process_line (taken es) engine = run_updates (concat rounds) engine"
    using process_lines [OF assms(1)] by (simp add: process_header)
  with event_datagrams_fit [OF assms(5)] show ?thesis by blast
qed

definition sent_event :: NormalizedLobEvent where
  "sent_event = default_event\<lparr>ev_price_ticks := 105, ev_quantity_lots := 5, ev_order_id := 1, ev_symbol_id := ''SYM0''\<rparr>"

lemma generator_reaches_engine_example:
  "fold process_line (taken (run_of_one (event_text sent_event))) (sim_init 10 10) = run_updates [sent_event] (sim_init 10 10)"
proof -
  let ?m = "Suc (length (event_text sent_event))" and ?rounds = "[[sent_event], []]"
  have p: "list_all printable (concat ?rounds)"
    by (simp add: printable_def sent_event_def default_event_def event_numbers_def int64_in_range_def newline_def blank_def
        UnknownTraderIdSentinel_def NoAggressorNeededSentinel_def)
  have "accepted (run_of_one (event_text sent_event)) = concat (map payload_lines (send_events False ?m 1 ?rounds))"
    using received_lines [OF p, of False ?m 1] by (simp add: run_of_one_def accepted_def)
  moreover have "PoppedNothing \<in> set (run_of_one (event_text sent_event))" by (simp add: run_of_one_def)
  moreover have "\<forall>ev \<in> set (concat ?rounds). length (event_text ev) < ?m" by simp
  moreover have "concat ?rounds = [sent_event]" by simp
  ultimately show ?thesis using generator_reaches_engine [OF p run_of_one] by metis
qed

end
