(* ===== verification/FlatTableMore.thy ===== *)
theory FlatTableMore
  imports FlatTableMap
begin

text \<open>
  The rest of \<open>flat_hash_map.hpp\<close>: positions as iterators, erasure of a range, construction from sizes and
  ranges, shrinking, exchanging and moving tables, and \<open>flat_hash_set\<close>. An iterator is the position of its
  entry in the array; the allocator is the default one.
\<close>

section \<open>Iterators\<close>

definition skip_empty :: "('k, 'v) entry list \<Rightarrow> nat \<Rightarrow> nat" where
  \<comment> \<open>the loop of \<open>begin()\<close> and of \<open>convertible_to_iterator\<close>: the first position from \<open>p\<close> on with a value\<close>
  "skip_empty es p = p + length (takeWhile (\<lambda>e. \<not> has_value e) (drop p es))"

definition ft_begin :: "('k, 'v) FlatTable \<Rightarrow> nat" where
  "ft_begin t = skip_empty (ft_entries t) 0"

definition ft_end :: "('k, 'v) FlatTable \<Rightarrow> nat" where
  "ft_end t = ft_num_slots_minus_one t + ft_max_lookups t"

definition iterator_next :: "('k, 'v) FlatTable \<Rightarrow> nat \<Rightarrow> nat" where
  \<comment> \<open>\<open>operator++\<close>\<close>
  "iterator_next t p = skip_empty (ft_entries t) (Suc p)"

fun find_from :: "'k \<Rightarrow> int \<Rightarrow> ('k, 'v) entry list \<Rightarrow> nat option" where
  \<comment> \<open>the loop of \<open>find\<close>, with how far it came\<close>
  "find_from k distance [] = None"
| "find_from k distance (e # es) =
     (if distance_from_desired e \<ge> distance
      then if map_option fst (entry_value e) = Some k then Some 0 else map_option Suc (find_from k (distance + 1) es)
      else None)"

definition ft_find_it :: "('k \<Rightarrow> 64 word) \<Rightarrow> ('k, 'v) FlatTable \<Rightarrow> 'k \<Rightarrow> nat" where
  "ft_find_it hash t k =
     (case find_from k 0 (drop (ft_index hash k t) (ft_entries t)) of
        None \<Rightarrow> ft_end t | Some j \<Rightarrow> ft_index hash k t + j)"

definition ft_count :: "('k \<Rightarrow> 64 word) \<Rightarrow> ('k, 'v) FlatTable \<Rightarrow> 'k \<Rightarrow> nat" where
  "ft_count hash t k = (if ft_find_it hash t k = ft_end t then 0 else 1)"

definition ft_equal_range :: "('k \<Rightarrow> 64 word) \<Rightarrow> ('k, 'v) FlatTable \<Rightarrow> 'k \<Rightarrow> nat \<times> nat" where
  "ft_equal_range hash t k =
     (let found = ft_find_it hash t k
      in if found = ft_end t then (found, found) else (found, iterator_next t found))"

section \<open>Erasing a range\<close>

fun pull_down :: "nat \<Rightarrow> ('k, 'v) entry list \<Rightarrow> ('k, 'v) entry list" where
  \<comment> \<open>the last loop, with the empty entries in front of \<open>it\<close>: \<open>n\<close> is \<open>num_to_move\<close>\<close>
  "pull_down gap [] = replicate gap empty_entry"
| "pull_down gap (e # es) =
     (if is_at_desired_position e then replicate gap empty_entry @ e # es
      else let n = nat (min (distance_from_desired e) (int gap))
           in replicate (gap - n) empty_entry @
              Entry (distance_from_desired e - int n) (entry_value e) # pull_down n es)"

definition erase_range :: "nat \<Rightarrow> nat \<Rightarrow> ('k, 'v) FlatTable \<Rightarrow> nat \<times> ('k, 'v) FlatTable" where
  \<comment> \<open>the position that is returned, and the table\<close>
  "erase_range begin_it end_it t =
     (if begin_it = end_it then (begin_it, t)
      else
        let es = ft_entries t;
            destroyed = filter has_value (take (end_it - begin_it) (drop begin_it es));
            t1 = t\<lparr>ft_num_elements := ft_num_elements t - length destroyed\<rparr>
        in if end_it = ft_end t
           then (ft_end t, t1\<lparr>ft_entries := take begin_it es @ replicate (end_it - begin_it) empty_entry @ drop end_it es\<rparr>)
           else (nat (int end_it - min (distance_from_desired (es ! end_it)) (int (end_it - begin_it))),
                 t1\<lparr>ft_entries := take begin_it es @ pull_down (end_it - begin_it) (drop end_it es)\<rparr>))"

section \<open>Construction\<close>

definition ft_with_buckets :: "nat \<Rightarrow> ('k \<Rightarrow> 64 word) \<Rightarrow> nat \<Rightarrow> ('k, 'v) FlatTable option" where
  "ft_with_buckets n hash buckets = rehash (ft_emplace n hash) buckets ft_empty"

definition ft_from_range ::
  "nat \<Rightarrow> ('k \<Rightarrow> 64 word) \<Rightarrow> nat \<Rightarrow> ('k \<times> 'v) list \<Rightarrow> ('k, 'v) FlatTable option" where
  "ft_from_range n hash buckets kvs =
     Option.bind (ft_with_buckets n hash buckets) (emplace_all (ft_emplace n hash) kvs)"

definition ft_from_list ::
  "nat \<Rightarrow> ('k \<Rightarrow> 64 word) \<Rightarrow> nat \<Rightarrow> ('k \<times> 'v) list \<Rightarrow> ('k, 'v) FlatTable option" where
  \<comment> \<open>from an initializer list\<close>
  "ft_from_list n hash buckets il =
     Option.bind (ft_with_buckets n hash buckets) (\<lambda>t.
       Option.bind (if buckets = 0 then rehash (ft_emplace n hash) (length il) t else Some t)
         (emplace_all (ft_emplace n hash) il))"

definition ft_shrink_to_fit :: "nat \<Rightarrow> ('k \<Rightarrow> 64 word) \<Rightarrow> ('k, 'v) FlatTable \<Rightarrow> ('k, 'v) FlatTable option" where
  "ft_shrink_to_fit n hash t = rehash_for_other_container (ft_emplace n hash) t t"

section \<open>Exchanging and moving\<close>

definition swap_pointers ::
  "('k, 'v) FlatTable \<Rightarrow> ('k, 'v) FlatTable \<Rightarrow> ('k, 'v) FlatTable \<times> ('k, 'v) FlatTable" where
  \<comment> \<open>\<open>this\<close> and \<open>other\<close> afterwards\<close>
  "swap_pointers t other =
     (t\<lparr>ft_shift := ft_shift other, ft_entries := ft_entries other,
        ft_num_slots_minus_one := ft_num_slots_minus_one other, ft_num_elements := ft_num_elements other,
        ft_max_lookups := ft_max_lookups other\<rparr>,
      other\<lparr>ft_shift := ft_shift t, ft_entries := ft_entries t,
        ft_num_slots_minus_one := ft_num_slots_minus_one t, ft_num_elements := ft_num_elements t,
        ft_max_lookups := ft_max_lookups t\<rparr>)"

definition reset_to_empty_state :: "('k, 'v) FlatTable \<Rightarrow> ('k, 'v) FlatTable" where
  "reset_to_empty_state t =
     t\<lparr>ft_entries := empty_default_table, ft_num_slots_minus_one := 0, ft_shift := 63,
       ft_max_lookups := min_lookups - 1\<rparr>"

definition ft_move :: "('k, 'v) FlatTable \<Rightarrow> ('k, 'v) FlatTable \<times> ('k, 'v) FlatTable" where
  \<comment> \<open>the move constructor: the new table, and what is left of \<open>other\<close>\<close>
  "ft_move other = swap_pointers ft_empty other"

definition ft_move_assign ::
  "('k, 'v) FlatTable \<Rightarrow> ('k, 'v) FlatTable \<Rightarrow> ('k, 'v) FlatTable \<times> ('k, 'v) FlatTable" where
  \<comment> \<open>\<open>t = std::move(other)\<close> of two different tables\<close>
  "ft_move_assign t other = swap_pointers (reset_to_empty_state (ft_clear t)) other"

section \<open>\<open>flat_hash_set\<close>\<close>

type_synonym 'k FlatSet = "('k, unit) FlatTable"
  \<comment> \<open>an element is its own key\<close>

definition fs_emplace :: "nat \<Rightarrow> ('k \<Rightarrow> 64 word) \<Rightarrow> 'k \<Rightarrow> 'k FlatSet \<Rightarrow> 'k FlatSet option" where
  "fs_emplace n hash k s = ft_emplace n hash k () s"

definition fs_elements :: "'k FlatSet \<Rightarrow> 'k list" where
  "fs_elements s = map fst (ft_items s)"

definition fs_equal :: "('k \<Rightarrow> 64 word) \<Rightarrow> 'k FlatSet \<Rightarrow> 'k FlatSet \<Rightarrow> bool" where
  "fs_equal hash lhs rhs \<longleftrightarrow> ft_num_elements lhs = ft_num_elements rhs \<and>
     list_all (\<lambda>k. ft_find hash rhs k \<noteq> None) (fs_elements lhs)"

section \<open>Lemmas\<close>

text \<open>The single erasure is the erasure of a range of one.\<close>

lemma close_gap_pull_down: "close_gap es = pull_down 1 es"
proof (induction es)
  case (Cons e es)
  show ?case
  proof (cases "is_at_desired_position e")
    case False
    then have "min (distance_from_desired e) 1 = 1" by (simp add: is_at_desired_position_def)
    then show ?thesis using Cons False by simp
  qed simp
qed simp

lemma prev_distance_empties [simp]: "prev_distance p (replicate n empty_entry) = (if n = 0 then p else - 1)"
  by (cases n) (auto simp: prev_distance_def)

lemma empties_links: "- 1 \<le> p \<Longrightarrow> links home m i p (replicate n empty_entry)"
  by (rule links_replicate_empty) simp

lemma pull_down_links:
  fixes home :: "'k \<Rightarrow> nat" and es :: "('k, 'v) entry list"
  assumes "links home m (i + gap) q es" "q \<le> p + int gap" "- 1 \<le> p"
  shows "\<exists>body. pull_down gap (es @ [special_end]) = body @ [special_end] \<and> links home m i p body \<and>
    elements body = elements es \<and> length body = gap + length es"
  using assms
proof (induction es arbitrary: i p q gap)
  case Nil
  then show ?case
    by (intro exI [of _ "replicate gap empty_entry"]) (simp add: empties_links is_at_desired_position_def)
next
  case (Cons e es)
  note empties = empties_links [OF Cons.prems(3), of home m i]
  show ?case
  proof (cases "distance_from_desired e \<le> 0")
    case True
    have "distance_from_desired e \<le> prev_distance p (replicate gap empty_entry) + 1"
      using Cons.prems True by (cases "gap = 0") auto
    with True Cons.prems show ?thesis
      by (intro exI [of _ "replicate gap empty_entry @ e # es"])
        (auto simp: is_at_desired_position_def links_append empties)
  next
    case False
    then obtain d k v where e: "e = Entry d (Some (k, v))" "0 < d" "d < int m" "int (i + gap) = int (home k) + d"
      using Cons.prems(1) by (auto simp: sound_def)
    define n where "n = nat (min d (int gap))"
    have n: "n \<le> gap" "int n \<le> d" "n = gap \<or> int n = d" using e(2) by (auto simp: n_def)
    have "\<exists>body. pull_down n (es @ [special_end]) = body @ [special_end] \<and>
        links home m (Suc (i + (gap - n))) (d - int n) body \<and> elements body = elements es \<and> length body = n + length es"
    proof (rule Cons.IH [where q = d])
      have "Suc (i + (gap - n)) + n = Suc (i + gap)" using n(1) by simp
      then show "links home m (Suc (i + (gap - n)) + n) d es" using Cons.prems(1) e(1) by simp
    qed (use n(2) in simp_all)
    then obtain body where body: "pull_down n (es @ [special_end]) = body @ [special_end]"
      "links home m (Suc (i + (gap - n))) (d - int n) body" "elements body = elements es" "length body = n + length es"
      by blast
    have "sound home m (i + (gap - n)) (Entry (d - int n) (Some (k, v)))"
      using e n by (auto simp: sound_def of_nat_diff)
    moreover have "d - int n \<le> prev_distance p (replicate (gap - n) empty_entry) + 1"
      using n(3) Cons.prems(1,2) e(1) n(1) by (cases "gap = n") auto
    ultimately have "links home m i p (replicate (gap - n) empty_entry @ Entry (d - int n) (Some (k, v)) # body)"
      using body(2) n(1) by (simp add: links_append empties)
    moreover have "pull_down gap ((e # es) @ [special_end]) =
        (replicate (gap - n) empty_entry @ Entry (d - int n) (Some (k, v)) # body) @ [special_end]"
      using e(1,2) body(1) by (simp add: is_at_desired_position_def n_def)
    ultimately show ?thesis using body(3,4) e(1) n(1)
      by (intro exI [of _ "replicate (gap - n) empty_entry @ Entry (d - int n) (Some (k, v)) # body"]) simp
  qed
qed

text \<open>An iterator shows the entries with a value, in order, and stops at the end.\<close>

lemma takeWhile_special_end:
  "takeWhile (\<lambda>e. \<not> has_value e) (es @ [special_end]) = takeWhile (\<lambda>e. \<not> has_value e) es"
  by (induction es) (simp_all add: has_value_def)

lemma takeWhile_elements:
  assumes "\<forall>e \<in> set es. has_value e \<longleftrightarrow> entry_value e \<noteq> None"
  defines "n \<equiv> length (takeWhile (\<lambda>e. \<not> has_value e) es)"
  shows "elements es = (if n = length es then [] else the (entry_value (es ! n)) # elements (drop (Suc n) es))"
  using assms(1) unfolding n_def by (induction es) (auto split: option.splits)

lemma skip_empty_elements:
  fixes es :: "('k, 'v) entry list"
  assumes "\<forall>e \<in> set es. has_value e \<longleftrightarrow> entry_value e \<noteq> None" "p \<le> length es"
  defines "q \<equiv> skip_empty (es @ [special_end]) p"
  shows "p \<le> q \<and> q \<le> length es \<and> (q < length es \<longrightarrow> entry_value (es ! q) \<noteq> None) \<and>
    elements (drop p es) = (if q = length es then [] else the (entry_value (es ! q)) # elements (drop (Suc q) es))"
proof -
  define n where "n = length (takeWhile (\<lambda>e. \<not> has_value e) (drop p es))"
  have q: "q = p + n" using assms(2) by (simp add: q_def n_def skip_empty_def takeWhile_special_end)
  have le: "n \<le> length es - p" using length_takeWhile_le by (metis length_drop n_def)
  have "\<forall>e \<in> set (drop p es). has_value e \<longleftrightarrow> entry_value e \<noteq> None" using assms(1) in_set_dropD by fast
  note drop = this
  have "entry_value (es ! q) \<noteq> None" if "q < length es"
  proof -
    have n: "n < length (drop p es)" using that q by simp
    then have "has_value (drop p es ! n)"
      unfolding n_def using nth_length_takeWhile by blast
    then show ?thesis using drop n q by (metis assms(2) nth_drop nth_mem)
  qed
  with takeWhile_elements [OF drop] show ?thesis
    using q le assms(2) by (auto simp: n_def [symmetric] ac_simps)
qed

lemma links_has_value: "links home m i p es \<Longrightarrow> \<forall>e \<in> set es. has_value e \<longleftrightarrow> entry_value e \<noteq> None"
  by (induction es arbitrary: i p) (auto simp: sound_def has_value_def)

lemma ft_wf_has_value:
  assumes "ft_wf hash t"
  shows "\<forall>e \<in> set (butlast (ft_entries t)). has_value e \<longleftrightarrow> entry_value e \<noteq> None"
  using assms links_has_value by (fastforce simp: ft_wf_def ft_empty_def empty_default_table_def has_value_def)

lemma ft_wf_end:
  assumes "ft_wf hash t"
  shows "ft_end t = length (butlast (ft_entries t))" "ft_entries t = butlast (ft_entries t) @ [special_end]"
proof -
  show "ft_entries t = butlast (ft_entries t) @ [special_end]"
    using ft_wf_holds [OF assms] by (simp add: ft_holds_def)
  show "ft_end t = length (butlast (ft_entries t))"
    using assms by (auto simp: ft_wf_def ft_end_def ft_empty_def empty_default_table_def min_lookups_def)
qed

text \<open>The positions that a loop from one iterator to the end visits.\<close>

function walk :: "('k, 'v) FlatTable \<Rightarrow> nat \<Rightarrow> nat list" where
  "walk t p = (if p < ft_end t then p # walk t (iterator_next t p) else [])"
  by pat_completeness auto
termination
  by (relation "measure (\<lambda>(t, p). ft_end t - p)") (auto simp: iterator_next_def skip_empty_def)

declare walk.simps [simp del]

lemma walk_elements:
  assumes "ft_wf hash t" "p \<le> ft_end t"
  shows "map (\<lambda>q. entry_value (ft_entries t ! q)) (walk t (skip_empty (ft_entries t) p)) =
    map Some (elements (drop p (butlast (ft_entries t))))"
  using assms(2)
proof (induction "ft_end t - p" arbitrary: p rule: less_induct)
  case less
  let ?es = "butlast (ft_entries t)" and ?q = "skip_empty (ft_entries t) p"
  note at_end = ft_wf_end [OF assms(1)]
  have step: "p \<le> ?q \<and> ?q \<le> length ?es \<and> (?q < length ?es \<longrightarrow> entry_value (?es ! ?q) \<noteq> None) \<and>
    elements (drop p ?es) = (if ?q = length ?es then [] else the (entry_value (?es ! ?q)) # elements (drop (Suc ?q) ?es))"
    using skip_empty_elements [OF ft_wf_has_value [OF assms(1)], of p] less.prems at_end by simp
  show ?case
  proof (cases "?q = length ?es")
    case True
    then show ?thesis using step at_end(1) by (simp add: walk.simps)
  next
    case False
    then have q: "?q < ft_end t" using step at_end(1) by simp
    then obtain kv where kv: "entry_value (?es ! ?q) = Some kv" using step at_end(1) by auto
    have same: "ft_entries t ! ?q = ?es ! ?q" using q at_end(1) by (simp add: nth_butlast)
    have "map (\<lambda>q. entry_value (ft_entries t ! q)) (walk t (skip_empty (ft_entries t) (Suc ?q))) =
        map Some (elements (drop (Suc ?q) ?es))"
      by (rule less.hyps) (use q step in auto)
    then show ?thesis
      using False q step kv same by (simp add: walk.simps [of t ?q] iterator_next_def)
  qed
qed

section \<open>Finding a position\<close>

lemma find_from_probe:
  "case find_from k d es of
     None \<Rightarrow> (\<exists>rest d'. probe_from k d es = Stop rest d')
   | Some j \<Rightarrow> j < length es \<and> (\<exists>v. probe_from k d es = Found (k, v) \<and> entry_value (es ! j) = Some (k, v))"
proof (induction es arbitrary: d)
  case (Cons e es)
  show ?case
    using Cons [of "d + 1"] by (cases "entry_value e"; cases "find_from k (d + 1) es") auto
qed simp

lemma ft_find_it_wf:
  assumes "ft_wf hash t"
  shows "case ft_find hash t k of
      None \<Rightarrow> ft_find_it hash t k = ft_end t
    | Some v \<Rightarrow> ft_find_it hash t k < ft_end t \<and> entry_value (ft_entries t ! ft_find_it hash t k) = Some (k, v)"
proof -
  let ?i = "ft_index hash k t"
  let ?es = "drop ?i (ft_entries t)"
  show ?thesis
  proof (cases "find_from k 0 ?es")
    case None
    then show ?thesis using find_from_probe [of k 0 ?es] by (auto simp: ft_find_def ft_find_it_def)
  next
    case (Some j)
    with find_from_probe [of k 0 ?es] obtain v where j: "j < length ?es" "probe_from k 0 ?es = Found (k, v)"
      "entry_value (?es ! j) = Some (k, v)" by auto
    then have at: "?i + j < length (ft_entries t)" "entry_value (ft_entries t ! (?i + j)) = Some (k, v)"
      by simp_all
    moreover have "?i + j \<noteq> ft_end t"
      using at(2) ft_wf_end [OF assms] by (metis entry_simps(4) nth_append_length option.distinct(1))
    ultimately have "?i + j < ft_end t" using ft_wf_end(1) [OF assms] by simp
    then show ?thesis using Some j(2) at(2) by (simp add: ft_find_def ft_find_it_def)
  qed
qed

lemma ft_count_wf:
  assumes "ft_wf hash t"
  shows "ft_count hash t k = (if ft_find hash t k = None then 0 else 1)"
  using ft_find_it_wf [OF assms, of k] by (auto simp: ft_count_def split: option.splits)

section \<open>The erased range\<close>

lemma prev_distance_le:
  "links home m i p es \<Longrightarrow> - 1 \<le> p \<Longrightarrow> prev_distance p es \<le> p + int (length es)"
proof (induction es arbitrary: i p)
  case (Cons e es)
  have "- 1 \<le> distance_from_desired e" using Cons.prems(1) sound_distance by auto
  then show ?case using Cons.IH [of "Suc i" "distance_from_desired e"] Cons.prems(1) by auto
qed simp

lemma has_value_elements:
  "\<forall>e \<in> set es. has_value e \<longleftrightarrow> entry_value e \<noteq> None \<Longrightarrow> length (filter has_value es) = length (elements es)"
  by (induction es) (auto split: option.splits)

lemma erase_range_entries:
  assumes "ft_wf hash t" "t \<noteq> ft_empty" "i < j" "j \<le> ft_end t"
  defines "es \<equiv> butlast (ft_entries t)"
  shows "\<exists>p rear. erase_range i j t =
      (p, t\<lparr>ft_entries := (take i es @ rear) @ [special_end],
           ft_num_elements := ft_num_elements t - length (elements (take (j - i) (drop i es)))\<rparr>) \<and>
    links (ft_home hash (ft_level t)) (max 4 (ft_level t)) 0 (- 1) (take i es @ rear) \<and>
    elements rear = elements (drop j es) \<and> length (take i es @ rear) = length es"
proof -
  let ?links = "links (ft_home hash (ft_level t)) (max 4 (ft_level t))"
  let ?front = "take i es" and ?mid = "take (j - i) (drop i es)" and ?rear = "drop j es"
  note at_end = ft_wf_end [OF assms(1), folded es_def]
  have split: "es = ?front @ ?mid @ ?rear"
    using assms(3) by (metis append_take_drop_id drop_drop le_add_diff_inverse2 less_imp_le_nat)
  have len: "length ?front = i" "length ?mid = j - i" using assms(3,4) at_end(1) by auto
  obtain body where "ft_entries t = body @ [special_end]"
    "?links 0 (- 1) body" by (rule ft_wf_body [OF assms(1,2)])
  then have "?links 0 (- 1) es" by (simp add: es_def)
  then have "?links 0 (- 1) (?front @ ?mid @ ?rear)" using split by simp
  then have links: "?links 0 (- 1) ?front" "?links i (prev_distance (- 1) ?front) ?mid"
    "?links (i + (j - i)) (prev_distance (prev_distance (- 1) ?front) ?mid) ?rear"
    unfolding links_append len by auto
  have p: "- 1 \<le> prev_distance (- 1) ?front" using prev_distance_ge [OF links(1)] by simp
  have q: "prev_distance (prev_distance (- 1) ?front) ?mid \<le> prev_distance (- 1) ?front + int (j - i)"
    using prev_distance_le [OF links(2) p] len(2) by simp
  have "filter has_value (take (j - i) (drop i (ft_entries t))) = filter has_value ?mid"
    using assms(3,4) at_end(1) by (simp add: at_end(2))
  moreover have "\<forall>e \<in> set ?mid. has_value e \<longleftrightarrow> entry_value e \<noteq> None" by (rule links_has_value [OF links(2)])
  ultimately have destroyed: "length (filter has_value (take (j - i) (drop i (ft_entries t)))) = length (elements ?mid)"
    using has_value_elements by metis
  have front: "take i (ft_entries t) = ?front" and rear: "drop j (ft_entries t) = ?rear @ [special_end]"
    using assms(3,4) at_end(1) by (simp_all add: at_end(2))
  show ?thesis
  proof (cases "j = ft_end t")
    case True
    then have none: "?rear = []" "drop j (ft_entries t) = [special_end]" using at_end(1) rear by simp_all
    have "?links 0 (- 1) (?front @ replicate (j - i) empty_entry)"
      using links(1) p by (simp add: links_append empties_links)
    moreover have "length (?front @ replicate (j - i) (empty_entry :: ('a, 'b) entry)) = length es"
      using len(1) assms(3) True at_end(1) by simp
    ultimately show ?thesis
      using True assms(3) destroyed none
      by (intro exI [of _ "ft_end t"] exI [of _ "replicate (j - i) empty_entry"] conjI)
        (simp_all add: erase_range_def Let_def front)
  next
    case False
    obtain body where body: "pull_down (j - i) (?rear @ [special_end]) = body @ [special_end]"
      "?links i (prev_distance (- 1) ?front) body" "elements body = elements ?rear" "length body = (j - i) + length ?rear"
      using pull_down_links [OF links(3) q p] by blast
    have "?links 0 (- 1) (?front @ body)" using links(1) body(2) len(1) by (simp add: links_append)
    moreover have "length (?front @ body) = length es" using body(4) len assms(3,4) at_end(1) by simp
    ultimately show ?thesis
      using False assms(3) body(1,3) destroyed
      by (intro exI conjI) (auto simp: erase_range_def Let_def front rear)
  qed
qed

lemma erase_range_empty: "i \<le> j \<Longrightarrow> j \<le> 3 \<Longrightarrow> snd (erase_range i j ft_empty) = ft_empty"
proof -
  assume "i \<le> j" "j \<le> 3"
  then have "i = j \<or> (i, j) \<in> {(0, 1), (0, 2), (0, 3), (1, 2), (1, 3), (2, 3)}" by auto
  then show ?thesis
    by (elim disjE insertE emptyE)
      (simp_all add: erase_range_def ft_empty_def ft_end_def empty_default_table_def min_lookups_def has_value_def
        is_at_desired_position_def numeral_2_eq_2 numeral_3_eq_3)
qed

lemma erase_range_wf:
  assumes "ft_wf hash t" "i \<le> j" "j \<le> ft_end t"
  shows "ft_wf hash (snd (erase_range i j t)) \<and>
    ft_items (snd (erase_range i j t)) =
      elements (take i (butlast (ft_entries t))) @ elements (drop j (butlast (ft_entries t)))"
proof (cases "t = ft_empty")
  case True
  then have "j \<le> 3" using assms(3) by (simp add: ft_end_def ft_empty_def min_lookups_def)
  moreover have "elements (take i (butlast (ft_entries t))) = []" "elements (drop j (butlast (ft_entries t))) = []"
    unfolding True by (auto simp: ft_empty_def empty_default_table_def elements_def List.map_filter_def
        filter_empty_conv dest!: in_set_takeD in_set_dropD)
  ultimately show ?thesis using True assms(2) by (simp add: erase_range_empty)
next
  case nonempty: False
  define es where "es = butlast (ft_entries t)"
  have es: "elements es = elements (take i es) @ elements (take (j - i) (drop i es)) @ elements (drop j es)"
    using assms(2) elements_simps(3) by (metis append_take_drop_id drop_drop le_add_diff_inverse2)
  have items: "ft_items t = elements es" by (simp add: ft_items_def es_def)
  show ?thesis
  proof (cases "i = j")
    case True
    then show ?thesis using assms(1) items es by (simp add: erase_range_def es_def)
  next
    case False
    with assms(2) have "i < j" by simp
    from erase_range_entries [OF assms(1) nonempty this assms(3), folded es_def] obtain p rear where
      run: "erase_range i j t =
        (p, t\<lparr>ft_entries := (take i es @ rear) @ [special_end],
             ft_num_elements := ft_num_elements t - length (elements (take (j - i) (drop i es)))\<rparr>)"
      and links: "links (ft_home hash (ft_level t)) (max 4 (ft_level t)) 0 (- 1) (take i es @ rear)"
      and rear: "elements rear = elements (drop j es)" "length (take i es @ rear) = length es" by blast
    obtain body where body: "ft_entries t = body @ [special_end]"
      "length body = 2 ^ ft_level t + max 4 (ft_level t) - 1"
      "ft_num_slots_minus_one t = 2 ^ ft_level t - 1" "ft_max_lookups t = max 4 (ft_level t)"
      using ft_wf_body [OF assms(1) nonempty] by metis
    have holds: "distinct (map fst (ft_items t))" "ft_num_elements t = length (ft_items t)"
      "2 * ft_num_elements t \<le> 2 ^ ft_level t"
      using ft_wf_holds [OF assms(1)] by (simp_all add: ft_holds_def)
    have left: "elements (take i es @ rear) = elements (take i es) @ elements (drop j es)" by (simp add: rear(1))
    have d: "distinct (map fst (elements (take i es @ rear)))"
      using holds(1) unfolding items es left by auto
    have n: "ft_num_elements t - length (elements (take (j - i) (drop i es))) = length (elements (take i es @ rear))"
      unfolding holds(2) items es left by simp
    have half: "2 * (ft_num_elements t - length (elements (take (j - i) (drop i es)))) \<le> 2 ^ ft_level t"
      using holds(3) by linarith
    have len: "length (take i es @ rear) = 2 ^ ft_level t + max 4 (ft_level t) - 1"
      unfolding rear(2) using body(1,2) by (simp add: es_def)
    have "ft_wf hash (snd (erase_range i j t))"
    proof (rule ft_wfI [where body = "take i es @ rear"])
      show "ft_num_elements (snd (erase_range i j t)) = length (elements (take i es @ rear))" using n by (simp add: run)
      show "ft_entries (snd (erase_range i j t)) = (take i es @ rear) @ [special_end]" by (simp add: run)
      show "2 * ft_num_elements (snd (erase_range i j t)) \<le> 2 ^ ft_level (snd (erase_range i j t))"
        using half by (simp add: run)
      show "ft_num_slots_minus_one (snd (erase_range i j t)) = 2 ^ ft_level (snd (erase_range i j t)) - 1"
        "ft_max_lookups (snd (erase_range i j t)) = max 4 (ft_level (snd (erase_range i j t)))"
        by (simp_all add: run body(3,4))
    qed (simp_all only: run snd_conv ft_level_update ft_sized_update ft_wf_sized [OF assms(1)] links d len)
    moreover have "ft_items (snd (erase_range i j t)) = elements (take i es @ rear)"
    proof -
      have "ft_entries (snd (erase_range i j t)) = (take i es @ rear) @ [special_end]" by (simp add: run)
      then show ?thesis by (simp only: ft_items_def butlast_snoc)
    qed
    ultimately show ?thesis using left unfolding es_def by simp
  qed
qed

section \<open>Construction\<close>

lemma insert_into:
  assumes "ft_wf hash t" "ft_items t = []" "length kvs \<le> 2 ^ 52" "emplace_all (ft_emplace n hash) kvs t = Some t'"
  shows "ft_wf hash t' \<and> ft_find hash t' = map_of kvs"
proof -
  have "ft_find hash t = Map.empty" using ft.find_entries [OF assms(1)] assms(2) by (simp add: fun_eq_iff)
  then show ?thesis using ft.insert_range [OF assms(1) _ assms(4)] assms(2,3) by simp
qed

lemma ft_with_buckets_wf:
  assumes "buckets \<le> 2 ^ 63" "ft_with_buckets n hash buckets = Some t"
  shows "ft_wf hash t \<and> ft_items t = []"
  using rehash_items [OF ft_emplace_inserts ft_wf_empty _ assms(1) assms(2) [unfolded ft_with_buckets_def]] by simp

lemma ft_from_range_wf:
  assumes "buckets \<le> 2 ^ 63" "length kvs \<le> 2 ^ 52" "ft_from_range n hash buckets kvs = Some t"
  shows "ft_wf hash t \<and> ft_find hash t = map_of kvs"
proof -
  obtain t1 where "ft_with_buckets n hash buckets = Some t1" "emplace_all (ft_emplace n hash) kvs t1 = Some t"
    using assms(3) by (auto simp: ft_from_range_def Option.bind_eq_Some_conv)
  then show ?thesis using ft_with_buckets_wf [OF assms(1)] insert_into assms(2) by blast
qed

lemma ft_from_list_wf:
  assumes "buckets \<le> 2 ^ 63" "length kvs \<le> 2 ^ 52" "ft_from_list n hash buckets kvs = Some t"
  shows "ft_wf hash t \<and> ft_find hash t = map_of kvs"
proof -
  obtain t1 t2 where t: "ft_with_buckets n hash buckets = Some t1"
    "(if buckets = 0 then rehash (ft_emplace n hash) (length kvs) t1 else Some t1) = Some t2"
    "emplace_all (ft_emplace n hash) kvs t2 = Some t"
    using assms(3) by (auto simp: ft_from_list_def Option.bind_eq_Some_conv)
  note t1 = ft_with_buckets_wf [OF assms(1) t(1)]
  have "ft_wf hash t2 \<and> ft_items t2 = []"
  proof (cases "buckets = 0")
    case True
    then have "rehash (ft_emplace n hash) (length kvs) t1 = Some t2" using t(2) by simp
    from rehash_items [OF ft_emplace_inserts _ _ _ this] t1 assms(2) show ?thesis by simp
  qed (use t(2) t1 in simp)
  then show ?thesis using insert_into assms(2) t(3) by blast
qed

lemma ft_shrink_to_fit_wf:
  assumes "ft_wf hash t" "length (ft_items t) < 2 ^ 52" "ft_shrink_to_fit n hash t = Some t'"
  shows "ft_wf hash t' \<and> mset (ft_items t') = mset (ft_items t)"
proof -
  have "num_buckets_for_reserve (ft_num_elements t) \<le> 2 ^ 63"
    using assms(2) ft_wf_holds [OF assms(1)] by (simp add: num_buckets_for_reserve_def ft_holds_def)
  then have "min (num_buckets_for_reserve (ft_num_elements t)) (bucket_count t) \<le> 2 ^ 63" by simp
  from rehash_items [OF ft_emplace_inserts assms(1,2) this
      assms(3) [unfolded ft_shrink_to_fit_def rehash_for_other_container_def]]
  show ?thesis .
qed

section \<open>Exchanging and moving\<close>

lemma swap_pointers_exchanges: "swap_pointers t other = (other, t)"
  by (simp add: swap_pointers_def)

lemma ft_move_takes: "ft_move other = (other, ft_empty)"
  by (simp add: ft_move_def swap_pointers_exchanges)

lemma ft_move_assign_takes: "ft_move_assign t other = (other, ft_empty)"
  by (simp add: ft_move_assign_def swap_pointers_exchanges reset_to_empty_state_def ft_clear_def ft_empty_def)

section \<open>Sets\<close>

lemma fs_elements_find:
  assumes "ft_wf hash s"
  shows "k \<in> set (fs_elements s) \<longleftrightarrow> ft_find hash s k \<noteq> None"
  using ft.find_entries [OF assms] by (simp add: fs_elements_def map_of_eq_None_iff)

lemma fs_emplace_adds:
  assumes "ft_wf hash s" "length (fs_elements s) < 2 ^ 52" "fs_emplace n hash k s = Some s'"
  shows "ft_wf hash s' \<and> set (fs_elements s') = insert k (set (fs_elements s))"
proof -
  have "length (ft_items s) < 2 ^ 52" using assms(2) by (simp add: fs_elements_def)
  note added = ft.emplace_entries [OF assms(1) this assms(3) [unfolded fs_emplace_def]]
  have "set (ft_items s') = insert (k, ()) (set (ft_items s))" if "k \<notin> fst ` set (ft_items s)"
    using added that by (metis set_mset_add_mset_insert set_mset_mset)
  then show ?thesis
    using added assms(1) by (cases "k \<in> fst ` set (ft_items s)") (simp_all add: fs_elements_def insert_absorb)
qed

lemma fs_equal_wf:
  assumes "ft_wf hash s" "ft_wf hash s'"
  shows "fs_equal hash s s' \<longleftrightarrow> set (fs_elements s) = set (fs_elements s')"
proof -
  have found: "list_all (\<lambda>k. ft_find hash s' k \<noteq> None) (fs_elements s) \<longleftrightarrow> set (fs_elements s) \<subseteq> set (fs_elements s')"
    using fs_elements_find [OF assms(2)] by (auto simp: list_all_iff)
  have d: "distinct (fs_elements x) \<and> ft_num_elements x = length (fs_elements x)" if "ft_wf hash x" for x :: "'a FlatSet"
    using ft_wf_holds [OF that] by (simp add: fs_elements_def ft_holds_def)
  have "length (fs_elements s) = length (fs_elements s') \<and> set (fs_elements s) \<subseteq> set (fs_elements s') \<longleftrightarrow>
      set (fs_elements s) = set (fs_elements s')"
    using d [OF assms(1)] d [OF assms(2)] distinct_card card_subset_eq by (metis List.finite_set order_refl)
  then show ?thesis using found d [OF assms(1)] d [OF assms(2)] by (simp add: fs_equal_def)
qed

end
