(* ===== verification/OrderFlow.thy ===== *)
theory OrderFlow
  imports Complex_Main EventParser
begin

text \<open>
  The synthetic order flow of \<open>benchmark/lobsim_event_generator.cpp\<close> and of
  \<open>benchmark/lobsim_memory_replay_main.cpp\<close>. What the random engine and its distributions give for one event
  is a record \<open>Draws\<close>; a draw that an event does not make is ignored. \<open>double\<close> values are rationals,
  with the rounding of the arithmetic a parameter.
\<close>

section \<open>Draws\<close>

record FlowArgs =
  fa_symbols :: nat
  fa_cancel_pct :: rat
  fa_market_pct :: rat
  fa_cross_pct :: rat
  fa_mean_offset :: rat
  fa_mid_start :: int
  fa_mid_move_prob :: rat
  fa_mid_move_max :: int
  fa_max_qty :: int

record Draws =
  fd_cancel :: rat
  fd_market :: rat
  fd_pick :: nat
  fd_qty :: int \<comment> \<open>\<open>static_cast<int>\<close> of the lognormal draw\<close>
  fd_symbol :: rat
  fd_move :: rat
  fd_step :: nat
  fd_direction :: rat
  fd_side :: rat
  fd_trader :: nat
  fd_offset :: int \<comment> \<open>\<open>static_cast<int>\<close> of the exponential draw\<close>
  fd_cross :: rat

definition uniform_int :: "int \<Rightarrow> int \<Rightarrow> nat \<Rightarrow> int" where
  \<comment> \<open>\<open>uniform_int_distribution(lo, hi)\<close>: every value of the range is some raw draw's\<close>
  "uniform_int lo hi raw = lo + int raw mod (hi - lo + 1)"

definition sample_offset :: "rat \<Rightarrow> int \<Rightarrow> int" where
  "sample_offset mean_offset off = (if mean_offset \<le> 0 then 1 else max 1 off)"

definition sample_qty :: "int \<Rightarrow> int \<Rightarrow> int" where
  "sample_qty max_qty qty = (if qty < 1 then 1 else if qty > max_qty then max_qty else qty)"

section \<open>Symbols\<close>

definition symbol_name :: "nat \<Rightarrow> string" where
  "symbol_name i = ''SYM'' @ show_nat i"

definition symbol_weights :: "(rat \<Rightarrow> rat) \<Rightarrow> nat \<Rightarrow> rat list" where
  "symbol_weights rnd n =
     (let ws = map (\<lambda>i. rnd (1 / rnd (of_nat i + 1))) [0..<n];
          sum = foldl (\<lambda>s w. rnd (s + w)) 0 ws
      in map (\<lambda>w. rnd (w / sum)) ws)"

fun prefix_sums_from :: "(rat \<Rightarrow> rat) \<Rightarrow> rat \<Rightarrow> rat list \<Rightarrow> rat list" where
  "prefix_sums_from rnd acc [] = []"
| "prefix_sums_from rnd acc (w # ws) = rnd (acc + w) # prefix_sums_from rnd (rnd (acc + w)) ws"

definition symbol_prefix :: "(rat \<Rightarrow> rat) \<Rightarrow> nat \<Rightarrow> rat list" where
  "symbol_prefix rnd n = prefix_sums_from rnd 0 (symbol_weights rnd n)"

definition symbol_index :: "rat list \<Rightarrow> rat \<Rightarrow> nat" where
  \<comment> \<open>\<open>lower_bound\<close>, cut to the range of positions\<close>
  "symbol_index prefix r =
     nat (max 0 (min (int (length prefix) - 1) (int (length (takeWhile (\<lambda>p. p < r) prefix)))))"

section \<open>A new order\<close>

record OrderSpec =
  os_symbol :: nat
  os_side :: Side
  os_price :: int
  os_qty :: int
  os_trader :: int

definition moved_mid :: "FlowArgs \<Rightarrow> Draws \<Rightarrow> int \<Rightarrow> int" where
  "moved_mid args d mid =
     (if fd_move d < fa_mid_move_prob args
      then let delta = uniform_int 1 (max 1 (fa_mid_move_max args)) (fd_step d)
           in max 1 (mid + (if fd_direction d < 1 / 2 then - delta else delta))
      else mid)"

definition order_price :: "FlowArgs \<Rightarrow> Draws \<Rightarrow> Side \<Rightarrow> int \<Rightarrow> int" where
  "order_price args d side mid =
     (let offset = sample_offset (fa_mean_offset args) (fd_offset d)
      in if fd_cross d < fa_cross_pct args
         then if side = BUY then mid + offset else max 1 (mid - offset)
         else if side = BUY then max 1 (mid - offset) else mid + offset)"

definition new_order :: "FlowArgs \<Rightarrow> rat list \<Rightarrow> Draws \<Rightarrow> int list \<Rightarrow> OrderSpec \<times> int list" where
  \<comment> \<open>the order, and the middle prices afterwards\<close>
  "new_order args prefix d mids =
     (let symb = symbol_index prefix (fd_symbol d);
          mids' = mids[symb := moved_mid args d (mids ! symb)];
          side = (if fd_side d < 1 / 2 then BUY else SELL)
      in (\<lparr>os_symbol = symb, os_side = side, os_price = order_price args d side (mids' ! symb),
           os_qty = sample_qty (fa_max_qty args) (fd_qty d), os_trader = uniform_int 1 64 (fd_trader d)\<rparr>, mids'))"

definition flow_event ::
  "int \<Rightarrow> UpdateType \<Rightarrow> Side \<Rightarrow> int \<Rightarrow> int \<Rightarrow> int \<Rightarrow> int \<Rightarrow> nat \<Rightarrow> NormalizedLobEvent" where
  \<comment> \<open>the arguments of \<open>emit_line\<close>, in its order of fields\<close>
  "flow_event ts update_type side price qty order_id trader_id symb =
     \<lparr>ev_ts_exchange = ts, ev_ts_received = ts, ev_side = side, ev_update_type = update_type,
      ev_price_ticks = price, ev_quantity_lots = qty, ev_order_id = order_id, ev_trader_id = trader_id,
      ev_aggressor_id = - 1, ev_update_source = HISTORICAL, ev_symbol_id = symbol_name symb\<rparr>"

definition matched_qty :: "FlowArgs \<Rightarrow> Draws \<Rightarrow> int \<Rightarrow> int" where
  "matched_qty args d open_qty =
     (let qty = min (sample_qty (fa_max_qty args) (fd_qty d)) open_qty in if qty \<le> 0 then 1 else qty)"

section \<open>The live orders of the generator\<close>

record LiveOrder =
  lo_order_id :: int
  lo_trader_id :: int
  lo_price_ticks :: int
  lo_qty_lots :: int
  lo_symbol_idx :: nat
  lo_side :: Side

record LiveOrders =
  lv_orders :: "LiveOrder list"
  lv_index :: "(int, nat) hmap"

definition live_empty :: LiveOrders where
  "live_empty = \<lparr>lv_orders = [], lv_index = hm_empty\<rparr>"

definition live_add :: "LiveOrder \<Rightarrow> LiveOrders \<Rightarrow> LiveOrders" where
  "live_add info l =
     \<lparr>lv_orders = lv_orders l @ [info], lv_index = hm_put (lo_order_id info) (length (lv_orders l)) (lv_index l)\<rparr>"

definition live_pick :: "nat \<Rightarrow> LiveOrders \<Rightarrow> nat" where
  \<comment> \<open>the position of the order that \<open>pick\<close> refers to\<close>
  "live_pick raw l = nat (uniform_int 0 (int (length (lv_orders l)) - 1) raw)"

definition live_remove :: "int \<Rightarrow> LiveOrders \<Rightarrow> LiveOrders" where
  \<comment> \<open>the last order takes the place of the removed one\<close>
  "live_remove order_id l =
     (case hm_find (lv_index l) order_id of
        None \<Rightarrow> l
      | Some idx \<Rightarrow>
          let final = last (lv_orders l);
              orders = butlast (lv_orders l);
              l1 = (if idx < length orders
                    then \<lparr>lv_orders = orders[idx := final], lv_index = hm_put (lo_order_id final) idx (lv_index l)\<rparr>
                    else \<lparr>lv_orders = orders, lv_index = lv_index l\<rparr>)
          in l1\<lparr>lv_index := hm_erase order_id (lv_index l1)\<rparr>)"

section \<open>The generator\<close>

record Flow =
  fl_mids :: "int list"
  fl_live :: LiveOrders
  fl_next_order_id :: int
  fl_cancel_count :: nat
  fl_match_count :: nat
  fl_add_count :: nat

definition flow_init :: "FlowArgs \<Rightarrow> Flow" where
  "flow_init args =
     \<lparr>fl_mids = replicate (fa_symbols args) (fa_mid_start args), fl_live = live_empty, fl_next_order_id = 1,
      fl_cancel_count = 0, fl_match_count = 0, fl_add_count = 0\<rparr>"

definition flow_cancel :: "int \<Rightarrow> Draws \<Rightarrow> Flow \<Rightarrow> NormalizedLobEvent \<times> Flow" where
  "flow_cancel ts d st =
     (let ord = lv_orders (fl_live st) ! live_pick (fd_pick d) (fl_live st)
      in (flow_event ts DELETE (lo_side ord) (lo_price_ticks ord) 0 (lo_order_id ord) (lo_trader_id ord)
            (lo_symbol_idx ord),
          st\<lparr>fl_live := live_remove (lo_order_id ord) (fl_live st), fl_cancel_count := fl_cancel_count st + 1\<rparr>))"

definition flow_match :: "FlowArgs \<Rightarrow> int \<Rightarrow> Draws \<Rightarrow> Flow \<Rightarrow> NormalizedLobEvent \<times> Flow" where
  "flow_match args ts d st =
     (let i = live_pick (fd_pick d) (fl_live st);
          ord = lv_orders (fl_live st) ! i;
          qty = matched_qty args d (lo_qty_lots ord);
          ord' = ord\<lparr>lo_qty_lots := lo_qty_lots ord - qty\<rparr>;
          live = (fl_live st)\<lparr>lv_orders := (lv_orders (fl_live st))[i := ord']\<rparr>
      in (flow_event ts MATCH (lo_side ord) (lo_price_ticks ord) qty (lo_order_id ord) (lo_trader_id ord)
            (lo_symbol_idx ord),
          st\<lparr>fl_live := (if lo_qty_lots ord' \<le> 0 then live_remove (lo_order_id ord) live else live),
             fl_match_count := fl_match_count st + 1\<rparr>))"

definition flow_add :: "FlowArgs \<Rightarrow> rat list \<Rightarrow> int \<Rightarrow> Draws \<Rightarrow> Flow \<Rightarrow> NormalizedLobEvent \<times> Flow" where
  "flow_add args prefix ts d st =
     (let (spec, mids) = new_order args prefix d (fl_mids st);
          i = fl_next_order_id st
      in (flow_event ts ADD (os_side spec) (os_price spec) (os_qty spec) i (os_trader spec) (os_symbol spec),
          st\<lparr>fl_mids := mids, fl_next_order_id := i + 1,
             fl_live := live_add \<lparr>lo_order_id = i, lo_trader_id = os_trader spec, lo_price_ticks = os_price spec,
               lo_qty_lots = os_qty spec, lo_symbol_idx = os_symbol spec, lo_side = os_side spec\<rparr> (fl_live st),
             fl_add_count := fl_add_count st + 1\<rparr>))"

definition flow_step :: "FlowArgs \<Rightarrow> rat list \<Rightarrow> int \<Rightarrow> Draws \<Rightarrow> Flow \<Rightarrow> NormalizedLobEvent \<times> Flow" where
  "flow_step args prefix ts d st =
     (if fd_cancel d < fa_cancel_pct args \<and> lv_orders (fl_live st) \<noteq> [] then flow_cancel ts d st
      else if fd_market d < fa_market_pct args \<and> lv_orders (fl_live st) \<noteq> [] then flow_match args ts d st
      else flow_add args prefix ts d st)"

fun flow_run :: "FlowArgs \<Rightarrow> rat list \<Rightarrow> (int \<times> Draws) list \<Rightarrow> Flow \<Rightarrow> NormalizedLobEvent list \<times> Flow" where
  \<comment> \<open>the events of the main loop, each with its time stamp and draws\<close>
  "flow_run args prefix [] st = ([], st)"
| "flow_run args prefix ((ts, d) # ds) st =
     (let (ev, st1) = flow_step args prefix ts d st;
          (evs, st2) = flow_run args prefix ds st1
      in (ev # evs, st2))"

section \<open>The generator of the memory replay\<close>

text \<open>The same flow over parallel hash maps, into lines that are kept in memory.\<close>

record LiveMaps =
  lm_ids :: "int list"
  lm_index :: "(int, nat) hmap"
  lm_trader_by_id :: "(int, int) hmap"
  lm_qty_by_id :: "(int, int) hmap"
  lm_price_by_id :: "(int, int) hmap"
  lm_side_by_id :: "(int, Side) hmap"
  lm_symbol_by_id :: "(int, nat) hmap"

definition maps_empty :: LiveMaps where
  "maps_empty = \<lparr>lm_ids = [], lm_index = hm_empty, lm_trader_by_id = hm_empty, lm_qty_by_id = hm_empty,
     lm_price_by_id = hm_empty, lm_side_by_id = hm_empty, lm_symbol_by_id = hm_empty\<rparr>"

definition maps_add :: "int \<Rightarrow> int \<Rightarrow> int \<Rightarrow> int \<Rightarrow> Side \<Rightarrow> nat \<Rightarrow> LiveMaps \<Rightarrow> LiveMaps" where
  "maps_add order_id trader_id price_ticks qty_lots side symbol_idx m =
     \<lparr>lm_ids = lm_ids m @ [order_id], lm_index = hm_put order_id (length (lm_ids m)) (lm_index m),
      lm_trader_by_id = hm_put order_id trader_id (lm_trader_by_id m),
      lm_qty_by_id = hm_put order_id qty_lots (lm_qty_by_id m),
      lm_price_by_id = hm_put order_id price_ticks (lm_price_by_id m),
      lm_side_by_id = hm_put order_id side (lm_side_by_id m),
      lm_symbol_by_id = hm_put order_id symbol_idx (lm_symbol_by_id m)\<rparr>"

definition maps_pick :: "nat \<Rightarrow> LiveMaps \<Rightarrow> int" where
  "maps_pick raw m = lm_ids m ! nat (uniform_int 0 (int (length (lm_ids m)) - 1) raw)"

definition maps_remove :: "int \<Rightarrow> LiveMaps \<Rightarrow> LiveMaps" where
  "maps_remove order_id m =
     (case hm_find (lm_index m) order_id of
        None \<Rightarrow> m
      | Some idx \<Rightarrow>
          let final = last (lm_ids m);
              ids = butlast (lm_ids m);
              (ids', index) = (if idx < length ids then (ids[idx := final], hm_put final idx (lm_index m))
                               else (ids, lm_index m))
          in \<lparr>lm_ids = ids', lm_index = hm_erase order_id index,
              lm_trader_by_id = hm_erase order_id (lm_trader_by_id m),
              lm_qty_by_id = hm_erase order_id (lm_qty_by_id m),
              lm_price_by_id = hm_erase order_id (lm_price_by_id m),
              lm_side_by_id = hm_erase order_id (lm_side_by_id m),
              lm_symbol_by_id = hm_erase order_id (lm_symbol_by_id m)\<rparr>)"

record MemFlow =
  mf_mids :: "int list"
  mf_live :: LiveMaps
  mf_next_order_id :: int

definition mem_init :: "FlowArgs \<Rightarrow> MemFlow" where
  "mem_init args =
     \<lparr>mf_mids = replicate (fa_symbols args) (fa_mid_start args), mf_live = maps_empty, mf_next_order_id = 1\<rparr>"

definition mem_cancel :: "int \<Rightarrow> Draws \<Rightarrow> MemFlow \<Rightarrow> NormalizedLobEvent \<times> MemFlow" where
  "mem_cancel ts d st =
     (let m = mf_live st; i = maps_pick (fd_pick d) m
      in (flow_event ts DELETE (hm_get SELL (lm_side_by_id m) i) (hm_get 0 (lm_price_by_id m) i) 0 i
            (hm_get 0 (lm_trader_by_id m) i) (hm_get 0 (lm_symbol_by_id m) i),
          st\<lparr>mf_live := maps_remove i m\<rparr>))"

definition mem_match :: "FlowArgs \<Rightarrow> int \<Rightarrow> Draws \<Rightarrow> MemFlow \<Rightarrow> NormalizedLobEvent \<times> MemFlow" where
  "mem_match args ts d st =
     (let m = mf_live st; i = maps_pick (fd_pick d) m;
          qty = matched_qty args d (hm_get 0 (lm_qty_by_id m) i);
          m1 = m\<lparr>lm_qty_by_id := hm_put i (hm_get 0 (lm_qty_by_id m) i - qty) (lm_qty_by_id m)\<rparr>
      in (flow_event ts MATCH (hm_get SELL (lm_side_by_id m) i) (hm_get 0 (lm_price_by_id m) i) qty i
            (hm_get 0 (lm_trader_by_id m) i) (hm_get 0 (lm_symbol_by_id m) i),
          st\<lparr>mf_live := (if hm_get 0 (lm_qty_by_id m1) i \<le> 0 then maps_remove i m1 else m1)\<rparr>))"

definition mem_add :: "FlowArgs \<Rightarrow> rat list \<Rightarrow> int \<Rightarrow> Draws \<Rightarrow> MemFlow \<Rightarrow> NormalizedLobEvent \<times> MemFlow" where
  "mem_add args prefix ts d st =
     (let (spec, mids) = new_order args prefix d (mf_mids st);
          i = mf_next_order_id st
      in (flow_event ts ADD (os_side spec) (os_price spec) (os_qty spec) i (os_trader spec) (os_symbol spec),
          \<lparr>mf_mids = mids,
           mf_live = maps_add i (os_trader spec) (os_price spec) (os_qty spec) (os_side spec) (os_symbol spec) (mf_live st),
           mf_next_order_id = i + 1\<rparr>))"

definition mem_step :: "FlowArgs \<Rightarrow> rat list \<Rightarrow> int \<Rightarrow> Draws \<Rightarrow> MemFlow \<Rightarrow> NormalizedLobEvent \<times> MemFlow" where
  "mem_step args prefix ts d st =
     (if fd_cancel d < fa_cancel_pct args \<and> lm_ids (mf_live st) \<noteq> [] then mem_cancel ts d st
      else if fd_market d < fa_market_pct args \<and> lm_ids (mf_live st) \<noteq> [] then mem_match args ts d st
      else mem_add args prefix ts d st)"

fun mem_lines :: "FlowArgs \<Rightarrow> rat list \<Rightarrow> nat \<Rightarrow> nat \<Rightarrow> nat \<Rightarrow> Draws list \<Rightarrow> MemFlow \<Rightarrow> string list \<times> bool" where
  \<comment> \<open>the loop over \<open>i < cap\<close>, one record of draws for each \<open>i\<close>: the lines, and whether memory cut them\<close>
  "mem_lines args prefix max_bytes total_bytes i [] st = ([], False)"
| "mem_lines args prefix max_bytes total_bytes i (d # ds) st =
     (let (ev, st1) = mem_step args prefix (int i) d st;
          line = event_text ev;
          total_bytes' = total_bytes + length line
      in if total_bytes' > max_bytes then ([], True)
         else let (lines, truncated) = mem_lines args prefix max_bytes total_bytes' (i + 1) ds st1
              in (line # lines, truncated))"

definition mem_events :: "FlowArgs \<Rightarrow> rat list \<Rightarrow> bool \<Rightarrow> nat \<Rightarrow> Draws list \<Rightarrow> string list \<times> bool" where
  \<comment> \<open>\<open>events\<close>, with the header if one is asked for\<close>
  "mem_events args prefix header max_bytes ds =
     (let (lines, truncated) = mem_lines args prefix max_bytes (if header then length header_text else 0) 0 ds (mem_init args)
      in ((if header then [header_text] else []) @ lines, truncated))"

end
