(* ===== verification/OrderTracking.thy ===== *)
theory OrderTracking
  imports EngineFacts
begin

text \<open>
  An abstract book that only knows the open orders by id, and that the engine implements it: a stream of
  historical events that refer to open orders and never cross leaves exactly the orders that the abstract
  book holds, and no diagnostic.
\<close>

section \<open>The abstract book\<close>

record OpenOrder =
  oo_side :: Side
  oo_price :: int
  oo_trader :: int
  oo_lots :: int

type_synonym OpenBook = "(int, OpenOrder) hmap"

definition with_lots :: "int \<Rightarrow> OpenOrder \<Rightarrow> int \<Rightarrow> OpenBook \<Rightarrow> OpenBook" where
  "with_lots i ord lots book = (if lots = 0 then hm_erase i book else hm_put i (ord\<lparr>oo_lots := lots\<rparr>) book)"

definition follow :: "NormalizedLobEvent \<Rightarrow> OpenBook \<Rightarrow> OpenBook option" where
  \<comment> \<open>\<open>None\<close> where the event does not fit the open orders\<close>
  "follow ev book =
     (let i = ev_order_id ev; qty = ev_quantity_lots ev in
      if ev_update_source ev \<noteq> HISTORICAL then None
      else case (ev_update_type ev, hm_find book i) of
        (ADD, None) \<Rightarrow>
          if i \<noteq> UnknownOrderIdSentinel \<and> 0 < qty
          then Some (hm_put i \<lparr>oo_side = ev_side ev, oo_price = ev_price_ticks ev, oo_trader = ev_trader_id ev,
                               oo_lots = qty\<rparr> book)
          else None
      | (ADD, Some _) \<Rightarrow> None
      | (_, None) \<Rightarrow> None
      | (kind, Some ord) \<Rightarrow>
          if oo_side ord \<noteq> ev_side ev \<or> oo_price ord \<noteq> ev_price_ticks ev then None
          else (case kind of
            DELETE \<Rightarrow> Some (hm_erase i book)
          | SET \<Rightarrow> if 0 \<le> qty then Some (with_lots i ord qty book) else None
          | SUBTRACT \<Rightarrow> if 0 < qty \<and> qty \<le> oo_lots ord then Some (with_lots i ord (oo_lots ord - qty) book) else None
          | MATCH \<Rightarrow> if 0 < qty \<and> qty \<le> oo_lots ord then Some (with_lots i ord (oo_lots ord - qty) book) else None
          | _ \<Rightarrow> None))"

definition rests :: "NormalizedLobEvent \<Rightarrow> OpenBook \<Rightarrow> bool" where
  \<comment> \<open>a new order does not cross an open order of the other side\<close>
  "rests ev book \<longleftrightarrow> ev_update_type ev \<noteq> ADD \<or>
     list_all (\<lambda>(i, ord). oo_side ord = ev_side ev \<or> \<not> price_crosses ev (oo_price ord)) book"

fun follow_all :: "NormalizedLobEvent list \<Rightarrow> OpenBook \<Rightarrow> OpenBook option" where
  "follow_all [] book = Some book"
| "follow_all (ev # evs) book = Option.bind (follow ev book) (follow_all evs)"

fun all_rest :: "NormalizedLobEvent list \<Rightarrow> OpenBook \<Rightarrow> bool" where
  "all_rest [] book = True"
| "all_rest (ev # evs) book =
     (rests ev book \<and> (case follow ev book of None \<Rightarrow> True | Some book' \<Rightarrow> all_rest evs book'))"

section \<open>The open orders of an engine\<close>

definition open_order :: "Hist \<Rightarrow> int \<Rightarrow> OpenOrder option" where
  "open_order h i =
     (case hm_find (order_info h) i of
        None \<Rightarrow> None
      | Some info \<Rightarrow> map_option (\<lambda>n. \<lparr>oo_side = oi_side info, oo_price = oi_price_ticks info,
          oo_trader = on_trader_id (hn h n), oo_lots = on_qty (hn h n)\<rparr>) (oi_node info))"

definition diagnostics_of :: "SinkCall list \<Rightarrow> DiagnosticRecord list" where
  "diagnostics_of cs = concat (map (\<lambda>c. case c of OnDiagnostic r \<Rightarrow> [r] | _ \<Rightarrow> []) cs)"

definition tracks :: "Sim \<Rightarrow> OpenBook \<Rightarrow> bool" where
  "tracks st book \<longleftrightarrow> sim_wf st \<and> paper st = paper_init \<and> hm_wf book \<and>
     (\<forall>i. open_order (hist st) i = hm_find book i) \<and>
     (\<forall>n \<in> np_live (order_pool (hist st)). on_order_id (hn (hist st) n) \<noteq> UnknownOrderIdSentinel)"

definition quiet :: "Sim \<Rightarrow> Sim \<Rightarrow> bool" where
  "quiet st st' \<longleftrightarrow> diagnostics_of (calls st') = diagnostics_of (calls st) \<and>
     historical_capacity st' = historical_capacity st \<and>
     card (np_live (order_pool (hist st'))) \<le> Suc (card (np_live (order_pool (hist st))))"

lemma diagnostics_of_simps [simp]:
  "diagnostics_of [] = []" "diagnostics_of (cs @ ds) = diagnostics_of cs @ diagnostics_of ds"
  "diagnostics_of (OnFill r # cs) = diagnostics_of cs"
  by (simp_all add: diagnostics_of_def)

lemma diagnostics_simps [simp]:
  "diagnostics_of (calls (emit_fills fs st)) = diagnostics_of (calls st)"
  "diagnostics_of (calls (emit_call (OnEventApply r) st)) = diagnostics_of (calls st)"
  by (induction fs) (simp_all add: emit_fills_def emit_call_def diagnostics_of_def)

lemma emit_fills_Nil [simp]: "emit_fills [] st = st"
  by (simp add: emit_fills_def)

lemma diag_if_False [simp]: "diag_if False event code sev st = st"
  by (simp add: diag_if_def)

lemma paper_init_simps [simp]:
  "find_paper_level s px paper_init = None" "best_paper_opposite_price s paper_init = None"
  "p_market_deltas s px ds paper_init = paper_init"
  "apply_paper_trade_at_level sq s px lots event paper_init = (paper_init, [])"
  by (cases s; simp add: find_paper_level_def best_paper_opposite_price_def p_market_deltas_def
      apply_paper_trade_at_level_def p_levels_def paper_init_def hm_empty_def hm_find_def)+

lemma hit_paper_init [simp]: "hit_paper_loop sq event crosses remaining paper_init = ((remaining, paper_init), [])"
  by (subst hit_paper_loop.simps) simp

lemma tracks_node:
  assumes "tracks st book" "hm_find book i = Some ord"
  obtains info n queue where "hm_find (order_info (hist st)) i = Some info" "oi_node info = Some n"
    "n \<in> set (hq (hist st) (oi_side info) (oi_price_ticks info))" "n \<in> np_live (order_pool (hist st))"
    "on_order_id (hn (hist st) n) = i" "oi_side info = oo_side ord" "oi_price_ticks info = oo_price ord"
    "on_trader_id (hn (hist st) n) = oo_trader ord" "on_qty (hn (hist st) n) = oo_lots ord"
    "hm_find (h_book (oi_side info) (hist st)) (oi_price_ticks info) = Some queue"
proof -
  have wf: "core (hq (hist st)) (hn (hist st)) (np_live (order_pool (hist st))) (hm_find (order_info (hist st)))
      (order_arrival_seq st)"
    using assms(1) hist_wf_core [of "historical_capacity st"] by (simp add: tracks_def sim_wf_def)
  have at: "open_order (hist st) i = Some ord" using assms by (simp add: tracks_def)
  then obtain info where info: "hm_find (order_info (hist st)) i = Some info"
    by (auto simp: open_order_def split: option.splits)
  from core_index_node [OF wf info] obtain n where n: "oi_node info = Some n"
    "n \<in> set (hq (hist st) (oi_side info) (oi_price_ticks info))" "on_order_id (hn (hist st) n) = i" by blast
  obtain queue where "hm_find (h_book (oi_side info) (hist st)) (oi_price_ticks info) = Some queue"
    using n(2) by (cases "hm_find (h_book (oi_side info) (hist st)) (oi_price_ticks info)") (auto simp: hq_def hm_get_def)
  then show thesis
    using that [OF info n(1,2)] n(1,3) at info core_live [OF wf n(2)] by (auto simp: open_order_def)
qed

section \<open>A new order rests\<close>

lemma tracks_core:
  "tracks st book \<Longrightarrow> core (hq (hist st)) (hn (hist st)) (np_live (order_pool (hist st))) (hm_find (order_info (hist st)))
     (order_arrival_seq st)"
  using hist_wf_core [of "historical_capacity st"] by (simp add: tracks_def sim_wf_def)

lemma rests_exhausted:
  assumes "tracks st book" "rests ev book" "ev_update_type ev = ADD"
  shows "exhausted ev (hist st)"
  unfolding exhausted_def
proof (intro allI impI)
  fix px
  let ?s = "opposite (ev_side ev)"
  assume "hq (hist st) ?s px \<noteq> []"
  then obtain n where n: "n \<in> set (hq (hist st) ?s px)" by (metis list.set_sel(1))
  note c = tracks_core [OF assms(1)]
  have "on_order_id (hn (hist st) n) \<noteq> UnknownOrderIdSentinel"
    using core_live [OF c n] assms(1) by (simp add: tracks_def)
  from core_indexed [OF c n this]
  have "open_order (hist st) (on_order_id (hn (hist st) n)) = Some \<lparr>oo_side = ?s, oo_price = px,
      oo_trader = on_trader_id (hn (hist st) n), oo_lots = on_qty (hn (hist st) n)\<rparr>"
    by (simp add: open_order_def)
  then have "hm_find book (on_order_id (hn (hist st) n)) = Some \<lparr>oo_side = ?s, oo_price = px,
      oo_trader = on_trader_id (hn (hist st) n), oo_lots = on_qty (hn (hist st) n)\<rparr>"
    using assms(1) by (simp add: tracks_def)
  then show "\<not> price_crosses ev px"
    using hm_find_memD assms(2,3) by (cases "ev_side ev") (fastforce simp: rests_def list_all_iff)+
qed

lemma h_rest_order_info:
  assumes "h_rest_order ev rem a cap h = (Some n, h')" "hm_find (order_info h) (ev_order_id ev) = None"
  shows "hm_find (order_info h') = (hm_find (order_info h))
    (ev_order_id ev \<mapsto> \<lparr>oi_side = ev_side ev, oi_price_ticks = ev_price_ticks ev, oi_node = Some n\<rparr>)"
  using assms by (auto simp: h_rest_order_def Let_def fun_eq_iff split: prod.splits option.splits if_splits)

lemma add_rests:
  assumes tr: "tracks st book" and fresh: "hm_find book (ev_order_id ev) = None" and ex: "exhausted ev (hist st)"
    and ev: "ev_update_source ev = HISTORICAL" "0 < ev_quantity_lots ev"
    and room: "card (np_live (order_pool (hist st))) < historical_capacity st"
  defines "h1 \<equiv> h_set_heap (opposite (ev_side ev))
    (snd (best_opposite_price (opposite (ev_side ev)) (h_book (opposite (ev_side ev)) (hist st))
      (h_heap (opposite (ev_side ev)) (hist st)))) (hist st)"
  shows "\<exists>n h'. h_rest_order ev (ev_quantity_lots ev) (order_arrival_seq st) (historical_capacity st) h1 = (Some n, h') \<and>
    on_add ev st = st\<lparr>hist := h', order_arrival_seq := order_arrival_seq st + 1\<rparr>"
proof -
  let ?s = "opposite (ev_side ev)" and ?q = "ev_quantity_lots ev"
  obtain best heap' where b: "best_opposite_price ?s (h_book ?s (hist st)) (h_heap ?s (hist st)) = (best, heap')"
    by fastforce
  then have h1: "h1 = h_set_heap ?s heap' (hist st)" by (simp add: h1_def)
  have calm: "\<not> price_crosses ev px" if "best = Some px" for px
    using ex best_opposite_price_Some [of ?s "h_book ?s (hist st)" "h_heap ?s (hist st)" px heap'] b that
    by (auto simp: exhausted_def hq_def hm_get_def)
  have wf: "sim_wf (st\<lparr>hist := h1\<rparr>)" unfolding h1 by (rule clean_heap [OF _ b]) (use tr in \<open>simp add: tracks_def\<close>)
  then have hw: "hist_wf (historical_capacity st) (order_arrival_seq st) h1" by (simp add: sim_wf_def)
  obtain r h' where r: "h_rest_order ev ?q (order_arrival_seq st) (historical_capacity st) h1 = (r, h')" by fastforce
  have "r \<noteq> None"
    using h_rest_order_None [OF hw, of ev ?q h'] r room by (cases r) (auto simp: h1)
  then obtain n where n: "r = Some n" by blast
  have "open_order (hist st) (ev_order_id ev) = None" using tr fresh by (simp add: tracks_def)
  then have free: "hm_find (order_info (hist st)) (ev_order_id ev) = None"
    using tracks_core [OF tr] core_index_node by (fastforce simp: open_order_def split: option.splits)
  have p: "paper st = paper_init" using tr by (simp add: tracks_def)
  then have dup: "\<not> add_is_duplicate ev st"
    using free by (simp add: add_is_duplicate_def hm_contains_def paper_init_def)
  have same: "st\<lparr>hist := h, paper := paper_init\<rparr> = st\<lparr>hist := h\<rparr>" for h using p by (cases st) simp
  have "on_add_historical ev st = rest_historical ev ?q (st\<lparr>hist := h1\<rparr>)"
  proof (cases best)
    case None
    then show ?thesis using ev(2) p by (simp add: on_add_historical_def b h1 Let_def) (simp only: same)
  next
    case (Some px)
    then show ?thesis using ev(2) p calm [OF Some] by (simp add: on_add_historical_def b h1 Let_def) (simp only: same)
  qed
  also have "\<dots> = st\<lparr>hist := h', order_arrival_seq := order_arrival_seq st + 1\<rparr>"
    using r n p by (simp add: rest_historical_def Let_def)
  finally show ?thesis using ev dup r n by (simp add: on_add_def)
qed

lemma open_order_cong:
  assumes "core (hq h) (hn h) L (hm_find (order_info h)) a" "hm_find (order_info h') i = hm_find (order_info h) i"
    and "\<And>m. m \<in> L \<Longrightarrow> on_order_id (hn h m) = i \<Longrightarrow> hn h' m = hn h m"
  shows "open_order h' i = open_order h i"
proof (cases "hm_find (order_info h) i")
  case None
  then show ?thesis using assms(2) by (simp add: open_order_def)
next
  case (Some info)
  from core_index_node [OF assms(1) Some] obtain n where "oi_node info = Some n"
    "n \<in> set (hq h (oi_side info) (oi_price_ticks info))" "on_order_id (hn h n) = i" by blast
  then show ?thesis using Some assms(2,3) core_live [OF assms(1)] by (simp add: open_order_def)
qed

definition follows_to :: "Sim \<Rightarrow> Sim \<Rightarrow> OpenBook \<Rightarrow> bool" where
  "follows_to st st' book \<longleftrightarrow> paper st' = paper_init \<and> (\<forall>i. open_order (hist st') i = hm_find book i) \<and>
     (\<forall>n \<in> np_live (order_pool (hist st')). on_order_id (hn (hist st') n) \<noteq> UnknownOrderIdSentinel) \<and> quiet st st'"

lemma add_follows:
  assumes tr: "tracks st book" and fresh: "hm_find book (ev_order_id ev) = None" and ex: "exhausted ev (hist st)"
    and ev: "ev_update_source ev = HISTORICAL" "0 < ev_quantity_lots ev" "ev_order_id ev \<noteq> UnknownOrderIdSentinel"
    and room: "card (np_live (order_pool (hist st))) < historical_capacity st"
  shows "follows_to st (on_add ev st) (hm_put (ev_order_id ev) \<lparr>oo_side = ev_side ev, oo_price = ev_price_ticks ev,
    oo_trader = ev_trader_id ev, oo_lots = ev_quantity_lots ev\<rparr> book)"
proof -
  let ?s = "opposite (ev_side ev)" and ?i = "ev_order_id ev"
  obtain best heap' where b: "best_opposite_price ?s (h_book ?s (hist st)) (h_heap ?s (hist st)) = (best, heap')"
    by fastforce
  define h1 where "h1 = h_set_heap ?s heap' (hist st)"
  obtain n h' where r: "h_rest_order ev (ev_quantity_lots ev) (order_arrival_seq st) (historical_capacity st) h1 = (Some n, h')"
    and run: "on_add ev st = st\<lparr>hist := h', order_arrival_seq := order_arrival_seq st + 1\<rparr>"
    using add_rests [OF tr fresh ex ev(1,2) room] by (auto simp: b h1_def)
  have same: "order_info h1 = order_info (hist st)" "order_pool h1 = order_pool (hist st)" "hn h1 = hn (hist st)"
    by (simp_all add: h1_def)
  have wf: "hist_wf (historical_capacity st) (order_arrival_seq st) h1"
  proof -
    have "sim_wf (st\<lparr>hist := h1\<rparr>)" unfolding h1_def
      by (rule clean_heap [OF _ b]) (use tr in \<open>simp add: tracks_def\<close>)
    then show ?thesis by (simp add: sim_wf_def)
  qed
  note c = tracks_core [OF tr]
  have "open_order (hist st) ?i = None" using tr fresh by (simp add: tracks_def)
  then have free: "hm_find (order_info (hist st)) ?i = None"
    using c core_index_node by (fastforce simp: open_order_def split: option.splits)
  note rest = h_rest_order_Some [OF wf r ev(2), unfolded same, OF free]
  have info: "hm_find (order_info h') = (hm_find (order_info (hist st)))
      (?i \<mapsto> \<lparr>oi_side = ev_side ev, oi_price_ticks = ev_price_ticks ev, oi_node = Some n\<rparr>)"
    using h_rest_order_info [OF r] free same by simp
  have "open_order h' k = hm_find (hm_put ?i \<lparr>oo_side = ev_side ev, oo_price = ev_price_ticks ev,
      oo_trader = ev_trader_id ev, oo_lots = ev_quantity_lots ev\<rparr> book) k" for k
  proof (cases "k = ?i")
    case True
    then show ?thesis using info rest(4) by (simp add: open_order_def)
  next
    case False
    then have "open_order h' k = open_order (hist st) k"
      using info rest(5) by (intro open_order_cong [OF c]) auto
    then show ?thesis using False tr by (simp add: tracks_def)
  qed
  moreover have "on_order_id (hn h' m) \<noteq> UnknownOrderIdSentinel" if "m \<in> np_live (order_pool h')" for m
    using that rest(4,5,7) ev(3) tr by (cases "m = n") (auto simp: tracks_def)
  moreover have "card (np_live (order_pool h')) \<le> Suc (card (np_live (order_pool (hist st))))"
    unfolding rest(7) by (rule card_insert_le_m1) simp_all
  moreover have "paper st = paper_init" using tr by (simp add: tracks_def)
  ultimately show ?thesis by (simp add: run follows_to_def quiet_def)
qed

section \<open>An open order changes or leaves\<close>

definition h_with_lots :: "Side \<Rightarrow> int \<Rightarrow> nat \<Rightarrow> int \<Rightarrow> int \<Rightarrow> Hist \<Rightarrow> Hist" where
  "h_with_lots s px n i lots h = (if lots = 0 then h_remove_order s px n i h else h_set_qty n lots h)"

lemma h_with_lots_open:
  fixes lots :: int
  assumes tr: "tracks st book" and ord: "hm_find book i = Some ord"
    and info: "hm_find (order_info (hist st)) i = Some info" "oi_node info = Some n"
    and n: "n \<in> np_live (order_pool (hist st))" "on_order_id (hn (hist st) n) = i" "oi_side info = oo_side ord"
      "oi_price_ticks info = oo_price ord" "on_trader_id (hn (hist st) n) = oo_trader ord"
  defines "h' \<equiv> h_with_lots (oi_side info) (oi_price_ticks info) n i lots (hist st)"
  shows "open_order h' k = hm_find (with_lots i ord lots book) k"
    and "np_live (order_pool h') \<subseteq> np_live (order_pool (hist st))"
    and "on_order_id (hn h' m) = on_order_id (hn (hist st) m)"
proof -
  note c = tracks_core [OF tr]
  have open': "open_order (hist st) k = hm_find book k" using tr by (simp add: tracks_def)
  have pool: "np_wf (historical_capacity st) (order_pool (hist st))"
    using tr by (simp add: tracks_def sim_wf_def hist_wf_def)
  have single: "m = n" if "m \<in> np_live (order_pool (hist st))" "on_order_id (hn (hist st) m) = i" for m
  proof -
    note live = that
    obtain s px where m: "m \<in> set (hq (hist st) s px)" using core_queued [OF c live(1)] by blast
    have "i \<noteq> UnknownOrderIdSentinel" using live tr by (auto simp: tracks_def)
    then show ?thesis using core_indexed [OF c m] live(2) info by simp
  qed
  have "open_order h' k = hm_find (with_lots i ord lots book) k \<and>
    np_live (order_pool h') \<subseteq> np_live (order_pool (hist st)) \<and> on_order_id (hn h' m) = on_order_id (hn (hist st) m)"
  proof (cases "lots = 0")
    case True
    then have h': "h' = h_remove_order (oi_side info) (oi_price_ticks info) n i (hist st)"
      by (simp add: h'_def h_with_lots_def)
    have o: "order_info h' = hm_erase i (order_info (hist st))" and l: "np_live (order_pool h') \<subseteq> np_live (order_pool (hist st))"
      using np.release_live [OF pool n(1)] by (auto simp: h' h_remove_order_def Let_def)
    have hn': "hn h' = hn (hist st)" by (simp add: h' remove_order_shape)
    have "open_order h' k = open_order (hist st) k" if "k \<noteq> i"
      by (rule open_order_cong [OF c]) (use that o hn' in simp_all)
    moreover have "open_order h' i = None" using o by (simp add: open_order_def)
    ultimately show ?thesis using True l hn' open' by (auto simp: with_lots_def)
  next
    case False
    then have h': "h' = h_set_qty n lots (hist st)" by (simp add: h'_def h_with_lots_def)
    have hn': "hn h' = (hn (hist st))(n := (hn (hist st) n)\<lparr>on_qty := lots\<rparr>)" by (simp add: h' hn_set_qty [OF n(1)])
    have o: "order_info h' = order_info (hist st)" by (simp add: h')
    have "open_order h' k = open_order (hist st) k" if "k \<noteq> i"
      by (rule open_order_cong [OF c]) (use that o hn' n(2) in auto)
    moreover have "open_order h' i = Some (ord\<lparr>oo_lots := lots\<rparr>)"
      using o hn' info n(3-5) by (simp add: open_order_def)
    moreover have "np_live (order_pool h') = np_live (order_pool (hist st))"
      by (simp add: h' np.live_set)
    ultimately show ?thesis using False hn' open' by (auto simp: with_lots_def)
  qed
  then show "open_order h' k = hm_find (with_lots i ord lots book) k"
    "np_live (order_pool h') \<subseteq> np_live (order_pool (hist st))"
    "on_order_id (hn h' m) = on_order_id (hn (hist st) m)" by simp_all
qed

lemma lots_follow:
  assumes tr: "tracks st book" and ord: "hm_find book i = Some ord"
    and info: "hm_find (order_info (hist st)) i = Some info" "oi_node info = Some n"
    and n: "n \<in> np_live (order_pool (hist st))" "on_order_id (hn (hist st) n) = i" "oi_side info = oo_side ord"
      "oi_price_ticks info = oo_price ord" "on_trader_id (hn (hist st) n) = oo_trader ord"
    and st': "hist st' = h_with_lots (oi_side info) (oi_price_ticks info) n i lots (hist st)" "paper st' = paper_init"
      "diagnostics_of (calls st') = diagnostics_of (calls st)" "historical_capacity st' = historical_capacity st"
  shows "follows_to st st' (with_lots i ord lots book)"
proof -
  note changed = h_with_lots_open [OF tr ord info n, of lots, folded st'(1)]
  have "finite (np_live (order_pool (hist st)))"
    using tr np_live_bound by (auto simp: tracks_def sim_wf_def hist_wf_def)
  from card_mono [OF this changed(2)]
  have "card (np_live (order_pool (hist st'))) \<le> Suc (card (np_live (order_pool (hist st))))" by simp
  moreover have "\<forall>m \<in> np_live (order_pool (hist st')). on_order_id (hn (hist st') m) \<noteq> UnknownOrderIdSentinel"
    using changed(2) tr unfolding changed(3) by (auto simp: tracks_def)
  ultimately show ?thesis using changed(1) st' by (simp add: follows_to_def quiet_def)
qed

lemma delete_follows:
  assumes tr: "tracks st book" and ord: "hm_find book (ev_order_id ev) = Some ord"
    and ev: "ev_update_source ev = HISTORICAL" "oo_side ord = ev_side ev" "oo_price ord = ev_price_ticks ev"
  shows "follows_to st (on_delete ev st) (hm_erase (ev_order_id ev) book)"
proof -
  obtain info n queue where info: "hm_find (order_info (hist st)) (ev_order_id ev) = Some info" "oi_node info = Some n"
    "n \<in> np_live (order_pool (hist st))" "on_order_id (hn (hist st) n) = ev_order_id ev"
    "oi_side info = oo_side ord" "oi_price_ticks info = oo_price ord" "on_trader_id (hn (hist st) n) = oo_trader ord"
    and lots: "on_qty (np_get (order_pool (hist st)) n) = oo_lots ord"
    and q: "hm_find (h_book (oi_side info) (hist st)) (oi_price_ticks info) = Some queue"
    by (rule tracks_node [OF tr ord]) (auto simp: hn_def)
  have p: "paper st = paper_init" using tr by (simp add: tracks_def)
  have "follows_to st (on_delete ev st) (with_lots (ev_order_id ev) ord 0 book)"
    by (rule lots_follow [OF tr ord info])
      (use info ev p q in \<open>simp_all add: on_delete_def Let_def h_with_lots_def\<close>)
  then show ?thesis by (simp add: with_lots_def)
qed

lemma set_follows:
  assumes tr: "tracks st book" and ord: "hm_find book (ev_order_id ev) = Some ord"
    and ev: "ev_update_source ev = HISTORICAL" "oo_side ord = ev_side ev" "oo_price ord = ev_price_ticks ev"
      "0 \<le> ev_quantity_lots ev"
  shows "follows_to st (on_set ev st) (with_lots (ev_order_id ev) ord (ev_quantity_lots ev) book)"
proof -
  obtain info n queue where info: "hm_find (order_info (hist st)) (ev_order_id ev) = Some info" "oi_node info = Some n"
    "n \<in> np_live (order_pool (hist st))" "on_order_id (hn (hist st) n) = ev_order_id ev"
    "oi_side info = oo_side ord" "oi_price_ticks info = oo_price ord" "on_trader_id (hn (hist st) n) = oo_trader ord"
    and lots: "on_qty (np_get (order_pool (hist st)) n) = oo_lots ord"
    and q: "hm_find (h_book (oi_side info) (hist st)) (oi_price_ticks info) = Some queue"
    by (rule tracks_node [OF tr ord]) (auto simp: hn_def)
  have p: "paper st = paper_init" using tr by (simp add: tracks_def)
  show ?thesis
    by (rule lots_follow [OF tr ord info])
      (use info ev p q in \<open>simp_all add: on_set_def Let_def h_with_lots_def\<close>)
qed

lemma partial_cancel_follows:
  assumes tr: "tracks st book" and ord: "hm_find book (ev_order_id ev) = Some ord"
    and ev: "ev_update_source ev = HISTORICAL" "oo_side ord = ev_side ev" "oo_price ord = ev_price_ticks ev"
      "0 < ev_quantity_lots ev" "ev_quantity_lots ev \<le> oo_lots ord"
  shows "follows_to st (on_partial_order_cancel ev trade st)
    (with_lots (ev_order_id ev) ord (oo_lots ord - ev_quantity_lots ev) book)"
proof -
  obtain info n queue where info: "hm_find (order_info (hist st)) (ev_order_id ev) = Some info" "oi_node info = Some n"
    "n \<in> np_live (order_pool (hist st))" "on_order_id (hn (hist st) n) = ev_order_id ev"
    "oi_side info = oo_side ord" "oi_price_ticks info = oo_price ord" "on_trader_id (hn (hist st) n) = oo_trader ord"
    and lots: "on_qty (np_get (order_pool (hist st)) n) = oo_lots ord"
    and q: "hm_find (h_book (oi_side info) (hist st)) (oi_price_ticks info) = Some queue"
    by (rule tracks_node [OF tr ord]) (auto simp: hn_def)
  have p: "paper st = paper_init" using tr by (simp add: tracks_def)
  show ?thesis
    by (rule lots_follow [OF tr ord info])
      (use info ev p q lots in \<open>simp_all add: on_partial_order_cancel_def Let_def h_with_lots_def min_def\<close>)
qed

section \<open>A stream of events\<close>

lemma hm_wf_with_lots [simp]: "hm_wf book \<Longrightarrow> hm_wf (with_lots i ord lots book)"
  by (simp add: with_lots_def)

lemma dispatch_follows:
  assumes tr: "tracks st book" and f: "follow ev book = Some book'" and r: "rests ev book"
    and room: "card (np_live (order_pool (hist st))) < historical_capacity st"
  shows "follows_to st (dispatch ev st) book' \<and> hm_wf book'"
proof -
  have src: "ev_update_source ev = HISTORICAL" using f by (auto simp: follow_def Let_def split: if_splits)
  have wf: "hm_wf book" using tr by (simp add: tracks_def)
  show ?thesis
  proof (cases "hm_find book (ev_order_id ev)")
    case None
    then have add: "ev_update_type ev = ADD" "ev_order_id ev \<noteq> UnknownOrderIdSentinel" "0 < ev_quantity_lots ev"
      and b: "book' = hm_put (ev_order_id ev) \<lparr>oo_side = ev_side ev, oo_price = ev_price_ticks ev,
        oo_trader = ev_trader_id ev, oo_lots = ev_quantity_lots ev\<rparr> book"
      using f src by (auto simp: follow_def Let_def split: UpdateType.splits if_splits)
    from add_follows [OF tr None rests_exhausted [OF tr r add(1)] src add(3,2) room] b wf add(1) show ?thesis
      by (simp add: dispatch_def)
  next
    case (Some ord)
    then have "oo_side ord = ev_side ev" "oo_price ord = ev_price_ticks ev"
      using f src by (auto simp: follow_def Let_def split: UpdateType.splits if_splits)
    with Some f src wf delete_follows [OF tr Some src] set_follows [OF tr Some src] partial_cancel_follows [OF tr Some src]
    show ?thesis
      by (auto simp: follow_def Let_def dispatch_def on_match_def on_subtract_def split: UpdateType.splits if_splits)
  qed
qed

lemma update_follows:
  assumes tr: "tracks st book" and f: "follow ev book = Some book'" and r: "rests ev book"
    and room: "card (np_live (order_pool (hist st))) < historical_capacity st"
  shows "tracks (update ev st) book' \<and> quiet st (update ev st)"
proof -
  let ?st = "emit_call (OnEventApply (apply_record (seq st) ev)) st"
  have "tracks ?st book" using tr by (simp add: tracks_def)
  from dispatch_follows [OF this f r] room have "follows_to ?st (dispatch ev ?st) book' \<and> hm_wf book'" by simp
  moreover have "sim_wf (update ev st)" using update_preserves_all tr by (simp add: tracks_def preserves_def)
  ultimately show ?thesis by (simp add: follows_to_def tracks_def quiet_def update_def Let_def)
qed

lemma run_follows:
  assumes "tracks st book" "follow_all evs book = Some book'" "all_rest evs book"
    and "card (np_live (order_pool (hist st))) + length evs \<le> historical_capacity st"
  shows "tracks (run_updates evs st) book' \<and> diagnostics_of (calls (run_updates evs st)) = diagnostics_of (calls st)"
  using assms
proof (induction evs arbitrary: st book)
  case Nil
  then show ?case by (simp add: run_updates_def)
next
  case (Cons ev evs)
  obtain book1 where b: "follow ev book = Some book1" "follow_all evs book1 = Some book'"
    using Cons.prems(2) by (auto simp: Option.bind_eq_Some_conv)
  have step: "tracks (update ev st) book1 \<and> quiet st (update ev st)"
    by (rule update_follows [OF Cons.prems(1) b(1)]) (use Cons.prems in simp_all)
  have "tracks (run_updates evs (update ev st)) book' \<and>
      diagnostics_of (calls (run_updates evs (update ev st))) = diagnostics_of (calls (update ev st))"
    by (rule Cons.IH [OF _ b(2)]) (use step Cons.prems(3,4) b(1) in \<open>auto simp: quiet_def\<close>)
  then show ?case using step by (simp add: run_updates_def quiet_def)
qed

lemma tracks_init: "tracks (set_log_sink True (sim_init hcap pcap)) hm_empty"
  using sim_wf_init [of hcap pcap]
  by (auto simp: tracks_def set_log_sink_def sim_wf_def sim_init_def open_order_def hist_init_def np_live_def np_empty_def)

end
