(* ===== verification/FlowFacts.thy ===== *)
theory FlowFacts
  imports OrderFlow OrderTracking
begin

text \<open>
  The order flow of the generators: the set of live orders as a map by order id, the invariant of the flow,
  and the simulation between the two representations of live orders.
\<close>

section \<open>Live orders as a map\<close>

definition live_wf :: "LiveOrders \<Rightarrow> bool" where
  \<comment> \<open>the index knows exactly the position of every order, and no id is twice in the list\<close>
  "live_wf l \<longleftrightarrow> distinct (map lo_order_id (lv_orders l)) \<and>
     (\<forall>i j. hm_find (lv_index l) i = Some j \<longleftrightarrow> j < length (lv_orders l) \<and> lo_order_id (lv_orders l ! j) = i)"

definition live_find :: "LiveOrders \<Rightarrow> int \<Rightarrow> LiveOrder option" where
  "live_find l i = map_option ((!) (lv_orders l)) (hm_find (lv_index l) i)"

lemma live_wf_empty [simp]: "live_wf live_empty"
  by (simp add: live_wf_def live_empty_def)

lemma live_find_empty [simp]: "live_find live_empty i = None"
  by (simp add: live_find_def live_empty_def)

lemma live_wf_same:
  "live_wf l \<Longrightarrow> j < length (lv_orders l) \<Longrightarrow> k < length (lv_orders l) \<Longrightarrow>
     lo_order_id (lv_orders l ! j) = lo_order_id (lv_orders l ! k) \<longleftrightarrow> j = k"
  by (auto simp: live_wf_def distinct_conv_nth)

lemma live_wfI:
  assumes "\<And>i j. hm_find (lv_index l) i = Some j \<longleftrightarrow> j < length (lv_orders l) \<and> lo_order_id (lv_orders l ! j) = i"
  shows "live_wf l"
proof -
  have "distinct (map lo_order_id (lv_orders l))"
    unfolding distinct_conv_nth using assms by (metis length_map nth_map option.inject)
  then show ?thesis using assms by (simp add: live_wf_def)
qed

lemma live_find_Some:
  assumes "live_wf l"
  shows "live_find l i = Some ord \<longleftrightarrow> (\<exists>j < length (lv_orders l). lv_orders l ! j = ord \<and> lo_order_id ord = i)"
  using assms by (auto simp: live_find_def live_wf_def)

lemma live_find_nth:
  "live_wf l \<Longrightarrow> j < length (lv_orders l) \<Longrightarrow> live_find l (lo_order_id (lv_orders l ! j)) = Some (lv_orders l ! j)"
  using live_find_Some by blast

lemma live_find_id: "live_wf l \<Longrightarrow> live_find l i = Some ord \<Longrightarrow> lo_order_id ord = i"
  using live_find_Some by blast

lemma live_add_wf:
  assumes "live_wf l" "live_find l (lo_order_id ord) = None"
  shows "live_wf (live_add ord l)" "live_find (live_add ord l) = (live_find l)(lo_order_id ord \<mapsto> ord)"
proof -
  have new: "hm_find (lv_index l) (lo_order_id ord) = None" using assms(2) by (simp add: live_find_def)
  have at: "hm_find (lv_index l) i = Some j \<longleftrightarrow> j < length (lv_orders l) \<and> lo_order_id (lv_orders l ! j) = i" for i j
    using assms(1) by (simp add: live_wf_def)
  have other: "lo_order_id (lv_orders l ! j) \<noteq> lo_order_id ord" if "j < length (lv_orders l)" for j
    using at [of "lo_order_id ord" j] new that by auto
  show "live_wf (live_add ord l)"
    using at other by (intro live_wfI) (auto simp: live_add_def nth_append less_Suc_eq)
  show "live_find (live_add ord l) = (live_find l)(lo_order_id ord \<mapsto> ord)"
    using at by (auto simp: live_find_def live_add_def nth_append fun_eq_iff split: option.splits
        simp del: not_None_eq intro!: option.map_cong)
qed

lemma live_remove_wf:
  assumes "live_wf l"
  shows "live_wf (live_remove i l)" "live_find (live_remove i l) = (live_find l)(i := None)"
proof -
  let ?xs = "lv_orders l"
  have at: "hm_find (lv_index l) k = Some j \<longleftrightarrow> j < length ?xs \<and> lo_order_id (?xs ! j) = k" for k j
    using assms by (simp add: live_wf_def)
  have "live_wf (live_remove i l) \<and> live_find (live_remove i l) = (live_find l)(i := None)"
  proof (cases "hm_find (lv_index l) i")
    case None
    then show ?thesis using assms by (auto simp: live_remove_def live_find_def fun_eq_iff)
  next
    case (Some idx)
    then have idx: "idx < length ?xs" "lo_order_id (?xs ! idx) = i" using at by simp_all
    define n where "n = length ?xs - 1"
    have n: "length ?xs = Suc n" using idx(1) by (simp add: n_def)
    have final: "last ?xs = ?xs ! n" using idx(1) by (metis last_conv_nth length_0_conv n_def not_less_zero)
    have prefix: "butlast ?xs ! j = ?xs ! j" if "j < n" for j using that n by (simp add: nth_butlast)
    have same: "lo_order_id (?xs ! j) = lo_order_id (?xs ! k) \<longleftrightarrow> j = k" if "j \<le> n" "k \<le> n" for j k
      using live_wf_same [OF assms] that n by simp
    define l' where "l' = live_remove i l"
    have orders: "lv_orders l' = (if idx < n then (butlast ?xs)[idx := ?xs ! n] else butlast ?xs)"
      and index: "hm_find (lv_index l') k =
        (if k = i then None else if idx < n \<and> k = lo_order_id (?xs ! n) then Some idx else hm_find (lv_index l) k)" for k
      using Some n final by (auto simp: l'_def live_remove_def Let_def)
    have len: "length (lv_orders l') = n" using n by (simp add: orders)
    have nth: "lv_orders l' ! j = (if j = idx then ?xs ! n else ?xs ! j)" if "j < n" for j
      using that n prefix by (auto simp: orders nth_list_update)
    have wf: "live_wf l'"
    proof (rule live_wfI)
      fix k j
      show "hm_find (lv_index l') k = Some j \<longleftrightarrow> j < length (lv_orders l') \<and> lo_order_id (lv_orders l' ! j) = k"
      proof (cases "j < n")
        case True
        then show ?thesis using idx at [of k j] same [of j idx] same [of j n] same [of n idx] n
          by (auto simp: index len nth)
      next
        case False
        then show ?thesis using idx at [of k j] same [of n idx] n
          by (cases "j = n") (auto simp: index len)
      qed
    qed
    have members: "(\<exists>j < n. lv_orders l' ! j = ord) \<longleftrightarrow> (\<exists>j < Suc n. ?xs ! j = ord \<and> j \<noteq> idx)" for ord
    proof
      assume "\<exists>j < n. lv_orders l' ! j = ord"
      then obtain j where "j < n" "lv_orders l' ! j = ord" by blast
      then show "\<exists>j < Suc n. ?xs ! j = ord \<and> j \<noteq> idx"
        using nth [of j] by (cases "j = idx") (auto intro: exI [of _ n] exI [of _ j])
    next
      assume "\<exists>j < Suc n. ?xs ! j = ord \<and> j \<noteq> idx"
      then obtain j where j: "j < Suc n" "?xs ! j = ord" "j \<noteq> idx" by blast
      show "\<exists>j < n. lv_orders l' ! j = ord"
      proof (cases "j = n")
        case True
        then have "idx < n" using idx(1) j(3) n by simp
        then show ?thesis using True j(2) nth [of idx] by auto
      next
        case False
        then show ?thesis using j nth [of j] by (intro exI [of _ j]) simp
      qed
    qed
    have "live_find l' k = Some ord \<longleftrightarrow> ((live_find l)(i := None)) k = Some ord" for k ord
    proof -
      have "live_find l' k = Some ord \<longleftrightarrow> (\<exists>j < n. lv_orders l' ! j = ord) \<and> lo_order_id ord = k"
        using live_find_Some [OF wf] len by auto
      also have "\<dots> \<longleftrightarrow> (\<exists>j < Suc n. ?xs ! j = ord \<and> j \<noteq> idx) \<and> lo_order_id ord = k"
        by (simp only: members)
      also have "\<dots> \<longleftrightarrow> k \<noteq> i \<and> (\<exists>j < Suc n. ?xs ! j = ord \<and> lo_order_id ord = k)"
        using same idx n by (metis less_Suc_eq_le)
      finally show ?thesis using live_find_Some [OF assms] n by simp
    qed
    then have "live_find l' k = ((live_find l)(i := None)) k" for k by (metis not_None_eq)
    then show ?thesis using wf by (simp add: l'_def fun_eq_iff)
  qed
  then show "live_wf (live_remove i l)" "live_find (live_remove i l) = (live_find l)(i := None)" by simp_all
qed

lemma live_update_wf:
  assumes "live_wf l" "j < length (lv_orders l)" "lo_order_id ord = lo_order_id (lv_orders l ! j)"
  shows "live_wf (l\<lparr>lv_orders := (lv_orders l)[j := ord]\<rparr>)"
    "live_find (l\<lparr>lv_orders := (lv_orders l)[j := ord]\<rparr>) = (live_find l)(lo_order_id ord \<mapsto> ord)"
proof -
  have at: "hm_find (lv_index l) i = Some k \<longleftrightarrow> k < length (lv_orders l) \<and> lo_order_id (lv_orders l ! k) = i" for i k
    using assms(1) by (simp add: live_wf_def)
  show "live_wf (l\<lparr>lv_orders := (lv_orders l)[j := ord]\<rparr>)"
    using at assms(2,3) by (intro live_wfI) (auto simp: nth_list_update)
  have "hm_find (lv_index l) (lo_order_id ord) = Some j" using at assms(2,3) by simp
  moreover have "(lv_orders l)[j := ord] ! k = lv_orders l ! k" if "hm_find (lv_index l) i = Some k" "i \<noteq> lo_order_id ord" for i k
    using at that assms(3) by (metis nth_list_update_neq)
  ultimately show "live_find (l\<lparr>lv_orders := (lv_orders l)[j := ord]\<rparr>) = (live_find l)(lo_order_id ord \<mapsto> ord)"
    using assms(2) by (auto simp: live_find_def fun_eq_iff intro!: option.map_cong)
qed

section \<open>The values of a flow\<close>

definition sound_args :: "FlowArgs \<Rightarrow> bool" where
  "sound_args args \<longleftrightarrow> 1 \<le> fa_symbols args \<and> 1 \<le> fa_mid_start args \<and> 1 \<le> fa_max_qty args"

lemma uniform_int_range: "lo \<le> hi \<Longrightarrow> lo \<le> uniform_int lo hi raw \<and> uniform_int lo hi raw \<le> hi"
  using pos_mod_bound [of "hi - lo + 1" "int raw"] pos_mod_sign [of "hi - lo + 1" "int raw"]
  by (simp add: uniform_int_def del: pos_mod_bound pos_mod_sign)

lemma live_pick_less: "lv_orders l \<noteq> [] \<Longrightarrow> live_pick raw l < length (lv_orders l)"
  using uniform_int_range [of 0 "int (length (lv_orders l)) - 1" raw]
  by (cases "lv_orders l") (auto simp: live_pick_def)

lemma sample_bounds:
  "1 \<le> sample_offset mean off" "1 \<le> max_qty \<Longrightarrow> 1 \<le> sample_qty max_qty qty \<and> sample_qty max_qty qty \<le> max_qty"
  by (auto simp: sample_offset_def sample_qty_def)

lemma matched_qty_bounds: "1 \<le> fa_max_qty args \<Longrightarrow> 1 \<le> q \<Longrightarrow> 1 \<le> matched_qty args d q \<and> matched_qty args d q \<le> q"
  using sample_bounds(2) [of "fa_max_qty args" "fd_qty d"] by (auto simp: matched_qty_def Let_def)

lemma length_prefix_sums_from [simp]: "length (prefix_sums_from rnd acc ws) = length ws"
  by (induction ws arbitrary: acc) simp_all

lemma length_symbol_prefix [simp]: "length (symbol_prefix rnd n) = n"
  by (simp add: symbol_prefix_def symbol_weights_def Let_def)

lemma symbol_index_less: "0 < length prefix \<Longrightarrow> symbol_index prefix r < length prefix"
  by (auto simp: symbol_index_def nat_less_iff min_def)

lemma moved_mid_pos: "1 \<le> mid \<Longrightarrow> 1 \<le> moved_mid args d mid"
  by (simp add: moved_mid_def Let_def)

lemma order_price_pos: "1 \<le> mid \<Longrightarrow> 1 \<le> order_price args d side mid"
  using sample_bounds(1) [of "fa_mean_offset args" "fd_offset d"] by (auto simp: order_price_def Let_def)

section \<open>The invariant of a flow\<close>

definition live_view :: "LiveOrder \<Rightarrow> OpenOrder" where
  "live_view ord = \<lparr>oo_side = lo_side ord, oo_price = lo_price_ticks ord, oo_trader = lo_trader_id ord,
     oo_lots = lo_qty_lots ord\<rparr>"

definition flow_wf :: "FlowArgs \<Rightarrow> Flow \<Rightarrow> bool" where
  "flow_wf args st \<longleftrightarrow> live_wf (fl_live st) \<and> length (fl_mids st) = fa_symbols args \<and>
     list_all (\<lambda>mid. 1 \<le> mid) (fl_mids st) \<and> 1 \<le> fl_next_order_id st \<and>
     (\<forall>i ord. live_find (fl_live st) i = Some ord \<longrightarrow> i < fl_next_order_id st \<and> 1 \<le> lo_qty_lots ord)"

definition shows_live :: "OpenBook \<Rightarrow> Flow \<Rightarrow> bool" where
  "shows_live book st \<longleftrightarrow> hm_wf book \<and> (\<forall>i. hm_find book i = map_option live_view (live_find (fl_live st) i))"

lemma flow_wf_init: "sound_args args \<Longrightarrow> flow_wf args (flow_init args)"
  by (simp add: flow_wf_def flow_init_def sound_args_def list_all_iff)

lemma shows_live_init: "shows_live hm_empty (flow_init args)"
  by (simp add: shows_live_def flow_init_def)

lemma flow_event_simps [simp]:
  "ev_side (flow_event ts kind side price qty i trader k) = side"
  "ev_update_type (flow_event ts kind side price qty i trader k) = kind"
  "ev_price_ticks (flow_event ts kind side price qty i trader k) = price"
  "ev_quantity_lots (flow_event ts kind side price qty i trader k) = qty"
  "ev_order_id (flow_event ts kind side price qty i trader k) = i"
  "ev_trader_id (flow_event ts kind side price qty i trader k) = trader"
  "ev_update_source (flow_event ts kind side price qty i trader k) = HISTORICAL"
  by (simp_all add: flow_event_def)

lemma flow_cancel_follows:
  assumes "flow_wf args st" "shows_live book st" "lv_orders (fl_live st) \<noteq> []" "flow_cancel ts d st = (ev, st')"
  shows "\<exists>book'. follow ev book = Some book' \<and> shows_live book' st' \<and> flow_wf args st'"
proof -
  let ?l = "fl_live st"
  have wf: "live_wf ?l" using assms(1) by (simp add: flow_wf_def)
  define ord where "ord = lv_orders ?l ! live_pick (fd_pick d) ?l"
  have at: "live_find ?l (lo_order_id ord) = Some ord"
    unfolding ord_def by (rule live_find_nth [OF wf live_pick_less [OF assms(3)]])
  have run: "ev = flow_event ts DELETE (lo_side ord) (lo_price_ticks ord) 0 (lo_order_id ord) (lo_trader_id ord)
      (lo_symbol_idx ord)"
    "st' = st\<lparr>fl_live := live_remove (lo_order_id ord) ?l, fl_cancel_count := fl_cancel_count st + 1\<rparr>"
    using assms(4) by (simp_all add: flow_cancel_def ord_def Let_def)
  note removed = live_remove_wf [OF wf, of "lo_order_id ord"]
  have "follow ev book = Some (hm_erase (lo_order_id ord) book)"
    using assms(2) at by (simp add: run(1) follow_def shows_live_def live_view_def)
  moreover have "shows_live (hm_erase (lo_order_id ord) book) st'"
    using assms(2) by (simp add: run(2) shows_live_def removed(2))
  moreover have "flow_wf args st'" using assms(1) by (simp add: run(2) flow_wf_def removed)
  ultimately show ?thesis by blast
qed

lemma flow_match_follows:
  assumes "flow_wf args st" "shows_live book st" "lv_orders (fl_live st) \<noteq> []" "sound_args args"
    and "flow_match args ts d st = (ev, st')"
  shows "\<exists>book'. follow ev book = Some book' \<and> shows_live book' st' \<and> flow_wf args st'"
proof -
  let ?l = "fl_live st"
  have wf: "live_wf ?l" using assms(1) by (simp add: flow_wf_def)
  define i where "i = live_pick (fd_pick d) ?l"
  have i: "i < length (lv_orders ?l)" unfolding i_def by (rule live_pick_less [OF assms(3)])
  define ord where "ord = lv_orders ?l ! i"
  define qty where "qty = matched_qty args d (lo_qty_lots ord)"
  define ord' where "ord' = ord\<lparr>lo_qty_lots := lo_qty_lots ord - qty\<rparr>"
  have at: "live_find ?l (lo_order_id ord) = Some ord" unfolding ord_def by (rule live_find_nth [OF wf i])
  have lots: "1 \<le> lo_qty_lots ord" using at assms(1) by (auto simp: flow_wf_def)
  have qty: "1 \<le> qty" "qty \<le> lo_qty_lots ord"
    using matched_qty_bounds [of args "lo_qty_lots ord" d] lots assms(4) by (simp_all add: qty_def sound_args_def)
  define live where "live = ?l\<lparr>lv_orders := (lv_orders ?l)[i := ord']\<rparr>"
  have id: "lo_order_id ord' = lo_order_id ord" by (simp add: ord'_def)
  note updated = live_update_wf [OF wf i, of ord', folded ord_def live_def, OF id, unfolded id]
  note removed = live_remove_wf [OF updated(1), of "lo_order_id ord"]
  have run: "ev = flow_event ts MATCH (lo_side ord) (lo_price_ticks ord) qty (lo_order_id ord) (lo_trader_id ord)
      (lo_symbol_idx ord)"
    "st' = st\<lparr>fl_live := (if lo_qty_lots ord' \<le> 0 then live_remove (lo_order_id ord) live else live),
       fl_match_count := fl_match_count st + 1\<rparr>"
    using assms(5) [symmetric] by (simp_all add: flow_match_def i_def ord_def qty_def ord'_def live_def Let_def)
  let ?book = "with_lots (lo_order_id ord) (live_view ord) (lo_qty_lots ord - qty) book"
  have "follow ev book = Some ?book"
    using assms(2) at qty by (simp add: run(1) follow_def shows_live_def live_view_def)
  moreover have "shows_live ?book st' \<and> flow_wf args st'"
  proof (cases "qty = lo_qty_lots ord")
    case True
    then show ?thesis using assms(1,2)
      by (auto simp: run(2) ord'_def with_lots_def shows_live_def flow_wf_def removed updated(2))
  next
    case False
    then have "1 \<le> lo_qty_lots ord - qty" using qty by simp
    then show ?thesis using assms(1,2) False at
      by (auto simp: run(2) ord'_def with_lots_def shows_live_def flow_wf_def updated live_view_def)
  qed
  ultimately show ?thesis by blast
qed

lemma flow_add_follows:
  assumes "flow_wf args st" "shows_live book st" "sound_args args" "length prefix = fa_symbols args"
    and "flow_add args prefix ts d st = (ev, st')"
  shows "\<exists>book'. follow ev book = Some book' \<and> shows_live book' st' \<and> flow_wf args st'"
proof -
  let ?l = "fl_live st" and ?i = "fl_next_order_id st"
  have wf: "live_wf ?l" using assms(1) by (simp add: flow_wf_def)
  obtain spec mids where spec: "new_order args prefix d (fl_mids st) = (spec, mids)" by fastforce
  define ord where "ord = \<lparr>lo_order_id = ?i, lo_trader_id = os_trader spec, lo_price_ticks = os_price spec,
    lo_qty_lots = os_qty spec, lo_symbol_idx = os_symbol spec, lo_side = os_side spec\<rparr>"
  have run: "ev = flow_event ts ADD (os_side spec) (os_price spec) (os_qty spec) ?i (os_trader spec) (os_symbol spec)"
    "st' = st\<lparr>fl_mids := mids, fl_next_order_id := ?i + 1, fl_live := live_add ord ?l,
       fl_add_count := fl_add_count st + 1\<rparr>"
    using assms(5) [symmetric] by (simp_all add: flow_add_def spec ord_def Let_def)
  have fresh: "live_find ?l ?i = None" using assms(1) by (cases "live_find ?l ?i") (auto simp: flow_wf_def)
  note added = live_add_wf [OF wf, of ord]
  have pos: "1 \<le> ?i" "1 \<le> os_qty spec"
    using assms(1,3) spec sample_bounds(2) by (auto simp: flow_wf_def new_order_def Let_def sound_args_def)
  define k where "k = symbol_index prefix (fd_symbol d)"
  have k: "k < length (fl_mids st)"
    using assms(1,3,4) symbol_index_less [of prefix "fd_symbol d"] by (simp add: k_def flow_wf_def sound_args_def)
  then have "1 \<le> fl_mids st ! k" using assms(1) by (simp add: flow_wf_def list_all_length)
  moreover have "mids = (fl_mids st)[k := moved_mid args d (fl_mids st ! k)]"
    using spec by (auto simp: new_order_def Let_def k_def)
  ultimately have mids: "length mids = fa_symbols args" "list_all (\<lambda>mid. 1 \<le> mid) mids"
    using assms(1) k moved_mid_pos by (auto simp: flow_wf_def list_all_length nth_list_update)
  let ?book = "hm_put ?i (live_view ord) book"
  have "follow ev book = Some ?book"
    using assms(2) fresh pos
    by (simp add: run(1) follow_def shows_live_def live_view_def ord_def UnknownOrderIdSentinel_def)
  moreover have "shows_live ?book st'"
    using assms(2) added(2) fresh by (simp add: run(2) shows_live_def) (simp add: ord_def)
  moreover have "flow_wf args st'"
    using assms(1) added fresh pos mids
    by (fastforce simp: run(2) flow_wf_def ord_def)
  ultimately show ?thesis by blast
qed

lemma flow_step_cases:
  assumes "flow_step args prefix ts d st = (ev, st')"
  obtains (cancel) "lv_orders (fl_live st) \<noteq> []" "flow_cancel ts d st = (ev, st')"
    | (trade) "lv_orders (fl_live st) \<noteq> []" "flow_match args ts d st = (ev, st')"
    | (new) "flow_add args prefix ts d st = (ev, st')"
  using assms by (auto simp: flow_step_def split: if_splits)

lemma flow_step_follows:
  assumes "flow_wf args st" "shows_live book st" "sound_args args" "length prefix = fa_symbols args"
    and "flow_step args prefix ts d st = (ev, st')"
  shows "\<exists>book'. follow ev book = Some book' \<and> shows_live book' st' \<and> flow_wf args st'"
  using assms(5) flow_cancel_follows [OF assms(1,2)] flow_match_follows [OF assms(1,2) _ assms(3)]
    flow_add_follows [OF assms(1-4)]
  by (cases rule: flow_step_cases) blast+

lemma flow_run_follows:
  assumes "flow_wf args st" "shows_live book st" "sound_args args" "length prefix = fa_symbols args"
    and "flow_run args prefix ds st = (evs, st')"
  shows "\<exists>book'. follow_all evs book = Some book' \<and> shows_live book' st' \<and> flow_wf args st' \<and> length evs = length ds"
  using assms(1,2,5)
proof (induction ds arbitrary: st book evs)
  case Nil
  then show ?case by simp
next
  case (Cons td ds)
  obtain ts d where td: "td = (ts, d)" by fastforce
  obtain ev st1 evs1 where run: "flow_step args prefix ts d st = (ev, st1)" "flow_run args prefix ds st1 = (evs1, st')"
    "evs = ev # evs1"
    using Cons.prems(3) by (auto simp: td split: prod.splits)
  obtain book1 where "follow ev book = Some book1" "shows_live book1 st1" "flow_wf args st1"
    using flow_step_follows [OF Cons.prems(1,2) assms(3,4) run(1)] by blast
  with Cons.IH [OF this(3,2) run(2)] run(3) show ?case by auto
qed

section \<open>A flow that never crosses\<close>

definition calm_args :: "FlowArgs \<Rightarrow> bool" where
  \<comment> \<open>no crossing orders, and the middle price stays\<close>
  "calm_args args \<longleftrightarrow> fa_cross_pct args \<le> 0 \<and> fa_mid_move_prob args \<le> 0"

definition drawn :: "Draws \<Rightarrow> bool" where
  \<comment> \<open>\<open>uniform_real_distribution(0, 1)\<close> is not negative\<close>
  "drawn d \<longleftrightarrow> 0 \<le> fd_cross d \<and> 0 \<le> fd_move d"

definition apart :: "int \<Rightarrow> OpenOrder \<Rightarrow> bool" where
  "apart mid ord \<longleftrightarrow> (if oo_side ord = BUY then oo_price ord \<le> mid else mid < oo_price ord)"

definition calm :: "FlowArgs \<Rightarrow> Flow \<Rightarrow> bool" where
  "calm args st \<longleftrightarrow> fl_mids st = replicate (fa_symbols args) (fa_mid_start args)"

lemma order_price_apart:
  assumes "1 \<le> mid" "calm_args args" "drawn d"
  shows "if side = BUY then order_price args d side mid \<le> mid else mid < order_price args d side mid"
  using assms sample_bounds(1) [of "fa_mean_offset args" "fd_offset d"]
  by (auto simp: order_price_def calm_args_def drawn_def Let_def)

lemma calm_mids:
  assumes "calm args st" "calm_args args" "drawn d" "sound_args args" "length prefix = fa_symbols args"
    and "new_order args prefix d (fl_mids st) = (spec, mids)"
  shows "mids = fl_mids st" "os_price spec = order_price args d (os_side spec) (fa_mid_start args)"
proof -
  define k where "k = symbol_index prefix (fd_symbol d)"
  have "k < fa_symbols args"
    using assms(4,5) symbol_index_less [of prefix "fd_symbol d"] by (simp add: k_def sound_args_def)
  moreover have "moved_mid args d mid = mid" for mid
    using assms(2,3) by (auto simp: moved_mid_def calm_args_def drawn_def)
  moreover have "fl_mids st ! k = fa_mid_start args" if "k < fa_symbols args"
    using assms(1) that by (simp add: calm_def)
  moreover have "(fl_mids st)[k := fl_mids st ! k] = fl_mids st" by (rule list_update_id)
  ultimately show "mids = fl_mids st" "os_price spec = order_price args d (os_side spec) (fa_mid_start args)"
    using assms(6) by (auto simp: new_order_def Let_def k_def [symmetric])
qed

definition apart_book :: "int \<Rightarrow> OpenBook \<Rightarrow> bool" where
  "apart_book mid book \<longleftrightarrow> (\<forall>i ord. hm_find book i = Some ord \<longrightarrow> apart mid ord)"

lemma apart_follow:
  assumes "follow ev book = Some book'" "apart_book mid book" "hm_wf book"
    and "ev_update_type ev = ADD \<Longrightarrow> apart mid \<lparr>oo_side = ev_side ev, oo_price = ev_price_ticks ev,
      oo_trader = ev_trader_id ev, oo_lots = ev_quantity_lots ev\<rparr>"
  shows "apart_book mid book' \<and> rests ev book"
proof
  have lots: "apart mid (ord\<lparr>oo_lots := lots\<rparr>) = apart mid ord" for ord lots by (simp add: apart_def)
  show "apart_book mid book'"
  proof (cases "hm_find book (ev_order_id ev)")
    case None
    then show ?thesis using assms(1,2,4)
      by (auto simp: follow_def Let_def apart_book_def split: UpdateType.splits if_splits)
  next
    case (Some ord)
    then have "apart mid ord" using assms(2) by (simp add: apart_book_def)
    then show ?thesis using Some assms(1,2)
      by (auto simp: follow_def Let_def apart_book_def with_lots_def lots split: UpdateType.splits if_splits)
  qed
  have "\<not> price_crosses ev (oo_price ord)"
    if "ev_update_type ev = ADD" "(i, ord) \<in> set book" "oo_side ord \<noteq> ev_side ev" for i ord
  proof -
    have "apart mid ord" using assms(2,3) that(2) by (auto simp: apart_book_def hm_find_mem)
    then show ?thesis using assms(4) [OF that(1)] that(3)
      by (cases "ev_side ev"; cases "oo_side ord") (auto simp: apart_def price_crosses_def)
  qed
  then show "rests ev book" by (auto simp: rests_def list_all_iff)
qed

lemma calm_step:
  assumes "calm args st" "calm_args args" "drawn d" "sound_args args" "length prefix = fa_symbols args"
    and "flow_step args prefix ts d st = (ev, st')"
  shows "calm args st' \<and> (ev_update_type ev = ADD \<longrightarrow> apart (fa_mid_start args) \<lparr>oo_side = ev_side ev,
    oo_price = ev_price_ticks ev, oo_trader = ev_trader_id ev, oo_lots = ev_quantity_lots ev\<rparr>)"
proof -
  obtain spec mids where spec: "new_order args prefix d (fl_mids st) = (spec, mids)" by fastforce
  note calm = calm_mids [OF assms(1-5) spec]
  have "1 \<le> fa_mid_start args" using assms(4) by (simp add: sound_args_def)
  note apart = order_price_apart [OF this assms(2,3), of "os_side spec"]
  from assms(6) show ?thesis
  proof (cases rule: flow_step_cases)
    case cancel
    then show ?thesis using assms(1) by (auto simp: flow_cancel_def Let_def calm_def)
  next
    case trade
    then show ?thesis using assms(1) by (auto simp: flow_match_def Let_def calm_def)
  next
    case new
    then have "ev = flow_event ts ADD (os_side spec) (os_price spec) (os_qty spec) (fl_next_order_id st)
        (os_trader spec) (os_symbol spec)" "fl_mids st' = mids"
      by (auto simp: flow_add_def spec Let_def)
    then show ?thesis using assms(1) apart calm by (auto simp: calm_def apart_def split: if_splits)
  qed
qed

lemma calm_run_rests:
  assumes "flow_wf args st" "shows_live book st" "sound_args args" "length prefix = fa_symbols args"
    and "calm args st" "calm_args args" "list_all (drawn \<circ> snd) ds" "apart_book (fa_mid_start args) book"
    and "flow_run args prefix ds st = (evs, st')"
  shows "all_rest evs book"
  using assms(1,2,5,7-)
proof (induction ds arbitrary: st book evs)
  case Nil
  then show ?case by simp
next
  case (Cons td ds)
  obtain ts d where td: "td = (ts, d)" by fastforce
  obtain ev st1 evs1 where run: "flow_step args prefix ts d st = (ev, st1)" "flow_run args prefix ds st1 = (evs1, st')"
    "evs = ev # evs1"
    using Cons.prems(6) by (auto simp: td split: prod.splits)
  have d: "drawn d" "list_all (drawn \<circ> snd) ds" using Cons.prems(4) by (simp_all add: td comp_def)
  obtain book1 where b: "follow ev book = Some book1" "shows_live book1 st1" "flow_wf args st1"
    using flow_step_follows [OF Cons.prems(1,2) assms(3,4) run(1)] by blast
  note step = calm_step [OF Cons.prems(3) assms(6) d(1) assms(3,4) run(1)]
  have "hm_wf book" using Cons.prems(2) by (simp add: shows_live_def)
  from apart_follow [OF b(1) Cons.prems(5) this] step
  have "apart_book (fa_mid_start args) book1" "rests ev book" by simp_all
  with Cons.IH [OF b(3,2) _ d(2) this(1) run(2)] step run(3) b(1) show ?case by simp
qed

section \<open>The maps of the memory replay\<close>

definition maps_show :: "LiveMaps \<Rightarrow> LiveOrders \<Rightarrow> bool" where
  "maps_show m l \<longleftrightarrow> lm_ids m = map lo_order_id (lv_orders l) \<and>
     (\<forall>i. hm_find (lm_index m) i = hm_find (lv_index l) i \<and>
       hm_find (lm_trader_by_id m) i = map_option lo_trader_id (live_find l i) \<and>
       hm_find (lm_qty_by_id m) i = map_option lo_qty_lots (live_find l i) \<and>
       hm_find (lm_price_by_id m) i = map_option lo_price_ticks (live_find l i) \<and>
       hm_find (lm_side_by_id m) i = map_option lo_side (live_find l i) \<and>
       hm_find (lm_symbol_by_id m) i = map_option lo_symbol_idx (live_find l i))"

lemma maps_show_add:
  assumes "maps_show m l" "live_wf l" "live_find l (lo_order_id ord) = None"
  shows "maps_show (maps_add (lo_order_id ord) (lo_trader_id ord) (lo_price_ticks ord) (lo_qty_lots ord) (lo_side ord)
    (lo_symbol_idx ord) m) (live_add ord l)"
  unfolding maps_show_def live_add_wf(2) [OF assms(2,3)]
  using assms(1) by (simp add: maps_show_def maps_add_def live_add_def)

lemma maps_show_remove:
  assumes "maps_show m l" "live_wf l"
  shows "maps_show (maps_remove i m) (live_remove i l)"
proof (cases "hm_find (lv_index l) i")
  case None
  then show ?thesis using assms(1) by (simp add: maps_remove_def live_remove_def maps_show_def)
next
  case (Some idx)
  then have "lv_orders l \<noteq> []" using assms(2) by (auto simp: live_wf_def)
  then have "last (lm_ids m) = lo_order_id (last (lv_orders l))" "butlast (lm_ids m) = map lo_order_id (butlast (lv_orders l))"
    using assms(1) by (simp_all add: maps_show_def last_map map_butlast)
  then show ?thesis
    using assms(1) Some unfolding maps_show_def live_remove_wf(2) [OF assms(2)]
    by (auto simp: maps_remove_def live_remove_def Let_def map_update)
qed

definition mem_shows :: "MemFlow \<Rightarrow> Flow \<Rightarrow> bool" where
  "mem_shows mst st \<longleftrightarrow> mf_mids mst = fl_mids st \<and> mf_next_order_id mst = fl_next_order_id st \<and>
     maps_show (mf_live mst) (fl_live st)"

lemma mem_shows_init: "mem_shows (mem_init args) (flow_init args)"
  by (simp add: mem_shows_def mem_init_def flow_init_def maps_show_def maps_empty_def live_empty_def live_find_def)

lemma maps_pick_live:
  fixes raw :: nat
  assumes "maps_show m l" "live_wf l" "lv_orders l \<noteq> []"
  defines "ord \<equiv> lv_orders l ! live_pick raw l"
  shows "maps_pick raw m = lo_order_id ord" "live_find l (lo_order_id ord) = Some ord"
    "hm_get 0 (lm_trader_by_id m) (lo_order_id ord) = lo_trader_id ord"
    "hm_get 0 (lm_qty_by_id m) (lo_order_id ord) = lo_qty_lots ord"
    "hm_get 0 (lm_price_by_id m) (lo_order_id ord) = lo_price_ticks ord"
    "hm_get SELL (lm_side_by_id m) (lo_order_id ord) = lo_side ord"
    "hm_get 0 (lm_symbol_by_id m) (lo_order_id ord) = lo_symbol_idx ord"
proof -
  note less = live_pick_less [OF assms(3), of raw]
  show at: "live_find l (lo_order_id ord) = Some ord" unfolding ord_def by (rule live_find_nth [OF assms(2) less])
  show "maps_pick raw m = lo_order_id ord"
    using assms(1) less by (simp add: maps_pick_def maps_show_def live_pick_def ord_def)
  show "hm_get 0 (lm_trader_by_id m) (lo_order_id ord) = lo_trader_id ord"
    "hm_get 0 (lm_qty_by_id m) (lo_order_id ord) = lo_qty_lots ord"
    "hm_get 0 (lm_price_by_id m) (lo_order_id ord) = lo_price_ticks ord"
    "hm_get SELL (lm_side_by_id m) (lo_order_id ord) = lo_side ord"
    "hm_get 0 (lm_symbol_by_id m) (lo_order_id ord) = lo_symbol_idx ord"
    using assms(1) at by (simp_all add: maps_show_def hm_get_def)
qed

lemma mem_step_shows:
  assumes "mem_shows mst st" "flow_wf args st"
  shows "fst (mem_step args prefix ts d mst) = fst (flow_step args prefix ts d st) \<and>
    mem_shows (snd (mem_step args prefix ts d mst)) (snd (flow_step args prefix ts d st))"
proof -
  let ?l = "fl_live st" and ?m = "mf_live mst"
  have shown: "maps_show ?m ?l" and wf: "live_wf ?l" using assms by (simp_all add: mem_shows_def flow_wf_def)
  have empty: "lm_ids ?m = [] \<longleftrightarrow> lv_orders ?l = []" using shown by (simp add: maps_show_def)
  define ord where "ord = lv_orders ?l ! live_pick (fd_pick d) ?l"
  have cancel: "fst (mem_cancel ts d mst) = fst (flow_cancel ts d st) \<and>
      mem_shows (snd (mem_cancel ts d mst)) (snd (flow_cancel ts d st))" if "lv_orders ?l \<noteq> []"
    using maps_pick_live [OF shown wf that, of "fd_pick d"] maps_show_remove [OF shown wf] assms(1)
    by (simp add: mem_cancel_def flow_cancel_def Let_def mem_shows_def)
  have trade: "fst (mem_match args ts d mst) = fst (flow_match args ts d st) \<and>
      mem_shows (snd (mem_match args ts d mst)) (snd (flow_match args ts d st))" if ne: "lv_orders ?l \<noteq> []"
  proof -
    define i where "i = live_pick (fd_pick d) ?l"
    define ord where "ord = lv_orders ?l ! i"
    define qty where "qty = matched_qty args d (lo_qty_lots ord)"
    define live where "live = ?l\<lparr>lv_orders := (lv_orders ?l)[i := ord\<lparr>lo_qty_lots := lo_qty_lots ord - qty\<rparr>]\<rparr>"
    define maps where "maps = ?m\<lparr>lm_qty_by_id := hm_put (lo_order_id ord) (lo_qty_lots ord - qty) (lm_qty_by_id ?m)\<rparr>"
    note pick = maps_pick_live [OF shown wf ne, of "fd_pick d", folded i_def, folded ord_def]
    have i: "i < length (lv_orders ?l)" unfolding i_def by (rule live_pick_less [OF ne])
    note updated = live_update_wf [OF wf i, of "ord\<lparr>lo_qty_lots := lo_qty_lots ord - qty\<rparr>", folded ord_def live_def]
    have live: "live_wf live"
      "live_find live = (live_find ?l)(lo_order_id ord \<mapsto> ord\<lparr>lo_qty_lots := lo_qty_lots ord - qty\<rparr>)"
      using updated by simp_all
    have ids: "(map lo_order_id (lv_orders ?l))[i := lo_order_id (lv_orders ?l ! i)] = map lo_order_id (lv_orders ?l)"
      using i by (metis list_update_id nth_map)
    have "maps_show maps live"
      unfolding maps_show_def live(2)
      using shown pick(2) i ids by (auto simp: maps_show_def maps_def live_def map_update ord_def)
    moreover from this have "maps_show (maps_remove (lo_order_id ord) maps) (live_remove (lo_order_id ord) live)"
      using live(1) by (intro maps_show_remove)
    moreover have "flow_match args ts d st =
        (flow_event ts MATCH (lo_side ord) (lo_price_ticks ord) qty (lo_order_id ord) (lo_trader_id ord) (lo_symbol_idx ord),
         st\<lparr>fl_live := (if lo_qty_lots ord - qty \<le> 0 then live_remove (lo_order_id ord) live else live),
            fl_match_count := fl_match_count st + 1\<rparr>)"
      by (simp add: flow_match_def Let_def i_def ord_def qty_def live_def)
    moreover have "mem_match args ts d mst =
        (flow_event ts MATCH (lo_side ord) (lo_price_ticks ord) qty (lo_order_id ord) (lo_trader_id ord) (lo_symbol_idx ord),
         mst\<lparr>mf_live := (if lo_qty_lots ord - qty \<le> 0 then maps_remove (lo_order_id ord) maps else maps)\<rparr>)"
      using pick by (simp add: mem_match_def Let_def qty_def [symmetric] maps_def [symmetric]) (simp add: maps_def hm_get_def)
    ultimately show ?thesis using assms(1) by (simp add: mem_shows_def)
  qed
  have new: "fst (mem_add args prefix ts d mst) = fst (flow_add args prefix ts d st) \<and>
      mem_shows (snd (mem_add args prefix ts d mst)) (snd (flow_add args prefix ts d st))"
  proof -
    obtain spec mids where spec: "new_order args prefix d (fl_mids st) = (spec, mids)" by fastforce
    have "live_find ?l (fl_next_order_id st) = None"
      using assms(2) by (cases "live_find ?l (fl_next_order_id st)") (auto simp: flow_wf_def)
    then show ?thesis
      using assms(1) spec maps_show_add [OF shown wf, of "\<lparr>lo_order_id = fl_next_order_id st, lo_trader_id = os_trader spec,
        lo_price_ticks = os_price spec, lo_qty_lots = os_qty spec, lo_symbol_idx = os_symbol spec, lo_side = os_side spec\<rparr>"]
      by (simp add: mem_add_def flow_add_def mem_shows_def Let_def)
  qed
  show ?thesis using cancel trade new empty by (simp add: mem_step_def flow_step_def)
qed

end
