(* ===== verification/FlowProps.thy ===== *)
theory FlowProps
  imports FlowFacts QueueProps
begin

text \<open>
  The properties of order flow: what an engine makes of a stream that follows the open orders, that the book of
  the engine is the one the generator believes in, and that the two generators draw the same events.
\<close>

text \<open>C3 The engine implements the abstract book of open orders: after a stream of historical events that refer to
  open orders with their side and price, take no more than is open, and whose new orders do not cross, the engine
  holds exactly the orders of the abstract book, with side, price, trader and remaining lots, and has reported no
  diagnostic, as long as the events are not more than its capacity.\<close>

theorem engine_follows_open_orders:
  fixes pcap :: nat
  assumes "follow_all evs hm_empty = Some book" "all_rest evs hm_empty" "length evs \<le> hcap"
  defines "engine \<equiv> run_updates evs (set_log_sink True (sim_init hcap pcap))"
  shows "(\<forall>i. open_order (hist engine) i = hm_find book i) \<and> diagnostics_of (calls engine) = []"
proof -
  have "card (np_live (order_pool (hist (set_log_sink True (sim_init hcap pcap))))) + length evs
      \<le> historical_capacity (set_log_sink True (sim_init hcap pcap))"
    using assms(3) by (simp add: set_log_sink_def sim_init_def hist_init_def np_live_def np_empty_def)
  from run_follows [OF tracks_init assms(1,2) this] show ?thesis
    by (simp add: engine_def tracks_def set_log_sink_def sim_init_def)
qed

definition short_stream :: "NormalizedLobEvent list" where
  "short_stream =
     [hist_add BUY 100 5 1, hist_add SELL 105 4 2,
      (hist_add BUY 100 3 1)\<lparr>ev_update_type := MATCH\<rparr>, (hist_add SELL 105 0 2)\<lparr>ev_update_type := DELETE\<rparr>]"

lemma engine_follows_open_orders_example:
  "open_order (hist (run_updates short_stream (set_log_sink True (sim_init 4 4)))) 1 =
     Some \<lparr>oo_side = BUY, oo_price = 100, oo_trader = UnknownTraderIdSentinel, oo_lots = 2\<rparr>"
proof -
  have "follow_all short_stream hm_empty =
      Some [(1, \<lparr>oo_side = BUY, oo_price = 100, oo_trader = UnknownTraderIdSentinel, oo_lots = 2\<rparr>)]"
    by (simp add: short_stream_def follow_def Let_def hist_add_def default_event_def hm_put_def hm_erase_def hm_find_def
        hm_empty_def with_lots_def UnknownOrderIdSentinel_def)
  moreover have "all_rest short_stream hm_empty"
    by (simp add: short_stream_def follow_def Let_def hist_add_def default_event_def hm_put_def hm_erase_def hm_find_def
        hm_empty_def with_lots_def UnknownOrderIdSentinel_def rests_def price_crosses_def)
  moreover have "length short_stream \<le> 4" by (simp add: short_stream_def)
  ultimately show ?thesis using engine_follows_open_orders [of short_stream _ 4 4] by (simp add: hm_find_def)
qed

section \<open>The generators\<close>

text \<open>C40 What the generator believes is what the engine has: with no crossing orders and a middle price that
  stays, for any draws, the live orders of the generator are exactly the open orders of an engine that was given
  its events, with side, price, trader and remaining lots, and the engine reported no diagnostic.\<close>

theorem generator_book_is_engine_book:
  fixes pcap :: nat
  assumes "sound_args args" "calm_args args" "list_all (drawn \<circ> snd) ds" "length ds \<le> hcap"
    and "flow_run args (symbol_prefix rnd (fa_symbols args)) ds (flow_init args) = (evs, st)"
  defines "engine \<equiv> run_updates evs (set_log_sink True (sim_init hcap pcap))"
  shows "(\<forall>i. open_order (hist engine) i = map_option live_view (live_find (fl_live st) i)) \<and>
    diagnostics_of (calls engine) = []"
proof -
  let ?prefix = "symbol_prefix rnd (fa_symbols args)"
  note start = flow_wf_init [OF assms(1)] shows_live_init [of args] assms(1) length_symbol_prefix [of rnd "fa_symbols args"]
  obtain book where book: "follow_all evs hm_empty = Some book" "shows_live book st" "length evs = length ds"
    using flow_run_follows [OF start assms(5)] by blast
  have "all_rest evs hm_empty"
    by (rule calm_run_rests [OF start _ assms(2,3) _ assms(5)]) (simp_all add: calm_def flow_init_def apart_book_def)
  from run_follows [OF tracks_init book(1) this, of hcap pcap] assms(4) book(3)
  have "tracks engine book \<and> diagnostics_of (calls engine) = []"
    by (simp add: engine_def set_log_sink_def sim_init_def hist_init_def np_live_def np_empty_def)
  then show ?thesis using book(2) by (simp add: tracks_def shows_live_def)
qed

definition one_symbol :: FlowArgs where
  "one_symbol = \<lparr>fa_symbols = 1, fa_cancel_pct = 0, fa_market_pct = 1 / 2, fa_cross_pct = 0, fa_mean_offset = 2,
     fa_mid_start = 100, fa_mid_move_prob = 0, fa_mid_move_max = 3, fa_max_qty = 10\<rparr>"

definition buy_draws :: Draws where
  "buy_draws = \<lparr>fd_cancel = 1 / 4, fd_market = 1 / 4, fd_pick = 0, fd_qty = 3, fd_symbol = 1 / 3, fd_move = 1 / 3,
     fd_step = 0, fd_direction = 0, fd_side = 0, fd_trader = 6, fd_offset = 2, fd_cross = 1 / 3\<rparr>"

definition buy_event :: NormalizedLobEvent where
  "buy_event = flow_event 0 ADD BUY 98 3 1 7 0"

lemma one_symbol_run:
  "\<exists>st. flow_run one_symbol (symbol_prefix id 1) [(0, buy_draws)] (flow_init one_symbol) = ([buy_event], st) \<and>
     live_find (fl_live st) 1 = Some \<lparr>lo_order_id = 1, lo_trader_id = 7, lo_price_ticks = 98, lo_qty_lots = 3,
       lo_symbol_idx = 0, lo_side = BUY\<rparr>"
  by (simp add: flow_step_def flow_init_def flow_add_def new_order_def Let_def one_symbol_def buy_draws_def buy_event_def
      live_empty_def live_add_def live_find_def hm_empty_def hm_put_def hm_find_def symbol_index_def symbol_prefix_def
      symbol_weights_def moved_mid_def order_price_def sample_offset_def sample_qty_def uniform_int_def)

lemma generator_book_is_engine_book_example:
  "open_order (hist (run_updates [buy_event] (set_log_sink True (sim_init 5 5)))) 1 =
     Some \<lparr>oo_side = BUY, oo_price = 98, oo_trader = 7, oo_lots = 3\<rparr>"
proof -
  obtain st where st: "flow_run one_symbol (symbol_prefix id 1) [(0, buy_draws)] (flow_init one_symbol) = ([buy_event], st)"
    "live_find (fl_live st) 1 = Some \<lparr>lo_order_id = 1, lo_trader_id = 7, lo_price_ticks = 98, lo_qty_lots = 3,
       lo_symbol_idx = 0, lo_side = BUY\<rparr>"
    using one_symbol_run by blast
  have one: "fa_symbols one_symbol = 1" by (simp add: one_symbol_def)
  have "sound_args one_symbol" "calm_args one_symbol" "list_all (drawn \<circ> snd) [(0, buy_draws)]"
    by (simp_all add: sound_args_def calm_args_def drawn_def one_symbol_def buy_draws_def)
  from generator_book_is_engine_book [OF this, of 5 id "[buy_event]" st 5, unfolded one] st show ?thesis
    by (simp add: live_view_def)
qed

fun fits_in :: "nat \<Rightarrow> NormalizedLobEvent list \<Rightarrow> NormalizedLobEvent list" where
  \<comment> \<open>the longest front whose texts fit into the given number of bytes\<close>
  "fits_in room [] = []"
| "fits_in room (ev # evs) =
     (if length (event_text ev) > room then [] else ev # fits_in (room - length (event_text ev)) evs)"

lemma mem_lines_texts:
  assumes "mem_shows mst st" "flow_wf args st" "shows_live book st" "sound_args args" "length prefix = fa_symbols args"
  shows "mem_lines args prefix max_bytes used i ds mst =
    (let evs = fst (flow_run args prefix (zip (map int [i..<i + length ds]) ds) st); front = fits_in (max_bytes - used) evs
     in (map event_text front, front \<noteq> evs))"
  using assms(1-3)
proof (induction ds arbitrary: mst st book used i)
  case Nil
  then show ?case by simp
next
  case (Cons d ds)
  obtain ev st1 where run: "flow_step args prefix (int i) d st = (ev, st1)" by fastforce
  obtain mst1 where mem: "mem_step args prefix (int i) d mst = (ev, mst1)" "mem_shows mst1 st1"
    using mem_step_shows [OF Cons.prems(1,2), of prefix "int i" d] run by (metis fst_conv prod.collapse snd_conv)
  obtain book1 where book: "shows_live book1 st1" "flow_wf args st1"
    using flow_step_follows [OF Cons.prems(2,3) assms(4,5) run] by blast
  obtain evs st2 where rest: "flow_run args prefix (zip (map int [Suc i..<Suc i + length ds]) ds) st1 = (evs, st2)" by fastforce
  have upt: "[i..<i + length (d # ds)] = i # [Suc i..<Suc i + length ds]" by (subst upt_conv_Cons) simp_all
  have pos: "0 < length (event_text ev)" using event_text_start [of ev] by auto
  have all: "flow_run args prefix (zip (map int [i..<i + length (d # ds)]) (d # ds)) st = (ev # evs, st2)"
    unfolding upt list.map zip_Cons_Cons flow_run.simps run prod.case rest Let_def ..
  let ?room = "max_bytes - (used + length (event_text ev))"
  have more_lines: "mem_lines args prefix max_bytes (used + length (event_text ev)) (Suc i) ds mst1 =
      (map event_text (fits_in ?room evs), fits_in ?room evs \<noteq> evs)"
    using Cons.IH [OF mem(2) book(2,1), of "used + length (event_text ev)" "Suc i"] unfolding rest by (simp add: Let_def)
  have "max_bytes - used < length (event_text ev) \<longleftrightarrow> max_bytes < used + length (event_text ev)" using pos by linarith
  then show ?case unfolding all using more_lines mem(1) by (auto simp: Let_def)
qed

lemma symbol_name_chars: "c \<in> set (symbol_name k) \<Longrightarrow> c \<noteq> CHR '','' \<and> c \<noteq> newline \<and> \<not> blank c"
proof -
  assume "c \<in> set (symbol_name k)"
  then have "c \<in> {CHR ''S'', CHR ''Y'', CHR ''M''} \<or> is_digit c"
    using show_nat_digits [of k] by (auto simp: symbol_name_def list_all_iff)
  then show ?thesis using digit_not_special by (auto simp: newline_def blank_def)
qed

lemma printable_flow_event:
  assumes "kind \<in> {ADD, DELETE, MATCH}" "list_all int64_in_range (event_numbers (flow_event ts kind side price qty i trader k))"
  shows "printable (flow_event ts kind side price qty i trader k)"
proof -
  have "symbol_name k \<noteq> []" by (simp add: symbol_name_def)
  with symbol_name_chars [of _ k] show ?thesis
    using assms by (auto simp: printable_def flow_event_def)
qed

lemma flow_step_event:
  "\<exists>kind side price qty i trader k. kind \<in> {ADD, DELETE, MATCH} \<and>
     fst (flow_step args prefix ts d st) = flow_event ts kind side price qty i trader k"
  by (cases "new_order args prefix d (fl_mids st)")
    (fastforce simp: flow_step_def flow_cancel_def flow_match_def flow_add_def Let_def)

lemma flow_run_printable:
  assumes "flow_run args prefix ds st = (evs, st')" "list_all (\<lambda>ev. list_all int64_in_range (event_numbers ev)) evs"
  shows "list_all printable evs"
  using assms
proof (induction ds arbitrary: st evs)
  case (Cons td ds)
  obtain ts d ev st1 evs1 where run: "td = (ts, d)" "flow_step args prefix ts d st = (ev, st1)"
    "flow_run args prefix ds st1 = (evs1, st')" "evs = ev # evs1"
    using Cons.prems(1) by (cases td) (auto split: prod.splits)
  moreover have "printable ev"
    using flow_step_event [of args prefix ts d st] run(2,4) Cons.prems(2) printable_flow_event by fastforce
  ultimately show ?case using Cons by simp
qed simp

text \<open>The two generators are one: from the same draws, the memory replay keeps the lines of exactly the events
  that the event generator emits with time stamps 0, 1, 2 ..., up to the first one that does not fit into the
  memory limit, and says whether it was cut; processed line by line they are the updates of an engine with these
  events, if all numbers fit into 64 bits.\<close>

lemma memory_replay_is_generator:
  fixes header :: bool and max_bytes :: nat
  assumes "sound_args args"
    and "flow_run args (symbol_prefix rnd (fa_symbols args)) (zip (map int [0..<length ds]) ds) (flow_init args) = (evs, st)"
    and "list_all (\<lambda>ev. list_all int64_in_range (event_numbers ev)) evs"
  defines "front \<equiv> fits_in (max_bytes - (if header then length header_text else 0)) evs"
  shows "mem_events args (symbol_prefix rnd (fa_symbols args)) header max_bytes ds =
      ((if header then [header_text] else []) @ map event_text front, front \<noteq> evs) \<and>
    fold process_line (fst (mem_events args (symbol_prefix rnd (fa_symbols args)) header max_bytes ds)) engine =
      run_updates front engine"
proof -
  have events: "mem_events args (symbol_prefix rnd (fa_symbols args)) header max_bytes ds =
      ((if header then [header_text] else []) @ map event_text front, front \<noteq> evs)"
    using mem_lines_texts [OF mem_shows_init flow_wf_init [OF assms(1)] shows_live_init assms(1) length_symbol_prefix,
        of rnd max_bytes "if header then length header_text else 0" 0 ds] assms(2)
    by (simp add: mem_events_def front_def Let_def)
  have "set (fits_in room evs) \<subseteq> set evs" for room evs
    by (induction room evs rule: fits_in.induct) auto
  then have "list_all printable front" using flow_run_printable [OF assms(2,3)] unfolding front_def list_all_iff by blast
  from process_lines [OF this] events show ?thesis by (simp add: process_header)
qed

lemma memory_replay_is_generator_example:
  "fold process_line (fst (mem_events one_symbol (symbol_prefix id 1) True 5000 [buy_draws])) (sim_init 5 5) =
     run_updates (fits_in (5000 - length header_text) [buy_event]) (sim_init 5 5)"
proof -
  have one: "fa_symbols one_symbol = 1" by (simp add: one_symbol_def)
  obtain st where run: "flow_run one_symbol (symbol_prefix id 1) (zip (map int [0..<length [buy_draws]]) [buy_draws])
      (flow_init one_symbol) = ([buy_event], st)"
    using one_symbol_run by auto
  have sound: "sound_args one_symbol" by (simp add: sound_args_def one_symbol_def)
  have range: "list_all (\<lambda>ev. list_all int64_in_range (event_numbers ev)) [buy_event]"
    by (simp add: buy_event_def flow_event_def event_numbers_def int64_in_range_def)
  show ?thesis
    using conjunct2 [OF memory_replay_is_generator [OF sound, unfolded one, OF run range, of True 5000 "sim_init 5 5"]]
    unfolding if_True .
qed

end
