(* ===== verification/Bench.thy ===== *)
theory Bench
  imports Drivers
begin

text \<open>
  The benchmark of the replay, \<open>benchmark/lobsim_bench_cpp.cpp\<close>, and the statistics of the other benchmark
  programs. Clocks and resource usage are texts that the report is given; \<open>double\<close> and \<open>long double\<close> values are
  rationals, with the rounding of the arithmetic a parameter.
\<close>

section \<open>Numbers of the command line\<close>

datatype BenchError =
    ScaleTooLarge | EmptyDecimal | NotPositive | InvalidArgument | OutOfRangeNumber | MissingValue string
  | UnknownOption string

definition stoll :: "string \<Rightarrow> BenchError + int" where
  \<comment> \<open>\<open>std::stoll\<close>: white space, a sign, the longest run of digits; what follows is ignored\<close>
  "stoll s =
     (let t = dropWhile isspace s;
          minus = (t \<noteq> [] \<and> hd t = CHR ''-'');
          u = (if t \<noteq> [] \<and> (hd t = CHR ''-'' \<or> hd t = CHR ''+'') then tl t else t);
          ds = takeWhile is_digit u;
          v = (if minus then - decimal ds else decimal ds)
      in if ds = [] then Inl InvalidArgument else if \<not> int64_in_range v then Inl OutOfRangeNumber else Inr v)"

fun pow10i_loop :: "nat \<Rightarrow> int \<Rightarrow> BenchError + int" where
  "pow10i_loop 0 result = Inr result"
| "pow10i_loop (Suc n) result =
     (if result > (2 ^ 63 - 1) div 10 then Inl ScaleTooLarge else pow10i_loop n (result * 10))"

definition pow10i :: "nat \<Rightarrow> BenchError + int" where
  "pow10i e = pow10i_loop e 1"

definition reduced :: "int \<Rightarrow> int \<Rightarrow> BenchError + Rational" where
  \<comment> \<open>the end of \<open>parseDecimal\<close>\<close>
  "reduced num den =
     (if num \<le> 0 \<or> den \<le> 0 then Inl NotPositive
      else Inr \<lparr>ra_num = num div gcd num den, ra_den = den div gcd num den\<rparr>)"

definition parse_decimal :: "string \<Rightarrow> BenchError + Rational" where
  "parse_decimal s =
     (if s = [] then Inl EmptyDecimal
      else if CHR ''.'' \<notin> set s
      then (case stoll s of Inl e \<Rightarrow> Inl e | Inr num \<Rightarrow> reduced num 1)
      else
        let whole = takeWhile (\<lambda>c. c \<noteq> CHR ''.'') s;
            fraction = tl (dropWhile (\<lambda>c. c \<noteq> CHR ''.'') s)
        in case stoll (whole @ fraction) of
             Inl e \<Rightarrow> Inl e
           | Inr num \<Rightarrow>
               (case pow10i (length fraction) of Inl e \<Rightarrow> Inl e | Inr den \<Rightarrow> reduced num den))"

section \<open>Options\<close>

record BenchOptions =
  bo_path :: string
  bo_tick_size :: string
  bo_lot_size :: string
  bo_symbol :: string
  bo_max_events :: int
  bo_use_sink :: bool

definition default_options :: BenchOptions where
  "default_options = \<lparr>bo_path = ''sample_data/coinbase_btcusdt_sample.parquet'', bo_tick_size = ''0.01'',
     bo_lot_size = ''0.00000001'', bo_symbol = ''BTC-USDT'', bo_max_events = 0, bo_use_sink = True\<rparr>"

datatype ParsedOptions = HelpShown | Options BenchOptions

fun parse_options :: "string list \<Rightarrow> BenchOptions \<Rightarrow> BenchError + ParsedOptions" where
  "parse_options [] opt = Inr (Options opt)"
| "parse_options (arg # rest) opt =
     (if arg \<in> {''--path'', ''--tick-size'', ''--lot-size'', ''--symbol'', ''--max-events''}
      then (case rest of
              [] \<Rightarrow> Inl (MissingValue arg)
            | v # rest' \<Rightarrow>
                if arg = ''--path'' then parse_options rest' (opt\<lparr>bo_path := v\<rparr>)
                else if arg = ''--tick-size'' then parse_options rest' (opt\<lparr>bo_tick_size := v\<rparr>)
                else if arg = ''--lot-size'' then parse_options rest' (opt\<lparr>bo_lot_size := v\<rparr>)
                else if arg = ''--symbol'' then parse_options rest' (opt\<lparr>bo_symbol := v\<rparr>)
                else (case stoll v of Inl e \<Rightarrow> Inl e | Inr n \<Rightarrow> parse_options rest' (opt\<lparr>bo_max_events := n\<rparr>)))
      else if arg = ''--no-sink'' then parse_options rest (opt\<lparr>bo_use_sink := False\<rparr>)
      else if arg = ''--help'' \<or> arg = ''-h'' then Inr HelpShown
      else if arg \<noteq> [] \<and> hd arg = CHR ''-'' then Inl (UnknownOption arg)
      else parse_options rest (opt\<lparr>bo_path := arg\<rparr>))"

section \<open>The sink and the loop\<close>

record CountingSink =
  cs_fills :: nat
  cs_events :: nat
  cs_diagnostics :: nat

fun counting_call :: "SinkCall \<Rightarrow> CountingSink \<Rightarrow> CountingSink" where
  "counting_call (OnFill _) k = k\<lparr>cs_fills := cs_fills k + 1\<rparr>"
| "counting_call (OnEventApply _) k = k\<lparr>cs_events := cs_events k + 1\<rparr>"
| "counting_call (OnDiagnostic _) k = k\<lparr>cs_diagnostics := cs_diagnostics k + 1\<rparr>"
| "counting_call OnReset k = \<lparr>cs_fills = 0, cs_events = 0, cs_diagnostics = 0\<rparr>"

definition counts_of :: "Sim \<Rightarrow> CountingSink" where
  \<comment> \<open>the sink attached to an engine\<close>
  "counts_of engine = fold counting_call (calls engine) \<lparr>cs_fills = 0, cs_events = 0, cs_diagnostics = 0\<rparr>"

definition bench_note :: "int \<Rightarrow> RunSummary \<Rightarrow> RunSummary" where
  \<comment> \<open>\<open>hasRange\<close> and \<open>summary.has_ts_range\<close> change together\<close>
  "bench_note t summary =
     (if \<not> has_ts_range summary
      then summary\<lparr>has_ts_range := True, first_ts_received := t, last_ts_received := t\<rparr>
      else summary\<lparr>first_ts_received := min (first_ts_received summary) t,
                   last_ts_received := max (last_ts_received summary) t\<rparr>)"

fun bench_loop ::
  "int \<Rightarrow> ('r \<Rightarrow> NormalizedLobEvent option) \<Rightarrow> (unit + 'r) list \<Rightarrow> RunSummary \<Rightarrow> Sim ReplaySession \<Rightarrow>
     (ReplayError + RunSummary) \<times> Sim ReplaySession" where
  \<comment> \<open>\<open>cfg.fail_fast\<close> is true\<close>
  "bench_loop max_events adapt [] summary s = (Inr summary, s)"
| "bench_loop max_events adapt (Inl _ # src) summary s = (Inl SourceThrew, s)"
| "bench_loop max_events adapt (Inr raw # src) summary s =
     (if max_events > 0 \<and> int (num_raw_events summary) \<ge> max_events then (Inr summary, s)
      else
        let summary1 = summary\<lparr>num_raw_events := num_raw_events summary + 1\<rparr>
        in case adapt raw of
             None \<Rightarrow> (Inl AdapterThrew, s)
           | Some ev \<Rightarrow>
               let summary2 = bench_note (ev_ts_received ev)
                     (summary1\<lparr>num_normalized_events := num_normalized_events summary1 + 1\<rparr>)
               in case session_step update ev s of
                    (Inl e, s') \<Rightarrow> (Inl e, s')
                  | (Inr _, s') \<Rightarrow>
                      bench_loop max_events adapt src
                        (summary2\<lparr>num_engine_updates := num_engine_updates summary2 + 1\<rparr>) s')"

definition bench_spec :: "BenchOptions \<Rightarrow> BenchError + InstrumentSpec" where
  "bench_spec opt =
     (case parse_decimal (bo_tick_size opt) of
        Inl e \<Rightarrow> Inl e
      | Inr tick \<Rightarrow>
          (case parse_decimal (bo_lot_size opt) of
             Inl e \<Rightarrow> Inl e
           | Inr lot \<Rightarrow> Inr \<lparr>is_symbol = bo_symbol opt, is_venue = ''coinbase'', is_tick_size = tick, is_lot_size = lot,
               is_price_policy = Nearest, is_qty_policy = Nearest, is_strict_eps = 1 / 10 ^ 12\<rparr>))"

definition bench_run ::
  "FloatEnv \<Rightarrow> BenchOptions \<Rightarrow> InstrumentSpec \<Rightarrow> (unit + CoinbaseBTCUSDTRawEvent) list \<Rightarrow>
     (ReplayError + RunSummary) \<times> Sim ReplaySession" where
  "bench_run env opt spec source =
     bench_loop (bo_max_events opt) (try_normalize env spec) source empty_RunSummary
       (replay_session (set_log_sink (bo_use_sink opt) (sim_init 200000 100000)) default_ReplayConfig)"

definition report_line :: "string \<Rightarrow> nat \<Rightarrow> string" where
  "report_line name n = name @ ''='' @ show_nat n @ [newline]"

definition bench_report :: "BenchOptions \<Rightarrow> string \<Rightarrow> RunSummary \<Rightarrow> Sim \<Rightarrow> string" where
  \<comment> \<open>\<open>usage\<close>: the lines from \<open>wall_seconds\<close> to \<open>max_rss_bytes\<close>\<close>
  "bench_report opt usage summary engine =
     (let k = (if bo_use_sink opt then counts_of engine else \<lparr>cs_fills = 0, cs_events = 0, cs_diagnostics = 0\<rparr>)
      in ''benchmark=c++'' @ [newline] @ report_line ''raw_events'' (num_raw_events summary) @
         report_line ''normalized_events'' (num_normalized_events summary) @
         report_line ''engine_updates'' (num_engine_updates summary) @
         report_line ''adapter_failures'' (num_adapter_failures summary) @ usage @
         report_line ''fill_count'' (cs_fills k) @ report_line ''event_apply_count'' (cs_events k) @
         report_line ''diagnostic_count'' (cs_diagnostics k))"

datatype BenchExit =
    BenchHelp \<comment> \<open>\<open>std::exit(0)\<close>\<close>
  | ArgumentError BenchError \<comment> \<open>\<open>return 2\<close>\<close>
  | UncaughtArgument BenchError
  | UncaughtReplay ReplayError
  | BenchReport string

definition bench_main ::
  "FloatEnv \<Rightarrow> (string \<Rightarrow> (unit + CoinbaseBTCUSDTRawEvent) list) \<Rightarrow> string \<Rightarrow> string list \<Rightarrow> BenchExit" where
  \<comment> \<open>\<open>load\<close> opens the file of a path\<close>
  "bench_main env load usage args =
     (case parse_options args default_options of
        Inl e \<Rightarrow> ArgumentError e
      | Inr HelpShown \<Rightarrow> BenchHelp
      | Inr (Options opt) \<Rightarrow>
          (case bench_spec opt of
             Inl e \<Rightarrow> UncaughtArgument e
           | Inr spec \<Rightarrow>
               (case bench_run env opt spec (load (bo_path opt)) of
                  (Inl e, s) \<Rightarrow> UncaughtReplay e
                | (Inr summary, s) \<Rightarrow> BenchReport (bench_report opt usage summary (rs_engine s)))))"

section \<open>Statistics\<close>

record RunningStats =
  rs_count :: nat
  rs_mean :: rat
  rs_m2 :: rat
  rs_min :: int
  rs_max :: int

definition no_stats :: RunningStats where
  "no_stats = \<lparr>rs_count = 0, rs_mean = 0, rs_m2 = 0, rs_min = 2 ^ 63 - 1, rs_max = - (2 ^ 63)\<rparr>"

definition stats_add :: "(rat \<Rightarrow> rat) \<Rightarrow> int \<Rightarrow> RunningStats \<Rightarrow> RunningStats" where
  \<comment> \<open>Welford's update; \<open>rnd\<close> rounds the result of an operation\<close>
  "stats_add rnd v s =
     (let n = rs_count s + 1;
          delta = rnd (of_int v - rs_mean s);
          mean = rnd (rs_mean s + rnd (delta / of_nat n));
          m2 = rnd (rs_m2 s + rnd (delta * rnd (of_int v - mean)))
      in \<lparr>rs_count = n, rs_mean = mean, rs_m2 = m2, rs_min = (if v < rs_min s then v else rs_min s),
          rs_max = (if v > rs_max s then v else rs_max s)\<rparr>)"

definition truncated :: "rat \<Rightarrow> int" where
  \<comment> \<open>\<open>static_cast<std::int64_t>\<close>\<close>
  "truncated q = (if 0 \<le> q then \<lfloor>q\<rfloor> else \<lceil>q\<rceil>)"

definition mean_ns :: "(rat \<Rightarrow> rat) \<Rightarrow> RunningStats \<Rightarrow> int" where
  "mean_ns rnd s = (if rs_count s \<noteq> 0 then truncated (rnd (rs_mean s + 1 / 2)) else 0)"

definition stddev_ns :: "(rat \<Rightarrow> rat) \<Rightarrow> (rat \<Rightarrow> rat) \<Rightarrow> RunningStats \<Rightarrow> int" where
  \<comment> \<open>\<open>square_root\<close>: \<open>std::sqrt\<close>\<close>
  "stddev_ns rnd square_root s =
     (if rs_count s > 1
      then truncated (rnd (square_root (rnd (rs_m2 s / of_nat (rs_count s - 1))) + 1 / 2)) else 0)"

record ReservoirSample =
  rv_values :: "int list"
  rv_seen :: nat
  rv_capacity :: nat

definition reservoir :: "nat \<Rightarrow> ReservoirSample" where
  "reservoir cap = \<lparr>rv_values = [], rv_seen = 0, rv_capacity = cap\<rparr>"

definition reservoir_add :: "int \<Rightarrow> nat \<Rightarrow> ReservoirSample \<Rightarrow> ReservoirSample" where
  \<comment> \<open>\<open>raw\<close>: the draw, taken only when the sample is full\<close>
  "reservoir_add v raw r =
     (let r1 = r\<lparr>rv_seen := rv_seen r + 1\<rparr>
      in if length (rv_values r1) < rv_capacity r1 then r1\<lparr>rv_values := rv_values r1 @ [v]\<rparr>
         else let idx = raw mod rv_seen r1
              in if idx < rv_capacity r1 then r1\<lparr>rv_values := (rv_values r1)[idx := v]\<rparr> else r1)"

definition percentile :: "(rat \<Rightarrow> rat) \<Rightarrow> rat \<Rightarrow> int list \<Rightarrow> int" where
  \<comment> \<open>\<open>pick\<close>, on the sorted sample\<close>
  "percentile rnd pct sorted_sample =
     (let idx = rnd (pct * of_nat (length sorted_sample - 1)) in sorted_sample ! nat \<lfloor>rnd (idx + 1 / 2)\<rfloor>)"

definition compute_percentiles :: "(rat \<Rightarrow> rat) \<Rightarrow> int list \<Rightarrow> int \<times> int \<times> int" where
  "compute_percentiles rnd sample =
     (if sample = [] then (0, 0, 0)
      else let s = sort sample
           in (percentile rnd (rnd (1 / 2)) s, percentile rnd (rnd (9 / 10)) s, percentile rnd (rnd (99 / 100)) s))"

end
