(* ===== verification/BenchFacts.thy ===== *)
theory BenchFacts
  imports Bench ReplayFacts CallTags SinkFacts
begin

text \<open>
  Lemmas on the replay benchmark: its loop is \<open>run\<close> of the session on the rows up to the limit, its decimal options
  are read exactly; and on the statistics: with exact arithmetic the mean and the sum of squares are those of the
  values, the reservoir holds values it was given and a percentile is one of the sample.
\<close>

section \<open>The loop\<close>

lemma bench_note_is_note [simp]: "bench_note t summary = note_ts_received t summary"
  by (auto simp: bench_note_def note_ts_received_def min_def max_def)

definition limited :: "int \<Rightarrow> nat \<Rightarrow> (unit + 'r) list \<Rightarrow> (unit + 'r) list" where
  \<comment> \<open>what the loop sees of a source after \<open>n\<close> rows: with a limit, one row more is read but only an exception of
      the reader counts\<close>
  "limited max_events n src =
     (let k = nat (max_events - int n)
      in if max_events \<le> 0 then src
         else take k src @ takeWhile isl (take 1 (drop k src)))"

lemma limited_stop: "max_events > 0 \<Longrightarrow> int n \<ge> max_events \<Longrightarrow> limited max_events n (Inr raw # src) = []"
  by (simp add: limited_def)

lemma limited_go:
  assumes "\<not> (max_events > 0 \<and> int n \<ge> max_events)"
  shows "limited max_events n (x # src) = x # limited max_events (Suc n) src"
proof (cases "max_events \<le> 0")
  case False
  then have "nat (max_events - int n) = Suc (nat (max_events - int (Suc n)))" using assms by linarith
  then show ?thesis using False by (simp add: limited_def Let_def)
qed (simp add: limited_def)

lemma limited_Nil [simp]: "limited max_events n [] = []"
  by (simp add: limited_def Let_def)

lemma limited_throw:
  "\<exists>rest. limited max_events n (Inl u # src) = Inl u # rest"
proof (cases "max_events > 0 \<and> int n \<ge> max_events")
  case True
  then show ?thesis by (simp add: limited_def)
qed (simp add: limited_go)

lemma session_event_keeps_raw:
  "session_event upd ev summary s = (Inr summary', s') \<Longrightarrow> num_raw_events summary' = num_raw_events summary"
  by (auto simp: session_event_def Let_def note_ts_received_def split: prod.splits sum.splits if_splits)

lemma bench_loop_event:
  assumes "\<not> (max_events > 0 \<and> int (num_raw_events summary) \<ge> max_events)" "adapt raw = Some ev"
  shows "bench_loop max_events adapt (Inr raw # src) summary s =
    (case session_event update ev (summary\<lparr>num_raw_events := num_raw_events summary + 1\<rparr>) s of
       (Inl e, s') \<Rightarrow> (Inl e, s') | (Inr su, s') \<Rightarrow> bench_loop max_events adapt src su s')"
proof (cases "session_step update ev s")
  case (Pair r s')
  then show ?thesis
    by (cases r) (simp_all add: assms session_event_def Let_def del: not_less not_le)
qed

lemma bench_loop_is_run_source_loop:
  "bench_loop max_events adapt src summary s =
   run_source_loop update adapt (limited max_events (num_raw_events summary) src) True summary s"
proof (induction src arbitrary: summary s)
  case (Cons x src)
  show ?case
  proof (cases x)
    case (Inl u)
    obtain rest where "limited max_events (num_raw_events summary) (Inl u # src) = Inl u # rest"
      using limited_throw by blast
    then show ?thesis using Inl by simp
  next
    case (Inr raw)
    show ?thesis
    proof (cases "max_events > 0 \<and> int (num_raw_events summary) \<ge> max_events")
      case True
      then show ?thesis using Inr by (simp add: limited_stop)
    next
      case False
      let ?summary1 = "summary\<lparr>num_raw_events := num_raw_events summary + 1\<rparr>"
      show ?thesis
      proof (cases "adapt raw")
        case None
        then show ?thesis using Inr False by (auto simp: limited_go Let_def)
      next
        case (Some ev)
        obtain r s' where event: "session_event update ev ?summary1 s = (r, s')" by (cases "session_event update ev ?summary1 s")
        have step: "bench_loop max_events adapt (Inr raw # src) summary s =
          (case session_event update ev ?summary1 s of
             (Inl e, s') \<Rightarrow> (Inl e, s') | (Inr su, s') \<Rightarrow> bench_loop max_events adapt src su s')"
          by (rule bench_loop_event) (fact False, fact Some)
        show ?thesis
        proof (cases r)
          case (Inl e)
          then show ?thesis using event step Some by (simp add: \<open>x = Inr raw\<close> limited_go [OF False] Let_def)
        next
          case (Inr su)
          then have "num_raw_events su = Suc (num_raw_events summary)"
            using session_event_keeps_raw event by fastforce
          then show ?thesis using event step Some Inr
            by (simp add: \<open>x = Inr raw\<close> limited_go [OF False] Let_def Cons.IH)
        qed
      qed
    qed
  qed
qed simp

lemma bench_run_is_run:
  "bench_run env opt spec source =
   session_run_source update (try_normalize env spec) (limited (bo_max_events opt) 0 source) default_ReplayConfig
     (replay_session (set_log_sink (bo_use_sink opt) (sim_init 200000 100000)) default_ReplayConfig)"
  by (simp add: bench_run_def bench_loop_is_run_source_loop session_run_source_def empty_RunSummary_def
      default_ReplayConfig_def replay_session_def)

lemma session_event_ignores_engine:
  "fst (session_event upd ev summary (s\<lparr>rs_engine := a\<rparr>)) = fst (session_event upd ev summary (s\<lparr>rs_engine := b\<rparr>)) \<and>
   (\<exists>s' a' b'. snd (session_event upd ev summary (s\<lparr>rs_engine := a\<rparr>)) = s'\<lparr>rs_engine := a'\<rparr> \<and>
     snd (session_event upd ev summary (s\<lparr>rs_engine := b\<rparr>)) = s'\<lparr>rs_engine := b'\<rparr>)"
proof (cases "ev_ts_received ev < 0 \<or> (rc_require_monotonic_ts_received (rs_cfg s) \<and> rs_has_last_ts_received s \<and>
    ev_ts_received ev < rs_last_ts_received s)")
  case True
  then show ?thesis by (auto simp: session_event_def session_step_def Let_def intro!: exI [of _ s])
next
  case False
  then show ?thesis
    by (auto simp: session_event_def session_step_def Let_def
        intro!: exI [of _ "s\<lparr>rs_has_last_ts_received := True, rs_last_ts_received := ev_ts_received ev\<rparr>"])
qed

lemma run_source_ignores_engine:
  "fst (run_source_loop upd adapt src ff summary (s\<lparr>rs_engine := a\<rparr>)) =
   fst (run_source_loop upd adapt src ff summary (s\<lparr>rs_engine := b\<rparr>))"
proof (induction src arbitrary: summary s a b)
  case (Cons x src)
  show ?case
  proof (cases x)
    case (Inr raw)
    show ?thesis
    proof (cases "adapt raw")
      case None
      show ?thesis
        using Inr None Cons.IH [of "summary\<lparr>num_raw_events := num_raw_events summary + 1,
          num_adapter_failures := num_adapter_failures summary + 1\<rparr>" a s b]
        by (cases ff) (simp_all add: Let_def)
    next
      case (Some ev)
      let ?su = "summary\<lparr>num_raw_events := num_raw_events summary + 1\<rparr>"
      obtain s' a' b' where same: "fst (session_event upd ev ?su (s\<lparr>rs_engine := a\<rparr>)) = fst (session_event upd ev ?su (s\<lparr>rs_engine := b\<rparr>))"
        and ab: "snd (session_event upd ev ?su (s\<lparr>rs_engine := a\<rparr>)) = s'\<lparr>rs_engine := a'\<rparr>"
          "snd (session_event upd ev ?su (s\<lparr>rs_engine := b\<rparr>)) = s'\<lparr>rs_engine := b'\<rparr>"
        using session_event_ignores_engine by metis
      obtain r where "session_event upd ev ?su (s\<lparr>rs_engine := a\<rparr>) = (r, s'\<lparr>rs_engine := a'\<rparr>)"
        "session_event upd ev ?su (s\<lparr>rs_engine := b\<rparr>) = (r, s'\<lparr>rs_engine := b'\<rparr>)"
        using same ab by (metis prod.collapse)
      then show ?thesis using Inr Some Cons.IH by (cases r) (simp_all add: Let_def)
    qed
  qed simp
qed simp

lemma sink_option_keeps_summary:
  "fst (bench_run env (opt\<lparr>bo_use_sink := b\<rparr>) spec source) = fst (bench_run env opt spec source)"
proof -
  have engines: "(replay_session e default_ReplayConfig)\<lparr>rs_cfg := c\<rparr> = (replay_session (sim_init 0 0) c)\<lparr>rs_engine := e\<rparr>"
    for e :: Sim and c
    by (simp add: replay_session_def)
  show ?thesis
    unfolding bench_run_is_run session_run_source_def engines by simp (rule run_source_ignores_engine)
qed

section \<open>The counts\<close>

lemma counting_exact:
  "OnReset \<notin> set cs \<Longrightarrow> fold counting_call cs k =
     \<lparr>cs_fills = cs_fills k + length (concat (map fill_of cs)), cs_events = cs_events k + length (concat (map event_of cs)),
      cs_diagnostics = cs_diagnostics k + length (concat (map diagnostic_of cs))\<rparr>"
proof (induction cs arbitrary: k)
  case (Cons c cs)
  then show ?case by (cases c) simp_all
qed simp

lemma updates_never_reset: "OnReset \<notin> set (calls st) \<Longrightarrow> OnReset \<notin> set (calls (fold update evs st))"
proof (induction evs arbitrary: st)
  case (Cons ev evs)
  have "OnReset \<notin> set (calls (update ev st))"
    using Cons.prems update_calls_about [of ev st] by (subst update_calls) (auto simp: about_def)
  then show ?case using Cons.IH by simp
qed simp

lemma bench_counts_exact:
  "counts_of (fold update evs (set_log_sink True (sim_init h p))) =
     (let cs = calls (fold update evs (set_log_sink True (sim_init h p)))
      in \<lparr>cs_fills = length (concat (map fill_of cs)), cs_events = length (concat (map event_of cs)),
          cs_diagnostics = length (concat (map diagnostic_of cs))\<rparr>)"
proof -
  have "OnReset \<notin> set (calls (fold update evs (set_log_sink True (sim_init h p))))"
    by (rule updates_never_reset) (simp add: set_log_sink_def sim_init_def)
  then show ?thesis by (simp add: counts_of_def counting_exact Let_def)
qed

section \<open>Decimal options\<close>

lemma pow10i_loop_exact: "result * 10 ^ n < 2 ^ 63 \<Longrightarrow> 0 < result \<Longrightarrow> pow10i_loop n result = Inr (result * 10 ^ n)"
proof (induction n arbitrary: result)
  case (Suc n)
  have "result * 10 \<le> result * 10 * 10 ^ n" using Suc.prems(2) by simp
  also have "\<dots> < 2 ^ 63" using Suc.prems(1) by (simp add: mult.assoc)
  finally have small: "result * 10 < 2 ^ 63" .
  have "pow10i_loop n (result * 10) = Inr (result * 10 * 10 ^ n)"
    using Suc.prems by (intro Suc.IH) (simp_all add: mult.assoc)
  then show ?case using small by (simp add: mult.assoc)
qed simp

lemma pow10i_exact: "n < 19 \<Longrightarrow> pow10i n = Inr (10 ^ n)"
proof -
  assume "n < 19"
  then have "(10::int) ^ n \<le> 10 ^ 18" by (intro power_increasing) simp_all
  then show ?thesis using pow10i_loop_exact [of 1 n] by (simp add: pow10i_def)
qed

lemma digit_not_blank: "is_digit c \<Longrightarrow> \<not> isspace c \<and> c \<noteq> CHR ''-'' \<and> c \<noteq> CHR ''+'' \<and> c \<noteq> CHR ''.''"
  by (auto simp: is_digit_def isspace_def char_code_def)

lemma stoll_digits:
  assumes "list_all is_digit ds" "ds \<noteq> []" "rest = [] \<or> \<not> is_digit (hd rest)" "int64_in_range (decimal ds)"
  shows "stoll (ds @ rest) = Inr (decimal ds)"
proof -
  obtain c ds' where ds: "ds = c # ds'" using assms(2) by (cases ds) simp_all
  have run: "takeWhile is_digit (ds @ rest) = ds"
    using assms(1,3) by (cases rest) (simp_all add: takeWhile_append list_all_iff)
  show ?thesis using digit_not_blank [of c] assms(1,4) run by (simp add: stoll_def ds)
qed

lemma parse_decimal_exact:
  assumes "list_all is_digit whole" "list_all is_digit fraction" "whole @ fraction \<noteq> []" "length fraction < 19"
    and "0 < decimal (whole @ fraction)" "decimal (whole @ fraction) < 2 ^ 63"
  shows "\<exists>r. parse_decimal (whole @ CHR ''.'' # fraction) = Inr r \<and> rational_valid r \<and>
    coprime (ra_num r) (ra_den r) \<and>
    (of_int (ra_num r) / of_int (ra_den r) :: rat) = of_int (decimal (whole @ fraction)) / 10 ^ length fraction"
proof -
  let ?n = "decimal (whole @ fraction)" and ?d = "(10::int) ^ length fraction"
  have no_dot: "takeWhile (\<lambda>c. c \<noteq> CHR ''.'') (whole @ CHR ''.'' # fraction) = whole"
    "dropWhile (\<lambda>c. c \<noteq> CHR ''.'') (whole @ CHR ''.'' # fraction) = CHR ''.'' # fraction"
    using assms(1) digit_not_blank by (auto simp: list_all_iff takeWhile_append dropWhile_append)
  have num: "stoll (whole @ fraction) = Inr ?n"
    using stoll_digits [of "whole @ fraction" "[]"] assms by (simp add: int64_in_range_def)
  have g: "0 < gcd ?n ?d" using assms(5) by simp
  have parsed: "parse_decimal (whole @ CHR ''.'' # fraction) =
    Inr \<lparr>ra_num = ?n div gcd ?n ?d, ra_den = ?d div gcd ?n ?d\<rparr>"
    using assms(4,5) zero_less_power [of "10::int" "length fraction"]
    by (simp add: parse_decimal_def Let_def no_dot num pow10i_exact reduced_def del: zero_less_power)
  have parts: "?n = (?n div gcd ?n ?d) * gcd ?n ?d" "?d = (?d div gcd ?n ?d) * gcd ?n ?d" by simp_all
  have pos: "0 < ?n div gcd ?n ?d" "0 < ?d div gcd ?n ?d"
    using assms(5) g by (simp_all add: pos_imp_zdiv_pos_iff zdvd_imp_le)
  have "(of_int ?n / of_int ?d :: rat) =
    (of_int (?n div gcd ?n ?d) * of_int (gcd ?n ?d)) / (of_int (?d div gcd ?n ?d) * of_int (gcd ?n ?d))"
    by (metis parts of_int_mult)
  also have "\<dots> = of_int (?n div gcd ?n ?d) / of_int (?d div gcd ?n ?d)"
    using g by (simp del: of_int_mult)
  finally have quot: "(of_int (?n div gcd ?n ?d) / of_int (?d div gcd ?n ?d) :: rat) = of_int ?n / 10 ^ length fraction"
    by simp
  have "coprime (?n div gcd ?n ?d) (?d div gcd ?n ?d)" using assms(5) by (intro div_gcd_coprime) simp
  then show ?thesis using parsed pos quot by (simp add: rational_valid_def)
qed

lemma parse_decimal_trailing_text:
  \<comment> \<open>what follows the digits is ignored as a number but counted as digits of the fraction\<close>
  "parse_decimal ''0.01x'' = Inr \<lparr>ra_num = 1, ra_den = 1000\<rparr>"
  by code_simp

section \<open>Statistics\<close>

definition stats_of :: "int list \<Rightarrow> RunningStats" where
  \<comment> \<open>with exact arithmetic\<close>
  "stats_of vs = fold (stats_add id) vs no_stats"

lemma stats_of_snoc: "stats_of (vs @ [v]) = stats_add id v (stats_of vs)"
  by (simp add: stats_of_def)

lemma stats_mean: "rs_count (stats_of vs) = length vs \<and> of_nat (length vs) * rs_mean (stats_of vs) = of_int (sum_list vs)"
proof (induction vs rule: rev_induct)
  case (snoc v vs)
  then show ?case by (simp add: stats_of_snoc stats_add_def Let_def field_simps)
qed (simp add: stats_of_def no_stats_def)

lemma stats_squares:
  "rs_m2 (stats_of vs) = (\<Sum>v \<leftarrow> vs. (of_int v)\<^sup>2) - of_nat (length vs) * (rs_mean (stats_of vs))\<^sup>2"
proof (induction vs rule: rev_induct)
  case (snoc v vs)
  let ?n = "of_nat (length vs) :: rat" and ?m = "rs_mean (stats_of vs)" and ?v = "of_int v :: rat"
  define m' where "m' = rs_mean (stats_of (vs @ [v]))"
  have step: "m' = ?m + (?v - ?m) / (?n + 1)" "rs_m2 (stats_of (vs @ [v])) = rs_m2 (stats_of vs) + (?v - ?m) * (?v - m')"
    using stats_mean [of vs] by (simp_all add: m'_def stats_of_snoc stats_add_def Let_def add.commute)
  have "?n + 1 \<noteq> 0" by (metis of_nat_Suc of_nat_eq_0_iff nat.simps(3) add.commute)
  then have "(?n + 1) * m' = ?n * ?m + ?v" unfolding step(1) by (simp add: field_simps)
  then have mean: "?v = (?n + 1) * m' - ?n * ?m" by simp
  have "- ?n * ?m\<^sup>2 + (?v - ?m) * (?v - m') = ?v\<^sup>2 - (?n + 1) * m'\<^sup>2"
    unfolding mean by (simp add: algebra_simps power2_eq_square)
  then show ?case using snoc.IH step(2) by (simp add: m'_def algebra_simps)
qed (simp add: stats_of_def no_stats_def)

lemma stats_deviations:
  "rs_m2 (stats_of vs) = (\<Sum>v \<leftarrow> vs. (of_int v - rs_mean (stats_of vs))\<^sup>2)"
proof -
  have "(\<Sum>v \<leftarrow> vs. (of_int v - m)\<^sup>2) =
    (\<Sum>v \<leftarrow> vs. (of_int v)\<^sup>2) - 2 * m * of_int (sum_list vs) + of_nat (length vs) * m\<^sup>2" for m :: rat
    by (induction vs) (simp_all add: algebra_simps power2_eq_square)
  moreover have "2 * rs_mean (stats_of vs) * of_int (sum_list vs) = 2 * (of_nat (length vs) * (rs_mean (stats_of vs))\<^sup>2)"
    using stats_mean [of vs] by (metis mult.assoc mult.left_commute power2_eq_square)
  ultimately show ?thesis by (simp add: stats_squares)
qed

lemma stats_range:
  "rs_min (stats_of vs) = fold min vs (2 ^ 63 - 1) \<and> rs_max (stats_of vs) = fold max vs (- (2 ^ 63))"
proof (induction vs rule: rev_induct)
  case (snoc v vs)
  then show ?case by (auto simp: stats_of_snoc stats_add_def Let_def min_def max_def)
qed (simp add: stats_of_def no_stats_def)

lemma reservoir_add_size:
  assumes "length (rv_values r) = min (rv_seen r) (rv_capacity r)"
  shows "length (rv_values (reservoir_add v raw r)) = min (rv_seen (reservoir_add v raw r)) (rv_capacity r) \<and>
    set (rv_values (reservoir_add v raw r)) \<subseteq> insert v (set (rv_values r)) \<and>
    rv_capacity (reservoir_add v raw r) = rv_capacity r \<and> rv_seen (reservoir_add v raw r) = Suc (rv_seen r)"
  using assms set_update_subset_insert [of "rv_values r" "raw mod Suc (rv_seen r)" v]
  by (auto simp: reservoir_add_def Let_def)

lemma reservoir_sample:
  "length (rv_values (fold (\<lambda>(v, raw). reservoir_add v raw) draws (reservoir cap))) = min (length draws) cap \<and>
   set (rv_values (fold (\<lambda>(v, raw). reservoir_add v raw) draws (reservoir cap))) \<subseteq> fst ` set draws \<and>
   rv_capacity (fold (\<lambda>(v, raw). reservoir_add v raw) draws (reservoir cap)) = cap \<and>
   rv_seen (fold (\<lambda>(v, raw). reservoir_add v raw) draws (reservoir cap)) = length draws"
proof (induction draws rule: rev_induct)
  case (snoc d draws)
  obtain v raw where d: "d = (v, raw)" by (cases d)
  let ?r = "fold (\<lambda>(v, raw). reservoir_add v raw) draws (reservoir cap)"
  have "length (rv_values ?r) = min (rv_seen ?r) (rv_capacity ?r)" using snoc by simp
  from reservoir_add_size [OF this, of v raw] show ?case using snoc by (auto simp: d)
qed (simp add: reservoir_def)

definition rank :: "(rat \<Rightarrow> rat) \<Rightarrow> rat \<Rightarrow> nat \<Rightarrow> nat" where
  \<comment> \<open>the index that \<open>pick\<close> uses\<close>
  "rank rnd pct n = nat \<lfloor>rnd (rnd (pct * of_nat (n - 1)) + 1 / 2)\<rfloor>"

lemma percentile_rank: "percentile rnd pct xs = xs ! rank rnd pct (length xs)"
  by (simp add: percentile_def rank_def Let_def)

lemma rank_bound:
  assumes "mono rnd" "pct \<le> 1" "0 < n" "rnd (of_nat (n - 1)) = of_nat (n - 1)"
    and "rnd (of_nat (n - 1) + 1 / 2) = of_nat (n - 1) + 1 / 2"
  shows "rank rnd pct n < n"
proof -
  have "pct * of_nat (n - 1) \<le> of_nat (n - 1)" using assms(2) mult_right_mono [of pct 1 "of_nat (n - 1)"] by simp
  then have "rnd (pct * of_nat (n - 1)) \<le> of_nat (n - 1)" using assms(1,4) by (metis monoD)
  then have "rnd (rnd (pct * of_nat (n - 1)) + 1 / 2) \<le> rnd (of_nat (n - 1) + 1 / 2)" using assms(1) by (simp add: monoD)
  then have "rnd (rnd (pct * of_nat (n - 1)) + 1 / 2) \<le> of_nat (n - 1) + 1 / 2" using assms(5) by simp
  then have "\<lfloor>rnd (rnd (pct * of_nat (n - 1)) + 1 / 2)\<rfloor> < int n" using assms(3) by (simp add: floor_less_iff of_nat_diff)
  then show ?thesis using assms(3) by (simp add: rank_def)
qed

lemma rank_mono:
  assumes "mono rnd" "p \<le> q"
  shows "rank rnd p n \<le> rank rnd q n"
proof -
  have "rnd (p * of_nat (n - 1)) \<le> rnd (q * of_nat (n - 1))" using assms by (simp add: monoD mult_right_mono)
  then show ?thesis unfolding rank_def using assms(1) by (intro nat_mono floor_mono monoD [OF assms(1)]) simp
qed

lemma percentiles_of_sample:
  assumes "mono rnd" "sample \<noteq> []" "rnd 1 = 1" "\<And>k. k < length sample \<Longrightarrow> rnd (of_nat k) = of_nat k"
    and "\<And>k. k < length sample \<Longrightarrow> rnd (of_nat k + 1 / 2) = of_nat k + 1 / 2"
  shows "case compute_percentiles rnd sample of (p50, p90, p99) \<Rightarrow>
    p50 \<le> p90 \<and> p90 \<le> p99 \<and> {p50, p90, p99} \<subseteq> set sample"
proof -
  have below: "rnd q \<le> 1" if "q \<le> 1" for q using assms(1,3) that by (metis monoD)
  have r: "rank rnd (rnd q) (length sample) < length sample" if "q \<le> 1" for q
    using assms below [OF that] by (intro rank_bound) simp_all
  have le: "percentile rnd (rnd p) (sort sample) \<le> percentile rnd (rnd q) (sort sample)" if "p \<le> q" "q \<le> 1" for p q
    unfolding percentile_rank
    using r [OF that(2)] rank_mono [OF assms(1) monoD [OF assms(1) that(1)]] by (intro sorted_nth_mono) simp_all
  have mem: "percentile rnd (rnd q) (sort sample) \<in> set sample" if "q \<le> 1" for q
    unfolding percentile_rank using r [OF that] by (metis length_sort nth_mem set_sort)
  show ?thesis using assms(2) by (simp add: compute_percentiles_def Let_def le mem)
qed

end
