(* ===== verification/Spec2Isabelle.thy ===== *)
theory Spec2Isabelle
  imports EngineProps DataProps QueryProps SinkProps MultiBookProps ReplayProps
    FeedProps LobsterProps FlatTableProps BindingsProps DriverProps
    QueueProps FlatTableMore FlowProps BenchFacts
begin

text \<open>
  This library models \<^verbatim>\<open>lobsim\<close>, a simulator of limit order books: market events (\<^verbatim>\<open>HISTORICAL\<close>) rebuild the
  book of an exchange, and the orders of a strategy under test (\<^verbatim>\<open>STRATEGY\<close>, \<^emph>\<open>paper\<close> orders) are matched
  against it without changing the recorded market, except through the market liquidity they would have to
  wait for. Paths are relative to \<^verbatim>\<open>src/cpp\<close>, headers to \<^verbatim>\<open>src/cpp/include/lobsim\<close>,
  \<^verbatim>\<open>examples\<close> and \<^verbatim>\<open>benchmark\<close> to \<^verbatim>\<open>src\<close>.

  \<^bold>\<open>The program and the theories.\<close>
  \<^item> \<open>LobTypes\<close>: \<^verbatim>\<open>types.hpp\<close>, \<^verbatim>\<open>lob_event.hpp\<close>, \<^verbatim>\<open>log_sink.hpp\<close>, \<^verbatim>\<open>book_id.hpp\<close>. A log sink is an abstract class:
    a run is modelled with the sequence of calls it makes on its sink (\<open>SinkCall\<close>).
  \<^item> \<open>HashMap\<close>: the interface of \<^verbatim>\<open>FlatHashMap\<close> and \<^verbatim>\<open>std::unordered_map\<close> (locale \<open>hash_map\<close>);
    \<open>FlatTable\<close>, \<open>HashPolicy\<close>: the Robin Hood table of \<^verbatim>\<open>flat_hash_map.hpp\<close> that implements it;
    \<open>PriorityQueue\<close>: \<^verbatim>\<open>std::priority_queue\<close> as the interface \<open>priority_queue\<close>; \<open>Prelude\<close>: shared lemmas
    and rewrite collections.
  \<^item> \<open>NodePool\<close>, \<open>Fenwick\<close>: \<^verbatim>\<open>NodePool\<close> and \<^verbatim>\<open>FenwickTree\<close> of \<^verbatim>\<open>paper_trading_simulator.hpp\<close>.
  \<^item> \<open>HistBook\<close>, \<open>PaperBook\<close>, \<open>Engine\<close>, \<open>Snapshot\<close>, \<open>Queries\<close>: \<^verbatim>\<open>PaperTradingSimulator\<close>
    (\<^verbatim>\<open>src/paper_trading_simulator.cpp\<close>). \<open>Hist\<close> holds the historical books, their heaps, the index by order id
    and the pool; \<open>Paper\<close> the paper levels with their Fenwick trees over market arrivals; \<open>Sim\<close> both, the
    counters and the calls made on the sink. \<open>update\<close> dispatches to one definition per handler.
  \<^item> \<open>Sinks\<close>: \<^verbatim>\<open>InMemoryLogSink\<close> with the ledger of strategy orders, \<^verbatim>\<open>InMemoryMultiLogSink\<close> and the wrapper
    \<^verbatim>\<open>BookScopedSink\<close>.
  \<^item> \<open>MultiBook\<close>: \<^verbatim>\<open>MultiBookSimulator\<close>, engines per book behind one merge of event streams and submitted
    strategy events.
  \<^item> \<open>ReplaySession\<close>: \<^verbatim>\<open>replay_session.hpp\<close> over any engine (locale \<open>matching_engine\<close>).
  \<^item> \<open>Text\<close>, \<open>Instrument\<close>, \<open>Coinbase\<close>: the character and number functions the feeds call,
    \<^verbatim>\<open>instrument.hpp\<close>, \<^verbatim>\<open>coinbase_btcusdt_adapter.hpp\<close> and \<^verbatim>\<open>src/coinbase_btcusdt_parquet_source.cpp\<close>.
  \<^item> \<open>Bindings\<close>: what \<^verbatim>\<open>src/python_bindings.cpp\<close> does beyond exposing classes: sources and adapters that wrap
    Python objects, \<^verbatim>\<open>run_raw\<close>, the names of diagnostics.
  \<^item> \<open>Lobster\<close>: the replay of LOBSTER files, \<^verbatim>\<open>examples/lobsim_lobster_cpp.cpp\<close>; \<open>Drivers\<close>: the main programs of
    \<^verbatim>\<open>examples\<close>, from what their sources read to what they print.
  \<^item> \<open>BlockingQueue\<close>: the queue between threads of \<^verbatim>\<open>benchmark/blocking_queue.hpp\<close> as a labelled transition
    relation \<open>bq_step\<close>; \<open>EventParser\<close>: the text form of events, the datagrams of the generator and the
    loops that receive them (\<^verbatim>\<open>benchmark/normalized_event_parser.hpp\<close>, \<^verbatim>\<open>lobsim_event_generator.cpp\<close>,
    \<^verbatim>\<open>lobsim_udp_main.cpp\<close>); \<open>OrderFlow\<close>: which events the generators of \<^verbatim>\<open>lobsim_event_generator.cpp\<close> and
    \<^verbatim>\<open>lobsim_memory_replay_main.cpp\<close> draw, with the outcome of every random draw a parameter.
  \<^item> \<open>Bench\<close>: the replay benchmark \<^verbatim>\<open>benchmark/lobsim_bench_cpp.cpp\<close>, from its arguments to its report, and the
    running statistics, reservoir and percentiles of \<^verbatim>\<open>lobsim_udp_main.cpp\<close>.

  \<^bold>\<open>The lemmas.\<close>
  \<^item> \<open>HistInv\<close>, \<open>HistOps\<close>, \<open>PaperInv\<close>, \<open>PaperOps\<close>, \<open>PaperWf\<close>, \<open>EngineInv\<close>: the invariant \<open>sim_wf\<close>
    (queues, indexes, pools and heaps agree) and that every handler keeps it; \<open>MarketLink\<close>: the Fenwick
    trees hold the resting market lots by arrival; \<open>CallFrame\<close> and \<open>CallTags\<close>: what the sink can and
    cannot observe.
  \<^item> \<open>Sweep\<close>, \<open>Ladder\<close>, \<open>EngineFacts\<close>, \<open>PaperQueue\<close>: matching refines the abstract \<^emph>\<open>ladder\<close> of a side (its
    orders in price-time order), from which \<open>served\<close> and \<open>left_over\<close> take a quantity. A paper order waits for the market
    lots, the paper lots and the \<^emph>\<open>ghost lots\<close> ahead of it (\<open>waiting\<close>, \<open>queue_due\<close>): ghosts are lots that a
    tree counts though their order was filled in full by an aggressor.
    \<open>EngineProps\<close> and \<open>DataProps\<close> state the properties of the engine and its data structures.
  \<^item> \<open>SnapshotFacts\<close>, \<open>QueryProps\<close>: loading and querying books. \<open>SinkFacts\<close>, \<open>SinkProps\<close>: the ledger,
    and the multi-book sink as one single-book sink per book.
  \<^item> \<open>MultiBookFacts\<close>, \<open>MultiBookRun\<close>, \<open>MultiBookReplay\<close>, \<open>MultiBookProps\<close>: the invariant of the merge
    over the inductive relation \<open>multibook_reachable\<close>, and that a replay is a replay per book.
  \<^item> \<open>ReplayFacts\<close>, \<open>ReplayProps\<close>: which events a session applies and how it stops.
  \<^item> \<open>InstrumentFacts\<close>, \<open>CoinbaseFacts\<close>, \<open>FeedProps\<close>: rounding policies, times of day, and what a file
    can put into an engine. \<open>LobsterProps\<close>: an engine loaded from a row of a file shows that row.
    \<open>BindingsProps\<close>: \<^verbatim>\<open>run_raw\<close> against a run over the same source. \<open>DriverProps\<close>: without \<^verbatim>\<open>fail_fast\<close>
    only a source can make the merge throw, so the two-book replay ends, with an exception or after its steps,
    and the report of fills determines the fills.
    \<open>QueueProps\<close>: under every interleaving the queue delivers what it accepted and loses no wake-up, and
    events take the way from the generator to an engine unchanged.
  \<^item> \<open>OrderTracking\<close>: an abstract book that knows the open orders by id, and that the engine implements it as
    long as no order crosses; \<open>FlowFacts\<close>, \<open>FlowProps\<close>: the two representations of live orders simulate each
    other, and the generators believe in exactly the orders that the engine holds.
  \<^item> \<open>BenchFacts\<close>: the loop of the benchmark is a run of the session on the rows up to its limit, with or without a
    sink; decimal options are read exactly; with exact arithmetic the statistics are mean, squared deviations
    and range of the values, and the percentiles are ordered values of the sample.
  \<^item> \<open>FlatBits\<close>: logarithm, next power of two and Fibonacci index on words; \<open>FlatTableInv\<close>: the loops over
    a stretch of entries keep the Robin Hood order; \<open>FlatTableFacts\<close>: insertion and growth; \<open>FlatTableMap\<close>: the
    other operations and the contract \<open>partial_hash_map\<close>; \<open>FlatTableMore\<close>: iterators, erasure of a range,
    construction, moving and sets; \<open>FlatTableTotal\<close>: when insertion returns;
    \<open>FlatTableRun\<close>, \<open>FlatTableProps\<close>: runs of operations refine those of \<open>HashMap\<close>.

  \<^bold>\<open>Modelling choices.\<close> An \<^verbatim>\<open>int64\<close> is an \<open>int\<close>: signed overflow is undefined in the source, and the model is
  the program where none happens; unsigned counters and sizes are \<open>nat\<close>. Where the width is visible
  (the hash of order ids, the conversion of prices, the bit tricks of the hash table and the Fenwick
  tree) it is modelled: 64-bit words, ranges, or powers of two. An exception is the left part of a sum,
  paired with the state that was reached when it was thrown. Iteration order of hash maps is the order of an
  association list and no result depends on it. Handlers loop by structural recursion or with a
  measure (resting lots, rows left); the two loops over streams that need an invariant to end are
  \<open>partial_function (option)\<close>, and \<open>step_until_returns\<close> proves that they return. An insertion into the hash table
  may grow it any number of times with a bad hash; it takes a number of nested growths, of which 62 suffice for a hash that
  gives the keys distinct slots at some size (\<open>flat_table_total\<close>); up to \<open>2 ^ 52\<close> elements, its load factor is exact. Sources of events are
  finite lists of what they still deliver, with the places where they throw. A \<^verbatim>\<open>long double\<close> is a rational, an infinity or NaN, with
  the rounding of the platform a parameter; Arrow's arrays are typed lists of cells.

  \<^bold>\<open>Not modelled.\<close> The registration of classes with pybind11 and its conversions, the rest of
  \<^verbatim>\<open>benchmark\<close> (sockets, clocks, resource usage), and opening files and decoding Parquet (Arrow). Of
  \<^verbatim>\<open>flat_hash_map.hpp\<close>: other load factors than one half and allocators that are not interchangeable.
  Memory exhaustion, the destruction of objects and the fields of a moved-from event are outside of the model.
\<close>

end
